(* ===== verification/Prelude.thy ===== *)
theory Prelude
  imports Main "HOL-Library.Word"
begin

text \<open>
  Shared vocabulary of the development: fixed-width integers with Rust's saturating addition,
  saturating \<open>usize\<close> arithmetic, results as sums (\<open>Inl\<close> the error, \<open>Inr\<close> the value), and the
  combinators in which the stateful code is written (a step takes the world and returns a result
  and the new world). The laws of the combinators are proved once here, for any relation between
  worlds that is reflexive and transitive, so that an invariant of a handler follows from the
  invariants of the steps it is composed of.
\<close>

named_theorems sat_simps \<open>saturating arithmetic\<close>
named_theorems step_intros \<open>composition rules for steps\<close>

section \<open>Machine integers\<close>

type_synonym u64 = "64 word"
type_synonym u32 = "32 word"
type_synonym u8 = "8 word"

text \<open>Rust's \<open>a.saturating_add(b)\<close> on an unsigned type: the sum, or the largest value.\<close>

definition sat_add :: "'a::len word \<Rightarrow> 'a word \<Rightarrow> 'a word" where
  "sat_add a b = (if unat a + unat b < 2 ^ LENGTH('a) then a + b else - 1)"

text \<open>For evaluation, without the numeral of the bound.\<close>

lemma sat_add_code [code]: "sat_add a b = (let c = a + b in if c < a then - 1 else c)"
  for a b :: "'a::len word"
proof (cases "unat a + unat b < 2 ^ LENGTH('a)")
  case True
  then have "\<not> a + b < a" by (simp add: word_less_nat_alt unat_word_ariths)
  then show ?thesis using True by (simp add: sat_add_def Let_def)
next
  case False
  have "unat a < 2 ^ LENGTH('a)" "unat b < 2 ^ LENGTH('a)" by (rule unsigned_less)+
  then have "unat a + unat b - 2 ^ LENGTH('a) < unat a" "unat a + unat b - 2 ^ LENGTH('a) < 2 ^ LENGTH('a)"
    using False by linarith+
  then have "unat (a + b) < unat a" using False
    by (simp add: unat_word_ariths not_less le_mod_geq)
  then show ?thesis using False by (simp add: sat_add_def Let_def word_less_nat_alt)
qed

text \<open>Rust's \<open>a.saturating_sub(b)\<close>.\<close>

definition sat_sub :: "'a::len word \<Rightarrow> 'a word \<Rightarrow> 'a word" where
  "sat_sub a b = (if b \<le> a then a - b else 0)"

text \<open>\<open>usize\<close> is a natural number with the 64-bit bound written out where the code saturates.\<close>

definition usize_max :: nat where
  "usize_max = 2 ^ 64 - 1"

definition usize_add :: "nat \<Rightarrow> nat \<Rightarrow> nat" where
  "usize_add a b = min (a + b) usize_max"

lemma unat_max_word: "unat (- 1 :: 'a::len word) = 2 ^ LENGTH('a) - 1"
  by (simp add: unsigned_minus_1_eq_mask mask_eq_exp_minus_1)

lemma unat_sat_add [sat_simps]:
  "unat (sat_add a b :: 'a::len word) = min (unat a + unat b) (2 ^ LENGTH('a) - 1)"
proof (cases "unat a + unat b < 2 ^ LENGTH('a)")
  case True
  then show ?thesis by (simp add: sat_add_def unat_word_ariths)
next
  case False
  then show ?thesis by (simp add: sat_add_def unat_max_word)
qed

lemma unat_sat_sub [sat_simps]: "unat (sat_sub a b) = unat a - unat b"
  by (auto simp: sat_sub_def unat_sub word_le_nat_alt)

lemma word_eq_unat: "a = b \<longleftrightarrow> unat a = unat (b :: 'a::len word)"
  by (simp add: word_unat_eq_iff)

lemma sat_add_ge:
  fixes a b :: "'a::len word"
  shows "a \<le> sat_add a b" "b \<le> sat_add a b"
proof -
  have "unat a < 2 ^ LENGTH('a)" "unat b < 2 ^ LENGTH('a)" by (rule unsigned_less)+
  then have "unat a \<le> 2 ^ LENGTH('a) - 1" "unat b \<le> 2 ^ LENGTH('a) - 1" by linarith+
  then show "a \<le> sat_add a b" "b \<le> sat_add a b" by (auto simp: word_le_nat_alt unat_sat_add)
qed

lemma sat_add_one_less: "a < (- 1 :: 'a::len word) \<Longrightarrow> 1 < LENGTH('a) \<Longrightarrow> a < sat_add a 1"
proof -
  assume less: "a < (- 1 :: 'a word)" and len: "1 < LENGTH('a)"
  then have "unat (1 :: 'a word) = 1" by simp
  moreover from less have "unat a < 2 ^ LENGTH('a) - 1"
    by (simp add: word_less_nat_alt unat_max_word)
  ultimately show ?thesis by (simp add: word_less_nat_alt unat_sat_add)
qed

lemma sat_add_commute: "sat_add a b = sat_add b a"
  by (simp add: sat_add_def add.commute)

lemma sat_add_assoc: "sat_add (sat_add a b) c = sat_add a (sat_add b (c :: 'a::len word))"
  by (simp add: word_eq_unat unat_sat_add)

section \<open>Steps: state passing with errors\<close>

type_synonym ('w, 'e, 'a) step = "'w \<Rightarrow> ('e + 'a) \<times> 'w"

definition retS :: "'a \<Rightarrow> ('w, 'e, 'a) step" where
  "retS x = (\<lambda>w. (Inr x, w))"

definition failS :: "'e \<Rightarrow> ('w, 'e, 'a) step" where
  "failS e = (\<lambda>w. (Inl e, w))"

text \<open>Sequencing with Rust's \<open>?\<close>: an error of the first step is the result.\<close>

definition bindS :: "('w, 'e, 'a) step \<Rightarrow> ('a \<Rightarrow> ('w, 'f, 'b) step) \<Rightarrow> ('e \<Rightarrow> 'f) \<Rightarrow> ('w, 'f, 'b) step"
  where
  "bindS m k h = (\<lambda>w. case m w of (Inl e, w') \<Rightarrow> (Inl (h e), w') | (Inr x, w') \<Rightarrow> k x w')"

definition bindE :: "('w, 'e, 'a) step \<Rightarrow> ('a \<Rightarrow> ('w, 'e, 'b) step) \<Rightarrow> ('w, 'e, 'b) step" where
  "bindE m k = bindS m k (\<lambda>e. e)"

abbreviation thenE :: "('w, 'e, 'a) step \<Rightarrow> ('w, 'e, 'b) step \<Rightarrow> ('w, 'e, 'b) step" where
  "thenE m n \<equiv> bindE m (\<lambda>_. n)"

text \<open>Rust's \<open>let _ = m;\<close>: the result of the step is dropped, its effect is not.\<close>

definition ignoreS :: "('w, 'e, 'a) step \<Rightarrow> ('w, 'f, unit) step" where
  "ignoreS m = (\<lambda>w. (Inr (), snd (m w)))"

text \<open>Running a step and looking at its result, errors included.\<close>

definition tryS :: "('w, 'e, 'a) step \<Rightarrow> ('w, 'f, 'e + 'a) step" where
  "tryS m = (\<lambda>w. case m w of (r, w') \<Rightarrow> (Inr r, w'))"

definition getS :: "('w \<Rightarrow> 'a) \<Rightarrow> ('w, 'e, 'a) step" where
  "getS f = (\<lambda>w. (Inr (f w), w))"

definition modS :: "('w \<Rightarrow> 'w) \<Rightarrow> ('w, 'e, unit) step" where
  "modS f = (\<lambda>w. (Inr (), f w))"

text \<open>A \<open>for\<close> loop whose body may leave with \<open>?\<close>.\<close>

fun forE :: "'x list \<Rightarrow> ('x \<Rightarrow> ('w, 'e, unit) step) \<Rightarrow> ('w, 'e, unit) step" where
  "forE [] body = retS ()"
| "forE (x # xs) body = thenE (body x) (forE xs body)"

lemmas step_defs = retS_def failS_def bindE_def bindS_def ignoreS_def tryS_def getS_def modS_def

lemma bindE_Inr: "bindE m k w = (Inr y, w'') \<longleftrightarrow> (\<exists>x v. m w = (Inr x, v) \<and> k x v = (Inr y, w''))"
  by (auto simp: bindE_def bindS_def split: prod.splits sum.splits)

lemma bindE_Inl:
  "bindE m k w = (Inl e, w'') \<longleftrightarrow> m w = (Inl e, w'') \<or> (\<exists>x v. m w = (Inr x, v) \<and> k x v = (Inl e, w''))"
  by (auto simp: bindE_def bindS_def split: prod.splits sum.splits)

lemma bindE_assoc: "bindE (bindE m k) l = bindE m (\<lambda>x. bindE (k x) l)"
  by (auto simp: step_defs fun_eq_iff split: prod.splits sum.splits)

lemma bindE_retS [simp]: "bindE (retS x) k = k x" "bindE m retS = m"
  by (auto simp: step_defs fun_eq_iff split: prod.splits sum.splits)

lemma bindE_failS [simp]: "bindE (failS e) k = failS e"
  by (simp add: step_defs)

subsection \<open>Relations between worlds that steps respect\<close>

text \<open>Every run of the step relates the worlds before and after, and fails only with an expected error.\<close>

definition obeys :: "('w \<Rightarrow> 'w \<Rightarrow> bool) \<Rightarrow> ('e \<Rightarrow> bool) \<Rightarrow> ('w, 'e, 'a) step \<Rightarrow> bool" where
  "obeys R E m \<longleftrightarrow> (\<forall>w. R w (snd (m w)) \<and> (\<forall>e. fst (m w) = Inl e \<longrightarrow> E e))"

lemma obeysD: "obeys R E m \<Longrightarrow> m w = (r, w') \<Longrightarrow> R w w'"
  unfolding obeys_def by (metis snd_conv)

lemma obeys_error: "obeys R E m \<Longrightarrow> m w = (Inl e, w') \<Longrightarrow> E e"
  unfolding obeys_def by (metis fst_conv)

lemma obeysI: "(\<And>w. R w (snd (m w))) \<Longrightarrow> (\<And>w e. fst (m w) = Inl e \<Longrightarrow> E e) \<Longrightarrow> obeys R E m"
  by (simp add: obeys_def)

text \<open>
  The interface between an invariant and the handlers: a relation that every step may be asked to
  respect, and the errors it may end with. The lemmas are proved once, and each component interprets
  the locale on the relations its invariants need (an event log that only grows, counters that never
  go back).
\<close>

locale step_law =
  fixes R :: "'w \<Rightarrow> 'w \<Rightarrow> bool" and E :: "'e \<Rightarrow> bool"
  assumes R_refl: "R w w"
    and R_trans: "R u v \<Longrightarrow> R v w \<Longrightarrow> R u w"
begin

lemma law_retS: "obeys R E (retS x)"
  by (simp add: obeys_def retS_def R_refl)

lemma law_failS: "E e \<Longrightarrow> obeys R E (failS e)"
  by (simp add: obeys_def failS_def R_refl)

lemma law_getS: "obeys R E (getS f)"
  by (simp add: obeys_def getS_def R_refl)

lemma law_modS: "(\<And>w. R w (f w)) \<Longrightarrow> obeys R E (modS f)"
  by (simp add: obeys_def modS_def)

lemma law_bindE:
  assumes "obeys R E m" and "\<And>x. obeys R E (k x)"
  shows "obeys R E (bindE m k)"
proof (rule obeysI)
  fix w
  obtain r v where "m w = (r, v)" by fastforce
  then have "bindE m k w = (case r of Inl e \<Rightarrow> (Inl e, v) | Inr x \<Rightarrow> k x v)" and m: "R w v" "\<And>e. r = Inl e \<Longrightarrow> E e"
    using assms(1) by (auto simp: bindE_def bindS_def dest: obeysD obeys_error)
  then show "R w (snd (bindE m k w))" "\<And>e. fst (bindE m k w) = Inl e \<Longrightarrow> E e"
    using assms(2) R_trans by (auto simp: obeys_def split: sum.splits)
qed

lemma law_ignoreS: "(\<And>w. R w (snd (m w))) \<Longrightarrow> obeys R E (ignoreS m)"
  by (simp add: obeys_def ignoreS_def)

lemma law_tryS: "(\<And>w. R w (snd (m w))) \<Longrightarrow> obeys R E (tryS m)"
  by (simp add: obeys_def tryS_def split: prod.splits) (metis snd_conv)

lemma law_forE: "(\<And>x. obeys R E (body x)) \<Longrightarrow> obeys R E (forE xs body)"
  by (induction xs) (simp_all add: law_retS law_bindE)

lemmas law_intros = law_retS law_failS law_getS law_modS law_bindE law_forE

end

subsection \<open>What a step returns\<close>

definition returns :: "('w, 'e, 'a) step \<Rightarrow> ('a \<Rightarrow> bool) \<Rightarrow> bool" where
  "returns m V \<longleftrightarrow> (\<forall>w x. fst (m w) = Inr x \<longrightarrow> V x)"

lemma returnsD: "returns m V \<Longrightarrow> m w = (Inr x, w') \<Longrightarrow> V x"
  unfolding returns_def by (metis fst_conv)

lemma returnsI: "(\<And>w x w'. m w = (Inr x, w') \<Longrightarrow> V x) \<Longrightarrow> returns m V"
  unfolding returns_def by (metis prod.collapse)

lemma returns_weaken: "returns m V \<Longrightarrow> (\<And>x. V x \<Longrightarrow> U x) \<Longrightarrow> returns m U"
  by (simp add: returns_def)

lemma returns_retS: "V x \<Longrightarrow> returns (retS x) V"
  by (simp add: returns_def retS_def)

lemma returns_failS: "returns (failS e) V"
  by (simp add: returns_def failS_def)

lemma returns_bindE: "returns m V \<Longrightarrow> (\<And>x. V x \<Longrightarrow> returns (k x) U) \<Longrightarrow> returns (bindE m k) U"
  by (rule returnsI) (auto simp: bindE_Inr dest: returnsD)

lemma returns_after: "(\<And>x. returns (k x) U) \<Longrightarrow> returns (bindE m k) U"
  by (rule returnsI) (auto simp: bindE_Inr dest: returnsD)

section \<open>Lists and options\<close>

lemma sorted_wrt_snoc:
  "sorted_wrt P (xs @ [x]) \<longleftrightarrow> sorted_wrt P xs \<and> (\<forall>y \<in> set xs. P y x)"
  by (auto simp: sorted_wrt_append)

lemma map_add_upd_shift: "k \<notin> dom g \<Longrightarrow> m(k \<mapsto> v) ++ g = m ++ g(k \<mapsto> v)"
  by (auto simp: map_add_def fun_eq_iff dom_def split: option.splits)

lemma dom_map_of_pairs: "dom (map_of (map (\<lambda>x. (f x, g x)) xs)) = set (map f xs)"
  by (force simp: dom_map_of_conv_image_fst)

lemma map_option_None_iff: "map_option f x = None \<longleftrightarrow> x = None"
  by (cases x) auto

end
