(* ===== verification/Core_Types.thy ===== *)
theory Core_Types
  imports Prelude
begin

text \<open>
  The data of \<open>tea-core\<close>: identifiers and scalar state (\<open>state/identifiers.rs\<close>), provider usage
  (\<open>state/accounting.rs\<close>), tool calls, failures and results (\<open>tool.rs\<close>), conversation messages
  (\<open>state/messages.rs\<close>), typed errors (\<open>error.rs\<close>) and lifecycle events (\<open>event.rs\<close>). One-field
  Rust wrappers around an integer or a string (\<open>MessageId(u64)\<close>, \<open>ToolCallId(String)\<close>,
  \<open>SerializedJson(String)\<close>) are the wrapped type. A Rust \<open>String\<close> is its UTF-8 bytes, so \<open>length\<close>
  is the code's \<open>len()\<close>.
\<close>

section \<open>Identifiers and scalar state\<close>

type_synonym message_id = u64
type_synonym run_id = u64
type_synonym turn_id = u64
type_synonym event_sequence = u64
type_synonym tool_call_id = string
type_synonym serialized_json = string

datatype tool_call_id_error = ToolCallIdError

definition tool_call_id_new :: "string \<Rightarrow> tool_call_id_error + tool_call_id" where
  "tool_call_id_new value = (if value = [] then Inl ToolCallIdError else Inr value)"

datatype thinking_level = Off | Minimal | Low | Medium | High | XHigh | MaxLevel

record model_descriptor =
  md_provider :: string
  md_model :: string
  md_revision :: "string option"

datatype stop_reason = Stop | ToolUse | Length | Aborted | CancelledReason | ErrorReason

datatype agent_phase = Idle | Running run_id | Cancelling run_id

datatype run_phase = Created | RunRunning | Settling | Succeeded | Failed | Cancelled

fun is_terminal :: "run_phase \<Rightarrow> bool" where
  "is_terminal Succeeded = True"
| "is_terminal Failed = True"
| "is_terminal Cancelled = True"
| "is_terminal Created = False"
| "is_terminal RunRunning = False"
| "is_terminal Settling = False"

section \<open>Provider usage\<close>

record usage =
  input_tokens :: "u64 option"
  output_tokens :: "u64 option"
  reasoning_tokens :: "u64 option"
  cache_read_tokens :: "u64 option"
  cache_write_tokens :: "u64 option"
  cost :: "string option"

section \<open>Tools\<close>

type_synonym failure_signature = string

datatype tool_failure_disposition =
  CancelledFailure | InvalidArguments | Recoverable | Retryable | Fatal

record tool_failure =
  disposition :: tool_failure_disposition
  signature :: "failure_signature option"
  recovery_guidance :: "string option"

definition tf_cancelled :: tool_failure where
  "tf_cancelled = \<lparr>disposition = CancelledFailure, signature = None, recovery_guidance = None\<rparr>"

definition tf_invalid_arguments :: tool_failure where
  "tf_invalid_arguments =
     \<lparr>disposition = InvalidArguments, signature = None, recovery_guidance = None\<rparr>"

definition tf_recoverable :: tool_failure where
  "tf_recoverable = \<lparr>disposition = Recoverable, signature = None, recovery_guidance = None\<rparr>"

definition tf_retryable :: "failure_signature \<Rightarrow> tool_failure" where
  "tf_retryable s = \<lparr>disposition = Retryable, signature = Some s, recovery_guidance = None\<rparr>"

definition tf_fatal :: "failure_signature \<Rightarrow> tool_failure" where
  "tf_fatal s = \<lparr>disposition = Fatal, signature = Some s, recovery_guidance = None\<rparr>"

definition with_recovery_guidance :: "tool_failure \<Rightarrow> string \<Rightarrow> tool_failure" where
  "with_recovery_guidance f guidance = f\<lparr>recovery_guidance := Some guidance\<rparr>"

datatype tool_execution_mode = Sequential | Parallel

record tool_call =
  tc_id :: tool_call_id
  tc_name :: string
  tc_arguments :: serialized_json

record agent_tool_result =
  tool_call_id :: tool_call_id
  content :: string
  details :: "serialized_json option"
  result_usage :: "usage option"
  added_tool_names :: "string list"
  terminate :: bool
  is_error :: bool
  failure :: "tool_failure option"

record tool_update =
  update_content :: string
  update_details :: "serialized_json option"

section \<open>Messages\<close>

text \<open>\<open>AgentToolCall\<close> has the fields of \<open>ToolCall\<close>; the code copies one into the other.\<close>

type_synonym agent_tool_call = tool_call

datatype agent_message =
  UserMessage message_id string
| AssistantMessage message_id string "agent_tool_call list" "stop_reason option" "string option"
| ToolResultMessage message_id string agent_tool_result

text \<open>
  \<open>AgentMessage::ToolResult\<close> carries the fields of an \<open>AgentToolResult\<close> beside its own ID and the
  tool's name; they are kept together as one result here.
\<close>

fun message_id :: "agent_message \<Rightarrow> message_id" where
  "message_id (UserMessage i c) = i"
| "message_id (AssistantMessage i c tcs sr em) = i"
| "message_id (ToolResultMessage i n r) = i"

fun is_user :: "agent_message \<Rightarrow> bool" where
  "is_user (UserMessage i c) = True"
| "is_user m = False"

fun is_assistant :: "agent_message \<Rightarrow> bool" where
  "is_assistant (AssistantMessage i c tcs sr em) = True"
| "is_assistant m = False"

fun is_tool_result :: "agent_message \<Rightarrow> bool" where
  "is_tool_result (ToolResultMessage i n r) = True"
| "is_tool_result m = False"

end
