(* ===== verification/Queues.thy ===== *)
theory Queues
  imports Core_Types
begin

text \<open>
  The steering and follow-up queues of \<open>tea-core/src/queue.rs\<close>. Both are one \<open>MessageQueue\<close>; the
  interface the run loop relies on (\<open>push\<close>, \<open>drain\<close>) is the locale \<open>drained_queue\<close>, and the delivery
  laws are proved in it and interpreted for the two queues.
\<close>

section \<open>The message queue\<close>

record queued_message =
  sequence :: u64
  queued_content :: string

datatype queue_mode = OneAtATime | AllMessages

record message_queue =
  next_sequence :: u64
  entries :: "queued_message list"

definition mq_default :: message_queue where
  "mq_default = \<lparr>next_sequence = 0, entries = []\<rparr>"

definition mq_push :: "string \<Rightarrow> message_queue \<Rightarrow> u64 \<times> message_queue" where
  "mq_push c q =
     (let s = sat_add (next_sequence q) 1
      in (s, q\<lparr>next_sequence := s,
               entries := entries q @ [\<lparr>sequence = s, queued_content = c\<rparr>]\<rparr>))"

definition mq_pop :: "message_queue \<Rightarrow> queued_message option \<times> message_queue" where
  "mq_pop q = (case entries q of [] \<Rightarrow> (None, q) | m # ms \<Rightarrow> (Some m, q\<lparr>entries := ms\<rparr>))"

fun mq_drain :: "queue_mode \<Rightarrow> message_queue \<Rightarrow> queued_message list \<times> message_queue" where
  "mq_drain OneAtATime q =
     (case mq_pop q of (None, q') \<Rightarrow> ([], q') | (Some m, q') \<Rightarrow> ([m], q'))"
| "mq_drain AllMessages q = (entries q, q\<lparr>entries := []\<rparr>)"

definition mq_clear :: "message_queue \<Rightarrow> message_queue" where
  "mq_clear q = q\<lparr>entries := []\<rparr>"

definition mq_snapshot :: "message_queue \<Rightarrow> queued_message list" where
  "mq_snapshot q = entries q"

section \<open>The two named queues\<close>

record agent_queues =
  steering :: message_queue
  follow_up :: message_queue

definition queues_default :: agent_queues where
  "queues_default = \<lparr>steering = mq_default, follow_up = mq_default\<rparr>"

definition steering_push :: "string \<Rightarrow> agent_queues \<Rightarrow> u64 \<times> agent_queues" where
  "steering_push c qs = (case mq_push c (steering qs) of (s, q) \<Rightarrow> (s, qs\<lparr>steering := q\<rparr>))"

definition steering_drain ::
  "queue_mode \<Rightarrow> agent_queues \<Rightarrow> queued_message list \<times> agent_queues" where
  "steering_drain mode qs =
     (case mq_drain mode (steering qs) of (ms, q) \<Rightarrow> (ms, qs\<lparr>steering := q\<rparr>))"

definition steering_clear :: "agent_queues \<Rightarrow> agent_queues" where
  "steering_clear qs = qs\<lparr>steering := mq_clear (steering qs)\<rparr>"

definition steering_is_empty :: "agent_queues \<Rightarrow> bool" where
  "steering_is_empty qs \<longleftrightarrow> entries (steering qs) = []"

definition follow_up_push :: "string \<Rightarrow> agent_queues \<Rightarrow> u64 \<times> agent_queues" where
  "follow_up_push c qs = (case mq_push c (follow_up qs) of (s, q) \<Rightarrow> (s, qs\<lparr>follow_up := q\<rparr>))"

definition follow_up_drain ::
  "queue_mode \<Rightarrow> agent_queues \<Rightarrow> queued_message list \<times> agent_queues" where
  "follow_up_drain mode qs =
     (case mq_drain mode (follow_up qs) of (ms, q) \<Rightarrow> (ms, qs\<lparr>follow_up := q\<rparr>))"

definition follow_up_clear :: "agent_queues \<Rightarrow> agent_queues" where
  "follow_up_clear qs = qs\<lparr>follow_up := mq_clear (follow_up qs)\<rparr>"

definition follow_up_is_empty :: "agent_queues \<Rightarrow> bool" where
  "follow_up_is_empty qs \<longleftrightarrow> entries (follow_up qs) = []"

definition queues_clear :: "agent_queues \<Rightarrow> agent_queues" where
  "queues_clear qs = follow_up_clear (steering_clear qs)"

lemmas queue_defs = mq_push_def mq_pop_def mq_clear_def steering_push_def steering_drain_def
  follow_up_push_def follow_up_drain_def Let_def

section \<open>The interface and its delivery law\<close>

text \<open>A schedule of the operations a host and the run loop perform on one queue.\<close>

datatype queue_op = Push string | Drain queue_mode

fun queue_trace ::
  "(string \<Rightarrow> 'q \<Rightarrow> u64 \<times> 'q) \<Rightarrow> (queue_mode \<Rightarrow> 'q \<Rightarrow> queued_message list \<times> 'q) \<Rightarrow>
   queue_op list \<Rightarrow> 'q \<Rightarrow> queued_message list \<times> 'q" where
  "queue_trace push drain [] q = ([], q)"
| "queue_trace push drain (Push c # ops) q = queue_trace push drain ops (snd (push c q))"
| "queue_trace push drain (Drain m # ops) q =
     (case drain m q of (ms, q1) \<Rightarrow>
      case queue_trace push drain ops q1 of (rest, q2) \<Rightarrow> (ms @ rest, q2))"

fun pushed :: "queue_op list \<Rightarrow> string list" where
  "pushed [] = []"
| "pushed (Push c # ops) = c # pushed ops"
| "pushed (Drain m # ops) = pushed ops"

locale drained_queue =
  fixes push :: "string \<Rightarrow> 'q \<Rightarrow> u64 \<times> 'q"
    and drain :: "queue_mode \<Rightarrow> 'q \<Rightarrow> queued_message list \<times> 'q"
    and waiting :: "'q \<Rightarrow> queued_message list"
  assumes waiting_push:
      "waiting (snd (push c q)) = waiting q @ [\<lparr>sequence = fst (push c q), queued_content = c\<rparr>]"
    and drain_one: "drain OneAtATime q = (ms, q') \<Longrightarrow>
      ms = take 1 (waiting q) \<and> waiting q' = drop 1 (waiting q)"
    and drain_all: "drain AllMessages q = (ms, q') \<Longrightarrow> ms = waiting q \<and> waiting q' = []"
begin

lemma drain_split: "drain m q = (ms, q') \<Longrightarrow> ms @ waiting q' = waiting q"
  by (cases m) (use drain_one drain_all append_take_drop_id in \<open>metis append_Nil2\<close>)+

lemma trace_delivers:
  "queue_trace push drain ops q = (ms, q') \<Longrightarrow>
   map queued_content (ms @ waiting q') = map queued_content (waiting q) @ pushed ops"
proof (induction ops arbitrary: q ms q')
  case Nil
  then show ?case by simp
next
  case (Cons op ops)
  show ?case
  proof (cases op)
    case (Push c)
    with Cons.prems have "queue_trace push drain ops (snd (push c q)) = (ms, q')" by simp
    from Cons.IH [OF this] Push show ?thesis by (simp add: waiting_push)
  next
    case (Drain m)
    obtain ms1 q1 where d: "drain m q = (ms1, q1)" by fastforce
    obtain ms2 q2 where t: "queue_trace push drain ops q1 = (ms2, q2)" by fastforce
    from Cons.prems Drain d t have "ms = ms1 @ ms2" "q' = q2" by simp_all
    with Cons.IH [OF t] drain_split [OF d, symmetric] Drain show ?thesis by simp
  qed
qed

end

interpretation steering_queue: drained_queue steering_push steering_drain "\<lambda>qs. entries (steering qs)"
proof (unfold_locales, goal_cases)
  case (1 c q)
  then show ?case by (simp add: queue_defs)
next
  case (2 q ms q')
  then show ?case by (auto simp: queue_defs split: list.splits)
next
  case (3 q ms q')
  then show ?case by (auto simp: queue_defs)
qed

interpretation follow_up_queue: drained_queue follow_up_push follow_up_drain "\<lambda>qs. entries (follow_up qs)"
proof (unfold_locales, goal_cases)
  case (1 c q)
  then show ?case by (simp add: queue_defs)
next
  case (2 q ms q')
  then show ?case by (auto simp: queue_defs split: list.splits)
next
  case (3 q ms q')
  then show ?case by (auto simp: queue_defs)
qed

section \<open>Sequence numbers\<close>

text \<open>
  The queue-local sequence numbers: the waiting entries are in strictly ascending order and none is
  above the last number handed out.
\<close>

definition mq_ok :: "message_queue \<Rightarrow> bool" where
  "mq_ok q \<longleftrightarrow> sorted_wrt (<) (map sequence (entries q)) \<and>
     (\<forall>m \<in> set (entries q). sequence m \<le> next_sequence q)"

lemma mq_ok_default: "mq_ok mq_default"
  by (simp add: mq_ok_def mq_default_def)

lemma mq_ok_push:
  assumes "mq_ok q" and "next_sequence q < - 1"
  shows "mq_ok (snd (mq_push c q))"
proof -
  from assms(2) have "next_sequence q < sat_add (next_sequence q) 1"
    by (rule sat_add_one_less) simp
  with assms(1) show ?thesis
    by (auto simp: mq_ok_def mq_push_def Let_def sorted_wrt_snoc intro: le_less_trans less_imp_le)
qed

lemma mq_ok_drain: "mq_ok q \<Longrightarrow> mq_drain m q = (ms, q') \<Longrightarrow> mq_ok q'"
  by (cases m) (auto simp: mq_ok_def mq_pop_def split: list.splits)

lemma next_sequence_push:
  "next_sequence q < - 1 \<Longrightarrow> unat (next_sequence (snd (mq_push c q))) = Suc (unat (next_sequence q))"
  by (auto simp: mq_push_def Let_def unat_sat_add word_less_nat_alt unat_max_word)

lemma next_sequence_drain: "mq_drain m q = (ms, q') \<Longrightarrow> next_sequence q' = next_sequence q"
  by (cases m) (auto simp: mq_pop_def split: list.splits)

lemma queue_trace_ok:
  "mq_ok q \<Longrightarrow> unat (next_sequence q) + length (pushed ops) < 2 ^ 64 \<Longrightarrow>
   queue_trace mq_push mq_drain ops q = (ms, q') \<Longrightarrow> mq_ok q'"
proof (induction ops arbitrary: q ms q')
  case Nil
  then show ?case by simp
next
  case (Cons op ops)
  show ?case
  proof (cases op)
    case (Push c)
    with Cons.prems have "next_sequence q < - 1"
      by (simp add: word_less_nat_alt unat_max_word)
    then have "mq_ok (snd (mq_push c q))"
      "unat (next_sequence (snd (mq_push c q))) + length (pushed ops) < 2 ^ 64"
      using Cons.prems Push by (simp_all add: mq_ok_push next_sequence_push)
    with Cons.IH Cons.prems(3) Push show ?thesis by simp
  next
    case (Drain m)
    obtain ms1 q1 where d: "mq_drain m q = (ms1, q1)" by fastforce
    obtain ms2 q2 where t: "queue_trace mq_push mq_drain ops q1 = (ms2, q2)" by fastforce
    from Cons.prems(2) Drain have "unat (next_sequence q1) + length (pushed ops) < 2 ^ 64"
      by (simp add: next_sequence_drain [OF d])
    with Cons.IH [OF mq_ok_drain [OF Cons.prems(1) d] _ t] Cons.prems(3) Drain d t show ?thesis
      by simp
  qed
qed

section \<open>Properties\<close>

text \<open>Whatever the schedule of enqueues and drains (one message or all), the messages the run
  loop is handed, followed by those still waiting, are the initial ones and the enqueued ones in
  order: the steering queue loses, duplicates and reorders nothing.\<close>

theorem steering_delivery:
  "queue_trace steering_push steering_drain ops qs = (ms, qs') \<Longrightarrow>
   map queued_content (ms @ entries (steering qs')) =
   map queued_content (entries (steering qs)) @ pushed ops"
  by (rule steering_queue.trace_delivers)

theorem steering_delivery_witness:
  "queue_trace steering_push steering_drain
     [Push ''a'', Push ''b'', Drain OneAtATime, Push ''c''] queues_default =
     ([\<lparr>sequence = 1, queued_content = ''a''\<rparr>],
      queues_default\<lparr>steering := \<lparr>next_sequence = 3, entries =
        [\<lparr>sequence = 2, queued_content = ''b''\<rparr>, \<lparr>sequence = 3, queued_content = ''c''\<rparr>]\<rparr>\<rparr>) \<and>
   map queued_content [\<lparr>sequence = (1 :: u64), queued_content = ''a''\<rparr>] @ [''b'', ''c''] =
     pushed [Push ''a'', Push ''b'', Drain OneAtATime, Push ''c'']"
proof -
  have run: "queue_trace steering_push steering_drain
     [Push ''a'', Push ''b'', Drain OneAtATime, Push ''c''] queues_default =
     ([\<lparr>sequence = 1, queued_content = ''a''\<rparr>],
      queues_default\<lparr>steering := \<lparr>next_sequence = 3, entries =
        [\<lparr>sequence = 2, queued_content = ''b''\<rparr>, \<lparr>sequence = 3, queued_content = ''c''\<rparr>]\<rparr>\<rparr>)"
    by (simp add: queue_defs queues_default_def mq_default_def sat_add_def)
  show ?thesis
    using run steering_delivery [OF run] by (simp add: queues_default_def mq_default_def)
qed

text \<open>After any schedule of fewer than 2^64 enqueues and any drains on a fresh queue, the
  waiting entries carry strictly ascending sequence numbers, none above the last number returned.\<close>

theorem queue_sequences_ascend:
  "length (pushed ops) < 2 ^ 64 \<Longrightarrow> queue_trace mq_push mq_drain ops mq_default = (ms, q) \<Longrightarrow>
   sorted_wrt (<) (map sequence (entries q)) \<and> (\<forall>m \<in> set (entries q). sequence m \<le> next_sequence q)"
  using queue_trace_ok [OF mq_ok_default, of ops ms q] by (simp add: mq_ok_def mq_default_def)

theorem queue_sequences_ascend_witness:
  "sorted_wrt (<) (map sequence (entries
     (snd (queue_trace mq_push mq_drain [Push ''a'', Drain AllMessages, Push ''b''] mq_default))))"
proof -
  have run: "queue_trace mq_push mq_drain [Push ''a'', Drain AllMessages, Push ''b''] mq_default =
     ([\<lparr>sequence = 1, queued_content = ''a''\<rparr>],
      \<lparr>next_sequence = 2, entries = [\<lparr>sequence = 2, queued_content = ''b''\<rparr>]\<rparr>)"
    by (simp add: queue_defs mq_default_def sat_add_def)
  show ?thesis using queue_sequences_ascend [OF _ run] run by simp
qed

end
