(* ===== verification/Accounting.thy ===== *)
theory Accounting
  imports Complex_Main Core_Types
begin

text \<open>
  Provider usage and exact decimal accounting (\<open>tea-core/src/state/accounting.rs\<close>; the OpenRouter
  adapter has a second copy of the decimal code in \<open>provider/openrouter/response.rs\<close>). \<open>u8\<close>
  arithmetic wraps, as in the release profile; a decimal is a string of bytes and its value is the
  rational number its digits and scale denote.
\<close>

section \<open>Usage\<close>

definition is_reported :: "usage \<Rightarrow> bool" where
  "is_reported u \<longleftrightarrow> input_tokens u \<noteq> None \<or> output_tokens u \<noteq> None \<or> reasoning_tokens u \<noteq> None \<or>
     cache_read_tokens u \<noteq> None \<or> cache_write_tokens u \<noteq> None \<or> cost u \<noteq> None"

definition usage_default :: usage where
  "usage_default = \<lparr>input_tokens = None, output_tokens = None, reasoning_tokens = None,
     cache_read_tokens = None, cache_write_tokens = None, cost = None\<rparr>"

definition usage_merge :: "usage \<Rightarrow> usage \<Rightarrow> usage" where
  "usage_merge u update =
     (let u1 = (if input_tokens update \<noteq> None then u\<lparr>input_tokens := input_tokens update\<rparr> else u);
          u2 = (if output_tokens update \<noteq> None then u1\<lparr>output_tokens := output_tokens update\<rparr> else u1);
          u3 = (if reasoning_tokens update \<noteq> None
                then u2\<lparr>reasoning_tokens := reasoning_tokens update\<rparr> else u2);
          u4 = (if cache_read_tokens update \<noteq> None
                then u3\<lparr>cache_read_tokens := cache_read_tokens update\<rparr> else u3);
          u5 = (if cache_write_tokens update \<noteq> None
                then u4\<lparr>cache_write_tokens := cache_write_tokens update\<rparr> else u4)
      in if cost update \<noteq> None then u5\<lparr>cost := cost update\<rparr> else u5)"

lemma usage_merge_eq:
  "usage_merge u v =
     \<lparr>input_tokens = (if input_tokens v \<noteq> None then input_tokens v else input_tokens u),
      output_tokens = (if output_tokens v \<noteq> None then output_tokens v else output_tokens u),
      reasoning_tokens = (if reasoning_tokens v \<noteq> None then reasoning_tokens v else reasoning_tokens u),
      cache_read_tokens = (if cache_read_tokens v \<noteq> None then cache_read_tokens v else cache_read_tokens u),
      cache_write_tokens = (if cache_write_tokens v \<noteq> None then cache_write_tokens v else cache_write_tokens u),
      cost = (if cost v \<noteq> None then cost v else cost u)\<rparr>"
  unfolding usage_merge_def Let_def by (rule usage.equality) simp_all

section \<open>Decimal strings\<close>

definition u8_add :: "nat \<Rightarrow> nat \<Rightarrow> nat" where
  "u8_add a b = (a + b) mod 256"

definition u8_sub :: "nat \<Rightarrow> nat \<Rightarrow> nat" where
  "u8_sub a b = (a + 256 - b) mod 256"

definition byte :: "char \<Rightarrow> nat" where
  "byte c = of_char c"

text \<open>The standard library's \<open>split_once\<close>, \<open>trim_start_matches\<close>, \<open>parse::<i64>\<close> and \<open>repeat\<close>.\<close>

fun split_once :: "(char \<Rightarrow> bool) \<Rightarrow> string \<Rightarrow> (string \<times> string) option" where
  "split_once p [] = None"
| "split_once p (c # cs) =
     (if p c then Some ([], cs)
      else case split_once p cs of None \<Rightarrow> None | Some (a, b) \<Rightarrow> Some (c # a, b))"

definition trim_start :: "char \<Rightarrow> string \<Rightarrow> string" where
  "trim_start c s = dropWhile (\<lambda>d. d = c) s"

definition pop_while_last :: "char \<Rightarrow> string \<Rightarrow> string" where
  "pop_while_last c s = rev (dropWhile (\<lambda>d. d = c) (rev s))"

definition is_digit :: "char \<Rightarrow> bool" where
  "is_digit c \<longleftrightarrow> 48 \<le> byte c \<and> byte c \<le> 57"

definition digit :: "char \<Rightarrow> nat" where
  "digit c = byte c - 48"

definition digits_nat :: "string \<Rightarrow> nat" where
  "digits_nat ds = foldl (\<lambda>n c. 10 * n + digit c) 0 ds"

definition parse_i64 :: "string \<Rightarrow> int option" where
  "parse_i64 s =
     (let (neg, ds) = (case s of [] \<Rightarrow> (False, [])
        | c # cs \<Rightarrow> if c = CHR ''-'' then (True, cs) else if c = CHR ''+'' then (False, cs)
                   else (False, s));
          n = (if neg then - int (digits_nat ds) else int (digits_nat ds))
      in if ds \<noteq> [] \<and> list_all is_digit ds \<and> - (2 ^ 63) \<le> n \<and> n < 2 ^ 63 then Some n else None)"

definition i64_sub :: "int \<Rightarrow> int \<Rightarrow> int" where
  "i64_sub a b = (a - b + 2 ^ 63) mod 2 ^ 64 - 2 ^ 63"

definition decimal_parts :: "string \<Rightarrow> string \<times> nat" where
  "decimal_parts s =
     (let (coefficient, exponent) =
            (case split_once (\<lambda>c. c = CHR ''e'' \<or> c = CHR ''E'') s of
               Some (a, b) \<Rightarrow> (a, case parse_i64 b of Some x \<Rightarrow> x | None \<Rightarrow> 0)
             | None \<Rightarrow> (s, 0));
          (whole, fraction) =
            (case split_once (\<lambda>c. c = CHR ''.'') coefficient of
               Some (a, b) \<Rightarrow> (a, b) | None \<Rightarrow> (coefficient, []));
          digits = trim_start (CHR ''+'') whole @ fraction;
          scale = nat (max (i64_sub (int (length fraction)) exponent) 0);
          trimmed = trim_start (CHR ''0'') digits
      in (if trimmed = [] then ''0'' else trimmed, scale))"

definition decimal_normalize :: "string \<Rightarrow> string" where
  "decimal_normalize s =
     (let (digits, scale) = decimal_parts s
      in if scale = 0 then digits
         else let out = (if length digits \<le> scale
                         then ''0.'' @ replicate (scale - length digits) (CHR ''0'') @ digits
                         else take (length digits - scale) digits @ ''.'' @
                              drop (length digits - scale) digits);
                  out = pop_while_last (CHR ''0'') out
              in if out \<noteq> [] \<and> last out = CHR ''.'' then butlast out else out)"

text \<open>The loop over the two reversed digit strings: output in push order, and the carry.\<close>

fun add_digits :: "string \<Rightarrow> string \<Rightarrow> nat \<Rightarrow> string \<times> nat" where
  "add_digits (l # ls) (r # rs) carry =
     (let sum = u8_add (u8_sub (u8_add (u8_sub (byte l) 48) (byte r)) 48) carry;
          (out, c) = add_digits ls rs (sum div 10)
      in (char_of (u8_add 48 (sum mod 10)) # out, c))"
| "add_digits ls rs carry = ([], carry)"

definition decimal_add :: "string \<Rightarrow> string \<Rightarrow> string" where
  "decimal_add lhs rhs =
     (let (left_digits, left_scale) = decimal_parts lhs;
          (right_digits, right_scale) = decimal_parts rhs;
          scale = max left_scale right_scale;
          left = left_digits @ replicate (scale - left_scale) (CHR ''0'');
          right = right_digits @ replicate (scale - right_scale) (CHR ''0'');
          (out, carry) = add_digits (rev left) (rev right) 0;
          out = (if carry \<noteq> 0 then out @ [char_of (u8_add 48 carry)] else out);
          out = rev out;
          out = (if scale \<noteq> 0
                 then let out = (if length out \<le> scale
                                 then replicate (scale + 1 - length out) (CHR ''0'') @ out else out)
                      in take (length out - scale) out @ ''.'' @ drop (length out - scale) out
                 else out)
      in decimal_normalize out)"

section \<open>Accounting records\<close>

record model_turn_accounting =
  acc_run_id :: run_id
  acc_turn_id :: turn_id
  acc_model :: "model_descriptor option"
  acc_usage :: usage

record model_accounting =
  turns :: "model_turn_accounting list"
  aggregate :: usage

definition accounting_default :: model_accounting where
  "accounting_default = \<lparr>turns = [], aggregate = usage_default\<rparr>"

definition add_usage :: "u64 option \<Rightarrow> u64 option \<Rightarrow> u64 option" where
  "add_usage old v =
     (case v of None \<Rightarrow> old
      | Some x \<Rightarrow> Some (sat_add (case old of None \<Rightarrow> 0 | Some t \<Rightarrow> t) x))"

definition accounting_record :: "model_accounting \<Rightarrow> model_turn_accounting \<Rightarrow> model_accounting" where
  "accounting_record s a =
     (let u = acc_usage a; g = aggregate s;
          g = g\<lparr>input_tokens := add_usage (input_tokens g) (input_tokens u)\<rparr>;
          g = g\<lparr>output_tokens := add_usage (output_tokens g) (output_tokens u)\<rparr>;
          g = g\<lparr>reasoning_tokens := add_usage (reasoning_tokens g) (reasoning_tokens u)\<rparr>;
          g = g\<lparr>cache_read_tokens := add_usage (cache_read_tokens g) (cache_read_tokens u)\<rparr>;
          g = g\<lparr>cache_write_tokens := add_usage (cache_write_tokens g) (cache_write_tokens u)\<rparr>;
          g = (case cost u of None \<Rightarrow> g
               | Some c \<Rightarrow> g\<lparr>cost := Some (case cost g of Some previous \<Rightarrow> decimal_add previous c
                                           | None \<Rightarrow> c)\<rparr>)
      in s\<lparr>aggregate := g, turns := turns s @ [a]\<rparr>)"

lemma accounting_record_turns [simp]: "turns (accounting_record s a) = turns s @ [a]"
  by (simp add: accounting_record_def Let_def split: option.splits)

lemma accounting_record_aggregate:
  "input_tokens (aggregate (accounting_record s a)) =
     add_usage (input_tokens (aggregate s)) (input_tokens (acc_usage a))"
  "output_tokens (aggregate (accounting_record s a)) =
     add_usage (output_tokens (aggregate s)) (output_tokens (acc_usage a))"
  "reasoning_tokens (aggregate (accounting_record s a)) =
     add_usage (reasoning_tokens (aggregate s)) (reasoning_tokens (acc_usage a))"
  "cache_read_tokens (aggregate (accounting_record s a)) =
     add_usage (cache_read_tokens (aggregate s)) (cache_read_tokens (acc_usage a))"
  "cache_write_tokens (aggregate (accounting_record s a)) =
     add_usage (cache_write_tokens (aggregate s)) (cache_write_tokens (acc_usage a))"
  by (simp_all add: accounting_record_def Let_def split: option.splits)


section \<open>The value of a decimal\<close>

definition decimal_value :: "string \<Rightarrow> rat" where
  "decimal_value s = (case decimal_parts s of (ds, k) \<Rightarrow> of_nat (digits_nat ds) / 10 ^ k)"

abbreviation all_digits :: "string \<Rightarrow> bool" where
  "all_digits ds \<equiv> list_all is_digit ds"

definition trim_zeros :: "string \<Rightarrow> string" where
  "trim_zeros ds = (let t = trim_start (CHR ''0'') ds in if t = [] then ''0'' else t)"

lemma byte_less: "byte c < 256"
  by (simp add: byte_def)

lemma byte_char_of: "byte (char_of n) = n mod 256"
  by (simp add: byte_def)

lemma byte_zero [simp]: "byte (CHR ''0'') = 48"
  by (simp add: byte_def)

lemma digit_zero [simp]: "digit (CHR ''0'') = 0" "is_digit (CHR ''0'')"
  by (simp_all add: digit_def is_digit_def)

lemma not_digits [simp]: "\<not> is_digit (CHR ''.'')" "\<not> is_digit (CHR ''e'')" "\<not> is_digit (CHR ''E'')"
  "\<not> is_digit (CHR ''+'')"
  by (simp_all add: is_digit_def byte_def)

lemma digits_nat_Nil [simp]: "digits_nat [] = 0"
  by (simp add: digits_nat_def)

lemma foldl_digits: "foldl (\<lambda>n c. 10 * n + digit c) m ds = m * 10 ^ length ds + digits_nat ds"
proof (induction ds arbitrary: m)
  case Nil
  then show ?case by simp
next
  case (Cons d ds)
  have "digits_nat (d # ds) = digit d * 10 ^ length ds + digits_nat ds"
    using Cons.IH [of "digit d"] by (simp add: digits_nat_def)
  then show ?case using Cons.IH [of "10 * m + digit d"] by (simp add: distrib_right)
qed

lemma digits_nat_append: "digits_nat (a @ b) = digits_nat a * 10 ^ length b + digits_nat b"
proof -
  have "digits_nat (a @ b) = foldl (\<lambda>n c. 10 * n + digit c) (digits_nat a) b"
    by (simp add: digits_nat_def)
  then show ?thesis by (simp only: foldl_digits)
qed

lemma digits_nat_Cons: "digits_nat (d # ds) = digit d * 10 ^ length ds + digits_nat ds"
  using digits_nat_append [of "[d]" ds] by (simp add: digits_nat_def)

lemma digits_nat_snoc: "digits_nat (ds @ [d]) = 10 * digits_nat ds + digit d"
  by (simp add: digits_nat_append digits_nat_Cons)

lemma digits_nat_zeros [simp]: "digits_nat (replicate n (CHR ''0'')) = 0"
  by (induction n) (simp_all add: digits_nat_Cons)

lemma digits_nat_trim_start [simp]: "digits_nat (trim_start (CHR ''0'') ds) = digits_nat ds"
  by (induction ds) (simp_all add: trim_start_def digits_nat_Cons)

lemma digits_nat_trim_zeros [simp]: "digits_nat (trim_zeros ds) = digits_nat ds"
proof (cases "trim_start (CHR ''0'') ds = []")
  case True
  then have "digits_nat ds = digits_nat []" by (metis digits_nat_trim_start)
  with True show ?thesis by (simp add: trim_zeros_def digits_nat_Cons)
next
  case False
  then show ?thesis by (simp add: trim_zeros_def Let_def)
qed

lemma all_digits_trim_zeros: "all_digits ds \<Longrightarrow> all_digits (trim_zeros ds)"
  by (auto simp: trim_zeros_def trim_start_def Let_def list_all_iff dest: set_dropWhileD)

lemma split_once_None: "(\<forall>c \<in> set s. \<not> p c) \<Longrightarrow> split_once p s = None"
  by (induction s) auto

lemma split_once_Some: "(\<forall>c \<in> set a. \<not> p c) \<Longrightarrow> p c \<Longrightarrow> split_once p (a @ c # b) = Some (a, b)"
  by (induction a) auto

lemma digits_no_exponent: "all_digits ds \<Longrightarrow> \<forall>c \<in> set ds. \<not> (c = CHR ''e'' \<or> c = CHR ''E'')"
  using not_digits by (auto simp: list_all_iff)

lemma digits_no_point: "all_digits ds \<Longrightarrow> \<forall>c \<in> set ds. c \<noteq> CHR ''.''"
  using not_digits by (auto simp: list_all_iff)

lemma trim_plus_digits: "all_digits ds \<Longrightarrow> trim_start (CHR ''+'') ds = ds"
  by (cases ds) (auto simp: trim_start_def)

lemma i64_sub_zero: "n < 2 ^ 63 \<Longrightarrow> nat (max (i64_sub (int n) 0) 0) = n"
  by (simp add: i64_sub_def)

lemma decimal_parts_scale: "decimal_parts s = (ds, k) \<Longrightarrow> k < 2 ^ 63"
proof -
  have "i64_sub a b < 2 ^ 63" for a b :: int
    using pos_mod_bound [of "2 ^ 64" "a - b + 2 ^ 63"] by (simp add: i64_sub_def)
  then show "decimal_parts s = (ds, k) \<Longrightarrow> k < 2 ^ 63"
    by (auto simp: decimal_parts_def Let_def nat_less_iff split: prod.splits)
qed

lemma decimal_parts_whole: "all_digits w \<Longrightarrow> decimal_parts w = (trim_zeros w, 0)"
proof -
  assume w: "all_digits w"
  then have "split_once (\<lambda>c. c = CHR ''e'' \<or> c = CHR ''E'') w = None"
    "split_once (\<lambda>c. c = CHR ''.'') w = None"
    using digits_no_exponent digits_no_point by (blast intro!: split_once_None)+
  with w show ?thesis
    by (simp add: decimal_parts_def trim_plus_digits trim_zeros_def Let_def i64_sub_def)
qed

lemma decimal_parts_point:
  assumes "all_digits w" and "all_digits f" and "length f < 2 ^ 63"
  shows "decimal_parts (w @ ''.'' @ f) = (trim_zeros (w @ f), length f)"
proof -
  have no_exp: "split_once (\<lambda>c. c = CHR ''e'' \<or> c = CHR ''E'') (w @ ''.'' @ f) = None"
    by (rule split_once_None)
      (use digits_no_exponent [OF assms(1)] digits_no_exponent [OF assms(2)] in \<open>simp add: ball_Un\<close>)
  have point: "split_once (\<lambda>c. c = CHR ''.'') (w @ ''.'' @ f) = Some (w, f)"
    using split_once_Some [OF digits_no_point [OF assms(1)] refl] by (simp only: append_Cons append_Nil)
  show ?thesis
    unfolding decimal_parts_def no_exp
    by (simp only: point option.case prod.case Let_def trim_plus_digits [OF assms(1)] trim_zeros_def
        i64_sub_zero [OF assms(3)])
qed

lemma takeWhile_eq_replicate:
  "takeWhile (\<lambda>d. d = c) xs = replicate (length (takeWhile (\<lambda>d. d = c) xs)) c"
  by (induction xs) auto

lemma dropWhile_append_stop: "\<not> P y \<Longrightarrow> dropWhile P (xs @ y # ys) = dropWhile P xs @ y # ys"
  by (induction xs) auto

lemma pop_zeros:
  obtains j where "f = pop_while_last (CHR ''0'') f @ replicate j (CHR ''0'')"
    and "pop_while_last (CHR ''0'') (w @ CHR ''.'' # f) = w @ CHR ''.'' # pop_while_last (CHR ''0'') f"
proof -
  define z where "z = takeWhile (\<lambda>d. d = CHR ''0'') (rev f)"
  have "z = replicate (length z) (CHR ''0'')"
    unfolding z_def by (rule takeWhile_eq_replicate)
  moreover have "rev f = z @ dropWhile (\<lambda>d. d = CHR ''0'') (rev f)" by (simp add: z_def)
  then have "f = rev (dropWhile (\<lambda>d. d = CHR ''0'') (rev f)) @ rev z"
    by (metis rev_append rev_rev_ident)
  ultimately have "f = pop_while_last (CHR ''0'') f @ replicate (length z) (CHR ''0'')"
    by (metis pop_while_last_def rev_replicate)
  moreover have "dropWhile (\<lambda>d. d = CHR ''0'') (rev f @ CHR ''.'' # rev w) =
      dropWhile (\<lambda>d. d = CHR ''0'') (rev f) @ CHR ''.'' # rev w"
    by (rule dropWhile_append_stop) simp
  ultimately show ?thesis using that by (simp add: pop_while_last_def)
qed

lemma all_digits_pop: "all_digits f \<Longrightarrow> all_digits (pop_while_last c f)"
  by (auto simp: pop_while_last_def list_all_iff dest: set_dropWhileD)

lemma decimal_value_pointed:
  assumes "all_digits w" and "all_digits f" and "length f < 2 ^ 63"
    and out: "out = pop_while_last (CHR ''0'') (w @ ''.'' @ f)"
  shows "decimal_value (if out \<noteq> [] \<and> last out = CHR ''.'' then butlast out else out) =
    of_nat (digits_nat (w @ f)) / 10 ^ length f"
proof -
  obtain j where f: "f = pop_while_last (CHR ''0'') f @ replicate j (CHR ''0'')"
    and o: "out = w @ CHR ''.'' # pop_while_last (CHR ''0'') f"
    using pop_zeros [of f w] out by auto
  define g where "g = pop_while_last (CHR ''0'') f"
  have g: "all_digits g" "f = g @ replicate j (CHR ''0'')" "out = w @ ''.'' @ g"
    using assms(2) f o by (simp_all add: g_def all_digits_pop)
  then have len: "length f = length g + j" by simp
  have same_value: "of_nat (digits_nat (w @ f)) / 10 ^ length f =
      (of_nat (digits_nat (w @ g)) / 10 ^ length g :: rat)"
    unfolding g(2) by (simp add: digits_nat_append power_add field_simps)
  show ?thesis
  proof (cases "g = []")
    case True
    with g same_value assms(1) show ?thesis
      by (simp add: decimal_value_def decimal_parts_whole)
  next
    case False
    then have "last out = last g" "is_digit (last g)"
      using g(1,3) by (simp_all add: list_all_iff)
    then have "last out \<noteq> CHR ''.''" by auto
    with g len same_value assms(1,3) show ?thesis
      by (simp add: decimal_value_def decimal_parts_point [simplified])
  qed
qed

lemma decimal_normalize_value:
  assumes parts: "decimal_parts s = (ds, k)" and "all_digits ds"
  shows "decimal_value (decimal_normalize s) = decimal_value s"
proof (cases "k = 0")
  case True
  with assms show ?thesis
    by (simp add: decimal_normalize_def decimal_value_def decimal_parts_whole)
next
  case False
  define w where "w = (if length ds \<le> k then ''0'' else take (length ds - k) ds)"
  define f where "f = (if length ds \<le> k then replicate (k - length ds) (CHR ''0'') @ ds
                       else drop (length ds - k) ds)"
  have f: "length f = k" "all_digits f" "all_digits w" "digits_nat (w @ f) = digits_nat ds"
    using \<open>all_digits ds\<close>
    by (auto simp: f_def w_def list_all_iff digits_nat_append [symmetric] dest: in_set_takeD in_set_dropD)
      (simp_all add: digits_nat_append digits_nat_Cons)
  have out: "(if length ds \<le> k then ''0.'' @ replicate (k - length ds) (CHR ''0'') @ ds
     else take (length ds - k) ds @ ''.'' @ drop (length ds - k) ds) = w @ ''.'' @ f"
    by (simp add: w_def f_def)
  show ?thesis
    using decimal_value_pointed [OF f(3,2) _ refl] decimal_parts_scale [OF parts] f(1,4) parts False
    unfolding decimal_normalize_def by (simp only: prod.case Let_def out if_False) (simp add: decimal_value_def)
qed


section \<open>What the addition loop computes\<close>

lemma is_digit_byte: "is_digit c \<Longrightarrow> byte c = 48 + digit c \<and> digit c \<le> 9"
  by (auto simp: is_digit_def digit_def)

lemma digit_char_of: "n \<le> 9 \<Longrightarrow> is_digit (char_of (48 + n)) \<and> digit (char_of (48 + n)) = n"
  by (simp add: is_digit_def digit_def byte_char_of)

lemma digit_sum:
  "is_digit l \<Longrightarrow> is_digit r \<Longrightarrow> carry \<le> 1 \<Longrightarrow>
   u8_add (u8_sub (u8_add (u8_sub (byte l) 48) (byte r)) 48) carry = digit l + digit r + carry"
  by (auto dest!: is_digit_byte simp: u8_add_def u8_sub_def)

lemma u8_digit: "u8_add 48 (n mod 10) = 48 + n mod 10"
  using mod_less_divisor [of 10 n] by (simp add: u8_add_def)

text \<open>
  The loop over reversed digits, read least significant first: it adds the low digits the two
  numbers have in common, the shorter length of the two, and drops the others.
\<close>

lemma add_digits_sum:
  "all_digits ls \<Longrightarrow> all_digits rs \<Longrightarrow> carry \<le> 1 \<Longrightarrow> add_digits ls rs carry = (out, c) \<Longrightarrow>
   length out = min (length ls) (length rs) \<and> all_digits out \<and> c \<le> 1 \<and>
   digits_nat (rev out) + c * 10 ^ length out =
     digits_nat (rev (take (length out) ls)) + digits_nat (rev (take (length out) rs)) + carry"
proof (induction ls rs carry arbitrary: out rule: add_digits.induct)
  case (1 l ls r rs carry)
  let ?sum = "digit l + digit r + carry"
  have sum: "u8_add (u8_sub (u8_add (u8_sub (byte l) 48) (byte r)) 48) carry = ?sum"
    using "1.prems" by (intro digit_sum) simp_all
  have low: "digit l \<le> 9" "digit r \<le> 9"
    using "1.prems" is_digit_byte [of l] is_digit_byte [of r] by simp_all
  then have "?sum div 10 \<le> 1" using "1.prems"(3) by simp
  obtain o' where rest: "add_digits ls rs (?sum div 10) = (o', c)"
    and out: "out = char_of (48 + ?sum mod 10) # o'"
    using "1.prems"(4) by (auto simp: sum Let_def u8_digit split: prod.splits)
  have IH: "length o' = min (length ls) (length rs) \<and> all_digits o' \<and> c \<le> 1 \<and>
     digits_nat (rev o') + c * 10 ^ length o' =
     digits_nat (rev (take (length o') ls)) + digits_nat (rev (take (length o') rs)) + ?sum div 10"
    using "1.prems"(1,2) \<open>?sum div 10 \<le> 1\<close> rest
    by (intro "1.IH" [OF refl, unfolded sum]) simp_all
  have d: "is_digit (char_of (48 + ?sum mod 10))" "digit (char_of (48 + ?sum mod 10)) = ?sum mod 10"
    using digit_char_of [of "?sum mod 10"] mod_less_divisor [of 10 ?sum] by simp_all
  let ?n = "length o'"
  from IH have "digits_nat (rev o') + c * 10 ^ ?n = digits_nat (rev (take ?n ls)) +
    digits_nat (rev (take ?n rs)) + ?sum div 10" by blast
  then have "10 * digits_nat (rev o') + ?sum mod 10 + 10 * (c * 10 ^ ?n) =
    10 * digits_nat (rev (take ?n ls)) + 10 * digits_nat (rev (take ?n rs)) + ?sum"
    using mult_div_mod_eq [of 10 ?sum] by linarith
  with IH d low show ?case by (simp add: out digits_nat_snoc mult.left_commute)
qed (auto)

lemma digits_nat_low:
  "n \<le> length L \<Longrightarrow> digits_nat L = digits_nat (take (length L - n) L) * 10 ^ n + digits_nat (rev (take n (rev L)))"
  using digits_nat_append [of "take (length L - n) L" "drop (length L - n) L"]
  by (simp add: rev_take)

lemma decimal_output_value:
  assumes "all_digits out" and "k < 2 ^ 63"
    and s: "s = (if k \<noteq> 0
      then let out = (if length out \<le> k then replicate (k + 1 - length out) (CHR ''0'') @ out else out)
           in take (length out - k) out @ ''.'' @ drop (length out - k) out
      else out)"
  shows "decimal_value (decimal_normalize s) = of_nat (digits_nat out) / 10 ^ k"
proof (cases "k = 0")
  case True
  with assms show ?thesis
    by (simp add: decimal_normalize_value [OF decimal_parts_whole] all_digits_trim_zeros)
      (simp add: decimal_value_def decimal_parts_whole)
next
  case False
  define o' where "o' = (if length out \<le> k then replicate (k + 1 - length out) (CHR ''0'') @ out else out)"
  have o': "all_digits o'" "k < length o'" "digits_nat o' = digits_nat out"
    using assms(1) by (auto simp: o'_def list_all_iff digits_nat_append)
  define w f where "w = take (length o' - k) o'" and "f = drop (length o' - k) o'"
  have wf: "all_digits w" "all_digits f" "length f = k" "w @ f = o'"
    using o'(1,2) by (auto simp: w_def f_def list_all_iff dest: in_set_takeD in_set_dropD)
  from False s have "s = w @ ''.'' @ f" by (simp add: w_def f_def o'_def Let_def)
  then have parts: "decimal_parts s = (trim_zeros o', k)"
    using decimal_parts_point [OF wf(1,2)] assms(2) wf(3,4) by simp
  show ?thesis
    using decimal_normalize_value [OF parts all_digits_trim_zeros [OF o'(1)]]
    by (simp add: decimal_value_def parts o'(3))
qed

text \<open>The aligned digit strings of the two operands.\<close>

definition aligned :: "string \<Rightarrow> string \<Rightarrow> string" where
  "aligned a b = (case (decimal_parts a, decimal_parts b) of
     ((da, ka), (db, kb)) \<Rightarrow> da @ replicate (max ka kb - ka) (CHR ''0''))"

definition decimal_scale :: "string \<Rightarrow> string \<Rightarrow> nat" where
  "decimal_scale a b = max (snd (decimal_parts a)) (snd (decimal_parts b))"

definition well_formed :: "string \<Rightarrow> bool" where
  "well_formed a \<longleftrightarrow> all_digits (fst (decimal_parts a))"

text \<open>The leading digits of \<open>xs\<close> beyond its last \<open>n\<close> ones.\<close>

definition leading :: "nat \<Rightarrow> string \<Rightarrow> nat" where
  "leading n xs = digits_nat (take (length xs - n) xs)"

lemma decimal_value_aligned:
  "decimal_value a = of_nat (digits_nat (aligned a b)) / 10 ^ decimal_scale a b"
  "decimal_value b = of_nat (digits_nat (aligned b a)) / 10 ^ decimal_scale a b"
proof -
  have shift: "of_nat (n * 10 ^ (k - j)) / 10 ^ k = (of_nat n / 10 ^ j :: rat)" if "j \<le> k" for n k j
  proof -
    have "(10 :: rat) ^ k = 10 ^ j * 10 ^ (k - j)" using that by (simp flip: power_add)
    then show ?thesis by simp
  qed
  show "decimal_value a = of_nat (digits_nat (aligned a b)) / 10 ^ decimal_scale a b"
    "decimal_value b = of_nat (digits_nat (aligned b a)) / 10 ^ decimal_scale a b"
    using shift
    by (auto simp: decimal_value_def aligned_def decimal_scale_def digits_nat_append max.commute
        simp del: of_nat_mult of_nat_power split: prod.splits)
qed

lemma decimal_add_nat:
  assumes "well_formed a" and "well_formed b"
    and n: "n = min (length (aligned a b)) (length (aligned b a))"
  obtains total where "decimal_value (decimal_add a b) = of_nat total / 10 ^ decimal_scale a b"
    and "total + (leading n (aligned a b) + leading n (aligned b a)) * 10 ^ n =
      digits_nat (aligned a b) + digits_nat (aligned b a)"
proof -
  obtain da ka db kb where parts: "decimal_parts a = (da, ka)" "decimal_parts b = (db, kb)"
    by fastforce
  let ?k = "max ka kb" and ?L = "aligned a b" and ?R = "aligned b a"
  have LR: "?L = da @ replicate (?k - ka) (CHR ''0'')" "?R = db @ replicate (?k - kb) (CHR ''0'')"
    by (simp_all add: aligned_def parts max.commute)
  obtain out c where add: "add_digits (rev ?L) (rev ?R) 0 = (out, c)" by fastforce
  have "all_digits (rev ?L)" "all_digits (rev ?R)"
    using assms(1,2) by (auto simp: LR well_formed_def parts list_all_iff)
  note sum = add_digits_sum [OF this _ add, simplified]
  define o' where "o' = rev (if c \<noteq> 0 then out @ [char_of (u8_add 48 c)] else out)"
  have "c = 0 \<or> c = 1" using sum by auto
  then have o': "all_digits o'" "digits_nat o' = digits_nat (rev out) + c * 10 ^ length out"
    using sum digit_char_of [of 1] by (auto simp: o'_def u8_add_def digits_nat_Cons list_all_iff)
  have "?k < 2 ^ 63" using decimal_parts_scale parts by simp
  then have val: "decimal_value (decimal_add a b) = of_nat (digits_nat o') / 10 ^ decimal_scale a b"
    unfolding decimal_add_def parts prod.case Let_def decimal_scale_def snd_conv add [unfolded LR]
    by (rule decimal_output_value [OF o'(1)]) (simp only: o'_def Let_def)
  have "length out = n" "n \<le> length ?L" "n \<le> length ?R" using sum n by simp_all
  then have "digits_nat o' + (leading n ?L + leading n ?R) * 10 ^ n = digits_nat ?L + digits_nat ?R"
    using conjunct2 [OF conjunct2 [OF conjunct2 [OF sum]]] o'(2) digits_nat_low [of n ?L] digits_nat_low [of n ?R]
    by (simp add: leading_def distrib_right)
  with val show ?thesis by (rule that)
qed

definition known_sum :: "u64 list \<Rightarrow> nat option" where
  "known_sum reported =
     (if reported = [] then None else Some (min (sum_list (map unat reported)) (2 ^ 64 - 1)))"

lemma fold_add_usage:
  assumes init: "f (aggregate accounting_default) = None"
    and upd: "\<And>s a. f (aggregate (accounting_record s a)) = add_usage (f (aggregate s)) (f (acc_usage a))"
  shows "map_option unat (f (aggregate (foldl accounting_record accounting_default as))) =
    known_sum (List.map_filter (\<lambda>a. f (acc_usage a)) as)"
proof (induction as rule: rev_induct)
  case Nil
  then show ?case by (simp add: init known_sum_def map_filter_simps)
next
  case (snoc a as)
  then show ?case
    by (cases "f (acc_usage a)"; cases "f (aggregate (foldl accounting_record accounting_default as))")
      (auto simp: upd add_usage_def unat_sat_add map_filter_def known_sum_def split: if_splits)
qed

section \<open>Properties\<close>

text \<open>The exact value of the sum of two decimal strings, whatever their lengths. The loop adds
  the digits that the two aligned numbers have in common and drops the leading digits of the longer
  one, so the result is the sum of the two values less the value of the dropped digits.\<close>

theorem decimal_add_value:
  assumes "well_formed a" and "well_formed b"
    and "n = min (length (aligned a b)) (length (aligned b a))"
  shows "decimal_value (decimal_add a b) = decimal_value a + decimal_value b -
    of_nat ((leading n (aligned a b) + leading n (aligned b a)) * 10 ^ n) / 10 ^ decimal_scale a b"
proof -
  obtain t where t: "decimal_value (decimal_add a b) = of_nat t / 10 ^ decimal_scale a b"
    "t + (leading n (aligned a b) + leading n (aligned b a)) * 10 ^ n =
       digits_nat (aligned a b) + digits_nat (aligned b a)"
    using decimal_add_nat [OF assms] .
  from t(2) [THEN arg_cong [where f = "of_nat :: nat \<Rightarrow> rat"]]
  have "of_nat t = of_nat (digits_nat (aligned a b)) + of_nat (digits_nat (aligned b a)) -
    (of_nat ((leading n (aligned a b) + leading n (aligned b a)) * 10 ^ n) :: rat)"
    by (simp only: of_nat_add eq_diff_eq)
  then show ?thesis
    unfolding t(1) decimal_value_aligned [where a = a and b = b]
    by (simp only: add_divide_distrib diff_divide_distrib)
qed

theorem decimal_add_value_witness:
  "decimal_value (decimal_add ''12.5'' ''0.5'') = decimal_value ''12.5'' + decimal_value ''0.5'' - 12"
proof -
  have parts: "decimal_parts ''12.5'' = (''125'', 1)" "decimal_parts ''0.5'' = (''5'', 1)"
    by code_simp+
  then have "aligned ''12.5'' ''0.5'' = ''125''" "aligned ''0.5'' ''12.5'' = ''5''"
    "decimal_scale ''12.5'' ''0.5'' = 1" "leading 1 ''125'' = 12" "leading 1 ''5'' = 0"
    by (simp_all add: aligned_def decimal_scale_def leading_def digits_nat_def digit_def byte_def)
  moreover have "well_formed ''12.5''" "well_formed ''0.5''"
    by (simp_all add: well_formed_def parts is_digit_def byte_def)
  ultimately show ?thesis
    using decimal_add_value [of "''12.5''" "''0.5''" 1] by simp
qed

text \<open>The sum is exact whenever the two aligned numbers have the same number of digits.\<close>

theorem decimal_add_exact:
  assumes "well_formed a" and "well_formed b"
    and "length (aligned a b) = length (aligned b a)"
  shows "decimal_value (decimal_add a b) = decimal_value a + decimal_value b"
proof -
  obtain t where "decimal_value (decimal_add a b) = of_nat t / 10 ^ decimal_scale a b"
    "t = digits_nat (aligned a b) + digits_nat (aligned b a)"
    using decimal_add_nat [OF assms(1,2) refl] assms(3) by (auto simp: leading_def)
  then show ?thesis
    by (simp add: decimal_value_aligned [where a = a and b = b] add_divide_distrib)
qed

theorem decimal_add_exact_witness:
  "decimal_value (decimal_add ''0.1'' ''0.200000000000000001'') =
   decimal_value ''0.1'' + decimal_value ''0.200000000000000001''"
proof (rule decimal_add_exact)
  have parts: "decimal_parts ''0.1'' = (''1'', 1)"
    "decimal_parts ''0.200000000000000001'' = (''200000000000000001'', 18)"
    by code_simp+
  show "well_formed ''0.1''" "well_formed ''0.200000000000000001''"
    by (simp_all add: well_formed_def parts is_digit_def byte_def)
  show "length (aligned ''0.1'' ''0.200000000000000001'') = length (aligned ''0.200000000000000001'' ''0.1'')"
    by (simp add: aligned_def parts)
qed

text \<open>Costs of different magnitude are added wrongly: one dollar and ten dollars make one
  dollar, twelve and a half dollars and half a dollar make one dollar.\<close>

theorem decimal_add_loses_dollars:
  "decimal_add ''1'' ''10'' = ''1'' \<and> decimal_add ''12.5'' ''0.5'' = ''1''"
  by (rule conjI; code_simp)

text \<open>Each aggregate token count is unknown exactly as long as no turn reported it, and
  otherwise the saturating sum of the reported counts; a reported zero is not unknown.\<close>

theorem aggregate_tokens:
  "(let g = aggregate (foldl accounting_record accounting_default as);
        reported = (\<lambda>f. List.map_filter (\<lambda>a. f (acc_usage a)) as)
    in map_option unat (input_tokens g) = known_sum (reported input_tokens) \<and>
       map_option unat (output_tokens g) = known_sum (reported output_tokens) \<and>
       map_option unat (reasoning_tokens g) = known_sum (reported reasoning_tokens) \<and>
       map_option unat (cache_read_tokens g) = known_sum (reported cache_read_tokens) \<and>
       map_option unat (cache_write_tokens g) = known_sum (reported cache_write_tokens))"
  unfolding Let_def
  by (intro conjI; rule fold_add_usage) (simp_all add: accounting_record_aggregate accounting_default_def usage_default_def)

text \<open>Merging usage updates is associative, later known fields win, and no known field is
  ever lost.\<close>

theorem usage_merge_laws:
  "usage_merge (usage_merge a b) c = usage_merge a (usage_merge b c) \<and>
   usage_merge usage_default a = a \<and> usage_merge a usage_default = a \<and>
   input_tokens (usage_merge a b) = (if input_tokens b = None then input_tokens a else input_tokens b) \<and>
   cost (usage_merge a b) = (if cost b = None then cost a else cost b) \<and>
   (is_reported (usage_merge a b) \<longleftrightarrow> is_reported a \<or> is_reported b)"
proof (intro conjI)
  show "usage_merge (usage_merge a b) c = usage_merge a (usage_merge b c)"
    by (rule usage.equality) (auto simp: usage_merge_eq)
  show "is_reported (usage_merge a b) \<longleftrightarrow> is_reported a \<or> is_reported b"
    by (simp add: usage_merge_eq is_reported_def)
qed (simp_all add: usage_merge_eq usage_default_def)

end
