(* ===== verification/Projection.thy ===== *)
theory Projection
  imports Core_Types
begin

unbundle bit_operations_syntax

text \<open>
  The model-facing projection of tool results (\<open>tea-core/src/tool.rs\<close>, and \<open>project_model_context\<close>
  of \<open>run/mod.rs\<close>): bounded truncation that keeps both ends of a text and stays on UTF-8 character
  boundaries, the error fingerprint, duplicate suppression, and the tool registry.
\<close>

section \<open>UTF-8 boundaries\<close>

definition octet :: "char \<Rightarrow> nat" where
  "octet c = of_char c"

definition is_continuation :: "char \<Rightarrow> bool" where
  "is_continuation c \<longleftrightarrow> 128 \<le> octet c \<and> octet c < 192"

text \<open>\<open>str::is_char_boundary\<close>.\<close>

definition is_char_boundary :: "string \<Rightarrow> nat \<Rightarrow> bool" where
  "is_char_boundary s i \<longleftrightarrow> i = 0 \<or> i = length s \<or> (i < length s \<and> \<not> is_continuation (s ! i))"

fun boundary_below :: "string \<Rightarrow> nat \<Rightarrow> nat" where
  "boundary_below s 0 = 0"
| "boundary_below s (Suc i) = (if is_char_boundary s (Suc i) then Suc i else boundary_below s i)"

definition utf8_prefix_end :: "string \<Rightarrow> nat \<Rightarrow> nat" where
  "utf8_prefix_end s limit = boundary_below s (min limit (length s))"

function boundary_above :: "string \<Rightarrow> nat \<Rightarrow> nat" where
  "boundary_above s i =
     (if i < length s \<and> \<not> is_char_boundary s i then boundary_above s (Suc i) else i)"
  by pat_completeness auto
termination
  by (relation "measure (\<lambda>(s, i). length s - i)") auto

definition utf8_suffix_start :: "string \<Rightarrow> nat \<Rightarrow> nat" where
  "utf8_suffix_start s limit = boundary_above s (length s - limit)"

section \<open>Truncation\<close>

definition ellipsis :: string where
  "ellipsis = [char_of (226 :: nat), char_of (128 :: nat), char_of (166 :: nat)]"

definition truncation_marker :: string where
  "truncation_marker = ellipsis @ '' [truncated] '' @ ellipsis"

definition truncate_middle :: "string \<Rightarrow> nat \<Rightarrow> string" where
  "truncate_middle s limit =
     (if length s \<le> limit then s
      else if limit \<le> length truncation_marker
      then take (utf8_prefix_end truncation_marker limit) truncation_marker
      else let remaining = limit - length truncation_marker;
               prefix_limit = remaining div 2;
               suffix_limit = remaining - prefix_limit;
               prefix_end = utf8_prefix_end s prefix_limit;
               suffix_start = utf8_suffix_start s suffix_limit
           in take prefix_end s @ truncation_marker @ drop suffix_start s)"

section \<open>Projection of one result\<close>

record projection_policy =
  max_content_bytes :: nat
  max_details_bytes :: nat
  max_total_bytes :: nat
  deduplicate_repeated_errors :: bool

definition projection_default :: projection_policy where
  "projection_default = \<lparr>max_content_bytes = 64 * 1024, max_details_bytes = 64 * 1024,
     max_total_bytes = 128 * 1024, deduplicate_repeated_errors = True\<rparr>"

definition projection_validate :: "projection_policy \<Rightarrow> string + unit" where
  "projection_validate p =
     (let minimum_error_total = usize_add (usize_add (length ''[tool error status: invalid_arguments]'') 1)
            (length truncation_marker)
      in if max_content_bytes p < length truncation_marker \<or>
            max_details_bytes p < length truncation_marker \<or>
            max_total_bytes p < minimum_error_total
         then Inl ''tool result projection limits must preserve an error status and truncation marker''
         else Inr ())"

definition append_projected_section :: "string \<Rightarrow> string \<Rightarrow> nat \<Rightarrow> string" where
  "append_projected_section out section_text total_limit =
     (if section_text = [] then out
      else let separator_bytes = (if out \<noteq> [] then 1 else 0);
               available = total_limit - length out
           in if available \<le> separator_bytes then out
              else (if separator_bytes \<noteq> 0 then out @ [CHR 0x0A] else out) @
                   truncate_middle section_text (available - separator_bytes))"

definition fnv_byte :: "u64 \<Rightarrow> char \<Rightarrow> u64" where
  "fnv_byte h c = (h XOR word_of_nat (octet c)) * 0x100000001b3"

definition fnv_bytes :: "u64 \<Rightarrow> string \<Rightarrow> u64" where
  "fnv_bytes h s = foldl fnv_byte h s"

fun disposition_code :: "tool_failure_disposition \<Rightarrow> u64" where
  "disposition_code CancelledFailure = 1"
| "disposition_code InvalidArguments = 2"
| "disposition_code Recoverable = 3"
| "disposition_code Retryable = 4"
| "disposition_code Fatal = 5"

definition unwrap_or_default :: "string option \<Rightarrow> string" where
  "unwrap_or_default x = (case x of None \<Rightarrow> [] | Some s \<Rightarrow> s)"

definition error_fingerprint ::
  "string \<Rightarrow> serialized_json option \<Rightarrow> tool_failure option \<Rightarrow> u64" where
  "error_fingerprint text dets fail =
     (let hash = foldl fnv_bytes 0xcbf29ce484222325
            [text, unwrap_or_default dets, unwrap_or_default (Option.bind fail signature)]
      in case fail of None \<Rightarrow> hash
         | Some f \<Rightarrow>
             let hash = (hash XOR disposition_code (disposition f)) * 0x100000001b3
             in (case recovery_guidance f of None \<Rightarrow> hash | Some g \<Rightarrow> fnv_bytes hash g))"

fun disposition_name :: "tool_failure_disposition \<Rightarrow> string" where
  "disposition_name CancelledFailure = ''cancelled''"
| "disposition_name InvalidArguments = ''invalid_arguments''"
| "disposition_name Recoverable = ''recoverable''"
| "disposition_name Retryable = ''retryable''"
| "disposition_name Fatal = ''fatal''"

definition error_status :: "tool_failure option \<Rightarrow> string" where
  "error_status fail = ''[tool error status: '' @
     (case fail of None \<Rightarrow> ''recoverable'' | Some f \<Rightarrow> disposition_name (disposition f)) @ '']''"

definition repeated_error :: string where
  "repeated_error = ''[repeated tool error omitted; see the earlier matching result]''"

definition project_tool_result_as_text ::
  "string \<Rightarrow> serialized_json option \<Rightarrow> bool \<Rightarrow> tool_failure option \<Rightarrow> projection_policy \<Rightarrow> u64 set \<Rightarrow>
   (string \<times> bool) \<times> u64 set" where
  "project_tool_result_as_text text dets err fail policy seen =
     (let fingerprint = error_fingerprint text dets fail
      in if err \<and> deduplicate_repeated_errors policy \<and> fingerprint \<in> seen
         then ((repeated_error, True), seen)
         else
           let seen = (if err then insert fingerprint seen else seen);
               projected =
                 (if err
                  then let header = append_projected_section [] (error_status fail) (max_total_bytes policy)
                       in (case Option.bind fail recovery_guidance of None \<Rightarrow> header
                           | Some g \<Rightarrow> append_projected_section header
                               (''[recovery guidance: '' @ truncate_middle g (max_details_bytes policy) @ '']'')
                               (max_total_bytes policy))
                  else []);
               projected = append_projected_section projected
                 (truncate_middle text (max_content_bytes policy)) (max_total_bytes policy);
               projected =
                 (case dets of None \<Rightarrow> projected
                  | Some d \<Rightarrow> append_projected_section projected
                      (''[tool details (serialized JSON): '' @ truncate_middle d (max_details_bytes policy) @ '']'')
                      (max_total_bytes policy))
           in ((projected, err), seen))"

section \<open>Projection of a conversation\<close>

fun project_message ::
  "projection_policy \<Rightarrow> agent_message \<Rightarrow> u64 set \<Rightarrow> agent_message \<times> u64 set" where
  "project_message policy (ToolResultMessage i n r) seen =
     (case project_tool_result_as_text (content r) (details r) (is_error r) (failure r) policy seen of
        ((text, _), seen') \<Rightarrow> (ToolResultMessage i n (r\<lparr>content := text, details := None\<rparr>), seen'))"
| "project_message policy m seen = (m, seen)"

fun project_messages ::
  "projection_policy \<Rightarrow> agent_message list \<Rightarrow> u64 set \<Rightarrow> agent_message list" where
  "project_messages policy [] seen = []"
| "project_messages policy (m # ms) seen =
     (case project_message policy m seen of (m', seen') \<Rightarrow> m' # project_messages policy ms seen')"

definition project_model_context :: "agent_message list \<Rightarrow> projection_policy \<Rightarrow> agent_message list"
  where
  "project_model_context ms policy = project_messages policy ms {}"


section \<open>Boundaries and truncation\<close>

declare boundary_above.simps [simp del]

lemma boundary_below_le: "boundary_below s i \<le> i"
  by (induction i) auto

lemma boundary_below_boundary: "is_char_boundary s (boundary_below s i)"
  by (induction i) (auto simp: is_char_boundary_def)

lemma boundary_below_greatest: "is_char_boundary s j \<Longrightarrow> j \<le> i \<Longrightarrow> j \<le> boundary_below s i"
  by (induction i) (auto simp: le_Suc_eq)

lemma boundary_above_bounds:
  "i \<le> length s \<Longrightarrow> i \<le> boundary_above s i \<and> boundary_above s i \<le> length s \<and>
     is_char_boundary s (boundary_above s i)"
proof (induction s i rule: boundary_above.induct)
  case (1 s i)
  show ?case
  proof (cases "i < length s \<and> \<not> is_char_boundary s i")
    case True
    with "1.IH" show ?thesis by (auto simp: boundary_above.simps [of s i])
  next
    case False
    with "1.prems" show ?thesis
      by (auto simp: boundary_above.simps [of s i] is_char_boundary_def)
  qed
qed

lemma boundary_above_least:
  "is_char_boundary s j \<Longrightarrow> i \<le> j \<Longrightarrow> j \<le> length s \<Longrightarrow> boundary_above s i \<le> j"
proof (induction s i rule: boundary_above.induct)
  case (1 s i)
  show ?case
  proof (cases "i < length s \<and> \<not> is_char_boundary s i")
    case True
    with "1.prems" have "Suc i \<le> j" by (metis le_antisym not_less_eq_eq)
    with True "1.IH" "1.prems" show ?thesis by (simp add: boundary_above.simps [of s i])
  next
    case False
    with "1.prems" show ?thesis by (auto simp: boundary_above.simps [of s i])
  qed
qed

lemma prefix_end_facts:
  "utf8_prefix_end s n \<le> min n (length s)" "is_char_boundary s (utf8_prefix_end s n)"
  by (simp_all only: utf8_prefix_end_def boundary_below_le boundary_below_boundary)

lemma suffix_start_facts:
  "length s - n \<le> utf8_suffix_start s n" "utf8_suffix_start s n \<le> length s"
  "is_char_boundary s (utf8_suffix_start s n)"
  using boundary_above_bounds [of "length s - n" s] by (simp_all add: utf8_suffix_start_def)

lemma marker_length [simp]: "length truncation_marker = 19"
  by (simp add: truncation_marker_def ellipsis_def)

lemma truncate_middle_length: "length (truncate_middle s limit) \<le> limit"
proof -
  let ?p = "(limit - 19) div 2" and ?q = "limit - 19 - (limit - 19) div 2"
  have "length (take (utf8_prefix_end s ?p) s) \<le> ?p" "length (drop (utf8_suffix_start s ?q) s) \<le> ?q"
    using prefix_end_facts(1) [of s ?p] suffix_start_facts(1) [of s ?q]
    unfolding length_take length_drop by linarith+
  then have "length (take (utf8_prefix_end s ?p) s) + 19 + length (drop (utf8_suffix_start s ?q) s) \<le> limit"
    if "19 < limit"
    using that by linarith
  moreover have "length (take (utf8_prefix_end truncation_marker limit) truncation_marker) \<le> limit"
    using prefix_end_facts(1) [of truncation_marker limit] by simp
  ultimately show ?thesis
    unfolding truncate_middle_def Let_def marker_length
    by (simp add: add.assoc del: length_take length_drop)
qed

subsection \<open>Well-formed UTF-8\<close>

definition in_range :: "nat \<Rightarrow> nat \<Rightarrow> char \<Rightarrow> bool" where
  "in_range lo hi c \<longleftrightarrow> lo \<le> octet c \<and> octet c \<le> hi"

text \<open>One encoded character: the table of well-formed byte sequences of the Unicode standard.\<close>

fun utf8_char :: "string \<Rightarrow> bool" where
  "utf8_char [a] = in_range 0 127 a"
| "utf8_char [a, b] = (in_range 194 223 a \<and> is_continuation b)"
| "utf8_char [a, b, c] =
     ((in_range 224 239 a \<and> is_continuation b \<and> is_continuation c) \<and>
      (octet a = 224 \<longrightarrow> 160 \<le> octet b) \<and> (octet a = 237 \<longrightarrow> octet b < 160))"
| "utf8_char [a, b, c, d] =
     ((in_range 240 244 a \<and> is_continuation b \<and> is_continuation c \<and> is_continuation d) \<and>
      (octet a = 240 \<longrightarrow> 144 \<le> octet b) \<and> (octet a = 244 \<longrightarrow> octet b < 144))"
| "utf8_char _ = False"

inductive utf8 :: "string \<Rightarrow> bool" where
  utf8_Nil: "utf8 []"
| utf8_Cons: "utf8_char c \<Longrightarrow> utf8 s \<Longrightarrow> utf8 (c @ s)"

lemma utf8_char_shape:
  assumes "utf8_char c"
  shows "0 < length c \<and> length c \<le> 4 \<and> \<not> is_continuation (c ! 0) \<and>
    (\<forall>i. 0 < i \<and> i < length c \<longrightarrow> is_continuation (c ! i))"
  using assms
  by (cases c rule: utf8_char.cases)
    (auto simp: in_range_def is_continuation_def nth_Cons split: nat.splits)

lemma utf8_append: "utf8 a \<Longrightarrow> utf8 b \<Longrightarrow> utf8 (a @ b)"
  by (induction rule: utf8.induct) (auto intro: utf8_Cons)

lemma boundary_of_char:
  assumes "utf8_char c" and "is_char_boundary (c @ s) i" and "i \<noteq> 0"
  shows "length c \<le> i \<and> is_char_boundary s (i - length c)"
proof -
  have "length c \<le> i"
  proof (rule ccontr)
    assume "\<not> length c \<le> i"
    with assms utf8_char_shape [OF assms(1)] show False
      by (auto simp: is_char_boundary_def nth_append)
  qed
  with assms(2) show ?thesis by (auto simp: is_char_boundary_def nth_append)
qed

lemma utf8_split: "utf8 s \<Longrightarrow> is_char_boundary s i \<Longrightarrow> utf8 (take i s) \<and> utf8 (drop i s)"
proof (induction s arbitrary: i rule: utf8.induct)
  case utf8_Nil
  then show ?case by (simp add: utf8.utf8_Nil)
next
  case (utf8_Cons c s)
  show ?case
  proof (cases "i = 0")
    case True
    with utf8_Cons show ?thesis by (simp add: utf8.intros)
  next
    case False
    with boundary_of_char [OF utf8_Cons.hyps(1) utf8_Cons.prems]
    have "length c \<le> i" "is_char_boundary s (i - length c)" by simp_all
    with utf8_Cons show ?thesis by (simp add: utf8.utf8_Cons)
  qed
qed

lemma utf8_head: "utf8 s \<Longrightarrow> s \<noteq> [] \<Longrightarrow> \<not> is_continuation (s ! 0)"
  by (induction rule: utf8.induct) (auto simp: nth_append dest: utf8_char_shape)

lemma utf8_near_boundary:
  "utf8 s \<Longrightarrow> i \<le> length s \<Longrightarrow>
   (\<exists>j. is_char_boundary s j \<and> j \<le> i \<and> i \<le> j + 3) \<and>
   (\<exists>j. is_char_boundary s j \<and> i \<le> j \<and> j \<le> i + 3 \<and> j \<le> length s)"
proof (induction s arbitrary: i rule: utf8.induct)
  case utf8_Nil
  then show ?case by (auto simp: is_char_boundary_def)
next
  case (utf8_Cons c s)
  have shift: "is_char_boundary (c @ s) (length c + j)" if "is_char_boundary s j" for j
    using that utf8_Cons.hyps(2) utf8_char_shape [OF utf8_Cons.hyps(1)]
    by (auto simp: is_char_boundary_def nth_append dest: utf8_head)
  show ?case
  proof (cases "i < length c")
    case True
    have "is_char_boundary (c @ s) 0" by (simp add: is_char_boundary_def)
    moreover have "is_char_boundary (c @ s) (length c)" using shift [of 0] by (simp add: is_char_boundary_def)
    moreover have "length c \<le> 4" using utf8_char_shape [OF utf8_Cons.hyps(1)] by simp
    ultimately show ?thesis using True
      by (cases "i = 0") (auto intro: exI [of _ 0] exI [of _ "length c"])
  next
    case False
    with utf8_Cons.prems have "i - length c \<le> length s" by simp
    from utf8_Cons.IH [OF this]
    obtain j k where "is_char_boundary s j" "j \<le> i - length c" "i - length c \<le> j + 3"
      "is_char_boundary s k" "i - length c \<le> k" "k \<le> i - length c + 3" "k \<le> length s"
      by blast
    with False shift [of j] shift [of k] show ?thesis
      by (intro conjI exI [of _ "length c + j"] exI [of _ "length c + k"]) auto
  qed
qed


lemma utf8_marker: "utf8 truncation_marker"
proof -
  have e: "utf8_char ellipsis"
    by (simp add: ellipsis_def in_range_def is_continuation_def octet_def)
  have ascii: "utf8 (s :: string)" if "\<forall>c \<in> set s. octet c \<le> 127" for s
    using that
  proof (induction s)
    case Nil
    show ?case by (rule utf8_Nil)
  next
    case (Cons c s)
    then show ?case using utf8_Cons [of "[c]" s] by (simp add: in_range_def)
  qed
  have "utf8 ellipsis" using utf8_Cons [OF e utf8_Nil] by simp
  moreover have "utf8 '' [truncated] ''" by (rule ascii) (simp add: octet_def)
  ultimately show ?thesis by (simp only: truncation_marker_def utf8_append)
qed

lemma truncate_middle_utf8: "utf8 s \<Longrightarrow> utf8 (truncate_middle s limit)"
  using utf8_split prefix_end_facts(2) suffix_start_facts(3) utf8_marker
  by (simp add: truncate_middle_def Let_def utf8_append)

section \<open>Projected sections\<close>

lemma truncate_middle_short [simp]: "length s \<le> limit \<Longrightarrow> truncate_middle s limit = s"
  by (simp add: truncate_middle_def)

lemma append_section_length:
  "length out \<le> n \<Longrightarrow> length (append_projected_section out t n) \<le> n"
proof -
  assume out: "length out \<le> n"
  let ?sep = "if out \<noteq> [] then 1 else 0 :: nat"
  have "length (truncate_middle t (n - length out - ?sep)) \<le> n - length out - ?sep"
    by (rule truncate_middle_length)
  with out show ?thesis
    by (auto simp: append_projected_section_def Let_def)
qed

lemma append_section_prefix: "\<exists>rest. append_projected_section out t n = out @ rest"
  by (auto simp: append_projected_section_def Let_def)

lemma append_section_utf8: "utf8 out \<Longrightarrow> utf8 t \<Longrightarrow> utf8 (append_projected_section out t n)"
proof -
  assume "utf8 out" "utf8 t"
  moreover have "utf8 [CHR 0x0A]"
    using utf8_Cons [OF _ utf8_Nil, of "[CHR 0x0A]"] by (simp add: in_range_def octet_def)
  ultimately have "utf8 (out @ [CHR 0x0A] @ truncate_middle t k)" "utf8 (out @ truncate_middle t k)"
    "utf8 (truncate_middle t k)" for k
    using truncate_middle_utf8 by (blast intro: utf8_append)+
  with \<open>utf8 out\<close> show ?thesis by (simp add: append_projected_section_def Let_def)
qed

lemma append_section_first:
  "length t \<le> n \<Longrightarrow> append_projected_section [] t n = t"
  by (cases "n = 0") (simp_all add: append_projected_section_def Let_def)

lemma error_status_length: "length (error_status fail) \<le> 38"
  by (cases fail; cases "disposition (the fail)") (simp_all add: error_status_def)

lemma projection_validate_limits:
  "projection_validate p = Inr () \<longleftrightarrow>
     19 \<le> max_content_bytes p \<and> 19 \<le> max_details_bytes p \<and> 58 \<le> max_total_bytes p"
  by (auto simp: projection_validate_def usize_add_def usize_max_def)


lemma append_section_optional:
  "\<exists>rest. (case x of None \<Rightarrow> out | Some g \<Rightarrow> append_projected_section out (f g) n) = out @ rest"
  by (cases x) (simp_all add: append_section_prefix)

text \<open>The text a projection produces when it is not suppressed, and its length.\<close>

lemma project_not_repeated:
  assumes "\<not> (err \<and> deduplicate_repeated_errors policy \<and> error_fingerprint text dets fail \<in> seen)"
  obtains header rest where "fst (fst (project_tool_result_as_text text dets err fail policy seen)) = header @ rest"
    and "err \<Longrightarrow> header = append_projected_section [] (error_status fail) (max_total_bytes policy)"
    and "length (header @ rest) \<le> max_total_bytes policy"
proof -
  let ?n = "max_total_bytes policy"
  define header where "header = (if err then append_projected_section [] (error_status fail) ?n else [])"
  define guided where "guided = (case (if err then Option.bind fail recovery_guidance else None) of None \<Rightarrow> header
    | Some g \<Rightarrow> append_projected_section header
        (''[recovery guidance: '' @ truncate_middle g (max_details_bytes policy) @ '']'') ?n)"
  define body where "body = append_projected_section guided (truncate_middle text (max_content_bytes policy)) ?n"
  define out where "out = (case dets of None \<Rightarrow> body | Some d \<Rightarrow> append_projected_section body
    (''[tool details (serialized JSON): '' @ truncate_middle d (max_details_bytes policy) @ '']'') ?n)"
  have out: "fst (fst (project_tool_result_as_text text dets err fail policy seen)) = out"
    using assms by (auto simp: project_tool_result_as_text_def out_def body_def guided_def header_def Let_def
        split: option.splits)
  have lens: "length header \<le> ?n" "length guided \<le> ?n" "length body \<le> ?n" "length out \<le> ?n"
    by (simp_all add: header_def guided_def body_def out_def append_section_length split: option.splits)
  obtain r1 where "guided = header @ r1"
    unfolding guided_def by (metis append_section_optional)
  moreover obtain r2 where "body = guided @ r2"
    unfolding body_def by (metis append_section_prefix)
  moreover obtain r3 where "out = body @ r3"
    unfolding out_def by (metis append_section_optional)
  ultimately have "out = header @ (r1 @ r2 @ r3)" by simp
  with out lens(4) that [of header "r1 @ r2 @ r3"] show ?thesis by (simp add: header_def)
qed

lemma project_repeated:
  "err \<Longrightarrow> deduplicate_repeated_errors policy \<Longrightarrow> error_fingerprint text dets fail \<in> seen \<Longrightarrow>
   project_tool_result_as_text text dets err fail policy seen = ((repeated_error, True), seen)"
  by (simp add: project_tool_result_as_text_def)

lemma project_seen:
  "snd (project_tool_result_as_text text dets err fail policy seen) =
     (if err then insert (error_fingerprint text dets fail) seen else seen)"
  by (auto simp: project_tool_result_as_text_def Let_def insert_absorb)

section \<open>Projected conversations\<close>

fun error_key :: "agent_message \<Rightarrow> u64 option" where
  "error_key (ToolResultMessage i n r) =
     (if is_error r then Some (error_fingerprint (content r) (details r) (failure r)) else None)"
| "error_key m = None"

lemma project_message_seen:
  "snd (project_message policy m seen) = seen \<union> set_option (error_key m)"
  by (cases m) (use project_seen in \<open>auto split: prod.splits simp: prod_eq_iff\<close>)

lemma project_messages_append:
  "project_messages policy (xs @ ys) seen =
     project_messages policy xs seen @
     project_messages policy ys (seen \<union> (\<Union>m \<in> set xs. set_option (error_key m)))"
proof (induction xs arbitrary: seen)
  case Nil
  then show ?case by simp
next
  case (Cons x xs)
  then show ?case
    using project_message_seen [of policy x seen] by (auto split: prod.splits simp: Un_assoc)
qed

text \<open>What the projection may not touch: everything but a tool result's text and details.\<close>

fun same_but_text :: "agent_message \<Rightarrow> agent_message \<Rightarrow> bool" where
  "same_but_text (ToolResultMessage i n r) (ToolResultMessage i' n' r') =
     (i = i' \<and> n = n' \<and> r\<lparr>content := content r', details := None\<rparr> = r')"
| "same_but_text m m' = (m = m')"

lemma project_message_same: "same_but_text m (fst (project_message policy m seen))"
  by (cases m) (auto split: prod.splits)

lemma project_messages_same: "list_all2 same_but_text ms (project_messages policy ms seen)"
  by (induction ms arbitrary: seen) (use project_message_same in \<open>auto split: prod.splits simp: prod_eq_iff\<close>)

lemma length_project_messages: "length (project_messages policy ms seen) = length ms"
  using project_messages_same [of ms policy seen] by (simp add: list_all2_lengthD)

lemma project_messages_at:
  assumes "i < length ms"
  shows "project_messages policy ms seen ! i =
    fst (project_message policy (ms ! i) (seen \<union> (\<Union>m \<in> set (take i ms). set_option (error_key m))))"
proof -
  have "ms = take i ms @ ms ! i # drop (Suc i) ms" using assms by (simp add: id_take_nth_drop)
  then have "project_messages policy ms seen = project_messages policy (take i ms @ ms ! i # drop (Suc i) ms) seen"
    by simp
  with assms show ?thesis
    by (simp add: project_messages_append nth_append length_project_messages split: prod.splits)
qed

section \<open>Properties\<close>

text \<open>Middle truncation never exceeds its byte limit, leaves a text that fits alone, and maps
  well-formed UTF-8 to well-formed UTF-8, whatever the limit.\<close>

theorem truncate_middle_safe:
  "utf8 s \<Longrightarrow> length (truncate_middle s limit) \<le> limit \<and> utf8 (truncate_middle s limit) \<and>
     (length s \<le> limit \<longrightarrow> truncate_middle s limit = s)"
  by (simp add: truncate_middle_length truncate_middle_utf8)

theorem truncate_middle_safe_witness:
  "length (truncate_middle (ellipsis @ ''bcd'') 4) \<le> 4 \<and> utf8 (truncate_middle (ellipsis @ ''bcd'') 4)"
proof -
  have "utf8 (ellipsis @ [CHR ''b''] @ [CHR ''c''] @ [CHR ''d''] @ [])"
    by (intro utf8.intros) (simp_all add: ellipsis_def in_range_def is_continuation_def octet_def)
  then show ?thesis using truncate_middle_safe [of "ellipsis @ ''bcd''" 4] by simp
qed

text \<open>A truncated text is a prefix of the original, the marker and a suffix of it, and of the
  limit at most three bytes are lost at each cut (a cut inside a character moves to its boundary).\<close>

theorem truncate_middle_keeps:
  assumes "utf8 s" and "19 < limit" and "limit < length s"
  shows "\<exists>p q. truncate_middle s limit = take p s @ truncation_marker @ drop (length s - q) s \<and>
    p + q \<le> length s \<and> p + 19 + q \<le> limit \<and> limit \<le> p + 19 + q + 6"
proof -
  let ?p = "(limit - 19) div 2" and ?q = "limit - 19 - (limit - 19) div 2"
  let ?e = "utf8_prefix_end s ?p" and ?b = "utf8_suffix_start s ?q"
  have fits: "?p + ?q = limit - 19" "?p \<le> length s" "?q \<le> length s" using assms(2,3) by auto
  from utf8_near_boundary [OF assms(1) fits(2)]
  obtain j where j: "is_char_boundary s j" "j \<le> ?p" "?p \<le> j + 3" by blast
  have "j \<le> ?e"
    using boundary_below_greatest [OF j(1,2)] fits(2) by (simp add: utf8_prefix_end_def)
  from utf8_near_boundary [OF assms(1), of "length s - ?q"]
  obtain k where k: "is_char_boundary s k" "length s - ?q \<le> k" "k \<le> length s - ?q + 3" "k \<le> length s"
    by auto
  have "?b \<le> k"
    using boundary_above_least [OF k(1,2,4)] by (simp add: utf8_suffix_start_def)
  have "?e \<le> ?p" using prefix_end_facts(1) [of s ?p] by simp
  note facts = \<open>?e \<le> ?p\<close> \<open>j \<le> ?e\<close> j(3) \<open>?b \<le> k\<close> k(3) fits suffix_start_facts(1,2) [of s ?q] assms(2,3)
  have "truncate_middle s limit = take ?e s @ truncation_marker @ drop (length s - (length s - ?b)) s"
    using assms(2,3) by (simp add: truncate_middle_def Let_def suffix_start_facts(2))
  moreover have "?e + (length s - ?b) \<le> length s" "?e + 19 + (length s - ?b) \<le> limit"
    "limit \<le> ?e + 19 + (length s - ?b) + 6"
    using facts by linarith+
  ultimately show ?thesis by (intro exI [of _ ?e] exI [of _ "length s - ?b"]) blast
qed

theorem truncate_middle_keeps_witness:
  "\<exists>p q. truncate_middle (replicate 30 (CHR ''x'')) 25 =
     take p (replicate 30 (CHR ''x'')) @ truncation_marker @ drop (30 - q) (replicate 30 (CHR ''x'')) \<and>
     p + 19 + q \<le> 25 \<and> 25 \<le> p + 19 + q + 6"
proof -
  have "utf8 (replicate n (CHR ''x''))" for n
    by (induction n) (use utf8_Cons [of "[CHR ''x'']"] in \<open>auto intro: utf8_Nil simp: in_range_def octet_def\<close>)
  from truncate_middle_keeps [OF this, of 25 30] show ?thesis by simp blast
qed

text \<open>Under a valid policy the projection of an error result starts with its whole error
  status, however large the content, guidance and details are, unless it repeats an earlier error.\<close>

theorem error_status_survives:
  assumes "projection_validate policy = Inr ()"
    and "\<not> (deduplicate_repeated_errors policy \<and> error_fingerprint text dets fail \<in> seen)"
  shows "\<exists>rest. fst (fst (project_tool_result_as_text text dets True fail policy seen)) =
    error_status fail @ rest"
proof -
  have "length (error_status fail) \<le> max_total_bytes policy"
    using assms(1) error_status_length [of fail] by (simp add: projection_validate_limits)
  then have h: "append_projected_section [] (error_status fail) (max_total_bytes policy) = error_status fail"
    by (rule append_section_first)
  show ?thesis
    by (rule project_not_repeated [of True policy "text" dets fail seen]) (use assms(2) h in auto)
qed

theorem error_status_survives_witness:
  "\<exists>rest. fst (fst (project_tool_result_as_text ''boom'' None True None projection_default {})) =
    ''[tool error status: recoverable]'' @ rest"
  using error_status_survives [of projection_default "''boom''" None None "{}"]
  by (simp add: projection_validate_limits projection_default_def error_status_def)

text \<open>C38: a projected tool result stays within the total byte limit of the policy, except for the
  62-byte notice that replaces a repeated error.\<close>

theorem projection_bounded:
  "length (fst (fst (project_tool_result_as_text text dets err fail policy seen))) \<le> max_total_bytes policy \<or>
   fst (fst (project_tool_result_as_text text dets err fail policy seen)) = repeated_error \<and> err \<and>
     deduplicate_repeated_errors policy \<and> error_fingerprint text dets fail \<in> seen"
proof (cases "err \<and> deduplicate_repeated_errors policy \<and> error_fingerprint text dets fail \<in> seen")
  case True
  then show ?thesis by (simp add: project_repeated)
next
  case False
  then show ?thesis by (metis project_not_repeated)
qed

text \<open>That notice does exceed the limit of some policies the code accepts: with a total of 58
  bytes, the least valid one, a repeated error is projected to 62 bytes.\<close>

theorem repeated_notice_exceeds_limit:
  "let policy = \<lparr>max_content_bytes = 19, max_details_bytes = 19, max_total_bytes = 58,
       deduplicate_repeated_errors = True\<rparr>;
     (_, seen) = project_tool_result_as_text ''boom'' None True None policy {};
     ((text, _), _) = project_tool_result_as_text ''boom'' None True None policy seen
   in projection_validate policy = Inr () \<and> length text = 62"
proof -
  let ?p = "\<lparr>max_content_bytes = 19, max_details_bytes = 19, max_total_bytes = 58,
       deduplicate_repeated_errors = True\<rparr>"
  have "snd (project_tool_result_as_text ''boom'' None True None ?p {}) = {error_fingerprint ''boom'' None None}"
    by (simp add: project_seen)
  then have "project_tool_result_as_text ''boom'' None True None ?p
      (snd (project_tool_result_as_text ''boom'' None True None ?p {})) =
      ((repeated_error, True), {error_fingerprint ''boom'' None None})"
    by (simp add: project_repeated)
  then show ?thesis
    by (simp add: Let_def case_prod_beta projection_validate_limits repeated_error_def)
qed

text \<open>Projecting a conversation changes nothing but the text and details of tool results:
  the number, order, kinds, identifiers, error flags and failure metadata of the messages stay.\<close>

theorem projection_frame:
  "list_all2 same_but_text ms (project_model_context ms policy)"
  by (simp add: project_model_context_def project_messages_same)

text \<open>In a projected conversation an error result that repeats the content, details and
  failure of an earlier error result is replaced by the notice.\<close>

theorem projection_suppresses_repeats:
  assumes "deduplicate_repeated_errors policy" and "i < j" and "j < length ms"
    and "ms ! i = ToolResultMessage a n r" and "ms ! j = ToolResultMessage b m q"
    and "is_error r" and "is_error q"
    and "content r = content q" and "details r = details q" and "failure r = failure q"
  shows "\<exists>q'. project_model_context ms policy ! j = ToolResultMessage b m q' \<and> content q' = repeated_error"
proof -
  let ?key = "error_fingerprint (content q) (details q) (failure q)"
  have "ms ! i \<in> set (take j ms)" using assms(2,3) by (metis in_set_conv_nth length_take less_trans min_less_iff_conj nth_take)
  then have "?key \<in> (\<Union>m \<in> set (take j ms). set_option (error_key m))"
    using assms by (intro UN_I [of "ms ! i"]) auto
  then show ?thesis
    using assms by (simp add: project_model_context_def project_messages_at project_repeated)
qed

theorem projection_suppresses_repeats_witness:
  "\<exists>q'. project_model_context (replicate 2 (ToolResultMessage 1 ''t''
       \<lparr>tool_call_id = ''c'', content = ''x'', details = None, result_usage = None,
        added_tool_names = [], terminate = False, is_error = True, failure = None\<rparr>)) projection_default ! 1 =
     ToolResultMessage 1 ''t'' q' \<and> content q' = repeated_error"
proof -
  let ?r = "\<lparr>tool_call_id = ''c'', content = ''x'', details = None, result_usage = None,
        added_tool_names = [], terminate = False, is_error = True, failure = None\<rparr>"
  let ?m = "ToolResultMessage 1 ''t'' ?r"
  have at: "replicate 2 ?m ! 0 = ?m" "replicate 2 ?m ! 1 = ?m" by simp_all
  show ?thesis
    by (rule projection_suppresses_repeats [OF _ _ _ at]) (simp_all add: projection_default_def)
qed

end
