(* ===== verification/Scheduler.thy ===== *)
theory Scheduler
  imports Core_Types
begin

text \<open>
  Deterministic tool ordering (\<open>tea-core/src/scheduler.rs\<close>: planned batches and completion sets) and
  the ordered registry of tools (\<open>tea-core/src/tool.rs\<close>). A registered capability is host code: the
  registry is generic in it, and reads its name, description, schema and mode through the record of
  its prompt-facing definition.
\<close>

section \<open>Tool batches\<close>

datatype scheduler_error = UnknownToolCall tool_call_id | DuplicateCompletion tool_call_id

record planned_tool_call =
  source_index :: nat
  planned_call :: tool_call
  execution_mode :: tool_execution_mode

type_synonym tool_batch = "planned_tool_call list"
type_synonym completion_set = "tool_call_id \<rightharpoonup> agent_tool_result"

definition prepare_batch :: "(tool_call \<times> tool_execution_mode) list \<Rightarrow> tool_batch" where
  "prepare_batch cs = map (\<lambda>(i, c, mode). \<lparr>source_index = i, planned_call = c, execution_mode = mode\<rparr>)
     (zip [0..<length cs] cs)"

text \<open>\<open>CompletionSet::insert\<close>: the map is written before the duplicate is reported.\<close>

definition completion_insert ::
  "agent_tool_result \<Rightarrow> (completion_set, scheduler_error, unit) step" where
  "completion_insert r = (\<lambda>results.
     let previous = results (tool_call_id r); results = results(tool_call_id r \<mapsto> r)
     in if previous \<noteq> None then (Inl (DuplicateCompletion (tool_call_id r)), results)
        else (Inr (), results))"

definition record_completion ::
  "tool_batch \<Rightarrow> agent_tool_result \<Rightarrow> (completion_set, scheduler_error, unit) step" where
  "record_completion batch r =
     (if \<not> list_ex (\<lambda>p. tc_id (planned_call p) = tool_call_id r) batch
      then failS (UnknownToolCall (tool_call_id r))
      else completion_insert r)"

definition in_source_order :: "completion_set \<Rightarrow> tool_batch \<Rightarrow> agent_tool_result list" where
  "in_source_order results batch = List.map_filter (\<lambda>p. results (tc_id (planned_call p))) batch"

text \<open>A host reports completions one after the other, in the order in which they happen.\<close>

definition record_all :: "tool_batch \<Rightarrow> agent_tool_result list \<Rightarrow> (completion_set, scheduler_error, unit) step"
  where
  "record_all batch rs = forE rs (record_completion batch)"

definition batch_ids :: "tool_batch \<Rightarrow> tool_call_id list" where
  "batch_ids batch = map (\<lambda>p. tc_id (planned_call p)) batch"

lemma batch_ids_prepare: "batch_ids (prepare_batch cs) = map (\<lambda>c. tc_id (fst c)) cs"
proof (rule nth_equalityI)
  show "length (batch_ids (prepare_batch cs)) = length (map (\<lambda>c. tc_id (fst c)) cs)"
    by (simp add: batch_ids_def prepare_batch_def)
next
  fix i assume "i < length (batch_ids (prepare_batch cs))"
  then have i: "i < length cs" by (simp add: batch_ids_def prepare_batch_def)
  then show "batch_ids (prepare_batch cs) ! i = map (\<lambda>c. tc_id (fst c)) cs ! i"
    by (simp add: batch_ids_def prepare_batch_def case_prod_beta)
qed

lemma in_batch: "list_ex (\<lambda>p. tc_id (planned_call p) = i) batch \<longleftrightarrow> i \<in> set (batch_ids batch)"
  by (auto simp: batch_ids_def list_ex_iff)

lemma record_completion_ok:
  "record_completion batch r results = (Inr (), results') \<longleftrightarrow>
     tool_call_id r \<in> set (batch_ids batch) \<and> results (tool_call_id r) = None \<and>
     results' = results(tool_call_id r \<mapsto> r)"
  unfolding record_completion_def in_batch by (auto simp: completion_insert_def failS_def Let_def)

definition by_id :: "agent_tool_result list \<Rightarrow> completion_set" where
  "by_id rs = map_of (map (\<lambda>r. (tool_call_id r, r)) rs)"

lemma dom_by_id: "dom (by_id rs) = set (map tool_call_id rs)"
  unfolding by_id_def by (rule dom_map_of_pairs)

lemma by_id_Some: "distinct (map tool_call_id rs) \<Longrightarrow> r \<in> set rs \<Longrightarrow> by_id rs (tool_call_id r) = Some r"
  unfolding by_id_def by (rule map_of_is_SomeI) (auto simp: comp_def)

lemma by_id_Cons: "by_id (r # rs) = (by_id rs)(tool_call_id r \<mapsto> r)"
  by (simp add: by_id_def)

lemma by_id_shift:
  "tool_call_id r \<notin> set (map tool_call_id rs) \<Longrightarrow>
    results(tool_call_id r \<mapsto> r) ++ by_id rs = results ++ by_id (r # rs)"
  using dom_by_id [of rs] by (simp add: by_id_Cons map_add_upd_shift)

lemma record_all_ok:
  "record_all batch rs results = (Inr (), results') \<longleftrightarrow>
     set (map tool_call_id rs) \<subseteq> set (batch_ids batch) \<and> distinct (map tool_call_id rs) \<and>
     set (map tool_call_id rs) \<inter> dom results = {} \<and> results' = results ++ by_id rs"
proof (induction rs arbitrary: results)
  case Nil
  then show ?case by (auto simp: record_all_def retS_def by_id_def)
next
  case (Cons r rs)
  have step: "record_all batch (r # rs) results = (Inr (), results') \<longleftrightarrow>
      (\<exists>mid. record_completion batch r results = (Inr (), mid) \<and> record_all batch rs mid = (Inr (), results'))"
    by (auto simp: record_all_def bindE_def bindS_def split: prod.splits sum.splits)
  show ?case
    unfolding step record_completion_ok Cons.IH
    using by_id_shift [of r rs results] by (auto simp: dom_def) (metis image_eqI)
qed

section \<open>The tool registry\<close>

record 'tool registry =
  tools :: "string \<rightharpoonup> 'tool"
  order :: "string list"

definition registry_default :: "'tool registry" where
  "registry_default = \<lparr>tools = Map.empty, order = []\<rparr>"

definition registry_insert :: "string \<Rightarrow> 'tool \<Rightarrow> 'tool registry \<Rightarrow> 'tool registry" where
  "registry_insert name t r =
     (let r = (if tools r name = None then r\<lparr>order := order r @ [name]\<rparr> else r)
      in r\<lparr>tools := (tools r)(name \<mapsto> t)\<rparr>)"

definition registry_remove :: "string \<Rightarrow> 'tool registry \<Rightarrow> 'tool option \<times> 'tool registry" where
  "registry_remove name r =
     (let removed = tools r name; r = r\<lparr>tools := (tools r)(name := None)\<rparr>
      in (removed, if removed \<noteq> None then r\<lparr>order := filter (\<lambda>entry. entry \<noteq> name) (order r)\<rparr> else r))"

definition registry_get :: "'tool registry \<Rightarrow> string \<Rightarrow> 'tool option" where
  "registry_get r name = tools r name"

definition registry_definitions :: "'tool registry \<Rightarrow> 'tool list" where
  "registry_definitions r = List.map_filter (tools r) (order r)"

definition registry_ok :: "'tool registry \<Rightarrow> bool" where
  "registry_ok r \<longleftrightarrow> distinct (order r) \<and> set (order r) = dom (tools r)"

lemma registry_ok_default: "registry_ok registry_default"
  by (simp add: registry_ok_def registry_default_def)

lemma registry_ok_insert: "registry_ok r \<Longrightarrow> registry_ok (registry_insert name t r)"
  by (auto simp: registry_ok_def registry_insert_def Let_def)

lemma registry_ok_remove: "registry_ok r \<Longrightarrow> registry_ok (snd (registry_remove name r))"
  by (auto simp: registry_ok_def registry_remove_def Let_def)

datatype 'tool registry_op = Insert string 'tool | Remove string

fun registry_apply :: "'tool registry_op \<Rightarrow> 'tool registry \<Rightarrow> 'tool registry" where
  "registry_apply (Insert name t) r = registry_insert name t r"
| "registry_apply (Remove name) r = snd (registry_remove name r)"

lemma registry_ok_fold: "registry_ok r \<Longrightarrow> registry_ok (fold registry_apply ops r)"
proof (induction ops arbitrary: r)
  case Nil
  then show ?case by simp
next
  case (Cons op ops)
  then show ?case by (cases op) (simp_all add: registry_ok_insert registry_ok_remove)
qed

lemma registry_definitions_ok:
  "registry_ok r \<Longrightarrow> registry_definitions r = map (\<lambda>name. the (registry_get r name)) (order r)"
  unfolding registry_definitions_def registry_get_def map_filter_def
  by (intro map_cong) (auto simp: registry_ok_def filter_id_conv)

section \<open>Properties\<close>

text \<open>For a batch of calls with distinct IDs, once every call has completed exactly once the
  results come out in assistant order, whatever the order in which the completions arrived.\<close>

theorem completions_in_source_order:
  assumes "distinct (batch_ids batch)"
    and "record_all batch rs Map.empty = (Inr (), results)"
    and "set (map tool_call_id rs) = set (batch_ids batch)"
  shows "map tool_call_id (in_source_order results batch) = batch_ids batch \<and>
    set (in_source_order results batch) = set rs"
proof -
  have res: "results = by_id rs" "distinct (map tool_call_id rs)"
    using assms(2) by (simp_all add: record_all_ok)
  have found: "\<exists>r \<in> set rs. tool_call_id r = i \<and> results i = Some r" if "i \<in> set (batch_ids batch)" for i
    using that assms(3) res by_id_Some by force
  have "in_source_order results batch = map (\<lambda>i. the (results i)) (batch_ids batch)"
    using found by (fastforce simp: in_source_order_def batch_ids_def map_filter_def
        intro!: map_cong filter_True)
  then have ordered: "in_source_order results batch = map (\<lambda>i. the (results i)) (batch_ids batch)" .
  have "map tool_call_id (in_source_order results batch) = batch_ids batch"
    unfolding ordered map_map using found by (intro map_idI) fastforce
  moreover have "set (in_source_order results batch) = set rs"
  proof
    show "set (in_source_order results batch) \<subseteq> set rs" unfolding ordered using found by fastforce
    show "set rs \<subseteq> set (in_source_order results batch)"
    proof
      fix r assume r: "r \<in> set rs"
      with res have "results (tool_call_id r) = Some r" by (simp add: by_id_Some)
      moreover from r assms(3) have "tool_call_id r \<in> set (batch_ids batch)" by auto
      ultimately show "r \<in> set (in_source_order results batch)" unfolding ordered by force
    qed
  qed
  ultimately show ?thesis by simp
qed

definition sample_call :: "string \<Rightarrow> tool_call" where
  "sample_call i = \<lparr>tc_id = i, tc_name = ''t'', tc_arguments = ''{}''\<rparr>"

definition sample_result :: "string \<Rightarrow> agent_tool_result" where
  "sample_result i = \<lparr>tool_call_id = i, content = i, details = None, result_usage = None,
     added_tool_names = [], terminate = False, is_error = False, failure = None\<rparr>"

theorem completions_in_source_order_witness:
  "map tool_call_id (in_source_order (snd (record_all
      (prepare_batch [(sample_call ''a'', Parallel), (sample_call ''b'', Parallel)])
      [sample_result ''b'', sample_result ''a''] Map.empty))
    (prepare_batch [(sample_call ''a'', Parallel), (sample_call ''b'', Parallel)])) = [''a'', ''b'']"
proof -
  let ?b = "prepare_batch [(sample_call ''a'', Parallel), (sample_call ''b'', Parallel)]"
  let ?rs = "[sample_result ''b'', sample_result ''a'']"
  have ids: "batch_ids ?b = [''a'', ''b'']" by (simp add: batch_ids_prepare sample_call_def)
  have run: "record_all ?b ?rs Map.empty = (Inr (), snd (record_all ?b ?rs Map.empty))"
  proof -
    have "\<exists>res. record_all ?b ?rs Map.empty = (Inr (), res)"
      by (simp add: record_all_ok ids) (simp add: sample_result_def)
    then show ?thesis by fastforce
  qed
  show ?thesis
    using completions_in_source_order [OF _ run] by (simp add: ids) (auto simp: sample_result_def)
qed

text \<open>A completion is refused without effect when its call is not in the batch; a second
  completion of a call is reported as a duplicate, but it has already replaced the first result.\<close>

theorem record_completion_errors:
  "record_completion batch r results =
     (if tool_call_id r \<notin> set (batch_ids batch) then (Inl (UnknownToolCall (tool_call_id r)), results)
      else if results (tool_call_id r) \<noteq> None
      then (Inl (DuplicateCompletion (tool_call_id r)), results(tool_call_id r \<mapsto> r))
      else (Inr (), results(tool_call_id r \<mapsto> r)))"
  unfolding record_completion_def in_batch by (simp add: completion_insert_def failS_def Let_def)

text \<open>After any sequence of insertions and removals the registry's prompt order lists exactly
  the registered names, each once, and its definitions are the registered tools in that order.\<close>

theorem registry_consistent:
  "let r = fold registry_apply ops registry_default
   in distinct (order r) \<and> set (order r) = dom (tools r) \<and>
      registry_definitions r = map (\<lambda>name. the (registry_get r name)) (order r)"
  using registry_ok_fold [OF registry_ok_default, of ops]
  by (simp add: registry_definitions_ok Let_def) (simp add: registry_ok_def)

end
