(* ===== verification/Cancel_Scope.thy ===== *)
theory Cancel_Scope
  imports Prelude
begin

text \<open>
  The two cancellation primitives of the repository, as interleavings of threads. The token of
  \<open>tea-core/src/scheduler.rs\<close> wakes registered wakers; the source and token of
  \<open>tea-protocol/src/cancellation.rs\<close> block a thread on a condition variable. Every access to an
  atomic and every acquisition of a mutex is a step of its own, so the check/register races the code
  guards against are in the model: a critical section whose body looks at the flag holds the lock
  over several steps. Mutexes and the release/acquire flag are taken as sequentially consistent,
  and lock poisoning (a panic inside a critical section) is left out.
\<close>

section \<open>The token of tea-core\<close>

type_synonym thread = nat
type_synonym waker = nat

text \<open>
  What a thread is doing. A future returned by \<open>cancelled()\<close> has a serial number that is never
  reused; the code sees only the 64-bit waiter ID made of it.
\<close>

datatype token_pc =
  TIdle
| CancelTake
| CancelWake "waker list"
| PollLock nat waker
| PollCheck nat waker
| PollPush nat waker
| RegisterLock waker
| RegisterCheck waker
| RegisterPush waker
| DropLock nat

record token =
  cancelled_flag :: bool
  next_waiter_id :: u64
  waiters :: "(u64 \<times> waker) list"
  token_lock :: "thread option"
  token_pc :: "thread \<Rightarrow> token_pc"
  issued :: nat
  live :: "nat set"
  owed :: "nat \<rightharpoonup> waker"

text \<open>
  \<open>issued\<close>, \<open>live\<close> and \<open>owed\<close> are history: how many IDs were handed out, which futures exist, and
  to which of them (or to which registration) the code promised to wake a waker and has not yet.
\<close>

definition token_new :: token where
  "token_new = \<lparr>cancelled_flag = False, next_waiter_id = 0, waiters = [], token_lock = None,
     token_pc = (\<lambda>_. TIdle), issued = 0, live = {}, owed = Map.empty\<rparr>"

abbreviation at :: "token \<Rightarrow> thread \<Rightarrow> token_pc \<Rightarrow> bool" where
  "at s t p \<equiv> token_pc s t = p"

definition goto :: "thread \<Rightarrow> token_pc \<Rightarrow> token \<Rightarrow> token" where
  "goto t p s = s\<lparr>token_pc := (token_pc s)(t := p)\<rparr>"

definition fetch_waiter_id :: "token \<Rightarrow> token" where
  "fetch_waiter_id s = s\<lparr>next_waiter_id := next_waiter_id s + 1, issued := Suc (issued s)\<rparr>"

definition wid :: "nat \<Rightarrow> u64" where
  "wid n = word_of_nat n"

fun set_waiter :: "u64 \<Rightarrow> waker \<Rightarrow> (u64 \<times> waker) list \<Rightarrow> (u64 \<times> waker) list" where
  "set_waiter i w [] = [(i, w)]"
| "set_waiter i w ((j, v) # rest) = (if j = i then (j, w) # rest else (j, v) # set_waiter i w rest)"

text \<open>Waking a waker settles every promise made for it.\<close>

definition wake :: "waker \<Rightarrow> token \<Rightarrow> token" where
  "wake w s = s\<lparr>owed := (\<lambda>n. if owed s n = Some w then None else owed s n)\<rparr>"

text \<open>A future is polled and dropped through an exclusive reference.\<close>

fun works_on :: "token_pc \<Rightarrow> nat \<Rightarrow> bool" where
  "works_on (PollLock n w) m \<longleftrightarrow> n = m"
| "works_on (PollCheck n w) m \<longleftrightarrow> n = m"
| "works_on (PollPush n w) m \<longleftrightarrow> n = m"
| "works_on (DropLock n) m \<longleftrightarrow> n = m"
| "works_on p m \<longleftrightarrow> False"

definition exclusive :: "token \<Rightarrow> nat \<Rightarrow> bool" where
  "exclusive s n \<longleftrightarrow> n \<in> live s \<and> (\<forall>t. \<not> works_on (token_pc s t) n)"

inductive token_step :: "token \<Rightarrow> token \<Rightarrow> bool" where
  \<comment> \<open>\<open>cancelled()\<close>\<close>
  new_wait: "token_step s ((fetch_waiter_id s)\<lparr>live := insert (issued s) (live s)\<rparr>)"
  \<comment> \<open>\<open>cancel()\<close>\<close>
| cancel_again: "at s t TIdle \<Longrightarrow> cancelled_flag s \<Longrightarrow> token_step s s"
| cancel_swap: "at s t TIdle \<Longrightarrow> \<not> cancelled_flag s \<Longrightarrow>
    token_step s (goto t CancelTake (s\<lparr>cancelled_flag := True\<rparr>))"
| cancel_take: "at s t CancelTake \<Longrightarrow> token_lock s = None \<Longrightarrow>
    token_step s (goto t (CancelWake (map snd (waiters s))) (s\<lparr>waiters := []\<rparr>))"
| cancel_wake: "at s t (CancelWake (w # ws)) \<Longrightarrow> token_step s (goto t (CancelWake ws) (wake w s))"
| cancel_done: "at s t (CancelWake []) \<Longrightarrow> token_step s (goto t TIdle s)"
  \<comment> \<open>\<open>CancellationWait::poll\<close>\<close>
| poll_ready: "at s t TIdle \<Longrightarrow> exclusive s n \<Longrightarrow> cancelled_flag s \<Longrightarrow>
    token_step s (s\<lparr>owed := (owed s)(n := None)\<rparr>)"
| poll_start: "at s t TIdle \<Longrightarrow> exclusive s n \<Longrightarrow> \<not> cancelled_flag s \<Longrightarrow>
    token_step s (goto t (PollLock n w) s)"
| poll_lock: "at s t (PollLock n w) \<Longrightarrow> token_lock s = None \<Longrightarrow>
    token_step s (goto t (PollCheck n w) (s\<lparr>token_lock := Some t\<rparr>))"
| poll_check_ready: "at s t (PollCheck n w) \<Longrightarrow> cancelled_flag s \<Longrightarrow>
    token_step s (goto t TIdle (s\<lparr>token_lock := None, owed := (owed s)(n := None)\<rparr>))"
| poll_check: "at s t (PollCheck n w) \<Longrightarrow> \<not> cancelled_flag s \<Longrightarrow>
    token_step s (goto t (PollPush n w) s)"
| poll_push: "at s t (PollPush n w) \<Longrightarrow>
    token_step s (goto t TIdle (s\<lparr>waiters := set_waiter (wid n) w (waiters s), token_lock := None,
      owed := (owed s)(n \<mapsto> w)\<rparr>))"
  \<comment> \<open>\<open>register_waker\<close>\<close>
| register_ready: "at s t TIdle \<Longrightarrow> cancelled_flag s \<Longrightarrow> token_step s (wake w s)"
| register_start: "at s t TIdle \<Longrightarrow> \<not> cancelled_flag s \<Longrightarrow> token_step s (goto t (RegisterLock w) s)"
| register_lock: "at s t (RegisterLock w) \<Longrightarrow> token_lock s = None \<Longrightarrow>
    token_step s (goto t (RegisterCheck w) (s\<lparr>token_lock := Some t\<rparr>))"
| register_check_ready: "at s t (RegisterCheck w) \<Longrightarrow> cancelled_flag s \<Longrightarrow>
    token_step s (goto t TIdle (wake w (s\<lparr>token_lock := None\<rparr>)))"
| register_check: "at s t (RegisterCheck w) \<Longrightarrow> \<not> cancelled_flag s \<Longrightarrow>
    token_step s (goto t (RegisterPush w) s)"
| register_known: "at s t (RegisterPush w) \<Longrightarrow> w \<in> snd ` set (waiters s) \<Longrightarrow>
    token_step s (goto t TIdle (s\<lparr>token_lock := None\<rparr>))"
| register_push: "at s t (RegisterPush w) \<Longrightarrow> w \<notin> snd ` set (waiters s) \<Longrightarrow>
    token_step s (goto t TIdle ((fetch_waiter_id s)\<lparr>waiters := waiters s @ [(next_waiter_id s, w)],
      token_lock := None, owed := (owed s)(issued s \<mapsto> w)\<rparr>))"
  \<comment> \<open>\<open>Drop for CancellationWait\<close>\<close>
| drop_ready: "at s t TIdle \<Longrightarrow> exclusive s n \<Longrightarrow> cancelled_flag s \<Longrightarrow>
    token_step s (s\<lparr>live := live s - {n}, owed := (owed s)(n := None)\<rparr>)"
| drop_start: "at s t TIdle \<Longrightarrow> exclusive s n \<Longrightarrow> \<not> cancelled_flag s \<Longrightarrow>
    token_step s (goto t (DropLock n) (s\<lparr>live := live s - {n}, owed := (owed s)(n := None)\<rparr>))"
| drop_retain: "at s t (DropLock n) \<Longrightarrow> token_lock s = None \<Longrightarrow>
    token_step s (goto t TIdle (s\<lparr>waiters := filter (\<lambda>(i, w). i \<noteq> wid n) (waiters s)\<rparr>))"

section \<open>Its invariant\<close>

fun holds_lock :: "token_pc \<Rightarrow> bool" where
  "holds_lock (PollCheck n w) = True"
| "holds_lock (PollPush n w) = True"
| "holds_lock (RegisterCheck w) = True"
| "holds_lock (RegisterPush w) = True"
| "holds_lock p = False"

fun pushing :: "token_pc \<Rightarrow> bool" where
  "pushing (PollPush n w) = True"
| "pushing (RegisterPush w) = True"
| "pushing p = False"

fun cancelling :: "token_pc \<Rightarrow> bool" where
  "cancelling CancelTake = True"
| "cancelling (CancelWake ws) = True"
| "cancelling p = False"

text \<open>The waiter list is still going to be read by a canceller (or nobody has cancelled yet).\<close>

definition list_open :: "token \<Rightarrow> bool" where
  "list_open s \<longleftrightarrow> \<not> cancelled_flag s \<or> (\<exists>t. at s t CancelTake)"

definition ids_ok :: "token \<Rightarrow> bool" where
  "ids_ok s \<longleftrightarrow> next_waiter_id s = wid (issued s) \<and> (\<forall>n \<in> live s. n < issued s) \<and>
     (\<forall>n \<in> dom (owed s). n < issued s) \<and> (\<forall>t n. works_on (token_pc s t) n \<longrightarrow> n < issued s) \<and>
     (\<forall>t n. at s t (DropLock n) \<longrightarrow> n \<notin> live s \<and> owed s n = None) \<and>
     (\<forall>t u n. works_on (token_pc s t) n \<longrightarrow> works_on (token_pc s u) n \<longrightarrow> t = u)"

definition lock_ok :: "token \<Rightarrow> bool" where
  "lock_ok s \<longleftrightarrow> (\<forall>t. holds_lock (token_pc s t) \<longleftrightarrow> token_lock s = Some t)"

definition cancel_ok :: "token \<Rightarrow> bool" where
  "cancel_ok s \<longleftrightarrow> (\<forall>t. cancelling (token_pc s t) \<longrightarrow> cancelled_flag s) \<and>
     (\<forall>t u. cancelling (token_pc s t) \<longrightarrow> cancelling (token_pc s u) \<longrightarrow> t = u) \<and>
     (\<forall>t. pushing (token_pc s t) \<longrightarrow> list_open s)"

definition owed_ok :: "token \<Rightarrow> bool" where
  "owed_ok s \<longleftrightarrow> (\<forall>n w. owed s n = Some w \<longrightarrow>
     (if list_open s then (wid n, w) \<in> set (waiters s)
      else \<exists>t ws. at s t (CancelWake ws) \<and> w \<in> set ws))"


definition token_inv :: "token \<Rightarrow> bool" where
  "token_inv s \<longleftrightarrow> ids_ok s \<and> lock_ok s \<and> cancel_ok s \<and> owed_ok s"

lemmas token_upd = goto_def fetch_waiter_id_def wake_def

lemma wid_Suc: "wid (Suc n) = wid n + 1"
  by (simp add: wid_def)

lemma wid_inj: "n < 2 ^ 64 \<Longrightarrow> m < 2 ^ 64 \<Longrightarrow> wid n = wid m \<longleftrightarrow> n = m"
  by (auto simp: wid_def word_of_nat_eq_iff take_bit_nat_eq_self)

lemma set_waiter_other: "(j, v) \<in> set ws \<Longrightarrow> j \<noteq> i \<Longrightarrow> (j, v) \<in> set (set_waiter i w ws)"
  by (induction i w ws rule: set_waiter.induct) auto

lemma set_waiter_here: "(i, w) \<in> set (set_waiter i w ws)"
  by (induction i w ws rule: set_waiter.induct) auto

text \<open>What the invariants say of a thread that is about to take a step.\<close>

lemma lock_okD: "lock_ok s \<Longrightarrow> at s t p \<Longrightarrow> holds_lock p \<longleftrightarrow> token_lock s = Some t"
  by (auto simp: lock_ok_def)

lemma lock_ok_move:
  assumes inv: "lock_ok s" and move: "token_pc s' = (token_pc s)(t := p)"
    and here: "holds_lock p \<longleftrightarrow> token_lock s' = Some t"
    and there: "token_lock s' = token_lock s \<or> (token_lock s \<in> {None, Some t} \<and> token_lock s' \<in> {None, Some t})"
  shows "lock_ok s'"
  unfolding lock_ok_def
proof
  fix u
  show "holds_lock (token_pc s' u) \<longleftrightarrow> token_lock s' = Some u"
  proof (cases "u = t")
    case True
    then show ?thesis using move here by simp
  next
    case False
    then have "holds_lock (token_pc s' u) \<longleftrightarrow> token_lock s = Some u"
      using move lock_okD [OF inv refl, of u] by simp
    also have "\<dots> \<longleftrightarrow> token_lock s' = Some u" using there False by auto
    finally show ?thesis .
  qed
qed

lemma lock_ok_same: "lock_ok s \<Longrightarrow> token_pc s' = token_pc s \<Longrightarrow> token_lock s' = token_lock s \<Longrightarrow> lock_ok s'"
  by (simp add: lock_ok_def)

lemma lock_ok_goto:
  assumes "lock_ok s" and "at s t old" and "token_pc s0 = token_pc s"
    and "holds_lock p \<longleftrightarrow> token_lock s0 = Some t"
    and "token_lock s0 = token_lock s \<or> token_lock s = None \<and> token_lock s0 = Some t \<or>
      holds_lock old \<and> token_lock s0 = None"
  shows "lock_ok (goto t p s0)"
  by (rule lock_ok_move [OF assms(1), of _ t p])
    (use assms lock_okD [OF assms(1,2)] in \<open>auto simp: goto_def\<close>)

lemma lock_ok_step:
  assumes step: "token_step s s'" and inv: "lock_ok s"
  shows "lock_ok s'"
  using step
  apply (cases rule: token_step.cases)
  apply (simp_all only:)
  apply ((rule lock_ok_goto [OF inv], assumption; use lock_okD [OF inv] in \<open>force simp: token_upd\<close>) 
    | (rule lock_ok_same [OF inv]; simp add: token_upd; fail))+
  done

lemma ids_okD:
  assumes "ids_ok s" and "at s t p" and "works_on p n"
  shows "n < issued s" and "works_on (token_pc s u) n \<Longrightarrow> u = t"
  using assms by (auto simp: ids_ok_def)

lemma ids_ok_dropD:
  "ids_ok s \<Longrightarrow> at s t (DropLock n) \<Longrightarrow> n < issued s \<and> n \<notin> live s \<and> owed s n = None"
  using ids_okD(1) [of s t "DropLock n" n] unfolding ids_ok_def by simp

text \<open>The futures and promises of a new state, compared with those of the old one.\<close>

definition ids_grow :: "thread \<Rightarrow> token \<Rightarrow> token \<Rightarrow> bool" where
  "ids_grow t s s0 \<longleftrightarrow> token_pc s0 = token_pc s \<and> next_waiter_id s0 = wid (issued s0) \<and>
     issued s \<le> issued s0 \<and> (\<forall>n \<in> live s0. n < issued s0 \<and> (n \<in> live s \<or> n = issued s)) \<and>
     (\<forall>n \<in> dom (owed s0). n < issued s0 \<and> (owed s n \<noteq> None \<or> n = issued s \<or>
        works_on (token_pc s t) n \<and> (\<forall>m. token_pc s t \<noteq> DropLock m)))"

lemma ids_ok_goto:
  assumes inv: "ids_ok s" and grow: "ids_grow t s s0"
    and fresh: "\<And>n. works_on p n \<Longrightarrow> works_on (token_pc s t) n \<or> (n < issued s \<and> (\<forall>u. \<not> works_on (token_pc s u) n))"
    and dropped: "\<And>n. p = DropLock n \<Longrightarrow> n \<notin> live s0 \<and> owed s0 n = None"
  shows "ids_ok (goto t p s0)"
  unfolding ids_ok_def
proof (intro conjI allI impI)
  note g = grow [unfolded ids_grow_def]
  show "next_waiter_id (goto t p s0) = wid (issued (goto t p s0))" using g by (simp add: goto_def)
  show "\<forall>n \<in> live (goto t p s0). n < issued (goto t p s0)" using g by (simp add: goto_def)
  show "\<forall>n \<in> dom (owed (goto t p s0)). n < issued (goto t p s0)" using g by (simp add: goto_def)
  fix u n
  have pc: "token_pc (goto t p s0) u = (if u = t then p else token_pc s u)" for u
    using g by (simp add: goto_def)
  { assume "works_on (token_pc (goto t p s0) u) n"
    then have "n < issued s"
      using ids_okD(1) [OF inv refl] fresh by (auto simp: pc split: if_splits)
    then show "n < issued (goto t p s0)" using g by (simp add: goto_def) }
  { fix v assume "works_on (token_pc (goto t p s0) u) n" and "works_on (token_pc (goto t p s0) v) n"
    then show "u = v"
      unfolding pc using ids_okD(2) [OF inv refl] fresh by (metis (full_types)) }
  { assume drop: "at (goto t p s0) u (DropLock n)"
    show "n \<notin> live (goto t p s0)" "owed (goto t p s0) n = None"
    proof -
      have "n \<notin> live s0 \<and> owed s0 n = None"
      proof (cases "u = t")
        case True
        then show ?thesis using drop dropped by (simp add: pc)
      next
        case False
        then have other: "at s u (DropLock n)" using drop by (simp add: pc)
        then have "\<not> works_on (token_pc s t) n" using ids_okD(2) [OF inv other] False by fastforce
        with ids_ok_dropD [OF inv other] g show ?thesis by (metis domIff less_irrefl)
      qed
      then show "n \<notin> live (goto t p s0)" "owed (goto t p s0) n = None" by (simp_all add: goto_def)
    qed }
qed

lemma goto_same: "goto t (token_pc s t) s = s"
  by (simp add: goto_def)

lemma ids_ok_stay:
  assumes "ids_ok s" and "at s t p" and "ids_grow t s s0"
    and "\<And>n. p = DropLock n \<Longrightarrow> n \<notin> live s0 \<and> owed s0 n = None"
  shows "ids_ok s0"
proof -
  have "goto t p s0 = s0" using assms(2,3) goto_same [of t s0] by (simp add: ids_grow_def)
  then show ?thesis using ids_ok_goto [OF assms(1,3), of p] assms(2,4) by auto
qed

lemma ids_ok_step:
  assumes step: "token_step s s'" and inv: "ids_ok s"
  shows "ids_ok s'"
proof -
  have basic: "next_waiter_id s = wid (issued s)" "\<And>n. n \<in> live s \<Longrightarrow> n < issued s"
    "\<And>n w. owed s n = Some w \<Longrightarrow> n < issued s" "\<And>t n. works_on (token_pc s t) n \<Longrightarrow> n < issued s"
    using inv by (auto simp: ids_ok_def)
  obtain t0 :: thread where "t0 = t0" by simp
  have new: "\<not> works_on (token_pc s u) (issued s)" for u using basic(4) by blast
  note grow = ids_grow_def token_upd wid_Suc basic(1) exclusive_def less_Suc_eq
  show ?thesis
    using step
    apply (cases rule: token_step.cases)
    apply (simp_all only:)
    subgoal
      using ids_ok_dropD [OF inv, of t0] basic(2-4)
      by (intro ids_ok_stay [OF inv refl, of t0]) (auto simp: grow)
    apply (rule inv 
     | (rule ids_ok_stay [OF inv], assumption; (use basic(2-4) in \<open>auto simp: grow split: if_splits\<close>; fail))
     | (rule ids_ok_goto [OF inv]; (use basic(2-4) new in \<open>auto simp: grow dest: ids_okD(1) [OF inv] split: if_splits\<close>; fail)))+
    done
qed


lemma list_open_goto:
  assumes "token_pc s0 = token_pc s" and "cancelled_flag s0 = cancelled_flag s"
    and "at s t old" and "old \<noteq> CancelTake" and "p \<noteq> CancelTake"
  shows "list_open (goto t p s0) = list_open s"
  using assms by (auto simp: list_open_def goto_def)

lemma cancel_okD:
  assumes "cancel_ok s" and "at s t p"
  shows "cancelling p \<Longrightarrow> cancelled_flag s" and "cancelling p \<Longrightarrow> cancelling (token_pc s u) \<Longrightarrow> u = t"
    and "pushing p \<Longrightarrow> list_open s"
  using assms by (auto simp: cancel_ok_def)

lemma cancel_ok_goto:
  assumes inv: "cancel_ok s" and old: "at s t old" "old \<noteq> CancelTake"
    and same: "token_pc s0 = token_pc s" "cancelled_flag s0 = cancelled_flag s"
    and p: "p \<noteq> CancelTake" "cancelling p \<Longrightarrow> cancelling old" "pushing p \<Longrightarrow> list_open s"
  shows "cancel_ok (goto t p s0)"
proof -
  have open': "list_open (goto t p s0) = list_open s"
    using list_open_goto [OF same old p(1)] .
  have pc: "token_pc (goto t p s0) u = (if u = t then p else token_pc s u)" for u
    using same by (simp add: goto_def)
  have flag: "cancelled_flag (goto t p s0) = cancelled_flag s" using same by (simp add: goto_def)
  show ?thesis
    unfolding cancel_ok_def open' pc flag
    using cancel_okD [OF inv refl] cancel_okD [OF inv old(1)] p by (metis (full_types))
qed

lemma cancel_ok_step:
  assumes step: "token_step s s'" and inv: "cancel_ok s" and lock: "lock_ok s"
  shows "cancel_ok s'"
proof -
  have flag: "cancelling (token_pc s t) \<Longrightarrow> cancelled_flag s" for t using inv by (auto simp: cancel_ok_def)
  have push: "pushing p \<Longrightarrow> holds_lock p" for p by (cases p) auto
  have free: "token_lock s = None \<Longrightarrow> \<not> pushing (token_pc s t)" for t
    using lock_okD [OF lock refl, of t] push by auto
  show ?thesis
    using step
    apply (cases rule: token_step.cases)
    apply (simp_all only:)
    subgoal using inv by (simp add: cancel_ok_def list_open_def fetch_waiter_id_def)
    subgoal by (rule inv)
    subgoal unfolding cancel_ok_def using flag by (auto simp: list_open_def goto_def)
    subgoal for t
      using inv free flag [of t] cancel_okD(2) [OF inv, of t CancelTake]
      unfolding cancel_ok_def list_open_def goto_def by auto
    apply (use inv in \<open>simp add: cancel_ok_def list_open_def fetch_waiter_id_def wake_def; fail\<close>
     | (rule cancel_ok_goto [OF inv], assumption; (use cancel_okD [OF inv] in \<open>auto simp: wake_def fetch_waiter_id_def list_open_def\<close>; fail)))+
    done
qed

lemma owed_okD:
  assumes "owed_ok s" and "owed s n = Some w"
  shows "list_open s \<Longrightarrow> (wid n, w) \<in> set (waiters s)"
    and "\<not> list_open s \<Longrightarrow> \<exists>t ws. at s t (CancelWake ws) \<and> w \<in> set ws"
  using assms by (auto simp: owed_ok_def)

lemma owed_ok_goto:
  assumes inv: "owed_ok s" and old: "at s t old" "\<not> cancelling old" and p: "\<not> cancelling p"
    and same: "token_pc s0 = token_pc s" "cancelled_flag s0 = cancelled_flag s"
    and owed: "\<And>n w. owed s0 n = Some w \<Longrightarrow> owed s n = Some w \<or> list_open s \<and> (wid n, w) \<in> set (waiters s0)"
    and keep: "\<And>n w. list_open s \<Longrightarrow> owed s0 n = Some w \<Longrightarrow> owed s n = Some w \<Longrightarrow>
      (wid n, w) \<in> set (waiters s) \<Longrightarrow> (wid n, w) \<in> set (waiters s0)"
  shows "owed_ok (goto t p s0)"
proof -
  have "list_open (goto t p s0) = list_open s"
    by (rule list_open_goto [OF same old(1)]) (use old p in auto)
  moreover have "\<exists>u ws. at (goto t p s0) u (CancelWake ws) \<and> w \<in> set ws"
    if "at s u (CancelWake ws)" "w \<in> set ws" for u ws w
    using that old same by (intro exI [of _ u] exI [of _ ws]) (auto simp: goto_def)
  moreover have "owed (goto t p s0) = owed s0" "waiters (goto t p s0) = waiters s0" by (simp_all add: goto_def)
  ultimately show ?thesis
    unfolding owed_ok_def using owed keep owed_okD [OF inv] by metis
qed

lemma owed_ok_stay:
  assumes inv: "owed_ok s" and same: "token_pc s0 = token_pc s" "cancelled_flag s0 = cancelled_flag s"
    "waiters s0 = waiters s" and owed: "\<And>n w. owed s0 n = Some w \<Longrightarrow> owed s n = Some w"
  shows "owed_ok s0"
proof -
  have "list_open s0 = list_open s" by (simp add: list_open_def same)
  then show ?thesis unfolding owed_ok_def same using owed owed_okD [OF inv] by metis
qed

text \<open>The steps of the canceller.\<close>

lemma owed_ok_swap:
  assumes "owed_ok s" and "\<not> cancelled_flag s"
  shows "owed_ok (goto t CancelTake (s\<lparr>cancelled_flag := True\<rparr>))"
proof -
  have "list_open s" "list_open (goto t CancelTake (s\<lparr>cancelled_flag := True\<rparr>))"
    using assms(2) by (auto simp: list_open_def goto_def)
  then show ?thesis using owed_okD(1) [OF assms(1)] by (simp add: owed_ok_def goto_def)
qed

lemma owed_ok_take:
  assumes "owed_ok s" and here: "at s t CancelTake" and cancel: "cancel_ok s"
  shows "owed_ok (goto t (CancelWake (map snd (waiters s))) (s\<lparr>waiters := []\<rparr>))"
proof -
  have "list_open s" using here by (auto simp: list_open_def)
  note found = owed_okD(1) [OF assms(1) _ this]
  let ?s = "goto t (CancelWake (map snd (waiters s))) (s\<lparr>waiters := []\<rparr>)"
  have "\<exists>u ws. at ?s u (CancelWake ws) \<and> w \<in> set ws" if "owed s n = Some w" for n w
    using found [OF that] by (intro exI [of _ t]) (force simp: goto_def)
  moreover have "token_pc s u \<noteq> CancelTake" if "u \<noteq> t" for u
    using cancel_okD(2) [OF cancel here, of u] that by auto
  then have "\<not> list_open ?s"
    using cancel_okD(1) [OF cancel here] by (auto simp: list_open_def goto_def)
  ultimately show ?thesis by (simp add: owed_ok_def goto_def)
qed

lemma owed_ok_wake:
  assumes "owed_ok s" and here: "at s t (CancelWake ws)" and cancel: "cancel_ok s"
    and owed: "\<And>n w. owed s0 n = Some w \<Longrightarrow> owed s n = Some w \<and> (w \<in> set ws \<longrightarrow> (\<exists>vs. p = CancelWake vs \<and> w \<in> set vs))"
    and "token_pc s0 = token_pc s" "cancelled_flag s0 = cancelled_flag s" "p \<noteq> CancelTake"
  shows "owed_ok (goto t p s0)"
proof -
  have only: "cancelled_flag s" "cancelling (token_pc s u) \<Longrightarrow> u = t" for u
    using cancel_okD [OF cancel here] by auto
  have "token_pc s u \<noteq> CancelTake" for u using only(2) [of u] here by (cases "u = t") auto
  then have closed: "\<not> list_open s" "\<not> list_open (goto t p s0)"
    using only(1) assms(5-7) by (auto simp: list_open_def goto_def)
  have "\<exists>u vs. at (goto t p s0) u (CancelWake vs) \<and> w \<in> set vs" if "owed s0 n = Some w" for n w
  proof -
    note o = owed [OF that]
    from o obtain u vs where u: "at s u (CancelWake vs)" "w \<in> set vs"
      using owed_okD(2) [OF assms(1) _ closed(1)] by blast
    then have "u = t" using only(2) [of u] by simp
    with u here have "w \<in> set ws" by simp
    with o show ?thesis by (intro exI [of _ t]) (auto simp: goto_def)
  qed
  then show ?thesis using closed(2) by (simp add: owed_ok_def goto_def)
qed

lemma owed_ok_step:
  assumes step: "token_step s s'" and inv: "owed_ok s" and cancel: "cancel_ok s" and ids: "ids_ok s"
    and few: "issued s \<le> 2 ^ 64"
  shows "owed_ok s'"
proof -
  have below: "owed s n = Some w \<Longrightarrow> n < 2 ^ 64" for n w
    using ids few unfolding ids_ok_def by (metis domI order_less_le_trans)
  have mine: "at s t p \<Longrightarrow> works_on p n \<Longrightarrow> n < 2 ^ 64" for t p n
    using ids_okD(1) [OF ids] few by (metis order_less_le_trans)
  note upd = wake_def fetch_waiter_id_def set_waiter_here
  show ?thesis
    using step
    apply (cases rule: token_step.cases)
    apply (simp_all only:)
    subgoal by (rule owed_ok_stay [OF inv]) (simp_all add: upd)
    subgoal by (rule inv)
    subgoal by (rule owed_ok_swap [OF inv])
    subgoal by (rule owed_ok_take [OF inv _ cancel])
    subgoal by (rule owed_ok_wake [OF inv _ cancel]) (auto simp: wake_def split: if_splits)
    subgoal by (rule owed_ok_wake [OF inv _ cancel]) auto
    apply ((rule owed_ok_stay [OF inv]; simp add: upd split: if_splits; fail)
     | (rule owed_ok_goto [OF inv], assumption; (use inv in \<open>auto simp: upd split: if_splits\<close>; fail)))+
    subgoal for t n w
      using cancel_okD(3) [OF cancel, of t "PollPush n w"] mine [of t "PollPush n w" n] wid_inj [OF below]
      by (intro owed_ok_goto [OF inv]) (auto simp: upd intro!: set_waiter_other split: if_splits)
    apply ((rule owed_ok_stay [OF inv]; simp add: upd split: if_splits; fail)
     | (rule owed_ok_goto [OF inv], assumption; (use inv in \<open>auto simp: upd split: if_splits\<close>; fail)))+
    subgoal for t w
      using cancel_okD(3) [OF cancel, of t "RegisterPush w"] ids
      by (intro owed_ok_goto [OF inv]) (auto simp: upd ids_ok_def split: if_splits)
    apply ((rule owed_ok_stay [OF inv]; simp add: upd split: if_splits; fail)
     | (rule owed_ok_goto [OF inv], assumption; (use inv in \<open>auto simp: upd split: if_splits\<close>; fail)))+
    subgoal for t n
      using ids_ok_dropD [OF ids, of t n] mine [of t "DropLock n" n] wid_inj [OF below]
      by (intro owed_ok_goto [OF inv]) (auto simp: upd split: if_splits)
    done
qed

lemma issued_mono: "token_step s s' \<Longrightarrow> issued s \<le> issued s'"
  by (induction rule: token_step.induct) (simp_all add: token_upd)

lemma token_inv_step:
  "token_step s s' \<Longrightarrow> token_inv s \<Longrightarrow> issued s' \<le> 2 ^ 64 \<Longrightarrow> token_inv s'"
  unfolding token_inv_def
  using issued_mono ids_ok_step lock_ok_step cancel_ok_step owed_ok_step by (meson order_trans)

definition token_reach :: "token \<Rightarrow> bool" where
  "token_reach s \<longleftrightarrow> token_step\<^sup>*\<^sup>* token_new s"

lemma token_inv_new: "token_inv token_new"
  by (simp add: token_inv_def token_new_def ids_ok_def lock_ok_def cancel_ok_def owed_ok_def wid_def)

lemma token_inv_reach: "token_reach s \<Longrightarrow> issued s \<le> 2 ^ 64 \<Longrightarrow> token_inv s"
  unfolding token_reach_def
proof (induction rule: rtranclp_induct)
  case base
  show ?case by (rule token_inv_new)
next
  case (step s s')
  then show ?case using token_inv_step issued_mono by (meson order_trans)
qed

lemma cancelling_cases: "cancelling p \<longleftrightarrow> p = CancelTake \<or> (\<exists>ws. p = CancelWake ws)"
  by (cases p) auto

section \<open>The source of tea-protocol\<close>

text \<open>
  A canceller sets the flag, stores a non-empty reason under the mutex, and notifies; a blocking
  waiter holds the mutex from its first look at the flag until the condition variable has put it to
  sleep. A sleeping thread continues by taking the mutex again, after a notification or spuriously.
\<close>

datatype source_pc =
  SIdle
| StoreReason string
| NotifyAll
| WaitLock
| WaitCheck
| WaitBlock
| Asleep
| Reported "string option"

record source =
  source_flag :: bool
  source_reason :: "string option"
  source_lock :: "thread option"
  source_pc :: "thread \<Rightarrow> source_pc"

definition source_new :: source where
  "source_new = \<lparr>source_flag = False, source_reason = None, source_lock = None, source_pc = (\<lambda>_. SIdle)\<rparr>"

definition sgoto :: "thread \<Rightarrow> source_pc \<Rightarrow> source \<Rightarrow> source" where
  "sgoto t p s = s\<lparr>source_pc := (source_pc s)(t := p)\<rparr>"

definition notify_all :: "source \<Rightarrow> source" where
  "notify_all s = s\<lparr>source_pc := (\<lambda>t. if source_pc s t = Asleep then WaitLock else source_pc s t)\<rparr>"

inductive source_step :: "(string \<Rightarrow> bool) \<Rightarrow> source \<Rightarrow> source \<Rightarrow> bool"
  for allowed :: "string \<Rightarrow> bool" where
  \<comment> \<open>\<open>cancel_with_reason\<close>, for the reasons the clients use\<close>
  lose: "source_pc s t = SIdle \<Longrightarrow> source_flag s \<Longrightarrow> source_step allowed s s"
| win: "source_pc s t = SIdle \<Longrightarrow> \<not> source_flag s \<Longrightarrow> allowed reason \<Longrightarrow> source_step allowed s
    (sgoto t (if reason = [] then NotifyAll else StoreReason reason) (s\<lparr>source_flag := True\<rparr>))"
| store: "source_pc s t = StoreReason reason \<Longrightarrow> source_lock s = None \<Longrightarrow>
    source_step allowed s (sgoto t NotifyAll (s\<lparr>source_reason := Some reason\<rparr>))"
| notify: "source_pc s t = NotifyAll \<Longrightarrow> source_step allowed s (sgoto t SIdle (notify_all s))"
  \<comment> \<open>\<open>wait_blocking\<close>\<close>
| wait_start: "source_pc s t = SIdle \<Longrightarrow> source_step allowed s (sgoto t WaitLock s)"
| wait_lock: "source_pc s t = WaitLock \<Longrightarrow> source_lock s = None \<Longrightarrow>
    source_step allowed s (sgoto t WaitCheck (s\<lparr>source_lock := Some t\<rparr>))"
| wait_done: "source_pc s t = WaitCheck \<Longrightarrow> source_flag s \<Longrightarrow>
    source_step allowed s (sgoto t (Reported (source_reason s)) (s\<lparr>source_lock := None\<rparr>))"
| wait_check: "source_pc s t = WaitCheck \<Longrightarrow> \<not> source_flag s \<Longrightarrow>
    source_step allowed s (sgoto t WaitBlock s)"
| wait_block: "source_pc s t = WaitBlock \<Longrightarrow>
    source_step allowed s (sgoto t Asleep (s\<lparr>source_lock := None\<rparr>))"
| wait_return: "source_pc s t = Reported r \<Longrightarrow> source_step allowed s (sgoto t SIdle s)"

text \<open>The condition variable may also wake a thread by itself; nothing promises that it does.\<close>

inductive source_spurious :: "source \<Rightarrow> source \<Rightarrow> bool" where
  "source_pc s t = Asleep \<Longrightarrow> source_spurious s (sgoto t WaitLock s)"

definition source_run :: "(string \<Rightarrow> bool) \<Rightarrow> source \<Rightarrow> source \<Rightarrow> bool" where
  "source_run allowed = (\<lambda>s s'. source_step allowed s s' \<or> source_spurious s s')\<^sup>*\<^sup>*"

fun source_cancelling :: "source_pc \<Rightarrow> bool" where
  "source_cancelling (StoreReason r) = True"
| "source_cancelling NotifyAll = True"
| "source_cancelling p = False"

text \<open>With non-empty reasons the canceller passes through the mutex before it notifies.\<close>

definition source_inv :: "source \<Rightarrow> bool" where
  "source_inv s \<longleftrightarrow>
     (\<forall>t. source_pc s t \<in> {WaitCheck, WaitBlock} \<longrightarrow> source_lock s = Some t) \<and>
     (\<forall>t. source_cancelling (source_pc s t) \<longrightarrow> source_flag s) \<and>
     (\<forall>t u. source_cancelling (source_pc s t) \<longrightarrow> source_cancelling (source_pc s u) \<longrightarrow> t = u) \<and>
     (\<forall>t. source_pc s t = WaitBlock \<longrightarrow> \<not> source_flag s \<or> (\<exists>u r. source_pc s u = StoreReason r)) \<and>
     (\<forall>t. source_pc s t = Asleep \<longrightarrow> \<not> source_flag s \<or> (\<exists>u. source_cancelling (source_pc s u)))"

lemma source_pc_upd:
  "source_pc (sgoto t p s) u = (if u = t then p else source_pc s u)"
  "source_flag (sgoto t p s) = source_flag s" "source_lock (sgoto t p s) = source_lock s"
  "source_pc (notify_all s) u = (if source_pc s u = Asleep then WaitLock else source_pc s u)"
  "source_flag (notify_all s) = source_flag s" "source_lock (notify_all s) = source_lock s"
  by (simp_all add: sgoto_def notify_all_def)

lemma source_invD:
  assumes "source_inv s"
  shows "source_pc s t = WaitCheck \<or> source_pc s t = WaitBlock \<Longrightarrow> source_lock s = Some t"
    and "source_cancelling (source_pc s t) \<Longrightarrow> source_flag s"
    and "source_cancelling (source_pc s t) \<Longrightarrow> source_cancelling (source_pc s u) \<Longrightarrow> t = u"
    and "source_pc s t = WaitBlock \<Longrightarrow> source_flag s \<Longrightarrow> \<exists>u r. source_pc s u = StoreReason r"
    and "source_pc s t = Asleep \<Longrightarrow> source_flag s \<Longrightarrow> \<exists>u. source_cancelling (source_pc s u)"
  using assms unfolding source_inv_def by blast+

lemma source_inv_wait:
  assumes inv: "source_inv s" and old: "\<not> source_cancelling (source_pc s t)" and p: "\<not> source_cancelling p"
    and same: "source_pc s0 = source_pc s" "source_flag s0 = source_flag s"
    and lock: "p = WaitCheck \<or> p = WaitBlock \<Longrightarrow> source_lock s0 = Some t"
    and others: "\<And>u. u \<noteq> t \<Longrightarrow> source_lock s = Some u \<Longrightarrow> source_lock s0 = Some u"
    and check: "p = WaitBlock \<Longrightarrow> \<not> source_flag s \<or> (\<exists>u r. source_pc s u = StoreReason r)"
    and sleep: "p = Asleep \<Longrightarrow> \<not> source_flag s \<or> (\<exists>u. source_cancelling (source_pc s u))"
  shows "source_inv (sgoto t p s0)"
proof -
  note D = source_invD [OF inv]
  have keep: "source_pc (sgoto t p s0) u = source_pc s u" if "source_cancelling (source_pc s u)" for u
    using that old same by (auto simp: source_pc_upd)
  have was: "source_cancelling (source_pc (sgoto t p s0) u) \<Longrightarrow> source_cancelling (source_pc s u)" for u
    using p same by (auto simp: source_pc_upd split: if_splits)
  have stored: "\<exists>u r. source_pc (sgoto t p s0) u = StoreReason r" if "source_pc s u = StoreReason r" for u r
    using keep [of u] that by (metis source_cancelling.simps(1))
  have cancel: "\<exists>u. source_cancelling (source_pc (sgoto t p s0) u)" if "source_cancelling (source_pc s u)" for u
    using keep [OF that] that by metis
  show ?thesis
    unfolding source_inv_def
  proof (intro conjI allI impI)
    fix u v
    show "source_lock (sgoto t p s0) = Some u" if "source_pc (sgoto t p s0) u \<in> {WaitCheck, WaitBlock}"
      using that lock others D(1) [of u] by (auto simp: source_pc_upd same split: if_splits)
    show "source_flag (sgoto t p s0)" if "source_cancelling (source_pc (sgoto t p s0) u)"
      using D(2) [OF was [OF that]] same by (simp add: source_pc_upd)
    show "u = v" if "source_cancelling (source_pc (sgoto t p s0) u)" "source_cancelling (source_pc (sgoto t p s0) v)"
      using D(3) was that by blast
    show "\<not> source_flag (sgoto t p s0) \<or> (\<exists>u r. source_pc (sgoto t p s0) u = StoreReason r)"
      if "source_pc (sgoto t p s0) u = WaitBlock"
    proof -
      have "source_pc s u = WaitBlock \<or> p = WaitBlock"
        using that by (auto simp: source_pc_upd same split: if_splits)
      then have "\<not> source_flag s \<or> (\<exists>v r. source_pc s v = StoreReason r)" using check D(4) by blast
      then show ?thesis using stored same(2) by (metis source_pc_upd(2))
    qed
    show "\<not> source_flag (sgoto t p s0) \<or> (\<exists>u. source_cancelling (source_pc (sgoto t p s0) u))"
      if "source_pc (sgoto t p s0) u = Asleep"
    proof -
      have "source_pc s u = Asleep \<or> p = Asleep"
        using that by (auto simp: source_pc_upd same split: if_splits)
      then have "\<not> source_flag s \<or> (\<exists>v. source_cancelling (source_pc s v))" using sleep D(5) by blast
      then show ?thesis using cancel same(2) by (metis source_pc_upd(2))
    qed
  qed
qed

lemma source_inv_step:
  assumes step: "source_step (\<lambda>r. r \<noteq> []) s s'" and inv: "source_inv s"
  shows "source_inv s'"
proof -
  note D = source_invD [OF inv]
  show ?thesis
    using step
  proof (cases rule: source_step.cases)
    case (win t reason)
    then have "\<not> source_cancelling (source_pc s u)" for u using D(2) by blast
    with win D(1) show ?thesis
      unfolding source_inv_def by (auto simp: source_pc_upd split: if_splits)
  next
    case (store t reason)
    have free: "source_pc s u \<noteq> WaitCheck" "source_pc s u \<noteq> WaitBlock" for u using D(1) [of u] store by auto
    have "source_flag s" using D(2) [of t] store by simp
    with store D(3) [of t] free show ?thesis
      unfolding source_inv_def by (auto simp: source_pc_upd split: if_splits)
  next
    case (notify t)
    have flag: "source_flag s" using D(2) [of t] notify by simp
    have only: "source_cancelling (source_pc s u) \<Longrightarrow> u = t" for u using D(3) [of t u] notify by simp
    have "source_pc s u \<noteq> WaitBlock" for u
    proof
      assume "source_pc s u = WaitBlock"
      then obtain v r where v: "source_pc s v = StoreReason r" using D(4) flag by blast
      with only [of v] notify show False by simp
    qed
    with notify only flag D(1) show ?thesis
      unfolding source_inv_def by (auto simp: source_pc_upd split: if_splits)
  next
    case (wait_block t)
    then show ?thesis
      using D(1) [of t] D(4) [of t] by (auto intro!: source_inv_wait [OF inv]) (metis source_cancelling.simps(1))
  next
    case (wait_done t)
    then show ?thesis
      using D(1) [of t] by (auto intro!: source_inv_wait [OF inv])
  qed (use inv D(1) in \<open>auto intro!: source_inv_wait [OF inv]\<close>)
qed

lemma source_inv_spurious: "source_spurious s s' \<Longrightarrow> source_inv s \<Longrightarrow> source_inv s'"
  by (auto elim!: source_spurious.cases intro!: source_inv_wait)

lemma source_run_step: "source_run allowed s s' \<Longrightarrow> source_step allowed s' s'' \<Longrightarrow> source_run allowed s s''"
  unfolding source_run_def by (rule rtranclp.rtrancl_into_rtrancl) blast+

lemma source_inv_run: "source_run (\<lambda>r. r \<noteq> []) source_new s \<Longrightarrow> source_inv s"
  unfolding source_run_def
proof (induction rule: rtranclp_induct)
  case base
  show ?case by (simp add: source_inv_def source_new_def)
next
  case (step s s')
  then show ?case using source_inv_step source_inv_spurious by blast
qed

section \<open>Properties\<close>

text \<open>C30: no cancellation is lost. Under every interleaving of cancellations, polls, registrations
  and drops (fewer than 2^64 of them handing out an ID), once the flag is set and no canceller is still
  at work, every waker promised to a pending future or recorded by a registration has been woken.\<close>

theorem token_no_lost_wakeup:
  assumes "token_reach s" and "issued s \<le> 2 ^ 64"
    and "cancelled_flag s" and "\<forall>t. \<not> cancelling (token_pc s t)"
  shows "owed s = Map.empty"
proof
  fix n
  have "token_inv s" using assms(1,2) by (rule token_inv_reach)
  moreover have "\<not> list_open s" using assms(3,4) by (auto simp: list_open_def cancelling_cases)
  ultimately show "owed s n = None"
    using assms(4) by (cases "owed s n") (auto simp: token_inv_def owed_ok_def cancelling_cases)
qed

text \<open>A future polled while nothing is cancelled, then cancelled.\<close>

definition waited :: token where
  "waited = token_new\<lparr>next_waiter_id := 1, issued := 1, live := {0}, waiters := [(0, 7)], owed := [0 \<mapsto> 7]\<rparr>"

lemma token_eqI:
  "cancelled_flag s = cancelled_flag r \<Longrightarrow> next_waiter_id s = next_waiter_id r \<Longrightarrow> waiters s = waiters r \<Longrightarrow>
   token_lock s = token_lock r \<Longrightarrow> token_pc s = token_pc r \<Longrightarrow> issued s = issued r \<Longrightarrow> live s = live r \<Longrightarrow>
   owed s = owed r \<Longrightarrow> s = (r :: token)"
  by (rule token.equality) simp_all

lemma token_new_simps [simp]:
  "cancelled_flag token_new = False" "token_pc token_new = (\<lambda>_. TIdle)" "token_lock token_new = None"
  "waiters token_new = []" "issued token_new = 0" "live token_new = {}" "owed token_new = Map.empty"
  "next_waiter_id token_new = 0"
  by (simp_all add: token_new_def)

lemma waited_reach: "token_reach waited"
proof -
  let ?s1 = "(fetch_waiter_id token_new)\<lparr>live := insert (issued token_new) (live token_new)\<rparr>"
  let ?s2 = "goto 0 (PollLock 0 7) ?s1"
  let ?s3 = "goto 0 (PollCheck 0 7) (?s2\<lparr>token_lock := Some 0\<rparr>)"
  let ?s4 = "goto 0 (PollPush 0 7) ?s3"
  let ?s5 = "goto 0 TIdle (?s4\<lparr>waiters := set_waiter (wid 0) 7 (waiters ?s4), token_lock := None,
      owed := (owed ?s4)(0 \<mapsto> 7)\<rparr>)"
  have "token_step token_new ?s1" by (rule new_wait)
  moreover have "token_step ?s1 ?s2" by (rule poll_start) (auto simp: token_upd exclusive_def)
  moreover have "token_step ?s2 ?s3" by (rule poll_lock) (auto simp: token_upd)
  moreover have "token_step ?s3 ?s4" by (rule poll_check) (auto simp: token_upd)
  moreover have "token_step ?s4 ?s5" by (rule poll_push) (auto simp: token_upd)
  moreover have "?s5 = waited"
    by (rule token_eqI) (auto simp: token_upd waited_def wid_def fun_eq_iff)
  ultimately show ?thesis
    unfolding token_reach_def by (metis (no_types, lifting) rtranclp.rtrancl_into_rtrancl rtranclp.rtrancl_refl)
qed

theorem token_no_lost_wakeup_witness:
  "\<exists>s. token_reach s \<and> cancelled_flag s \<and> issued s = 1 \<and> live s = {0} \<and> owed s = Map.empty"
proof -
  let ?s1 = "goto 1 CancelTake (waited\<lparr>cancelled_flag := True\<rparr>)"
  let ?s2 = "goto 1 (CancelWake (map snd (waiters ?s1))) (?s1\<lparr>waiters := []\<rparr>)"
  let ?s3 = "goto 1 (CancelWake []) (wake 7 ?s2)"
  let ?s4 = "goto 1 TIdle ?s3"
  have "token_step waited ?s1" by (rule cancel_swap) (auto simp: waited_def)
  moreover have "token_step ?s1 ?s2" by (rule cancel_take) (auto simp: token_upd waited_def)
  moreover have "token_step ?s2 ?s3" by (rule cancel_wake) (auto simp: token_upd waited_def)
  moreover have "token_step ?s3 ?s4" by (rule cancel_done) (auto simp: token_upd)
  ultimately have reach: "token_reach ?s4"
    using waited_reach unfolding token_reach_def
    by (metis (no_types, lifting) rtranclp.rtrancl_into_rtrancl)
  have "owed ?s4 = Map.empty"
    using reach by (rule token_no_lost_wakeup) (auto simp: token_upd waited_def)
  with reach show ?thesis by (intro exI [of _ ?s4]) (auto simp: token_upd waited_def)
qed

text \<open>A registration can still be lost without any cancellation. Registering a waker adds no entry when
  the list already holds the same waker; the entry it relies on may belong to a future, and dropping
  that future removes it.\<close>

theorem shared_registration_lost:
  "\<exists>s s'. token_reach s \<and> at s 0 (RegisterPush 7) \<and> token_step\<^sup>*\<^sup>* s s' \<and>
     (\<forall>t. at s' t TIdle) \<and> \<not> cancelled_flag s' \<and> waiters s' = []"
proof -
  let ?s1 = "goto 0 (RegisterLock 7) waited"
  let ?s2 = "goto 0 (RegisterCheck 7) (?s1\<lparr>token_lock := Some 0\<rparr>)"
  let ?s3 = "goto 0 (RegisterPush 7) ?s2"
  let ?s4 = "goto 0 TIdle (?s3\<lparr>token_lock := None\<rparr>)"
  let ?s5 = "goto 0 (DropLock 0) (?s4\<lparr>live := live ?s4 - {0}, owed := (owed ?s4)(0 := None)\<rparr>)"
  let ?s6 = "goto 0 TIdle (?s5\<lparr>waiters := filter (\<lambda>(i, w). i \<noteq> wid 0) (waiters ?s5)\<rparr>)"
  note simps = token_upd waited_def exclusive_def wid_def
  have "token_step waited ?s1" by (rule register_start) (auto simp: simps)
  moreover have "token_step ?s1 ?s2" by (rule register_lock) (auto simp: simps)
  moreover have "token_step ?s2 ?s3" by (rule register_check) (auto simp: simps)
  ultimately have "token_reach ?s3"
    using waited_reach unfolding token_reach_def
    by (metis (no_types, lifting) rtranclp.rtrancl_into_rtrancl)
  moreover have "token_step ?s3 ?s4" by (rule register_known) (auto simp: simps)
  moreover have "token_step ?s4 ?s5" by (rule drop_start) (auto simp: simps)
  moreover have "token_step ?s5 ?s6" by (rule drop_retain) (auto simp: simps)
  ultimately have "token_reach ?s3 \<and> token_step\<^sup>*\<^sup>* ?s3 ?s6"
    by (metis (no_types, lifting) rtranclp.rtrancl_into_rtrancl rtranclp.rtrancl_refl)
  moreover have "at ?s3 0 (RegisterPush 7)" "\<forall>t. at ?s6 t TIdle" "\<not> cancelled_flag ?s6" "waiters ?s6 = []"
    by (auto simp: simps)
  ultimately show ?thesis by blast
qed

text \<open>C31: the token cannot deadlock. In every reachable state in which some thread is inside an
  operation, some thread inside an operation can take its next step.\<close>

theorem token_progress:
  assumes "token_reach s" and "issued s \<le> 2 ^ 64" and "token_pc s t \<noteq> TIdle"
  shows "\<exists>u p s'. token_pc s u \<noteq> TIdle \<and> token_step s s' \<and> token_pc s' = (token_pc s)(u := p) \<and>
    p \<noteq> token_pc s u"
proof -
  have lock: "lock_ok s" using token_inv_reach [OF assms(1,2)] by (simp add: token_inv_def)
  have moved: "\<exists>p s'. token_step s s' \<and> token_pc s' = (token_pc s)(u := p) \<and> p \<noteq> token_pc s u"
    if "token_pc s u \<noteq> TIdle" and "token_lock s = None \<or> holds_lock (token_pc s u)" for u
  proof (cases "token_pc s u")
    case (CancelWake ws)
    then show ?thesis by (cases ws) (fastforce dest: cancel_wake cancel_done simp: token_upd)+
  next
    case (PollCheck n w)
    then show ?thesis
      by (cases "cancelled_flag s") (fastforce dest: poll_check_ready poll_check simp: token_upd)+
  next
    case (RegisterCheck w)
    then show ?thesis
      by (cases "cancelled_flag s") (fastforce dest: register_check_ready register_check simp: token_upd)+
  next
    case (RegisterPush w)
    then show ?thesis
      by (cases "w \<in> snd ` set (waiters s)") (fastforce dest: register_known register_push simp: token_upd)+
  qed (use that in \<open>fastforce dest: cancel_take poll_lock poll_push register_lock drop_retain simp: token_upd\<close>)+
  show ?thesis
  proof (cases "token_lock s")
    case None
    then show ?thesis using moved assms(3) by blast
  next
    case (Some u)
    then have "holds_lock (token_pc s u)" using lock_okD [OF lock refl] by blast
    moreover from this have "token_pc s u \<noteq> TIdle" by (cases "token_pc s u") auto
    ultimately show ?thesis using moved by blast
  qed
qed

theorem token_progress_witness:
  "\<exists>u p s'. token_pc (goto 0 (PollLock 0 7) waited) u \<noteq> TIdle \<and>
     token_step (goto 0 (PollLock 0 7) waited) s' \<and>
     token_pc s' = (token_pc (goto 0 (PollLock 0 7) waited))(u := p) \<and> p \<noteq> token_pc (goto 0 (PollLock 0 7) waited) u"
proof -
  have "token_step waited (goto 0 (PollLock 0 7) waited)"
    by (rule poll_start) (auto simp: waited_def exclusive_def)
  then have "token_reach (goto 0 (PollLock 0 7) waited)"
    using waited_reach unfolding token_reach_def by (rule rtranclp.rtrancl_into_rtrancl [rotated])
  then show ?thesis by (rule token_progress [of _ 0]) (auto simp: token_upd waited_def)
qed

text \<open>A blocking wait can miss the cancellation. When the reason is empty, as it is for a plain
  cancel, the canceller sets the flag and notifies without taking the mutex, so both can happen
  between a waiter's look at the flag and its sleep. Nothing but a spurious wake-up ends that sleep.\<close>

theorem source_lost_wakeup:
  "\<exists>s. (source_step (\<lambda>_. True))\<^sup>*\<^sup>* source_new s \<and> source_flag s \<and> source_pc s 0 = Asleep \<and>
     {t. source_pc s t \<noteq> SIdle} = {0} \<and>
     {s'. (source_step (\<lambda>_. True))\<^sup>*\<^sup>* s s'} \<subseteq> {s'. source_pc s' 0 = Asleep}"
proof -
  let ?s1 = "sgoto 0 WaitLock source_new"
  let ?s2 = "sgoto 0 WaitCheck (?s1\<lparr>source_lock := Some 0\<rparr>)"
  let ?s3 = "sgoto 0 WaitBlock ?s2"
  let ?s4 = "sgoto 1 (if ([] :: string) = [] then NotifyAll else StoreReason []) (?s3\<lparr>source_flag := True\<rparr>)"
  let ?s5 = "sgoto 1 SIdle (notify_all ?s4)"
  let ?s6 = "sgoto 0 Asleep (?s5\<lparr>source_lock := None\<rparr>)"
  let ?step = "source_step (\<lambda>_. True)"
  note simps = sgoto_def notify_all_def source_new_def
  have "?step source_new ?s1" by (rule source_step.wait_start) (simp add: simps)
  moreover have "?step ?s1 ?s2" by (rule source_step.wait_lock) (simp_all add: simps)
  moreover have "?step ?s2 ?s3" by (rule source_step.wait_check) (simp_all add: simps)
  moreover have "?step ?s3 ?s4" by (rule source_step.win) (simp_all add: simps)
  moreover have "?step ?s4 ?s5" by (rule source_step.notify) (simp add: simps)
  moreover have "?step ?s5 ?s6" by (rule source_step.wait_block) (simp add: simps)
  ultimately have reach: "?step\<^sup>*\<^sup>* source_new ?s6"
    by (metis (no_types, lifting) rtranclp.rtrancl_into_rtrancl rtranclp.rtrancl_refl)
  have stays: "source_flag s \<and> source_pc s 0 = Asleep \<and> (\<forall>t. \<not> source_cancelling (source_pc s t))"
    if "?step\<^sup>*\<^sup>* ?s6 s" for s
    using that
  proof (induction rule: rtranclp_induct)
    case base
    show ?case by (simp add: simps)
  next
    case (step s s')
    have quiet: "source_pc s t \<noteq> NotifyAll" "source_pc s t \<noteq> StoreReason r" for t r
      using step(3) by (metis source_cancelling.simps)+
    have other: "source_pc s t = p \<Longrightarrow> p \<noteq> Asleep \<Longrightarrow> t \<noteq> 0" for t p using step(3) by metis
    from step(2) show ?case
      by (cases rule: source_step.cases) (use step(3) quiet in \<open>auto simp: source_pc_upd dest: other\<close>)
  qed
  show ?thesis
    using reach stays by (intro exI [of _ ?s6]) (auto simp: simps)
qed

text \<open>C32: with non-empty reasons the blocking wait is reliable. Whatever the interleaving and whatever
  the spurious wake-ups, no thread sleeps once the flag is set and every canceller has finished.\<close>

theorem source_no_lost_wakeup:
  assumes "source_run (\<lambda>r. r \<noteq> []) source_new s" and "source_flag s"
    and "\<forall>t. \<not> source_cancelling (source_pc s t)"
  shows "source_pc s t \<noteq> Asleep"
  using source_invD(5) [OF source_inv_run [OF assms(1)]] assms(2,3) by blast

theorem source_no_lost_wakeup_witness:
  "\<exists>s. source_run (\<lambda>r. r \<noteq> []) source_new s \<and> source_flag s \<and> source_pc s 0 \<noteq> Asleep"
proof -
  let ?s1 = "sgoto 1 (if ''stop'' = [] then NotifyAll else StoreReason ''stop'') (source_new\<lparr>source_flag := True\<rparr>)"
  let ?s2 = "sgoto 1 NotifyAll (?s1\<lparr>source_reason := Some ''stop''\<rparr>)"
  let ?s3 = "sgoto 1 SIdle (notify_all ?s2)"
  note simps = sgoto_def notify_all_def source_new_def
  have "source_run (\<lambda>r. r \<noteq> []) source_new source_new" by (simp add: source_run_def)
  then have "source_run (\<lambda>r. r \<noteq> []) source_new ?s1"
    by (rule source_run_step) (rule source_step.win, simp_all add: simps)
  then have "source_run (\<lambda>r. r \<noteq> []) source_new ?s2"
    by (rule source_run_step) (rule source_step.store, simp_all add: simps)
  then have run: "source_run (\<lambda>r. r \<noteq> []) source_new ?s3"
    by (rule source_run_step) (rule source_step.notify, simp add: simps)
  have "source_pc ?s3 0 \<noteq> Asleep"
    by (rule source_no_lost_wakeup [OF run]) (simp_all add: simps)
  moreover have "source_flag ?s3" by (simp add: simps)
  ultimately show ?thesis using run by blast
qed

end
