(* ===== verification/Retry.thy ===== *)
theory Retry
  imports Prelude "HOL-Library.Monad_Syntax"
begin

text \<open>
  Bounded exponential backoff of the provider adapters (\<open>tea-core/src/provider/retry.rs\<close>). A
  \<open>Duration\<close> is its number of nanoseconds, bounded as the standard library bounds it. The clock, the
  sleep of the thread, the cancellation flag and the attempted operation belong to the host: they
  are functions on its state, collected in a record. Waiting is a loop on the clock, so it is a
  partial function; that it returns is proved from the documented promise of \<open>thread::sleep\<close>.
\<close>

section \<open>The policy\<close>

type_synonym duration = nat

definition duration_max :: duration where
  "duration_max = (2 ^ 64 - 1) * 1000000000 + 999999999"

definition millis :: "nat \<Rightarrow> duration" where
  "millis n = n * 1000000"

definition checked_double :: "duration \<Rightarrow> duration option" where
  "checked_double d = (if 2 * d \<le> duration_max then Some (2 * d) else None)"

record retry_policy =
  max_retries :: nat
  initial_delay :: duration
  max_delay :: duration

definition retry_policy_new :: "nat \<Rightarrow> duration \<Rightarrow> duration \<Rightarrow> retry_policy" where
  "retry_policy_new retries initial longest = \<lparr>max_retries = retries, initial_delay = initial,
     max_delay = (if longest < initial then initial else longest)\<rparr>"

definition standard :: retry_policy where
  "standard = \<lparr>max_retries = 3, initial_delay = millis 250, max_delay = millis 8000\<rparr>"

fun backoff :: "retry_policy \<Rightarrow> nat \<Rightarrow> duration \<Rightarrow> duration" where
  "backoff p 0 delay = min delay (max_delay p)"
| "backoff p (Suc n) delay =
     (let delay = (case checked_double delay of Some d \<Rightarrow> d | None \<Rightarrow> max_delay p)
      in if max_delay p \<le> delay then max_delay p else backoff p n delay)"

definition delay_before_retry :: "retry_policy \<Rightarrow> nat \<Rightarrow> duration" where
  "delay_before_retry p retry_index = backoff p retry_index (initial_delay p)"

text \<open>Policies come from \<open>new\<close> and \<open>standard\<close> only; the fields are private.\<close>

definition retry_policy_ok :: "retry_policy \<Rightarrow> bool" where
  "retry_policy_ok p \<longleftrightarrow> initial_delay p \<le> max_delay p \<and> max_delay p \<le> duration_max"

lemma retry_policy_new_ok:
  "initial \<le> duration_max \<Longrightarrow> longest \<le> duration_max \<Longrightarrow> retry_policy_ok (retry_policy_new n initial longest)"
  by (simp add: retry_policy_ok_def retry_policy_new_def)

lemma standard_ok: "retry_policy_ok standard"
  by (simp add: retry_policy_ok_def standard_def millis_def duration_max_def)

lemma backoff_min:
  assumes "max_delay p \<le> duration_max" and "delay \<le> max_delay p"
  shows "backoff p n delay = min (delay * 2 ^ n) (max_delay p)"
  using assms(2)
proof (induction n arbitrary: delay)
  case 0
  then show ?case by simp
next
  case (Suc n)
  show ?case
  proof (cases "max_delay p \<le> 2 * delay")
    case True
    then have "max_delay p \<le> 2 * delay * 2 ^ n" by (metis le_trans mult_le_mono2 mult.right_neutral one_le_numeral one_le_power)
    then show ?thesis using True by (simp add: checked_double_def Let_def mult.assoc mult.left_commute)
  next
    case False
    then have "checked_double delay = Some (2 * delay)" using assms(1) by (simp add: checked_double_def)
    with False Suc.IH [of "2 * delay"] show ?thesis by (simp add: Let_def mult.assoc mult.left_commute)
  qed
qed

section \<open>Waiting and retrying\<close>

record 'w retry_host =
  now :: "'w \<Rightarrow> duration"
  sleep :: "duration \<Rightarrow> 'w \<Rightarrow> 'w"
  flag_set :: "'w \<Rightarrow> bool"

text \<open>\<open>thread::sleep\<close> returns no earlier than asked, and \<open>Instant\<close> never goes back.\<close>

definition sleeps :: "'w retry_host \<Rightarrow> bool" where
  "sleeps h \<longleftrightarrow> (\<forall>d w. now h w + d \<le> now h (sleep h d w))"

partial_function (option) wait_until :: "'w retry_host \<Rightarrow> duration \<Rightarrow> duration \<Rightarrow> 'w \<Rightarrow> (bool \<times> 'w) option"
  where
  "wait_until h started delay w =
     (if now h w - started < delay
      then if flag_set h w then Some (False, w)
           else wait_until h started delay (sleep h (min (millis 10) (delay - (now h w - started))) w)
      else Some (\<not> flag_set h w, w))"

definition wait_with_cancellation :: "'w retry_host \<Rightarrow> duration \<Rightarrow> 'w \<Rightarrow> (bool \<times> 'w) option" where
  "wait_with_cancellation h delay w = wait_until h (now h w) delay w"

record retryable_error =
  message :: string
  retryable :: bool

type_synonym ('w, 'a) attempt = "'w \<Rightarrow> (retryable_error + 'a) \<times> 'w"

definition cancelled_message :: string where
  "cancelled_message = ''provider request cancelled''"

text \<open>
  The loop, with the outcomes of its attempts recorded beside the result. \<open>retry_index\<close> is below
  \<open>max_retries\<close> whenever it is incremented, so it never wraps.
\<close>

function retry_loop :: "retry_policy \<Rightarrow> 'w retry_host \<Rightarrow> ('w, 'a) attempt \<Rightarrow> nat \<Rightarrow> 'w \<Rightarrow>
    ((string + 'a) \<times> (retryable_error + 'a) list \<times> 'w) option" where
  "retry_loop p h operation retry_index w =
     (if flag_set h w then Some (Inl cancelled_message, [], w)
      else case operation w of
        (Inr x, w') \<Rightarrow> Some (Inr x, [Inr x], w')
      | (Inl e, w') \<Rightarrow>
          if \<not> retryable e \<or> max_retries p \<le> retry_index then Some (Inl (message e), [Inl e], w')
          else case wait_with_cancellation h (delay_before_retry p retry_index) w' of
            None \<Rightarrow> None
          | Some (False, w'') \<Rightarrow> Some (Inl cancelled_message, [Inl e], w'')
          | Some (True, w'') \<Rightarrow>
              (case retry_loop p h operation (retry_index + 1) w'' of
                 None \<Rightarrow> None
               | Some (r, outcomes, v) \<Rightarrow> Some (r, Inl e # outcomes, v)))"
  by pat_completeness auto
termination
  by (relation "measure (\<lambda>(p, h, f, i, w). max_retries p - i)") auto

declare retry_loop.simps [simp del]

definition retry_with_backoff :: "retry_policy \<Rightarrow> 'w retry_host \<Rightarrow> ('w, 'a) attempt \<Rightarrow> 'w \<Rightarrow>
    ((string + 'a) \<times> (retryable_error + 'a) list \<times> 'w) option" where
  "retry_with_backoff p h operation w = retry_loop p h operation 0 w"

lemma nap_progress: "a + n \<le> b \<Longrightarrow> 0 < n \<Longrightarrow> a - c < d \<Longrightarrow> c + d - b < c + d - (a :: nat)"
  by (rule diff_less_mono2) linarith+

lemma wait_until_returns:
  assumes "sleeps h"
  shows "\<exists>b w'. wait_until h started delay w = Some (b, w') \<and>
    (b \<longrightarrow> delay \<le> now h w' - started \<and> \<not> flag_set h w') \<and> (\<not> b \<longrightarrow> flag_set h w')"
proof (induction "started + delay - now h w" arbitrary: w rule: less_induct)
  case less
  let ?nap = "min (millis 10) (delay - (now h w - started))"
  show ?case
  proof (cases "now h w - started < delay \<and> \<not> flag_set h w")
    case True
    then have "0 < ?nap" by (simp add: millis_def)
    moreover have "now h w + ?nap \<le> now h (sleep h ?nap w)" using assms by (auto simp: sleeps_def)
    ultimately have "started + delay - now h (sleep h ?nap w) < started + delay - now h w"
      using True nap_progress by blast
    from less [OF this] True show ?thesis by (subst wait_until.simps) simp
  next
    case False
    then have "wait_until h started delay w = Some (\<not> flag_set h w, w)" by (subst wait_until.simps) simp
    with False show ?thesis by (intro exI [of _ "\<not> flag_set h w"] exI [of _ w]) auto
  qed
qed

text \<open>What a result says about the outcomes it is made of.\<close>

fun explains :: "string + 'a \<Rightarrow> (retryable_error + 'a) list \<Rightarrow> bool" where
  "explains (Inr x) outcomes \<longleftrightarrow> outcomes \<noteq> [] \<and> last outcomes = Inr x"
| "explains (Inl m) outcomes \<longleftrightarrow> m = cancelled_message \<or>
     (outcomes \<noteq> [] \<and> (\<exists>e. last outcomes = Inl e \<and> message e = m))"

lemma retry_loop_returns:
  "sleeps h \<Longrightarrow> retry_index \<le> max_retries p \<Longrightarrow> \<exists>r outcomes v. retry_loop p h operation retry_index w = Some (r, outcomes, v) \<and>
    length outcomes + retry_index \<le> max_retries p + 1 \<and> explains r outcomes \<and>
    (\<forall>x \<in> set (butlast outcomes). \<exists>e. x = Inl e \<and> retryable e)"
proof (induction p h operation retry_index w rule: retry_loop.induct)
  case (1 p h operation retry_index w)
  let ?delay = "delay_before_retry p retry_index"
  show ?case
  proof (cases "flag_set h w")
    case True
    with "1.prems" show ?thesis by (subst retry_loop.simps) simp
  next
    case running: False
    obtain out w' where op: "operation w = (out, w')" by (cases "operation w")
    show ?thesis
    proof (cases "\<exists>e. out = Inl e \<and> retryable e \<and> retry_index < max_retries p")
      case False
      with running op "1.prems" show ?thesis by (subst retry_loop.simps) (auto split: sum.splits)
    next
      case True
      then obtain e where e: "out = Inl e" "retryable e" "retry_index < max_retries p" by blast
      obtain b w'' where wait: "wait_with_cancellation h ?delay w' = Some (b, w'')"
        unfolding wait_with_cancellation_def
        using wait_until_returns [OF "1.prems"(1), of "now h w'" ?delay w'] by blast
      show ?thesis
      proof (cases b)
        case False
        with running op e wait show ?thesis by (subst retry_loop.simps) simp
      next
        case True
        then have wait': "wait_with_cancellation h ?delay w' = Some (True, w'')" using wait by simp
        obtain r outcomes v where rest: "retry_loop p h operation (retry_index + 1) w'' = Some (r, outcomes, v)"
          "length outcomes + (retry_index + 1) \<le> max_retries p + 1" "explains r outcomes"
          "\<forall>x \<in> set (butlast outcomes). \<exists>e. x = Inl e \<and> retryable e"
          using "1.IH" [OF running op [symmetric] e(1) _ wait' refl refl "1.prems"(1)] e by auto
        have "retry_loop p h operation retry_index w = Some (r, Inl e # outcomes, v)"
          using running op e wait' rest(1) by (subst retry_loop.simps) simp
        moreover have "explains r (Inl e # outcomes)" using rest(3) by (cases r) auto
        ultimately show ?thesis using rest e by auto
      qed
    qed
  qed
qed

section \<open>Properties\<close>

text \<open>For every policy the code can construct, the delay before retry number n is the initial delay
  doubled n times, capped at the longest delay; overflow of the duration type never shows.\<close>

theorem retry_delay:
  assumes "retry_policy_ok p"
  shows "delay_before_retry p n = min (initial_delay p * 2 ^ n) (max_delay p)"
  using assms by (simp add: delay_before_retry_def retry_policy_ok_def backoff_min)

theorem retry_delay_witness:
  "map (delay_before_retry standard) [0, 1, 2, 10] = map millis [250, 500, 1000, 8000]"
  using retry_delay [OF standard_ok] by (simp add: standard_def millis_def)

text \<open>C37: on a host whose sleep lasts as long as it was asked to, retrying returns after at most the
  configured number of retries plus one attempts, every attempt but the last failed with a retryable
  error, and the result is that of the last attempt or reports the cancellation.\<close>

theorem retry_bounded:
  assumes "sleeps h"
  shows "\<exists>r outcomes v. retry_with_backoff p h operation w = Some (r, outcomes, v) \<and>
    length outcomes \<le> max_retries p + 1 \<and> explains r outcomes \<and>
    (\<forall>x \<in> set (butlast outcomes). \<exists>e. x = Inl e \<and> retryable e)"
  using retry_loop_returns [OF assms, of 0 p operation w] by (simp add: retry_with_backoff_def)

theorem retry_bounded_witness:
  "\<exists>r outcomes v. retry_with_backoff standard \<lparr>now = id, sleep = (+), flag_set = (\<lambda>_. False)\<rparr>
     (\<lambda>w. if w < millis 500 then (Inl \<lparr>message = ''busy'', retryable = True\<rparr>, w) else (Inr w, w)) 0 =
     Some (r, outcomes, v) \<and> length outcomes \<le> 4"
proof -
  have "sleeps \<lparr>now = id, sleep = (+), flag_set = (\<lambda>_. False)\<rparr>" by (simp add: sleeps_def)
  from retry_bounded [OF this, of standard] show ?thesis by (fastforce simp: standard_def)
qed

end
