(* ===== verification/Conversation.thy ===== *)
theory Conversation
  imports Core_Types
begin

text \<open>
  What the code relies on about a conversation: the relations between messages that a restored or
  compacted conversation must satisfy (\<open>validate_messages\<close> in \<open>tea-core/src/compaction.rs\<close>), the size
  estimates and the split of a conversation for automatic compaction (\<open>run/mod.rs\<close>), and the
  compaction policy. The diagnostics of a rejected conversation are values of \<open>invalid\<close>, one per
  message text; formatting them is left to the \<open>Display\<close> code.
\<close>

section \<open>Validation\<close>

datatype invalid =
  ReservedId
| RepeatedId message_id
| ReusedCall tool_call_id string string
| SecondResult tool_call_id
| OtherName tool_call_id string string
| NoCall tool_call_id
| NoResults "tool_call_id set"

record check_state =
  ck_ids :: "message_id set"
  ck_calls :: "tool_call_id \<rightharpoonup> string"
  ck_results :: "tool_call_id set"

fun check_calls :: "agent_tool_call list \<Rightarrow> (tool_call_id \<rightharpoonup> string) \<Rightarrow> invalid + (tool_call_id \<rightharpoonup> string)"
  where
  "check_calls [] m = Inr m"
| "check_calls (c # cs) m =
     (case m (tc_id c) of
        Some previous \<Rightarrow> Inl (ReusedCall (tc_id c) previous (tc_name c))
      | None \<Rightarrow> check_calls cs (m(tc_id c \<mapsto> tc_name c)))"

fun check_message :: "agent_message \<Rightarrow> check_state \<Rightarrow> invalid + check_state" where
  "check_message (UserMessage i text) st = Inr st"
| "check_message (AssistantMessage i text calls reason err) st =
     (case check_calls calls (ck_calls st) of
        Inl e \<Rightarrow> Inl e
      | Inr m \<Rightarrow> Inr (st\<lparr>ck_calls := m\<rparr>))"
| "check_message (ToolResultMessage i name r) st =
     (case ck_calls st (tool_call_id r) of
        Some call_name \<Rightarrow>
          if call_name = name
          then if tool_call_id r \<in> ck_results st then Inl (SecondResult (tool_call_id r))
               else Inr (st\<lparr>ck_results := insert (tool_call_id r) (ck_results st)\<rparr>)
          else Inl (OtherName (tool_call_id r) name call_name)
      | None \<Rightarrow> Inl (NoCall (tool_call_id r)))"

fun check_all :: "agent_message list \<Rightarrow> check_state \<Rightarrow> invalid + check_state" where
  "check_all [] st = Inr st"
| "check_all (m # ms) st =
     (if message_id m = 0 \<or> message_id m = - 1 then Inl ReservedId
      else if message_id m \<in> ck_ids st then Inl (RepeatedId (message_id m))
      else case check_message m (st\<lparr>ck_ids := insert (message_id m) (ck_ids st)\<rparr>) of
        Inl e \<Rightarrow> Inl e
      | Inr st' \<Rightarrow> check_all ms st')"

definition check_start :: check_state where
  "check_start = \<lparr>ck_ids = {}, ck_calls = Map.empty, ck_results = {}\<rparr>"

definition validate_messages :: "agent_message list \<Rightarrow> invalid + unit" where
  "validate_messages ms =
     (case check_all ms check_start of
        Inl e \<Rightarrow> Inl e
      | Inr st \<Rightarrow>
          let missing = dom (ck_calls st) - ck_results st
          in if missing \<noteq> {} then Inl (NoResults missing) else Inr ())"

subsection \<open>What it means\<close>

fun calls_of :: "agent_message \<Rightarrow> (tool_call_id \<times> string) list" where
  "calls_of (AssistantMessage i text calls reason err) = map (\<lambda>c. (tc_id c, tc_name c)) calls"
| "calls_of m = []"

fun results_of :: "agent_message \<Rightarrow> (tool_call_id \<times> string) list" where
  "results_of (ToolResultMessage i name r) = [(tool_call_id r, name)]"
| "results_of m = []"

abbreviation all_calls :: "agent_message list \<Rightarrow> (tool_call_id \<times> string) list" where
  "all_calls ms \<equiv> concat (map calls_of ms)"

abbreviation all_results :: "agent_message list \<Rightarrow> (tool_call_id \<times> string) list" where
  "all_results ms \<equiv> concat (map results_of ms)"

text \<open>Every result answers a call of an earlier message, under the name of that call.\<close>

definition answers_earlier :: "agent_message list \<Rightarrow> bool" where
  "answers_earlier ms \<longleftrightarrow>
     (\<forall>i < length ms. set (results_of (ms ! i)) \<subseteq> set (all_calls (take i ms)))"

definition conversation_ok :: "agent_message list \<Rightarrow> bool" where
  "conversation_ok ms \<longleftrightarrow>
     distinct (map message_id ms) \<and> 0 \<notin> set (map message_id ms) \<and> - 1 \<notin> set (map message_id ms) \<and>
     distinct (map fst (all_calls ms)) \<and> distinct (map fst (all_results ms)) \<and>
     answers_earlier ms \<and> fst ` set (all_calls ms) \<subseteq> fst ` set (all_results ms)"

definition prefix_formed :: "agent_message list \<Rightarrow> bool" where
  "prefix_formed ms \<longleftrightarrow>
     distinct (map message_id ms) \<and> 0 \<notin> set (map message_id ms) \<and> - 1 \<notin> set (map message_id ms) \<and>
     distinct (map fst (all_calls ms)) \<and> distinct (map fst (all_results ms)) \<and> answers_earlier ms"

lemma check_calls_ok:
  "check_calls cs m = Inr m' \<longleftrightarrow>
     distinct (map tc_id cs) \<and> set (map tc_id cs) \<inter> dom m = {} \<and>
     m' = m ++ map_of (map (\<lambda>c. (tc_id c, tc_name c)) cs)"
proof (induction cs arbitrary: m)
  case Nil
  then show ?case by auto
next
  case (Cons c cs)
  have shift: "m(tc_id c \<mapsto> tc_name c) ++ map_of (map (\<lambda>c. (tc_id c, tc_name c)) cs) =
      m ++ map_of (map (\<lambda>c. (tc_id c, tc_name c)) (c # cs))"
    if "tc_id c \<notin> set (map tc_id cs)"
    using that by (simp add: dom_map_of_pairs map_add_upd_shift del: fun_upd_apply)
  show ?case
  proof (cases "m (tc_id c)")
    case None
    have "check_calls (c # cs) m = Inr m' \<longleftrightarrow> distinct (map tc_id cs) \<and>
        set (map tc_id cs) \<inter> dom (m(tc_id c \<mapsto> tc_name c)) = {} \<and>
        m' = m(tc_id c \<mapsto> tc_name c) ++ map_of (map (\<lambda>c. (tc_id c, tc_name c)) cs)"
      using Cons [of "m(tc_id c \<mapsto> tc_name c)"] None by (simp del: fun_upd_apply)
    moreover have "set (map tc_id cs) \<inter> dom (m(tc_id c \<mapsto> tc_name c)) = {} \<longleftrightarrow>
        tc_id c \<notin> set (map tc_id cs) \<and> set (map tc_id cs) \<inter> dom m = {}"
      by auto
    moreover have "set (map tc_id (c # cs)) \<inter> dom m = {} \<longleftrightarrow> set (map tc_id cs) \<inter> dom m = {}"
      using None by auto
    ultimately show ?thesis using shift by (auto simp del: fun_upd_apply)
  next
    case (Some previous)
    then show ?thesis by (auto simp: domIff)
  qed
qed


text \<open>The state of the check is a summary of the messages seen so far.\<close>

definition summary :: "agent_message list \<Rightarrow> check_state" where
  "summary ms = \<lparr>ck_ids = set (map message_id ms), ck_calls = map_of (all_calls ms),
     ck_results = set (map fst (all_results ms))\<rparr>"

lemma answers_earlier_snoc:
  "answers_earlier (ms @ [m]) \<longleftrightarrow> answers_earlier ms \<and> set (results_of m) \<subseteq> set (all_calls ms)"
  by (simp add: answers_earlier_def nth_append less_Suc_eq all_conj_distrib imp_conjR)

lemma prefix_formed_snoc:
  "prefix_formed (ms @ [m]) \<longleftrightarrow> prefix_formed ms \<and>
     message_id m \<notin> set (map message_id ms) \<and> message_id m \<noteq> 0 \<and> message_id m \<noteq> - 1 \<and>
     distinct (map fst (calls_of m)) \<and> set (map fst (all_calls ms)) \<inter> set (map fst (calls_of m)) = {} \<and>
     distinct (map fst (results_of m)) \<and> set (map fst (all_results ms)) \<inter> set (map fst (results_of m)) = {} \<and>
     set (results_of m) \<subseteq> set (all_calls ms)"
proof -
  have ids: "distinct (map message_id (ms @ [m])) \<longleftrightarrow>
      distinct (map message_id ms) \<and> message_id m \<notin> set (map message_id ms)"
    and nz: "i \<notin> set (map message_id (ms @ [m])) \<longleftrightarrow> i \<notin> set (map message_id ms) \<and> message_id m \<noteq> i" for i
    by auto
  have pairs: "distinct (map fst (concat (map f (ms @ [m])))) \<longleftrightarrow> distinct (map fst (concat (map f ms))) \<and>
      distinct (map fst (f m)) \<and> set (map fst (concat (map f ms))) \<inter> set (map fst (f m)) = {}"
    for f :: "agent_message \<Rightarrow> (tool_call_id \<times> string) list"
    by (simp only: map_append concat_append list.map concat.simps append_Nil2 distinct_append)
  show ?thesis
    unfolding prefix_formed_def answers_earlier_snoc ids nz pairs by argo
qed

lemma check_step:
  assumes ok: "prefix_formed ms"
  shows "(if message_id m = 0 \<or> message_id m = - 1 then Inl ReservedId
      else if message_id m \<in> ck_ids (summary ms) then Inl (RepeatedId (message_id m))
      else check_message m ((summary ms)\<lparr>ck_ids := insert (message_id m) (ck_ids (summary ms))\<rparr>)) = Inr st \<longleftrightarrow>
    prefix_formed (ms @ [m]) \<and> st = summary (ms @ [m])"
proof -
  let ?st = "(summary ms)\<lparr>ck_ids := insert (message_id m) (ck_ids (summary ms))\<rparr>"
  have body: "check_message m ?st = Inr st \<longleftrightarrow>
      distinct (map fst (calls_of m)) \<and> set (map fst (all_calls ms)) \<inter> set (map fst (calls_of m)) = {} \<and>
      distinct (map fst (results_of m)) \<and> set (map fst (all_results ms)) \<inter> set (map fst (results_of m)) = {} \<and>
      set (results_of m) \<subseteq> set (all_calls ms) \<and> st = summary (ms @ [m])"
  proof (cases m)
    case (UserMessage i t)
    then show ?thesis by (auto simp: summary_def)
  next
    case (AssistantMessage i t calls reason err)
    have comm: "map_of (all_calls ms) ++ map_of (map (\<lambda>c. (tc_id c, tc_name c)) calls) =
        map_of (map (\<lambda>c. (tc_id c, tc_name c)) calls) ++ map_of (all_calls ms)"
      if "set (map fst (all_calls ms)) \<inter> set (map tc_id calls) = {}"
      using that by (intro map_add_comm) (force simp: dom_map_of_pairs dom_map_of_conv_image_fst)
    have "check_message m ?st = Inr st \<longleftrightarrow> distinct (map tc_id calls) \<and>
        set (map fst (all_calls ms)) \<inter> set (map tc_id calls) = {} \<and>
        st = ?st\<lparr>ck_calls := map_of (all_calls ms) ++ map_of (map (\<lambda>c. (tc_id c, tc_name c)) calls)\<rparr>"
      using check_calls_ok [of calls "map_of (all_calls ms)"]
      by (cases "check_calls calls (map_of (all_calls ms))")
        (auto simp: AssistantMessage summary_def dom_map_of_conv_image_fst Int_commute)
    then show ?thesis
      using comm by (auto simp: AssistantMessage summary_def comp_def)
  next
    case (ToolResultMessage i name r)
    have "map_of (all_calls ms) (tool_call_id r) = Some name \<longleftrightarrow> (tool_call_id r, name) \<in> set (all_calls ms)"
      using ok by (intro map_of_eq_Some_iff) (simp add: prefix_formed_def)
    then show ?thesis
      by (auto simp: ToolResultMessage summary_def split: option.splits)
  qed
  show ?thesis
    unfolding prefix_formed_snoc using ok body by (auto simp: summary_def)
qed


lemma prefix_formed_append: "prefix_formed (seen @ ms) \<Longrightarrow> prefix_formed seen"
  by (induction ms rule: rev_induct) (auto simp: prefix_formed_snoc simp flip: append_assoc)

lemma check_all_from:
  "prefix_formed seen \<Longrightarrow>
     check_all ms (summary seen) = Inr st \<longleftrightarrow> prefix_formed (seen @ ms) \<and> st = summary (seen @ ms)"
proof (induction ms arbitrary: seen)
  case Nil
  then show ?case by auto
next
  case (Cons m ms)
  let ?step = "if message_id m = 0 \<or> message_id m = - 1 then Inl ReservedId
      else if message_id m \<in> ck_ids (summary seen) then Inl (RepeatedId (message_id m))
      else check_message m ((summary seen)\<lparr>ck_ids := insert (message_id m) (ck_ids (summary seen))\<rparr>)"
  have run: "check_all (m # ms) (summary seen) = (case ?step of Inl e \<Rightarrow> Inl e | Inr st' \<Rightarrow> check_all ms st')"
    by simp
  show ?case
  proof (cases ?step)
    case (Inl e)
    then have "\<not> prefix_formed (seen @ [m])"
      using check_step [OF Cons.prems, of m "summary (seen @ [m])"] by simp
    then have "\<not> prefix_formed (seen @ m # ms)"
      using prefix_formed_append [of "seen @ [m]" ms] by auto
    then show ?thesis unfolding run Inl by simp
  next
    case (Inr st')
    then have next_ok: "prefix_formed (seen @ [m])" "st' = summary (seen @ [m])"
      using check_step [OF Cons.prems, of m st'] by auto
    show ?thesis unfolding run Inr using Cons.IH [OF next_ok(1)] next_ok(2) by simp
  qed
qed

lemma validate_messages_iff: "validate_messages ms = Inr () \<longleftrightarrow> conversation_ok ms"
proof -
  have start: "check_start = summary []" "prefix_formed []"
    by (simp_all add: check_start_def summary_def prefix_formed_def answers_earlier_def)
  have "conversation_ok ms \<longleftrightarrow> prefix_formed ms \<and> fst ` set (all_calls ms) \<subseteq> fst ` set (all_results ms)"
    unfolding conversation_ok_def prefix_formed_def by argo
  moreover have "dom (ck_calls (summary ms)) - ck_results (summary ms) = {} \<longleftrightarrow>
      fst ` set (all_calls ms) \<subseteq> fst ` set (all_results ms)"
    by (simp add: summary_def dom_map_of_conv_image_fst)
  ultimately show ?thesis
    unfolding validate_messages_def start(1)
    using check_all_from [OF start(2), of ms "summary ms"]
      check_all_from [OF start(2), of ms "projr (check_all ms (summary []))"]
    by (cases "check_all ms (summary [])") (simp_all add: Let_def)
qed

text \<open>For evaluation: the known calls are those of the messages.\<close>

lemma validate_messages_code [code]:
  "validate_messages ms =
     (case check_all ms check_start of
        Inl e \<Rightarrow> Inl e
      | Inr st \<Rightarrow>
          let missing = filter (\<lambda>i. i \<notin> ck_results st) (map fst (all_calls ms))
          in if missing \<noteq> [] then Inl (NoResults (set missing)) else Inr ())"
proof (cases "check_all ms check_start")
  case (Inr st)
  have start: "check_start = summary []" "prefix_formed []"
    by (simp_all add: check_start_def summary_def prefix_formed_def answers_earlier_def)
  have "st = summary ms" using check_all_from [OF start(2), of ms st] Inr by (simp add: start(1))
  then have "dom (ck_calls st) - ck_results st = set (filter (\<lambda>i. i \<notin> ck_results st) (map fst (all_calls ms)))"
    by (auto simp: summary_def dom_map_of_conv_image_fst)
  then show ?thesis unfolding validate_messages_def Inr by (simp only: sum.case Let_def set_empty)
qed (simp add: validate_messages_def)

section \<open>Size estimates\<close>

definition option_length :: "string option \<Rightarrow> nat" where
  "option_length x = (case x of None \<Rightarrow> 0 | Some s \<Rightarrow> length s)"

text \<open>
  \<open>sum()\<close> over lengths is taken over the natural numbers: the addends are sizes of data held in memory,
  so a total beyond \<open>usize\<close> cannot occur; the saturating additions are kept as written.
\<close>

fun estimate_message_bytes :: "agent_message \<Rightarrow> nat" where
  "estimate_message_bytes (UserMessage i text) = usize_add (length text) 16"
| "estimate_message_bytes (AssistantMessage i text calls reason err) =
     usize_add (usize_add (usize_add (length text) (option_length err))
       (sum_list (map (\<lambda>c. usize_add (usize_add (length (tc_id c)) (length (tc_name c))) (length (tc_arguments c))) calls))) 32"
| "estimate_message_bytes (ToolResultMessage i name r) =
     usize_add (usize_add (usize_add (usize_add (usize_add (length (tool_call_id r)) (length name))
       (length (content r))) (option_length (details r)))
       (option_length (Option.bind (failure r) recovery_guidance))) 32"

definition estimate_message_tokens :: "agent_message \<Rightarrow> nat" where
  "estimate_message_tokens m = usize_add (estimate_message_bytes m) 3 div 4"

definition estimate_messages_tokens :: "agent_message list \<Rightarrow> nat" where
  "estimate_messages_tokens ms = sum_list (map estimate_message_tokens ms)"

definition estimate_messages_bytes :: "agent_message list \<Rightarrow> nat" where
  "estimate_messages_bytes ms = sum_list (map estimate_message_bytes ms)"

fun tool_result_bytes :: "agent_message \<Rightarrow> nat option" where
  "tool_result_bytes (ToolResultMessage i name r) = Some (usize_add (length (content r)) (option_length (details r)))"
| "tool_result_bytes m = None"

definition estimate_tool_result_bytes :: "agent_message list \<Rightarrow> nat" where
  "estimate_tool_result_bytes ms = sum_list (List.map_filter tool_result_bytes ms)"

text \<open>No message is estimated at nothing, so a positive request retains something.\<close>

lemma estimate_positive: "0 < estimate_message_tokens m"
proof -
  have "16 \<le> usize_add a b" if "16 \<le> b" for a b using that by (simp add: usize_add_def usize_max_def)
  then have "16 \<le> estimate_message_bytes m" by (cases m) simp_all
  then have "16 \<le> usize_add (estimate_message_bytes m) 3"
    by (simp add: usize_add_def usize_max_def)
  then show ?thesis by (simp add: estimate_message_tokens_def)
qed

section \<open>The split for automatic compaction\<close>

fun retained_start :: "agent_message list \<Rightarrow> nat \<Rightarrow> nat \<Rightarrow> nat \<Rightarrow> nat" where
  "retained_start ms recent_tokens 0 retained = 0"
| "retained_start ms recent_tokens (Suc start) retained =
     (if retained < recent_tokens
      then retained_start ms recent_tokens start (usize_add retained (estimate_message_tokens (ms ! start)))
      else Suc start)"

fun skip_results :: "agent_message list \<Rightarrow> nat \<Rightarrow> nat" where
  "skip_results ms 0 = 0"
| "skip_results ms (Suc start) =
     (if is_tool_result (ms ! Suc start) then skip_results ms start else Suc start)"

fun find_user_before :: "agent_message list \<Rightarrow> nat \<Rightarrow> nat option" where
  "find_user_before ms 0 = None"
| "find_user_before ms (Suc i) = (if is_user (ms ! i) then Some i else find_user_before ms i)"

definition automatic_compaction_split ::
  "agent_message list \<Rightarrow> nat \<Rightarrow> agent_message list \<times> agent_message list \<times> agent_message list" where
  "automatic_compaction_split ms recent_tokens =
     (if ms = [] \<or> recent_tokens = 0 then (ms, [], [])
      else let start = skip_results ms (retained_start ms recent_tokens (length ms) 0)
           in case (if is_assistant (ms ! start) then find_user_before ms start else None) of
                Some turn_start \<Rightarrow> (take turn_start ms, drop start ms, take (start - turn_start) (drop turn_start ms))
              | None \<Rightarrow> (take start ms, drop start ms, []))"


lemma usize_add_le: "usize_add a b \<le> a + b"
  by (simp add: usize_add_def)

lemma retained_start_bounds:
  "start \<le> length ms \<Longrightarrow> retained_start ms n start r \<le> start"
  by (induction ms n start r rule: retained_start.induct) (auto simp: le_SucI)

text \<open>The suffix chosen by size holds at least the requested tokens, or everything.\<close>

lemma retained_start_tokens:
  "start \<le> length ms \<Longrightarrow> n \<le> usize_max \<Longrightarrow> retained_start ms n start r = 0 \<or>
     n \<le> r + estimate_messages_tokens (drop (retained_start ms n start r) (take start ms))"
proof (induction ms n start r rule: retained_start.induct)
  case (1 ms n r)
  then show ?case by simp
next
  case (2 ms n start r)
  show ?case
  proof (cases "r < n")
    case False
    then show ?thesis by simp
  next
    case True
    let ?t = "estimate_message_tokens (ms ! start)"
    let ?r = "usize_add r ?t"
    let ?k = "retained_start ms n start ?r"
    have k: "?k \<le> start" using retained_start_bounds 2(2) by simp
    have "take (Suc start) ms = take start ms @ [ms ! start]"
      using 2(2) by (simp add: take_Suc_conv_app_nth)
    then have total: "estimate_messages_tokens (drop ?k (take (Suc start) ms)) =
        estimate_messages_tokens (drop ?k (take start ms)) + ?t"
      using k 2(2) by (simp add: estimate_messages_tokens_def)
    consider "?k = 0" | "n \<le> ?r + estimate_messages_tokens (drop ?k (take start ms))"
      using 2 True by auto
    then show ?thesis
    proof cases
      case 1
      then show ?thesis using True by simp
    next
      case 2
      then have "n \<le> r + estimate_messages_tokens (drop ?k (take (Suc start) ms))"
        unfolding total using usize_add_le [of r ?t] by linarith
      then show ?thesis using True by simp
    qed
  qed
qed

lemma skip_results_bounds: "skip_results ms start \<le> start"
  by (induction ms start rule: skip_results.induct) (auto simp: le_SucI)

lemma skip_results_stop: "skip_results ms start = 0 \<or> \<not> is_tool_result (ms ! skip_results ms start)"
  by (induction ms start rule: skip_results.induct) auto

lemma find_user_before_Some:
  "find_user_before ms start = Some i \<Longrightarrow>
     i < start \<and> is_user (ms ! i) \<and> (\<forall>j. i < j \<longrightarrow> j < start \<longrightarrow> \<not> is_user (ms ! j))"
  by (induction ms start rule: find_user_before.induct) (auto split: if_splits simp: less_Suc_eq)

text \<open>The index at which the retained suffix starts.\<close>

definition split_start :: "agent_message list \<Rightarrow> nat \<Rightarrow> nat" where
  "split_start ms n = (if ms = [] \<or> n = 0 then length ms
     else skip_results ms (retained_start ms n (length ms) 0))"

lemma split_start_less: "ms \<noteq> [] \<Longrightarrow> 0 < n \<Longrightarrow> split_start ms n < length ms"
proof -
  assume "ms \<noteq> []" and "0 < n"
  then obtain k where k: "length ms = Suc k" by (cases ms) auto
  have "retained_start ms n (length ms) 0 \<le> k"
    using \<open>0 < n\<close> retained_start_bounds [of k ms n] by (simp add: k)
  then show ?thesis
    using skip_results_bounds [of ms "retained_start ms n (length ms) 0"] \<open>ms \<noteq> []\<close> \<open>0 < n\<close> k
    by (simp add: split_start_def)
qed

lemma split_cases:
  obtains (whole) "automatic_compaction_split ms n = (take (split_start ms n) ms, drop (split_start ms n) ms, [])"
  | (turn) t where "automatic_compaction_split ms n =
      (take t ms, drop (split_start ms n) ms, take (split_start ms n - t) (drop t ms))"
      "t < split_start ms n" "is_user (ms ! t)" "is_assistant (ms ! split_start ms n)"
      "\<forall>j. t < j \<longrightarrow> j < split_start ms n \<longrightarrow> \<not> is_user (ms ! j)" "ms \<noteq> []" "0 < n"
proof (cases "ms = [] \<or> n = 0")
  case True
  then show ?thesis using whole by (auto simp: automatic_compaction_split_def split_start_def)
next
  case False
  let ?s = "split_start ms n"
  have s: "skip_results ms (retained_start ms n (length ms) 0) = ?s" using False by (simp add: split_start_def)
  show ?thesis
  proof (cases "if is_assistant (ms ! ?s) then find_user_before ms ?s else None")
    case None
    then show ?thesis using False whole s by (simp add: automatic_compaction_split_def Let_def)
  next
    case (Some t)
    then have "find_user_before ms ?s = Some t" "is_assistant (ms ! ?s)" by (auto split: if_splits)
    with find_user_before_Some [OF this(1)] False s show ?thesis
      by (intro turn [of t]) (auto simp: automatic_compaction_split_def Let_def)
  qed
qed


subsection \<open>Calls stay with their results\<close>

text \<open>Every result follows the message with its call, with only other results in between: the shape
  in which the run loop records a tool batch.\<close>

definition grouped :: "agent_message list \<Rightarrow> bool" where
  "grouped ms \<longleftrightarrow> (\<forall>i < length ms. \<forall>r \<in> set (results_of (ms ! i)).
     \<exists>j < i. r \<in> set (calls_of (ms ! j)) \<and> (\<forall>k. j < k \<longrightarrow> k < i \<longrightarrow> is_tool_result (ms ! k)))"

lemma in_concat_nth: "x \<in> set (concat (map f ms)) \<longleftrightarrow> (\<exists>i < length ms. x \<in> set (f (ms ! i)))"
proof -
  have "x \<in> set (concat (map f ms)) \<longleftrightarrow> (\<exists>m \<in> set ms. x \<in> set (f m))" by auto
  also have "\<dots> \<longleftrightarrow> (\<exists>i < length ms. x \<in> set (f (ms ! i)))" by (metis in_set_conv_nth)
  finally show ?thesis .
qed

lemma in_fst_concat:
  assumes "c \<in> fst ` set (concat (map f ms))"
  obtains j n where "j < length ms" and "(c, n) \<in> set (f (ms ! j))"
proof -
  from assms obtain n where "(c, n) \<in> set (concat (map f ms))" by (auto simp del: set_concat)
  then show ?thesis using that unfolding in_concat_nth by blast
qed

lemma distinct_concat_nth:
  assumes "distinct (map fst (concat (map f ms)))" and "(c, a) \<in> set (f (ms ! i))" and "(c, b) \<in> set (f (ms ! j))"
    and "i < length ms" and "j < length ms"
  shows "i = j"
  using assms
proof (induction ms arbitrary: i j)
  case Nil
  then show ?case by simp
next
  case (Cons m ms)
  have apart: "False" if "(c, x) \<in> set (f m)" "(c, y) \<in> set (f (ms ! k))" "k < length ms" for x y k
  proof -
    have "c \<in> fst ` set (f m)" using that(1) by force
    moreover have "c \<in> fst ` set (concat (map f ms))"
      using that(2,3) in_concat_nth [of "(c, y)" f ms] by (metis fst_conv image_eqI)
    ultimately show False using Cons.prems(1) by auto
  qed
  show ?case
  proof (cases i; cases j)
    fix i' j' assume ij: "i = Suc i'" "j = Suc j'"
    have "distinct (map fst (concat (map f ms)))" using Cons.prems(1) by simp
    from Cons.IH [OF this, of i' j'] Cons.prems ij show ?thesis by simp
  qed (use Cons.prems apart in auto)
qed

lemma results_is_result: "r \<in> set (results_of m) \<Longrightarrow> is_tool_result m"
  by (cases m) auto

lemma concat_append_parts:
  "concat (map f ms) = concat (map f (take k ms)) @ concat (map f (drop k ms))"
  by (metis append_take_drop_id concat_append map_append)

lemma grouped_same_side:
  assumes "grouped ms" and "i < length ms" and "r \<in> set (results_of (ms ! i))"
    and boundary: "start = 0 \<or> length ms \<le> start \<or> \<not> is_tool_result (ms ! start)"
  obtains j where "j < i" and "r \<in> set (calls_of (ms ! j))" and "j < start \<longleftrightarrow> i < start"
proof -
  obtain j where j: "j < i" "r \<in> set (calls_of (ms ! j))" "\<forall>k. j < k \<longrightarrow> k < i \<longrightarrow> is_tool_result (ms ! k)"
    using assms(1-3) unfolding grouped_def by blast
  have "\<not> (j < start \<and> start \<le> i)"
  proof
    assume between: "j < start \<and> start \<le> i"
    then have "is_tool_result (ms ! start)"
      using j(3) results_is_result [OF assms(3)] by (cases "start = i") auto
    with boundary between assms(2) show False by auto
  qed
  with j that show ?thesis by (metis less_trans not_le)
qed

lemma conversation_ok_parts:
  assumes ok: "conversation_ok ms" and grouped: "grouped ms"
    and boundary: "start = 0 \<or> length ms \<le> start \<or> \<not> is_tool_result (ms ! start)"
  shows "conversation_ok (take start ms)" and "conversation_ok (drop start ms)"
proof -
  note ok' = ok [unfolded conversation_ok_def]
  have split: "concat (map f ms) = concat (map f (take start ms)) @ concat (map f (drop start ms))"
    for f :: "agent_message \<Rightarrow> (tool_call_id \<times> string) list" by (rule concat_append_parts)
  have ids: "map message_id ms = map message_id (take start ms) @ map message_id (drop start ms)"
    by (metis append_take_drop_id map_append)
  have answered: "\<exists>i < length ms. \<exists>j < i. \<exists>r \<in> set (results_of (ms ! i)). fst r = c \<and> j = j' \<and> (j < start \<longleftrightarrow> i < start)"
    if j': "j' < length ms" "(c, n) \<in> set (calls_of (ms ! j'))" for c n j'
  proof -
    have "(c, n) \<in> set (all_calls ms)" unfolding in_concat_nth using j' by blast
    then have "c \<in> fst ` set (all_results ms)" using ok' by force
    then obtain r where "r \<in> set (all_results ms)" "fst r = c" by blast
    then obtain i where r: "i < length ms" "r \<in> set (results_of (ms ! i))" "fst r = c"
      unfolding in_concat_nth by blast
    obtain j where j: "j < i" "r \<in> set (calls_of (ms ! j))" "j < start \<longleftrightarrow> i < start"
      by (rule grouped_same_side [OF grouped r(1,2) boundary])
    have rc: "r = (c, snd r)" using r(3) by (metis surjective_pairing)
    have "j = j'"
      using ok' j(1,2) r(1) j' rc by (intro distinct_concat_nth [of calls_of ms c "snd r" j n j']) auto
    with j r show ?thesis by blast
  qed
  have own: "\<exists>j < i. r \<in> set (calls_of (ms ! j)) \<and> (j < start \<longleftrightarrow> i < start)"
    if "i < length ms" "r \<in> set (results_of (ms ! i))" for i r
    using grouped_same_side [OF grouped that boundary] by metis
  show "conversation_ok (take start ms)"
    unfolding conversation_ok_def
  proof (intro conjI)
    show "distinct (map message_id (take start ms))" "0 \<notin> set (map message_id (take start ms))"
      "- 1 \<notin> set (map message_id (take start ms))"
      using ok' unfolding ids by auto
    show "distinct (map fst (all_calls (take start ms)))" "distinct (map fst (all_results (take start ms)))"
      using ok' unfolding split [of calls_of] split [of results_of] by auto
    show "answers_earlier (take start ms)"
      using ok' unfolding answers_earlier_def by (auto simp: min_def)
    show "fst ` set (all_calls (take start ms)) \<subseteq> fst ` set (all_results (take start ms))"
    proof
      fix c assume "c \<in> fst ` set (all_calls (take start ms))"
      then obtain n j where j: "j < length (take start ms)" "(c, n) \<in> set (calls_of (take start ms ! j))"
        by (rule in_fst_concat)
      then obtain i r where "i < length ms" "r \<in> set (results_of (ms ! i))" "fst r = c" "i < start"
        using answered [of j c n] by auto
      then have "r \<in> set (all_results (take start ms))" "fst r = c"
        unfolding in_concat_nth by (auto intro!: exI [of _ i])
      then show "c \<in> fst ` set (all_results (take start ms))" by blast
    qed
  qed
  show "conversation_ok (drop start ms)"
    unfolding conversation_ok_def
  proof (intro conjI)
    show "distinct (map message_id (drop start ms))" "0 \<notin> set (map message_id (drop start ms))"
      "- 1 \<notin> set (map message_id (drop start ms))"
      using ok' unfolding ids by auto
    show "distinct (map fst (all_calls (drop start ms)))" "distinct (map fst (all_results (drop start ms)))"
      using ok' unfolding split [of calls_of] split [of results_of] by auto
    show "answers_earlier (drop start ms)"
      unfolding answers_earlier_def
    proof (intro allI impI subsetI)
      fix i r assume i: "i < length (drop start ms)" and r: "r \<in> set (results_of (drop start ms ! i))"
      then have "start + i < length ms" by simp
      then obtain j where j: "j < start + i" "r \<in> set (calls_of (ms ! j))" "start \<le> j"
        using own [of "start + i" r] r by (auto simp: not_less)
      then show "r \<in> set (all_calls (take i (drop start ms)))"
        unfolding in_concat_nth using i by (intro exI [of _ "j - start"]) auto
    qed
    show "fst ` set (all_calls (drop start ms)) \<subseteq> fst ` set (all_results (drop start ms))"
    proof
      fix c assume "c \<in> fst ` set (all_calls (drop start ms))"
      then obtain n j where j: "j < length (drop start ms)" "(c, n) \<in> set (calls_of (drop start ms ! j))"
        by (rule in_fst_concat)
      then have "start + j < length ms" "(c, n) \<in> set (calls_of (ms ! (start + j)))" by simp_all
      from answered [OF this]
      obtain i r where i: "i < length ms" "r \<in> set (results_of (ms ! i))" "fst r = c" "start \<le> i"
        by (auto simp: not_less)
      then have "r \<in> set (all_results (drop start ms))"
        unfolding in_concat_nth by (intro exI [of _ "i - start"]) auto
      with i(3) show "c \<in> fst ` set (all_results (drop start ms))" by blast
    qed
  qed
qed


lemma split_parts:
  assumes "automatic_compaction_split ms n = (prefix, retained, turn)"
  shows "prefix @ turn = take (split_start ms n) ms" and "retained = drop (split_start ms n) ms"
proof -
  have "prefix @ turn = take (split_start ms n) ms \<and> retained = drop (split_start ms n) ms"
  proof (cases rule: split_cases [of ms n])
    case whole
    then show ?thesis using assms by simp
  next
    case (turn t)
    then have "take t ms @ take (split_start ms n - t) (drop t ms) = take (split_start ms n) ms"
      by (metis le_add_diff_inverse less_imp_le take_add)
    then show ?thesis using turn assms by simp
  qed
  then show "prefix @ turn = take (split_start ms n) ms" "retained = drop (split_start ms n) ms" by auto
qed

lemma split_start_boundary:
  "split_start ms n = 0 \<or> length ms \<le> split_start ms n \<or> \<not> is_tool_result (ms ! split_start ms n)"
  using skip_results_stop [of ms "retained_start ms n (length ms) 0"] by (auto simp: split_start_def)

section \<open>The compaction policy\<close>

datatype context_budget_source = ContextWindow u64 | ContextBudget u64

fun budget_tokens :: "context_budget_source \<Rightarrow> u64" where
  "budget_tokens (ContextWindow t) = t"
| "budget_tokens (ContextBudget t) = t"

datatype overflow_recovery = RecoveryDisabled | CompactAndRetry

record compaction_policy =
  enabled :: bool
  context_budget :: context_budget_source
  reserved_tokens :: u64
  recent_tokens :: u64
  overflow_recovery :: overflow_recovery
  max_compactions :: u32
  max_overflow_retries :: u32

definition policy_disabled :: compaction_policy where
  "policy_disabled = \<lparr>enabled = False, context_budget = ContextBudget 1, reserved_tokens = 0,
     recent_tokens = 0, overflow_recovery = RecoveryDisabled, max_compactions = 0, max_overflow_retries = 0\<rparr>"

definition policy_validate :: "compaction_policy \<Rightarrow> string + unit" where
  "policy_validate p =
     (if \<not> enabled p then Inr ()
      else if budget_tokens (context_budget p) \<le> reserved_tokens p
      then Inl ''automatic compaction reserve must be smaller than the context budget''
      else if max_compactions p = 0
      then Inl ''enabled automatic compaction requires a non-zero per-run compaction limit''
      else if overflow_recovery p = CompactAndRetry \<and> max_overflow_retries p = 0
      then Inl ''overflow retry recovery requires a non-zero retry limit''
      else Inr ())"

definition threshold_tokens :: "compaction_policy \<Rightarrow> u64" where
  "threshold_tokens p = sat_sub (budget_tokens (context_budget p)) (reserved_tokens p)"

lemma threshold_positive:
  "enabled p \<Longrightarrow> policy_validate p = Inr () \<Longrightarrow> 0 < threshold_tokens p"
  by (auto simp: policy_validate_def threshold_tokens_def word_less_nat_alt unat_sat_sub word_le_nat_alt
      split: if_splits)

lemma answered_calls: "answers_earlier ms \<Longrightarrow> fst ` set (all_results ms) \<subseteq> fst ` set (all_calls ms)"
proof
  fix c assume early: "answers_earlier ms" and c: "c \<in> fst ` set (all_results ms)"
  obtain i n where i: "i < length ms" "(c, n) \<in> set (results_of (ms ! i))" using c by (rule in_fst_concat)
  then have "(c, n) \<in> set (all_calls (take i ms))" using early unfolding answers_earlier_def by blast
  then have "(c, n) \<in> set (all_calls ms)" by (auto dest: in_set_takeD)
  then show "c \<in> fst ` set (all_calls ms)" by force
qed

section \<open>Properties\<close>

text \<open>C5: a conversation is accepted exactly when its message IDs are distinct and not reserved, its
  call IDs are distinct, every result answers an earlier call under the same tool name, and every
  call has exactly one result.\<close>

theorem validate_messages_complete:
  "validate_messages ms = Inr () \<longleftrightarrow>
     distinct (map message_id ms) \<and> 0 \<notin> set (map message_id ms) \<and> - 1 \<notin> set (map message_id ms) \<and>
     distinct (map fst (all_calls ms)) \<and> distinct (map fst (all_results ms)) \<and>
     (\<forall>i < length ms. set (results_of (ms ! i)) \<subseteq> set (all_calls (take i ms))) \<and>
     fst ` set (all_calls ms) = fst ` set (all_results ms)"
  using answered_calls [of ms]
  unfolding validate_messages_iff conversation_ok_def answers_earlier_def by blast

text \<open>A restored conversation: a prompt, an assistant message with one call, its result.\<close>

definition sample_turn :: "agent_message list" where
  "sample_turn = [UserMessage 1 ''go'',
     AssistantMessage 2 [] [\<lparr>tc_id = ''c'', tc_name = ''ls'', tc_arguments = ''{}''\<rparr>] (Some ToolUse) None,
     ToolResultMessage 3 ''ls'' \<lparr>tool_call_id = ''c'', content = ''a'', details = None, result_usage = None,
       added_tool_names = [], terminate = False, is_error = False, failure = None\<rparr>]"

theorem validate_messages_complete_witness:
  "validate_messages sample_turn = Inr () \<and> validate_messages (take 2 sample_turn) \<noteq> Inr ()"
  unfolding validate_messages_complete by (simp add: sample_turn_def All_less_Suc)

text \<open>C33: the split for automatic compaction loses nothing and separates no call from its result: the
  summarised part and the retained suffix put together are the conversation, and both are valid
  conversations, when the conversation is valid and every result is grouped with its call.\<close>

theorem split_keeps_calls_with_results:
  assumes "automatic_compaction_split ms n = (prefix, retained, turn)"
    and "validate_messages ms = Inr ()" and "grouped ms"
  shows "prefix @ turn @ retained = ms \<and> validate_messages (prefix @ turn) = Inr () \<and>
    validate_messages retained = Inr ()"
proof -
  note parts = split_parts [OF assms(1)]
  have "prefix @ turn @ retained = ms" using parts by (metis append_assoc append_take_drop_id)
  moreover have "conversation_ok (prefix @ turn)" "conversation_ok retained"
    using conversation_ok_parts [OF _ assms(3) split_start_boundary] assms(2) parts validate_messages_iff by auto
  ultimately show ?thesis using validate_messages_iff by blast
qed

lemma sample_turn_valid: "validate_messages sample_turn = Inr ()" and sample_turn_grouped: "grouped sample_turn"
proof -
  show "validate_messages sample_turn = Inr ()"
    unfolding validate_messages_iff conversation_ok_def answers_earlier_def
    by (simp add: sample_turn_def All_less_Suc)
  show "grouped sample_turn"
    unfolding grouped_def by (auto simp: sample_turn_def All_less_Suc intro!: exI [of _ 1])
qed

theorem split_keeps_calls_with_results_witness:
  "\<exists>prefix retained turn. automatic_compaction_split sample_turn 1 = (prefix, retained, turn) \<and>
     prefix @ turn @ retained = sample_turn \<and> validate_messages retained = Inr ()"
proof -
  obtain prefix retained turn where split: "automatic_compaction_split sample_turn 1 = (prefix, retained, turn)"
    by (cases "automatic_compaction_split sample_turn 1")
  from split_keeps_calls_with_results [OF split sample_turn_valid sample_turn_grouped] split
  show ?thesis by blast
qed

lemma estimate_drop_mono: "j \<le> k \<Longrightarrow> estimate_messages_tokens (drop k ms) \<le> estimate_messages_tokens (drop j ms)"
proof -
  assume "j \<le> k"
  then have "drop j ms = take (k - j) (drop j ms) @ drop k ms"
    by (metis append_take_drop_id drop_drop le_add_diff_inverse2)
  then have "estimate_messages_tokens (drop j ms) =
      estimate_messages_tokens (take (k - j) (drop j ms)) + estimate_messages_tokens (drop k ms)"
    by (metis estimate_messages_tokens_def map_append sum_list_append)
  then show ?thesis by simp
qed

text \<open>The retained suffix is never empty and never starts with a tool result unless it is the whole
  conversation; it holds at least the requested number of estimated tokens, or everything. A split
  turn starts at its user message and runs up to the assistant message the suffix starts with.\<close>

theorem split_shape:
  assumes "automatic_compaction_split ms n = (prefix, retained, turn)"
    and "ms \<noteq> []" and "0 < n" and "n \<le> usize_max"
  shows "retained \<noteq> [] \<and> (retained = ms \<or> \<not> is_tool_result (hd retained)) \<and>
    (retained = ms \<or> n \<le> estimate_messages_tokens retained) \<and>
    (turn \<noteq> [] \<longrightarrow> is_user (hd turn) \<and> (\<forall>m \<in> set (tl turn). \<not> is_user m) \<and> is_assistant (hd retained))"
proof -
  let ?s = "split_start ms n" and ?k = "retained_start ms n (length ms) 0"
  have less: "?s < length ms" by (rule split_start_less [OF assms(2,3)])
  have retained: "retained = drop ?s ms" by (rule split_parts [OF assms(1)])
  have hd: "hd retained = ms ! ?s" using less by (simp add: retained hd_drop_conv_nth)
  have tokens: "?s = 0 \<or> n \<le> estimate_messages_tokens retained"
  proof -
    have le: "?s \<le> ?k" using assms(2,3) skip_results_bounds by (simp add: split_start_def)
    have "?k = 0 \<or> n \<le> estimate_messages_tokens (drop ?k ms)"
      using retained_start_tokens [of "length ms" ms n 0] assms(4) by simp
    then show ?thesis using le estimate_drop_mono [OF le, of ms] by (auto simp: retained)
  qed
  have turn: "is_user (hd turn) \<and> (\<forall>m \<in> set (tl turn). \<not> is_user m) \<and> is_assistant (hd retained)"
    if "turn \<noteq> []"
  proof (cases rule: split_cases [of ms n])
    case whole
    then show ?thesis using assms(1) that by simp
  next
    case (turn t)
    then have t: "turn = take (?s - t) (drop t ms)" using assms(1) by simp
    have "hd turn = ms ! t" using turn(2) less by (simp add: t hd_drop_conv_nth)
    moreover have "\<not> is_user m" if "m \<in> set (tl turn)" for m
    proof -
      have "tl turn = take (?s - Suc t) (drop (Suc t) ms)"
        using turn(2) by (simp add: t tl_take tl_drop drop_Suc)
      with that obtain i where "i < ?s - Suc t" "m = ms ! (Suc t + i)" using less
        by (auto simp: in_set_conv_nth)
      with turn(5) show ?thesis by auto
    qed
    ultimately show ?thesis using turn(3,4) hd by simp
  qed
  show ?thesis
    using less split_start_boundary [of ms n] tokens turn hd by (auto simp: retained)
qed

theorem split_shape_witness:
  "\<exists>prefix retained turn. automatic_compaction_split sample_turn 1 = (prefix, retained, turn) \<and>
     retained \<noteq> [] \<and> (retained = sample_turn \<or> \<not> is_tool_result (hd retained))"
proof -
  obtain prefix retained turn where split: "automatic_compaction_split sample_turn 1 = (prefix, retained, turn)"
    by (cases "automatic_compaction_split sample_turn 1")
  from split_shape [OF split] split show ?thesis by (simp add: sample_turn_def usize_max_def)
qed

text \<open>Validation does not ask for grouping, and without it the split does orphan results. A restored
  conversation with a user message between a call and its result is valid, yet its retained suffix
  starts between the two, and no replacement that ends with that suffix and leaves the call out
  is ever accepted.\<close>

theorem split_orphans_results:
  "let ms = [AssistantMessage 1 [] [\<lparr>tc_id = ''c'', tc_name = ''ls'', tc_arguments = ''{}''\<rparr>] (Some ToolUse) None,
      UserMessage 2 ''wait'',
      ToolResultMessage 3 ''ls'' \<lparr>tool_call_id = ''c'', content = ''a'', details = None, result_usage = None,
        added_tool_names = [], terminate = False, is_error = False, failure = None\<rparr>];
     (prefix, retained, turn) = automatic_compaction_split ms 1
   in validate_messages ms = Inr () \<and> retained = drop 1 ms \<and> validate_messages retained \<noteq> Inr () \<and>
     {summary. validate_messages (summary @ retained) = Inr ()} \<subseteq> {summary. ''c'' \<in> fst ` set (all_calls summary)}"
proof -
  let ?r = "\<lparr>tool_call_id = ''c'', content = ''a'', details = None, result_usage = None,
        added_tool_names = [], terminate = False, is_error = False, failure = None\<rparr>"
  let ?a = "AssistantMessage 1 [] [\<lparr>tc_id = ''c'', tc_name = ''ls'', tc_arguments = ''{}''\<rparr>] (Some ToolUse) None"
  let ?ms = "[?a, UserMessage 2 ''wait'', ToolResultMessage 3 ''ls'' ?r]"
  have split: "automatic_compaction_split ?ms 1 = ([?a], drop 1 ?ms, [])"
  proof -
    have "retained_start ?ms 1 (length ?ms) 0 = Suc (Suc 0)"
      using estimate_positive [of "ToolResultMessage 3 ''ls'' ?r"]
      by (simp add: usize_add_def usize_max_def)
    then show ?thesis by (simp add: automatic_compaction_split_def)
  qed
  have "validate_messages ?ms = Inr ()"
    unfolding validate_messages_iff conversation_ok_def answers_earlier_def by (simp add: All_less_Suc)
  moreover have "validate_messages (summary @ drop 1 ?ms) \<noteq> Inr ()"
    if "''c'' \<notin> fst ` set (all_calls summary)" for summary
    unfolding validate_messages_iff conversation_ok_def
    using that answered_calls [of "summary @ drop 1 ?ms"] by auto
  moreover from this [of "[]"] have "validate_messages (drop 1 ?ms) \<noteq> Inr ()" by simp
  ultimately show ?thesis unfolding Let_def split by auto
qed

end
