(* ===== verification/Lifecycle.thy ===== *)
theory Lifecycle
  imports Conversation Queues Accounting Projection Scheduler
begin

text \<open>
  The state that an agent and its runs share: typed errors (\<open>error.rs\<close>), lifecycle events (\<open>event.rs\<close>),
  the state of an agent and of a run (\<open>state/lifecycle.rs\<close>), and the world the operations work on:
  the fields of \<open>AgentInner\<close> (\<open>agent/mod.rs\<close>) with a store of runs, since an \<open>Arc\<close> to a run's state and
  cancellation token is shared between its handle and the agent. Host code (tools, hooks, observers,
  providers, compactors) is known by a capability number, like the \<open>Arc\<close> pointer the code holds.
\<close>

section \<open>Errors and events\<close>

datatype compaction_reason = Threshold | Overflow

datatype compaction_error = CompactorFailed string | InvalidReplacement invalid

datatype core_error =
  ActiveRun run_id
| InvalidTransition string string string
| RunFinished run_id
| CancelledError
| MissingModelProvider
| ModelProviderError string
| ModelError string
| ModelAborted string
| HookFailed string string
| UnsupportedModelStream string
| CompactionError compaction_error
| MissingCompactor
| AutomaticCompactionUnavailable compaction_reason
| AutomaticCompactionError compaction_reason string
| InvalidCompactionPolicy string
| InvalidProjectionPolicy string
| ToolCircuitBreakerError string

datatype compaction_outcome =
  CompactionSucceeded nat
| CompactionFailed string
| CompactionCancelled

datatype automatic_outcome =
  AutoSucceeded nat
| AutoFailed string
| AutoCancelled
| LimitReached
| StillAboveThreshold
| Unavailable

datatype skip_reason = SkippedForCompaction | SkippedByCircuitBreaker

datatype event_kind =
  CompactionStart nat
| CompactionResult nat "usage option"
| CompactionEnd compaction_outcome
| AutomaticCompactionStart compaction_reason nat nat bool u32
| AutomaticCompactionEnd compaction_reason bool automatic_outcome
| ContextEstimate nat nat nat nat nat
| ProviderRequestSkipped skip_reason
| AgentStart
| TurnStart turn_id
| MessageStart agent_message
| MessageUpdate agent_message string
| MessageEnd agent_message
| ToolExecutionStart tool_call_id string serialized_json
| ToolExecutionUpdate tool_call_id string tool_update
| ToolExecutionEnd tool_call_id string agent_tool_result
| ToolFailureObserved tool_call_id tool_failure_disposition "failure_signature option" u32 bool string
| TurnEnd turn_id stop_reason
| ModelTurnUsage model_turn_accounting
| AgentEnd "agent_message list"

record agent_event =
  ev_run :: run_id
  ev_sequence :: event_sequence
  ev_kind :: event_kind

section \<open>Agent and run state\<close>

record agent_state =
  a_prompt :: string
  a_model :: "model_descriptor option"
  a_thinking :: thinking_level
  a_messages :: "agent_message list"
  a_host_messages :: "serialized_json list"
  a_phase :: agent_phase
  a_partial :: "string option"
  a_streaming :: bool
  a_pending :: "tool_call_id set"
  a_last_error :: "string option"
  a_accounting :: model_accounting
  a_next_message_id :: u64

definition agent_state_default :: agent_state where
  "agent_state_default = \<lparr>a_prompt = [], a_model = None, a_thinking = Off, a_messages = [], a_host_messages = [],
     a_phase = Idle, a_partial = None, a_streaming = False, a_pending = {}, a_last_error = None,
     a_accounting = accounting_default, a_next_message_id = 1\<rparr>"

definition allocate_message_id :: "agent_state \<Rightarrow> message_id \<times> agent_state" where
  "allocate_message_id s = (a_next_message_id s, s\<lparr>a_next_message_id := sat_add (a_next_message_id s) 1\<rparr>)"

definition replace_messages :: "agent_message list \<Rightarrow> agent_state \<Rightarrow> agent_state" where
  "replace_messages ms s =
     (let next_id = (if ms = [] then 1 else Max (set (map (\<lambda>m. sat_add (message_id m) 1) ms)))
      in s\<lparr>a_next_message_id := max (a_next_message_id s) next_id, a_messages := ms\<rparr>)"

definition push_message :: "agent_message \<Rightarrow> agent_state \<Rightarrow> agent_state" where
  "push_message m s = s\<lparr>a_messages := a_messages s @ [m]\<rparr>"

definition clear_transient :: "agent_state \<Rightarrow> agent_state" where
  "clear_transient s = s\<lparr>a_partial := None, a_streaming := False, a_pending := {}\<rparr>"

record run_state =
  r_id :: run_id
  r_phase :: run_phase
  r_turn :: "turn_id option"
  r_stop_reason :: "stop_reason option"
  r_error :: "string option"
  r_event_count :: u64
  r_events :: "agent_event list"

definition run_created :: "run_id \<Rightarrow> run_state" where
  "run_created i = \<lparr>r_id = i, r_phase = Created, r_turn = None, r_stop_reason = None, r_error = None,
     r_event_count = 0, r_events = []\<rparr>"

record run_policy_state =
  failure_streak :: "(failure_signature \<times> u32) option"
  automatic_compactions :: u32
  overflow_retries :: u32
  overflow_retried :: bool
  compaction_blocked :: "nat option"
  compaction_cancelled :: bool

definition run_policy_default :: run_policy_state where
  "run_policy_default = \<lparr>failure_streak = None, automatic_compactions = 0, overflow_retries = 0,
     overflow_retried = False, compaction_blocked = None, compaction_cancelled = False\<rparr>"

text \<open>What a handle and the agent share of a run, with the policy state of its handle.\<close>

record run_cell =
  c_state :: run_state
  c_cancelled :: bool
  c_policy :: run_policy_state

section \<open>The world\<close>

type_synonym capability = nat

record tool =
  tool_name :: string
  tool_description :: string
  tool_schema :: string
  tool_mode :: tool_execution_mode
  tool_capability :: capability

record agent_configuration =
  cf_prompt :: string
  cf_tools :: "tool registry"
  cf_hooks :: capability

record observer_registration =
  ob_id :: u64
  ob_capability :: capability

text \<open>A registered channel: its receiver's queue, its capacity if bounded, and the events it dropped.\<close>

record subscriber =
  sub_id :: u64
  sub_capacity :: "nat option"
  sub_queue :: "agent_event list"
  sub_dropped :: u64
  sub_connected :: bool

record 'e world =
  w_state :: agent_state
  w_queues :: agent_queues
  w_active :: "run_id option"
  w_runs :: "run_id \<rightharpoonup> run_cell"
  w_configuration :: agent_configuration
  w_steering_mode :: queue_mode
  w_follow_up_mode :: queue_mode
  w_provider :: "capability option"
  w_compactor :: "capability option"
  w_compaction :: compaction_policy
  w_projection :: projection_policy
  w_breaker :: "u32 option"
  w_observers :: "observer_registration list"
  w_next_observer :: u64
  w_subscribers :: "subscriber list"
  w_next_subscriber :: u64
  w_lossless :: "subscriber list"
  w_next_lossless :: u64
  w_next_run :: u64
  w_idle_waiters :: "nat list"
  w_env :: 'e

text \<open>A handle: its run, and what it captured when the run claimed the agent.\<close>

record run_handle =
  h_run :: run_id
  h_initial :: "agent_message list"
  h_start_index :: nat
  h_skip_steering :: bool
  h_configuration :: agent_configuration

definition upd_state :: "(agent_state \<Rightarrow> agent_state) \<Rightarrow> 'e world \<Rightarrow> 'e world" where
  "upd_state f w = w\<lparr>w_state := f (w_state w)\<rparr>"

definition upd_queues :: "(agent_queues \<Rightarrow> agent_queues) \<Rightarrow> 'e world \<Rightarrow> 'e world" where
  "upd_queues f w = w\<lparr>w_queues := f (w_queues w)\<rparr>"

definition upd_cell :: "run_id \<Rightarrow> (run_cell \<Rightarrow> run_cell) \<Rightarrow> 'e world \<Rightarrow> 'e world" where
  "upd_cell i f w = w\<lparr>w_runs := (w_runs w)(i := map_option f (w_runs w i))\<rparr>"

abbreviation upd_run :: "run_id \<Rightarrow> (run_state \<Rightarrow> run_state) \<Rightarrow> 'e world \<Rightarrow> 'e world" where
  "upd_run i f \<equiv> upd_cell i (\<lambda>c. c\<lparr>c_state := f (c_state c)\<rparr>)"

abbreviation upd_policy :: "run_id \<Rightarrow> (run_policy_state \<Rightarrow> run_policy_state) \<Rightarrow> 'e world \<Rightarrow> 'e world" where
  "upd_policy i f \<equiv> upd_cell i (\<lambda>c. c\<lparr>c_policy := f (c_policy c)\<rparr>)"

definition run_of :: "run_id \<Rightarrow> 'e world \<Rightarrow> run_state" where
  "run_of i w = (case w_runs w i of Some c \<Rightarrow> c_state c | None \<Rightarrow> run_created i)"

definition policy_of :: "run_id \<Rightarrow> 'e world \<Rightarrow> run_policy_state" where
  "policy_of i w = (case w_runs w i of Some c \<Rightarrow> c_policy c | None \<Rightarrow> run_policy_default)"

definition is_cancelled :: "run_id \<Rightarrow> 'e world \<Rightarrow> bool" where
  "is_cancelled i w = (case w_runs w i of Some c \<Rightarrow> c_cancelled c | None \<Rightarrow> False)"

lemmas world_upd = upd_state_def upd_queues_def upd_cell_def

text \<open>What the updates leave alone.\<close>

lemma upd_state_frame [simp]:
  shows "w_queues (upd_state f w) = w_queues w" "w_active (upd_state f w) = w_active w" "w_runs (upd_state f w) = w_runs w"
    "w_configuration (upd_state f w) = w_configuration w" "w_steering_mode (upd_state f w) = w_steering_mode w" "w_follow_up_mode (upd_state f w) = w_follow_up_mode w"
    "w_provider (upd_state f w) = w_provider w" "w_compactor (upd_state f w) = w_compactor w" "w_compaction (upd_state f w) = w_compaction w"
    "w_projection (upd_state f w) = w_projection w" "w_breaker (upd_state f w) = w_breaker w" "w_observers (upd_state f w) = w_observers w"
    "w_next_observer (upd_state f w) = w_next_observer w" "w_subscribers (upd_state f w) = w_subscribers w" "w_next_subscriber (upd_state f w) = w_next_subscriber w"
    "w_lossless (upd_state f w) = w_lossless w" "w_next_lossless (upd_state f w) = w_next_lossless w" "w_next_run (upd_state f w) = w_next_run w"
    "w_idle_waiters (upd_state f w) = w_idle_waiters w" "w_env (upd_state f w) = w_env w"
  by (simp_all add: world_upd)

lemma upd_queues_frame [simp]:
  shows "w_state (upd_queues g w) = w_state w" "w_active (upd_queues g w) = w_active w" "w_runs (upd_queues g w) = w_runs w"
    "w_configuration (upd_queues g w) = w_configuration w" "w_steering_mode (upd_queues g w) = w_steering_mode w" "w_follow_up_mode (upd_queues g w) = w_follow_up_mode w"
    "w_provider (upd_queues g w) = w_provider w" "w_compactor (upd_queues g w) = w_compactor w" "w_compaction (upd_queues g w) = w_compaction w"
    "w_projection (upd_queues g w) = w_projection w" "w_breaker (upd_queues g w) = w_breaker w" "w_observers (upd_queues g w) = w_observers w"
    "w_next_observer (upd_queues g w) = w_next_observer w" "w_subscribers (upd_queues g w) = w_subscribers w" "w_next_subscriber (upd_queues g w) = w_next_subscriber w"
    "w_lossless (upd_queues g w) = w_lossless w" "w_next_lossless (upd_queues g w) = w_next_lossless w" "w_next_run (upd_queues g w) = w_next_run w"
    "w_idle_waiters (upd_queues g w) = w_idle_waiters w" "w_env (upd_queues g w) = w_env w"
  by (simp_all add: world_upd)

lemma upd_cell_frame [simp]:
  shows "w_state (upd_cell i h w) = w_state w" "w_queues (upd_cell i h w) = w_queues w" "w_active (upd_cell i h w) = w_active w"
    "w_configuration (upd_cell i h w) = w_configuration w" "w_steering_mode (upd_cell i h w) = w_steering_mode w" "w_follow_up_mode (upd_cell i h w) = w_follow_up_mode w"
    "w_provider (upd_cell i h w) = w_provider w" "w_compactor (upd_cell i h w) = w_compactor w" "w_compaction (upd_cell i h w) = w_compaction w"
    "w_projection (upd_cell i h w) = w_projection w" "w_breaker (upd_cell i h w) = w_breaker w" "w_observers (upd_cell i h w) = w_observers w"
    "w_next_observer (upd_cell i h w) = w_next_observer w" "w_subscribers (upd_cell i h w) = w_subscribers w" "w_next_subscriber (upd_cell i h w) = w_next_subscriber w"
    "w_lossless (upd_cell i h w) = w_lossless w" "w_next_lossless (upd_cell i h w) = w_next_lossless w" "w_next_run (upd_cell i h w) = w_next_run w"
    "w_idle_waiters (upd_cell i h w) = w_idle_waiters w" "w_env (upd_cell i h w) = w_env w"
  by (simp_all add: world_upd)

lemma upd_here [simp]:
  "w_state (upd_state f w) = f (w_state w)" "w_queues (upd_queues g w) = g (w_queues w)"
  "w_runs (upd_cell i h w) = (w_runs w)(i := map_option h (w_runs w i))"
  by (simp_all add: world_upd)

lemma run_of_frame [simp]:
  "run_of i (upd_state f w) = run_of i w" "run_of i (upd_queues g w) = run_of i w"
  "is_cancelled i (upd_state f w) = is_cancelled i w" "is_cancelled i (upd_queues g w) = is_cancelled i w"
  by (simp_all add: run_of_def is_cancelled_def)

end
