(* ===== verification/Agent.thy ===== *)
theory Agent
  imports Lifecycle
begin

text \<open>
  The operations of an agent and of its run handles outside a driven run: \<open>agent/mod.rs\<close>, the start of
  a manual compaction (\<open>compaction.rs\<close>), and the settlement half of \<open>run/mod.rs\<close> (\<open>start_turn\<close> up to
  \<open>settle_agent\<close>, \<open>abort\<close> and \<open>Drop\<close>). An operation holds the agent's locks for its whole body
  except where noted, so each is one step on the world.
\<close>

section \<open>Settlement\<close>

definition notify_idle :: "'e world \<Rightarrow> 'e world" where
  "notify_idle w = w\<lparr>w_idle_waiters := []\<rparr>"

definition settle_agent :: "agent_phase \<Rightarrow> string option \<Rightarrow> 'e world \<Rightarrow> 'e world" where
  "settle_agent ph err w = notify_idle
     ((upd_state (\<lambda>s. (clear_transient s)\<lparr>a_last_error := err, a_phase := ph\<rparr>) w)\<lparr>w_active := None\<rparr>)"

definition finish :: "run_id \<Rightarrow> run_phase \<Rightarrow> stop_reason \<Rightarrow> string option \<Rightarrow> ('e world, core_error, unit) step"
  where
  "finish i ph reason err = (\<lambda>w.
     if is_terminal (r_phase (run_of i w)) then (Inl (RunFinished (r_id (run_of i w))), w)
     else (Inr (), settle_agent Idle err
       (upd_run i (\<lambda>r. r\<lparr>r_phase := ph, r_stop_reason := Some reason, r_error := err\<rparr>) w)))"

definition succeed :: "run_id \<Rightarrow> stop_reason \<Rightarrow> ('e world, core_error, unit) step" where
  "succeed i reason = finish i Succeeded reason None"

definition fail_run :: "run_id \<Rightarrow> string \<Rightarrow> ('e world, core_error, unit) step" where
  "fail_run i message = finish i Failed ErrorReason (Some message)"

definition settle_cancelled :: "run_id \<Rightarrow> ('e world, core_error, unit) step" where
  "settle_cancelled i = finish i Cancelled CancelledReason None"

definition begin_settlement :: "run_id \<Rightarrow> ('e world, core_error, unit) step" where
  "begin_settlement i = (\<lambda>w.
     if is_terminal (r_phase (run_of i w)) then (Inl (RunFinished (r_id (run_of i w))), w)
     else (Inr (), upd_run i (\<lambda>r. r\<lparr>r_phase := Settling\<rparr>) w))"

fun phase_name :: "run_phase \<Rightarrow> string" where
  "phase_name Created = ''created''"
| "phase_name RunRunning = ''running''"
| "phase_name Settling = ''settling''"
| "phase_name Succeeded = ''succeeded''"
| "phase_name Failed = ''failed''"
| "phase_name Cancelled = ''cancelled''"

definition start_turn :: "run_id \<Rightarrow> turn_id \<Rightarrow> ('e world, core_error, unit) step" where
  "start_turn i t = (\<lambda>w.
     if r_phase (run_of i w) \<noteq> Created
     then (Inl (InvalidTransition ''run'' (phase_name (r_phase (run_of i w))) ''start_turn''), w)
     else (Inr (), upd_run i (\<lambda>r. r\<lparr>r_phase := RunRunning, r_turn := Some t\<rparr>) w))"

definition advance_turn :: "run_id \<Rightarrow> turn_id \<Rightarrow> ('e world, core_error, unit) step" where
  "advance_turn i t = (\<lambda>w.
     if r_phase (run_of i w) \<noteq> RunRunning
     then (Inl (InvalidTransition ''run'' (phase_name (r_phase (run_of i w))) ''advance_turn''), w)
     else (Inr (), upd_run i (\<lambda>r. r\<lparr>r_turn := Some t\<rparr>) w))"

subsection \<open>Abort\<close>

definition cancel_token :: "run_id \<Rightarrow> 'e world \<Rightarrow> 'e world" where
  "cancel_token i = upd_cell i (\<lambda>c. c\<lparr>c_cancelled := True\<rparr>)"

datatype abort_plan = NothingToAbort | SettleNow | MarkCancelling

text \<open>
  \<open>RunHandle::abort\<close> releases the run's lock before it takes the agent's. The two critical sections are
  kept apart so that what another thread does in between can be said.
\<close>

definition abort_run_section :: "run_id \<Rightarrow> 'e world \<Rightarrow> abort_plan \<times> 'e world" where
  "abort_run_section i w =
     (let w = cancel_token i w; ph = r_phase (run_of i w)
      in if is_terminal ph then (NothingToAbort, w)
         else if ph = Created
         then (SettleNow, upd_run i (\<lambda>r. r\<lparr>r_phase := Cancelled, r_stop_reason := Some CancelledReason\<rparr>) w)
         else (MarkCancelling, w))"

fun abort_agent_section :: "run_id \<Rightarrow> abort_plan \<Rightarrow> 'e world \<Rightarrow> 'e world" where
  "abort_agent_section i NothingToAbort w = w"
| "abort_agent_section i SettleNow w = settle_agent Idle None w"
| "abort_agent_section i MarkCancelling w = upd_state (\<lambda>s. s\<lparr>a_phase := Cancelling i\<rparr>) w"

definition run_abort :: "run_id \<Rightarrow> 'e world \<Rightarrow> 'e world" where
  "run_abort i w = (let (plan, w) = abort_run_section i w in abort_agent_section i plan w)"

definition run_drop :: "run_id \<Rightarrow> 'e world \<Rightarrow> 'e world" where
  "run_drop i w = (if is_terminal (r_phase (run_of i w)) then w else run_abort i w)"

definition agent_abort :: "'e world \<Rightarrow> 'e world" where
  "agent_abort w =
     (case w_active w of
        None \<Rightarrow> w
      | Some i \<Rightarrow>
          let w = cancel_token i w;
              settle_immediately = (r_phase (run_of i w) = Created);
              w = (if settle_immediately
                   then upd_run i (\<lambda>r. r\<lparr>r_phase := Cancelled, r_stop_reason := Some CancelledReason\<rparr>) w
                   else w);
              w = upd_state (\<lambda>s. (clear_transient s)\<lparr>a_phase :=
                    if settle_immediately then Idle
                    else if a_phase s \<noteq> Idle then Cancelling i else a_phase s\<rparr>) w;
              w = upd_queues queues_clear w
          in if settle_immediately
             then notify_idle (if w_active w = Some i then w\<lparr>w_active := None\<rparr> else w)
             else w)"

section \<open>Starting runs\<close>

fun phase_run :: "agent_phase \<Rightarrow> run_id option" where
  "phase_run Idle = None"
| "phase_run (Running i) = Some i"
| "phase_run (Cancelling i) = Some i"

text \<open>The operations that need an idle agent.\<close>

definition when_idle :: "('e world, core_error, 'a) step \<Rightarrow> ('e world, core_error, 'a) step" where
  "when_idle m = (\<lambda>w. case phase_run (a_phase (w_state w)) of
     Some i \<Rightarrow> (Inl (ActiveRun i), w) | None \<Rightarrow> m w)"

definition fetch_run_id :: "'e world \<Rightarrow> run_id \<times> 'e world" where
  "fetch_run_id w = (sat_add (w_next_run w) 1, w\<lparr>w_next_run := w_next_run w + 1\<rparr>)"

definition claim :: "run_id \<Rightarrow> run_phase \<Rightarrow> 'e world \<Rightarrow> 'e world" where
  "claim i ph w =
     (upd_state (\<lambda>s. (clear_transient s)\<lparr>a_phase := Running i, a_last_error := None\<rparr>) w)
       \<lparr>w_active := Some i,
        w_runs := (w_runs w)(i \<mapsto> \<lparr>c_state = (run_created i)\<lparr>r_phase := ph\<rparr>, c_cancelled = False,
          c_policy = run_policy_default\<rparr>)\<rparr>"

fun allocate_users :: "string list \<Rightarrow> agent_state \<Rightarrow> agent_message list \<times> agent_state" where
  "allocate_users [] s = ([], s)"
| "allocate_users (text # texts) s =
     (let (i, s) = allocate_message_id s; (ms, s) = allocate_users texts s
      in (UserMessage i text # ms, s))"

definition start_run :: "string list \<Rightarrow> bool \<Rightarrow> ('e world, core_error, run_handle) step" where
  "start_run contents skip_initial_steering = (\<lambda>w.
     let (i, w) = fetch_run_id w
     in when_idle (\<lambda>w.
          let start = length (a_messages (w_state w));
              (ms, s) = allocate_users contents (w_state w);
              s = s\<lparr>a_messages := a_messages s @ ms\<rparr>
          in (Inr \<lparr>h_run = i, h_initial = ms, h_start_index = start, h_skip_steering = skip_initial_steering,
                h_configuration = w_configuration w\<rparr>,
              claim i Created (w\<lparr>w_state := s\<rparr>))) w)"

definition start_prompt :: "string \<Rightarrow> ('e world, core_error, run_handle) step" where
  "start_prompt prompt = start_run [prompt] False"

definition drain_continue_tail_messages :: "'e world \<Rightarrow> queued_message list \<times> 'e world" where
  "drain_continue_tail_messages w =
     (let (drained, q) = steering_drain (w_steering_mode w) (w_queues w); w = w\<lparr>w_queues := q\<rparr>
      in if drained = []
         then let (ms, q) = follow_up_drain (w_follow_up_mode w) (w_queues w) in (ms, w\<lparr>w_queues := q\<rparr>)
         else (drained, w))"

definition start_continue :: "('e world, core_error, run_handle) step" where
  "start_continue = when_idle (\<lambda>w.
     if a_messages (w_state w) = [] then (Inl (InvalidTransition ''agent'' ''empty'' ''continue''), w)
     else if \<not> is_assistant (last (a_messages (w_state w))) then start_run [] False w
     else let (queued, w) = drain_continue_tail_messages w
          in if queued = [] then (Inl (InvalidTransition ''agent'' ''assistant-tail'' ''continue''), w)
             else start_run (map queued_content queued) True w)"

definition start_compaction :: "('e world, core_error, run_handle) step" where
  "start_compaction = (\<lambda>w.
     let (i, w) = fetch_run_id w
     in when_idle (\<lambda>w.
          case w_compactor w of
            None \<Rightarrow> (Inl MissingCompactor, w)
          | Some c \<Rightarrow> (Inr \<lparr>h_run = i, h_initial = [], h_start_index = 0, h_skip_steering = True,
                h_configuration = w_configuration w\<rparr>, claim i RunRunning w)) w)"

section \<open>Configuration, queues and subscriptions\<close>

definition replace_model_provider :: "model_descriptor \<Rightarrow> capability \<Rightarrow> ('e world, core_error, unit) step" where
  "replace_model_provider md p = when_idle (\<lambda>w.
     (Inr (), (upd_state (\<lambda>s. s\<lparr>a_model := Some md\<rparr>) w)\<lparr>w_provider := Some p\<rparr>))"

definition replace_thinking_level :: "thinking_level \<Rightarrow> ('e world, core_error, unit) step" where
  "replace_thinking_level level = when_idle (\<lambda>w. (Inr (), upd_state (\<lambda>s. s\<lparr>a_thinking := level\<rparr>) w))"

definition replace_configuration :: "agent_configuration \<Rightarrow> ('e world, core_error, unit) step" where
  "replace_configuration c = when_idle (\<lambda>w.
     (Inr (), (upd_state (\<lambda>s. s\<lparr>a_prompt := cf_prompt c\<rparr>) w)\<lparr>w_configuration := c\<rparr>))"

definition restore_messages :: "agent_message list \<Rightarrow> ('e world, core_error, unit) step" where
  "restore_messages ms = when_idle (\<lambda>w.
     case validate_messages ms of
       Inl e \<Rightarrow> (Inl (CompactionError (InvalidReplacement e)), w)
     | Inr _ \<Rightarrow> (Inr (), upd_queues queues_clear (upd_state (\<lambda>s.
           (clear_transient (replace_messages ms s))\<lparr>a_last_error := None, a_accounting := accounting_default\<rparr>) w)))"

definition replace_automatic_compaction :: "compaction_policy \<Rightarrow> ('e world, core_error, unit) step" where
  "replace_automatic_compaction p = (\<lambda>w.
     case policy_validate p of
       Inl message \<Rightarrow> (Inl (InvalidCompactionPolicy message), w)
     | Inr _ \<Rightarrow> when_idle (\<lambda>w. (Inr (), w\<lparr>w_compaction := p\<rparr>)) w)"

definition reset :: "('e world, core_error, unit) step" where
  "reset = when_idle (\<lambda>w. (Inr (), upd_queues queues_clear (upd_state (\<lambda>s.
     (clear_transient s)\<lparr>a_messages := [], a_host_messages := [], a_last_error := None,
       a_accounting := accounting_default\<rparr>) w)))"

definition enqueue_steering :: "string \<Rightarrow> 'e world \<Rightarrow> u64 \<times> 'e world" where
  "enqueue_steering text w = (let (i, q) = steering_push text (w_queues w) in (i, w\<lparr>w_queues := q\<rparr>))"

definition enqueue_follow_up :: "string \<Rightarrow> 'e world \<Rightarrow> u64 \<times> 'e world" where
  "enqueue_follow_up text w = (let (i, q) = follow_up_push text (w_queues w) in (i, w\<lparr>w_queues := q\<rparr>))"

definition has_queued_messages :: "'e world \<Rightarrow> bool" where
  "has_queued_messages w \<longleftrightarrow> \<not> steering_is_empty (w_queues w) \<or> \<not> follow_up_is_empty (w_queues w)"

definition subscribe :: "capability \<Rightarrow> 'e world \<Rightarrow> u64 \<times> 'e world" where
  "subscribe observer w =
     (let i = sat_add (w_next_observer w) 1
      in (i, w\<lparr>w_next_observer := w_next_observer w + 1,
               w_observers := w_observers w @ [\<lparr>ob_id = i, ob_capability = observer\<rparr>]\<rparr>))"

definition unsubscribe :: "u64 \<Rightarrow> 'e world \<Rightarrow> 'e world" where
  "unsubscribe i w = w\<lparr>w_observers := filter (\<lambda>r. ob_id r \<noteq> i) (w_observers w)\<rparr>"

definition new_subscriber :: "u64 \<Rightarrow> nat option \<Rightarrow> subscriber" where
  "new_subscriber i capacity = \<lparr>sub_id = i, sub_capacity = capacity, sub_queue = [], sub_dropped = 0,
     sub_connected = True\<rparr>"

definition subscribe_nonblocking :: "nat \<Rightarrow> 'e world \<Rightarrow> u64 \<times> 'e world" where
  "subscribe_nonblocking capacity w =
     (let i = sat_add (w_next_subscriber w) 1
      in (i, w\<lparr>w_next_subscriber := w_next_subscriber w + 1,
               w_subscribers := w_subscribers w @ [new_subscriber i (Some capacity)]\<rparr>))"

definition drop_subscription :: "u64 \<Rightarrow> 'e world \<Rightarrow> 'e world" where
  "drop_subscription i w = w\<lparr>w_subscribers := filter (\<lambda>r. sub_id r \<noteq> i) (w_subscribers w)\<rparr>"

definition subscribe_lossless :: "'e world \<Rightarrow> u64 \<times> 'e world" where
  "subscribe_lossless w =
     (let i = sat_add (w_next_lossless w) 1
      in (i, w\<lparr>w_next_lossless := w_next_lossless w + 1,
               w_lossless := w_lossless w @ [new_subscriber i None]\<rparr>))"

definition drop_lossless :: "u64 \<Rightarrow> 'e world \<Rightarrow> 'e world" where
  "drop_lossless i w = w\<lparr>w_lossless := filter (\<lambda>r. sub_id r \<noteq> i) (w_lossless w)\<rparr>"

text \<open>\<open>try_recv\<close> takes the next event from a receiver's queue.\<close>

definition receive :: "u64 \<Rightarrow> subscriber list \<Rightarrow> subscriber list" where
  "receive i = map (\<lambda>r. if sub_id r = i then r\<lparr>sub_queue := tl (sub_queue r)\<rparr> else r)"

definition is_idle :: "'e world \<Rightarrow> bool" where
  "is_idle w \<longleftrightarrow> a_phase (w_state w) = Idle"

text \<open>One poll of \<open>wait_for_idle\<close>: whether it is ready.\<close>

definition poll_wait_for_idle :: "nat \<Rightarrow> 'e world \<Rightarrow> bool \<times> 'e world" where
  "poll_wait_for_idle waker w =
     (if is_idle w then (True, w)
      else let w = (if waker \<in> set (w_idle_waiters w) then w
                    else w\<lparr>w_idle_waiters := w_idle_waiters w @ [waker]\<rparr>)
           in (is_idle w, w))"

section \<open>The interface as a set of operations\<close>

datatype agent_op =
  OpSteer string
| OpFollowUp string
| OpClearSteering
| OpClearFollowUp
| OpClearAllQueues
| OpSetSteeringMode queue_mode
| OpSetFollowUpMode queue_mode
| OpAbort
| OpReset
| OpRestoreMessages "agent_message list"
| OpReplaceModelProvider model_descriptor capability
| OpReplaceThinkingLevel thinking_level
| OpReplaceConfiguration agent_configuration
| OpReplaceAutomaticCompaction compaction_policy
| OpStartPrompt string
| OpStartContinue
| OpStartCompaction
| OpSubscribe capability
| OpUnsubscribe u64
| OpSubscribeNonblocking nat
| OpReceive u64
| OpDropSubscription u64
| OpSubscribeLossless
| OpReceiveLossless u64
| OpDropLossless u64
| OpWaitForIdle nat

text \<open>The operations of a handle other than driving it.\<close>

datatype handle_op = HAbort | HDrop | HStartTurn turn_id | HBeginSettlement | HSucceed stop_reason | HFail string

fun run_op :: "agent_op \<Rightarrow> 'e world \<Rightarrow> 'e world" where
  "run_op (OpSteer text) w = snd (enqueue_steering text w)"
| "run_op (OpFollowUp text) w = snd (enqueue_follow_up text w)"
| "run_op OpClearSteering w = upd_queues steering_clear w"
| "run_op OpClearFollowUp w = upd_queues follow_up_clear w"
| "run_op OpClearAllQueues w = upd_queues queues_clear w"
| "run_op (OpSetSteeringMode mode) w = w\<lparr>w_steering_mode := mode\<rparr>"
| "run_op (OpSetFollowUpMode mode) w = w\<lparr>w_follow_up_mode := mode\<rparr>"
| "run_op OpAbort w = agent_abort w"
| "run_op OpReset w = snd (reset w)"
| "run_op (OpRestoreMessages ms) w = snd (restore_messages ms w)"
| "run_op (OpReplaceModelProvider md p) w = snd (replace_model_provider md p w)"
| "run_op (OpReplaceThinkingLevel level) w = snd (replace_thinking_level level w)"
| "run_op (OpReplaceConfiguration c) w = snd (replace_configuration c w)"
| "run_op (OpReplaceAutomaticCompaction p) w = snd (replace_automatic_compaction p w)"
| "run_op (OpStartPrompt prompt) w = snd (start_prompt prompt w)"
| "run_op OpStartContinue w = snd (start_continue w)"
| "run_op OpStartCompaction w = snd (start_compaction w)"
| "run_op (OpSubscribe observer) w = snd (subscribe observer w)"
| "run_op (OpUnsubscribe i) w = unsubscribe i w"
| "run_op (OpSubscribeNonblocking capacity) w = snd (subscribe_nonblocking capacity w)"
| "run_op (OpReceive i) w = w\<lparr>w_subscribers := receive i (w_subscribers w)\<rparr>"
| "run_op (OpDropSubscription i) w = drop_subscription i w"
| "run_op OpSubscribeLossless w = snd (subscribe_lossless w)"
| "run_op (OpReceiveLossless i) w = w\<lparr>w_lossless := receive i (w_lossless w)\<rparr>"
| "run_op (OpDropLossless i) w = drop_lossless i w"
| "run_op (OpWaitForIdle waker) w = snd (poll_wait_for_idle waker w)"

fun run_handle_op :: "run_id \<Rightarrow> handle_op \<Rightarrow> 'e world \<Rightarrow> 'e world" where
  "run_handle_op i HAbort w = run_abort i w"
| "run_handle_op i HDrop w = run_drop i w"
| "run_handle_op i (HStartTurn t) w = snd (start_turn i t w)"
| "run_handle_op i HBeginSettlement w = snd (begin_settlement i w)"
| "run_handle_op i (HSucceed reason) w = snd (succeed i reason w)"
| "run_handle_op i (HFail message) w = snd (fail_run i message w)"

section \<open>The ownership invariant\<close>

text \<open>
  The agent and the runs agree: the agent is idle exactly when no run is active, the active run is the
  only one that has not finished, and an idle agent holds nothing transient and no waiting waker.
\<close>

definition owned :: "'e world \<Rightarrow> bool" where
  "owned w \<longleftrightarrow>
     (\<forall>i c. w_runs w i = Some c \<longrightarrow> r_id (c_state c) = i \<and>
        (is_terminal (r_phase (c_state c)) \<longleftrightarrow> w_active w \<noteq> Some i)) \<and>
     (case w_active w of
        None \<Rightarrow> a_phase (w_state w) = Idle \<and> a_partial (w_state w) = None \<and> \<not> a_streaming (w_state w) \<and>
          a_pending (w_state w) = {} \<and> w_idle_waiters w = []
      | Some i \<Rightarrow> w_runs w i \<noteq> None \<and> phase_run (a_phase (w_state w)) = Some i)"

lemma owned_idle: "owned w \<Longrightarrow> is_idle w \<longleftrightarrow> w_active w = None"
  by (auto simp: owned_def is_idle_def split: option.splits)

lemma owned_frame:
  assumes "owned w" and "w_runs w' = w_runs w" and "w_active w' = w_active w"
    and "w_idle_waiters w' = w_idle_waiters w \<or> \<not> is_idle w"
    and "a_phase (w_state w') = a_phase (w_state w)"
    and "a_partial (w_state w') = a_partial (w_state w) \<or> a_partial (w_state w') = None \<or> \<not> is_idle w"
    and "a_streaming (w_state w') = a_streaming (w_state w) \<or> \<not> a_streaming (w_state w') \<or> \<not> is_idle w"
    and "a_pending (w_state w') = a_pending (w_state w) \<or> a_pending (w_state w') = {} \<or> \<not> is_idle w"
  shows "owned w'"
  using assms by (auto simp: owned_def is_idle_def split: option.splits)

lemma owned_when_idle:
  "owned w \<Longrightarrow> (phase_run (a_phase (w_state w)) = None \<Longrightarrow> owned (snd (m w))) \<Longrightarrow> owned (snd (when_idle m w))"
  by (simp add: when_idle_def split: option.splits)

lemma phase_run_None: "phase_run ph = None \<longleftrightarrow> ph = Idle"
  by (cases ph) auto

lemma owned_claim:
  assumes "owned w" and "w_active w = None" and "\<not> is_terminal ph"
  shows "owned (claim i ph w)"
  using assms by (auto simp: owned_def claim_def upd_state_def clear_transient_def run_created_def)

lemma owned_settle:
  assumes "owned w" and "w_active w = Some i" and "is_terminal (r_phase (f (run_of i w)))"
    and "r_id (f (run_of i w)) = i"
  shows "owned (settle_agent Idle err (upd_run i f w))"
  using assms
  by (auto simp: owned_def settle_agent_def notify_idle_def world_upd clear_transient_def run_of_def
      split: option.splits if_splits)

lemma owned_active:
  "owned w \<Longrightarrow> w_runs w i \<noteq> None \<Longrightarrow> \<not> is_terminal (r_phase (run_of i w)) \<Longrightarrow> w_active w = Some i"
  by (auto simp: owned_def run_of_def)

lemma run_of_upd:
  "run_of i (upd_run j f w) = (if i = j \<and> w_runs w i \<noteq> None then f (run_of i w) else run_of i w)"
  "run_of i (cancel_token j w) = run_of i w" "w_runs (cancel_token j w) i = None \<longleftrightarrow> w_runs w i = None"
  "w_active (cancel_token j w) = w_active w" "w_state (cancel_token j w) = w_state w"
  "run_of i (upd_policy j g w) = run_of i w"
  by (auto simp: run_of_def world_upd cancel_token_def split: option.splits)

lemma r_id_run_of: "owned w \<Longrightarrow> r_id (run_of i w) = i"
  by (auto simp: owned_def run_of_def run_created_def split: option.splits)

lemma owned_finish:
  assumes "owned w" and "w_runs w i \<noteq> None" and "is_terminal ph"
  shows "owned (snd (finish i ph reason err w))"
  using assms owned_active [OF assms(1,2)] r_id_run_of [OF assms(1)]
  by (auto simp: finish_def intro!: owned_settle)

lemma owned_cancel_token: "owned w \<Longrightarrow> owned (cancel_token i w)"
  by (auto simp: owned_def cancel_token_def upd_cell_def split: option.splits)

lemma owned_upd_run:
  assumes "owned w" and "r_id (f (run_of i w)) = r_id (run_of i w)"
    and "is_terminal (r_phase (f (run_of i w))) = is_terminal (r_phase (run_of i w))"
  shows "owned (upd_run i f w)"
  using assms by (auto simp: owned_def world_upd run_of_def split: option.splits)

lemma owned_start_turn: "owned w \<Longrightarrow> owned (snd (start_turn i t w))"
  by (auto simp: start_turn_def intro!: owned_upd_run)

lemma owned_advance_turn: "owned w \<Longrightarrow> owned (snd (advance_turn i t w))"
  by (auto simp: advance_turn_def intro!: owned_upd_run)

lemma owned_begin_settlement: "owned w \<Longrightarrow> owned (snd (begin_settlement i w))"
  by (auto simp: begin_settlement_def intro!: owned_upd_run)

lemma owned_run_abort:
  assumes "owned w" and "w_runs w i \<noteq> None"
  shows "owned (run_abort i w)"
proof -
  let ?w = "cancel_token i w"
  have w: "owned ?w" "w_runs ?w i \<noteq> None" "run_of i ?w = run_of i w"
    using assms owned_cancel_token by (auto simp: run_of_upd)
  consider "is_terminal (r_phase (run_of i w))" | "r_phase (run_of i w) = Created"
    | "\<not> is_terminal (r_phase (run_of i w))" "r_phase (run_of i w) \<noteq> Created" by blast
  then show ?thesis
  proof cases
    case 1
    then show ?thesis using w by (simp add: run_abort_def abort_run_section_def Let_def)
  next
    case 2
    then have "w_active ?w = Some i" using owned_active [OF w(1,2)] w(3) by simp
    then have "owned (settle_agent Idle None
        (upd_run i (\<lambda>r. r\<lparr>r_phase := Cancelled, r_stop_reason := Some CancelledReason\<rparr>) ?w))"
      using r_id_run_of [OF w(1)] by (intro owned_settle [OF w(1)]) simp_all
    then show ?thesis using 2 w(3) by (simp add: run_abort_def abort_run_section_def Let_def)
  next
    case 3
    then have "w_active ?w = Some i" using owned_active [OF w(1,2)] w(3) by simp
    then have "owned (upd_state (\<lambda>s. s\<lparr>a_phase := Cancelling i\<rparr>) ?w)"
      using w(1,2) by (auto simp: owned_def upd_state_def)
    then show ?thesis using 3 w(3) by (simp add: run_abort_def abort_run_section_def Let_def)
  qed
qed

lemma owned_run_drop: "owned w \<Longrightarrow> w_runs w i \<noteq> None \<Longrightarrow> owned (run_drop i w)"
  by (simp add: run_drop_def owned_run_abort)

lemma owned_agent_abort:
  assumes "owned w"
  shows "owned (agent_abort w)"
proof (cases "w_active w")
  case None
  then show ?thesis using assms by (simp add: agent_abort_def)
next
  case (Some i)
  let ?w = "cancel_token i w"
  have w: "owned ?w" "w_active ?w = Some i" using assms Some owned_cancel_token by (auto simp: run_of_upd)
  then have known: "w_runs ?w i \<noteq> None" "phase_run (a_phase (w_state ?w)) = Some i"
    by (auto simp: owned_def)
  then have busy: "a_phase (w_state ?w) \<noteq> Idle" by auto
  show ?thesis
  proof (cases "r_phase (run_of i w) = Created")
    case True
    let ?v = "upd_run i (\<lambda>r. r\<lparr>r_phase := Cancelled, r_stop_reason := Some CancelledReason\<rparr>) ?w"
    have settled: "owned (settle_agent Idle (a_last_error (w_state w)) ?v)"
      using r_id_run_of [OF w(1)] w by (intro owned_settle [OF w(1,2)]) simp_all
    have "agent_abort w = upd_queues queues_clear (settle_agent Idle (a_last_error (w_state w)) ?v)"
      using Some True w(2)
      by (simp add: agent_abort_def Let_def run_of_upd)
        (cases "w_state w"; simp add: settle_agent_def notify_idle_def upd_state_def upd_queues_def
          clear_transient_def cancel_token_def)
    then show ?thesis
      using settled by (auto intro!: owned_frame [OF settled] simp: upd_queues_def)
  next
    case False
    have "owned (upd_state (\<lambda>s. (clear_transient s)\<lparr>a_phase := Cancelling i\<rparr>) ?w)"
      using w known by (auto simp: owned_def upd_state_def)
    then have "owned (upd_queues queues_clear (upd_state (\<lambda>s. (clear_transient s)\<lparr>a_phase := Cancelling i\<rparr>) ?w))"
      by (rule owned_frame) (simp_all add: upd_queues_def)
    then show ?thesis
      using Some False busy by (simp add: agent_abort_def Let_def run_of_upd upd_state_def)
  qed
qed


lemma allocate_users_frame: "\<exists>n. snd (allocate_users texts s) = s\<lparr>a_next_message_id := n\<rparr>"
proof (induction texts arbitrary: s)
  case Nil
  then show ?case by (auto intro: exI [of _ "a_next_message_id s"])
next
  case (Cons x texts)
  from Cons [of "snd (allocate_message_id s)"] show ?case
    by (auto simp: allocate_message_id_def Let_def case_prod_beta)
qed

lemma owned_fetch_run_id: "owned w \<Longrightarrow> owned (snd (fetch_run_id w))"
  by (erule owned_frame) (simp_all add: fetch_run_id_def)

lemma owned_start_run:
  assumes "owned w"
  shows "owned (snd (start_run contents skip w))"
proof -
  let ?w = "snd (fetch_run_id w)"
  obtain n where n: "snd (allocate_users contents (w_state ?w)) = (w_state ?w)\<lparr>a_next_message_id := n\<rparr>"
    using allocate_users_frame by blast
  show ?thesis
    unfolding start_run_def case_prod_beta Let_def
  proof (rule owned_when_idle [OF owned_fetch_run_id [OF assms]])
    assume "phase_run (a_phase (w_state ?w)) = None"
    then have "w_active ?w = None"
      using owned_idle [OF owned_fetch_run_id [OF assms]] by (simp add: phase_run_None is_idle_def)
    moreover have "owned (?w\<lparr>w_state := (w_state ?w)\<lparr>a_next_message_id := n, a_messages := ms\<rparr>\<rparr>)" for ms
      by (rule owned_frame [OF owned_fetch_run_id [OF assms]]) simp_all
    ultimately show "owned (snd (Inr h, claim i Created (?w\<lparr>w_state := (snd (allocate_users contents (w_state ?w)))
        \<lparr>a_messages := ms\<rparr>\<rparr>)))" for h i ms
      by (simp add: n owned_claim)
  qed
qed

lemma owned_drain_tail: "owned w \<Longrightarrow> owned (snd (drain_continue_tail_messages w))"
  by (erule owned_frame) (simp_all add: drain_continue_tail_messages_def Let_def case_prod_beta)

lemma owned_start_continue: "owned w \<Longrightarrow> owned (snd (start_continue w))"
  unfolding start_continue_def
  by (rule owned_when_idle)
    (auto simp: Let_def case_prod_beta intro: owned_start_run owned_drain_tail)

lemma owned_start_compaction: "owned w \<Longrightarrow> owned (snd (start_compaction w))"
  unfolding start_compaction_def case_prod_beta Let_def
  by (rule owned_when_idle [OF owned_fetch_run_id])
    (auto split: option.splits intro!: owned_claim owned_fetch_run_id
      simp: owned_idle [OF owned_fetch_run_id, symmetric] is_idle_def phase_run_None)

lemma owned_run_op: "owned w \<Longrightarrow> owned (run_op op w)"
proof -
  assume w: "owned w"
  note frame = owned_frame [OF w]
  show ?thesis
  proof (cases op)
    case (OpWaitForIdle waker)
    then show ?thesis by (auto intro!: frame simp: poll_wait_for_idle_def Let_def)
  next
    case (OpRestoreMessages ms)
    then show ?thesis
      by (auto intro!: frame owned_when_idle [OF w] simp: restore_messages_def clear_transient_def
          replace_messages_def Let_def split: sum.splits)
  next
    case (OpReplaceAutomaticCompaction p)
    then show ?thesis
      by (auto intro!: frame owned_when_idle [OF w] simp: w replace_automatic_compaction_def split: sum.splits)
  qed (auto intro!: frame owned_agent_abort owned_start_run owned_start_continue owned_start_compaction
      owned_when_idle [OF w] simp: w enqueue_steering_def enqueue_follow_up_def reset_def clear_transient_def
      replace_model_provider_def replace_thinking_level_def replace_configuration_def start_prompt_def
      subscribe_def unsubscribe_def subscribe_nonblocking_def drop_subscription_def subscribe_lossless_def
      drop_lossless_def Let_def case_prod_beta)
qed

lemma owned_run_handle_op:
  "owned w \<Longrightarrow> w_runs w i \<noteq> None \<Longrightarrow> owned (run_handle_op i op w)"
  by (cases op) (simp_all add: owned_run_abort owned_run_drop owned_start_turn owned_begin_settlement
      succeed_def fail_run_def owned_finish)

section \<open>Built agents and their histories\<close>

record agent_builder =
  b_prompt :: string
  b_model :: "model_descriptor option"
  b_thinking :: thinking_level
  b_host_messages :: "serialized_json list"
  b_tools :: "tool registry"
  b_provider :: "capability option"
  b_compactor :: "capability option"
  b_compaction :: compaction_policy
  b_projection :: projection_policy
  b_breaker :: "u32 option"
  b_hooks :: capability
  b_observers :: "capability list"
  b_steering :: queue_mode
  b_follow_up :: queue_mode

definition agent_build :: "agent_builder \<Rightarrow> 'e \<Rightarrow> 'e world" where
  "agent_build b e = \<lparr>
     w_state = agent_state_default\<lparr>a_prompt := b_prompt b, a_model := b_model b, a_thinking := b_thinking b,
       a_host_messages := b_host_messages b\<rparr>,
     w_queues = queues_default, w_active = None, w_runs = Map.empty,
     w_configuration = \<lparr>cf_prompt = b_prompt b, cf_tools = b_tools b, cf_hooks = b_hooks b\<rparr>,
     w_steering_mode = b_steering b, w_follow_up_mode = b_follow_up b, w_provider = b_provider b,
     w_compactor = b_compactor b, w_compaction = b_compaction b, w_projection = b_projection b,
     w_breaker = b_breaker b,
     w_observers = map (\<lambda>(i, c). \<lparr>ob_id = sat_add (word_of_nat i) 1, ob_capability = c\<rparr>)
       (zip [0..<length (b_observers b)] (b_observers b)),
     w_next_observer = word_of_nat (length (b_observers b)),
     w_subscribers = [], w_next_subscriber = 0, w_lossless = [], w_next_lossless = 0, w_next_run = 0,
     w_idle_waiters = [], w_env = e\<rparr>"

text \<open>Whatever is called, in any order, on the agent and on the handles that exist.\<close>

inductive agent_step :: "'e world \<Rightarrow> 'e world \<Rightarrow> bool" where
  by_agent: "agent_step w (run_op op w)"
| by_handle: "w_runs w i \<noteq> None \<Longrightarrow> agent_step w (run_handle_op i op w)"

lemma owned_build: "owned (agent_build b e)"
  by (simp add: owned_def agent_build_def agent_state_default_def)

lemma owned_history: "agent_step\<^sup>*\<^sup>* w w' \<Longrightarrow> owned w \<Longrightarrow> owned w'"
  by (induction rule: rtranclp_induct) (auto elim!: agent_step.cases intro: owned_run_op owned_run_handle_op)

subsection \<open>Runs nobody can drive any more\<close>

text \<open>Steps of everybody who does not hold the handle of run \<open>i\<close>.\<close>

inductive step_without :: "run_id \<Rightarrow> 'e world \<Rightarrow> 'e world \<Rightarrow> bool" for i :: run_id where
  "step_without i w (run_op op w)"
| "w_runs w j \<noteq> None \<Longrightarrow> j \<noteq> i \<Longrightarrow> step_without i w (run_handle_op j op w)"

definition stuck :: "run_id \<Rightarrow> 'e world \<Rightarrow> bool" where
  "stuck i w \<longleftrightarrow> owned w \<and> w_active w = Some i \<and> a_phase (w_state w) = Cancelling i \<and>
     r_phase (run_of i w) = RunRunning"

lemma stuck_busy: "stuck i w \<Longrightarrow> when_idle m w = (Inl (ActiveRun i), w)"
  by (simp add: stuck_def when_idle_def)

lemma stuck_frame:
  assumes "stuck i w" and "owned w'" and "w_active w' = w_active w" and "a_phase (w_state w') = a_phase (w_state w)"
    and "w_runs w' = w_runs w"
  shows "stuck i w'"
  using assms by (simp add: stuck_def run_of_def)

lemma stuck_run_op:
  assumes "stuck i w"
  shows "stuck i (run_op op w)"
proof -
  have owned: "owned (run_op op w)" using assms owned_run_op by (auto simp: stuck_def)
  note frame = stuck_frame [OF assms owned]
  have fetched: "when_idle m (snd (fetch_run_id w)) = (Inl (ActiveRun i), snd (fetch_run_id w))" for m :: "('a world, core_error, run_handle) step"
    using assms by (intro stuck_busy) (auto simp: stuck_def fetch_run_id_def run_of_def
        intro!: owned_frame [where w = w])
  show ?thesis
  proof (cases op)
    case OpAbort
    have "stuck i (agent_abort w)"
      using assms owned_agent_abort [of w]
      by (auto simp: stuck_def agent_abort_def Let_def run_of_upd)
    then show ?thesis using OpAbort by simp
  next
    case (OpReplaceAutomaticCompaction p)
    then show ?thesis
      using assms by (auto simp: replace_automatic_compaction_def stuck_busy split: sum.splits)
  qed (use frame fetched in \<open>auto simp: stuck_busy [OF assms] enqueue_steering_def enqueue_follow_up_def reset_def
      restore_messages_def replace_model_provider_def replace_thinking_level_def replace_configuration_def
      start_prompt_def start_run_def start_continue_def start_compaction_def fetch_run_id_def
      subscribe_def unsubscribe_def subscribe_nonblocking_def drop_subscription_def subscribe_lossless_def
      drop_lossless_def poll_wait_for_idle_def Let_def case_prod_beta\<close>)
qed

lemma run_other: "j \<noteq> i \<Longrightarrow> run_of i (upd_cell j f w) = run_of i w" "j \<noteq> i \<Longrightarrow> run_of i (cancel_token j w) = run_of i w"
  by (simp_all add: run_of_def cancel_token_def)

text \<open>The other handles belong to finished runs; all they can still do is set their own token.\<close>

lemma stuck_run_handle_op:
  assumes "stuck i w" and "w_runs w j \<noteq> None" and "j \<noteq> i"
  shows "stuck i (run_handle_op j op w)"
proof -
  have owned: "owned (run_handle_op j op w)" using assms owned_run_handle_op by (auto simp: stuck_def)
  have over: "is_terminal (r_phase (run_of j w))"
    using assms owned_active [of w j] by (auto simp: stuck_def)
  then have "r_phase (run_of j w) \<noteq> Created" by auto
  then have "run_handle_op j op w = w \<or> run_handle_op j op w = cancel_token j w"
    using over by (cases op)
      (auto simp: run_abort_def abort_run_section_def run_drop_def start_turn_def begin_settlement_def
        succeed_def fail_run_def finish_def Let_def run_of_upd)
  then show ?thesis
    using assms owned by (auto simp: stuck_def run_of_upd)
qed

lemma stuck_history: "(step_without i)\<^sup>*\<^sup>* w w' \<Longrightarrow> stuck i w \<Longrightarrow> stuck i w'"
  by (induction rule: rtranclp_induct)
    (auto elim!: step_without.cases intro: stuck_run_op stuck_run_handle_op)

lemma stuck_after_drop:
  assumes "owned w" and "w_active w = Some i" and "r_phase (run_of i w) = RunRunning"
  shows "stuck i (run_drop i w)"
proof -
  have "w_runs w i \<noteq> None" using assms(1,2) by (auto simp: owned_def)
  then have "owned (run_drop i w)" using assms(1) owned_run_drop by blast
  moreover have "run_drop i w = upd_state (\<lambda>s. s\<lparr>a_phase := Cancelling i\<rparr>) (cancel_token i w)"
    using assms(3) by (simp add: run_drop_def run_abort_def abort_run_section_def Let_def run_of_upd)
  ultimately show ?thesis using assms by (simp add: stuck_def run_of_upd)
qed

section \<open>Message identifiers\<close>

text \<open>Every message of the conversation has an ID of its own, below the next one to be handed out.\<close>

definition ids_fresh :: "agent_state \<Rightarrow> bool" where
  "ids_fresh s \<longleftrightarrow> distinct (map message_id (a_messages s)) \<and> (\<forall>m \<in> set (a_messages s). message_id m < a_next_message_id s)"

text \<open>The counter never goes back, and until it is exhausted the IDs stay fresh.\<close>

definition ids_advance :: "agent_state \<Rightarrow> agent_state \<Rightarrow> bool" where
  "ids_advance s s' \<longleftrightarrow> a_next_message_id s \<le> a_next_message_id s' \<and>
     (ids_fresh s \<longrightarrow> a_next_message_id s' < - 1 \<longrightarrow> ids_fresh s')"

lemma ids_advance_refl: "ids_advance s s"
  by (simp add: ids_advance_def)

lemma ids_advance_trans: "ids_advance s t \<Longrightarrow> ids_advance t u \<Longrightarrow> ids_advance s u"
  unfolding ids_advance_def by (meson order_le_less_trans order_trans)

lemma ids_advance_same:
  "a_next_message_id s' = a_next_message_id s \<Longrightarrow> map message_id (a_messages s') = map message_id (a_messages s) \<Longrightarrow>
    ids_advance s s'"
  unfolding ids_advance_def ids_fresh_def by (metis (no_types, lifting) image_iff image_set order_refl)

lemma ids_advance_truncate:
  "a_next_message_id s' = a_next_message_id s \<Longrightarrow> a_messages s' = take n (a_messages s) \<Longrightarrow> ids_advance s s'"
  unfolding ids_advance_def ids_fresh_def
  by (auto simp: take_map [symmetric] distinct_take dest: in_set_takeD)

lemma next_id_less: "a < (- 1 :: u64) \<Longrightarrow> a < sat_add a 1"
  by (rule sat_add_one_less) simp_all

lemma ids_advance_push:
  assumes "message_id m = a_next_message_id s" and "a_messages s' = a_messages s @ [m]"
    and "a_next_message_id s' = sat_add (a_next_message_id s) 1"
  shows "ids_advance s s'"
proof -
  have up: "a_next_message_id s \<le> a_next_message_id s'" using assms(3) sat_add_ge(1) by simp
  have "ids_fresh s'" if "ids_fresh s" "a_next_message_id s' < - 1"
  proof -
    have "a_next_message_id s < a_next_message_id s'" using that(2) up assms(3) next_id_less by (metis order_le_less_trans)
    then show ?thesis using that(1) assms(1,2) by (auto simp: ids_fresh_def intro: less_trans)
  qed
  with up show ?thesis by (simp add: ids_advance_def)
qed

lemma replace_messages_fresh:
  assumes "conversation_ok ms"
  shows "ids_fresh (replace_messages ms s)"
proof -
  have "message_id m < Max (set (map (\<lambda>m. sat_add (message_id m) 1) ms))" if "m \<in> set ms" for m
  proof -
    have "message_id m < - 1" using assms that unfolding conversation_ok_def
      by (metis image_eqI list.set_map word_order.not_eq_extremum)
    then have "message_id m < sat_add (message_id m) 1" by (rule next_id_less)
    also have "\<dots> \<le> Max (set (map (\<lambda>m. sat_add (message_id m) 1) ms))" using that by (intro Max_ge) auto
    finally show ?thesis .
  qed
  then show ?thesis
    using assms by (auto simp: ids_fresh_def replace_messages_def Let_def conversation_ok_def less_max_iff_disj)
qed

lemma ids_advance_replace: "conversation_ok ms \<Longrightarrow> ids_advance s (replace_messages ms s)"
  using replace_messages_fresh by (auto simp: ids_advance_def replace_messages_def Let_def)

lemma start_compaction_idle:
  "is_idle w \<Longrightarrow> w_compactor w = Some c \<Longrightarrow> start_compaction w =
     (Inr \<lparr>h_run = sat_add (w_next_run w) 1, h_initial = [], h_start_index = 0, h_skip_steering = True,
        h_configuration = w_configuration w\<rparr>,
      claim (sat_add (w_next_run w) 1) RunRunning (w\<lparr>w_next_run := w_next_run w + 1\<rparr>))"
  by (simp add: start_compaction_def fetch_run_id_def when_idle_def is_idle_def)

section \<open>Properties\<close>


definition sample_builder :: agent_builder where
  "sample_builder = \<lparr>b_prompt = [], b_model = None, b_thinking = Off, b_host_messages = [],
     b_tools = registry_default, b_provider = None, b_compactor = Some 0, b_compaction = policy_disabled,
     b_projection = projection_default, b_breaker = None, b_hooks = 0, b_observers = [],
     b_steering = OneAtATime, b_follow_up = OneAtATime\<rparr>"


text \<open>Every operation that needs an idle agent is refused on a busy one and changes nothing, except
  that the three that start a run or compaction use up a run number.\<close>

theorem busy_agent_refuses:
  assumes "phase_run (a_phase (w_state w)) = Some i"
  shows "reset w = (Inl (ActiveRun i), w) \<and> restore_messages ms w = (Inl (ActiveRun i), w) \<and>
    replace_model_provider md p w = (Inl (ActiveRun i), w) \<and>
    replace_thinking_level level w = (Inl (ActiveRun i), w) \<and>
    replace_configuration c w = (Inl (ActiveRun i), w) \<and> start_continue w = (Inl (ActiveRun i), w) \<and>
    snd (replace_automatic_compaction policy w) = w \<and>
    start_prompt prompt w = (Inl (ActiveRun i), w\<lparr>w_next_run := w_next_run w + 1\<rparr>) \<and>
    start_compaction w = (Inl (ActiveRun i), w\<lparr>w_next_run := w_next_run w + 1\<rparr>)"
  using assms
  by (simp add: when_idle_def reset_def restore_messages_def replace_model_provider_def
      replace_thinking_level_def replace_configuration_def start_continue_def start_prompt_def start_run_def
      start_compaction_def fetch_run_id_def replace_automatic_compaction_def split: sum.splits)

theorem busy_agent_refuses_witness:
  "fst (reset (run_op (OpStartPrompt ''go'') (agent_build sample_builder ()))) = Inl (ActiveRun 1)"
proof -
  have "phase_run (a_phase (w_state (run_op (OpStartPrompt ''go'') (agent_build sample_builder ())))) = Some 1"
    by (simp add: agent_build_def start_prompt_def start_run_def fetch_run_id_def when_idle_def claim_def
        agent_state_default_def allocate_message_id_def upd_state_def Let_def sat_add_def clear_transient_def
        run_created_def sample_builder_def)
  from busy_agent_refuses [OF this] show ?thesis by simp
qed

text \<open>An abandoned run does leave the agent busy. Dropping the handle of a run that was started but
  not finished (its drive future was dropped, or it is a manual compaction, which counts as running
  from its creation) only marks the agent as cancelling; whatever everybody else then does, the
  agent stays so and refuses every prompt.\<close>

theorem abandoned_run_stays_busy:
  assumes "owned w" and "w_active w = Some i" and "r_phase (run_of i w) = RunRunning"
    and "(step_without i)\<^sup>*\<^sup>* (run_drop i w) w'"
  shows "a_phase (w_state w') = Cancelling i \<and> fst (start_prompt prompt w') = Inl (ActiveRun i)"
proof -
  have "stuck i w'" using stuck_history [OF assms(4)] stuck_after_drop [OF assms(1-3)] by blast
  then show ?thesis by (simp add: stuck_def start_prompt_def start_run_def fetch_run_id_def when_idle_def)
qed

theorem abandoned_run_stays_busy_witness:
  "\<exists>h w. start_compaction (agent_build sample_builder ()) = (Inr h, w) \<and>
     a_phase (w_state (run_op OpAbort (run_drop (h_run h) w))) = Cancelling (h_run h)"
proof -
  let ?built = "agent_build sample_builder ()"
  let ?h = "\<lparr>h_run = 1, h_initial = [], h_start_index = 0, h_skip_steering = True,
      h_configuration = w_configuration ?built\<rparr>"
  let ?w = "claim 1 RunRunning (?built\<lparr>w_next_run := 1\<rparr>)"
  have "is_idle ?built" "w_compactor ?built = Some 0" "w_next_run ?built = 0"
    by (simp_all add: is_idle_def agent_build_def sample_builder_def agent_state_default_def)
  then have start: "start_compaction ?built = (Inr ?h, ?w)"
    using start_compaction_idle [of ?built 0] by (simp add: sat_add_def)
  have "owned (snd (start_compaction ?built))" by (rule owned_start_compaction [OF owned_build])
  then have "owned ?w" by (simp only: start snd_conv)
  moreover have "w_active ?w = Some 1" "r_phase (run_of 1 ?w) = RunRunning"
    by (simp_all add: claim_def run_of_def)
  moreover have "(step_without 1)\<^sup>*\<^sup>* (run_drop 1 ?w) (run_op OpAbort (run_drop 1 ?w))"
    by (intro r_into_rtranclp step_without.intros)
  ultimately have "a_phase (w_state (run_op OpAbort (run_drop 1 ?w))) = Cancelling 1"
    using abandoned_run_stays_busy by blast
  then show ?thesis using start by auto
qed

text \<open>Abort races with the end of a run. When a run finishes on another thread between the two
  critical sections of a handle's abort, the abort marks the idle agent as cancelling; no run is
  active any more, so nothing settles it and the agent's own abort does nothing.\<close>

theorem abort_race_leaves_busy:
  assumes "w_runs w i \<noteq> None" and "r_phase (run_of i w) = RunRunning"
    and "abort_run_section i w = (plan, w1)" and "finish i Succeeded Stop None w1 = (r, w2)"
  shows "r = Inr () \<and> w_active (abort_agent_section i plan w2) = None \<and>
    a_phase (w_state (abort_agent_section i plan w2)) = Cancelling i \<and>
    agent_abort (abort_agent_section i plan w2) = abort_agent_section i plan w2"
proof -
  have w1: "plan = MarkCancelling" "w1 = cancel_token i w"
    using assms(2,3) by (auto simp: abort_run_section_def Let_def run_of_upd)
  have w2: "r = Inr ()" "w_active w2 = None"
    using assms(2,4) by (auto simp: w1 finish_def run_of_upd settle_agent_def notify_idle_def)
  then have "w_active (abort_agent_section i plan w2) = None" by (simp add: w1)
  with w2 show ?thesis by (simp add: w1 agent_abort_def)
qed

theorem abort_race_leaves_busy_witness:
  "\<exists>(w :: unit world) plan w1 r w2. owned w \<and> abort_run_section 1 w = (plan, w1) \<and> finish 1 Succeeded Stop None w1 = (r, w2) \<and>
     \<not> is_idle (abort_agent_section 1 plan w2) \<and> w_active (abort_agent_section 1 plan w2) = None"
proof -
  let ?w = "claim 1 RunRunning (agent_build sample_builder ())"
  have "owned ?w" by (rule owned_claim [OF owned_build]) (simp_all add: agent_build_def)
  moreover obtain plan w1 where a: "abort_run_section 1 ?w = (plan, w1)" by fastforce
  moreover obtain r w2 where f: "finish 1 Succeeded Stop None w1 = (r, w2)" by fastforce
  moreover have race: "w_active (abort_agent_section 1 plan w2) = None \<and>
      a_phase (w_state (abort_agent_section 1 plan w2)) = Cancelling 1"
    using abort_race_leaves_busy [OF _ _ a f] by (simp add: claim_def run_of_def)
  then have "\<not> is_idle (abort_agent_section 1 plan w2)" by (simp add: is_idle_def)
  ultimately show ?thesis using race by blast
qed

end
