(* ===== verification/Host.thy ===== *)
theory Host
  imports Agent
begin

text \<open>
  The boundary between a driven run and the host. Observers, hooks, providers, compactors and tools are
  host code, so they are parameters: functions of a record, from the host's own state to a result, the
  calls the host makes on the agent while the run awaits it, and its new state. At an await the host may
  use the agent's whole interface and abort the run; the other methods of a handle (\<open>start_turn\<close>,
  \<open>begin_settlement\<close>, \<open>succeed\<close>, \<open>fail\<close>) are for hosts that settle a run themselves and are not used
  on a driven one. Diagnostics are formatted by \<open>Display\<close> code, which is the parameter \<open>display\<close>.
\<close>

section \<open>What is exchanged\<close>

type_synonym hook_error = "string \<times> string"

datatype before_tool_call = Allow | Block string | Terminate string

datatype 'a replacement = Keep | Replace 'a

record after_tool_call =
  at_content :: "string replacement"
  at_details :: "serialized_json option replacement"
  at_is_error :: "bool replacement"
  at_failure :: "tool_failure option replacement"
  at_usage :: "usage replacement"
  at_added_tool_names :: "string list replacement"
  at_terminate :: "bool option"

record context_envelope =
  cx_version :: nat
  cx_messages :: "agent_message list"
  cx_host_messages :: "serialized_json list"

record turn_update =
  tu_context :: "context_envelope option"
  tu_model :: "model_descriptor option"
  tu_thinking :: "thinking_level option"

record model_request =
  mr_prompt :: string
  mr_context :: string
  mr_tools :: "tool list"
  mr_model :: "model_descriptor option"
  mr_thinking :: thinking_level

datatype stream_event =
  TextDelta string
| ToolCallEvent agent_tool_call
| UsageEvent usage
| StreamError string
| ContextOverflow string
| StreamAborted string
| StreamEnd stop_reason

record provider_context =
  pc_prompt :: string
  pc_context :: string
  pc_active :: "string option"
  pc_tools :: "tool list"

record compaction_context =
  cc_version :: nat
  cc_prompt :: string
  cc_model :: "model_descriptor option"
  cc_messages :: "agent_message list"
  cc_host_messages :: "serialized_json list"
  cc_provider :: "provider_context option"

record compaction_request =
  cq_reason :: compaction_reason
  cq_estimated :: "nat option"
  cq_budget :: u64
  cq_reserved :: u64
  cq_recent :: u64
  cq_prefix :: "agent_message list"
  cq_retained :: "agent_message list"
  cq_turn :: "agent_message list"
  cq_retry :: bool

record compaction_result =
  cr_messages :: "agent_message list"
  cr_usage :: "usage option"

datatype tool_error =
  ToolInvalidArguments string string
| ToolBlocked string string
| ToolExecution string string
| ToolClassified string string tool_failure
| ToolCancelled string

datatype host_call = AgentCall agent_op | AbortRun

type_synonym ('e, 'a) reply = "'e \<Rightarrow> 'a \<times> host_call list \<times> 'e"

text \<open>
  A pending tool is known by its slot, the index of its call in the batch. Polling it, starting it and
  waiting between polls may bring updates of any slot, since callbacks may come from other threads.
\<close>

type_synonym pushes = "(nat \<times> tool_update) list"

record 'e host =
  display :: "core_error \<Rightarrow> string"
  validate_arguments :: "tool \<Rightarrow> tool_call \<Rightarrow> tool_error + unit"
  observe :: "capability \<Rightarrow> agent_event \<Rightarrow> bool \<Rightarrow> ('e, core_error + unit) reply"
  before_tool :: "capability \<Rightarrow> tool_call \<Rightarrow> context_envelope \<Rightarrow> bool \<Rightarrow> ('e, hook_error + before_tool_call) reply"
  after_tool :: "capability \<Rightarrow> tool_call \<Rightarrow> agent_tool_result \<Rightarrow> context_envelope \<Rightarrow> bool \<Rightarrow>
    ('e, hook_error + after_tool_call) reply"
  transform_context :: "capability \<Rightarrow> context_envelope \<Rightarrow> bool \<Rightarrow> ('e, hook_error + context_envelope) reply"
  convert_to_llm :: "capability \<Rightarrow> context_envelope \<Rightarrow> bool \<Rightarrow> ('e, hook_error + string) reply"
  should_stop :: "capability \<Rightarrow> context_envelope \<Rightarrow> bool \<Rightarrow> ('e, hook_error + bool) reply"
  prepare_next :: "capability \<Rightarrow> context_envelope \<Rightarrow> bool \<Rightarrow> ('e, hook_error + turn_update) reply"
  stream :: "capability \<Rightarrow> model_request \<Rightarrow> bool \<Rightarrow> ('e, string + unit) reply"
  next_event :: "capability \<Rightarrow> bool \<Rightarrow> ('e, string + stream_event option) reply"
  compact :: "capability \<Rightarrow> compaction_context \<Rightarrow> bool \<Rightarrow> ('e, compaction_error + compaction_result) reply"
  compact_automatic :: "capability \<Rightarrow> compaction_context \<Rightarrow> compaction_request \<Rightarrow> bool \<Rightarrow>
    ('e, compaction_error + compaction_result) reply"
  tool_start :: "capability \<Rightarrow> nat \<Rightarrow> tool_call \<Rightarrow> bool \<Rightarrow> ('e, pushes) reply"
  tool_poll :: "nat \<Rightarrow> tool_call \<Rightarrow> bool \<Rightarrow> ('e, (tool_error + agent_tool_result) option \<times> pushes) reply"
  tool_wait :: "('e, pushes) reply"

section \<open>Steps of a driven run\<close>

text \<open>
  A step of the drive future ends with a value, an error of the core, a panic of the code (an \<open>expect\<close>
  that fails), or does not end within the fuel given to its loops.
\<close>

datatype failure_kind = Raise core_error | Panic | OutOfFuel

type_synonym ('e, 'a) run_step = "('e world, failure_kind, 'a) step"

definition liftS :: "('e world, core_error, 'a) step \<Rightarrow> ('e, 'a) run_step" where
  "liftS m = bindS m retS Raise"

fun run_host_call :: "run_id \<Rightarrow> host_call \<Rightarrow> 'e world \<Rightarrow> 'e world" where
  "run_host_call i (AgentCall op) w = run_op op w"
| "run_host_call i AbortRun w = run_abort i w"

definition await :: "run_id \<Rightarrow> ('e, 'a) reply \<Rightarrow> ('e, 'a) run_step" where
  "await i f = (\<lambda>w. let (r, calls, e) = f (w_env w) in (Inr r, fold (run_host_call i) calls (w\<lparr>w_env := e\<rparr>)))"

definition await_hook :: "run_id \<Rightarrow> (bool \<Rightarrow> ('e, hook_error + 'a) reply) \<Rightarrow> ('e, hook_error + 'a) run_step" where
  "await_hook i f = bindE (getS (is_cancelled i)) (\<lambda>c. await i (f c))"

text \<open>The \<open>?\<close> on a hook's result.\<close>

fun hook_ok :: "hook_error + 'a \<Rightarrow> ('e, 'a) run_step" where
  "hook_ok (Inl (hook, message)) = failS (Raise (HookFailed hook message))"
| "hook_ok (Inr x) = retS x"

subsection \<open>Delivering events\<close>

definition record_event :: "run_id \<Rightarrow> event_kind \<Rightarrow> 'e world \<Rightarrow> agent_event \<times> 'e world" where
  "record_event i kind w =
     (let r = run_of i w; count = sat_add (r_event_count r) 1;
          ev = \<lparr>ev_run = r_id r, ev_sequence = count, ev_kind = kind\<rparr>
      in (ev, upd_run i (\<lambda>r. r\<lparr>r_event_count := count, r_events := r_events r @ [ev]\<rparr>) w))"

definition send_all :: "agent_event \<Rightarrow> subscriber list \<Rightarrow> subscriber list" where
  "send_all ev subs = map (\<lambda>s. s\<lparr>sub_queue := sub_queue s @ [ev]\<rparr>) (filter sub_connected subs)"

definition try_send :: "agent_event \<Rightarrow> subscriber \<Rightarrow> subscriber" where
  "try_send ev s =
     (if (case sub_capacity s of Some n \<Rightarrow> length (sub_queue s) < n | None \<Rightarrow> True)
      then s\<lparr>sub_queue := sub_queue s @ [ev]\<rparr>
      else s\<lparr>sub_dropped := sub_dropped s + 1\<rparr>)"

definition try_send_all :: "agent_event \<Rightarrow> subscriber list \<Rightarrow> subscriber list" where
  "try_send_all ev subs = map (try_send ev) (filter sub_connected subs)"

definition notify_observer :: "'e host \<Rightarrow> run_id \<Rightarrow> agent_event \<Rightarrow> observer_registration \<Rightarrow> ('e, unit) run_step" where
  "notify_observer h i ev reg =
     bindE (getS (is_cancelled i)) (\<lambda>c.
     bindE (await i (observe h (ob_capability reg) ev c)) (\<lambda>r.
     case r of Inl e \<Rightarrow> failS (Raise e) | Inr _ \<Rightarrow> retS ()))"

definition deliver :: "'e host \<Rightarrow> run_id \<Rightarrow> agent_event \<Rightarrow> ('e, unit) run_step" where
  "deliver h i ev =
     thenE (modS (\<lambda>w. w\<lparr>w_lossless := send_all ev (w_lossless w)\<rparr>))
     (bindE (getS w_observers) (\<lambda>observers.
      thenE (forE observers (notify_observer h i ev))
       (modS (\<lambda>w. w\<lparr>w_subscribers := try_send_all ev (w_subscribers w)\<rparr>))))"

definition emit :: "'e host \<Rightarrow> run_id \<Rightarrow> event_kind \<Rightarrow> ('e, unit) run_step" where
  "emit h i kind = (\<lambda>w. let (ev, w) = record_event i kind w in deliver h i ev w)"

end
