(* ===== verification/Tool_Exec.thy ===== *)
theory Tool_Exec
  imports Host
begin

text \<open>
  One batch of tool calls of a run (\<open>run/tool_execution.rs\<close> and the polling steps of \<open>run/mod.rs\<close>):
  preparation, sequential and parallel execution, delivery of updates, recording of results, and the
  observation of failures by the circuit breaker. A wait that the host may prolong for ever is a loop
  with fuel.
\<close>

section \<open>Results\<close>

definition error_tool_result :: "tool_call \<Rightarrow> string \<Rightarrow> agent_tool_result" where
  "error_tool_result call text = \<lparr>tool_call_id = tc_id call, content = text, details = None, result_usage = None,
     added_tool_names = [], terminate = False, is_error = True, failure = Some tf_recoverable\<rparr>"

fun tool_error_message :: "tool_error \<Rightarrow> string" where
  "tool_error_message (ToolInvalidArguments t message) = message"
| "tool_error_message (ToolExecution t message) = message"
| "tool_error_message (ToolClassified t message f) = message"
| "tool_error_message (ToolBlocked t reason) = reason"
| "tool_error_message (ToolCancelled t) = ''Operation aborted''"

fun tool_error_failure :: "tool_error \<Rightarrow> tool_failure" where
  "tool_error_failure (ToolInvalidArguments t message) = tf_invalid_arguments"
| "tool_error_failure (ToolClassified t message f) = f"
| "tool_error_failure (ToolCancelled t) = tf_cancelled"
| "tool_error_failure (ToolBlocked t reason) = tf_recoverable"
| "tool_error_failure (ToolExecution t message) = tf_recoverable"

definition error_tool_result_from_error :: "tool_call \<Rightarrow> tool_error \<Rightarrow> agent_tool_result" where
  "error_tool_result_from_error call e =
     (error_tool_result call (tool_error_message e))\<lparr>failure := Some (tool_error_failure e)\<rparr>"

definition aborted_result :: "tool_call \<Rightarrow> agent_tool_result" where
  "aborted_result call = (error_tool_result call ''Operation aborted'')\<lparr>failure := Some tf_cancelled\<rparr>"

fun replaced :: "'a replacement \<Rightarrow> 'a \<Rightarrow> 'a" where
  "replaced Keep x = x"
| "replaced (Replace y) x = y"

definition apply_after_tool_call :: "agent_tool_result \<Rightarrow> after_tool_call \<Rightarrow> agent_tool_result" where
  "apply_after_tool_call r a =
     (let r = r\<lparr>content := replaced (at_content a) (content r)\<rparr>;
          r = r\<lparr>details := replaced (at_details a) (details r)\<rparr>;
          r = (case at_usage a of Replace u \<Rightarrow> r\<lparr>result_usage := Some u\<rparr> | Keep \<Rightarrow> r);
          r = r\<lparr>added_tool_names := replaced (at_added_tool_names a) (added_tool_names r)\<rparr>;
          r = (case at_terminate a of Some b \<Rightarrow> r\<lparr>terminate := b\<rparr> | None \<Rightarrow> r);
          r = (case at_is_error a of
                 Replace b \<Rightarrow> (let r = r\<lparr>is_error := b\<rparr> in if b then r else r\<lparr>failure := None\<rparr>)
               | Keep \<Rightarrow> r)
      in r\<lparr>failure := replaced (at_failure a) (failure r)\<rparr>)"

definition normalize_result_failure :: "agent_tool_result \<Rightarrow> agent_tool_result" where
  "normalize_result_failure r =
     (let r = (if is_error r \<and> failure r = None then r\<lparr>failure := Some tf_recoverable\<rparr> else r)
      in if \<not> is_error r then r\<lparr>failure := None\<rparr> else r)"

section \<open>Updates\<close>

record pending_updates =
  pu_updates :: "(tool_call_id \<times> string \<times> tool_update) list"
  pu_closed :: "tool_call_id set"

definition updates_default :: pending_updates where
  "updates_default = \<lparr>pu_updates = [], pu_closed = {}\<rparr>"

definition updates_push :: "tool_call \<Rightarrow> tool_update \<Rightarrow> pending_updates \<Rightarrow> pending_updates" where
  "updates_push call u p =
     (if tc_id call \<in> pu_closed p then p
      else p\<lparr>pu_updates := pu_updates p @ [(tc_id call, tc_name call, u)]\<rparr>)"

definition updates_close :: "tool_call_id \<Rightarrow> pending_updates \<Rightarrow> pending_updates" where
  "updates_close i p = p\<lparr>pu_closed := insert i (pu_closed p)\<rparr>"

definition updates_take :: "pending_updates \<Rightarrow> pending_updates" where
  "updates_take p = p\<lparr>pu_updates := []\<rparr>"

text \<open>Callbacks of the batch's tools; a slot without a started tool has no callback.\<close>

definition push_all :: "(nat \<rightharpoonup> tool_call) \<Rightarrow> pushes \<Rightarrow> pending_updates \<Rightarrow> pending_updates" where
  "push_all slots us p = fold (\<lambda>(k, u) p. case slots k of Some call \<Rightarrow> updates_push call u p | None \<Rightarrow> p) us p"

definition emit_tool_updates ::
  "'e host \<Rightarrow> run_id \<Rightarrow> (tool_call_id \<times> string \<times> tool_update) list \<Rightarrow> ('e, unit) run_step" where
  "emit_tool_updates h i us = forE us (\<lambda>(call_id, name, u). emit h i (ToolExecutionUpdate call_id name u))"

text \<open>\<open>flush_tool_updates\<close>: the host may call back while updates are delivered, so it loops until none is left.
  Callbacks arrive through \<open>tool_wait\<close>, which the host answers at each delivery.\<close>

definition emit_tool_execution_end :: "'e host \<Rightarrow> run_id \<Rightarrow> tool_call \<Rightarrow> agent_tool_result \<Rightarrow> ('e, unit) run_step"
  where
  "emit_tool_execution_end h i call r =
     thenE (modS (upd_state (\<lambda>s. s\<lparr>a_pending := a_pending s - {tc_id call}\<rparr>)))
       (emit h i (ToolExecutionEnd (tc_id call) (tc_name call) r))"

text \<open>Allocating an ID, and pushing the message made with it, in one critical section.\<close>

definition push_new :: "(agent_state \<Rightarrow> agent_state) \<Rightarrow> (message_id \<Rightarrow> agent_message) \<Rightarrow> ('e, agent_message) run_step"
  where
  "push_new f mk = (\<lambda>w.
     let (k, s) = allocate_message_id (w_state w); m = mk k
     in (Inr m, w\<lparr>w_state := push_message m (f s)\<rparr>))"

definition append_message :: "'e host \<Rightarrow> run_id \<Rightarrow> (message_id \<Rightarrow> agent_message) \<Rightarrow> ('e, unit) run_step" where
  "append_message h i mk =
     bindE (push_new (\<lambda>s. s) mk) (\<lambda>m. thenE (emit h i (MessageStart m)) (emit h i (MessageEnd m)))"

definition append_tool_result_message :: "'e host \<Rightarrow> run_id \<Rightarrow> tool_call \<Rightarrow> agent_tool_result \<Rightarrow> ('e, unit) run_step"
  where
  "append_tool_result_message h i call r =
     append_message h i (\<lambda>k. ToolResultMessage k (tc_name call) (r\<lparr>tool_call_id := tc_id call\<rparr>))"

text \<open>Callbacks that came in while the run was awaiting something.\<close>

definition gather :: "'e host \<Rightarrow> run_id \<Rightarrow> (nat \<rightharpoonup> tool_call) \<Rightarrow> pending_updates \<Rightarrow> ('e, pending_updates) run_step" where
  "gather h i slots p = bindE (await i (tool_wait h)) (\<lambda>us. retS (push_all slots us p))"

fun flush_tool_updates ::
  "'e host \<Rightarrow> run_id \<Rightarrow> (nat \<rightharpoonup> tool_call) \<Rightarrow> nat \<Rightarrow> pending_updates \<Rightarrow> ('e, pending_updates) run_step" where
  "flush_tool_updates h i slots 0 p = failS OutOfFuel"
| "flush_tool_updates h i slots (Suc fuel) p =
     (if pu_updates p = [] then retS p
      else thenE (emit_tool_updates h i (pu_updates p))
        (bindE (gather h i slots (updates_take p)) (flush_tool_updates h i slots fuel)))"

section \<open>Preparing and finalizing a call\<close>

definition current_context :: "('e, context_envelope) run_step" where
  "current_context = (\<lambda>w.
     if phase_run (a_phase (w_state w)) = None
     then (Inl (Raise (InvalidTransition ''agent'' ''not-running'' ''current_context'')), w)
     else (Inr \<lparr>cx_version = 1, cx_messages = a_messages (w_state w),
                cx_host_messages = a_host_messages (w_state w)\<rparr>, w))"

datatype prepared_call = Immediate agent_tool_result bool | Execute tool

definition prepare_tool_call ::
  "'e host \<Rightarrow> run_id \<Rightarrow> agent_configuration \<Rightarrow> tool_call \<Rightarrow> ('e, prepared_call) run_step" where
  "prepare_tool_call h i cf call =
     (case registry_get (cf_tools cf) (tc_name call) of
        None \<Rightarrow> retS (Immediate (error_tool_result call (''Tool '' @ tc_name call @ '' not found'')) False)
      | Some td \<Rightarrow>
          case validate_arguments h td call of
            Inl e \<Rightarrow> retS (Immediate (error_tool_result_from_error call e) False)
          | Inr _ \<Rightarrow>
              bindE current_context (\<lambda>cx.
              bindE (await_hook i (before_tool h (cf_hooks cf) call cx)) (\<lambda>decision.
              case decision of
                Inl (hook, message) \<Rightarrow> retS (Immediate (error_tool_result call message) False)
              | Inr (Block reason) \<Rightarrow> retS (Immediate (error_tool_result call reason) False)
              | Inr (Terminate reason) \<Rightarrow> retS (Immediate (error_tool_result call reason) True)
              | Inr Allow \<Rightarrow>
                  bindE (getS (is_cancelled i)) (\<lambda>c.
                  if c then retS (Immediate (aborted_result call) False) else retS (Execute td)))))"

definition finalize_executed_tool ::
  "'e host \<Rightarrow> run_id \<Rightarrow> agent_configuration \<Rightarrow> tool_call \<Rightarrow> tool_error + agent_tool_result \<Rightarrow>
    ('e, agent_tool_result \<times> bool) run_step" where
  "finalize_executed_tool h i cf call execution =
     (let r = (case execution of
                 Inr r \<Rightarrow> if tool_call_id r = tc_id call then r
                          else error_tool_result call (''Tool '' @ tc_name call @
                                 '' returned mismatched tool-call ID '' @ tool_call_id r)
               | Inl e \<Rightarrow> error_tool_result_from_error call e)
      in bindE current_context (\<lambda>cx.
         bindE (await_hook i (after_tool h (cf_hooks cf) call r cx)) (\<lambda>after.
         case after of
           Inr a \<Rightarrow> (let r = apply_after_tool_call r a in retS (r, terminate r))
         | Inl (hook, message) \<Rightarrow> retS (error_tool_result call message, False))))"

section \<open>The circuit breaker\<close>

definition failure_message :: "tool_failure \<Rightarrow> agent_tool_result \<Rightarrow> string" where
  "failure_message f r = truncate_middle (case recovery_guidance f of Some g \<Rightarrow> g | None \<Rightarrow> content r) 1024"

text \<open>The new streak, the consecutive count and whether the failure ends the run.\<close>

definition failure_step ::
  "u32 option \<Rightarrow> tool_failure \<Rightarrow> (failure_signature \<times> u32) option \<Rightarrow> (failure_signature \<times> u32) option \<times> u32 \<times> bool"
  where
  "failure_step limit f streak =
     (case (disposition f, signature f) of
        (Retryable, Some sg) \<Rightarrow>
          (let count = (case streak of
                 Some (previous, n) \<Rightarrow> if previous = sg then sat_add n 1 else 1
               | None \<Rightarrow> 1)
           in (Some (sg, count), count, (case limit of Some l \<Rightarrow> l \<le> count | None \<Rightarrow> False)))
      | (Fatal, Some sg) \<Rightarrow> (Some (sg, 1), 1, True)
      | _ \<Rightarrow> (None, 0, False))"

definition observe_tool_failure ::
  "'e host \<Rightarrow> run_id \<Rightarrow> tool_call \<Rightarrow> agent_tool_result \<Rightarrow> ('e, string option) run_step" where
  "observe_tool_failure h i call r =
     bindE (getS (is_cancelled i)) (\<lambda>c.
     if c then retS None
     else if \<not> is_error r then thenE (modS (upd_policy i (\<lambda>p. p\<lparr>failure_streak := None\<rparr>))) (retS None)
     else
       let f = (case failure r of Some f \<Rightarrow> f | None \<Rightarrow> tf_recoverable)
       in bindE (getS w_breaker) (\<lambda>limit.
          bindE (getS (policy_of i)) (\<lambda>policy.
          let (streak, count, terminal) = failure_step limit f (failure_streak policy);
              observed = (disposition f \<in> {Retryable, Fatal} \<or> limit \<noteq> None);
              message = failure_message f r;
              outcome = (if terminal then Some message else None)
          in thenE (modS (upd_policy i (\<lambda>p. p\<lparr>failure_streak := streak\<rparr>)))
             (if \<not> observed then retS outcome
              else thenE (emit h i (ToolFailureObserved (tc_id call) (disposition f) (signature f) count terminal message))
                (retS outcome)))))"

section \<open>Sequential execution\<close>

datatype tool_step =
  StepUpdates "(tool_call_id \<times> string \<times> tool_update) list"
| StepCompleted "tool_error + agent_tool_result" "(tool_call_id \<times> string \<times> tool_update) list"

definition poll_tool ::
  "'e host \<Rightarrow> run_id \<Rightarrow> (nat \<rightharpoonup> tool_call) \<Rightarrow> nat \<Rightarrow> tool_call \<Rightarrow> pending_updates \<Rightarrow>
    ('e, (tool_error + agent_tool_result) option \<times> pending_updates) run_step" where
  "poll_tool h i slots slot call p =
     bindE (getS (is_cancelled i)) (\<lambda>c.
     bindE (await i (tool_poll h slot call c)) (\<lambda>(result, us). retS (result, push_all slots us p)))"

definition cancelled_operation :: "tool_error + agent_tool_result" where
  "cancelled_operation = Inl (ToolCancelled ''cancelled operation'')"

text \<open>
  Each round is one poll of the code's \<open>poll_fn\<close>; between rounds it is pending until a waker fires. The
  code reads the queue and the flag a second time after it has registered its wakers; without a step
  in between, the second reading is the first.
\<close>

fun next_tool_step ::
  "'e host \<Rightarrow> run_id \<Rightarrow> (nat \<rightharpoonup> tool_call) \<Rightarrow> nat \<Rightarrow> tool_call \<Rightarrow> bool \<Rightarrow> nat \<Rightarrow> pending_updates \<Rightarrow>
    ('e, tool_step \<times> pending_updates) run_step" where
  "next_tool_step h i slots slot call allow 0 p = failS OutOfFuel"
| "next_tool_step h i slots slot call allow (Suc fuel) p =
     bindE (getS (is_cancelled i)) (\<lambda>c.
     if c \<and> \<not> allow
     then retS (StepCompleted cancelled_operation (pu_updates p), updates_take (updates_close (tc_id call) p))
     else if pu_updates p \<noteq> [] then retS (StepUpdates (pu_updates p), updates_take p)
     else bindE (poll_tool h i slots slot call p) (\<lambda>(result, p).
       case result of
         Some r \<Rightarrow> retS (StepCompleted r (pu_updates p), updates_take (updates_close (tc_id call) p))
       | None \<Rightarrow>
           if pu_updates p \<noteq> [] then retS (StepUpdates (pu_updates p), updates_take p)
           else bindE (getS (is_cancelled i)) (\<lambda>c.
             if c then retS (StepCompleted cancelled_operation [], updates_close (tc_id call) p)
             else bindE (gather h i slots p) (next_tool_step h i slots slot call allow fuel))))"

fun tool_loop ::
  "'e host \<Rightarrow> run_id \<Rightarrow> (nat \<rightharpoonup> tool_call) \<Rightarrow> nat \<Rightarrow> tool_call \<Rightarrow> nat \<Rightarrow> nat \<Rightarrow> bool \<Rightarrow> pending_updates \<Rightarrow>
    ('e, (tool_error + agent_tool_result) \<times> pending_updates) run_step" where
  "tool_loop h i slots slot call polls 0 allow p = failS OutOfFuel"
| "tool_loop h i slots slot call polls (Suc fuel) allow p =
     bindE (next_tool_step h i slots slot call allow polls p) (\<lambda>(st, p).
     case st of
       StepUpdates us \<Rightarrow>
         thenE (emit_tool_updates h i us)
           (bindE (gather h i slots p) (\<lambda>p.
            bindE (getS (is_cancelled i)) (\<lambda>c. tool_loop h i slots slot call polls fuel c p)))
     | StepCompleted r us \<Rightarrow>
         thenE (emit_tool_updates h i us) (bindE (gather h i slots p) (\<lambda>p. retS (r, p))))"

definition execute_one_tool_call ::
  "'e host \<Rightarrow> run_id \<Rightarrow> agent_configuration \<Rightarrow> nat \<Rightarrow> nat \<Rightarrow> tool_call \<Rightarrow> ('e, agent_tool_result \<times> bool) run_step"
  where
  "execute_one_tool_call h i cf fuel slot call =
     bindE (prepare_tool_call h i cf call) (\<lambda>prepared.
     case prepared of
       Immediate r t \<Rightarrow> retS (r, t)
     | Execute td \<Rightarrow>
         let slots = [slot \<mapsto> call]
         in bindE (getS (is_cancelled i)) (\<lambda>c.
            bindE (await i (tool_start h (tool_capability td) slot call c)) (\<lambda>us.
            let p = push_all slots us updates_default
            in bindE (getS (is_cancelled i)) (\<lambda>c.
               bindE (tool_loop h i slots slot call fuel fuel (c \<and> pu_updates p \<noteq> []) p) (\<lambda>(execution, p).
               thenE (flush_tool_updates h i slots fuel p)
                 (finalize_executed_tool h i cf call execution))))))"

definition announce_call :: "'e host \<Rightarrow> run_id \<Rightarrow> tool_call \<Rightarrow> ('e, unit) run_step" where
  "announce_call h i call =
     thenE (modS (upd_state (\<lambda>s. s\<lparr>a_pending := insert (tc_id call) (a_pending s)\<rparr>)))
       (emit h i (ToolExecutionStart (tc_id call) (tc_name call) (tc_arguments call)))"

definition append_skipped_sequential_calls ::
  "'e host \<Rightarrow> run_id \<Rightarrow> tool_call list \<Rightarrow> string \<Rightarrow> ('e, unit) run_step" where
  "append_skipped_sequential_calls h i calls terminal_message =
     forE calls (\<lambda>call. append_tool_result_message h i call
       (error_tool_result call (''Tool call was not executed after terminal capability failure: '' @
          truncate_middle terminal_message 512)))"

text \<open>The outcome of a batch: whether every call asked to terminate, and a failure that ends the run.\<close>

type_synonym batch_outcome = "bool \<times> string option"

fun execute_sequential ::
  "'e host \<Rightarrow> run_id \<Rightarrow> agent_configuration \<Rightarrow> nat \<Rightarrow> nat \<Rightarrow> tool_call list \<Rightarrow> bool \<Rightarrow> ('e, batch_outcome) run_step"
  where
  "execute_sequential h i cf fuel slot [] all_terminate = retS (all_terminate, None)"
| "execute_sequential h i cf fuel slot (call # calls) all_terminate =
     thenE (announce_call h i call)
       (bindE (execute_one_tool_call h i cf fuel slot call) (\<lambda>(r, t).
        let r = normalize_result_failure r
        in thenE (emit_tool_execution_end h i call r)
           (thenE (append_tool_result_message h i call r)
             (bindE (observe_tool_failure h i call r) (\<lambda>observed.
              case observed of
                Some m \<Rightarrow> thenE (append_skipped_sequential_calls h i calls m) (retS (False, Some m))
              | None \<Rightarrow> execute_sequential h i cf fuel (Suc slot) calls (all_terminate \<and> t))))))"

section \<open>Parallel execution\<close>

text \<open>
  The futures still to be awaited, each with its slot (the \<open>source_index\<close>) and its call; the completions
  by slot; and the IDs that may be polled once more after a cancellation.
\<close>

type_synonym pending_tools = "(nat \<times> tool_call) list"
type_synonym completions = "nat \<rightharpoonup> agent_tool_result \<times> bool"

datatype parallel_step =
  ParCancelled "(tool_call_id \<times> string \<times> tool_update) list"
| ParUpdates "(tool_call_id \<times> string \<times> tool_update) list"
| ParCompleted nat tool_call "tool_error + agent_tool_result" "(tool_call_id \<times> string \<times> tool_update) list"

text \<open>\<open>Vec::swap_remove\<close>: the last element takes the place of the removed one.\<close>

definition swap_remove :: "nat \<Rightarrow> 'a list \<Rightarrow> 'a list" where
  "swap_remove k xs = (if Suc k = length xs then butlast xs else (butlast xs)[k := last xs])"

record parallel_state =
  ps_pending :: pending_tools
  ps_allowed :: "tool_call_id set"
  ps_updates :: pending_updates
  ps_completions :: completions

definition ps_push :: "(nat \<rightharpoonup> tool_call) \<Rightarrow> pushes \<Rightarrow> parallel_state \<Rightarrow> parallel_state" where
  "ps_push slots us s = s\<lparr>ps_updates := push_all slots us (ps_updates s)\<rparr>"

definition take_updates :: "parallel_state \<Rightarrow> (tool_call_id \<times> string \<times> tool_update) list \<times> parallel_state" where
  "take_updates s = (pu_updates (ps_updates s), s\<lparr>ps_updates := updates_take (ps_updates s)\<rparr>)"

definition ps_close :: "tool_call_id \<Rightarrow> parallel_state \<Rightarrow> parallel_state" where
  "ps_close i s = s\<lparr>ps_updates := updates_close i (ps_updates s)\<rparr>"

definition complete :: "nat \<Rightarrow> agent_tool_result \<Rightarrow> bool \<Rightarrow> parallel_state \<Rightarrow> parallel_state" where
  "complete k r t s = s\<lparr>ps_completions := (ps_completions s)(k \<mapsto> (r, t))\<rparr>"

text \<open>The \<open>while index < pending.len()\<close> loop of \<open>next_parallel_step\<close>: \<open>rest\<close> is \<open>pending[index..]\<close>.\<close>

fun poll_from ::
  "'e host \<Rightarrow> run_id \<Rightarrow> (nat \<rightharpoonup> tool_call) \<Rightarrow> nat \<Rightarrow> pending_tools \<Rightarrow> parallel_state \<Rightarrow>
    ('e, parallel_step option \<times> parallel_state) run_step" where
  "poll_from h i slots index [] s =
     bindE (getS (is_cancelled i)) (\<lambda>c.
     let (us, s) = take_updates s
     in retS (if c then Some (ParCancelled us) else if us \<noteq> [] then Some (ParUpdates us) else None, s))"
| "poll_from h i slots index ((slot, call) # rest) s =
     bindE (getS (is_cancelled i)) (\<lambda>c.
     let skip = (c \<and> tc_id call \<notin> ps_allowed s);
         s = (if c then s\<lparr>ps_allowed := ps_allowed s - {tc_id call}\<rparr> else s)
     in if skip then poll_from h i slots (Suc index) rest s
        else bindE (await i (tool_poll h slot call c)) (\<lambda>(result, us).
          let s = ps_push slots us s
          in case result of
               Some r \<Rightarrow>
                 let (us, s) = take_updates (ps_close (tc_id call)
                       (s\<lparr>ps_pending := swap_remove index (ps_pending s)\<rparr>))
                 in retS (Some (ParCompleted slot call r us), s)
             | None \<Rightarrow>
                 if pu_updates (ps_updates s) \<noteq> []
                 then let (us, s) = take_updates s in retS (Some (ParUpdates us), s)
                 else poll_from h i slots (Suc index) rest s))"

definition poll_parallel ::
  "'e host \<Rightarrow> run_id \<Rightarrow> (nat \<rightharpoonup> tool_call) \<Rightarrow> parallel_state \<Rightarrow> ('e, parallel_step option \<times> parallel_state) run_step"
  where
  "poll_parallel h i slots s =
     (if pu_updates (ps_updates s) \<noteq> []
      then let (us, s) = take_updates s in retS (Some (ParUpdates us), s)
      else bindE (getS (is_cancelled i)) (\<lambda>c.
        if c \<and> ps_allowed s = {} then retS (Some (ParCancelled []), s)
        else poll_from h i slots 0 (ps_pending s) s))"

definition ps_gather ::
  "'e host \<Rightarrow> run_id \<Rightarrow> (nat \<rightharpoonup> tool_call) \<Rightarrow> parallel_state \<Rightarrow> ('e, parallel_state) run_step" where
  "ps_gather h i slots s = bindE (gather h i slots (ps_updates s)) (\<lambda>p. retS (s\<lparr>ps_updates := p\<rparr>))"

definition ps_flush ::
  "'e host \<Rightarrow> run_id \<Rightarrow> (nat \<rightharpoonup> tool_call) \<Rightarrow> nat \<Rightarrow> parallel_state \<Rightarrow> ('e, parallel_state) run_step" where
  "ps_flush h i slots fuel s =
     bindE (flush_tool_updates h i slots fuel (ps_updates s)) (\<lambda>p. retS (s\<lparr>ps_updates := p\<rparr>))"

fun next_parallel_step ::
  "'e host \<Rightarrow> run_id \<Rightarrow> (nat \<rightharpoonup> tool_call) \<Rightarrow> nat \<Rightarrow> parallel_state \<Rightarrow> ('e, parallel_step \<times> parallel_state) run_step"
  where
  "next_parallel_step h i slots 0 s = failS OutOfFuel"
| "next_parallel_step h i slots (Suc fuel) s =
     bindE (poll_parallel h i slots s) (\<lambda>(st, s).
     case st of
       Some st \<Rightarrow> retS (st, s)
     | None \<Rightarrow> bindE (ps_gather h i slots s) (next_parallel_step h i slots fuel))"

text \<open>Every pending future is dropped and its call gets a cancellation result.\<close>

fun cancel_pending :: "'e host \<Rightarrow> run_id \<Rightarrow> pending_tools \<Rightarrow> parallel_state \<Rightarrow> ('e, parallel_state) run_step" where
  "cancel_pending h i [] s = retS s"
| "cancel_pending h i ((slot, call) # rest) s =
     thenE (emit_tool_execution_end h i call (aborted_result call))
       (cancel_pending h i rest (complete slot (aborted_result call) False (ps_close (tc_id call) s)))"

text \<open>
  After an update that cancelled the run: the calls whose update it was stay pending, every sibling is
  polled once and gets its own result or a cancellation result.
\<close>

fun settle_siblings ::
  "'e host \<Rightarrow> run_id \<Rightarrow> agent_configuration \<Rightarrow> (nat \<rightharpoonup> tool_call) \<Rightarrow> nat \<Rightarrow> tool_call_id set \<Rightarrow> pending_tools \<Rightarrow>
    parallel_state \<Rightarrow> ('e, parallel_state) run_step" where
  "settle_siblings h i cf slots fuel ids [] s = retS s"
| "settle_siblings h i cf slots fuel ids ((slot, call) # rest) s =
     (if tc_id call \<in> ids
      then settle_siblings h i cf slots fuel ids rest (s\<lparr>ps_pending := ps_pending s @ [(slot, call)]\<rparr>)
      else
        bindE (getS (is_cancelled i)) (\<lambda>c.
        bindE (await i (tool_poll h slot call c)) (\<lambda>(result, us).
        bindE (ps_flush h i slots fuel (ps_close (tc_id call) (ps_push slots us s))) (\<lambda>s.
        bindE (case result of
                 Some r \<Rightarrow> finalize_executed_tool h i cf call r
               | None \<Rightarrow> retS (aborted_result call, False)) (\<lambda>(r, t).
        thenE (emit_tool_execution_end h i call r)
          (settle_siblings h i cf slots fuel ids rest (complete slot r t s)))))))"

definition update_ids :: "(tool_call_id \<times> string \<times> tool_update) list \<Rightarrow> tool_call_id set" where
  "update_ids us = set (map fst us)"

fun handle_parallel_step ::
  "'e host \<Rightarrow> run_id \<Rightarrow> agent_configuration \<Rightarrow> (nat \<rightharpoonup> tool_call) \<Rightarrow> nat \<Rightarrow> parallel_step \<Rightarrow> parallel_state \<Rightarrow>
    ('e, parallel_state) run_step" where
  "handle_parallel_step h i cf slots fuel (ParCancelled us) s =
     thenE (emit_tool_updates h i us)
       (cancel_pending h i (ps_pending s) (s\<lparr>ps_pending := []\<rparr>))"
| "handle_parallel_step h i cf slots fuel (ParUpdates us) s =
     thenE (emit_tool_updates h i us)
       (bindE (ps_gather h i slots s) (\<lambda>s.
        bindE (getS (is_cancelled i)) (\<lambda>c.
        if \<not> c then retS s
        else bindE (settle_siblings h i cf slots fuel (update_ids us) (ps_pending s) (s\<lparr>ps_pending := []\<rparr>)) (\<lambda>s.
             retS (s\<lparr>ps_allowed := ps_allowed s \<union>
               (\<lambda>(slot, call). tc_id call) ` {x \<in> set (ps_pending s). tc_id (snd x) \<in> update_ids us}\<rparr>)))))"
| "handle_parallel_step h i cf slots fuel (ParCompleted slot call result us) s =
     thenE (emit_tool_updates h i us)
       (bindE (finalize_executed_tool h i cf call result) (\<lambda>(r, t).
        bindE (ps_gather h i slots s) (\<lambda>s.
        bindE (ps_flush h i slots fuel s) (\<lambda>s.
        thenE (emit_tool_execution_end h i call r) (retS (complete slot r t s))))))"

fun parallel_loop ::
  "'e host \<Rightarrow> run_id \<Rightarrow> agent_configuration \<Rightarrow> (nat \<rightharpoonup> tool_call) \<Rightarrow> nat \<Rightarrow> nat \<Rightarrow> parallel_state \<Rightarrow>
    ('e, parallel_state) run_step" where
  "parallel_loop h i cf slots polls 0 s = failS OutOfFuel"
| "parallel_loop h i cf slots polls (Suc fuel) s =
     (if ps_pending s = [] then retS s
      else bindE (next_parallel_step h i slots polls s) (\<lambda>(st, s).
           bindE (handle_parallel_step h i cf slots polls st s) (parallel_loop h i cf slots polls fuel)))"

text \<open>Announcing and preparing every call, in source order; immediate results are completions already.\<close>

fun prepare_all ::
  "'e host \<Rightarrow> run_id \<Rightarrow> agent_configuration \<Rightarrow> nat \<Rightarrow> tool_call list \<Rightarrow> completions \<Rightarrow>
    ('e, (nat \<times> tool_call \<times> tool) list \<times> completions) run_step" where
  "prepare_all h i cf slot [] finished = retS ([], finished)"
| "prepare_all h i cf slot (call # calls) finished =
     thenE (announce_call h i call)
       (bindE (prepare_tool_call h i cf call) (\<lambda>prepared.
        case prepared of
          Immediate r t \<Rightarrow>
            let r = normalize_result_failure r
            in thenE (emit_tool_execution_end h i call r)
                 (prepare_all h i cf (Suc slot) calls (finished(slot \<mapsto> (r, t))))
        | Execute td \<Rightarrow>
            bindE (prepare_all h i cf (Suc slot) calls finished) (\<lambda>(executables, finished).
            retS ((slot, call, td) # executables, finished))))"

fun start_all ::
  "'e host \<Rightarrow> run_id \<Rightarrow> (nat \<rightharpoonup> tool_call) \<Rightarrow> (nat \<times> tool_call \<times> tool) list \<Rightarrow> pending_updates \<Rightarrow>
    ('e, pending_updates) run_step" where
  "start_all h i slots [] p = retS p"
| "start_all h i slots ((slot, call, td) # rest) p =
     bindE (getS (is_cancelled i)) (\<lambda>c.
     bindE (await i (tool_start h (tool_capability td) slot call c)) (\<lambda>us.
     let slots = slots(slot \<mapsto> call) in start_all h i slots rest (push_all slots us p)))"

fun record_results ::
  "'e host \<Rightarrow> run_id \<Rightarrow> nat \<Rightarrow> tool_call list \<Rightarrow> completions \<Rightarrow> bool \<Rightarrow> string option \<Rightarrow> ('e, batch_outcome) run_step"
  where
  "record_results h i slot [] finished all_terminate terminal = retS (all_terminate, terminal)"
| "record_results h i slot (call # calls) finished all_terminate terminal =
     (case finished slot of
        None \<Rightarrow> failS Panic
      | Some (r, t) \<Rightarrow>
          let r = normalize_result_failure r
          in thenE (append_tool_result_message h i call r)
               (bindE (observe_tool_failure h i call r) (\<lambda>observed.
                record_results h i (Suc slot) calls finished (all_terminate \<and> t)
                  (case terminal of None \<Rightarrow> observed | Some m \<Rightarrow> Some m))))"

definition execute_parallel ::
  "'e host \<Rightarrow> run_id \<Rightarrow> agent_configuration \<Rightarrow> nat \<Rightarrow> tool_call list \<Rightarrow> ('e, batch_outcome) run_step" where
  "execute_parallel h i cf fuel calls =
     bindE (prepare_all h i cf 0 calls Map.empty) (\<lambda>(executables, finished).
     bindE (start_all h i Map.empty executables updates_default) (\<lambda>p.
     bindE (parallel_loop h i cf (map_of (map (\<lambda>(slot, call, td). (slot, call)) executables)) fuel fuel
              \<lparr>ps_pending = map (\<lambda>(slot, call, td). (slot, call)) executables, ps_allowed = {},
               ps_updates = p, ps_completions = finished\<rparr>) (\<lambda>s.
     record_results h i 0 calls (ps_completions s) True None)))"

definition is_sequential :: "agent_configuration \<Rightarrow> tool_call \<Rightarrow> bool" where
  "is_sequential cf call \<longleftrightarrow>
     (case registry_get (cf_tools cf) (tc_name call) of Some td \<Rightarrow> tool_mode td = Sequential | None \<Rightarrow> False)"

definition execute_tool_calls ::
  "'e host \<Rightarrow> run_id \<Rightarrow> agent_configuration \<Rightarrow> nat \<Rightarrow> tool_call list \<Rightarrow> ('e, batch_outcome) run_step" where
  "execute_tool_calls h i cf fuel calls =
     (if list_ex (is_sequential cf) calls then execute_sequential h i cf fuel 0 calls True
      else execute_parallel h i cf fuel calls)"

section \<open>Truncated responses\<close>

definition truncated_result :: "tool_call \<Rightarrow> agent_tool_result" where
  "truncated_result call = error_tool_result call
     (''Tool call \"'' @ tc_name call @ ''\" was not executed: the response hit the output token limit, '' @
      ''so its arguments may be truncated. Re-issue the tool call with complete arguments.'')"

definition fail_truncated_tool_calls :: "'e host \<Rightarrow> run_id \<Rightarrow> tool_call list \<Rightarrow> ('e, bool) run_step" where
  "fail_truncated_tool_calls h i calls =
     thenE (forE calls (\<lambda>call.
       thenE (announce_call h i call)
       (thenE (emit_tool_execution_end h i call (truncated_result call))
         (append_tool_result_message h i call (truncated_result call)))))
       (retS False)"

end
