(* ===== verification/Run.thy ===== *)
theory Run
  imports Tool_Exec
begin

text \<open>
  Driving a run to its end (\<open>RunHandle::drive\<close> in \<open>run/mod.rs\<close>): requests to the provider, the assistant
  stream, tool batches, the queues at the boundary between turns, automatic compaction, and the
  settlement of every outcome; and the drive of a manual compaction (\<open>compaction.rs\<close>). The agent
  outlives its runs, so the code's branches for an agent that is gone do not occur. The number of
  turns, of stream events and of polls is bounded by fuel.
\<close>

section \<open>Small steps\<close>

definition run_step_raise :: "core_error \<Rightarrow> ('e, 'a) run_step" where
  "run_step_raise e = failS (Raise e)"

text \<open>A \<open>Result\<close> that the code looks at instead of passing it on.\<close>

definition catch :: "('e, 'a) run_step \<Rightarrow> ('e, core_error + 'a) run_step" where
  "catch m = (\<lambda>w. case m w of
       (Inl (Raise e), w') \<Rightarrow> (Inr (Inl e), w')
     | (Inl k, w') \<Rightarrow> (Inl k, w')
     | (Inr x, w') \<Rightarrow> (Inr (Inr x), w'))"

definition new_messages :: "run_handle \<Rightarrow> 'e world \<Rightarrow> agent_message list" where
  "new_messages hnd w = drop (h_start_index hnd) (a_messages (w_state w))"

definition emit_agent_end :: "'e host \<Rightarrow> run_id \<Rightarrow> run_handle \<Rightarrow> ('e, unit) run_step" where
  "emit_agent_end h i hnd = bindE (getS (new_messages hnd)) (\<lambda>ms. emit h i (AgentEnd ms))"

definition turn_or_first :: "run_id \<Rightarrow> 'e world \<Rightarrow> turn_id" where
  "turn_or_first i w = (case r_turn (run_of i w) of Some t \<Rightarrow> t | None \<Rightarrow> 1)"

text \<open>Rust's derived \<open>Debug\<close> of a stop reason.\<close>

fun reason_name :: "stop_reason \<Rightarrow> string" where
  "reason_name Stop = ''Stop''"
| "reason_name ToolUse = ''ToolUse''"
| "reason_name Length = ''Length''"
| "reason_name Aborted = ''Aborted''"
| "reason_name CancelledReason = ''Cancelled''"
| "reason_name ErrorReason = ''Error''"

section \<open>Settling a run\<close>

text \<open>The events at the end of a run that did not succeed; what observers answer no longer matters.\<close>

definition closing_events :: "'e host \<Rightarrow> run_id \<Rightarrow> run_handle \<Rightarrow> turn_id \<Rightarrow> stop_reason \<Rightarrow> ('e, unit) run_step" where
  "closing_events h i hnd t reason =
     thenE (ignoreS (emit h i (TurnEnd t reason))) (ignoreS (emit_agent_end h i hnd))"

definition announce_message :: "'e host \<Rightarrow> run_id \<Rightarrow> agent_message \<Rightarrow> ('e, unit) run_step" where
  "announce_message h i m =
     thenE (ignoreS (emit h i (MessageStart m))) (ignoreS (emit h i (MessageEnd m)))"

definition settle_failure :: "'e host \<Rightarrow> run_id \<Rightarrow> run_handle \<Rightarrow> core_error \<Rightarrow> ('e, unit) run_step" where
  "settle_failure h i hnd e =
     bindE (push_new (\<lambda>s. s\<lparr>a_partial := None, a_pending := {}\<rparr>)
              (\<lambda>k. AssistantMessage k [] [] (Some ErrorReason) (Some (display h e)))) (\<lambda>m.
     bindE (getS (turn_or_first i)) (\<lambda>t.
     thenE (announce_message h i m)
     (thenE (closing_events h i hnd t ErrorReason)
       (ignoreS (liftS (fail_run i (display h e)))))))"

definition settle_compaction_boundary_failure ::
  "'e host \<Rightarrow> run_id \<Rightarrow> run_handle \<Rightarrow> core_error \<Rightarrow> ('e, unit) run_step" where
  "settle_compaction_boundary_failure h i hnd e =
     thenE (modS (upd_state clear_transient))
     (bindE (getS (turn_or_first i)) (\<lambda>t.
      thenE (closing_events h i hnd t ErrorReason) (ignoreS (liftS (fail_run i (display h e))))))"

definition settle_compaction_boundary_cancellation :: "'e host \<Rightarrow> run_id \<Rightarrow> run_handle \<Rightarrow> ('e, unit) run_step" where
  "settle_compaction_boundary_cancellation h i hnd =
     thenE (modS (upd_state clear_transient))
     (bindE (getS (turn_or_first i)) (\<lambda>t.
      thenE (closing_events h i hnd t CancelledReason)
        (ignoreS (liftS (finish i Cancelled CancelledReason None)))))"

fun is_aborted :: "agent_message \<Rightarrow> bool" where
  "is_aborted (AssistantMessage k text calls reason err) = (reason = Some Aborted)"
| "is_aborted m = False"

definition settle_cancellation :: "'e host \<Rightarrow> run_id \<Rightarrow> run_handle \<Rightarrow> ('e, unit) run_step" where
  "settle_cancellation h i hnd =
     bindE (getS (turn_or_first i)) (\<lambda>t.
     thenE (modS (upd_state clear_transient))
     (bindE (getS (\<lambda>w. a_messages (w_state w))) (\<lambda>ms.
      thenE (if ms \<noteq> [] \<and> is_aborted (last ms) then retS ()
             else bindE (push_new (\<lambda>s. s) (\<lambda>k. AssistantMessage k [] [] (Some Aborted) (Some ''Operation aborted'')))
               (announce_message h i))
      (thenE (closing_events h i hnd t Aborted)
        (ignoreS (liftS (finish i Cancelled Aborted None)))))))"

section \<open>The provider's view\<close>

definition build_provider_context ::
  "'e host \<Rightarrow> run_id \<Rightarrow> agent_configuration \<Rightarrow> context_envelope \<Rightarrow> ('e, provider_context) run_step" where
  "build_provider_context h i cf cx =
     bindE (getS w_projection) (\<lambda>policy.
     let projected = cx\<lparr>cx_messages := project_model_context (cx_messages cx) policy\<rparr>
     in bindE (await_hook i (transform_context h (cf_hooks cf) projected)) (\<lambda>r.
        bindE (hook_ok r) (\<lambda>transformed.
        bindE (await_hook i (convert_to_llm h (cf_hooks cf) transformed)) (\<lambda>r.
        bindE (hook_ok r) (\<lambda>text.
        retS \<lparr>pc_prompt = cf_prompt cf, pc_context = text, pc_active = None,
              pc_tools = registry_definitions (cf_tools cf)\<rparr>)))))"

definition transcript_context :: "agent_state \<Rightarrow> context_envelope" where
  "transcript_context s = \<lparr>cx_version = 1, cx_messages = a_messages s, cx_host_messages = a_host_messages s\<rparr>"

definition make_model_request ::
  "'e host \<Rightarrow> run_id \<Rightarrow> agent_configuration \<Rightarrow> context_envelope option \<Rightarrow> model_descriptor option \<Rightarrow>
    thinking_level option \<Rightarrow> ('e, model_request) run_step" where
  "make_model_request h i cf cx model_override thinking_override =
     bindE (getS w_state) (\<lambda>s.
     if phase_run (a_phase s) \<noteq> Some i
     then run_step_raise (InvalidTransition ''agent'' ''not-running'' ''model_request'')
     else thenE (modS (upd_state (\<lambda>s. s\<lparr>a_streaming := True\<rparr>)))
       (bindE (build_provider_context h i cf (case cx of Some c \<Rightarrow> c | None \<Rightarrow> transcript_context s)) (\<lambda>pc.
        retS \<lparr>mr_prompt = cf_prompt cf, mr_context = pc_context pc, mr_tools = registry_definitions (cf_tools cf),
              mr_model = (case model_override of Some m \<Rightarrow> Some m | None \<Rightarrow> a_model s),
              mr_thinking = (case thinking_override of Some t \<Rightarrow> t | None \<Rightarrow> a_thinking s)\<rparr>)))"

subsection \<open>Estimates\<close>

text \<open>\<open>ContextEstimator\<close>: the input size the provider last reported, and the messages of that request.\<close>

type_synonym context_estimator = "(u64 \<times> nat) option"

definition observe_valid_input :: "u64 option \<Rightarrow> nat \<Rightarrow> context_estimator \<Rightarrow> context_estimator" where
  "observe_valid_input tokens count est =
     (case tokens of Some t \<Rightarrow> if t \<noteq> 0 then Some (t, count) else est | None \<Rightarrow> est)"

definition estimate :: "context_estimator \<Rightarrow> agent_message list \<Rightarrow> nat" where
  "estimate est ms =
     (case est of
        Some (tokens, count) \<Rightarrow>
          if count \<le> length ms then usize_add (unat tokens) (estimate_messages_tokens (drop count ms))
          else estimate_messages_tokens ms
      | None \<Rightarrow> estimate_messages_tokens ms)"

definition emit_context_estimate :: "'e host \<Rightarrow> run_id \<Rightarrow> model_request \<Rightarrow> nat \<Rightarrow> ('e, unit) run_step" where
  "emit_context_estimate h i rq tokens =
     bindE (getS (\<lambda>w. a_messages (w_state w))) (\<lambda>ms.
     emit h i (ContextEstimate tokens (usize_add (length (mr_prompt rq)) (length (mr_context rq)))
       (length ms) (estimate_messages_bytes ms) (estimate_tool_result_bytes ms)))"

section \<open>Compaction\<close>

definition snapshot_context :: "agent_state \<Rightarrow> compaction_context" where
  "snapshot_context s = \<lparr>cc_version = 1, cc_prompt = a_prompt s, cc_model = a_model s, cc_messages = a_messages s,
     cc_host_messages = a_host_messages s, cc_provider = None\<rparr>"

definition commit_replacement :: "run_id \<Rightarrow> agent_message list \<Rightarrow> ('e world, core_error, unit) step" where
  "commit_replacement i ms = (\<lambda>w.
     if is_cancelled i w then (Inl CancelledError, w)
     else if a_phase (w_state w) \<noteq> Running i then (Inl CancelledError, w)
     else (Inr (), upd_state (replace_messages ms) w))"

definition ends_with :: "'a list \<Rightarrow> 'a list \<Rightarrow> bool" where
  "ends_with xs ys \<longleftrightarrow> length ys \<le> length xs \<and> drop (length xs - length ys) xs = ys"

definition automatic_end ::
  "'e host \<Rightarrow> run_id \<Rightarrow> compaction_reason \<Rightarrow> bool \<Rightarrow> automatic_outcome \<Rightarrow> ('e, unit) run_step" where
  "automatic_end h i reason retry outcome = emit h i (AutomaticCompactionEnd reason retry outcome)"

definition automatic_cancelled :: "'e host \<Rightarrow> run_id \<Rightarrow> compaction_reason \<Rightarrow> bool \<Rightarrow> ('e, unit) run_step" where
  "automatic_cancelled h i reason retry =
     thenE (modS (upd_policy i (\<lambda>p. p\<lparr>compaction_cancelled := True\<rparr>))) (automatic_end h i reason retry AutoCancelled)"

definition automatic_failed ::
  "'e host \<Rightarrow> run_id \<Rightarrow> compaction_reason \<Rightarrow> bool \<Rightarrow> string \<Rightarrow> ('e, 'a) run_step" where
  "automatic_failed h i reason retry message =
     thenE (automatic_end h i reason retry (AutoFailed message))
       (run_step_raise (AutomaticCompactionError reason message))"

text \<open>A failed attempt is a cancellation when the run was cancelled meanwhile.\<close>

definition attempt_failed ::
  "'e host \<Rightarrow> run_id \<Rightarrow> compaction_reason \<Rightarrow> bool \<Rightarrow> core_error \<Rightarrow> ('e, 'a) run_step" where
  "attempt_failed h i reason retry e =
     bindE (getS (is_cancelled i)) (\<lambda>c.
     if c then thenE (automatic_cancelled h i reason retry) (run_step_raise CancelledError)
     else automatic_failed h i reason retry (truncate_middle (display h e) 1024))"

definition compaction_provider_context ::
  "'e host \<Rightarrow> run_id \<Rightarrow> agent_configuration \<Rightarrow> compaction_context \<Rightarrow> agent_message list \<Rightarrow>
    ('e, provider_context) run_step" where
  "compaction_provider_context h i cf cc source_messages =
     bindE (build_provider_context h i cf \<lparr>cx_version = cc_version cc mod 2 ^ 16, cx_messages = source_messages,
              cx_host_messages = cc_host_messages cc\<rparr>) (\<lambda>src.
     bindE (build_provider_context h i cf \<lparr>cx_version = cc_version cc mod 2 ^ 16, cx_messages = cc_messages cc,
              cx_host_messages = cc_host_messages cc\<rparr>) (\<lambda>active.
     retS (src\<lparr>pc_active := Some (pc_context active)\<rparr>)))"

text \<open>Claiming one of the run's compactions: the new count, or the count and that the limit is reached.\<close>

definition claim_compaction :: "compaction_policy \<Rightarrow> run_policy_state \<Rightarrow> (u32 \<times> bool) \<times> run_policy_state" where
  "claim_compaction policy p =
     (if max_compactions policy \<le> automatic_compactions p then ((automatic_compactions p, True), p)
      else let n = sat_add (automatic_compactions p) 1 in ((n, False), p\<lparr>automatic_compactions := n\<rparr>))"

definition policy_step :: "run_id \<Rightarrow> (run_policy_state \<Rightarrow> 'a \<times> run_policy_state) \<Rightarrow> ('e, 'a) run_step" where
  "policy_step i f = (\<lambda>w. let (x, p) = f (policy_of i w) in (Inr x, upd_policy i (\<lambda>_. p) w))"

text \<open>What is left to do when the compactor's replacement is at hand.\<close>

definition accept_replacement ::
  "'e host \<Rightarrow> run_id \<Rightarrow> compaction_policy \<Rightarrow> compaction_reason \<Rightarrow> bool \<Rightarrow> agent_message list \<Rightarrow>
    agent_message list \<Rightarrow> ('e, bool \<times> context_estimator) run_step" where
  "accept_replacement h i policy reason retry retained replacement =
     bindE (getS (is_cancelled i)) (\<lambda>c.
     if c then thenE (automatic_cancelled h i reason retry) (run_step_raise CancelledError)
     else case validate_messages replacement of
       Inl e \<Rightarrow> automatic_failed h i reason retry
         (truncate_middle (display h (CompactionError (InvalidReplacement e))) 1024)
     | Inr _ \<Rightarrow>
         if retained \<noteq> [] \<and> \<not> ends_with replacement retained
         then automatic_failed h i reason retry
           ''automatic compactor did not preserve the requested intact recent suffix''
         else bindE (tryS (commit_replacement i replacement)) (\<lambda>r.
           case r of
             Inl e \<Rightarrow> thenE (if e = CancelledError then automatic_cancelled h i reason retry else retS ())
                 (run_step_raise e)
           | Inr _ \<Rightarrow>
               bindE (getS (\<lambda>w. a_messages (w_state w))) (\<lambda>ms.
               let after = estimate None ms; still_above = (unat (threshold_tokens policy) \<le> after)
               in thenE (modS (if still_above then upd_policy i (\<lambda>p. p\<lparr>compaction_blocked := Some (length ms)\<rparr>)
                               else (\<lambda>w. w)))
                  (thenE (automatic_end h i reason retry (if still_above then StillAboveThreshold else AutoSucceeded after))
                    (retS (True, None))))))"

definition run_compactor ::
  "'e host \<Rightarrow> run_id \<Rightarrow> agent_configuration \<Rightarrow> compaction_policy \<Rightarrow> compaction_reason \<Rightarrow> bool \<Rightarrow> nat \<Rightarrow>
    capability \<Rightarrow> ('e, bool \<times> context_estimator) run_step" where
  "run_compactor h i cf policy reason retry estimated compactor =
     bindE (getS (\<lambda>w. snapshot_context (w_state w))) (\<lambda>cc.
     let (pre, retained, turn) = automatic_compaction_split (cc_messages cc) (unat (recent_tokens policy))
     in bindE (catch (compaction_provider_context h i cf cc (pre @ turn))) (\<lambda>pc.
        case pc of
          Inl e \<Rightarrow> attempt_failed h i reason retry e
        | Inr pc \<Rightarrow>
            let rq = \<lparr>cq_reason = reason, cq_estimated = Some estimated,
                  cq_budget = budget_tokens (context_budget policy), cq_reserved = reserved_tokens policy,
                  cq_recent = recent_tokens policy, cq_prefix = pre, cq_retained = retained, cq_turn = turn,
                  cq_retry = retry\<rparr>
            in bindE (getS (is_cancelled i)) (\<lambda>c.
               bindE (await i (compact_automatic h compactor (cc\<lparr>cc_provider := Some pc\<rparr>) rq c)) (\<lambda>r.
               case r of
                 Inl e \<Rightarrow> attempt_failed h i reason retry (CompactionError e)
               | Inr replacement \<Rightarrow>
                   accept_replacement h i policy reason retry retained (cr_messages replacement)))))"

text \<open>Whether pressure on the context asks for a compaction now.\<close>

definition compaction_due :: "compaction_policy \<Rightarrow> compaction_reason \<Rightarrow> nat \<Rightarrow> nat \<Rightarrow> run_policy_state \<Rightarrow> bool" where
  "compaction_due policy reason estimated count p \<longleftrightarrow>
     enabled policy \<and>
     \<not> (reason = Threshold \<and> estimated < unat (threshold_tokens policy)) \<and>
     \<not> (reason = Threshold \<and> compaction_blocked p = Some count)"

definition claimed_compaction ::
  "'e host \<Rightarrow> run_id \<Rightarrow> agent_configuration \<Rightarrow> compaction_policy \<Rightarrow> compaction_reason \<Rightarrow> bool \<Rightarrow> nat \<Rightarrow> nat \<Rightarrow>
    ('e, bool \<times> context_estimator) run_step" where
  "claimed_compaction h i cf policy reason retry estimated count =
     bindE (policy_step i (claim_compaction policy)) (\<lambda>(n, limit_reached).
     if limit_reached
     then thenE (automatic_end h i reason retry LimitReached)
       (run_step_raise (AutomaticCompactionError reason ''automatic compaction limit reached''))
     else
       thenE (emit h i (AutomaticCompactionStart reason count estimated retry n))
       (thenE (emit h i (ProviderRequestSkipped SkippedForCompaction))
        (bindE (getS w_compactor) (\<lambda>compactor.
         case compactor of
           None \<Rightarrow> thenE (automatic_end h i reason retry Unavailable)
             (run_step_raise (AutomaticCompactionUnavailable reason))
         | Some c \<Rightarrow> run_compactor h i cf policy reason retry estimated c))))"

definition maybe_automatic_compaction ::
  "'e host \<Rightarrow> run_id \<Rightarrow> agent_configuration \<Rightarrow> context_estimator \<Rightarrow> compaction_reason \<Rightarrow> bool \<Rightarrow>
    ('e, bool \<times> context_estimator) run_step" where
  "maybe_automatic_compaction h i cf est reason retry =
     bindE (getS w_compaction) (\<lambda>policy.
     bindE (getS (\<lambda>w. a_messages (w_state w))) (\<lambda>ms.
     bindE (getS (policy_of i)) (\<lambda>p.
     if compaction_due policy reason (estimate est ms) (length ms) p
     then claimed_compaction h i cf policy reason retry (estimate est ms) (length ms)
     else retS (False, est))))"

section \<open>Queued messages\<close>

definition drain_steering :: "('e, queued_message list) run_step" where
  "drain_steering = (\<lambda>w. let (ms, q) = steering_drain (w_steering_mode w) (w_queues w) in (Inr ms, w\<lparr>w_queues := q\<rparr>))"

definition drain_follow_up :: "('e, queued_message list) run_step" where
  "drain_follow_up = (\<lambda>w. let (ms, q) = follow_up_drain (w_follow_up_mode w) (w_queues w) in (Inr ms, w\<lparr>w_queues := q\<rparr>))"

fun inject_queued_messages ::
  "'e host \<Rightarrow> run_id \<Rightarrow> context_envelope \<Rightarrow> queued_message list \<Rightarrow> ('e, context_envelope) run_step" where
  "inject_queued_messages h i cx [] = retS cx"
| "inject_queued_messages h i cx (q # qs) =
     bindE (push_new (\<lambda>s. s) (\<lambda>k. UserMessage k (queued_content q))) (\<lambda>m.
     thenE (emit h i (MessageStart m))
     (thenE (emit h i (MessageEnd m))
       (inject_queued_messages h i (cx\<lparr>cx_messages := cx_messages cx @ [m]\<rparr>) qs)))"

section \<open>The assistant stream\<close>

record stream_state =
  ss_id :: "message_id option"
  ss_text :: string
  ss_calls :: "tool_call list"
  ss_reason :: "stop_reason option"
  ss_error :: "string option"
  ss_usage :: "usage option"
  ss_overflow :: bool

definition stream_start :: stream_state where
  "stream_start = \<lparr>ss_id = None, ss_text = [], ss_calls = [], ss_reason = None, ss_error = None, ss_usage = None,
     ss_overflow = False\<rparr>"

text \<open>\<open>*messages.last_mut().expect(..) = m\<close>.\<close>

definition replace_last :: "agent_message \<Rightarrow> ('e, unit) run_step" where
  "replace_last m = (\<lambda>w.
     if a_messages (w_state w) = [] then (Inl Panic, w)
     else (Inr (), upd_state (\<lambda>s. s\<lparr>a_messages := butlast (a_messages s) @ [m]\<rparr>) w))"

text \<open>The stream's message, allocated and inserted empty before its first text.\<close>

definition assistant_slot :: "stream_state \<Rightarrow> ('e, message_id) run_step" where
  "assistant_slot st =
     (case ss_id st of
        Some k \<Rightarrow> retS k
      | None \<Rightarrow> bindE (push_new (\<lambda>s. s) (\<lambda>k. AssistantMessage k [] [] None None)) (\<lambda>m. retS (message_id m)))"

definition text_delta :: "'e host \<Rightarrow> run_id \<Rightarrow> string \<Rightarrow> stream_state \<Rightarrow> ('e, stream_state) run_step" where
  "text_delta h i delta st =
     bindE (assistant_slot st) (\<lambda>k.
     let text = ss_text st @ delta; m = AssistantMessage k text [] None None
     in thenE (modS (upd_state (\<lambda>s. s\<lparr>a_partial := Some text\<rparr>)))
        (thenE (replace_last m)
        (thenE (if ss_id st = None then emit h i (MessageStart (AssistantMessage k [] [] None None)) else retS ())
        (thenE (emit h i (MessageUpdate m delta))
          (retS (st\<lparr>ss_id := Some k, ss_text := text\<rparr>))))))"

fun handle_stream_event :: "'e host \<Rightarrow> run_id \<Rightarrow> stream_event \<Rightarrow> stream_state \<Rightarrow> ('e, stream_state) run_step" where
  "handle_stream_event h i (TextDelta delta) st = text_delta h i delta st"
| "handle_stream_event h i (ToolCallEvent call) st = retS (st\<lparr>ss_calls := ss_calls st @ [call]\<rparr>)"
| "handle_stream_event h i (UsageEvent u) st =
     retS (st\<lparr>ss_usage := Some (case ss_usage st of Some v \<Rightarrow> usage_merge v u | None \<Rightarrow> u)\<rparr>)"
| "handle_stream_event h i (StreamError message) st =
     retS (st\<lparr>ss_reason := Some ErrorReason, ss_error := Some message\<rparr>)"
| "handle_stream_event h i (ContextOverflow message) st =
     retS (st\<lparr>ss_reason := Some ErrorReason, ss_error := Some message, ss_overflow := True\<rparr>)"
| "handle_stream_event h i (StreamAborted message) st =
     retS (st\<lparr>ss_reason := Some Aborted, ss_error := Some message\<rparr>)"
| "handle_stream_event h i (StreamEnd reason) st = retS (st\<lparr>ss_reason := Some reason\<rparr>)"

fun stream_loop :: "'e host \<Rightarrow> run_id \<Rightarrow> capability \<Rightarrow> nat \<Rightarrow> stream_state \<Rightarrow> ('e, stream_state) run_step" where
  "stream_loop h i provider 0 st = failS OutOfFuel"
| "stream_loop h i provider (Suc fuel) st =
     bindE (getS (is_cancelled i)) (\<lambda>c.
     bindE (await i (next_event h provider c)) (\<lambda>r.
     case r of
       Inl message \<Rightarrow> run_step_raise (ModelProviderError message)
     | Inr None \<Rightarrow> retS st
     | Inr (Some item) \<Rightarrow>
         if ss_reason st \<noteq> None
         then run_step_raise (UnsupportedModelStream ''model stream contained events after its terminal event'')
         else bindE (handle_stream_event h i item st) (stream_loop h i provider fuel)))"

record assistant_turn =
  at_reason :: stop_reason
  at_calls :: "tool_call list"
  at_error :: "string option"
  at_valid_input :: "u64 option"
  at_overflow :: bool

text \<open>The stream's message in its final form takes the place of the streamed one, or is appended.\<close>

definition commit_assistant :: "'e host \<Rightarrow> run_id \<Rightarrow> stream_state \<Rightarrow> stop_reason \<Rightarrow> ('e, unit) run_step" where
  "commit_assistant h i st reason =
     bindE (case ss_id st of
              Some k \<Rightarrow>
                let m = AssistantMessage k (ss_text st) (ss_calls st) (Some reason) (ss_error st)
                in thenE (modS (upd_state (\<lambda>s. s\<lparr>a_partial := None, a_streaming := False\<rparr>)))
                   (thenE (replace_last m) (retS m))
            | None \<Rightarrow> push_new (\<lambda>s. s\<lparr>a_partial := None, a_streaming := False\<rparr>)
                (\<lambda>k. AssistantMessage k (ss_text st) (ss_calls st) (Some reason) (ss_error st))) (\<lambda>m.
     thenE (if ss_id st = None then emit h i (MessageStart m) else retS ())
       (emit h i (MessageEnd m)))"

definition record_usage ::
  "'e host \<Rightarrow> run_id \<Rightarrow> turn_id \<Rightarrow> model_descriptor option \<Rightarrow> usage option \<Rightarrow> ('e, unit) run_step" where
  "record_usage h i t md u =
     (case u of
        None \<Rightarrow> retS ()
      | Some u \<Rightarrow>
          bindE (getS (\<lambda>w. \<lparr>acc_run_id = r_id (run_of i w), acc_turn_id = t, acc_model = md, acc_usage = u\<rparr>)) (\<lambda>a.
          thenE (modS (upd_state (\<lambda>s. s\<lparr>a_accounting := accounting_record (a_accounting s) a\<rparr>)))
            (emit h i (ModelTurnUsage a))))"

definition valid_input :: "stop_reason \<Rightarrow> usage option \<Rightarrow> u64 option" where
  "valid_input reason u =
     (if reason \<in> {ErrorReason, Aborted} then None
      else case u of None \<Rightarrow> None
        | Some u \<Rightarrow> (case input_tokens u of Some t \<Rightarrow> if t \<noteq> 0 then Some t else None | None \<Rightarrow> None))"

definition consume_assistant_stream ::
  "'e host \<Rightarrow> run_id \<Rightarrow> capability \<Rightarrow> nat \<Rightarrow> turn_id \<Rightarrow> model_descriptor option \<Rightarrow> ('e, assistant_turn) run_step" where
  "consume_assistant_stream h i provider fuel t md =
     bindE (stream_loop h i provider fuel stream_start) (\<lambda>st.
     case ss_reason st of
       None \<Rightarrow> run_step_raise (UnsupportedModelStream ''model stream ended without a terminal event'')
     | Some reason \<Rightarrow>
         thenE (commit_assistant h i st reason)
         (thenE (record_usage h i t md (ss_usage st))
           (retS \<lparr>at_reason = reason, at_calls = ss_calls st, at_error = ss_error st,
                  at_valid_input = valid_input reason (ss_usage st), at_overflow = ss_overflow st\<rparr>)))"

section \<open>Turns\<close>

record loop_state =
  ls_turn :: turn_id
  ls_model :: "model_descriptor option"
  ls_thinking :: "thinking_level option"
  ls_estimator :: context_estimator
  ls_completed :: bool
  ls_context :: "context_envelope option"

definition emit_agent_end_and_succeed ::
  "'e host \<Rightarrow> run_id \<Rightarrow> run_handle \<Rightarrow> stop_reason \<Rightarrow> ('e, unit) run_step" where
  "emit_agent_end_and_succeed h i hnd reason =
     thenE (emit_agent_end h i hnd) (liftS (succeed i reason))"

text \<open>The request of a turn and the provider's answer, with the number of messages it was made from.\<close>

definition request_turn ::
  "'e host \<Rightarrow> run_id \<Rightarrow> run_handle \<Rightarrow> nat \<Rightarrow> loop_state \<Rightarrow> ('e, assistant_turn \<times> nat \<times> loop_state) run_step" where
  "request_turn h i hnd fuel ls =
     bindE (if ls_completed ls
            then maybe_automatic_compaction h i (h_configuration hnd) (ls_estimator ls) Threshold False
            else retS (False, ls_estimator ls)) (\<lambda>(compacted, est).
     let ls = ls\<lparr>ls_estimator := est\<rparr>;
         ls = (if compacted then ls\<lparr>ls_context := None\<rparr> else ls)
     in bindE (getS (\<lambda>w. length (a_messages (w_state w)))) (\<lambda>count.
        bindE (make_model_request h i (h_configuration hnd) (ls_context ls) (ls_model ls) (ls_thinking ls)) (\<lambda>rq.
        let ls = ls\<lparr>ls_context := None\<rparr>
        in bindE (getS w_compaction) (\<lambda>policy.
           bindE (getS (\<lambda>w. a_messages (w_state w))) (\<lambda>ms.
           thenE (if enabled policy then emit_context_estimate h i rq (estimate est ms) else retS ())
           (bindE (getS w_provider) (\<lambda>provider.
            case provider of
              None \<Rightarrow> run_step_raise MissingModelProvider
            | Some cap \<Rightarrow>
                bindE (getS (is_cancelled i)) (\<lambda>c.
                bindE (await i (stream h cap rq c)) (\<lambda>r.
                case r of
                  Inl message \<Rightarrow> run_step_raise (ModelProviderError message)
                | Inr _ \<Rightarrow>
                    bindE (consume_assistant_stream h i cap fuel (ls_turn ls) (mr_model rq)) (\<lambda>answer.
                    retS (answer, count,
                      ls\<lparr>ls_estimator := observe_valid_input (at_valid_input answer) count est\<rparr>)))))))))))"

definition claim_overflow_retry :: "compaction_policy \<Rightarrow> run_policy_state \<Rightarrow> bool \<times> run_policy_state" where
  "claim_overflow_retry policy p =
     (if overflow_retried p \<or> max_overflow_retries policy \<le> overflow_retries p then (False, p)
      else (True, p\<lparr>overflow_retries := sat_add (overflow_retries p) 1, overflow_retried := True\<rparr>))"

text \<open>Whether the turn is to be retried on a compacted transcript after the provider's context overflowed.\<close>

definition recover_overflow ::
  "'e host \<Rightarrow> run_id \<Rightarrow> run_handle \<Rightarrow> nat \<Rightarrow> assistant_turn \<Rightarrow> loop_state \<Rightarrow> ('e, loop_state option) run_step" where
  "recover_overflow h i hnd count answer ls =
     thenE (modS (if at_overflow answer then (\<lambda>w. w) else upd_policy i (\<lambda>p. p\<lparr>overflow_retried := False\<rparr>)))
     (bindE (getS w_compaction) (\<lambda>policy.
      if at_overflow answer \<and> enabled policy \<and> overflow_recovery policy = CompactAndRetry
      then bindE (policy_step i (claim_overflow_retry policy)) (\<lambda>allowed.
        if allowed
        then thenE (modS (upd_state (\<lambda>s. s\<lparr>a_messages := take count (a_messages s), a_partial := None,
                 a_streaming := False\<rparr>)))
             (bindE (maybe_automatic_compaction h i (h_configuration hnd) (ls_estimator ls) Overflow True) (\<lambda>(_, est).
              retS (Some (ls\<lparr>ls_estimator := est, ls_context := None, ls_completed := False\<rparr>))))
        else thenE (automatic_end h i Overflow True LimitReached) (retS None))
      else retS None))"

definition end_turn_and_run :: "'e host \<Rightarrow> run_id \<Rightarrow> run_handle \<Rightarrow> turn_id \<Rightarrow> stop_reason \<Rightarrow> ('e, unit) run_step" where
  "end_turn_and_run h i hnd t reason = thenE (emit h i (TurnEnd t reason)) (emit_agent_end h i hnd)"

definition fail_model_turn ::
  "'e host \<Rightarrow> run_id \<Rightarrow> run_handle \<Rightarrow> turn_id \<Rightarrow> assistant_turn \<Rightarrow> ('e, 'a) run_step" where
  "fail_model_turn h i hnd t answer =
     thenE (end_turn_and_run h i hnd t (at_reason answer))
     (let aborted = (at_reason answer = Aborted);
          message = (case at_error answer of Some m \<Rightarrow> m
            | None \<Rightarrow> if aborted then ''model response was aborted'' else ''model response failed'')
      in bindE (getS (is_cancelled i)) (\<lambda>c.
         if aborted \<and> c
         then thenE (liftS (finish i Cancelled Aborted None)) (run_step_raise CancelledError)
         else thenE (liftS (fail_run i message))
           (run_step_raise (if aborted then ModelAborted message else ModelError message))))"

definition turn_tools ::
  "'e host \<Rightarrow> run_id \<Rightarrow> run_handle \<Rightarrow> nat \<Rightarrow> assistant_turn \<Rightarrow> ('e, batch_outcome) run_step" where
  "turn_tools h i hnd fuel answer =
     (if at_calls answer = [] then retS (False, None)
      else if at_reason answer = Length
      then bindE (fail_truncated_tool_calls h i (at_calls answer)) (\<lambda>t. retS (t, None))
      else if at_reason answer \<noteq> ToolUse
      then run_step_raise (UnsupportedModelStream
             (''assistant emitted tool calls with terminal reason '' @ reason_name (at_reason answer) @
              '', expected ToolUse''))
      else execute_tool_calls h i (h_configuration hnd) fuel (at_calls answer))"

definition break_circuit ::
  "'e host \<Rightarrow> run_id \<Rightarrow> run_handle \<Rightarrow> turn_id \<Rightarrow> string \<Rightarrow> ('e, 'a) run_step" where
  "break_circuit h i hnd t message =
     thenE (emit h i (ProviderRequestSkipped SkippedByCircuitBreaker))
     (thenE (end_turn_and_run h i hnd t ErrorReason)
     (thenE (liftS (fail_run i (display h (ToolCircuitBreakerError message))))
       (run_step_raise (ToolCircuitBreakerError message))))"

text \<open>The end of a turn: the hooks choose the next context and whether to stop, and queued messages go on.\<close>

definition after_turn ::
  "'e host \<Rightarrow> run_id \<Rightarrow> run_handle \<Rightarrow> assistant_turn \<Rightarrow> bool \<Rightarrow> loop_state \<Rightarrow> ('e, loop_state option) run_step" where
  "after_turn h i hnd answer all_terminate ls =
     (let hooks = cf_hooks (h_configuration hnd)
      in thenE (emit h i (TurnEnd (ls_turn ls) (at_reason answer)))
      (bindE current_context (\<lambda>cx.
       bindE (await_hook i (prepare_next h hooks cx)) (\<lambda>r.
       bindE (hook_ok r) (\<lambda>update.
       let prepared = (case tu_context update of Some c \<Rightarrow> c | None \<Rightarrow> cx);
           ls = ls\<lparr>ls_model := (case tu_model update of Some m \<Rightarrow> Some m | None \<Rightarrow> ls_model ls),
                   ls_thinking := (case tu_thinking update of Some t \<Rightarrow> Some t | None \<Rightarrow> ls_thinking ls)\<rparr>
       in bindE (await_hook i (should_stop h hooks prepared)) (\<lambda>r.
          bindE (hook_ok r) (\<lambda>stop.
          if stop then thenE (emit_agent_end_and_succeed h i hnd (at_reason answer)) (retS None)
          else
            let more = (at_calls answer \<noteq> [] \<and> \<not> all_terminate)
            in bindE drain_steering (\<lambda>steered.
               bindE (if \<not> more \<and> steered = [] then drain_follow_up else retS steered) (\<lambda>queued.
               if more \<or> queued \<noteq> []
               then let t = sat_add (ls_turn ls) 1
                 in thenE (liftS (advance_turn i t))
                   (thenE (emit h i (TurnStart t))
                   (bindE (inject_queued_messages h i prepared queued) (\<lambda>cx.
                    retS (Some (ls\<lparr>ls_turn := t, ls_context := Some cx\<rparr>)))))
               else thenE (emit_agent_end_and_succeed h i hnd (at_reason answer)) (retS None))))))))))"

text \<open>One round of the loop of \<open>drive_inner\<close>: the next round's state, or none when the run has ended.\<close>

definition run_turn :: "'e host \<Rightarrow> run_id \<Rightarrow> run_handle \<Rightarrow> nat \<Rightarrow> loop_state \<Rightarrow> ('e, loop_state option) run_step" where
  "run_turn h i hnd fuel ls =
     bindE (request_turn h i hnd fuel ls) (\<lambda>(answer, count, ls).
     bindE (recover_overflow h i hnd count answer ls) (\<lambda>retried.
     case retried of
       Some ls \<Rightarrow> retS (Some ls)
     | None \<Rightarrow>
         if at_reason answer \<in> {ErrorReason, Aborted} then fail_model_turn h i hnd (ls_turn ls) answer
         else bindE (getS (is_cancelled i)) (\<lambda>c.
           if at_reason answer = CancelledReason \<and> c
           then thenE (end_turn_and_run h i hnd (ls_turn ls) (at_reason answer))
             (thenE (liftS (finish i Cancelled CancelledReason None)) (run_step_raise CancelledError))
           else bindE (turn_tools h i hnd fuel answer) (\<lambda>(all_terminate, terminal).
             case terminal of
               Some message \<Rightarrow> break_circuit h i hnd (ls_turn ls) message
             | None \<Rightarrow> after_turn h i hnd answer all_terminate (ls\<lparr>ls_completed := True\<rparr>)))))"

fun drive_loop :: "'e host \<Rightarrow> run_id \<Rightarrow> run_handle \<Rightarrow> nat \<Rightarrow> nat \<Rightarrow> loop_state \<Rightarrow> ('e, unit) run_step" where
  "drive_loop h i hnd fuel 0 ls = failS OutOfFuel"
| "drive_loop h i hnd fuel (Suc rounds) ls =
     bindE (run_turn h i hnd fuel ls) (\<lambda>next.
     case next of None \<Rightarrow> retS () | Some ls \<Rightarrow> drive_loop h i hnd fuel rounds ls)"

text \<open>\<open>drive_inner\<close> after the run has started its first turn.\<close>

definition drive_started :: "'e host \<Rightarrow> run_id \<Rightarrow> run_handle \<Rightarrow> nat \<Rightarrow> nat \<Rightarrow> ('e, unit) run_step" where
  "drive_started h i hnd fuel rounds =
     bindE (getS (\<lambda>w. phase_run (a_phase (w_state w)))) (\<lambda>running.
     if running \<noteq> Some i then run_step_raise (InvalidTransition ''agent'' ''not-running'' ''drive'')
     else
       thenE (emit h i AgentStart)
       (thenE (emit h i (TurnStart 1))
       (thenE (forE (h_initial hnd) (\<lambda>m. thenE (emit h i (MessageStart m)) (emit h i (MessageEnd m))))
       (bindE (if h_skip_steering hnd then retS None
               else bindE current_context (\<lambda>cx. bindE drain_steering (\<lambda>queued.
                    bindE (inject_queued_messages h i cx queued) (\<lambda>cx. retS (Some cx))))) (\<lambda>cx.
        drive_loop h i hnd fuel rounds \<lparr>ls_turn = 1, ls_model = None, ls_thinking = None, ls_estimator = None,
          ls_completed = False, ls_context = cx\<rparr>)))))"

definition drive_inner :: "'e host \<Rightarrow> run_handle \<Rightarrow> nat \<Rightarrow> nat \<Rightarrow> ('e, unit) run_step" where
  "drive_inner h hnd fuel rounds =
     thenE (liftS (start_turn (h_run hnd) 1)) (drive_started h (h_run hnd) hnd fuel rounds)"

definition settle_error :: "'e host \<Rightarrow> run_id \<Rightarrow> run_handle \<Rightarrow> core_error \<Rightarrow> ('e, unit) run_step" where
  "settle_error h i hnd e =
     bindE (getS (is_cancelled i)) (\<lambda>c.
     bindE (getS (policy_of i)) (\<lambda>p.
     if c then (if compaction_cancelled p then settle_compaction_boundary_cancellation h i hnd
                else settle_cancellation h i hnd)
     else case e of
         AutomaticCompactionError reason message \<Rightarrow> settle_compaction_boundary_failure h i hnd e
       | AutomaticCompactionUnavailable reason \<Rightarrow> settle_compaction_boundary_failure h i hnd e
       | _ \<Rightarrow> settle_failure h i hnd e))"

definition drive :: "'e host \<Rightarrow> run_handle \<Rightarrow> nat \<Rightarrow> nat \<Rightarrow> ('e, unit) run_step" where
  "drive h hnd fuel rounds =
     bindE (catch (drive_inner h hnd fuel rounds)) (\<lambda>r.
     case r of
       Inr _ \<Rightarrow> retS ()
     | Inl e \<Rightarrow>
         bindE (getS (\<lambda>w. is_terminal (r_phase (run_of (h_run hnd) w)))) (\<lambda>over.
         thenE (if over then retS () else settle_error h (h_run hnd) hnd e) (run_step_raise e)))"

section \<open>Manual compaction\<close>

definition compaction_emit_failure :: "'e host \<Rightarrow> run_id \<Rightarrow> core_error \<Rightarrow> ('e, 'a) run_step" where
  "compaction_emit_failure h i e = thenE (ignoreS (liftS (fail_run i (display h e)))) (run_step_raise e)"

text \<open>An event of the compaction; an observer's error settles it and is the result.\<close>

definition compaction_emit :: "'e host \<Rightarrow> run_id \<Rightarrow> event_kind \<Rightarrow> ('e, unit) run_step" where
  "compaction_emit h i kind =
     bindE (catch (emit h i kind)) (\<lambda>r. case r of Inr _ \<Rightarrow> retS () | Inl e \<Rightarrow> compaction_emit_failure h i e)"

definition compaction_settle_failure :: "'e host \<Rightarrow> run_id \<Rightarrow> compaction_error \<Rightarrow> ('e, 'a) run_step" where
  "compaction_settle_failure h i e =
     (let message = display h (CompactionError e)
      in thenE (compaction_emit h i (CompactionEnd (CompactionFailed message)))
         (thenE (ignoreS (liftS (fail_run i message))) (run_step_raise (CompactionError e))))"

definition compaction_settle_cancelled :: "'e host \<Rightarrow> run_id \<Rightarrow> ('e, 'a) run_step" where
  "compaction_settle_cancelled h i =
     thenE (compaction_emit h i (CompactionEnd CompactionCancelled))
       (thenE (liftS (settle_cancelled i)) (run_step_raise CancelledError))"

definition drive_compaction :: "'e host \<Rightarrow> run_id \<Rightarrow> capability \<Rightarrow> ('e, unit) run_step" where
  "drive_compaction h i compactor =
     bindE (getS (\<lambda>w. length (a_messages (w_state w)))) (\<lambda>count.
     thenE (compaction_emit h i (CompactionStart count))
     (bindE (getS (is_cancelled i)) (\<lambda>c.
      if c then compaction_settle_cancelled h i
      else
        bindE (getS (\<lambda>w. snapshot_context (w_state w))) (\<lambda>cc.
        bindE (await i (compact h compactor cc c)) (\<lambda>r.
        case r of
          Inl e \<Rightarrow> compaction_settle_failure h i e
        | Inr replacement \<Rightarrow>
            bindE (getS (is_cancelled i)) (\<lambda>c.
            if c then compaction_settle_cancelled h i
            else case validate_messages (cr_messages replacement) of
              Inl e \<Rightarrow> compaction_settle_failure h i (InvalidReplacement e)
            | Inr _ \<Rightarrow>
                bindE (tryS (commit_replacement i (cr_messages replacement))) (\<lambda>r.
                case r of
                  Inl e \<Rightarrow> if e = CancelledError then compaction_settle_cancelled h i
                           else compaction_emit_failure h i e
                | Inr _ \<Rightarrow>
                    let retained = length (cr_messages replacement)
                    in thenE (compaction_emit h i (CompactionResult retained (cr_usage replacement)))
                       (thenE (compaction_emit h i (CompactionEnd (CompactionSucceeded retained)))
                         (liftS (succeed i Stop))))))))))"

end
