(* ===== verification/Laws.thy ===== *)
theory Laws
  imports Run
begin

text \<open>
  What the steps of a driven run respect, whatever the host does at its awaits. \<open>advances i\<close> relates the
  worlds before and after a step of run \<open>i\<close>: the run stays the agent's active run, its event log grows
  and stays numbered from one, cancellation is not taken back, message IDs stay fresh and the agent's
  settings are those of the start. \<open>quiet i\<close> adds that the conversation is left alone. Both interpret
  the locale of composable laws, so each step's law follows from those of the steps it is made of.
\<close>

section \<open>The relations\<close>

definition driven :: "run_id \<Rightarrow> 'e world \<Rightarrow> bool" where
  "driven i w \<longleftrightarrow> owned w \<and> w_active w = Some i \<and> r_phase (run_of i w) = RunRunning"

definition settings ::
  "'e world \<Rightarrow> (agent_configuration \<times> capability option \<times> capability option \<times> compaction_policy \<times>
     projection_policy \<times> u32 option) \<times> string \<times> model_descriptor option \<times> thinking_level \<times> serialized_json list"
  where
  "settings w = ((w_configuration w, w_provider w, w_compactor w, w_compaction w, w_projection w, w_breaker w),
     a_prompt (w_state w), a_model (w_state w), a_thinking (w_state w), a_host_messages (w_state w))"

definition log_of :: "run_id \<Rightarrow> 'e world \<Rightarrow> agent_event list" where
  "log_of i w = r_events (run_of i w)"

text \<open>Sequence numbers count from one and saturate at the largest \<open>u64\<close>.\<close>

definition seq_word :: "nat \<Rightarrow> u64" where
  "seq_word n = word_of_nat (min n (2 ^ 64 - 1))"

definition log_ok :: "run_id \<Rightarrow> 'e world \<Rightarrow> bool" where
  "log_ok i w \<longleftrightarrow> r_id (run_of i w) = i \<and> r_event_count (run_of i w) = seq_word (length (log_of i w)) \<and>
     map ev_sequence (log_of i w) = map (\<lambda>k. seq_word (Suc k)) [0..<length (log_of i w)] \<and>
     (\<forall>ev \<in> set (log_of i w). ev_run ev = i)"

definition log_grows :: "run_id \<Rightarrow> 'e world \<Rightarrow> 'e world \<Rightarrow> bool" where
  "log_grows i w w' \<longleftrightarrow> (\<exists>evs. log_of i w' = log_of i w @ evs) \<and> (log_ok i w \<longrightarrow> log_ok i w')"

definition advances :: "run_id \<Rightarrow> 'e world \<Rightarrow> 'e world \<Rightarrow> bool" where
  "advances i w w' \<longleftrightarrow> (driven i w \<longrightarrow>
     driven i w' \<and> log_grows i w w' \<and> (is_cancelled i w \<longrightarrow> is_cancelled i w') \<and>
     ids_advance (w_state w) (w_state w') \<and> settings w' = settings w)"

definition quiet :: "run_id \<Rightarrow> 'e world \<Rightarrow> 'e world \<Rightarrow> bool" where
  "quiet i w w' \<longleftrightarrow> advances i w w' \<and> (driven i w \<longrightarrow>
     a_messages (w_state w') = a_messages (w_state w) \<and>
     a_next_message_id (w_state w') = a_next_message_id (w_state w))"

text \<open>\<open>still\<close> adds that no event is recorded: all that host code can do.\<close>

definition still :: "run_id \<Rightarrow> 'e world \<Rightarrow> 'e world \<Rightarrow> bool" where
  "still i w w' \<longleftrightarrow> quiet i w w' \<and> (driven i w \<longrightarrow> log_of i w' = log_of i w)"

lemma log_grows_refl: "log_grows i w w"
  by (simp add: log_grows_def)

lemma log_grows_trans: "log_grows i u v \<Longrightarrow> log_grows i v w \<Longrightarrow> log_grows i u w"
  unfolding log_grows_def by (metis append_assoc)

lemma log_grows_same: "run_of i w' = run_of i w \<Longrightarrow> log_grows i w w'"
  by (simp add: log_grows_def log_ok_def log_of_def)

lemma advances_refl: "advances i w w"
  by (simp add: advances_def log_grows_refl ids_advance_refl)

lemma advances_trans: "advances i u v \<Longrightarrow> advances i v w \<Longrightarrow> advances i u w"
  unfolding advances_def by (auto intro: log_grows_trans ids_advance_trans)

lemma quiet_trans: "quiet i u v \<Longrightarrow> quiet i v w \<Longrightarrow> quiet i u w"
  unfolding quiet_def using advances_trans by (metis advances_def)

lemma still_trans: "still i u v \<Longrightarrow> still i v w \<Longrightarrow> still i u w"
  unfolding still_def using quiet_trans by (metis advances_def quiet_def)

text \<open>No step of a run panics.\<close>

abbreviation no_panic :: "failure_kind \<Rightarrow> bool" where
  "no_panic e \<equiv> e \<noteq> Panic"

interpretation adv: step_law "advances i" no_panic for i :: run_id
  by unfold_locales (rule advances_refl, erule (1) advances_trans)

interpretation qt: step_law "quiet i" no_panic for i :: run_id
  by unfold_locales (simp add: quiet_def advances_refl, erule (1) quiet_trans)

interpretation st: step_law "still i" no_panic for i :: run_id
  by unfold_locales (simp add: still_def quiet_def advances_refl, erule (1) still_trans)

lemma still_quiet: "obeys (still i) E m \<Longrightarrow> obeys (quiet i) E m"
  by (simp add: obeys_def still_def)

lemma driven_run: "driven i w \<Longrightarrow> \<exists>c. w_runs w i = Some c"
  by (auto simp: driven_def owned_def)

lemma driven_phase: "driven i w \<Longrightarrow> phase_run (a_phase (w_state w)) = Some i"
  by (auto simp: driven_def owned_def)

lemma driven_busy: "driven i w \<Longrightarrow> when_idle m w = (Inl (ActiveRun i), w)"
  by (simp add: driven_phase when_idle_def)

lemma driven_not_idle: "driven i w \<Longrightarrow> \<not> is_idle w"
  using driven_phase by (fastforce simp: is_idle_def)

section \<open>The host's calls\<close>

lemma still_frame:
  assumes "driven i w \<Longrightarrow> owned w'" and "w_active w' = w_active w" and "run_of i w' = run_of i w"
    and "is_cancelled i w \<longrightarrow> is_cancelled i w'" and "settings w' = settings w"
    and "a_messages (w_state w') = a_messages (w_state w)"
    and "a_next_message_id (w_state w') = a_next_message_id (w_state w)"
  shows "still i w w'"
  using assms by (auto simp: still_def quiet_def advances_def driven_def log_of_def intro: log_grows_same ids_advance_same)

text \<open>A change of fields that no invariant speaks about.\<close>

lemma still_fields:
  assumes "w_state w' = w_state w" and "w_active w' = w_active w" and "w_runs w' = w_runs w"
    and "settings w' = settings w" and "w_idle_waiters w' = w_idle_waiters w \<or> \<not> is_idle w"
  shows "still i w w'"
  using assms
  by (intro still_frame) (auto simp: driven_def run_of_def is_cancelled_def intro: owned_frame)

lemma is_cancelled_token [simp]: "is_cancelled i (cancel_token j w) \<longleftrightarrow> (i = j \<and> w_runs w i \<noteq> None) \<or> is_cancelled i w"
  by (auto simp: is_cancelled_def cancel_token_def world_upd split: option.splits)

lemma settings_upd [simp]: "settings (upd_queues g w) = settings w" "settings (upd_cell j f w) = settings w"
  "settings (cancel_token j w) = settings w"
  by (simp_all add: settings_def cancel_token_def)

lemma cancel_token_frame [simp]:
  "w_configuration (cancel_token i w) = w_configuration w" "w_provider (cancel_token i w) = w_provider w"
  "w_compactor (cancel_token i w) = w_compactor w" "w_compaction (cancel_token i w) = w_compaction w"
  "w_projection (cancel_token i w) = w_projection w" "w_breaker (cancel_token i w) = w_breaker w"
  by (simp_all add: cancel_token_def)

text \<open>While a run is active, the agent's transient state and its phase's kind are free.\<close>

lemma owned_busy:
  assumes "owned w" and "w_active w = Some i" and "phase_run (a_phase (f (w_state w))) = Some i"
  shows "owned (upd_state f w)"
  using assms by (auto simp: owned_def)

lemma still_cancelling:
  assumes driven: "driven i w" and f: "\<And>s. a_phase (f s) = Cancelling i" "\<And>s. a_messages (f s) = a_messages s"
      "\<And>s. a_next_message_id (f s) = a_next_message_id s" "\<And>s. a_prompt (f s) = a_prompt s"
      "\<And>s. a_model (f s) = a_model s" "\<And>s. a_thinking (f s) = a_thinking s"
      "\<And>s. a_host_messages (f s) = a_host_messages s"
  shows "still i w (upd_state f (cancel_token i w))"
proof (rule still_frame)
  assume "driven i w"
  then show "owned (upd_state f (cancel_token i w))"
    using owned_cancel_token [of w i] f(1) by (auto simp: driven_def run_of_upd intro: owned_busy [where i = i])
qed (simp_all add: run_of_upd settings_def f)

lemma still_run_abort: "driven i w \<Longrightarrow> still i w (run_abort i w)"
  using still_cancelling [where f = "\<lambda>s. s\<lparr>a_phase := Cancelling i\<rparr>" and i = i and w = w]
  by (simp add: run_abort_def abort_run_section_def Let_def run_of_upd driven_def)

lemma still_queues: "still i w (upd_queues g w)"
  by (rule still_fields) simp_all

lemma still_agent_abort: "driven i w \<Longrightarrow> still i w (agent_abort w)"
proof -
  let ?f = "\<lambda>s. (clear_transient s)\<lparr>a_phase := Cancelling i\<rparr>"
  assume driven: "driven i w"
  then have "a_phase (w_state w) \<noteq> Idle" using driven_phase by fastforce
  then have abort: "agent_abort w = upd_queues queues_clear (upd_state ?f (cancel_token i w))"
    using driven by (auto simp: agent_abort_def Let_def driven_def run_of_upd upd_state_def)
  have "still i w (upd_state ?f (cancel_token i w))"
    by (rule still_cancelling [OF driven]) (simp_all add: clear_transient_def)
  then show ?thesis unfolding abort using still_queues still_trans by blast
qed

lemma still_run_op:
  assumes "driven i w"
  shows "still i w (run_op op w)"
proof -
  note fields = still_fields [where w = w and i = i]
  have fetched: "when_idle m (snd (fetch_run_id w)) = (Inl (ActiveRun i), snd (fetch_run_id w))"
    for m :: "('a world, core_error, run_handle) step"
    using driven_phase [OF assms] by (simp add: when_idle_def fetch_run_id_def)
  show ?thesis
  proof (cases op)
    case OpAbort
    then show ?thesis using still_agent_abort [OF assms] by simp
  next
    case (OpReplaceAutomaticCompaction p)
    then show ?thesis
      by (auto simp: replace_automatic_compaction_def driven_busy [OF assms] st.R_refl split: sum.splits)
  qed (use driven_not_idle [OF assms] fetched in \<open>auto intro!: fields simp: driven_busy [OF assms] st.R_refl settings_def
      enqueue_steering_def enqueue_follow_up_def reset_def
      restore_messages_def replace_model_provider_def replace_thinking_level_def replace_configuration_def
      start_prompt_def start_run_def start_continue_def start_compaction_def fetch_run_id_def
      subscribe_def unsubscribe_def subscribe_nonblocking_def drop_subscription_def subscribe_lossless_def
      drop_lossless_def poll_wait_for_idle_def Let_def case_prod_beta\<close>)
qed

lemma still_host_calls: "still i w (fold (run_host_call i) calls w)"
proof (induction calls arbitrary: w)
  case Nil
  then show ?case by (simp add: st.R_refl)
next
  case (Cons call calls)
  have "still i w (run_host_call i call w)"
  proof (cases "driven i w")
    case True
    then show ?thesis by (cases call) (simp_all add: still_run_op still_run_abort)
  next
    case False
    then show ?thesis by (simp add: still_def quiet_def advances_def)
  qed
  then show ?case using Cons.IH st.R_trans by fastforce
qed

lemma still_undriven: "\<not> driven i w \<Longrightarrow> still i w w'"
  by (simp add: still_def quiet_def advances_def)

section \<open>Steps of the host boundary\<close>

lemma still_await: "obeys (still i) no_panic (await i f)"
proof (rule obeysI)
  fix w :: "'a world"
  obtain r calls e where f: "f (w_env w) = (r, calls, e)" by (metis prod_cases3)
  have "still i w (w\<lparr>w_env := e\<rparr>)" by (rule still_fields) (simp_all add: settings_def)
  then have "still i w (fold (run_host_call i) calls (w\<lparr>w_env := e\<rparr>))" by (rule still_trans [OF _ still_host_calls])
  then show "still i w (snd (await i f w))" by (simp add: await_def f)
qed (auto simp: await_def split: prod.splits)

lemma still_await_hook: "obeys (still i) no_panic (await_hook i f)"
  unfolding await_hook_def by (intro st.law_intros still_await)

lemma still_hook_ok: "obeys (still i) no_panic (hook_ok r)"
  by (cases r) (auto simp: st.law_intros)

lemma seq_word_Suc: "sat_add (seq_word n) 1 = seq_word (Suc n)"
  by (rule word_unat_eq_iff [THEN iffD2]) (simp add: unat_sat_add seq_word_def unat_of_nat min_def)

lemma log_ok_append:
  assumes "log_ok i w" and "r_id (run_of i w') = r_id (run_of i w)"
    and "r_event_count (run_of i w') = sat_add (r_event_count (run_of i w)) 1"
    and "log_of i w' = log_of i w @ [ev]" and "ev_run ev = r_id (run_of i w)"
    and "ev_sequence ev = sat_add (r_event_count (run_of i w)) 1"
  shows "log_ok i w'"
  using assms seq_word_Suc by (auto simp: log_ok_def)

lemma record_event_world:
  "record_event i kind w = (ev, w') \<Longrightarrow> w' = upd_run i (\<lambda>r. r\<lparr>r_event_count := ev_sequence ev, r_events := r_events r @ [ev]\<rparr>) w \<and>
     ev = \<lparr>ev_run = r_id (run_of i w), ev_sequence = sat_add (r_event_count (run_of i w)) 1, ev_kind = kind\<rparr>"
  by (auto simp: record_event_def Let_def)

lemma quiet_record_event: "quiet i w (snd (record_event i kind w))"
proof (cases "driven i w")
  case True
  obtain ev w' where rec: "record_event i kind w = (ev, w')" by fastforce
  note w' = record_event_world [OF rec]
  have known: "w_runs w i \<noteq> None" using driven_run [OF True] by auto
  then have run: "run_of i w' = (run_of i w)\<lparr>r_event_count := ev_sequence ev, r_events := r_events (run_of i w) @ [ev]\<rparr>"
    using w' by (auto simp: run_of_def world_upd)
  then have "log_of i w' = log_of i w @ [ev]" by (simp add: log_of_def)
  then have "log_grows i w w'" using log_ok_append [of i w w' ev] run w' by (simp add: log_grows_def)
  moreover have "owned w'" using True known w' by (auto simp: driven_def intro: owned_upd_run)
  then have "driven i w'" using True run w' by (simp add: driven_def)
  moreover have "is_cancelled i w' = is_cancelled i w"
    using w' by (auto simp: is_cancelled_def split: option.splits)
  ultimately show ?thesis
    using w' by (simp add: rec quiet_def advances_def ids_advance_refl)
qed (simp add: quiet_def advances_def)

lemma still_notify: "obeys (still i) no_panic (notify_observer h i ev reg)"
  unfolding notify_observer_def by (auto intro!: st.law_intros still_await split: sum.split)

lemma still_deliver: "obeys (still i) no_panic (deliver h i ev)"
  unfolding deliver_def
  by (intro st.law_bindE st.law_modS st.law_getS st.law_forE still_notify still_fields)
    (auto simp: settings_def)

lemma quiet_emit: "obeys (quiet i) no_panic (emit h i kind)"
proof (rule obeysI)
  fix w :: "'a world"
  obtain ev v where v: "record_event i kind w = (ev, v)" by fastforce
  then have "quiet i w v" using quiet_record_event by (metis snd_conv)
  moreover have "quiet i v (snd (deliver h i ev v))" using still_quiet [OF still_deliver] by (auto simp: obeys_def)
  ultimately show "quiet i w (snd (emit h i kind w))" using quiet_trans by (auto simp: emit_def v)
  show "no_panic e" if "fst (emit h i kind w) = Inl e" for e
    using that still_deliver [of i h ev] by (auto simp: emit_def v obeys_def)
qed

text \<open>Emitting records exactly one event.\<close>

lemma emit_log:
  assumes w: "driven i w" and run: "emit h i kind w = (r, w')"
  obtains ev where "log_of i w' = log_of i w @ [ev]" and "ev_kind ev = kind"
proof -
  obtain ev v where v: "record_event i kind w = (ev, v)" by fastforce
  have known: "w_runs w i \<noteq> None" using driven_run [OF w] by auto
  have "log_of i v = log_of i w @ [ev]" "ev_kind ev = kind"
    using record_event_world [OF v] known by (auto simp: log_of_def run_of_def world_upd)
  moreover have "driven i v" using quiet_record_event [of i w kind] w by (simp add: v quiet_def advances_def)
  moreover have "still i v w'" using still_deliver run by (auto simp: emit_def v dest: obeysD)
  ultimately show ?thesis using that by (auto simp: still_def)
qed

lemma still_state:
  assumes "\<And>s. a_phase (f s) = a_phase s" "\<And>s. a_messages (f s) = a_messages s"
      "\<And>s. a_next_message_id (f s) = a_next_message_id s" "\<And>s. a_prompt (f s) = a_prompt s"
      "\<And>s. a_model (f s) = a_model s" "\<And>s. a_thinking (f s) = a_thinking s"
      "\<And>s. a_host_messages (f s) = a_host_messages s"
  shows "obeys (still i) no_panic (modS (upd_state f))"
proof (rule obeysI, rule still_frame)
  fix w :: "'a world"
  assume "driven i w"
  then show "owned (snd (modS (upd_state f) w))"
    using driven_phase [of i w] assms(1) by (auto simp: modS_def driven_def intro: owned_busy)
qed (simp_all add: modS_def settings_def assms)

lemmas quiet_state = still_quiet [OF still_state]

lemma still_cell:
  fixes w :: "'a world"
  assumes "\<And>c. c_state (f c) = c_state c" and "\<And>c. c_cancelled (f c) = c_cancelled c"
  shows "still i w (upd_cell i f w)"
proof (rule still_frame)
  show "run_of i (upd_cell i f w) = run_of i w" "is_cancelled i w \<longrightarrow> is_cancelled i (upd_cell i f w)"
    using assms by (auto simp: run_of_def is_cancelled_def split: option.splits)
  assume "driven i w"
  then show "owned (upd_cell i f w)"
    using assms by (auto simp: driven_def owned_def split: option.splits)
qed (simp_all add: settings_def)

lemma quiet_policy: "obeys (quiet i) no_panic (modS (upd_policy i f))"
  by (intro still_quiet st.law_modS still_cell) simp_all

named_theorems quiet_rules \<open>steps that leave the conversation alone\<close>

lemmas [quiet_rules] = qt.law_intros still_await [THEN still_quiet] still_await_hook [THEN still_quiet]
  still_hook_ok [THEN still_quiet] quiet_emit quiet_policy

lemma quiet_liftS: "(\<And>w. quiet i w (snd (m w))) \<Longrightarrow> obeys (quiet i) no_panic (liftS m)"
  by (auto simp: obeys_def liftS_def bindS_def retS_def split: prod.splits sum.splits) (metis snd_conv)+

section \<open>Tool execution\<close>

lemma quiet_pending [quiet_rules]: "obeys (quiet i) no_panic (modS (upd_state (\<lambda>s. s\<lparr>a_pending := f s\<rparr>)))"
  by (rule quiet_state) simp_all

lemma quiet_current_context [quiet_rules]: "obeys (quiet i) no_panic current_context"
  by (auto simp: current_context_def obeys_def qt.R_refl)

lemma quiet_emit_tool_updates [quiet_rules]: "obeys (quiet i) no_panic (emit_tool_updates h i us)"
  unfolding emit_tool_updates_def by (auto intro!: quiet_rules)

lemma quiet_gather [quiet_rules]: "obeys (quiet i) no_panic (gather h i slots p)"
  unfolding gather_def by (intro quiet_rules)

lemma quiet_flush [quiet_rules]: "obeys (quiet i) no_panic (flush_tool_updates h i slots fuel p)"
  by (induction fuel arbitrary: p) (simp_all add: quiet_rules)

lemma quiet_execution_end [quiet_rules]: "obeys (quiet i) no_panic (emit_tool_execution_end h i call r)"
  unfolding emit_tool_execution_end_def by (intro quiet_rules)

lemma quiet_announce [quiet_rules]: "obeys (quiet i) no_panic (announce_call h i call)"
  unfolding announce_call_def by (intro quiet_rules)

lemma quiet_prepare [quiet_rules]: "obeys (quiet i) no_panic (prepare_tool_call h i cf call)"
  unfolding prepare_tool_call_def
  by (auto intro!: quiet_rules split: option.split sum.split before_tool_call.split prod.split)

lemma quiet_finalize [quiet_rules]: "obeys (quiet i) no_panic (finalize_executed_tool h i cf call execution)"
  unfolding finalize_executed_tool_def Let_def
  by (auto intro!: quiet_rules split: sum.split prod.split)

lemma quiet_observe_failure [quiet_rules]: "obeys (quiet i) no_panic (observe_tool_failure h i call r)"
  unfolding observe_tool_failure_def Let_def
  by (auto intro!: quiet_rules split: prod.split)

lemma quiet_poll_tool [quiet_rules]: "obeys (quiet i) no_panic (poll_tool h i slots slot call p)"
  unfolding poll_tool_def by (auto intro!: quiet_rules split: prod.split)

lemma quiet_next_tool_step [quiet_rules]: "obeys (quiet i) no_panic (next_tool_step h i slots slot call allow fuel p)"
  by (induction fuel arbitrary: p) (auto intro!: quiet_rules split: prod.split option.split)

lemma quiet_tool_loop [quiet_rules]: "obeys (quiet i) no_panic (tool_loop h i slots slot call polls fuel allow p)"
  by (induction fuel arbitrary: allow p) (auto intro!: quiet_rules split: prod.split tool_step.split)

lemma quiet_execute_one [quiet_rules]: "obeys (quiet i) no_panic (execute_one_tool_call h i cf fuel slot call)"
  unfolding execute_one_tool_call_def Let_def by (auto intro!: quiet_rules split: prod.split prepared_call.split)

lemma quiet_poll_from [quiet_rules]: "obeys (quiet i) no_panic (poll_from h i slots index rest s)"
proof (induction rest arbitrary: index s)
  case (Cons x rest)
  then show ?case
    by (cases x) (auto simp: Let_def take_updates_def intro!: quiet_rules split: option.split)
qed (auto simp: Let_def take_updates_def intro!: quiet_rules)

lemma quiet_poll_parallel [quiet_rules]: "obeys (quiet i) no_panic (poll_parallel h i slots s)"
  unfolding poll_parallel_def take_updates_def by (auto simp: Let_def intro!: quiet_rules)

lemma quiet_ps_gather [quiet_rules]: "obeys (quiet i) no_panic (ps_gather h i slots s)"
  unfolding ps_gather_def by (intro quiet_rules)

lemma quiet_ps_flush [quiet_rules]: "obeys (quiet i) no_panic (ps_flush h i slots fuel s)"
  unfolding ps_flush_def by (intro quiet_rules)

lemma quiet_next_parallel_step [quiet_rules]: "obeys (quiet i) no_panic (next_parallel_step h i slots fuel s)"
  by (induction fuel arbitrary: s) (auto intro!: quiet_rules split: prod.split option.split)

lemma quiet_cancel_pending [quiet_rules]: "obeys (quiet i) no_panic (cancel_pending h i rest s)"
  by (induction h i rest s rule: cancel_pending.induct) (auto intro!: quiet_rules)

lemma quiet_settle_siblings [quiet_rules]: "obeys (quiet i) no_panic (settle_siblings h i cf slots fuel ids rest s)"
  by (induction h i cf slots fuel ids rest s rule: settle_siblings.induct)
    (auto intro!: quiet_rules split: option.split prod.split)

lemma quiet_handle_parallel [quiet_rules]: "obeys (quiet i) no_panic (handle_parallel_step h i cf slots fuel st s)"
  by (cases st) (auto intro!: quiet_rules split: prod.split)

lemma quiet_parallel_loop [quiet_rules]: "obeys (quiet i) no_panic (parallel_loop h i cf slots polls fuel s)"
  by (induction fuel arbitrary: s) (auto intro!: quiet_rules split: prod.split)

lemma quiet_prepare_all [quiet_rules]: "obeys (quiet i) no_panic (prepare_all h i cf slot calls finished)"
  by (induction calls arbitrary: slot finished)
    (auto simp: Let_def intro!: quiet_rules split: prepared_call.split prod.split)

lemma quiet_start_all [quiet_rules]: "obeys (quiet i) no_panic (start_all h i slots rest p)"
proof (induction rest arbitrary: slots p)
  case (Cons x rest)
  then show ?case by (cases x) (auto simp: Let_def intro!: quiet_rules)
qed (simp add: quiet_rules)

end
