(* ===== verification/Transcript.thy ===== *)
theory Transcript
  imports Laws
begin

text \<open>
  What driven steps do to the conversation. A step that only appends is described by the messages it
  appends (\<open>records\<close>), any other by a condition on the conversation before and after (\<open>edits\<close>); both
  come with the step's law and say that it does not panic. From them: a batch of tool calls answers
  its calls in order, and an assistant response is one message that grows in place.
\<close>

section \<open>What a step appends to the conversation\<close>

abbreviation transcript :: "'e world \<Rightarrow> agent_message list" where
  "transcript w \<equiv> a_messages (w_state w)"

text \<open>
  A step of a driven run that only appends messages, with what it says of them and of its result. A
  sequence of such steps appends what its parts append.
\<close>

definition records :: "run_id \<Rightarrow> ('e, 'a) run_step \<Rightarrow> (failure_kind + 'a \<Rightarrow> agent_message list \<Rightarrow> bool) \<Rightarrow> bool"
  where
  "records i m S \<longleftrightarrow> (\<forall>w r w'. driven i w \<longrightarrow> m w = (r, w') \<longrightarrow>
     advances i w w' \<and> r \<noteq> Inl Panic \<and> (\<exists>ms. transcript w' = transcript w @ ms \<and> S r ms))"

lemma recordsI:
  "(\<And>w r w'. driven i w \<Longrightarrow> m w = (r, w') \<Longrightarrow> advances i w w' \<and> r \<noteq> Inl Panic \<and>
    (\<exists>ms. transcript w' = transcript w @ ms \<and> S r ms)) \<Longrightarrow> records i m S"
  by (simp add: records_def)

lemma recordsD:
  assumes "records i m S" and "driven i w" and "m w = (r, w')"
  obtains ms where "advances i w w'" and "driven i w'" and "r \<noteq> Inl Panic" and "transcript w' = transcript w @ ms" and "S r ms"
proof -
  from assms obtain ms where "advances i w w'" "r \<noteq> Inl Panic" "transcript w' = transcript w @ ms" "S r ms"
    unfolding records_def by blast
  moreover then have "driven i w'" using assms(2) by (simp add: advances_def)
  ultimately show ?thesis using that by blast
qed

lemma records_weaken: "records i m S \<Longrightarrow> (\<And>r ms. S r ms \<Longrightarrow> T r ms) \<Longrightarrow> records i m T"
  unfolding records_def by blast

lemma records_quiet: "obeys (quiet i) no_panic m \<Longrightarrow> records i m (\<lambda>r ms. ms = [])"
  by (rule recordsI) (auto dest: obeysD obeys_error simp: quiet_def)

lemma records_retS: "records i (retS x) (\<lambda>r ms. r = Inr x \<and> ms = [])"
  by (rule recordsI) (auto simp: retS_def adv.R_refl)

lemma records_failS: "e \<noteq> Panic \<Longrightarrow> records i (failS e) (\<lambda>r ms. r = Inl e \<and> ms = [])"
  by (rule recordsI) (auto simp: failS_def adv.R_refl)

lemma records_bindE:
  assumes m: "records i m S" and k: "\<And>x. records i (k x) (T x)"
  shows "records i (bindE m k) (\<lambda>r ms. (\<exists>e. r = Inl e \<and> S (Inl e) ms) \<or>
    (\<exists>x as bs. ms = as @ bs \<and> S (Inr x) as \<and> T x r bs))"
proof (rule recordsI)
  fix w :: "'a world" and r w'
  assume w: "driven i w" and run: "bindE m k w = (r, w')"
  obtain q v where q: "m w = (q, v)" by fastforce
  obtain as where as: "advances i w v" "driven i v" "q \<noteq> Inl Panic" "transcript v = transcript w @ as" "S q as"
    by (rule recordsD [OF m w q])
  show "advances i w w' \<and> r \<noteq> Inl Panic \<and> (\<exists>ms. transcript w' = transcript w @ ms \<and>
      ((\<exists>e. r = Inl e \<and> S (Inl e) ms) \<or> (\<exists>x as bs. ms = as @ bs \<and> S (Inr x) as \<and> T x r bs)))"
  proof (cases q)
    case (Inl e)
    then have "r = Inl e" "w' = v" using run q by (auto simp: bindE_def bindS_def)
    then show ?thesis using as Inl by blast
  next
    case (Inr x)
    then have "k x v = (r, w')" using run q by (simp add: bindE_def bindS_def)
    then obtain bs where bs: "advances i v w'" "r \<noteq> Inl Panic" "transcript w' = transcript v @ bs" "T x r bs"
      by (rule recordsD [OF k as(2)])
    then have "advances i w w'" using as(1) adv.R_trans by blast
    moreover have "transcript w' = transcript w @ (as @ bs)" using as(4) bs(3) by simp
    ultimately show ?thesis using as(5) bs(2,4) Inr by blast
  qed
qed

lemma records_quiet_then:
  assumes "obeys (quiet i) no_panic m" and "\<And>x. records i (k x) S" and "\<And>e. S (Inl e) []"
  shows "records i (bindE m k) S"
  by (rule records_weaken [OF records_bindE [OF records_quiet [OF assms(1)] assms(2)]]) (use assms(3) in auto)

lemma records_then_quiet:
  assumes "records i m S" and "\<And>x. obeys (quiet i) no_panic (k x)" and "\<And>e ms. S (Inl e) ms \<Longrightarrow> T (Inl e) ms"
    and "\<And>x r ms. S (Inr x) ms \<Longrightarrow> T r ms"
  shows "records i (bindE m k) T"
  by (rule records_weaken [OF records_bindE [OF assms(1) records_quiet [OF assms(2)]]]) (use assms(3,4) in auto)

text \<open>Allocating an ID and pushing the message made with it.\<close>

lemma run_of_state [simp]:
  "run_of i (w\<lparr>w_state := s\<rparr>) = run_of i w" "is_cancelled i (w\<lparr>w_state := s\<rparr>) = is_cancelled i w"
  by (simp_all add: run_of_def is_cancelled_def)

definition keeps_core :: "(agent_state \<Rightarrow> agent_state) \<Rightarrow> bool" where
  "keeps_core f \<longleftrightarrow> (\<forall>s. a_messages (f s) = a_messages s \<and> a_next_message_id (f s) = a_next_message_id s \<and>
     a_phase (f s) = a_phase s \<and> a_prompt (f s) = a_prompt s \<and> a_model (f s) = a_model s \<and>
     a_thinking (f s) = a_thinking s \<and> a_host_messages (f s) = a_host_messages s)"

lemma advances_push:
  assumes driven: "driven i w" and ks: "allocate_message_id (w_state w) = (k, s)" and m: "message_id m = k"
    and f: "keeps_core f"
  shows "advances i w (w\<lparr>w_state := push_message m (f s)\<rparr>)" (is "advances i w ?w'")
    and "transcript (w\<lparr>w_state := push_message m (f s)\<rparr>) = transcript w @ [m]"
proof -
  have s: "k = a_next_message_id (w_state w)" "s = (w_state w)\<lparr>a_next_message_id := sat_add k 1\<rparr>"
    using ks by (auto simp: allocate_message_id_def)
  note same = s f [unfolded keeps_core_def]
  show tr: "transcript (w\<lparr>w_state := push_message m (f s)\<rparr>) = transcript w @ [m]" by (simp add: push_message_def same)
  have "ids_advance (w_state w) (push_message m (f s))"
    by (rule ids_advance_push [where m = m]) (simp_all add: push_message_def same m)
  moreover have "owned (upd_state (\<lambda>_. push_message m (f s)) w)"
    using driven driven_phase [OF driven] by (intro owned_busy [where i = i]) (simp_all add: driven_def push_message_def same)
  then have "owned ?w'" by (simp add: upd_state_def)
  ultimately show "advances i w ?w'"
    using driven by (auto simp: advances_def driven_def settings_def push_message_def same intro: log_grows_same)
qed

lemma records_push:
  assumes "keeps_core f" and "\<And>k. message_id (mk k) = k"
  shows "records i (push_new f mk) (\<lambda>r ms. \<exists>k. r = Inr (mk k) \<and> ms = [mk k])"
proof (rule recordsI)
  fix w :: "'a world" and r w'
  assume w: "driven i w" and run: "push_new f mk w = (r, w')"
  obtain k s where ks: "allocate_message_id (w_state w) = (k, s)" by fastforce
  then have "r = Inr (mk k)" "w' = w\<lparr>w_state := push_message (mk k) (f s)\<rparr>" using run by (auto simp: push_new_def Let_def)
  then show "advances i w w' \<and> r \<noteq> Inl Panic \<and> (\<exists>ms. transcript w' = transcript w @ ms \<and> (\<exists>k. r = Inr (mk k) \<and> ms = [mk k]))"
    using advances_push [OF w ks assms(2,1)] by blast
qed

lemma records_append_message:
  assumes "\<And>k. message_id (mk k) = k"
  shows "records i (append_message h i mk) (\<lambda>r ms. \<exists>k. ms = [mk k])"
  unfolding append_message_def
  by (rule records_then_quiet [OF records_push]) (auto simp: keeps_core_def assms intro!: quiet_rules)

section \<open>Tool batches answer their calls\<close>

definition answers_call :: "tool_call \<Rightarrow> agent_message \<Rightarrow> bool" where
  "answers_call call m \<longleftrightarrow> (\<exists>k r. m = ToolResultMessage k (tc_name call) r \<and> tool_call_id r = tc_id call)"

text \<open>
  One message for each item, in the order of the items; when the step ends early, for the items up to
  some point. For a batch of calls the messages are the calls' results.
\<close>

definition in_turn :: "('x \<Rightarrow> agent_message \<Rightarrow> bool) \<Rightarrow> 'x list \<Rightarrow> failure_kind + 'a \<Rightarrow> agent_message list \<Rightarrow> bool" where
  "in_turn R xs r ms \<longleftrightarrow>
     (\<exists>n \<le> length xs. list_all2 R (take n xs) ms \<and> (\<forall>x. r = Inr x \<longrightarrow> n = length xs))"

abbreviation batch_answers :: "tool_call list \<Rightarrow> failure_kind + 'a \<Rightarrow> agent_message list \<Rightarrow> bool" where
  "batch_answers \<equiv> in_turn answers_call"

lemma in_turn_error [simp, intro]: "in_turn R xs (Inl e) []"
  by (auto simp: in_turn_def)

lemma in_turn_Nil: "in_turn R [] r ms \<longleftrightarrow> ms = []"
  by (auto simp: in_turn_def)

lemma in_turn_Inr [simp]: "in_turn R xs (Inr x) ms \<longleftrightarrow> list_all2 R xs ms"
  by (auto simp: in_turn_def)

lemma in_turn_Cons: "R x m \<Longrightarrow> in_turn R xs r ms \<Longrightarrow> in_turn R (x # xs) r (m # ms)"
proof -
  assume m: "R x m" and "in_turn R xs r ms"
  then obtain n where "n \<le> length xs" "list_all2 R (take n xs) ms" "\<forall>x. r = Inr x \<longrightarrow> n = length xs"
    unfolding in_turn_def by blast
  with m show ?thesis unfolding in_turn_def by (intro exI [of _ "Suc n"]) simp
qed

lemma in_turn_one: "R x m \<Longrightarrow> in_turn R (x # xs) (Inl e) [m]"
  by (rule in_turn_Cons) auto

lemma in_turn_then:
  assumes "records i p (\<lambda>r ms. \<exists>m. R x m \<and> ms = [m])" and "\<And>y. records i (k y) (in_turn R xs)"
  shows "records i (bindE p k) (in_turn R (x # xs))"
  by (rule records_weaken [OF records_bindE [OF assms]]) (auto intro: in_turn_one in_turn_Cons)

lemma in_turn_quiet:
  "obeys (quiet i) no_panic m \<Longrightarrow> (\<And>x. records i (k x) (in_turn R xs)) \<Longrightarrow> records i (bindE m k) (in_turn R xs)"
  by (rule records_quiet_then) auto

lemma records_answer:
  "records i (append_tool_result_message h i call r) (\<lambda>q ms. \<exists>m. answers_call call m \<and> ms = [m])"
  unfolding append_tool_result_message_def
  by (rule records_weaken [OF records_append_message]) (auto simp: answers_call_def)

lemma records_answer_then:
  "(\<And>x. records i (k x) (batch_answers calls)) \<Longrightarrow>
    records i (bindE (append_tool_result_message h i call r) k) (batch_answers (call # calls))"
  by (rule in_turn_then [OF records_answer])

lemma records_end: "obeys (quiet i) no_panic m \<Longrightarrow> records i m (in_turn R [])"
  by (rule records_weaken [OF records_quiet]) (auto simp: in_turn_Nil)

lemma in_turn_ret: "records i (retS x) (in_turn R [])"
  by (rule records_end) (rule quiet_rules)

lemma records_answer_all:
  "records i (forE calls (\<lambda>call. append_tool_result_message h i call (f call))) (batch_answers calls)"
proof (induction calls)
  case (Cons call calls)
  show ?case unfolding forE.simps by (rule records_answer_then) (rule Cons.IH)
qed (simp add: in_turn_ret)

lemma records_then_ret:
  assumes "records i m (batch_answers calls)"
  shows "records i (thenE m (retS x)) (batch_answers calls)"
  by (rule records_then_quiet [OF assms]) (auto simp: in_turn_def intro: quiet_rules)

lemma records_execute_sequential:
  "records i (execute_sequential h i cf fuel slot calls all_terminate) (batch_answers calls)"
proof (induction calls arbitrary: slot all_terminate)
  case (Cons call calls)
  have rest: "records i (case observed of
        Some m \<Rightarrow> thenE (append_skipped_sequential_calls h i calls m) (retS (False, Some m))
      | None \<Rightarrow> execute_sequential h i cf fuel (Suc slot) calls t) (batch_answers calls)" for observed t
    unfolding append_skipped_sequential_calls_def
    by (cases observed) (auto intro: Cons.IH records_then_ret records_answer_all)
  show ?case
    unfolding execute_sequential.simps Let_def case_prod_beta
    by (intro in_turn_quiet records_answer_then rest quiet_rules)
qed (simp add: in_turn_ret)

text \<open>Every slot of a parallel batch stays accounted for: it has a completion or its future is pending.\<close>

lemma dom_upd_Some: "dom (m(k \<mapsto> v)) = insert k (dom m)"
  by simp

definition accounted :: "nat \<Rightarrow> pending_tools \<Rightarrow> parallel_state \<Rightarrow> bool" where
  "accounted n rest s \<longleftrightarrow> {..<n} \<subseteq> dom (ps_completions s) \<union> fst ` set (ps_pending s) \<union> fst ` set rest"

lemma set_swap_remove: "k < length xs \<Longrightarrow> set xs \<subseteq> insert (xs ! k) (set (swap_remove k xs))"
proof
  fix x assume k: "k < length xs" and "x \<in> set xs"
  then obtain j where j: "j < length xs" "x = xs ! j" by (auto simp: in_set_conv_nth)
  have ne: "xs \<noteq> []" using k by auto
  show "x \<in> insert (xs ! k) (set (swap_remove k xs))"
  proof (cases "j = k")
    case False
    show ?thesis
    proof (cases "Suc j = length xs")
      case True
      then have "x = last xs" "Suc k \<noteq> length xs" using j(2) ne False by (auto simp: last_conv_nth simp flip: True)
      then have "swap_remove k xs ! k = x" "k < length (swap_remove k xs)"
        using k by (auto simp: swap_remove_def)
      then show ?thesis by (metis insertCI nth_mem)
    next
      case inner: False
      then have "swap_remove k xs ! j = x" "j < length (swap_remove k xs)"
        using j False k by (auto simp: swap_remove_def nth_butlast nth_list_update)
      then show ?thesis by (metis insertCI nth_mem)
    qed
  qed (simp add: j)
qed

definition step_accounts :: "parallel_state \<Rightarrow> parallel_step option \<times> parallel_state \<Rightarrow> bool" where
  "step_accounts s x \<longleftrightarrow> ps_completions (snd x) = ps_completions s \<and>
     (case fst x of Some (ParCompleted slot call r us) \<Rightarrow>
          fst ` set (ps_pending s) \<subseteq> insert slot (fst ` set (ps_pending (snd x)))
      | _ \<Rightarrow> ps_pending (snd x) = ps_pending s)"

lemma step_accountsI:
  "ps_completions s' = ps_completions s \<Longrightarrow> ps_pending s' = ps_pending s \<Longrightarrow> step_accounts s (None, s')"
  "ps_completions s' = ps_completions s \<Longrightarrow> ps_pending s' = ps_pending s \<Longrightarrow> step_accounts s (Some (ParUpdates us), s')"
  "ps_completions s' = ps_completions s \<Longrightarrow> ps_pending s' = ps_pending s \<Longrightarrow> step_accounts s (Some (ParCancelled us), s')"
  "ps_completions s' = ps_completions s \<Longrightarrow> fst ` set (ps_pending s) \<subseteq> insert slot (fst ` set (ps_pending s')) \<Longrightarrow>
    step_accounts s (Some (ParCompleted slot call r us), s')"
  by (simp_all add: step_accounts_def)

lemma step_accounts_cong:
  "ps_completions s' = ps_completions s \<Longrightarrow> ps_pending s' = ps_pending s \<Longrightarrow> step_accounts s' = step_accounts s"
  by (rule ext) (simp only: step_accounts_def)

lemma ps_updates_only [simp]:
  "ps_completions (ps_push slots us s) = ps_completions s" "ps_pending (ps_push slots us s) = ps_pending s"
  "ps_completions (ps_close c s) = ps_completions s" "ps_pending (ps_close c s) = ps_pending s"
  "ps_completions (snd (take_updates s)) = ps_completions s" "ps_pending (snd (take_updates s)) = ps_pending s"
  by (simp_all add: ps_push_def ps_close_def take_updates_def)

lemma poll_from_accounts:
  "rest = drop index (ps_pending s) \<Longrightarrow> returns (poll_from h i slots index rest s) (step_accounts s)"
proof (induction rest arbitrary: index s)
  case Nil
  show ?case by (auto simp: case_prod_beta Let_def intro!: returns_after returns_retS step_accountsI)
next
  case (Cons x rest)
  obtain slot call where x: "x = (slot, call)" by fastforce
  have short: "index < length (ps_pending s)"
  proof (rule ccontr)
    assume "\<not> index < length (ps_pending s)"
    then show False using Cons.prems by simp
  qed
  have index: "ps_pending s ! index = x" "rest = drop (Suc index) (ps_pending s)"
    using Cons.prems Cons_nth_drop_Suc [OF short] by (metis list.inject)+
  have rec: "returns (poll_from h i slots (Suc index) rest s') (step_accounts s)"
    if "ps_pending s' = ps_pending s" "ps_completions s' = ps_completions s" for s'
    using Cons.IH [of "Suc index" s'] index(2) that step_accounts_cong [of s' s] by simp
  have removed: "fst ` set (ps_pending s) \<subseteq> insert slot (fst ` set (swap_remove index (ps_pending s)))"
    using set_swap_remove [OF short] by (force simp: index(1) x)
  have completed: "step_accounts s (Some (ParCompleted slot call r us), s')"
    if "ps_completions s' = ps_completions s" "ps_pending s' = swap_remove index (ps_pending s)" for r us s'
    using removed that by (intro step_accountsI(4)) simp_all
  show ?case
    unfolding x poll_from.simps Let_def case_prod_beta
    by (auto intro!: returns_after returns_retS rec completed step_accountsI(1-3) split: option.split)
qed

lemma next_parallel_accounts:
  "returns (next_parallel_step h i slots fuel s) (\<lambda>x. step_accounts s (Some (fst x), snd x))"
proof (induction fuel arbitrary: s)
  case (Suc fuel)
  have poll: "returns (poll_parallel h i slots s) (step_accounts s)"
    unfolding poll_parallel_def Let_def case_prod_beta
    by (auto intro!: returns_after returns_retS poll_from_accounts step_accountsI)
  have gather: "returns (ps_gather h i slots s') (\<lambda>s''. ps_pending s'' = ps_pending s' \<and> ps_completions s'' = ps_completions s')" for s'
    unfolding ps_gather_def by (auto intro!: returns_after returns_retS)
  show ?case
    unfolding next_parallel_step.simps
  proof (rule returns_bindE [OF poll])
    fix x assume x: "step_accounts s x"
    obtain st s' where x': "x = (st, s')" by fastforce
    show "returns (case x of (st, s') \<Rightarrow> case st of Some st \<Rightarrow> retS (st, s')
        | None \<Rightarrow> bindE (ps_gather h i slots s') (next_parallel_step h i slots fuel)) (\<lambda>x. step_accounts s (Some (fst x), snd x))"
    proof (cases st)
      case None
      then have same: "ps_pending s' = ps_pending s" "ps_completions s' = ps_completions s"
        using x x' by (auto simp: step_accounts_def)
      have "returns (next_parallel_step h i slots fuel s'') (\<lambda>x. step_accounts s (Some (fst x), snd x))"
        if "ps_pending s'' = ps_pending s' \<and> ps_completions s'' = ps_completions s'" for s''
        using Suc.IH [of s''] that same step_accounts_cong [of s'' s] by simp
      then show ?thesis using None x' by (auto intro!: returns_bindE [OF gather])
    next
      case (Some q)
      then show ?thesis using x x' by (auto intro!: returns_retS)
    qed
  qed
qed (simp add: returns_failS)

lemma flush_keeps: "returns (ps_flush h i slots fuel s) (\<lambda>s'. ps_pending s' = ps_pending s \<and> ps_completions s' = ps_completions s)"
  unfolding ps_flush_def by (auto intro!: returns_after returns_retS)

lemma gather_keeps: "returns (ps_gather h i slots s) (\<lambda>s'. ps_pending s' = ps_pending s \<and> ps_completions s' = ps_completions s)"
  unfolding ps_gather_def by (auto intro!: returns_after returns_retS)

lemma cancel_accounts:
  "accounted n rest s \<Longrightarrow> returns (cancel_pending h i rest s) (accounted n [])"
proof (induction rest arbitrary: s)
  case (Cons x rest)
  obtain slot call where x: "x = (slot, call)" by fastforce
  have "accounted n rest (complete slot (aborted_result call) False (ps_close (tc_id call) s))"
    using Cons.prems by (auto simp: accounted_def complete_def x)
  then show ?case unfolding x by (auto intro!: returns_after Cons.IH)
qed (simp add: returns_retS)

lemma siblings_account:
  "accounted n rest s \<Longrightarrow> returns (settle_siblings h i cf slots fuel ids rest s) (accounted n [])"
proof (induction rest arbitrary: s)
  case (Cons x rest)
  obtain slot call where x: "x = (slot, call)" by fastforce
  have kept: "accounted n rest (s\<lparr>ps_pending := ps_pending s @ [(slot, call)]\<rparr>)"
    using Cons.prems by (auto simp: accounted_def x)
  have finished: "accounted n rest (complete slot r t s')"
    if "ps_pending s' = ps_pending s \<and> ps_completions s' = ps_completions s" for s' r t
    using Cons.prems that by (auto simp: accounted_def complete_def x)
  show ?case
    unfolding x settle_siblings.simps case_prod_beta
    by (auto intro!: returns_after Cons.IH kept returns_bindE [OF flush_keeps] finished)
qed (simp add: returns_retS)

lemma handle_accounts:
  assumes "accounted n [] s" and "step_accounts s (Some st, s')"
  shows "returns (handle_parallel_step h i cf slots fuel st s') (accounted n [])"
proof (cases st)
  case (ParCancelled us)
  then have "accounted n (ps_pending s') (s'\<lparr>ps_pending := []\<rparr>)"
    using assms by (auto simp: accounted_def step_accounts_def)
  then show ?thesis using ParCancelled by (auto intro!: returns_after cancel_accounts)
next
  case (ParUpdates us)
  have acc: "accounted n [] s''" "accounted n (ps_pending s'') (s''\<lparr>ps_pending := []\<rparr>)"
    if "ps_pending s'' = ps_pending s' \<and> ps_completions s'' = ps_completions s'" for s''
    using assms ParUpdates that by (auto simp: accounted_def step_accounts_def)
  have allow: "accounted n [] (t\<lparr>ps_allowed := A\<rparr>)" if "accounted n [] t" for t A
    using that by (simp add: accounted_def)
  show ?thesis
    unfolding ParUpdates handle_parallel_step.simps
  proof (rule returns_after, rule returns_bindE [OF gather_keeps], rule returns_after)
    fix s'' :: parallel_state and c assume same: "ps_pending s'' = ps_pending s' \<and> ps_completions s'' = ps_completions s'"
    then show "returns (if \<not> c then retS s'' else
        bindE (settle_siblings h i cf slots fuel (update_ids us) (ps_pending s'') (s''\<lparr>ps_pending := []\<rparr>)) (\<lambda>s.
          retS (s\<lparr>ps_allowed := ps_allowed s \<union> (\<lambda>(slot, call). tc_id call) `
            {x \<in> set (ps_pending s). tc_id (snd x) \<in> update_ids us}\<rparr>))) (accounted n [])"
      by (cases c) (simp_all add: returns_retS acc(1), intro returns_retS allow
          returns_bindE [OF siblings_account [OF acc(2) [OF same], unfolded same [THEN conjunct1]]])
  qed
next
  case (ParCompleted slot call r us)
  have moved: "A \<subseteq> insert k D \<union> P'" if "A \<subseteq> D \<union> P" "P \<subseteq> insert k P'" for A D P P' :: "nat set" and k
    using that by blast
  have "accounted n [] (complete slot q t s'')"
    if "ps_pending s'' = ps_pending s' \<and> ps_completions s'' = ps_completions s'" for s'' q t
    using assms ParCompleted that moved
    by (simp add: accounted_def step_accounts_def complete_def dom_upd_Some del: dom_fun_upd)
  then show ?thesis
    unfolding ParCompleted handle_parallel_step.simps case_prod_beta
    by (auto intro!: returns_after returns_bindE [OF gather_keeps] returns_bindE [OF flush_keeps] returns_retS)
qed

lemma loop_accounts:
  "accounted n [] s \<Longrightarrow> returns (parallel_loop h i cf slots polls fuel s) (\<lambda>s'. {..<n} \<subseteq> dom (ps_completions s'))"
proof (induction fuel arbitrary: s)
  case (Suc fuel)
  show ?case
  proof (cases "ps_pending s = []")
    case True
    then show ?thesis using Suc.prems by (auto simp: accounted_def intro!: returns_retS)
  next
    case False
    have "returns (case x of (st, s') \<Rightarrow> bindE (handle_parallel_step h i cf slots polls st s') (parallel_loop h i cf slots polls fuel))
        (\<lambda>s'. {..<n} \<subseteq> dom (ps_completions s'))" if "step_accounts s (Some (fst x), snd x)" for x
      unfolding case_prod_beta by (rule returns_bindE [OF handle_accounts [OF Suc.prems that] Suc.IH])
    then show ?thesis using False by (simp add: returns_bindE [OF next_parallel_accounts])
  qed
qed (simp add: returns_failS)

lemma prepare_accounts:
  "returns (prepare_all h i cf slot calls finished) (\<lambda>x.
     dom finished \<union> {slot..<slot + length calls} \<subseteq> dom (snd x) \<union> fst ` set (fst x))"
proof (induction calls arbitrary: slot finished)
  case (Cons call calls)
  have range: "{slot..<slot + length (call # calls)} = insert slot {Suc slot..<Suc slot + length calls}" by auto
  show ?case
    unfolding prepare_all.simps Let_def range
  proof (intro returns_after, goal_cases)
    case (1 u prepared)
    show ?case
    proof (cases prepared)
      case (Immediate r t)
      show ?thesis unfolding Immediate prepared_call.case
        by (rule returns_after, rule returns_weaken [OF Cons.IH]) (simp only: dom_upd_Some, blast)
    next
      case (Execute td)
      show ?thesis unfolding Execute prepared_call.case case_prod_beta
        by (rule returns_bindE [OF Cons.IH], rule returns_retS) auto
    qed
  qed
qed (simp add: returns_retS)

lemma records_record_results:
  assumes "{slot..<slot + length calls} \<subseteq> dom finished"
  shows "records i (record_results h i slot calls finished all_terminate terminal) (batch_answers calls)"
  using assms
proof (induction calls arbitrary: slot all_terminate terminal)
  case (Cons call calls)
  then obtain r t where "finished slot = Some (r, t)" by fastforce
  moreover have "{Suc slot..<Suc slot + length calls} \<subseteq> {slot..<slot + length (call # calls)}" by auto
  then have "{Suc slot..<Suc slot + length calls} \<subseteq> dom finished" using Cons.prems by (rule order_trans)
  note rest = Cons.IH [OF this]
  ultimately show ?case
    unfolding record_results.simps Let_def
    by simp (intro records_answer_then in_turn_quiet rest quiet_rules)
qed (simp add: in_turn_ret)

text \<open>A continuation needs its law only on the values that the step before it returns.\<close>

lemma records_quiet_returns:
  assumes m: "obeys (quiet i) no_panic m" "returns m V" and k: "\<And>x. V x \<Longrightarrow> records i (k x) S"
    and S: "\<And>e. S (Inl e) []"
  shows "records i (bindE m k) S"
proof (rule recordsI)
  fix w :: "'a world" and r w'
  assume w: "driven i w" and run: "bindE m k w = (r, w')"
  obtain q v where q: "m w = (q, v)" by fastforce
  have v: "advances i w v" "transcript v = transcript w" "driven i v"
    using obeysD [OF m(1) q] w by (auto simp: quiet_def advances_def)
  show "advances i w w' \<and> r \<noteq> Inl Panic \<and> (\<exists>ms. transcript w' = transcript w @ ms \<and> S r ms)"
  proof (cases q)
    case (Inl e)
    then have "r = Inl e" "w' = v" "e \<noteq> Panic" using run q obeys_error [OF m(1)] by (auto simp: bindE_def bindS_def)
    then show ?thesis using v S by simp
  next
    case (Inr x)
    then have "V x" "k x v = (r, w')" using run q returnsD [OF m(2)] by (auto simp: bindE_def bindS_def)
    from recordsD [OF k [OF this(1)] v(3) this(2)] show ?thesis using v adv.R_trans by metis
  qed
qed

lemma records_quiet_returns_batch:
  assumes "obeys (quiet i) no_panic m" and "returns m V" and "\<And>x. V x \<Longrightarrow> records i (k x) (batch_answers calls)"
  shows "records i (bindE m k) (batch_answers calls)"
  by (rule records_quiet_returns [OF assms]) auto

lemma records_execute_parallel: "records i (execute_parallel h i cf fuel calls) (batch_answers calls)"
proof -
  have loop: "records i (bindE (parallel_loop h i cf slots fuel fuel s) (\<lambda>s. record_results h i 0 calls (ps_completions s) True None))
      (batch_answers calls)" if "accounted (length calls) [] s" for s slots
    by (rule records_quiet_returns_batch [OF quiet_parallel_loop loop_accounts [OF that]])
      (simp add: records_record_results lessThan_atLeast0)
  have start: "accounted (length calls) [] \<lparr>ps_pending = map (\<lambda>x. (fst x, fst (snd x))) (fst x), ps_allowed = {},
      ps_updates = p, ps_completions = snd x\<rparr>"
    if "dom (Map.empty :: completions) \<union> {0..<0 + length calls} \<subseteq> dom (snd x) \<union> fst ` set (fst x)"
    for p and x :: "(nat \<times> tool_call \<times> tool) list \<times> completions"
    using that by (auto simp: accounted_def image_image lessThan_atLeast0)
  show ?thesis
    unfolding execute_parallel_def case_prod_beta
    by (rule records_quiet_returns_batch [OF quiet_prepare_all prepare_accounts],
        rule in_turn_quiet [OF quiet_start_all], rule loop, rule start)
qed

lemma records_execute_tools: "records i (execute_tool_calls h i cf fuel calls) (batch_answers calls)"
  unfolding execute_tool_calls_def by (simp add: records_execute_sequential records_execute_parallel)

lemma records_fail_truncated: "records i (fail_truncated_tool_calls h i calls) (batch_answers calls)"
proof -
  have "records i (forE calls (\<lambda>call. thenE (announce_call h i call)
       (thenE (emit_tool_execution_end h i call (truncated_result call))
         (append_tool_result_message h i call (truncated_result call))))) (batch_answers calls)"
  proof (induction calls)
    case (Cons call calls)
    show ?case unfolding forE.simps bindE_assoc
      by (intro in_turn_quiet records_answer_then Cons.IH quiet_rules)
  qed (simp add: in_turn_ret)
  then show ?thesis unfolding fail_truncated_tool_calls_def by (rule records_then_ret)
qed

section \<open>Steps that change the conversation in place\<close>

definition edits ::
  "run_id \<Rightarrow> (agent_message list \<Rightarrow> bool) \<Rightarrow> ('e, 'a) run_step \<Rightarrow> (failure_kind + 'a \<Rightarrow> agent_message list \<Rightarrow> bool) \<Rightarrow> bool"
  where
  "edits i P m S \<longleftrightarrow> (\<forall>w r w'. driven i w \<longrightarrow> P (transcript w) \<longrightarrow> m w = (r, w') \<longrightarrow>
     advances i w w' \<and> r \<noteq> Inl Panic \<and> S r (transcript w'))"

lemma editsI:
  "(\<And>w r w'. driven i w \<Longrightarrow> P (transcript w) \<Longrightarrow> m w = (r, w') \<Longrightarrow>
      advances i w w' \<and> r \<noteq> Inl Panic \<and> S r (transcript w')) \<Longrightarrow> edits i P m S"
  by (simp add: edits_def)

lemma editsD:
  assumes "edits i P m S" and "driven i w" and "P (transcript w)" and "m w = (r, w')"
  shows "advances i w w'" and "driven i w'" and "r \<noteq> Inl Panic" and "S r (transcript w')"
  using assms unfolding edits_def by (auto simp: advances_def)

lemma edits_weaken:
  "edits i P m S \<Longrightarrow> (\<And>t. Q t \<Longrightarrow> P t) \<Longrightarrow> (\<And>r t. S r t \<Longrightarrow> T r t) \<Longrightarrow> edits i Q m T"
  unfolding edits_def by blast

lemma edits_pre: "edits i P m S \<Longrightarrow> (\<And>t. Q t \<Longrightarrow> P t) \<Longrightarrow> edits i Q m S"
  unfolding edits_def by blast

lemma edits_bindE:
  assumes m: "edits i P m S" and k: "\<And>x. edits i (S (Inr x)) (k x) T" and "\<And>e t. S (Inl e) t \<Longrightarrow> T (Inl e) t"
  shows "edits i P (bindE m k) T"
proof (rule editsI)
  fix w :: "'a world" and r w'
  assume w: "driven i w" "P (transcript w)" and run: "bindE m k w = (r, w')"
  obtain q v where q: "m w = (q, v)" by fastforce
  note v = editsD [OF m w q]
  show "advances i w w' \<and> r \<noteq> Inl Panic \<and> T r (transcript w')"
  proof (cases q)
    case (Inl e)
    then show ?thesis using run q v assms(3) by (auto simp: bindE_def bindS_def)
  next
    case (Inr x)
    then have "k x v = (r, w')" using run q by (simp add: bindE_def bindS_def)
    from editsD [OF k v(2) v(4) [unfolded Inr] this] show ?thesis using v(1) adv.R_trans by blast
  qed
qed

lemma edits_quiet:
  "obeys (quiet i) no_panic m \<Longrightarrow> returns m V \<Longrightarrow>
    edits i P m (\<lambda>r t. P t \<and> (case r of Inr x \<Rightarrow> V x | Inl e \<Rightarrow> True))"
  by (rule editsI) (auto dest: obeysD obeys_error returnsD simp: quiet_def split: sum.splits)

lemma edits_quiet_then:
  "obeys (quiet i) no_panic m \<Longrightarrow> (\<And>x. edits i P (k x) T) \<Longrightarrow> (\<And>e t. P t \<Longrightarrow> T (Inl e) t) \<Longrightarrow> edits i P (bindE m k) T"
  by (rule edits_bindE [OF edits_quiet [where V = "\<lambda>x. True"]]) (auto simp: returns_def)

lemma edits_mod_then:
  assumes "obeys (quiet i) no_panic (modS f)" and "edits i P k T"
  shows "edits i P (thenE (modS f) k) T"
proof (rule edits_bindE [where S = "\<lambda>r t. r = Inr () \<and> P t"])
  show "edits i P (modS f) (\<lambda>r t. r = Inr () \<and> P t)"
    using assms(1) by (auto simp: edits_def obeys_def modS_def quiet_def)
qed (use assms(2) in auto)

lemma edits_retS: "(\<And>t. P t \<Longrightarrow> S (Inr x) t) \<Longrightarrow> edits i P (retS x) S"
  by (rule editsI) (auto simp: retS_def adv.R_refl)

lemma edits_failS: "e \<noteq> Panic \<Longrightarrow> (\<And>t. P t \<Longrightarrow> S (Inl e) t) \<Longrightarrow> edits i P (failS e) S"
  by (rule editsI) (auto simp: failS_def adv.R_refl)

lemma edits_records:
  "records i m S \<Longrightarrow> (\<And>t r ms. P t \<Longrightarrow> S r ms \<Longrightarrow> T r (t @ ms)) \<Longrightarrow> edits i P m T"
  unfolding edits_def records_def by fastforce

lemma records_edits: "(\<And>b. edits i (\<lambda>t. t = b) m (\<lambda>r t. \<exists>ms. t = b @ ms \<and> S r ms)) \<Longrightarrow> records i m S"
  unfolding edits_def records_def by blast

text \<open>Replacing the last message by one with the same ID.\<close>

lemma edits_replace_last:
  assumes "\<And>t. P t \<Longrightarrow> \<exists>b old. t = b @ [old] \<and> message_id old = message_id m \<and> S (Inr ()) (b @ [m])"
  shows "edits i P (replace_last m) S"
proof (rule editsI)
  fix w :: "'a world" and r w'
  assume w: "driven i w" "P (transcript w)" and run: "replace_last m w = (r, w')"
  obtain b old where b: "transcript w = b @ [old]" "message_id old = message_id m" "S (Inr ()) (b @ [m])"
    using assms [OF w(2)] by blast
  then have r: "r = Inr ()" "w' = upd_state (\<lambda>s. s\<lparr>a_messages := b @ [m]\<rparr>) w"
    using run by (auto simp: replace_last_def upd_state_def)
  have "owned w'" using w(1) driven_phase [OF w(1)] by (auto simp: r driven_def intro: owned_busy)
  then have "advances i w w'"
    using w(1) b by (auto simp: r advances_def driven_def settings_def intro: log_grows_same ids_advance_same)
  then show "advances i w w' \<and> r \<noteq> Inl Panic \<and> S r (transcript w')" using b(3) by (simp add: r)
qed

section \<open>The assistant stream\<close>

definition stream_message :: "stream_state \<Rightarrow> agent_message list" where
  "stream_message st = (case ss_id st of None \<Rightarrow> [] | Some k \<Rightarrow> [AssistantMessage k (ss_text st) [] None None])"

definition partial_only :: "agent_message list \<Rightarrow> bool" where
  "partial_only ms \<longleftrightarrow> ms = [] \<or> (\<exists>k text. ms = [AssistantMessage k text [] None None])"

lemma partial_stream_message: "partial_only (stream_message st)"
  by (simp add: partial_only_def stream_message_def split: option.splits)

definition stream_post :: "agent_message list \<Rightarrow> failure_kind + stream_state \<Rightarrow> agent_message list \<Rightarrow> bool" where
  "stream_post b r t \<longleftrightarrow> (case r of Inr st \<Rightarrow> t = b @ stream_message st | Inl e \<Rightarrow> \<exists>ms. t = b @ ms \<and> partial_only ms)"

lemma edits_push_then:
  assumes "keeps_core f" and "\<And>k. message_id (mk k) = k"
    and "\<And>k. edits i (\<lambda>t. \<exists>b. P b \<and> t = b @ [mk k]) (l (mk k)) T"
  shows "edits i P (bindE (push_new f mk) l) T"
proof (rule edits_bindE [where S = "\<lambda>r t. \<exists>k b. r = Inr (mk k) \<and> P b \<and> t = b @ [mk k]"])
  show "edits i P (push_new f mk) (\<lambda>r t. \<exists>k b. r = Inr (mk k) \<and> P b \<and> t = b @ [mk k])"
    by (rule edits_records [OF records_push [OF assms(1,2)]]) auto
  show "edits i (\<lambda>t. \<exists>k b. Inr m = Inr (mk k) \<and> P b \<and> t = b @ [mk k]) (l m) T" for m
    using assms(3) unfolding edits_def by blast
qed auto

lemma stream_postI [intro]:
  "t = b @ stream_message st \<Longrightarrow> stream_post b (Inr st) t"
  "t = b @ ms \<Longrightarrow> partial_only ms \<Longrightarrow> stream_post b (Inl e) t"
  by (auto simp: stream_post_def)

lemma stream_post_iff: "stream_post b (Inr st) = (\<lambda>t. t = b @ stream_message st)"
  "stream_post b (Inl e) = (\<lambda>t. \<exists>ms. t = b @ ms \<and> partial_only ms)"
  by (auto simp: stream_post_def)

lemma stream_message_cong: "ss_id st' = ss_id st \<Longrightarrow> ss_text st' = ss_text st \<Longrightarrow> stream_message st' = stream_message st"
  by (simp add: stream_message_def cong: option.case_cong)

lemma edits_assistant_slot:
  "edits i (\<lambda>t. t = b @ stream_message st) (assistant_slot st)
    (\<lambda>r t. \<exists>k. r = Inr k \<and> (\<exists>text. t = b @ [AssistantMessage k text [] None None]) \<and> (\<forall>j. ss_id st = Some j \<longrightarrow> j = k))"
proof (cases "ss_id st")
  case None
  then show ?thesis
    unfolding assistant_slot_def
    by (simp, intro edits_push_then) (auto simp: keeps_core_def stream_message_def intro!: edits_retS)
next
  case (Some k)
  then show ?thesis by (auto simp: assistant_slot_def stream_message_def intro!: edits_retS)
qed

lemma edits_text_delta:
  "edits i (\<lambda>t. t = b @ stream_message st) (text_delta h i delta st) (stream_post b)"
  unfolding text_delta_def Let_def
proof (rule edits_bindE [OF edits_assistant_slot])
  fix k
  let ?m = "AssistantMessage k (ss_text st @ delta) [] None None"
  have tail: "edits i (\<lambda>t. t = b @ [?m])
      (thenE (if ss_id st = None then emit h i (MessageStart (AssistantMessage k [] [] None None)) else retS ())
        (thenE (emit h i (MessageUpdate ?m delta)) (retS (st\<lparr>ss_id := Some k, ss_text := ss_text st @ delta\<rparr>))))
      (stream_post b)"
    by (intro edits_quiet_then edits_retS) (auto simp: stream_post_def stream_message_def partial_only_def intro: quiet_rules)
  have replace: "edits i (\<lambda>t. \<exists>text. t = b @ [AssistantMessage k text [] None None]) (replace_last ?m)
      (\<lambda>r t. r = Inr () \<and> t = b @ [?m])"
    by (rule edits_replace_last) auto
  have partial: "obeys (quiet i) no_panic (modS (upd_state (\<lambda>s. s\<lparr>a_partial := Some x\<rparr>)))" for x
    by (rule quiet_state) simp_all
  show "edits i (\<lambda>t. \<exists>k'. Inr k = Inr k' \<and> (\<exists>text. t = b @ [AssistantMessage k' text [] None None]) \<and> (\<forall>j. ss_id st = Some j \<longrightarrow> j = k'))
      (thenE (modS (upd_state (\<lambda>s. s\<lparr>a_partial := Some (ss_text st @ delta)\<rparr>)))
        (thenE (replace_last ?m)
        (thenE (if ss_id st = None then emit h i (MessageStart (AssistantMessage k [] [] None None)) else retS ())
        (thenE (emit h i (MessageUpdate ?m delta)) (retS (st\<lparr>ss_id := Some k, ss_text := ss_text st @ delta\<rparr>))))))
      (stream_post b)"
    by (rule edits_quiet_then [OF partial], rule edits_bindE [OF edits_pre [OF replace]], force,
        rule edits_pre [OF tail], auto simp: partial_only_def)
qed auto

lemma edits_handle_event:
  "edits i (\<lambda>t. t = b @ stream_message st) (handle_stream_event h i item st) (stream_post b)"
  by (cases item) (auto intro!: edits_text_delta edits_retS stream_postI stream_message_cong [symmetric])

lemma edits_stream_loop:
  "edits i (\<lambda>t. t = b @ stream_message st) (stream_loop h i provider fuel st) (stream_post b)"
proof (induction fuel arbitrary: st)
  case 0
  show ?case by (auto intro!: edits_failS partial_stream_message)
next
  case (Suc fuel)
  have onward: "edits i (\<lambda>t. t = b @ stream_message st) (bindE (handle_stream_event h i item st) (stream_loop h i provider fuel))
      (stream_post b)" for item
    by (rule edits_bindE [OF edits_handle_event]) (auto simp: stream_post_iff Suc.IH)
  show ?case
    unfolding stream_loop.simps run_step_raise_def
    by (intro edits_quiet_then quiet_rules)
      (auto split: sum.split option.split intro!: edits_failS edits_retS onward partial_stream_message)
qed

definition response :: "stream_state \<Rightarrow> stop_reason \<Rightarrow> agent_message \<Rightarrow> bool" where
  "response st reason m \<longleftrightarrow> (\<exists>k. m = AssistantMessage k (ss_text st) (ss_calls st) (Some reason) (ss_error st))"

lemma edits_commit:
  "edits i (\<lambda>t. t = b @ stream_message st) (commit_assistant h i st reason)
    (\<lambda>r t. \<exists>m. response st reason m \<and> t = b @ [m])"
proof -
  let ?final = "\<lambda>t. \<exists>m. response st reason m \<and> t = b @ [m]"
  have close: "edits i ?final (emit h i kind) (\<lambda>r. ?final)" for kind
    by (rule edits_weaken [OF edits_quiet [OF quiet_emit, where V = "\<lambda>x. True"]]) (auto simp: returns_def)
  show ?thesis
  proof (cases "ss_id st")
    case None
    have "edits i (\<lambda>t. \<exists>b'. b' = b \<and> t = b' @ [m]) (thenE (emit h i (MessageStart m)) (emit h i (MessageEnd m))) (\<lambda>r. ?final)"
      if "response st reason m" for m
      by (rule edits_pre [where P = ?final], intro edits_quiet_then close quiet_rules) (use that in auto)
    then show ?thesis
      using None unfolding commit_assistant_def
      by simp (rule edits_push_then, auto simp: keeps_core_def stream_message_def response_def)
  next
    case (Some k)
    let ?m = "AssistantMessage k (ss_text st) (ss_calls st) (Some reason) (ss_error st)"
    have clear: "obeys (quiet i) no_panic (modS (upd_state (\<lambda>s. s\<lparr>a_partial := None, a_streaming := False\<rparr>)))"
      by (rule quiet_state) simp_all
    have replace: "edits i (\<lambda>t. t = b @ stream_message st) (replace_last ?m) (\<lambda>r. ?final)"
      by (rule edits_replace_last) (auto simp: stream_message_def Some response_def)
    have final: "edits i ?final (emit h i (MessageEnd ?m)) (\<lambda>r. ?final)" by (rule close)
    show ?thesis
      using Some unfolding commit_assistant_def Let_def
      by (simp add: bindE_assoc) (intro edits_mod_then [OF clear] edits_bindE [OF replace] final)
  qed
qed

text \<open>
  What a response leaves in the conversation: exactly one message, with the calls of the response, or
  when it fails, at most one, that asks for no tool unless it was complete.
\<close>

definition one_response :: "failure_kind + assistant_turn \<Rightarrow> agent_message list \<Rightarrow> bool" where
  "one_response r ms \<longleftrightarrow> (case r of
       Inr a \<Rightarrow> \<exists>k text. ms = [AssistantMessage k text (at_calls a) (Some (at_reason a)) (at_error a)]
     | Inl e \<Rightarrow> partial_only ms \<or> (\<exists>k text calls reason err. ms = [AssistantMessage k text calls (Some reason) err]))"

lemma quiet_accounting [quiet_rules]: "obeys (quiet i) no_panic (modS (upd_state (\<lambda>s. s\<lparr>a_accounting := f s\<rparr>)))"
  by (rule quiet_state) simp_all

lemma quiet_record_usage [quiet_rules]: "obeys (quiet i) no_panic (record_usage h i t md u)"
  unfolding record_usage_def by (auto intro!: quiet_rules split: option.split)

lemma records_consume: "records i (consume_assistant_stream h i provider fuel t md) one_response"
proof (rule records_edits)
  fix b
  have start: "stream_message stream_start = []" by (simp add: stream_message_def stream_start_def)
  have ended: "edits i (\<lambda>t. t = b @ stream_message st) (case ss_reason st of
       None \<Rightarrow> run_step_raise (UnsupportedModelStream ''model stream ended without a terminal event'')
     | Some reason \<Rightarrow>
         thenE (commit_assistant h i st reason)
         (thenE (record_usage h i t md (ss_usage st))
           (retS \<lparr>at_reason = reason, at_calls = ss_calls st, at_error = ss_error st,
                  at_valid_input = valid_input reason (ss_usage st), at_overflow = ss_overflow st\<rparr>)))
      (\<lambda>r t. \<exists>ms. t = b @ ms \<and> one_response r ms)" for st
  proof (cases "ss_reason st")
    case None
    then show ?thesis
      by (auto simp: run_step_raise_def one_response_def partial_stream_message intro!: edits_failS)
  next
    case (Some reason)
    show ?thesis unfolding Some option.case
      by (intro edits_bindE [OF edits_commit] edits_quiet_then edits_retS quiet_rules)
        (auto simp: one_response_def response_def)
  qed
  show "edits i (\<lambda>t. t = b) (consume_assistant_stream h i provider fuel t md) (\<lambda>r t. \<exists>ms. t = b @ ms \<and> one_response r ms)"
    unfolding consume_assistant_stream_def
    by (rule edits_bindE [OF edits_pre [OF edits_stream_loop [where b = b]]])
      (auto simp: start stream_post_def one_response_def intro: edits_pre [OF ended, unfolded one_response_def])
qed

section \<open>Automatic compaction\<close>

text \<open>What a committed compaction leaves: a valid conversation that keeps the suffix the split retained.\<close>

definition compacted :: "compaction_policy \<Rightarrow> agent_message list \<Rightarrow> agent_message list \<Rightarrow> bool" where
  "compacted policy b t \<longleftrightarrow> conversation_ok t \<and>
     (case automatic_compaction_split b (unat (recent_tokens policy)) of (pre, retained, turn) \<Rightarrow>
        retained = [] \<or> ends_with t retained)"

lemma quiet_automatic_end [quiet_rules]: "obeys (quiet i) no_panic (automatic_end h i reason retry outcome)"
  unfolding automatic_end_def by (rule quiet_rules)

lemma quiet_automatic_cancelled [quiet_rules]: "obeys (quiet i) no_panic (automatic_cancelled h i reason retry)"
  unfolding automatic_cancelled_def by (intro quiet_rules)

lemma quiet_raise [quiet_rules]: "obeys (quiet i) no_panic (run_step_raise e)"
  unfolding run_step_raise_def by (auto intro: quiet_rules)

lemma quiet_automatic_failed [quiet_rules]: "obeys (quiet i) no_panic (automatic_failed h i reason retry message)"
  unfolding automatic_failed_def by (intro quiet_rules)

lemma quiet_attempt_failed [quiet_rules]: "obeys (quiet i) no_panic (attempt_failed h i reason retry e)"
  unfolding attempt_failed_def by (auto intro!: quiet_rules)

lemma quiet_catch [quiet_rules]: "obeys (quiet i) no_panic m \<Longrightarrow> obeys (quiet i) no_panic (catch m)"
  by (rule obeysI) (auto simp: catch_def dest: obeysD obeys_error split: prod.split sum.split failure_kind.split
      prod.splits sum.splits failure_kind.splits)

lemma quiet_policy_step [quiet_rules]: "obeys (quiet i) no_panic (policy_step i f)"
  by (rule still_quiet) (auto simp: policy_step_def obeys_def intro: still_cell split: prod.split)

lemma quiet_provider_context [quiet_rules]: "obeys (quiet i) no_panic (build_provider_context h i cf cx)"
  unfolding build_provider_context_def Let_def by (intro quiet_rules)

lemma quiet_compaction_context [quiet_rules]: "obeys (quiet i) no_panic (compaction_provider_context h i cf cc src)"
  unfolding compaction_provider_context_def by (intro quiet_rules)

lemma edits_getS:
  "(\<And>w. driven i w \<Longrightarrow> P (transcript w) \<Longrightarrow> edits i P (k (f w)) T) \<Longrightarrow> edits i P (bindE (getS f) k) T"
  unfolding edits_def bindE_def bindS_def getS_def by (auto split: prod.splits)

lemma edits_get: "(\<And>x. edits i P (k x) T) \<Longrightarrow> edits i P (bindE (getS f) k) T"
  by (rule edits_getS)

lemma valid_conversation: "validate_messages ms = Inr u \<Longrightarrow> conversation_ok ms"
  using validate_messages_iff by simp

lemma edits_commit_replacement:
  assumes "conversation_ok ms"
  shows "edits i (\<lambda>t. t = b) (tryS (commit_replacement i ms))
    (\<lambda>r t. (\<exists>e. r = Inr (Inl e) \<and> t = b) \<or> r = Inr (Inr ()) \<and> t = ms)"
proof (rule editsI)
  fix w :: "'a world" and r :: "failure_kind + core_error + unit" and w'
  assume w: "driven i w" "transcript w = b" and run: "tryS (commit_replacement i ms) w = (r, w')"
  show "advances i w w' \<and> r \<noteq> Inl Panic \<and> ((\<exists>e. r = Inr (Inl e) \<and> transcript w' = b) \<or> r = Inr (Inr ()) \<and> transcript w' = ms)"
  proof (cases "is_cancelled i w \<or> a_phase (w_state w) \<noteq> Running i")
    case True
    then have "commit_replacement i ms w = (Inl CancelledError, w)" by (auto simp: commit_replacement_def)
    then have "r = Inr (Inl CancelledError)" "w' = w" using run by (simp_all add: tryS_def)
    then show ?thesis using w by (simp add: adv.R_refl)
  next
    case False
    then have r: "r = Inr (Inr ())" "w' = upd_state (replace_messages ms) w"
      using run by (auto simp: tryS_def commit_replacement_def)
    have "owned w'" using w(1) driven_phase [OF w(1)]
      by (auto simp: r driven_def replace_messages_def Let_def intro: owned_busy)
    moreover have "ids_advance (w_state w) (w_state w')" using ids_advance_replace [OF assms] by (simp add: r)
    ultimately have "advances i w w'"
      using w(1) by (auto simp: r advances_def driven_def settings_def replace_messages_def Let_def intro: log_grows_same)
    then show ?thesis by (simp add: r replace_messages_def Let_def)
  qed
qed

definition compaction_post ::
  "compaction_policy \<Rightarrow> agent_message list \<Rightarrow> failure_kind + bool \<times> context_estimator \<Rightarrow> agent_message list \<Rightarrow> bool" where
  "compaction_post policy b r t \<longleftrightarrow> (case r of
       Inr (True, est) \<Rightarrow> compacted policy b t \<and> est = None
     | Inr (False, est) \<Rightarrow> t = b
     | Inl e \<Rightarrow> t = b \<or> compacted policy b t)"

lemma compaction_post_kept [intro]: "compaction_post policy b (Inl e) b" "compaction_post policy b (Inr (False, est)) b"
  by (simp_all add: compaction_post_def)

lemma compaction_post_done [intro]:
  "compacted policy b t \<Longrightarrow> compaction_post policy b (Inl e) t" "compacted policy b t \<Longrightarrow> compaction_post policy b (Inr (True, None)) t"
  by (simp_all add: compaction_post_def)

lemma never_returns: "returns (failS e) (\<lambda>x. False)" "returns (run_step_raise e') (\<lambda>x. False)"
  by (simp_all add: run_step_raise_def returns_failS)

lemma edits_aborts:
  assumes "obeys (quiet i) no_panic m" and "returns m (\<lambda>x. False)" and "\<And>e. T (Inl e) b"
  shows "edits i (\<lambda>t. t = b) m T"
  by (rule edits_weaken [OF edits_quiet [OF assms(1,2), where P = "\<lambda>t. t = b"]]) (use assms(3) in \<open>auto split: sum.splits\<close>)

lemma attempt_aborts: "returns (automatic_failed h i reason retry message) (\<lambda>x. False)"
  "returns (attempt_failed h i reason retry e) (\<lambda>x. False)"
  unfolding automatic_failed_def attempt_failed_def by (auto intro!: returns_after never_returns)

lemma edits_accept:
  assumes split: "automatic_compaction_split b (unat (recent_tokens policy)) = (pre, retained, turn)"
  shows "edits i (\<lambda>t. t = b) (accept_replacement h i policy reason retry retained ms) (compaction_post policy b)"
proof -
  let ?done = "\<lambda>r. case r of
       Inl e \<Rightarrow> thenE (if e = CancelledError then automatic_cancelled h i reason retry else retS ()) (run_step_raise e)
     | Inr _ \<Rightarrow>
         bindE (getS (\<lambda>w. a_messages (w_state w))) (\<lambda>ms.
         let after = estimate None ms; still_above = (unat (threshold_tokens policy) \<le> after)
         in thenE (modS (if still_above then upd_policy i (\<lambda>p. p\<lparr>compaction_blocked := Some (length ms)\<rparr>) else (\<lambda>w. w)))
            (thenE (automatic_end h i reason retry (if still_above then StillAboveThreshold else AutoSucceeded after))
              (retS (True, None))))"
  have commit: "edits i (\<lambda>t. t = b) (bindE (tryS (commit_replacement i ms)) ?done) (compaction_post policy b)"
    if "conversation_ok ms" "retained = [] \<or> ends_with ms retained"
  proof (rule edits_bindE [OF edits_commit_replacement [OF that(1)]])
    have ok: "compacted policy b ms" using that by (simp add: compacted_def split)
    fix r :: "core_error + unit"
    have refused: "edits i (\<lambda>t. t = b) (?done (Inl e)) (compaction_post policy b)" for e
      by (intro edits_aborts) (auto intro!: quiet_rules returns_after never_returns)
    have committed: "edits i (\<lambda>t. t = ms) (?done (Inr u)) (compaction_post policy b)" for u
      unfolding sum.case Let_def
      by (intro edits_getS edits_mod_then edits_quiet_then edits_retS) (auto intro!: quiet_rules ok intro: qt.law_modS qt.R_refl)
    show "edits i (\<lambda>t. (\<exists>e. Inr r = Inr (Inl e) \<and> t = b) \<or> Inr r = Inr (Inr ()) \<and> t = ms) (?done r) (compaction_post policy b)"
    proof (cases r)
      case (Inl e)
      show ?thesis unfolding Inl by (rule edits_pre [OF refused]) auto
    next
      case (Inr u)
      show ?thesis unfolding Inr by (rule edits_pre [OF committed]) auto
    qed
  qed auto
  show ?thesis
    unfolding accept_replacement_def
  proof (rule edits_getS, goal_cases)
    case (1 w)
    show ?case
      using commit valid_conversation
      by (auto split: sum.split intro!: edits_aborts quiet_rules returns_after never_returns attempt_aborts)
  qed
qed

lemma edits_run_compactor:
  "edits i (\<lambda>t. t = b) (run_compactor h i cf policy reason retry estimated compactor) (compaction_post policy b)"
  unfolding run_compactor_def
proof (rule edits_getS, goal_cases)
  case (1 w)
  obtain pre retained turn where split: "automatic_compaction_split b (unat (recent_tokens policy)) = (pre, retained, turn)"
    by (metis prod_cases3)
  have same: "cc_messages (snapshot_context (w_state w)) = b" using 1(2) by (simp add: snapshot_context_def)
  have fails: "edits i (\<lambda>t. t = b) (attempt_failed h i reason retry e) (compaction_post policy b)" for e
    by (intro edits_aborts) (auto intro: quiet_rules attempt_aborts)
  have accepted: "edits i (\<lambda>t. t = b) (case r of Inl e \<Rightarrow> attempt_failed h i reason retry (CompactionError e)
      | Inr q \<Rightarrow> accept_replacement h i policy reason retry retained (cr_messages q)) (compaction_post policy b)" for r
    by (cases r) (simp_all add: fails edits_accept [OF split])
  have asked: "edits i (\<lambda>t. t = b) (bindE (getS (is_cancelled i)) (\<lambda>c.
       bindE (await i (compact_automatic h compactor cc rq c)) (\<lambda>r. case r of
         Inl e \<Rightarrow> attempt_failed h i reason retry (CompactionError e)
       | Inr q \<Rightarrow> accept_replacement h i policy reason retry retained (cr_messages q)))) (compaction_post policy b)" for cc rq
    by (intro edits_get edits_quiet_then accepted quiet_rules) auto
  show ?case
    unfolding same split prod.case Let_def
    by (intro edits_quiet_then quiet_rules) (auto split: sum.split intro: fails asked)
qed

lemma edits_claimed_compaction:
  "edits i (\<lambda>t. t = b) (claimed_compaction h i cf policy reason retry estimated count) (compaction_post policy b)"
proof -
  have refused: "edits i (\<lambda>t. t = b) (thenE (automatic_end h i reason retry outcome) (run_step_raise e)) (compaction_post policy b)"
    for outcome e by (intro edits_aborts) (auto intro: quiet_rules returns_after never_returns)
  have run: "edits i (\<lambda>t. t = b) (case compactor of
      None \<Rightarrow> thenE (automatic_end h i reason retry Unavailable) (run_step_raise (AutomaticCompactionUnavailable reason))
    | Some c \<Rightarrow> run_compactor h i cf policy reason retry estimated c) (compaction_post policy b)" for compactor
    by (cases compactor) (simp_all add: refused edits_run_compactor)
  show ?thesis
    unfolding claimed_compaction_def case_prod_beta
    by (intro edits_quiet_then quiet_rules) (auto intro!: refused edits_quiet_then edits_get run quiet_rules)
qed

lemma edits_maybe_compaction:
  "edits i (\<lambda>t. t = b) (maybe_automatic_compaction h i cf est reason retry)
    (\<lambda>r t. \<exists>policy. compaction_post policy b r t)"
proof -
  have "edits i (\<lambda>t. t = b) (if compaction_due policy reason (estimate est ms) (length ms) p
      then claimed_compaction h i cf policy reason retry (estimate est ms) (length ms) else retS (False, est))
      (\<lambda>r t. \<exists>policy. compaction_post policy b r t)" for policy ms p
    by (auto intro: edits_weaken [OF edits_claimed_compaction] edits_retS)
  then show ?thesis unfolding maybe_automatic_compaction_def by (intro edits_get)
qed

section \<open>Queued messages\<close>

definition queued_as :: "queued_message \<Rightarrow> agent_message \<Rightarrow> bool" where
  "queued_as q m \<longleftrightarrow> (\<exists>k. m = UserMessage k (queued_content q))"

lemma records_inject: "records i (inject_queued_messages h i cx qs) (in_turn queued_as qs)"
proof (induction qs arbitrary: cx)
  case (Cons q qs)
  have push: "records i (push_new (\<lambda>s. s) (\<lambda>k. UserMessage k (queued_content q))) (\<lambda>r ms. \<exists>m. queued_as q m \<and> ms = [m])"
    by (rule records_weaken [OF records_push]) (auto simp: keeps_core_def queued_as_def)
  show ?case
    unfolding inject_queued_messages.simps
    by (intro in_turn_then [where R = queued_as and x = q, OF push] in_turn_quiet Cons.IH quiet_rules)
qed (simp add: in_turn_ret)

section \<open>Safe steps\<close>

text \<open>Steps of a driven run that respect its law and do not panic.\<close>

definition safe :: "run_id \<Rightarrow> ('e, 'a) run_step \<Rightarrow> bool" where
  "safe i m \<longleftrightarrow> edits i (\<lambda>t. True) m (\<lambda>r t. True)"

lemma safe_edits: "(\<And>b. edits i (\<lambda>t. t = b) m (S b)) \<Longrightarrow> safe i m"
  unfolding safe_def edits_def by blast

lemma safe_records: "records i m S \<Longrightarrow> safe i m"
  unfolding safe_def by (rule edits_records)

lemma safe_quiet: "obeys (quiet i) no_panic m \<Longrightarrow> safe i m"
  by (rule safe_records [OF records_quiet])

lemma safe_bindE: "safe i m \<Longrightarrow> (\<And>x. safe i (k x)) \<Longrightarrow> safe i (bindE m k)"
  unfolding safe_def by (rule edits_bindE) auto

named_theorems safe_rules \<open>steps that respect the law of a driven run\<close>

lemmas [safe_rules] = safe_bindE safe_edits [OF edits_maybe_compaction] safe_records [OF records_inject]
  safe_records [OF records_consume] safe_records [OF records_execute_tools] safe_records [OF records_fail_truncated]

lemma safe_truncate [safe_rules]:
  "safe i (modS (upd_state (\<lambda>s. s\<lparr>a_messages := take n (a_messages s), a_partial := None, a_streaming := False\<rparr>)))"
proof -
  have "advances i w (upd_state (\<lambda>s. s\<lparr>a_messages := take n (a_messages s), a_partial := None, a_streaming := False\<rparr>) w)"
    if w: "driven i w" for w :: "'a world"
  proof -
    let ?w' = "upd_state (\<lambda>s. s\<lparr>a_messages := take n (a_messages s), a_partial := None, a_streaming := False\<rparr>) w"
    have "owned ?w'" using w driven_phase [OF w] by (auto simp: driven_def intro: owned_busy)
    moreover have "ids_advance (w_state w) (w_state ?w')" by (rule ids_advance_truncate [where n = n]) simp_all
    ultimately show ?thesis using w by (auto simp: advances_def driven_def settings_def intro: log_grows_same)
  qed
  then show ?thesis by (auto simp: safe_def edits_def modS_def)
qed

section \<open>Properties\<close>

text \<open>A host whose provider streams the events it is given, and a run that is being driven.\<close>

definition sample_host :: "stream_event list host" where
  "sample_host = \<lparr>display = (\<lambda>_. ''failed''), validate_arguments = (\<lambda>_ _. Inr ()),
     observe = (\<lambda>_ _ _ e. (Inr (), [], e)), before_tool = (\<lambda>_ _ _ _ e. (Inr Allow, [], e)),
     after_tool = (\<lambda>_ _ _ _ _ e. (Inl (''after'', ''unused''), [], e)),
     transform_context = (\<lambda>_ cx _ e. (Inr cx, [], e)), convert_to_llm = (\<lambda>_ _ _ e. (Inr [], [], e)),
     should_stop = (\<lambda>_ _ _ e. (Inr False, [], e)),
     prepare_next = (\<lambda>_ _ _ e. (Inr \<lparr>tu_context = None, tu_model = None, tu_thinking = None\<rparr>, [], e)),
     stream = (\<lambda>_ _ _ e. (Inr (), [], e)),
     next_event = (\<lambda>_ _ e. (Inr (case e of [] \<Rightarrow> None | ev # _ \<Rightarrow> Some ev), [], tl e)),
     compact = (\<lambda>_ _ _ e. (Inl (CompactorFailed []), [], e)),
     compact_automatic = (\<lambda>_ _ _ _ e. (Inl (CompactorFailed []), [], e)),
     tool_start = (\<lambda>_ _ _ _ e. ([], [], e)), tool_poll = (\<lambda>_ _ _ e. ((None, []), [], e)),
     tool_wait = (\<lambda>e. ([], [], e))\<rparr>"

definition sample_run :: "stream_event list world" where
  "sample_run = snd (start_turn 1 1 (claim 1 Created (agent_build sample_builder [TextDelta ''hi'', StreamEnd Stop])))"

lemma sample_driven: "driven 1 sample_run"
proof -
  have "owned (claim 1 Created (agent_build sample_builder [TextDelta ''hi'', StreamEnd Stop]))" by (rule owned_claim [OF owned_build]) (simp_all add: agent_build_def)
  then have "owned sample_run" unfolding sample_run_def by (rule owned_start_turn)
  then show ?thesis
    by (simp add: driven_def sample_run_def start_turn_def claim_def run_of_def run_created_def world_upd)
qed

text \<open>C3: a batch of tool calls, executed one after the other or in parallel, answers its calls in their
  order. Whatever tools, hooks and observers do and however the completions of a parallel batch
  interleave, the conversation only grows, by one result for each call under the call's ID and name;
  if an error ends the batch, by the results of a prefix of the calls. The run goes on, its log grows,
  and the code does not panic (no slot of a parallel batch is lost).\<close>

theorem tool_batch_answers:
  assumes "driven i w" and "execute_tool_calls h i cf fuel calls w = (r, w')"
  shows "driven i w' \<and> log_grows i w w' \<and> r \<noteq> Inl Panic \<and>
    (\<exists>ms. transcript w' = transcript w @ ms \<and>
       (case r of Inr _ \<Rightarrow> list_all2 answers_call calls ms
        | Inl _ \<Rightarrow> \<exists>n \<le> length calls. list_all2 answers_call (take n calls) ms))"
proof -
  obtain ms where ms: "advances i w w'" "driven i w'" "r \<noteq> Inl Panic" "transcript w' = transcript w @ ms" "batch_answers calls r ms"
    by (rule recordsD [OF records_execute_tools assms])
  then have "log_grows i w w'" using assms(1) by (simp add: advances_def)
  moreover have "case r of Inr _ \<Rightarrow> list_all2 answers_call calls ms
      | Inl _ \<Rightarrow> \<exists>n \<le> length calls. list_all2 answers_call (take n calls) ms"
    using ms(5) by (cases r) (auto simp: in_turn_def)
  ultimately show ?thesis using ms by blast
qed

theorem tool_batch_answers_witness:
  "\<exists>r w'. execute_tool_calls sample_host 1 (w_configuration sample_run) 9 [\<lparr>tc_id = ''a'', tc_name = ''read'', tc_arguments = []\<rparr>] sample_run = (r, w') \<and>
     driven 1 w' \<and> r \<noteq> Inl Panic"
proof -
  obtain r w' where run: "execute_tool_calls sample_host 1 (w_configuration sample_run) 9 [\<lparr>tc_id = ''a'', tc_name = ''read'', tc_arguments = []\<rparr>] sample_run = (r, w')"
    by fastforce
  from tool_batch_answers [OF sample_driven run] run show ?thesis by blast
qed




end
