(* ===== verification/Settlement.thy ===== *)
theory Settlement
  imports Transcript
begin

text \<open>
  How a drive ends. A step of a driven run that may end it is described by a triple (\<open>runs\<close>): a
  condition on the world it starts in, and one on its result and the world it leaves; every step keeps
  what \<open>preserved\<close> says and none panics. The triples of the settlement paths, of a turn and of the loop
  compose to those of \<open>RunHandle::drive\<close> and of the drive of a manual compaction.
\<close>

section \<open>What a run keeps to its end\<close>

definition preserved :: "run_id \<Rightarrow> 'e world \<Rightarrow> 'e world \<Rightarrow> bool" where
  "preserved i w w' \<longleftrightarrow> log_grows i w w' \<and> (is_cancelled i w \<longrightarrow> is_cancelled i w') \<and>
     ids_advance (w_state w) (w_state w') \<and> settings w' = settings w"

lemma advances_preserved: "advances i w w' \<longleftrightarrow> (driven i w \<longrightarrow> driven i w' \<and> preserved i w w')"
  by (auto simp: advances_def preserved_def)

lemma preserved_trans: "preserved i u v \<Longrightarrow> preserved i v w \<Longrightarrow> preserved i u w"
  unfolding preserved_def by (auto intro: log_grows_trans ids_advance_trans)

text \<open>The run's last event reports its end.\<close>

definition closed :: "run_id \<Rightarrow> 'e world \<Rightarrow> bool" where
  "closed i w \<longleftrightarrow> (\<exists>evs ev ms. log_of i w = evs @ [ev] \<and> ev_kind ev = AgentEnd ms)"

definition ended :: "run_id \<Rightarrow> run_phase set \<Rightarrow> 'e world \<Rightarrow> bool" where
  "ended i phs w \<longleftrightarrow> owned w \<and> w_active w = None \<and> w_runs w i \<noteq> None \<and> r_phase (run_of i w) \<in> phs \<and> closed i w \<and>
     (r_phase (run_of i w) = Cancelled \<longrightarrow> is_cancelled i w)"

text \<open>
  A step of a driven run that may end it, with a condition on the world it starts in and one on its
  result and the world it leaves.
\<close>

definition runs ::
  "run_id \<Rightarrow> ('e world \<Rightarrow> bool) \<Rightarrow> ('e, 'a) run_step \<Rightarrow> (failure_kind + 'a \<Rightarrow> 'e world \<Rightarrow> bool) \<Rightarrow> bool"
  where
  "runs i P m Q \<longleftrightarrow> (\<forall>w r w'. driven i w \<longrightarrow> P w \<longrightarrow> m w = (r, w') \<longrightarrow>
     r \<noteq> Inl Panic \<and> preserved i w w' \<and> Q r w')"

lemma runsD:
  "runs i P m Q \<Longrightarrow> driven i w \<Longrightarrow> P w \<Longrightarrow> m w = (r, w') \<Longrightarrow> r \<noteq> Inl Panic \<and> preserved i w w' \<and> Q r w'"
  by (simp add: runs_def)

lemma runs_weaken: "runs i P m Q \<Longrightarrow> (\<And>w. P' w \<Longrightarrow> P w) \<Longrightarrow> (\<And>r w. Q r w \<Longrightarrow> Q' r w) \<Longrightarrow> runs i P' m Q'"
  unfolding runs_def by blast

lemma runs_bindE:
  assumes m: "runs i P m S" and k: "\<And>x. runs i (S (Inr x)) (k x) Q"
    and "\<And>x w. S (Inr x) w \<Longrightarrow> driven i w" and "\<And>e w. S (Inl e) w \<Longrightarrow> Q (Inl e) w"
  shows "runs i P (bindE m k) Q"
  unfolding runs_def
proof (intro allI impI)
  fix w :: "'a world" and r w'
  assume w: "driven i w" "P w" and run: "bindE m k w = (r, w')"
  obtain q v where q: "m w = (q, v)" by fastforce
  note v = runsD [OF m w q]
  show "r \<noteq> Inl Panic \<and> preserved i w w' \<and> Q r w'"
  proof (cases q)
    case (Inl e)
    then show ?thesis using run q v assms(4) by (auto simp: bindE_def bindS_def)
  next
    case (Inr x)
    then have run': "k x v = (r, w')" using run q by (simp add: bindE_def bindS_def)
    have S: "S (Inr x) v" "driven i v" using v assms(3) by (auto simp: Inr)
    from runsD [OF k S(2,1) run'] show ?thesis using v preserved_trans by blast
  qed
qed

lemma runs_safe: "safe i m \<Longrightarrow> runs i P m (\<lambda>r w. driven i w)"
  unfolding safe_def edits_def runs_def by (auto simp: advances_preserved)

lemma runs_safe_then:
  "safe i m \<Longrightarrow> (\<And>x. runs i (\<lambda>w. True) (k x) Q) \<Longrightarrow> (\<And>e w. driven i w \<Longrightarrow> Q (Inl e) w) \<Longrightarrow> runs i P (bindE m k) Q"
  by (rule runs_bindE [OF runs_safe]) (auto intro: runs_weaken)

lemma runs_getS: "(\<And>x. runs i (\<lambda>w. P w \<and> f w = x) (k x) Q) \<Longrightarrow> runs i P (bindE (getS f) k) Q"
  unfolding runs_def bindE_def bindS_def getS_def by (auto split: prod.splits)

lemma preserved_refl: "preserved i w w"
  by (simp add: preserved_def log_grows_refl ids_advance_refl)

lemma runs_retS: "(\<And>w. driven i w \<Longrightarrow> P w \<Longrightarrow> Q (Inr x) w) \<Longrightarrow> runs i P (retS x) Q"
  by (auto simp: runs_def retS_def preserved_refl)

lemma runs_failS: "e \<noteq> Panic \<Longrightarrow> (\<And>w. driven i w \<Longrightarrow> P w \<Longrightarrow> Q (Inl e) w) \<Longrightarrow> runs i P (failS e) Q"
  by (auto simp: runs_def failS_def preserved_refl)

section \<open>Ending a run\<close>

lemma runs_agent_end:
  "runs i P (emit_agent_end h i hnd) (\<lambda>r w. driven i w \<and> closed i w)"
  unfolding runs_def
proof (intro allI impI)
  fix w :: "'a world" and r w'
  assume w: "driven i w" and "emit_agent_end h i hnd w = (r, w')"
  then have run: "emit h i (AgentEnd (new_messages hnd w)) w = (r, w')"
    by (simp add: emit_agent_end_def bindE_def bindS_def getS_def split: prod.splits sum.splits)
  have "advances i w w'" using obeysD [OF quiet_emit run] by (simp add: quiet_def)
  moreover have "r \<noteq> Inl Panic" using obeys_error [OF quiet_emit, where e = Panic] run by blast
  moreover have "closed i w'" by (rule emit_log [OF w run]) (auto simp: closed_def)
  ultimately show "r \<noteq> Inl Panic \<and> preserved i w w' \<and> driven i w' \<and> closed i w'"
    using w by (simp add: advances_preserved)
qed

lemma finish_driven:
  assumes "driven i w" and "is_terminal ph" and "finish i ph reason err w = (r, w')"
  shows "r = Inr ()" and "preserved i w w'" and "owned w'" and "w_active w' = None" and "w_runs w' i \<noteq> None"
    and "r_phase (run_of i w') = ph" and "log_of i w' = log_of i w" and "is_cancelled i w' = is_cancelled i w"
    and "transcript w' = transcript w"
proof -
  have known: "w_runs w i \<noteq> None" using driven_run [OF assms(1)] by auto
  have fin: "r = Inr ()" "w' = settle_agent Idle err (upd_run i (\<lambda>r. r\<lparr>r_phase := ph, r_stop_reason := Some reason, r_error := err\<rparr>) w)"
    using assms(1,3) by (auto simp: finish_def driven_def)
  show r: "r = Inr ()" by (rule fin)
  have runs: "run_of i w' = (run_of i w)\<lparr>r_phase := ph, r_stop_reason := Some reason, r_error := err\<rparr>"
    using known by (auto simp: fin settle_agent_def notify_idle_def run_of_def world_upd)
  then show "r_phase (run_of i w') = ph" by simp
  show log: "log_of i w' = log_of i w" using runs by (simp add: log_of_def)
  show "is_cancelled i w' = is_cancelled i w"
    by (auto simp: fin settle_agent_def notify_idle_def is_cancelled_def world_upd split: option.splits)
  show "w_active w' = None" "w_runs w' i \<noteq> None" "transcript w' = transcript w"
    using known by (auto simp: fin settle_agent_def notify_idle_def world_upd clear_transient_def)
  show "owned w'" using owned_finish [of w i ph reason err] assms known by (simp add: driven_def)
  have "log_grows i w w'" using log runs by (simp add: log_grows_def log_ok_def)
  then show "preserved i w w'"
    using \<open>is_cancelled i w' = is_cancelled i w\<close>
    by (simp add: preserved_def fin settle_agent_def notify_idle_def settings_def world_upd clear_transient_def ids_advance_same)
qed

lemma runs_finish:
  assumes "is_terminal ph" and "\<And>w. P w \<Longrightarrow> closed i w" and "\<And>w. P w \<Longrightarrow> ph = Cancelled \<Longrightarrow> is_cancelled i w"
  shows "runs i P (liftS (finish i ph reason err)) (\<lambda>r w. r = Inr () \<and> ended i {ph} w)"
  unfolding runs_def
proof (intro allI impI)
  fix w :: "'a world" and r w'
  assume w: "driven i w" "P w" and "liftS (finish i ph reason err) w = (r, w')"
  moreover obtain q v where "finish i ph reason err w = (q, v)" by fastforce
  moreover note fin = finish_driven [OF w(1) assms(1) this]
  ultimately have "r = Inr ()" "w' = v" by (auto simp: liftS_def bindS_def retS_def)
  then show "r \<noteq> Inl Panic \<and> preserved i w w' \<and> r = Inr () \<and> ended i {ph} w'"
    using fin assms(2,3) [OF w(2)] by (auto simp: ended_def closed_def)
qed

text \<open>Steps whose errors are dropped.\<close>

definition unfailing :: "('w, 'e, 'a) step \<Rightarrow> bool" where
  "unfailing m \<longleftrightarrow> (\<forall>w e. fst (m w) \<noteq> Inl e)"

lemma unfailing_steps [simp]: "unfailing (ignoreS m)" "unfailing (retS x)" "unfailing (getS f)" "unfailing (modS f)"
  "unfailing (push_new f' mk)"
  by (auto simp: unfailing_def step_defs push_new_def Let_def split: prod.splits)

lemma unfailing_bindE: "unfailing m \<Longrightarrow> (\<And>x. unfailing (k x)) \<Longrightarrow> unfailing (bindE m k)"
  unfolding unfailing_def bindE_def bindS_def by (simp split: prod.splits sum.splits) (metis fst_conv)

text \<open>The cancellation of a run that counts as cancelled, carried along.\<close>

abbreviation flagged :: "bool \<Rightarrow> run_id \<Rightarrow> 'e world \<Rightarrow> bool" where
  "flagged c i w \<equiv> (c \<longrightarrow> is_cancelled i w)"

lemma runs_flagged:
  assumes "runs i (flagged c i) m Q"
  shows "runs i (flagged c i) m (\<lambda>r w. Q r w \<and> flagged c i w)"
  unfolding runs_def
proof (intro allI impI)
  fix w :: "'a world" and r w'
  assume w: "driven i w" "flagged c i w" "m w = (r, w')"
  then show "r \<noteq> Inl Panic \<and> preserved i w w' \<and> Q r w' \<and> flagged c i w'"
    using runsD [OF assms w] by (auto simp: preserved_def)
qed

lemma runs_calm_then:
  assumes "safe i m" and "unfailing m" and k: "\<And>x. runs i (flagged c i) (k x) Q"
  shows "runs i (flagged c i) (bindE m k) Q"
proof (rule runs_bindE [where S = "\<lambda>r w. (\<exists>x. r = Inr x) \<and> driven i w \<and> flagged c i w"])
  show "runs i (flagged c i) m (\<lambda>r w. (\<exists>x. r = Inr x) \<and> driven i w \<and> flagged c i w)"
    unfolding runs_def
  proof (intro allI impI)
    fix w :: "'a world" and r w'
    assume w: "driven i w" "flagged c i w" "m w = (r, w')"
    then have "driven i w'" "preserved i w w'" using runsD [OF runs_safe [OF assms(1)] w(1) _ w(3)] by auto
    moreover have "\<exists>x. r = Inr x" using assms(2) w(3) by (cases r) (auto simp: unfailing_def, metis fst_conv)
    ultimately show "r \<noteq> Inl Panic \<and> preserved i w w' \<and> (\<exists>x. r = Inr x) \<and> driven i w' \<and> flagged c i w'"
      using w(2) by (auto simp: preserved_def)
  qed
qed (auto intro: runs_weaken [OF k])

lemma runs_ignoreS:
  assumes "runs i P m Q"
  shows "runs i P (ignoreS m) (\<lambda>r w. r = Inr () \<and> (\<exists>q. q \<noteq> Inl Panic \<and> Q q w))"
  using assms unfolding runs_def ignoreS_def by (auto split: prod.splits) (metis prod.collapse)+

lemma safe_ignore: "obeys (quiet i) no_panic m \<Longrightarrow> safe i (ignoreS m)"
  by (intro safe_quiet qt.law_ignoreS) (auto simp: obeys_def)

definition over :: "run_id \<Rightarrow> run_phase set \<Rightarrow> failure_kind + unit \<Rightarrow> 'e world \<Rightarrow> bool" where
  "over i phs r w \<longleftrightarrow> r = Inr () \<and> ended i phs w"

lemma runs_close:
  assumes "is_terminal ph" and "ph = Cancelled \<longrightarrow> c"
  shows "runs i (flagged c i) (thenE (ignoreS (emit_agent_end h i hnd)) (ignoreS (liftS (finish i ph reason err)))) (over i {ph})"
proof (rule runs_bindE)
  let ?S = "\<lambda>r w. r = Inr () \<and> driven i w \<and> closed i w \<and> flagged c i w"
  have "runs i (flagged c i) (emit_agent_end h i hnd) (\<lambda>r w. driven i w \<and> closed i w \<and> flagged c i w)"
    by (rule runs_weaken [OF runs_flagged [OF runs_agent_end]]) auto
  then show "runs i (flagged c i) (ignoreS (emit_agent_end h i hnd)) ?S"
    by (rule runs_weaken [OF runs_ignoreS]) auto
  have "runs i (?S (Inr x)) (liftS (finish i ph reason err)) (\<lambda>r w. r = Inr () \<and> ended i {ph} w)" for x
    by (rule runs_finish) (use assms in auto)
  then show "runs i (?S (Inr x)) (ignoreS (liftS (finish i ph reason err))) (over i {ph})" for x
    by (rule runs_weaken [OF runs_ignoreS]) (auto simp: over_def)
qed auto

lemma runs_closing:
  assumes "is_terminal ph" and "ph = Cancelled \<longrightarrow> c"
  shows "runs i (flagged c i) (thenE (closing_events h i hnd t reason') (ignoreS (liftS (finish i ph reason err)))) (over i {ph})"
  unfolding closing_events_def bindE_assoc
  by (intro runs_calm_then runs_close assms safe_ignore quiet_emit unfailing_steps)

lemma safe_steps [safe_rules]: "safe i (retS x)" "safe i (getS f)" "safe i (run_step_raise e)"
  by (auto intro: safe_quiet quiet_rules)

lemma safe_push: "keeps_core f \<Longrightarrow> (\<And>k. message_id (mk k) = k) \<Longrightarrow> safe i (push_new f mk)"
  by (rule safe_records [OF records_push])

lemma announce_calm: "safe i (announce_message h i m)" "unfailing (announce_message h i m)"
  unfolding announce_message_def
  by (intro safe_bindE safe_ignore quiet_emit unfailing_bindE unfailing_steps)+

lemma runs_getS_flagged:
  assumes "\<And>x. runs i (flagged c i) (k x) Q"
  shows "runs i (flagged c i) (bindE (getS f) k) Q"
  by (rule runs_getS) (rule runs_weaken [OF assms], auto)

lemma clear_calm: "safe i (modS (upd_state clear_transient))"
  by (intro safe_quiet quiet_state) (simp_all add: clear_transient_def)

lemmas settle_rules = runs_calm_then runs_getS_flagged announce_calm clear_calm safe_push unfailing_steps

lemma runs_settle_failure: "runs i (flagged c i) (settle_failure h i hnd e) (over i {Failed})"
  unfolding settle_failure_def fail_run_def
  by (intro settle_rules runs_closing) (auto simp: keeps_core_def)

lemma runs_boundary_failure: "runs i (flagged c i) (settle_compaction_boundary_failure h i hnd e) (over i {Failed})"
  unfolding settle_compaction_boundary_failure_def fail_run_def
  by (intro settle_rules runs_closing) auto

lemma runs_boundary_cancellation:
  "runs i (flagged True i) (settle_compaction_boundary_cancellation h i hnd) (over i {Cancelled})"
  unfolding settle_compaction_boundary_cancellation_def
  by (intro settle_rules runs_closing) auto

lemma runs_settle_cancellation: "runs i (flagged True i) (settle_cancellation h i hnd) (over i {Cancelled})"
proof -
  let ?m = "\<lambda>b. if b then retS () else bindE (push_new (\<lambda>s. s) (\<lambda>k. AssistantMessage k [] [] (Some Aborted)
      (Some ''Operation aborted''))) (announce_message h i)"
  have note_calm: "safe i (?m b)" "unfailing (?m b)" for b
    by (cases b; simp; intro safe_steps safe_bindE safe_push announce_calm unfailing_bindE unfailing_steps;
        simp add: keeps_core_def)+
  show ?thesis
    unfolding settle_cancellation_def
    by (intro settle_rules note_calm runs_closing) auto
qed

lemma ended_mono: "ended i phs w \<Longrightarrow> phs \<subseteq> phs' \<Longrightarrow> ended i phs' w"
  by (auto simp: ended_def)

lemma runs_settle_error: "runs i (\<lambda>w. True) (settle_error h i hnd e) (over i {Failed, Cancelled})"
proof -
  have failed: "runs i (\<lambda>w. True) m (over i {Failed, Cancelled})" if "runs i (flagged False i) m (over i {Failed})" for m :: "('a, unit) run_step"
    using that by (rule runs_weaken) (auto simp: over_def intro: ended_mono)
  have cancelled: "runs i (\<lambda>w. is_cancelled i w) m (over i {Failed, Cancelled})" if "runs i (flagged True i) m (over i {Cancelled})" for m :: "('a, unit) run_step"
    using that by (rule runs_weaken) (auto simp: over_def intro: ended_mono)
  have uncancelled: "runs i (\<lambda>w. True) (case e of
         AutomaticCompactionError reason message \<Rightarrow> settle_compaction_boundary_failure h i hnd e
       | AutomaticCompactionUnavailable reason \<Rightarrow> settle_compaction_boundary_failure h i hnd e
       | _ \<Rightarrow> settle_failure h i hnd e) (over i {Failed, Cancelled})"
    by (auto split: core_error.split intro: failed runs_boundary_failure runs_settle_failure)
  have aborted: "runs i (\<lambda>w. is_cancelled i w) (if compaction_cancelled p then settle_compaction_boundary_cancellation h i hnd
      else settle_cancellation h i hnd) (over i {Failed, Cancelled})" for p
    by (auto intro: cancelled runs_boundary_cancellation runs_settle_cancellation)
  show ?thesis
    unfolding settle_error_def
  proof (intro runs_getS, goal_cases)
    case (1 c p)
    show ?case
    proof (cases c)
      case True
      show ?thesis by (subst if_P [OF True], rule runs_weaken [OF aborted]) (auto simp: True)
    next
      case False
      show ?thesis by (subst if_not_P [OF False], rule runs_weaken [OF uncancelled]) auto
    qed
  qed
qed

section \<open>Turns\<close>

definition turn_post :: "run_id \<Rightarrow> failure_kind + 'a option \<Rightarrow> 'e world \<Rightarrow> bool" where
  "turn_post i r w \<longleftrightarrow> (case r of
       Inr None \<Rightarrow> ended i {Succeeded} w
     | Inr (Some ls) \<Rightarrow> driven i w
     | Inl (Raise e) \<Rightarrow> driven i w \<or> ended i {Failed, Cancelled} w
     | Inl k \<Rightarrow> driven i w)"

lemma turn_post_error [intro]: "driven i w \<Longrightarrow> turn_post i (Inl e) w"
  by (auto simp: turn_post_def split: failure_kind.split)

lemma runs_then_raise:
  fixes m :: "('e, unit) run_step"
  assumes "runs i P m (\<lambda>r w. r = Inr () \<and> ended i phs w)" and "phs \<subseteq> {Failed, Cancelled}"
  shows "runs i P (thenE m (run_step_raise e) :: ('e, 'b option) run_step) (turn_post i)"
  unfolding runs_def
proof (intro allI impI)
  fix w :: "'e world" and r :: "failure_kind + 'b option" and w'
  assume w: "driven i w" "P w" and run: "thenE m (run_step_raise e) w = (r, w')"
  obtain q v where q: "m w = (q, v)" by fastforce
  from runsD [OF assms(1) w q] have v: "preserved i w v" "q = Inr ()" "ended i phs v" by auto
  then have "r = Inl (Raise e)" "w' = v" using run q by (simp_all add: bindE_def bindS_def run_step_raise_def failS_def)
  then show "r \<noteq> Inl Panic \<and> preserved i w w' \<and> turn_post i r w'"
    using v ended_mono [OF v(3) assms(2)] by (auto simp: turn_post_def)
qed

lemma runs_turn_safe:
  assumes "safe i m" and "\<And>x. runs i (\<lambda>w. True) (k x) (turn_post i)"
  shows "runs i P (bindE m k) (turn_post i)"
  using assms by (rule runs_safe_then) auto

lemma runs_then_done:
  fixes m :: "('e, unit) run_step"
  assumes "runs i P m (\<lambda>r w. r = Inr () \<and> ended i {Succeeded} w)"
  shows "runs i P (thenE m (retS None) :: ('e, 'b option) run_step) (turn_post i)"
  unfolding runs_def
proof (intro allI impI)
  fix w :: "'e world" and r :: "failure_kind + 'b option" and w'
  assume w: "driven i w" "P w" and run: "thenE m (retS None) w = (r, w')"
  obtain q v where q: "m w = (q, v)" by fastforce
  from runsD [OF assms w q] have v: "preserved i w v" "q = Inr ()" "ended i {Succeeded} v" by auto
  then have "r = Inr None" "w' = v" using run q by (simp_all add: bindE_def bindS_def retS_def)
  then show "r \<noteq> Inl Panic \<and> preserved i w w' \<and> turn_post i r w'"
    using v by (simp add: turn_post_def)
qed

text \<open>The last event of the run, and what still follows it.\<close>

lemma runs_agent_end_then:
  assumes "\<And>x. runs i (\<lambda>w. closed i w \<and> flagged c i w) (k x) (turn_post i)"
  shows "runs i (flagged c i) (bindE (emit_agent_end h i hnd) k) (turn_post i)"
  by (rule runs_bindE [OF runs_flagged [OF runs_agent_end]]) (auto intro: runs_weaken [OF assms])

lemma runs_end_then:
  assumes "\<And>x. runs i (\<lambda>w. closed i w \<and> flagged c i w) (k x) (turn_post i)"
  shows "runs i (flagged c i) (bindE (end_turn_and_run h i hnd t reason) k) (turn_post i)"
  unfolding end_turn_and_run_def bindE_assoc
  by (rule runs_bindE [OF runs_flagged [OF runs_safe [OF safe_quiet [OF quiet_emit]]]])
    (auto intro: runs_weaken [OF runs_agent_end_then [OF assms]])

lemma runs_finish_raise:
  assumes "ph \<in> {Failed, Cancelled}" and "ph = Cancelled \<longrightarrow> c"
  shows "runs i (\<lambda>w. closed i w \<and> flagged c i w) (thenE (liftS (finish i ph reason err)) (run_step_raise e)) (turn_post i)"
  by (rule runs_then_raise [OF runs_finish]) (use assms in auto)

lemma runs_any: "runs i (flagged False i) m Q \<Longrightarrow> runs i P m Q"
  by (rule runs_weaken) auto

lemma runs_fail_model_turn: "runs i P (fail_model_turn h i hnd t answer) (turn_post i)"
  unfolding fail_model_turn_def Let_def fail_run_def
proof (rule runs_any, rule runs_end_then, rule runs_getS, goal_cases)
  case (1 x c)
  have failed: "runs i P' (thenE (liftS (finish i Failed reason err)) (run_step_raise e)) (turn_post i)"
    if "\<And>w. P' w \<Longrightarrow> closed i w" for P' reason err e
    by (rule runs_weaken [OF runs_finish_raise [where c = False]]) (use that in auto)
  have cancelled: "runs i P' (thenE (liftS (finish i Cancelled reason err)) (run_step_raise e)) (turn_post i)"
    if "\<And>w. P' w \<Longrightarrow> closed i w \<and> is_cancelled i w" for P' reason err e
    by (rule runs_weaken [OF runs_finish_raise [where c = True]]) (use that in auto)
  show ?case by (auto intro!: failed cancelled)
qed

lemma runs_break_circuit: "runs i P (break_circuit h i hnd t message) (turn_post i)"
  unfolding break_circuit_def fail_run_def
  by (rule runs_turn_safe [OF safe_quiet [OF quiet_emit]], rule runs_any, rule runs_end_then, rule runs_finish_raise) auto

lemma runs_cancel_turn:
  "runs i (is_cancelled i) (thenE (end_turn_and_run h i hnd t reason)
    (thenE (liftS (finish i Cancelled CancelledReason None)) (run_step_raise CancelledError))) (turn_post i)"
  by (rule runs_weaken [OF runs_end_then [where c = True, OF runs_finish_raise]]) auto

lemma runs_succeed_turn:
  "runs i P (thenE (emit_agent_end_and_succeed h i hnd reason) (retS None)) (turn_post i)"
  unfolding emit_agent_end_and_succeed_def bindE_assoc succeed_def
  by (rule runs_any, rule runs_agent_end_then, rule runs_then_done, rule runs_finish) auto

subsection \<open>The parts of a turn\<close>

lemmas safe_boundary [safe_rules] = safe_quiet [OF quiet_emit] safe_quiet [OF still_quiet [OF still_await]]
  safe_quiet [OF still_quiet [OF still_await_hook]] safe_quiet [OF still_quiet [OF still_hook_ok]]
  safe_quiet [OF quiet_current_context] safe_quiet [OF quiet_policy_step] safe_quiet [OF quiet_automatic_end]
  safe_quiet [OF quiet_provider_context]

lemma safe_modS: "obeys (quiet i) no_panic (modS f) \<Longrightarrow> safe i (modS f)"
  by (rule safe_quiet)

lemma safe_model_request [safe_rules]: "safe i (make_model_request h i cf cx mo tho)"
proof -
  have "obeys (quiet i) no_panic (modS (upd_state (\<lambda>s. s\<lparr>a_streaming := True\<rparr>)))"
    by (rule quiet_state) simp_all
  then show ?thesis
    unfolding make_model_request_def by (auto intro!: safe_bindE safe_rules safe_modS)
qed

lemma safe_context_estimate [safe_rules]: "safe i (emit_context_estimate h i rq n)"
  unfolding emit_context_estimate_def by (intro safe_rules)

lemma safe_request_turn [safe_rules]: "safe i (request_turn h i hnd fuel ls)"
  unfolding request_turn_def Let_def
  by (auto intro!: safe_rules split: prod.split option.split sum.split)

lemma safe_policy_mod [safe_rules]: "safe i (modS (upd_policy i f))"
  by (intro safe_modS quiet_rules)

lemma safe_skip [safe_rules]: "safe i (modS (\<lambda>w. w))"
  by (intro safe_modS qt.law_modS qt.R_refl)

lemma safe_recover [safe_rules]: "safe i (recover_overflow h i hnd count answer ls)"
  unfolding recover_overflow_def
  by (auto intro!: safe_rules split: prod.split)

lemma safe_turn_tools [safe_rules]: "safe i (turn_tools h i hnd fuel answer)"
  unfolding turn_tools_def by (auto intro!: safe_rules)

lemma quiet_drain:
  fixes i :: run_id
  shows "obeys (quiet i) no_panic (drain_steering :: ('e, queued_message list) run_step)"
    and "obeys (quiet i) no_panic (drain_follow_up :: ('e, queued_message list) run_step)"
proof -
  have "still i w (w\<lparr>w_queues := q\<rparr>)" for w :: "'e world" and q
    using still_queues [of i w "\<lambda>_. q"] by (simp add: upd_queues_def)
  then have "quiet i w (w\<lparr>w_queues := q\<rparr>)" for w :: "'e world" and q by (simp add: still_def)
  then show "obeys (quiet i) no_panic (drain_steering :: ('e, queued_message list) run_step)"
    "obeys (quiet i) no_panic (drain_follow_up :: ('e, queued_message list) run_step)"
    by (auto simp: drain_steering_def drain_follow_up_def obeys_def case_prod_beta Let_def)
qed

lemmas safe_drain [safe_rules] = quiet_drain [THEN safe_quiet]

lemma safe_advance_turn [safe_rules]: "safe i (liftS (advance_turn i t))"
proof -
  have "quiet i w (snd (advance_turn i t w))" if w: "driven i w" for w :: "'a world"
  proof -
    have known: "w_runs w i \<noteq> None" using driven_run [OF w] by auto
    have w': "snd (advance_turn i t w) = upd_run i (\<lambda>r. r\<lparr>r_turn := Some t\<rparr>) w" using w by (simp add: advance_turn_def driven_def)
    have run: "run_of i (upd_run i (\<lambda>r. r\<lparr>r_turn := Some t\<rparr>) w) = (run_of i w)\<lparr>r_turn := Some t\<rparr>"
      using known by (auto simp: run_of_def world_upd)
    have "owned (snd (advance_turn i t w))" using w owned_advance_turn by (auto simp: driven_def)
    then show ?thesis
      using w unfolding w' by (auto simp: quiet_def advances_def driven_def run log_grows_def log_ok_def log_of_def
          is_cancelled_def ids_advance_refl split: option.splits)
  qed
  then have "quiet i w (snd (advance_turn i t w))" for w :: "'a world" by (auto simp: quiet_def advances_def)
  then show ?thesis by (intro safe_quiet quiet_liftS)
qed

lemma runs_after_turn: "runs i P (after_turn h i hnd answer all_terminate ls) (turn_post i)"
proof -
  have more: "runs i P' (retS (Some x)) (turn_post i)" for P' and x :: loop_state
    by (rule runs_retS) (simp add: turn_post_def)
  show ?thesis
    unfolding after_turn_def Let_def
    by (intro runs_turn_safe safe_rules)
      (auto intro!: runs_turn_safe safe_rules runs_succeed_turn more)
qed

lemma runs_run_turn: "runs i P (run_turn h i hnd fuel ls) (turn_post i)"
proof -
  have more: "runs i P' (retS (Some x)) (turn_post i)" for P' and x :: loop_state
    by (rule runs_retS) (simp add: turn_post_def)
  have tools: "runs i P' (bindE (turn_tools h i hnd fuel answer) (\<lambda>(all_terminate, terminal).
      case terminal of Some message \<Rightarrow> break_circuit h i hnd t message
      | None \<Rightarrow> after_turn h i hnd answer all_terminate ls')) (turn_post i)" for P' t ls' answer
    by (intro runs_turn_safe safe_rules) (auto split: option.split intro: runs_break_circuit runs_after_turn)
  have finish_turn: "runs i P' (bindE (getS (is_cancelled i)) (\<lambda>c.
      if at_reason answer = CancelledReason \<and> c
      then thenE (end_turn_and_run h i hnd t (at_reason answer))
        (thenE (liftS (finish i Cancelled CancelledReason None)) (run_step_raise CancelledError))
      else bindE (turn_tools h i hnd fuel answer) (\<lambda>(all_terminate, terminal).
        case terminal of Some message \<Rightarrow> break_circuit h i hnd t message
        | None \<Rightarrow> after_turn h i hnd answer all_terminate ls'))) (turn_post i)" for P' t ls' answer
    by (rule runs_getS) (auto intro: tools runs_weaken [OF runs_cancel_turn])
  show ?thesis
    unfolding run_turn_def case_prod_beta
    by (intro runs_turn_safe safe_rules)
      (auto split: option.split intro: more runs_fail_model_turn finish_turn [unfolded case_prod_beta])
qed

definition loop_post :: "run_id \<Rightarrow> failure_kind + unit \<Rightarrow> 'e world \<Rightarrow> bool" where
  "loop_post i r w \<longleftrightarrow> (case r of
       Inr _ \<Rightarrow> ended i {Succeeded} w
     | Inl (Raise e) \<Rightarrow> driven i w \<or> ended i {Failed, Cancelled} w
     | Inl k \<Rightarrow> driven i w)"

lemma loop_post_error [intro]: "driven i w \<Longrightarrow> loop_post i (Inl e) w"
  by (auto simp: loop_post_def split: failure_kind.split)

lemma runs_drive_loop: "runs i (\<lambda>w. True) (drive_loop h i hnd fuel rounds ls) (loop_post i)"
proof (induction rounds arbitrary: ls)
  case 0
  show ?case by (auto intro!: runs_failS)
next
  case (Suc rounds)
  show ?case
    unfolding runs_def
  proof (intro allI impI)
    fix w :: "'a world" and r w'
    assume w: "driven i w" and run: "drive_loop h i hnd fuel (Suc rounds) ls w = (r, w')"
    obtain q v where q: "run_turn h i hnd fuel ls w = (q, v)" by fastforce
    have v: "q \<noteq> Inl Panic" "preserved i w v" "turn_post i q v"
      using runsD [OF runs_run_turn [where P = "\<lambda>w. True"] w _ q] by auto
    consider (stop) e where "q = Inl e" | (last) "q = Inr None" | (more) ls' where "q = Inr (Some ls')"
      by (metis sum.exhaust option.exhaust)
    then show "r \<noteq> Inl Panic \<and> preserved i w w' \<and> loop_post i r w'"
    proof cases
      case (stop e)
      then show ?thesis using run q v by (auto simp: bindE_def bindS_def turn_post_def loop_post_def split: failure_kind.splits)
    next
      case last
      then show ?thesis using run q v by (auto simp: bindE_def bindS_def retS_def turn_post_def loop_post_def)
    next
      case (more ls')
      then have rest: "drive_loop h i hnd fuel rounds ls' v = (r, w')" "driven i v"
        using run q v by (simp_all add: bindE_def bindS_def turn_post_def)
      then show ?thesis using runsD [OF Suc.IH rest(2) _ rest(1)] preserved_trans [OF v(2)] by auto
    qed
  qed
qed

section \<open>The whole drive\<close>

lemma start_driven:
  fixes w :: "'e world"
  assumes "owned w" and "w_active w = Some i" and "r_phase (run_of i w) = Created"
  obtains v where "start_turn i t w = (Inr (), v)" and "driven i v" and "preserved i w v" and "w_state v = w_state w"
proof -
  let ?v = "upd_run i (\<lambda>r. r\<lparr>r_phase := RunRunning, r_turn := Some t\<rparr>) w"
  have known: "w_runs w i \<noteq> None" using assms(1,2) by (auto simp: owned_def)
  have start: "start_turn i t w = (Inr (), ?v)" using assms(3) by (simp add: start_turn_def)
  have run: "run_of i ?v = (run_of i w)\<lparr>r_phase := RunRunning, r_turn := Some t\<rparr>"
    using known by (auto simp: run_of_def world_upd)
  have "owned ?v" using owned_start_turn [OF assms(1), of i t] by (simp add: start)
  then have "driven i ?v" using assms(2) run by (simp add: driven_def)
  moreover have "log_grows i w ?v" using run by (simp add: log_grows_def log_ok_def log_of_def)
  then have "preserved i w ?v"
    by (auto simp: preserved_def ids_advance_refl is_cancelled_def split: option.splits)
  ultimately show ?thesis using that start by simp
qed

lemma safe_forE: "(\<And>x. safe i (body x)) \<Longrightarrow> safe i (forE xs body)"
  by (induction xs) (auto intro: safe_bindE safe_steps)

lemma runs_drive_started: "runs i (\<lambda>w. True) (drive_started h i hnd fuel rounds) (loop_post i)"
  unfolding drive_started_def
proof (rule runs_getS, goal_cases)
  case (1 running)
  have then_loop: "runs i (\<lambda>w. True) (bindE m k) (loop_post i)"
    if "safe i m" "\<And>x. runs i (\<lambda>w. True) (k x) (loop_post i)" for m :: "('a, 'b) run_step" and k
    using that by (rule runs_safe_then) auto
  have announced: "safe i (forE (h_initial hnd) (\<lambda>m. thenE (emit h i (MessageStart m)) (emit h i (MessageEnd m))))"
    by (intro safe_forE safe_rules)
  have first_context: "safe i (if h_skip_steering hnd then retS None
      else bindE current_context (\<lambda>cx. bindE drain_steering (\<lambda>queued.
        bindE (inject_queued_messages h i cx queued) (\<lambda>cx. retS (Some cx)))))"
    by (auto intro!: safe_rules)
  have loop: "runs i P (drive_loop h i hnd fuel rounds ls) (loop_post i)" for P ls
    by (rule runs_weaken [OF runs_drive_loop]) auto
  show ?case
  proof (cases "running = Some i")
    case True
    show ?thesis
      by (rule runs_weaken [where P = "\<lambda>w. True"])
        (auto simp: True intro!: runs_safe_then safe_rules announced first_context loop)
  next
    case False
    then show ?thesis by (auto simp: runs_def driven_phase)
  qed
qed

definition drive_post :: "run_id \<Rightarrow> failure_kind + unit \<Rightarrow> 'e world \<Rightarrow> bool" where
  "drive_post i r w \<longleftrightarrow> (case r of
       Inr _ \<Rightarrow> ended i {Succeeded} w
     | Inl (Raise e) \<Rightarrow> ended i {Failed, Cancelled} w
     | Inl Panic \<Rightarrow> False
     | Inl OutOfFuel \<Rightarrow> driven i w)"

lemma ended_terminal: "ended i {Failed, Cancelled} w \<Longrightarrow> is_terminal (r_phase (run_of i w))"
  by (auto simp: ended_def)

lemma drive_runs:
  fixes w :: "'e world"
  assumes start: "owned w" "w_active w = Some (h_run hnd)" "r_phase (run_of (h_run hnd) w) = Created"
    and run: "drive h hnd fuel rounds w = (r, w')"
  shows "preserved (h_run hnd) w w' \<and> drive_post (h_run hnd) r w'"
proof -
  let ?i = "h_run hnd"
  obtain v where v: "start_turn ?i 1 w = (Inr (), v)" "driven ?i v" "preserved ?i w v"
    using start_driven [OF start] by metis
  obtain q u where q: "drive_started h ?i hnd fuel rounds v = (q, u)" by fastforce
  have u: "q \<noteq> Inl Panic" "preserved ?i v u" "loop_post ?i q u"
    using runsD [OF runs_drive_started v(2) _ q] by auto
  have inner: "drive_inner h hnd fuel rounds w = (q, u)"
    using v(1) q by (simp add: drive_inner_def liftS_def step_defs)
  consider (ok) "q = Inr ()" | (fuel) "q = Inl OutOfFuel" | (over) e where "q = Inl (Raise e)" "ended ?i {Failed, Cancelled} u"
    | (settle) e where "q = Inl (Raise e)" "driven ?i u"
    using u(1,3) by (cases q; simp add: loop_post_def split: failure_kind.splits) blast+
  then have "preserved ?i u w' \<and> drive_post ?i r w'"
  proof cases
    case ok
    then show ?thesis using run u(3) by (auto simp: drive_def catch_def inner step_defs drive_post_def loop_post_def preserved_refl)
  next
    case fuel
    then show ?thesis using run u(3) by (auto simp: drive_def catch_def inner step_defs drive_post_def loop_post_def preserved_refl)
  next
    case (over e)
    then have "r = Inl (Raise e)" "w' = u"
      using run ended_terminal [OF over(2)] by (auto simp: drive_def catch_def inner step_defs run_step_raise_def)
    then show ?thesis using over by (simp add: drive_post_def preserved_refl)
  next
    case (settle e)
    obtain p z where z: "settle_error h ?i hnd e u = (p, z)" by fastforce
    have "preserved ?i u z" "over ?i {Failed, Cancelled} p z"
      using runsD [OF runs_settle_error settle(2) _ z] by auto
    moreover have "\<not> is_terminal (r_phase (run_of ?i u))" using settle(2) by (simp add: driven_def)
    ultimately have "r = Inl (Raise e)" "w' = z"
      using run settle z by (auto simp: drive_def catch_def inner step_defs run_step_raise_def over_def)
    then show ?thesis using \<open>preserved ?i u z\<close> \<open>over ?i {Failed, Cancelled} p z\<close> by (simp add: drive_post_def over_def)
  qed
  then show ?thesis using preserved_trans v(3) u(2) by blast
qed


lemma start_run_fresh:
  assumes "owned w0" and "start_run contents skip w0 = (Inr hnd, w)"
  shows "owned w \<and> w_active w = Some (h_run hnd) \<and> run_of (h_run hnd) w = run_created (h_run hnd) \<and>
    \<not> is_cancelled (h_run hnd) w"
proof -
  have "owned w" using owned_start_run [OF assms(1), of contents skip] by (simp add: assms(2))
  moreover obtain s i v where "w = claim i Created (v\<lparr>w_state := s\<rparr>)" "h_run hnd = i"
    using assms(2) by (auto simp: start_run_def when_idle_def case_prod_beta Let_def split: option.splits)
  ultimately show ?thesis by (auto simp: claim_def run_of_def is_cancelled_def run_created_def)
qed

lemma started_fresh:
  assumes "owned w0" and "start_prompt prompt w0 = (Inr hnd, w) \<or> start_continue w0 = (Inr hnd, w)"
  shows "owned w \<and> w_active w = Some (h_run hnd) \<and> run_of (h_run hnd) w = run_created (h_run hnd) \<and>
    \<not> is_cancelled (h_run hnd) w"
proof -
  obtain v contents skip where "owned v" "start_run contents skip v = (Inr hnd, w)"
    using assms owned_drain_tail [OF assms(1)]
    by (auto simp: start_prompt_def start_continue_def when_idle_def case_prod_beta Let_def split: option.splits if_splits)
  then show ?thesis by (rule start_run_fresh)
qed

section \<open>Manual compaction\<close>

text \<open>A run that ended without a last event of its own: a compaction reports its end before it settles.\<close>

definition shut :: "run_id \<Rightarrow> run_phase set \<Rightarrow> 'e world \<Rightarrow> bool" where
  "shut i phs w \<longleftrightarrow> owned w \<and> w_active w = None \<and> w_runs w i \<noteq> None \<and> r_phase (run_of i w) \<in> phs"

abbreviation going :: "(agent_message list \<Rightarrow> bool) \<Rightarrow> run_id \<Rightarrow> 'e world \<Rightarrow> bool" where
  "going T i w \<equiv> driven i w \<and> T (transcript w)"

text \<open>The compaction has been settled as failed or cancelled, and says so.\<close>

definition stopped :: "(agent_message list \<Rightarrow> bool) \<Rightarrow> run_id \<Rightarrow> failure_kind + 'a \<Rightarrow> 'e world \<Rightarrow> bool" where
  "stopped T i r w \<longleftrightarrow> (\<exists>e. r = Inl (Raise e)) \<and> shut i {Failed, Cancelled} w \<and> T (transcript w)"

lemma runs_quiet:
  assumes "obeys (quiet i) no_panic m"
  shows "runs i (\<lambda>w. T (transcript w)) m (\<lambda>r w. going T i w)"
  using assms unfolding runs_def
  by (auto dest: obeysD obeys_error simp: quiet_def advances_preserved)

lemma runs_shut:
  assumes "is_terminal ph"
  shows "runs i (\<lambda>w. T (transcript w)) (liftS (finish i ph reason err))
    (\<lambda>r w. r = Inr () \<and> shut i {ph} w \<and> T (transcript w))"
  unfolding runs_def
proof (intro allI impI)
  fix w :: "'a world" and r w'
  assume w: "driven i w" "T (transcript w)" and "liftS (finish i ph reason err) w = (r, w')"
  moreover obtain q v where "finish i ph reason err w = (q, v)" by fastforce
  moreover note fin = finish_driven [OF w(1) assms this]
  ultimately have "r = Inr ()" "w' = v" by (auto simp: liftS_def bindS_def retS_def)
  then show "r \<noteq> Inl Panic \<and> preserved i w w' \<and> r = Inr () \<and> shut i {ph} w' \<and> T (transcript w')"
    using fin w(2) by (auto simp: shut_def)
qed

lemma runs_raise_after:
  assumes "runs i P m (\<lambda>r w. r = Inr () \<and> shut i phs w \<and> T (transcript w))" and "phs \<subseteq> {Failed, Cancelled}"
  shows "runs i P (thenE m (run_step_raise e)) (stopped T i)"
  unfolding runs_def
proof (intro allI impI)
  fix w :: "'a world" and r :: "failure_kind + 'b" and w'
  assume w: "driven i w" "P w" and run: "thenE m (run_step_raise e) w = (r, w')"
  obtain q v where q: "m w = (q, v)" by fastforce
  from runsD [OF assms(1) w q] have v: "preserved i w v" "q = Inr ()" "shut i phs v" "T (transcript v)" by auto
  then have "r = Inl (Raise e)" "w' = v" using run q by (simp_all add: bindE_def bindS_def run_step_raise_def failS_def)
  then show "r \<noteq> Inl Panic \<and> preserved i w w' \<and> stopped T i r w'"
    using v assms(2) by (auto simp: stopped_def shut_def)
qed

lemma runs_emit_failure: "runs i (\<lambda>w. T (transcript w)) (compaction_emit_failure h i e) (stopped T i)"
  unfolding compaction_emit_failure_def fail_run_def
  by (rule runs_raise_after [OF runs_weaken [OF runs_ignoreS [OF runs_shut]]]) auto

text \<open>Delivering an event fails only with an observer's error.\<close>

interpretation raising: step_law "\<lambda>_ _. True" "\<lambda>e. \<exists>x. e = Raise x"
  by unfold_locales simp_all

lemma emit_raises: "obeys (\<lambda>_ _. True) (\<lambda>e. \<exists>x. e = Raise x) (emit h i kind)"
proof -
  have await: "obeys (\<lambda>_ _. True) (\<lambda>e. \<exists>x. e = Raise x) (await i f)" for f :: "('a, 'b) reply"
    by (auto simp: obeys_def await_def split: prod.splits)
  have "obeys (\<lambda>_ _. True) (\<lambda>e. \<exists>x. e = Raise x) (notify_observer h i ev reg)" for ev reg
    unfolding notify_observer_def by (auto intro!: raising.law_intros await split: sum.split)
  then have "obeys (\<lambda>_ _. True) (\<lambda>e. \<exists>x. e = Raise x) (deliver h i ev)" for ev
    unfolding deliver_def by (intro raising.law_intros) simp_all
  then show ?thesis by (auto simp: emit_def obeys_def case_prod_beta)
qed

lemma runs_compaction_emit:
  "runs i (\<lambda>w. T (transcript w)) (compaction_emit h i kind)
    (\<lambda>r w. case r of Inr _ \<Rightarrow> going T i w | Inl e \<Rightarrow> stopped T i r w)"
  unfolding compaction_emit_def
proof (rule runs_bindE [where S = "\<lambda>r w. (\<exists>x. r = Inr x) \<and> going T i w"])
  show "runs i (\<lambda>w. T (transcript w)) (catch (emit h i kind)) (\<lambda>r w. (\<exists>x. r = Inr x) \<and> going T i w)"
    unfolding runs_def
  proof (intro allI impI)
    fix w :: "'a world" and r w'
    assume w: "driven i w" "T (transcript w)" and run: "catch (emit h i kind) w = (r, w')"
    obtain q v where q: "emit h i kind w = (q, v)" by fastforce
    have "preserved i w v" "going T i v" using runsD [OF runs_quiet [OF quiet_emit, where T = T] w q] by auto
    moreover have "\<exists>x. q = Inl (Raise x) \<or> q = Inr ()" using obeys_error [OF emit_raises] q by (cases q) auto
    ultimately show "r \<noteq> Inl Panic \<and> preserved i w w' \<and> (\<exists>x. r = Inr x) \<and> going T i w'"
      using run q by (auto simp: catch_def)
  qed
  show "runs i (\<lambda>w. (\<exists>x. Inr r = Inr x) \<and> going T i w)
      (case r of Inr _ \<Rightarrow> retS () | Inl e \<Rightarrow> compaction_emit_failure h i e)
      (\<lambda>r w. case r of Inr _ \<Rightarrow> going T i w | Inl e \<Rightarrow> stopped T i r w)" for r :: "core_error + unit"
  proof (cases r)
    case (Inl e)
    show ?thesis
      unfolding Inl sum.case by (rule runs_weaken [OF runs_emit_failure [where T = T]]) (auto simp: stopped_def)
  next
    case (Inr u)
    show ?thesis unfolding Inr sum.case by (rule runs_retS) simp
  qed
qed auto

lemma runs_emit_then:
  assumes "\<And>x. runs i (\<lambda>w. T (transcript w)) (k x) Q" and "\<And>e w. stopped T i (Inl e :: failure_kind + unit) w \<Longrightarrow> Q (Inl e) w"
  shows "runs i (\<lambda>w. T (transcript w)) (bindE (compaction_emit h i kind) k) Q"
  by (rule runs_bindE [OF runs_compaction_emit [where T = T]]) (auto intro: runs_weaken [OF assms(1)] assms(2))

lemma stopped_any: "stopped T i (Inl e :: failure_kind + unit) w \<Longrightarrow> stopped T i (Inl e :: failure_kind + 'a) w"
  by (simp add: stopped_def)

lemma runs_settle_compaction_failure: "runs i (\<lambda>w. T (transcript w)) (compaction_settle_failure h i e) (stopped T i)"
  unfolding compaction_settle_failure_def Let_def fail_run_def
  by (rule runs_emit_then [OF runs_raise_after [OF runs_weaken [OF runs_ignoreS [OF runs_shut]]] stopped_any]) auto

lemma runs_settle_compaction_cancelled: "runs i (\<lambda>w. T (transcript w)) (compaction_settle_cancelled h i) (stopped T i)"
  unfolding compaction_settle_cancelled_def settle_cancelled_def
  by (rule runs_emit_then [OF runs_raise_after [OF runs_shut] stopped_any]) auto

text \<open>
  What the drive of a manual compaction leaves of the conversation \<open>b\<close>: the compactor's replacement, checked, or
  when the compaction failed, either of the two (an observer may fail after the commit).
\<close>

definition manual_post :: "run_id \<Rightarrow> agent_message list \<Rightarrow> failure_kind + unit \<Rightarrow> 'e world \<Rightarrow> bool" where
  "manual_post i b r w \<longleftrightarrow>
     r = Inr () \<and> shut i {Succeeded} w \<and> conversation_ok (transcript w) \<or>
     stopped (\<lambda>t. t = b \<or> conversation_ok t) i r w"

lemma manual_post_stopped:
  "stopped (\<lambda>t. t = b) i r w \<Longrightarrow> manual_post i b r w" "stopped conversation_ok i r w \<Longrightarrow> manual_post i b r w"
  by (auto simp: manual_post_def stopped_def)

lemma runs_drive_compaction: "runs i (\<lambda>w. transcript w = b) (drive_compaction h i compactor) (manual_post i b)"
proof -
  let ?here = "\<lambda>w. transcript w = b"
  note kept = manual_post_stopped(1) [OF stopped_any]
  have here_emit: "runs i ?here (bindE (compaction_emit h i kind) k) (manual_post i b)"
    if "\<And>x. runs i ?here (k x) (manual_post i b)" for kind and k :: "unit \<Rightarrow> ('a, unit) run_step"
    using that runs_emit_then [where T = "\<lambda>t. t = b"] manual_post_stopped(1) by blast
  have failure: "runs i ?here (compaction_settle_failure h i e) (manual_post i b)" for e
    by (rule runs_weaken [OF runs_settle_compaction_failure [where T = "\<lambda>t. t = b"]]) (auto intro: manual_post_stopped)
  have cancelled: "runs i ?here (compaction_settle_cancelled h i) (manual_post i b)"
    by (rule runs_weaken [OF runs_settle_compaction_cancelled [where T = "\<lambda>t. t = b"]]) (auto intro: manual_post_stopped)
  have emit_failure: "runs i ?here (compaction_emit_failure h i e) (manual_post i b)" for e
    by (rule runs_weaken [OF runs_emit_failure [where T = "\<lambda>t. t = b"]]) (auto intro: manual_post_stopped)
  have finished: "runs i (\<lambda>w. conversation_ok (transcript w)) (liftS (succeed i Stop)) (manual_post i b)"
    unfolding succeed_def by (rule runs_weaken [OF runs_shut [where T = conversation_ok]]) (auto simp: manual_post_def)
  have committed: "runs i (\<lambda>w. conversation_ok (transcript w))
      (thenE (compaction_emit h i k1) (thenE (compaction_emit h i k2) (liftS (succeed i Stop)))) (manual_post i b)" for k1 k2
    by (intro runs_emit_then finished) (auto intro: manual_post_stopped)
  have commit: "runs i ?here (bindE (tryS (commit_replacement i ms)) (\<lambda>r. case r of
        Inl e \<Rightarrow> if e = CancelledError then compaction_settle_cancelled h i else compaction_emit_failure h i e
      | Inr _ \<Rightarrow> thenE (compaction_emit h i k1) (thenE (compaction_emit h i k2) (liftS (succeed i Stop))))) (manual_post i b)"
    if ok: "conversation_ok ms" for ms k1 k2
  proof (rule runs_bindE [where S = "\<lambda>r w. driven i w \<and> ((\<exists>e. r = Inr (Inl e) \<and> transcript w = b) \<or> r = Inr (Inr ()) \<and> transcript w = ms)"])
    show "runs i ?here (tryS (commit_replacement i ms))
        (\<lambda>r w. driven i w \<and> ((\<exists>e. r = Inr (Inl e) \<and> transcript w = b) \<or> r = Inr (Inr ()) \<and> transcript w = ms))"
      using edits_commit_replacement [OF ok, of i b] unfolding runs_def edits_def advances_preserved by blast
    fix r :: "core_error + unit"
    show "runs i (\<lambda>w. driven i w \<and> ((\<exists>e. Inr r = Inr (Inl e) \<and> transcript w = b) \<or> Inr r = Inr (Inr ()) \<and> transcript w = ms))
        (case r of Inl e \<Rightarrow> if e = CancelledError then compaction_settle_cancelled h i else compaction_emit_failure h i e
         | Inr _ \<Rightarrow> thenE (compaction_emit h i k1) (thenE (compaction_emit h i k2) (liftS (succeed i Stop)))) (manual_post i b)"
      using runs_weaken [OF committed [of k1 k2], where P' = "\<lambda>w. driven i w \<and> transcript w = ms"] ok
      by (cases r) (auto intro: runs_weaken [OF cancelled] runs_weaken [OF emit_failure])
  qed auto
  have get: "runs i P (bindE (getS f) k) (manual_post i b)"
    if "\<And>w. P w \<Longrightarrow> transcript w = b" "\<And>x. runs i ?here (k x) (manual_post i b)"
    for P f and k :: "'c \<Rightarrow> ('a, unit) run_step"
    by (rule runs_getS) (use that(1) in \<open>auto intro: runs_weaken [OF that(2)]\<close>)
  have go: "runs i ?here (if c then compaction_settle_cancelled h i else k) (manual_post i b)"
    if "runs i ?here k (manual_post i b)" for c k using that cancelled by auto
  have answered: "runs i ?here (case r of Inl e \<Rightarrow> compaction_settle_failure h i e
      | Inr replacement \<Rightarrow> bindE (getS (is_cancelled i)) (\<lambda>c.
          if c then compaction_settle_cancelled h i
          else case validate_messages (cr_messages replacement) of
              Inl e \<Rightarrow> compaction_settle_failure h i (InvalidReplacement e)
            | Inr _ \<Rightarrow> bindE (tryS (commit_replacement i (cr_messages replacement))) (\<lambda>r. case r of
                  Inl e \<Rightarrow> if e = CancelledError then compaction_settle_cancelled h i else compaction_emit_failure h i e
                | Inr _ \<Rightarrow> let retained = length (cr_messages replacement)
                    in thenE (compaction_emit h i (CompactionResult retained (cr_usage replacement)))
                       (thenE (compaction_emit h i (CompactionEnd (CompactionSucceeded retained)))
                         (liftS (succeed i Stop)))))) (manual_post i b)" for r
  proof (cases r)
    case (Inr replacement)
    have checked: "runs i ?here (case validate_messages (cr_messages replacement) of
        Inl e \<Rightarrow> compaction_settle_failure h i (InvalidReplacement e)
      | Inr _ \<Rightarrow> bindE (tryS (commit_replacement i (cr_messages replacement))) (\<lambda>r. case r of
            Inl e \<Rightarrow> if e = CancelledError then compaction_settle_cancelled h i else compaction_emit_failure h i e
          | Inr _ \<Rightarrow> thenE (compaction_emit h i k1) (thenE (compaction_emit h i k2) (liftS (succeed i Stop)))))
        (manual_post i b)" for k1 k2
      using valid_conversation by (auto split: sum.split intro: failure commit)
    show ?thesis unfolding Inr sum.case Let_def by (intro get go checked)
  qed (simp add: failure)
  have awaited: "runs i ?here (await i f) (\<lambda>r w. (\<exists>x. r = Inr x) \<and> going (\<lambda>t. t = b) i w)" for f :: "('a, 'b) reply"
    unfolding runs_def
  proof (intro allI impI)
    fix w :: "'a world" and r w'
    assume w: "driven i w" "transcript w = b" "await i f w = (r, w')"
    then have "\<exists>x. r = Inr x" by (auto simp: await_def split: prod.splits)
    then show "r \<noteq> Inl Panic \<and> preserved i w w' \<and> (\<exists>x. r = Inr x) \<and> driven i w' \<and> transcript w' = b"
      using runsD [OF runs_quiet [OF still_quiet [OF still_await], where T = "\<lambda>t. t = b"] w] by blast
  qed
  show ?thesis
    unfolding drive_compaction_def
    by (rule get, assumption, rule here_emit, rule get, assumption, rule go, rule get, assumption,
        rule runs_bindE [OF awaited], rule runs_weaken [OF answered]) simp_all
qed

section \<open>Properties\<close>

text \<open>An agent that can be driven with the sample host.\<close>

definition sample_world :: "stream_event list world" where
  "sample_world = agent_build (sample_builder\<lparr>b_provider := Some 0\<rparr>) [TextDelta ''hi'', StreamEnd Stop]"

lemma sample_started: "\<exists>hnd w. start_prompt ''go'' sample_world = (Inr hnd, w)"
  by (simp add: sample_world_def agent_build_def start_prompt_def start_run_def fetch_run_id_def when_idle_def
      agent_state_default_def Let_def case_prod_beta)

text \<open>C1: driving a run that was just started settles it, whatever the host's providers, tools, hooks,
  observers and compactors answer, whenever they fail, and whatever is called on the agent while the
  run awaits them. The code never panics, and its loops end or run out of the fuel given to them. When
  the drive returns, the agent is idle; the run has succeeded if the drive returned a value and has
  failed or been cancelled if it returned an error, and it counts as cancelled only if its token was
  cancelled; its last event is the end of the run; its events are numbered from one without a gap; and
  the messages of the conversation have distinct IDs if they had before (until the counter is
  exhausted).\<close>

theorem drive_settles:
  assumes "agent_step\<^sup>*\<^sup>* (agent_build b e) w0"
    and "start_prompt prompt w0 = (Inr hnd, w) \<or> start_continue w0 = (Inr hnd, w)"
    and "drive h hnd fuel rounds w = (r, w')"
  shows "r \<noteq> Inl Panic \<and> log_ok (h_run hnd) w' \<and>
    (ids_fresh (w_state w) \<longrightarrow> a_next_message_id (w_state w') < - 1 \<longrightarrow> ids_fresh (w_state w')) \<and>
    (r = Inl OutOfFuel \<or>
     is_idle w' \<and> w_active w' = None \<and>
     r_phase (run_of (h_run hnd) w') \<in> (if r = Inr () then {Succeeded} else {Failed, Cancelled}) \<and>
     (r_phase (run_of (h_run hnd) w') = Cancelled \<longrightarrow> is_cancelled (h_run hnd) w') \<and>
     (\<exists>evs ev ms. r_events (run_of (h_run hnd) w') = evs @ [ev] \<and> ev_kind ev = AgentEnd ms))"
proof -
  let ?i = "h_run hnd"
  have start: "owned w" "w_active w = Some ?i" "run_of ?i w = run_created ?i"
    using started_fresh [OF owned_history [OF assms(1) owned_build] assms(2)] by auto
  then have post: "preserved ?i w w'" "drive_post ?i r w'"
    using drive_runs [OF start(1,2) _ assms(3)] by (simp_all add: run_created_def)
  have "log_ok ?i w" by (simp add: log_ok_def log_of_def start(3) run_created_def seq_word_def)
  with post(1) have "log_ok ?i w'"
    and "ids_fresh (w_state w) \<longrightarrow> a_next_message_id (w_state w') < - 1 \<longrightarrow> ids_fresh (w_state w')"
    by (simp_all add: preserved_def log_grows_def ids_advance_def)
  moreover have "is_idle w'" if "ended ?i phs w'" for phs using that owned_idle by (auto simp: ended_def)
  ultimately show ?thesis using post(2)
    by (cases r) (auto simp: drive_post_def ended_def closed_def log_of_def split: failure_kind.splits)
qed

theorem drive_settles_witness:
  "\<exists>hnd w r w'. start_prompt ''go'' sample_world = (Inr hnd, w) \<and> drive sample_host hnd 5 2 w = (r, w') \<and>
     r \<noteq> Inl Panic \<and> log_ok (h_run hnd) w'"
proof -
  obtain hnd w where start: "start_prompt ''go'' sample_world = (Inr hnd, w)" using sample_started by blast
  obtain r w' where run: "drive sample_host hnd 5 2 w = (r, w')" by fastforce
  have "agent_step\<^sup>*\<^sup>* (agent_build (sample_builder\<lparr>b_provider := Some 0\<rparr>) [TextDelta ''hi'', StreamEnd Stop]) sample_world"
    by (simp add: sample_world_def)
  from drive_settles [OF this disjI1 [OF start] run] start run show ?thesis by blast
qed

text \<open>C10: a manual compaction that is driven settles its run, whatever the compactor and the observers
  answer and whatever is called on the agent meanwhile: the agent is idle afterwards. It succeeds only
  with a replacement that is a valid conversation; when it fails or is cancelled, the conversation is
  the one it started from or such a replacement, never anything in between.\<close>

theorem drive_compaction_settles:
  assumes "agent_step\<^sup>*\<^sup>* (agent_build b e) w0" and "start_compaction w0 = (Inr hnd, w)"
    and "drive_compaction h (h_run hnd) compactor w = (r, w')"
  shows "is_idle w' \<and> w_active w' = None \<and>
    (r = Inr () \<and> r_phase (run_of (h_run hnd) w') = Succeeded \<and> conversation_ok (transcript w') \<or>
     (\<exists>err. r = Inl (Raise err)) \<and> r_phase (run_of (h_run hnd) w') \<in> {Failed, Cancelled} \<and>
       (transcript w' = transcript w \<or> conversation_ok (transcript w')))"
proof -
  let ?i = "h_run hnd"
  have owned: "owned w0" by (rule owned_history [OF assms(1) owned_build])
  have "owned w" using owned_start_compaction [OF owned] by (simp add: assms(2))
  moreover have "\<exists>v. w = claim ?i RunRunning v"
    using assms(2) by (auto simp: start_compaction_def when_idle_def case_prod_beta split: option.splits)
  ultimately have "driven ?i w" by (auto simp: driven_def claim_def run_of_def)
  from runsD [OF runs_drive_compaction this refl assms(3)]
  show ?thesis using owned_idle by (auto simp: manual_post_def stopped_def shut_def)
qed

theorem drive_compaction_settles_witness:
  "\<exists>hnd w r w'. start_compaction sample_world = (Inr hnd, w) \<and>
     drive_compaction sample_host (h_run hnd) 0 w = (r, w') \<and> is_idle w'"
proof -
  have "is_idle sample_world" "w_compactor sample_world = Some 0"
    by (simp_all add: is_idle_def sample_world_def agent_build_def sample_builder_def agent_state_default_def)
  then obtain hnd w where start: "start_compaction sample_world = (Inr hnd, w)" using start_compaction_idle by blast
  obtain r w' where run: "drive_compaction sample_host (h_run hnd) 0 w = (r, w')" by fastforce
  have "agent_step\<^sup>*\<^sup>* (agent_build (sample_builder\<lparr>b_provider := Some 0\<rparr>) [TextDelta ''hi'', StreamEnd Stop]) sample_world"
    by (simp add: sample_world_def)
  from drive_compaction_settles [OF this start run] start run show ?thesis by blast
qed

end
