(* ===== verification/Finite_Hosts.thy ===== *)
theory Finite_Hosts
  imports Settlement
begin

text \<open>
  Which drives return. The loops of a driven run carry fuel because the host may prolong them for ever; a
  host is finite when a measure of its state goes down with every stream event, every pending poll and every
  tool update. For such a host the measure is fuel enough, and more fuel does not change the result.
\<close>

section \<open>Finite hosts\<close>

definition spends :: "('e \<Rightarrow> nat) \<Rightarrow> ('a \<Rightarrow> nat) \<Rightarrow> ('e, 'a) reply \<Rightarrow> bool" where
  "spends \<mu> price f \<longleftrightarrow> (\<forall>e. case f e of (x, calls, e') \<Rightarrow> \<mu> e' + price x \<le> \<mu> e)"

abbreviation free :: "('e \<Rightarrow> nat) \<Rightarrow> ('e, 'a) reply \<Rightarrow> bool" where
  "free \<mu> f \<equiv> spends \<mu> (\<lambda>_. 0) f"

fun event_cost :: "string + stream_event option \<Rightarrow> nat" where
  "event_cost (Inr (Some ev)) = 1"
| "event_cost r = 0"

definition poll_cost :: "(tool_error + agent_tool_result) option \<times> pushes \<Rightarrow> nat" where
  "poll_cost r = length (snd r) + (if fst r = None then 1 else 0)"

definition finite_host :: "('e \<Rightarrow> nat) \<Rightarrow> 'e host \<Rightarrow> bool" where
  "finite_host \<mu> h \<longleftrightarrow>
     (\<forall>cap ev c. free \<mu> (observe h cap ev c)) \<and>
     (\<forall>cap call cx c. free \<mu> (before_tool h cap call cx c)) \<and>
     (\<forall>cap call r cx c. free \<mu> (after_tool h cap call r cx c)) \<and>
     (\<forall>cap cx c. free \<mu> (transform_context h cap cx c)) \<and>
     (\<forall>cap cx c. free \<mu> (convert_to_llm h cap cx c)) \<and>
     (\<forall>cap cx c. free \<mu> (should_stop h cap cx c)) \<and>
     (\<forall>cap cx c. free \<mu> (prepare_next h cap cx c)) \<and>
     (\<forall>cap rq c. free \<mu> (stream h cap rq c)) \<and>
     (\<forall>cap cc rq c. free \<mu> (compact_automatic h cap cc rq c)) \<and>
     (\<forall>cap c. spends \<mu> event_cost (next_event h cap c)) \<and>
     (\<forall>cap slot call c. spends \<mu> length (tool_start h cap slot call c)) \<and>
     (\<forall>slot call c. spends \<mu> poll_cost (tool_poll h slot call c)) \<and>
     spends \<mu> length (tool_wait h)"

section \<open>What the agent's operations leave alone\<close>

lemma env_upd [simp]: "w_env (upd_state f w) = w_env w" "w_env (upd_queues g w) = w_env w"
  "w_env (upd_cell i k w) = w_env w" "w_env (cancel_token i w) = w_env w" "w_env (notify_idle w) = w_env w"
  "w_env (settle_agent ph e w) = w_env w" "w_env (claim i rp w) = w_env w"
  by (auto simp: world_upd cancel_token_def notify_idle_def settle_agent_def claim_def Let_def)

lemma env_run_abort [simp]: "w_env (run_abort i w) = w_env w"
  by (auto simp: run_abort_def abort_run_section_def Let_def)

lemma env_agent_abort [simp]: "w_env (agent_abort w) = w_env w"
  by (auto simp: agent_abort_def Let_def split: option.split)

lemma env_start_run [simp]: "w_env (snd (start_run ms skip w)) = w_env w"
  by (auto simp: start_run_def fetch_run_id_def when_idle_def Let_def split: option.split prod.split)

lemma env_start_continue [simp]: "w_env (snd (start_continue w)) = w_env w"
  by (auto simp: start_continue_def when_idle_def drain_continue_tail_messages_def Let_def split: option.split prod.split)

lemma env_run_op: "w_env (run_op op w) = w_env w"
  by (cases op)
    (auto simp: enqueue_steering_def enqueue_follow_up_def reset_def restore_messages_def replace_model_provider_def
      replace_thinking_level_def replace_configuration_def replace_automatic_compaction_def start_prompt_def
      start_compaction_def subscribe_def unsubscribe_def subscribe_nonblocking_def drop_subscription_def
      subscribe_lossless_def drop_lossless_def poll_wait_for_idle_def when_idle_def fetch_run_id_def Let_def
      split: option.split prod.split sum.split)

lemma env_calls [simp]: "w_env (fold (run_host_call i) calls w) = w_env w"
proof (induction calls arbitrary: w)
  case (Cons call calls)
  have "w_env (run_host_call i call w) = w_env w" by (cases call) (simp_all add: env_run_op)
  then show ?case by (simp add: Cons)
qed simp

section \<open>Steps that spend nothing they do not have\<close>

named_theorems thrift \<open>steps that run without fuel and do not raise the measure\<close>

abbreviation cheaper :: "('e \<Rightarrow> nat) \<Rightarrow> 'e world \<Rightarrow> 'e world \<Rightarrow> bool" where
  "cheaper \<mu> w w' \<equiv> \<mu> (w_env w') \<le> \<mu> (w_env w)"

abbreviation fueled :: "failure_kind \<Rightarrow> bool" where
  "fueled e \<equiv> e \<noteq> OutOfFuel"

interpretation spend: step_law "cheaper \<mu>" fueled for \<mu> :: "'e \<Rightarrow> nat"
  by unfold_locales auto

abbreviation thrifty :: "('e \<Rightarrow> nat) \<Rightarrow> ('e, 'a) run_step \<Rightarrow> bool" where
  "thrifty \<mu> m \<equiv> obeys (cheaper \<mu>) fueled m"

lemmas [thrift] = spend.law_retS spend.law_getS spend.law_bindE spend.law_forE

lemma thrifty_failS [thrift]: "thrifty \<mu> (failS (Raise e))" "thrifty \<mu> (failS Panic)" "thrifty \<mu> (run_step_raise e)"
  by (auto intro: spend.law_failS simp: run_step_raise_def)

lemma thrifty_modS: "(\<And>w. w_env (f w) = w_env w) \<Longrightarrow> thrifty \<mu> (modS f)"
  by (rule spend.law_modS) simp

lemma thrifty_ignoreS [thrift]: "thrifty \<mu> m \<Longrightarrow> thrifty \<mu> (ignoreS m)"
  by (rule spend.law_ignoreS) (simp add: obeys_def)

lemma thrifty_catch [thrift]: "thrifty \<mu> m \<Longrightarrow> thrifty \<mu> (catch m)"
  by (auto simp: obeys_def catch_def split: prod.split sum.split failure_kind.split) (metis fst_conv snd_conv)+

text \<open>Critical sections on the agent's state.\<close>

lemma thrifty_section: "(\<And>w. w_env (snd (m w)) = w_env w) \<Longrightarrow> thrifty \<mu> (liftS m)"
  by (auto simp: obeys_def liftS_def bindS_def retS_def split: prod.split sum.split) (metis order.refl snd_conv)+

lemma thrifty_try: "(\<And>w. w_env (snd (m w)) = w_env w) \<Longrightarrow> thrifty \<mu> (tryS m)"
  by (rule spend.law_tryS) simp

lemma env_finish [simp]: "w_env (snd (finish i ph reason err w)) = w_env w"
  by (auto simp: finish_def Let_def)

lemma env_sections [simp]: "w_env (snd (succeed i reason w)) = w_env w" "w_env (snd (fail_run i message w)) = w_env w"
  "w_env (snd (advance_turn i t w)) = w_env w" "w_env (snd (start_turn i t w)) = w_env w"
  "w_env (snd (commit_replacement i ms w)) = w_env w"
  by (auto simp: succeed_def fail_run_def advance_turn_def start_turn_def commit_replacement_def Let_def split: sum.split)

lemma thrifty_sections [thrift]: "thrifty \<mu> (liftS (succeed i reason))" "thrifty \<mu> (liftS (fail_run i message))"
  "thrifty \<mu> (liftS (advance_turn i t))" "thrifty \<mu> (liftS (start_turn i t))" "thrifty \<mu> (liftS (finish i ph reason err))"
  "thrifty \<mu> (tryS (commit_replacement i ms))"
  by (auto intro!: thrifty_section thrifty_try)

lemma thrifty_state [thrift]: "thrifty \<mu> (modS (upd_state f))" "thrifty \<mu> (modS (upd_policy i g))"
  "thrifty \<mu> (modS (if c then upd_policy i g else (\<lambda>w. w)))" "thrifty \<mu> (modS (if c then (\<lambda>w. w) else upd_policy i g))"
  "thrifty \<mu> (push_new f' mk)" "thrifty \<mu> (policy_step i k)" "thrifty \<mu> (replace_last m)"
  "thrifty \<mu> drain_steering" "thrifty \<mu> drain_follow_up" "thrifty \<mu> current_context"
  by (auto simp: obeys_def modS_def push_new_def policy_step_def replace_last_def drain_steering_def
      drain_follow_up_def current_context_def Let_def case_prod_beta)

lemma thrifty_if [thrift]: "(c \<Longrightarrow> thrifty \<mu> m) \<Longrightarrow> (\<not> c \<Longrightarrow> thrifty \<mu> n) \<Longrightarrow> thrifty \<mu> (if c then m else n)"
  by simp

section \<open>Steps of a run\<close>

lemma spendsD: "spends \<mu> price f \<Longrightarrow> f e = (x, calls, e') \<Longrightarrow> \<mu> e' + price x \<le> \<mu> e"
  by (auto simp: spends_def split: prod.splits)

lemma thrifty_await: "free \<mu> f \<Longrightarrow> thrifty \<mu> (await i f)"
  by (auto simp: obeys_def await_def split: prod.split dest: spendsD)

lemma thrifty_hook: "(\<And>c. free \<mu> (f c)) \<Longrightarrow> thrifty \<mu> (await_hook i f)"
  unfolding await_hook_def by (intro thrift thrifty_await)

lemma thrifty_hook_ok [thrift]: "thrifty \<mu> (hook_ok r)"
  by (cases r; cases "projl r") (auto intro: thrift)

lemma thrifty_emit: 
  assumes "finite_host \<mu> h"
  shows "thrifty \<mu> (emit h i kind)"
proof -
  have "thrifty \<mu> (deliver h i ev)" for ev
    unfolding deliver_def notify_observer_def
    using assms
    by (intro thrift thrifty_modS thrifty_await) (auto simp: finite_host_def intro: thrift split: sum.split)
  moreover have "w_env (snd (record_event i kind w)) = w_env w" for w :: "'a world"
    by (simp add: record_event_def Let_def)
  ultimately show ?thesis
    by (auto simp: obeys_def emit_def split: prod.split) (metis snd_conv)
qed

lemma thrifty_cases [thrift]:
  "(\<And>x. thrifty \<mu> (f x)) \<Longrightarrow> (\<And>y. thrifty \<mu> (g y)) \<Longrightarrow> thrifty \<mu> (case r of Inl x \<Rightarrow> f x | Inr y \<Rightarrow> g y)"
  "thrifty \<mu> k \<Longrightarrow> (\<And>x. thrifty \<mu> (f' x)) \<Longrightarrow> thrifty \<mu> (case q of None \<Rightarrow> k | Some x \<Rightarrow> f' x)"
  "(\<And>x y. thrifty \<mu> (f'' x y)) \<Longrightarrow> thrifty \<mu> (case p of (x, y) \<Rightarrow> f'' x y)"
  by (simp_all split: sum.split option.split prod.split)

lemma thrifty_let [thrift]: "thrifty \<mu> (f x) \<Longrightarrow> thrifty \<mu> (let y = x in f y)"
  by simp

lemmas [thrift] = thrifty_emit

lemma finite_hooks [thrift]:
  assumes "finite_host \<mu> h"
  shows "thrifty \<mu> (await_hook i (before_tool h cap call cx))" "thrifty \<mu> (await_hook i (after_tool h cap call r cx))"
    "thrifty \<mu> (await_hook i (transform_context h cap cx))" "thrifty \<mu> (await_hook i (convert_to_llm h cap cx))"
    "thrifty \<mu> (await_hook i (should_stop h cap cx))" "thrifty \<mu> (await_hook i (prepare_next h cap cx))"
    "thrifty \<mu> (await i (stream h cap rq c))" "thrifty \<mu> (await i (compact_automatic h cap cc cq c))"
  using assms by (auto simp: finite_host_def intro: thrifty_hook thrifty_await)

lemma thrifty_agent_end [thrift]: "finite_host \<mu> h \<Longrightarrow> thrifty \<mu> (emit_agent_end h i hnd)"
  unfolding emit_agent_end_def by (intro thrift)

lemma thrifty_settling [thrift]:
  assumes "finite_host \<mu> h"
  shows "thrifty \<mu> (closing_events h i hnd t reason)" "thrifty \<mu> (announce_message h i m)"
    "thrifty \<mu> (end_turn_and_run h i hnd t reason)" "thrifty \<mu> (emit_agent_end_and_succeed h i hnd reason)"
  unfolding closing_events_def announce_message_def end_turn_and_run_def emit_agent_end_and_succeed_def
  by (intro thrift assms)+

lemma thrifty_settle_error [thrift]:
  assumes "finite_host \<mu> h"
  shows "thrifty \<mu> (settle_error h i hnd e)"
proof -
  have "thrifty \<mu> (settle_compaction_boundary_failure h i hnd e)" "thrifty \<mu> (settle_failure h i hnd e)"
    "thrifty \<mu> (settle_compaction_boundary_cancellation h i hnd)" "thrifty \<mu> (settle_cancellation h i hnd)"
    unfolding settle_compaction_boundary_failure_def settle_failure_def settle_cancellation_def
      settle_compaction_boundary_cancellation_def
    by (intro thrift assms)+
  then show ?thesis unfolding settle_error_def by (intro thrift) (auto split: core_error.split)
qed

lemma thrifty_context [thrift]:
  assumes "finite_host \<mu> h"
  shows "thrifty \<mu> (build_provider_context h i cf cx)" "thrifty \<mu> (make_model_request h i cf cx' md th)"
    "thrifty \<mu> (emit_context_estimate h i rq n)" "thrifty \<mu> (compaction_provider_context h i cf cc ms)"
  unfolding build_provider_context_def make_model_request_def emit_context_estimate_def compaction_provider_context_def
  by (intro thrift assms)+

lemma thrifty_automatic [thrift]:
  assumes "finite_host \<mu> h"
  shows "thrifty \<mu> (automatic_end h i reason retry outcome)" "thrifty \<mu> (automatic_cancelled h i reason retry)"
    "thrifty \<mu> (automatic_failed h i reason retry message)" "thrifty \<mu> (attempt_failed h i reason retry e)"
  unfolding automatic_end_def automatic_cancelled_def automatic_failed_def attempt_failed_def
  by (intro thrift assms)+

lemma thrifty_compaction [thrift]:
  assumes "finite_host \<mu> h"
  shows "thrifty \<mu> (maybe_automatic_compaction h i cf est reason retry)"
proof -
  have "thrifty \<mu> (accept_replacement h i policy reason retry retained replacement)" for policy retained replacement
    unfolding accept_replacement_def by (intro thrift assms)
  then have "thrifty \<mu> (run_compactor h i cf policy reason retry n compactor)" for policy n compactor
    unfolding run_compactor_def by (intro thrift assms)
  then show ?thesis
    unfolding maybe_automatic_compaction_def claimed_compaction_def by (intro thrift assms)
qed

lemma thrifty_inject [thrift]: "finite_host \<mu> h \<Longrightarrow> thrifty \<mu> (inject_queued_messages h i cx qs)"
  by (induction qs arbitrary: cx) (auto intro: thrift)

section \<open>Steps with fuel\<close>

text \<open>From a world with the property the step does not run out of fuel, and the measure does not rise.\<close>

definition lasts :: "('e \<Rightarrow> nat) \<Rightarrow> ('e world \<Rightarrow> bool) \<Rightarrow> ('e, 'a) run_step \<Rightarrow> ('a \<Rightarrow> 'e world \<Rightarrow> bool) \<Rightarrow> bool" where
  "lasts \<mu> P m Q \<longleftrightarrow> (\<forall>w r w'. P w \<longrightarrow> m w = (r, w') \<longrightarrow>
     r \<noteq> Inl OutOfFuel \<and> cheaper \<mu> w w' \<and> (\<forall>x. r = Inr x \<longrightarrow> Q x w'))"

text \<open>The measure leaves room for \<open>k\<close> within \<open>n\<close>.\<close>

definition room :: "('e \<Rightarrow> nat) \<Rightarrow> nat \<Rightarrow> nat \<Rightarrow> 'e world \<Rightarrow> bool" where
  "room \<mu> k n w \<longleftrightarrow> \<mu> (w_env w) + k \<le> n"

lemma lastsD: "lasts \<mu> P m Q \<Longrightarrow> P w \<Longrightarrow> m w = (r, w') \<Longrightarrow> r \<noteq> Inl OutOfFuel \<and> cheaper \<mu> w w' \<and> (\<forall>x. r = Inr x \<longrightarrow> Q x w')"
  by (simp add: lasts_def)

lemma lasts_weaken: "lasts \<mu> P m Q \<Longrightarrow> (\<And>w. P' w \<Longrightarrow> P w) \<Longrightarrow> (\<And>x w. Q x w \<Longrightarrow> Q' x w) \<Longrightarrow> lasts \<mu> P' m Q'"
  unfolding lasts_def by blast

lemma lasts_bindE:
  assumes m: "lasts \<mu> P m S" and k: "\<And>x. lasts \<mu> (S x) (k x) Q"
  shows "lasts \<mu> P (bindE m k) Q"
  unfolding lasts_def
proof (intro allI impI)
  fix w :: "'a world" and r w'
  assume w: "P w" and run: "bindE m k w = (r, w')"
  obtain q v where q: "m w = (q, v)" by fastforce
  note v = lastsD [OF m w q]
  show "r \<noteq> Inl OutOfFuel \<and> cheaper \<mu> w w' \<and> (\<forall>x. r = Inr x \<longrightarrow> Q x w')"
  proof (cases q)
    case (Inl e)
    then show ?thesis using run q v by (auto simp: bindE_def bindS_def)
  next
    case (Inr x)
    then have "S x v" "k x v = (r, w')" using run q v by (simp_all add: bindE_def bindS_def)
    from lastsD [OF k this] show ?thesis using v by auto
  qed
qed

lemma lasts_retS: "(\<And>w. P w \<Longrightarrow> Q x w) \<Longrightarrow> lasts \<mu> P (retS x) Q"
  by (simp add: lasts_def retS_def)

lemma lasts_failS: "e \<noteq> OutOfFuel \<Longrightarrow> lasts \<mu> P (failS e) Q"
  by (auto simp: lasts_def failS_def)

lemma lasts_false: "lasts \<mu> (\<lambda>_. False) m Q"
  by (simp add: lasts_def)

lemma lasts_thrifty: "thrifty \<mu> m \<Longrightarrow> lasts \<mu> (room \<mu> k n) m (\<lambda>_. room \<mu> k n)"
  unfolding lasts_def room_def by (fastforce dest: obeysD obeys_error)

lemma lasts_then: "thrifty \<mu> m \<Longrightarrow> (\<And>x. lasts \<mu> (room \<mu> k n) (c x) Q) \<Longrightarrow> lasts \<mu> (room \<mu> k n) (bindE m c) Q"
  by (rule lasts_bindE [OF lasts_thrifty])

lemma lasts_getS: "(\<And>x. lasts \<mu> P (k x) Q) \<Longrightarrow> lasts \<mu> P (bindE (getS f) k) Q"
  by (simp add: lasts_def bindE_def bindS_def getS_def)

lemma lasts_if: "(c \<Longrightarrow> lasts \<mu> P m Q) \<Longrightarrow> (\<not> c \<Longrightarrow> lasts \<mu> P m' Q) \<Longrightarrow> lasts \<mu> P (if c then m else m') Q"
  by simp

lemma lasts_await: "spends \<mu> price f \<Longrightarrow> lasts \<mu> (room \<mu> k n) (await i f) (\<lambda>x. room \<mu> (k + price x) n)"
  by (auto simp: lasts_def room_def await_def split: prod.splits dest: spendsD)

text \<open>Room that is used up.\<close>

lemma room_Suc: "room \<mu> (Suc k) n w \<longleftrightarrow> (\<exists>m. n = Suc m \<and> room \<mu> k m w)"
  by (cases n) (auto simp: room_def)

lemma room_less: "room \<mu> k n w \<Longrightarrow> k' \<le> k \<Longrightarrow> n \<le> n' \<Longrightarrow> room \<mu> k' n' w"
  by (simp add: room_def)

lemma lasts_room:
  assumes "\<And>m. n = Suc m \<Longrightarrow> lasts \<mu> (room \<mu> k m) c Q"
  shows "lasts \<mu> (room \<mu> (Suc k) n) c Q"
  using assms unfolding lasts_def room_Suc by blast

section \<open>Tools\<close>

abbreviation waiting_updates :: "pending_updates \<Rightarrow> nat" where
  "waiting_updates p \<equiv> length (pu_updates p)"

lemma push_all_length: "waiting_updates (push_all slots us p) \<le> waiting_updates p + length us"
proof (induction us arbitrary: p)
  case (Cons x us)
  obtain k u where x: "x = (k, u)" by fastforce
  define p' where "p' = (case slots k of Some call \<Rightarrow> updates_push call u p | None \<Rightarrow> p)"
  have "waiting_updates p' \<le> Suc (waiting_updates p)" by (auto simp: p'_def updates_push_def split: option.split)
  moreover have "push_all slots (x # us) p = push_all slots us p'" by (simp add: push_all_def x p'_def)
  ultimately show ?case using Cons [of p'] by simp
qed (simp add: push_all_def)

lemma updates_simps [simp]: "pu_updates (updates_take p) = []" "pu_updates (updates_close i p) = pu_updates p"
  by (simp_all add: updates_take_def updates_close_def)

lemma thrifty_updates [thrift]: "finite_host \<mu> h \<Longrightarrow> thrifty \<mu> (emit_tool_updates h i us)"
  unfolding emit_tool_updates_def by (intro thrift)

lemma lasts_gather:
  assumes "finite_host \<mu> h"
  shows "lasts \<mu> (room \<mu> (k + waiting_updates p) n) (gather h i slots p) (\<lambda>p'. room \<mu> (k + waiting_updates p') n)"
  unfolding gather_def
proof (rule lasts_bindE [OF lasts_await])
  show "spends \<mu> length (tool_wait h)" using assms by (simp add: finite_host_def)
  show "lasts \<mu> (room \<mu> (k + waiting_updates p + length us) n) (retS (push_all slots us p))
      (\<lambda>p'. room \<mu> (k + waiting_updates p') n)" for us
    using push_all_length by (intro lasts_retS) (fastforce intro: room_less)
qed

lemma lasts_flush:
  assumes "finite_host \<mu> h" and "n < fuel"
  shows "lasts \<mu> (room \<mu> (k + waiting_updates p) n) (flush_tool_updates h i slots fuel p)
    (\<lambda>p'. room \<mu> (k + waiting_updates p') n)"
  using assms(2)
proof (induction fuel arbitrary: n p)
  case (Suc fuel)
  show ?case
  proof (cases "pu_updates p")
    case Nil
    then show ?thesis by (simp add: lasts_retS)
  next
    case (Cons u us)
    have "lasts \<mu> (room \<mu> (k + length us) m) (thenE (emit_tool_updates h i (pu_updates p))
        (bindE (gather h i slots (updates_take p)) (flush_tool_updates h i slots fuel)))
        (\<lambda>p'. room \<mu> (k + waiting_updates p') n)" if n: "n = Suc m" for m
    proof (rule lasts_then [OF thrifty_updates [OF assms(1)]], rule lasts_bindE)
      show "lasts \<mu> (room \<mu> (k + length us) m) (gather h i slots (updates_take p)) (\<lambda>p'. room \<mu> (k + waiting_updates p') m)"
        by (rule lasts_weaken [OF lasts_gather [OF assms(1), where p = "updates_take p"]]) (auto intro: room_less)
      show "lasts \<mu> (room \<mu> (k + waiting_updates p') m) (flush_tool_updates h i slots fuel p')
          (\<lambda>p'. room \<mu> (k + waiting_updates p') n)" for p'
        by (rule lasts_weaken [OF Suc.IH [of m]]) (use Suc.prems n in \<open>auto simp: room_def\<close>)
    qed
    then show ?thesis by (simp add: Cons lasts_room)
  qed
qed simp

text \<open>A poll: a pending one costs, and each update it makes.\<close>

lemma lasts_poll:
  assumes "finite_host \<mu> h"
  shows "lasts \<mu> (room \<mu> (k + waiting_updates p) n) (poll_tool h i slots slot call p)
    (\<lambda>(result, p'). room \<mu> (k + waiting_updates p' + (if result = None then 1 else 0)) n)"
  unfolding poll_tool_def
proof (intro lasts_getS lasts_bindE [OF lasts_await])
  show "spends \<mu> poll_cost (tool_poll h slot call c)" for c using assms by (simp add: finite_host_def)
  show "lasts \<mu> (room \<mu> (k + waiting_updates p + poll_cost x) n) (case x of (result, us) \<Rightarrow> retS (result, push_all slots us p))
      (\<lambda>(result, p'). room \<mu> (k + waiting_updates p' + (if result = None then 1 else 0)) n)" for x
  proof (cases x)
    case (Pair result us)
    have "waiting_updates (push_all slots us p) \<le> waiting_updates p + length us" by (rule push_all_length)
    then show ?thesis by (auto simp: Pair poll_cost_def room_def intro!: lasts_retS)
  qed
qed

abbreviation tool_step_post :: "('e \<Rightarrow> nat) \<Rightarrow> nat \<Rightarrow> nat \<Rightarrow> tool_step \<times> pending_updates \<Rightarrow> 'e world \<Rightarrow> bool" where
  "tool_step_post \<mu> k n x \<equiv> room \<mu> (k + waiting_updates (snd x) + (case fst x of StepUpdates us \<Rightarrow> 1 | _ \<Rightarrow> 0)) n"

lemma lasts_tool_step:
  assumes "finite_host \<mu> h" and "n < fuel"
  shows "lasts \<mu> (room \<mu> (k + waiting_updates p) n) (next_tool_step h i slots slot call allow fuel p) (tool_step_post \<mu> k n)"
  using assms(2)
proof (induction fuel arbitrary: n p)
  case (Suc fuel)
  have wait: "lasts \<mu> (room \<mu> (k + waiting_updates p' + 1) n) (bindE (gather h i slots p')
      (next_tool_step h i slots slot call allow fuel)) (tool_step_post \<mu> k n)" for p'
  proof -
    have "lasts \<mu> (room \<mu> (k + waiting_updates p') m) (bindE (gather h i slots p')
        (next_tool_step h i slots slot call allow fuel)) (tool_step_post \<mu> k n)" if n: "n = Suc m" for m
      by (rule lasts_bindE [OF lasts_gather [OF assms(1)]], rule lasts_weaken [OF Suc.IH [of m]])
        (use Suc.prems n in \<open>auto simp: room_def\<close>)
    then show ?thesis by (simp add: lasts_room)
  qed
  have pending: "lasts \<mu> (room \<mu> (k + waiting_updates p' + 1) n) (if pu_updates p' \<noteq> [] then retS (StepUpdates (pu_updates p'), updates_take p')
           else bindE (getS (is_cancelled i)) (\<lambda>c.
             if c then retS (StepCompleted cancelled_operation [], updates_close (tc_id call) p')
             else bindE (gather h i slots p') (next_tool_step h i slots slot call allow fuel))) (tool_step_post \<mu> k n)" for p'
  proof (cases "pu_updates p' = []")
    case True
    have "lasts \<mu> (room \<mu> (k + waiting_updates p' + 1) n) (if c then retS (StepCompleted cancelled_operation [], updates_close (tc_id call) p')
             else bindE (gather h i slots p') (next_tool_step h i slots slot call allow fuel)) (tool_step_post \<mu> k n)" for c
      using wait [of p'] by (cases c) (auto intro!: lasts_retS simp: True, auto simp: room_def True)
    then show ?thesis by (auto intro: lasts_getS simp: True)
  qed (auto intro!: lasts_retS simp: room_def)
  have polled: "lasts \<mu> (room \<mu> (k + waiting_updates p) n) (bindE (poll_tool h i slots slot call p) (\<lambda>(result, p).
       case result of
         Some r \<Rightarrow> retS (StepCompleted r (pu_updates p), updates_take (updates_close (tc_id call) p))
       | None \<Rightarrow>
           if pu_updates p \<noteq> [] then retS (StepUpdates (pu_updates p), updates_take p)
           else bindE (getS (is_cancelled i)) (\<lambda>c.
             if c then retS (StepCompleted cancelled_operation [], updates_close (tc_id call) p)
             else bindE (gather h i slots p) (next_tool_step h i slots slot call allow fuel)))) (tool_step_post \<mu> k n)"
  proof (rule lasts_bindE [OF lasts_poll [OF assms(1)]], clarify, goal_cases)
    case (1 result p')
    show ?case
    proof (cases result)
      case None
      then show ?thesis using pending [of p'] by (simp only: option.case prod.case if_True simp_thms)
    qed (auto intro!: lasts_retS simp: room_def)
  qed
  have now: "lasts \<mu> (room \<mu> (k + waiting_updates p) n) (retS (StepUpdates (pu_updates p), updates_take p)) (tool_step_post \<mu> k n)"
    if "pu_updates p \<noteq> []" using that by (cases "pu_updates p") (auto intro!: lasts_retS simp: room_def)
  show ?case
    unfolding next_tool_step.simps
    by (intro lasts_getS lasts_if now polled) (auto intro!: lasts_retS simp: room_def)
qed simp

lemma lasts_tool_loop:
  assumes "finite_host \<mu> h" and "n < polls" and "n < fuel"
  shows "lasts \<mu> (room \<mu> (k + waiting_updates p) n) (tool_loop h i slots slot call polls fuel allow p)
    (\<lambda>x. room \<mu> (k + waiting_updates (snd x)) n)"
  using assms(2,3)
proof (induction fuel arbitrary: n p allow)
  case (Suc fuel)
  show ?case
    unfolding tool_loop.simps
  proof (rule lasts_bindE [OF lasts_tool_step [OF assms(1) Suc.prems(1)]], clarify)
    fix st p'
    show "lasts \<mu> (tool_step_post \<mu> k n (st, p')) (case st of
        StepUpdates us \<Rightarrow> thenE (emit_tool_updates h i us) (bindE (gather h i slots p') (\<lambda>p.
            bindE (getS (is_cancelled i)) (\<lambda>c. tool_loop h i slots slot call polls fuel c p)))
      | StepCompleted r us \<Rightarrow> thenE (emit_tool_updates h i us) (bindE (gather h i slots p') (\<lambda>p. retS (r, p))))
      (\<lambda>x. room \<mu> (k + waiting_updates (snd x)) n)"
    proof (cases st)
      case (StepUpdates us)
      have "lasts \<mu> (room \<mu> (k + waiting_updates p') m) (thenE (emit_tool_updates h i us) (bindE (gather h i slots p') (\<lambda>p.
            bindE (getS (is_cancelled i)) (\<lambda>c. tool_loop h i slots slot call polls fuel c p))))
          (\<lambda>x. room \<mu> (k + waiting_updates (snd x)) n)" if n: "n = Suc m" for m
        by (rule lasts_then [OF thrifty_updates [OF assms(1)]], rule lasts_bindE [OF lasts_gather [OF assms(1)]],
            rule lasts_getS, rule lasts_weaken [OF Suc.IH [of m]]) (use Suc.prems n in \<open>auto simp: room_def\<close>)
      then show ?thesis by (simp add: StepUpdates lasts_room)
    next
      case (StepCompleted r us)
      show ?thesis
        unfolding StepCompleted tool_step.case
        by (simp, rule lasts_then [OF thrifty_updates [OF assms(1)]], rule lasts_bindE [OF lasts_gather [OF assms(1)]])
          (simp add: lasts_retS)
    qed
  qed
qed simp

lemma thrifty_tools [thrift]:
  assumes "finite_host \<mu> h"
  shows "thrifty \<mu> (prepare_tool_call h i cf call)" "thrifty \<mu> (finalize_executed_tool h i cf call execution)"
    "thrifty \<mu> (observe_tool_failure h i call r)" "thrifty \<mu> (announce_call h i call)"
    "thrifty \<mu> (emit_tool_execution_end h i call r)" "thrifty \<mu> (append_message h i mk)"
    "thrifty \<mu> (append_tool_result_message h i call r)" "thrifty \<mu> (append_skipped_sequential_calls h i calls m)"
proof -
  show ms: "thrifty \<mu> (append_message h i mk)" for mk
    unfolding append_message_def by (intro thrift assms)
  show rs: "thrifty \<mu> (append_tool_result_message h i call r)" for call r
    unfolding append_tool_result_message_def by (rule ms)
  show "thrifty \<mu> (prepare_tool_call h i cf call)"
    unfolding prepare_tool_call_def
    by (intro thrift assms) (auto split: before_tool_call.split intro: thrift)
  show "thrifty \<mu> (finalize_executed_tool h i cf call execution)"
    unfolding finalize_executed_tool_def by (intro thrift assms)
  show "thrifty \<mu> (observe_tool_failure h i call r)"
    unfolding observe_tool_failure_def by (intro thrift assms)
  show "thrifty \<mu> (announce_call h i call)" "thrifty \<mu> (emit_tool_execution_end h i call r)"
    unfolding announce_call_def emit_tool_execution_end_def by (intro thrift assms)+
  show "thrifty \<mu> (append_skipped_sequential_calls h i calls m)"
    unfolding append_skipped_sequential_calls_def by (intro thrift rs)
qed

lemma lasts_start:
  assumes "finite_host \<mu> h" and f: "\<And>p. lasts \<mu> (room \<mu> (k + waiting_updates p) n) (f p) Q"
  shows "lasts \<mu> (room \<mu> (k + waiting_updates p) n) (bindE (await i (tool_start h cap slot call c)) (\<lambda>us. f (push_all slots us p))) Q"
proof (rule lasts_bindE [OF lasts_await])
  show "spends \<mu> length (tool_start h cap slot call c)" using assms by (simp add: finite_host_def)
  show "lasts \<mu> (room \<mu> (k + waiting_updates p + length us) n) (f (push_all slots us p)) Q" for us
    using push_all_length [of slots us p] by (intro lasts_weaken [OF f]) (auto simp: room_def)
qed

lemma lasts_one_call:
  assumes "finite_host \<mu> h" and "n < fuel"
  shows "lasts \<mu> (room \<mu> k n) (execute_one_tool_call h i cf fuel slot call) (\<lambda>_. room \<mu> k n)"
  unfolding execute_one_tool_call_def
proof (rule lasts_then [OF thrifty_tools(1) [OF assms(1)]])
  fix prepared
  let ?slots = "[slot \<mapsto> call]"
  have loop: "lasts \<mu> (room \<mu> (k + waiting_updates p) n) (bindE (getS (is_cancelled i)) (\<lambda>c.
      bindE (tool_loop h i ?slots slot call fuel fuel (c \<and> pu_updates p \<noteq> []) p) (\<lambda>(execution, p).
        thenE (flush_tool_updates h i ?slots fuel p) (finalize_executed_tool h i cf call execution))))
      (\<lambda>_. room \<mu> k n)" for p
  proof (intro lasts_getS lasts_bindE [OF lasts_tool_loop [OF assms(1,2,2)]], clarify, goal_cases)
    case (1 c execution p')
    have "lasts \<mu> (room \<mu> (k + waiting_updates p') n) (finalize_executed_tool h i cf call execution) (\<lambda>_. room \<mu> k n)" for p'
      by (rule lasts_weaken [OF lasts_thrifty [OF thrifty_tools(2) [OF assms(1)], where k = k and n = n]]) (auto simp: room_def)
    then show ?case by (simp, intro lasts_bindE [OF lasts_flush [OF assms]])
  qed
  show "lasts \<mu> (room \<mu> k n) (case prepared of Immediate r t \<Rightarrow> retS (r, t)
     | Execute td \<Rightarrow>
         let slots = ?slots
         in bindE (getS (is_cancelled i)) (\<lambda>c.
            bindE (await i (tool_start h (tool_capability td) slot call c)) (\<lambda>us.
            let p = push_all slots us updates_default
            in bindE (getS (is_cancelled i)) (\<lambda>c.
               bindE (tool_loop h i slots slot call fuel fuel (c \<and> pu_updates p \<noteq> []) p) (\<lambda>(execution, p).
               thenE (flush_tool_updates h i slots fuel p)
                 (finalize_executed_tool h i cf call execution)))))) (\<lambda>_. room \<mu> k n)"
  proof (cases prepared)
    case (Execute td)
    note start = lasts_start [OF assms(1) loop, where p = updates_default and slots = ?slots and slot = slot
        and call = call and cap = "tool_capability td" and i = i]
    show ?thesis
      unfolding Execute prepared_call.case Let_def
      by (rule lasts_getS, rule lasts_weaken [OF start]) (auto simp: updates_default_def)
  qed (auto intro: lasts_retS)
qed

lemma lasts_sequential:
  assumes "finite_host \<mu> h" and "n < fuel"
  shows "lasts \<mu> (room \<mu> k n) (execute_sequential h i cf fuel slot calls all) (\<lambda>_. room \<mu> k n)"
proof (induction calls arbitrary: slot all)
  case (Cons call calls)
  have skip: "thrifty \<mu> (thenE (append_skipped_sequential_calls h i calls m) (retS (False, Some m)))" for m
    by (intro thrift assms)
  note thrift_call = thrifty_tools(5) [OF assms(1)] thrifty_tools(7) [OF assms(1)] thrifty_tools(3) [OF assms(1)]
  show ?case
    unfolding execute_sequential.simps Let_def
    by (rule lasts_then [OF thrifty_tools(4) [OF assms(1)]], rule lasts_bindE [OF lasts_one_call [OF assms]], clarify,
        intro lasts_then thrift_call) (auto split: option.split intro: Cons lasts_thrifty [OF skip])
qed (simp add: lasts_retS)

section \<open>Parallel batches\<close>

text \<open>What a batch may still cost: the updates to deliver and the calls to finish.\<close>

definition weight :: "parallel_state \<Rightarrow> nat" where
  "weight s = waiting_updates (ps_updates s) + length (ps_pending s)"

definition stops :: "parallel_step option \<Rightarrow> bool" where
  "stops st \<longleftrightarrow> (\<exists>us. st = Some (ParCancelled us))"

definition step_paid :: "('e \<Rightarrow> nat) \<Rightarrow> nat \<Rightarrow> nat \<Rightarrow> parallel_step option \<times> parallel_state \<Rightarrow> 'e world \<Rightarrow> bool" where
  "step_paid \<mu> k n x w \<longleftrightarrow> room \<mu> (k + weight (snd x) + (if stops (fst x) then 0 else 1)) n w \<and>
     (fst x = None \<or> stops (fst x) \<longrightarrow> ps_pending (snd x) \<noteq> [])"

lemma stops_simps [simp]: "\<not> stops None" "stops (Some (ParCancelled us))" "\<not> stops (Some (ParUpdates us))"
  "\<not> stops (Some (ParCompleted slot call r us))"
  by (simp_all add: stops_def)

lemma weight_simps [simp]: "weight (s\<lparr>ps_allowed := a\<rparr>) = weight s" "weight (ps_close j s) = weight s"
  "weight (complete m r t s) = weight s"
  "ps_pending (ps_close j s) = ps_pending s" "ps_pending (complete m r t s) = ps_pending s"
  "ps_pending (ps_push slots us s) = ps_pending s"
  "ps_updates (complete m r t s) = ps_updates s"
  by (simp_all add: weight_def ps_close_def complete_def ps_push_def)

lemma weight_push: "weight (ps_push slots us s) \<le> weight s + length us"
  using push_all_length [of slots us "ps_updates s"] by (simp add: weight_def ps_push_def)

lemma take_updates_weight: "take_updates s = (us, s') \<Longrightarrow> ps_pending s' = ps_pending s \<and> weight s' = length (ps_pending s) \<and>
    us = pu_updates (ps_updates s)"
  by (auto simp: take_updates_def weight_def)

lemma swap_remove_length: "j < length xs \<Longrightarrow> Suc (length (swap_remove j xs)) = length xs"
  by (simp add: swap_remove_def)

lemma lasts_getS_known: "(\<And>x. lasts \<mu> (\<lambda>w. P w \<and> f w = x) (k x) Q) \<Longrightarrow> lasts \<mu> P (bindE (getS f) k) Q"
  by (simp add: lasts_def bindE_def bindS_def getS_def)

lemma lasts_poll_one:
  assumes "finite_host \<mu> h"
  shows "lasts \<mu> (room \<mu> k n) (await i (tool_poll h slot call c)) (\<lambda>(result, us). room \<mu> (k + length us + (if result = None then 1 else 0)) n)"
  by (rule lasts_weaken [OF lasts_await [where price = poll_cost and k = k and n = n]])
    (use assms in \<open>auto simp: finite_host_def poll_cost_def room_def\<close>)

lemma lasts_poll_from:
  assumes "finite_host \<mu> h"
  shows "index + length rest = length (ps_pending s) \<Longrightarrow> ps_pending s \<noteq> [] \<Longrightarrow>
    lasts \<mu> (\<lambda>w. room \<mu> (k + weight s + b) n w \<and> (rest = [] \<longrightarrow> b = 1 \<or> is_cancelled i w))
      (poll_from h i slots index rest s) (step_paid \<mu> k n)"
proof (induction rest arbitrary: index s b)
  case Nil
  show ?case
  proof (simp only: poll_from.simps, rule lasts_getS_known, goal_cases)
    case (1 c)
    obtain us s' where t: "take_updates s = (us, s')" by fastforce
    from take_updates_weight [OF t] Nil show ?case
      by (cases us) (auto simp: t Let_def step_paid_def room_def weight_def intro!: lasts_retS)
  qed
next
  case (Cons x rest)
  obtain slot call where x: "x = (slot, call)" by fastforce
  show ?case
    unfolding x poll_from.simps
  proof (rule lasts_getS_known, goal_cases)
    case (1 c)
    define s1 where "s1 = (if c then s\<lparr>ps_allowed := ps_allowed s - {tc_id call}\<rparr> else s)"
    have s1: "ps_pending s1 = ps_pending s" "weight s1 = weight s" by (simp_all add: s1_def)
    have skip: "lasts \<mu> (\<lambda>w. room \<mu> (k + weight s + b) n w \<and> is_cancelled i w) (poll_from h i slots (Suc index) rest s1) (step_paid \<mu> k n)"
      by (rule lasts_weaken [OF Cons.IH [of "Suc index" s1 b]]) (use Cons.prems s1 in auto)
    have polled: "lasts \<mu> (room \<mu> (k + weight s1 + b) n) (bindE (await i (tool_poll h slot call c)) (\<lambda>(result, us).
          let s = ps_push slots us s1
          in case result of
               Some r \<Rightarrow>
                 let (us, s) = take_updates (ps_close (tc_id call)
                       (s\<lparr>ps_pending := swap_remove index (ps_pending s)\<rparr>))
                 in retS (Some (ParCompleted slot call r us), s)
             | None \<Rightarrow>
                 if pu_updates (ps_updates s) \<noteq> []
                 then let (us, s) = take_updates s in retS (Some (ParUpdates us), s)
                 else poll_from h i slots (Suc index) rest s)) (step_paid \<mu> k n)"
    proof (rule lasts_bindE [OF lasts_poll_one [OF assms]], clarify, goal_cases)
      case (1 result us)
      define s2 where "s2 = ps_push slots us s1"
      have s2: "ps_pending s2 = ps_pending s" "weight s2 \<le> weight s1 + length us"
        using weight_push [of slots us s1] by (simp_all add: s2_def s1)
      show ?case
      proof (cases result)
        case (Some r)
        have "index < length (ps_pending s)" using Cons.prems by simp
        from swap_remove_length [OF this] s1 s2 Some show ?thesis
          by (auto simp: s2_def [symmetric] Let_def step_paid_def room_def weight_def ps_close_def take_updates_def
              intro!: lasts_retS)
      next
        case None
        have "lasts \<mu> (room \<mu> (k + weight s1 + b + length us + 1) n) (poll_from h i slots (Suc index) rest s2) (step_paid \<mu> k n)"
          by (rule lasts_weaken [OF Cons.IH [of "Suc index" s2 1]]) (use Cons.prems s2 in \<open>auto simp: room_def\<close>)
        moreover have "lasts \<mu> (room \<mu> (k + weight s1 + b + length us + 1) n)
            (let (us, s) = take_updates s2 in retS (Some (ParUpdates us), s)) (step_paid \<mu> k n)"
          using s2 by (auto simp: take_updates_def weight_def Let_def step_paid_def room_def intro!: lasts_retS)
        ultimately show ?thesis by (simp add: None s2_def [symmetric] Let_def)
      qed
    qed
    show ?case
      unfolding Let_def s1_def [symmetric]
      by (intro lasts_if) (auto intro: lasts_weaken [OF skip] lasts_weaken [OF polled [unfolded Let_def]] simp: s1)
  qed
qed

lemma lasts_poll_parallel:
  assumes "finite_host \<mu> h" and "ps_pending s \<noteq> []"
  shows "lasts \<mu> (room \<mu> (k + weight s) n) (poll_parallel h i slots s) (step_paid \<mu> k n)"
  unfolding poll_parallel_def
proof (intro lasts_if lasts_getS)
  assume "pu_updates (ps_updates s) \<noteq> []"
  then show "lasts \<mu> (room \<mu> (k + weight s) n) (let (us, s) = take_updates s in retS (Some (ParUpdates us), s)) (step_paid \<mu> k n)"
    by (cases "pu_updates (ps_updates s)")
      (auto simp: take_updates_def weight_def step_paid_def room_def intro!: lasts_retS)
next
  show "lasts \<mu> (room \<mu> (k + weight s) n) (retS (Some (ParCancelled []), s)) (step_paid \<mu> k n)"
    using assms(2) by (auto simp: step_paid_def room_def intro!: lasts_retS)
next
  show "lasts \<mu> (room \<mu> (k + weight s) n) (poll_from h i slots 0 (ps_pending s) s) (step_paid \<mu> k n)"
    by (rule lasts_weaken [OF lasts_poll_from [OF assms(1), where b = 0]]) (use assms(2) in auto)
qed

lemma lasts_ps_gather:
  assumes "finite_host \<mu> h"
  shows "lasts \<mu> (room \<mu> (k + weight s) n) (ps_gather h i slots s)
    (\<lambda>s' w. room \<mu> (k + weight s') n w \<and> ps_pending s' = ps_pending s)"
  unfolding ps_gather_def
proof (rule lasts_bindE)
  show "lasts \<mu> (room \<mu> (k + weight s) n) (gather h i slots (ps_updates s))
      (\<lambda>p. room \<mu> (k + length (ps_pending s) + waiting_updates p) n)"
    by (rule lasts_weaken [OF lasts_gather [OF assms]]) (auto simp: room_def weight_def)
qed (auto simp: room_def weight_def intro!: lasts_retS)

lemma lasts_ps_flush:
  assumes "finite_host \<mu> h" and "n < fuel"
  shows "lasts \<mu> (room \<mu> (k + weight s) n) (ps_flush h i slots fuel s)
    (\<lambda>s' w. room \<mu> (k + weight s') n w \<and> ps_pending s' = ps_pending s)"
  unfolding ps_flush_def
proof (rule lasts_bindE)
  show "lasts \<mu> (room \<mu> (k + weight s) n) (flush_tool_updates h i slots fuel (ps_updates s))
      (\<lambda>p. room \<mu> (k + length (ps_pending s) + waiting_updates p) n)"
    by (rule lasts_weaken [OF lasts_flush [OF assms]]) (auto simp: room_def weight_def)
qed (auto simp: room_def weight_def intro!: lasts_retS)

lemma lasts_next_parallel:
  assumes "finite_host \<mu> h"
  shows "n < fuel \<Longrightarrow> ps_pending s \<noteq> [] \<Longrightarrow> lasts \<mu> (room \<mu> (k + weight s) n) (next_parallel_step h i slots fuel s)
    (\<lambda>x. step_paid \<mu> k n (Some (fst x), snd x))"
proof (induction fuel arbitrary: n s)
  case (Suc fuel)
  show ?case
    unfolding next_parallel_step.simps
  proof (rule lasts_bindE [OF lasts_poll_parallel [OF assms Suc.prems(2)]], clarify, goal_cases)
    case (1 st s')
    show ?case
    proof (cases st)
      case (Some step)
      then show ?thesis by (auto intro!: lasts_retS)
    next
      case None
      have "lasts \<mu> (\<lambda>w. room \<mu> (k + weight s') m w \<and> ps_pending s' \<noteq> [])
          (bindE (ps_gather h i slots s') (next_parallel_step h i slots fuel)) (\<lambda>x. step_paid \<mu> k n (Some (fst x), snd x))"
        if n: "n = Suc m" for m
      proof (cases "ps_pending s' = []")
        case False
        have less: "m < fuel" using Suc.prems n by simp
        have "lasts \<mu> (\<lambda>w. room \<mu> (k + weight s'') m w \<and> ps_pending s'' = ps_pending s') (next_parallel_step h i slots fuel s'')
            (\<lambda>x. step_paid \<mu> k n (Some (fst x), snd x))" for s''
        proof (cases "ps_pending s'' = ps_pending s'")
          case True
          then show ?thesis
            by (intro lasts_weaken [OF Suc.IH [OF less]]) (use False n in \<open>auto simp: step_paid_def room_def\<close>)
        qed (simp add: lasts_false)
        from lasts_bindE [OF lasts_ps_gather [OF assms] this] show ?thesis by (rule lasts_weaken) auto
      qed (simp add: lasts_false)
      then show ?thesis
        by (cases n) (auto simp: None step_paid_def room_def lasts_def)
    qed
  qed
qed simp

lemma lasts_cancel_pending:
  assumes "finite_host \<mu> h"
  shows "lasts \<mu> (room \<mu> k n) (cancel_pending h i rest s) (\<lambda>s' w. room \<mu> k n w \<and> weight s' = weight s \<and> ps_pending s' = ps_pending s)"
proof (induction rest arbitrary: s)
  case (Cons x rest)
  obtain slot call where x: "x = (slot, call)" by fastforce
  show ?case
    unfolding x cancel_pending.simps
    by (rule lasts_then [OF thrifty_tools(5) [OF assms]], rule lasts_weaken [OF Cons]) simp_all
qed (simp add: lasts_retS)

lemma lasts_siblings:
  assumes "finite_host \<mu> h" and "n < fuel"
  shows "lasts \<mu> (room \<mu> (k + weight s + length rest) n) (settle_siblings h i cf slots fuel ids rest s) (\<lambda>s'. room \<mu> (k + weight s') n)"
proof (induction rest arbitrary: s)
  case (Cons x rest)
  obtain slot call where x: "x = (slot, call)" by fastforce
  have keep: "lasts \<mu> (room \<mu> (k + weight s + length (x # rest)) n)
      (settle_siblings h i cf slots fuel ids rest (s\<lparr>ps_pending := ps_pending s @ [x]\<rparr>)) (\<lambda>s'. room \<mu> (k + weight s') n)"
    by (rule lasts_weaken [OF Cons.IH]) (auto simp: room_def weight_def)
  have settle: "lasts \<mu> (room \<mu> (k + weight s + length rest) n)
      (bindE (await i (tool_poll h slot call c)) (\<lambda>(result, us).
        bindE (ps_flush h i slots fuel (ps_close (tc_id call) (ps_push slots us s))) (\<lambda>s.
        bindE (case result of Some r \<Rightarrow> finalize_executed_tool h i cf call r | None \<Rightarrow> retS (aborted_result call, False)) (\<lambda>(r, t).
        thenE (emit_tool_execution_end h i call r)
          (settle_siblings h i cf slots fuel ids rest (complete slot r t s)))))) (\<lambda>s'. room \<mu> (k + weight s') n)" for c
  proof (rule lasts_bindE [OF lasts_poll_one [OF assms(1)]], clarify, goal_cases)
    case (1 result us)
    let ?s = "ps_close (tc_id call) (ps_push slots us s)"
    have "lasts \<mu> (room \<mu> (k + length rest + weight s') n) (bindE (case result of Some r \<Rightarrow> finalize_executed_tool h i cf call r
          | None \<Rightarrow> retS (aborted_result call, False)) (\<lambda>(r, t). thenE (emit_tool_execution_end h i call r)
          (settle_siblings h i cf slots fuel ids rest (complete slot r t s')))) (\<lambda>s'. room \<mu> (k + weight s') n)" for s'
    proof (rule lasts_then)
      show "thrifty \<mu> (case result of Some r \<Rightarrow> finalize_executed_tool h i cf call r | None \<Rightarrow> retS (aborted_result call, False))"
        by (intro thrift assms(1))
    qed (clarify, rule lasts_then [OF thrifty_tools(5) [OF assms(1)]], rule lasts_weaken [OF Cons.IH], auto simp: room_def)
    note rest = this
    have "lasts \<mu> (room \<mu> (k + length rest + weight ?s) n) (ps_flush h i slots fuel ?s) (\<lambda>s'. room \<mu> (k + length rest + weight s') n)"
      by (rule lasts_weaken [OF lasts_ps_flush [OF assms]]) auto
    from lasts_bindE [OF this rest] show ?case
      by (rule lasts_weaken) (use weight_push [of slots us s] in \<open>auto simp: room_def\<close>)
  qed
  show ?case
    unfolding x settle_siblings.simps
    by (intro lasts_if lasts_getS, use keep in \<open>simp add: x\<close>, rule lasts_weaken [OF settle]) (auto simp: room_def)
qed (simp add: lasts_retS)

text \<open>Handling a step leaves the batch cheaper by one.\<close>

lemma lasts_handle:
  assumes "finite_host \<mu> h" and "n < fuel"
  shows "lasts \<mu> (step_paid \<mu> k n (Some st, s)) (handle_parallel_step h i cf slots fuel st s) (\<lambda>s'. room \<mu> (k + weight s' + 1) n)"
proof (cases st)
  case (ParCancelled us)
  have "lasts \<mu> (room \<mu> (k + weight s) n) (handle_parallel_step h i cf slots fuel st s)
      (\<lambda>s' w. room \<mu> (k + weight s) n w \<and> weight s' = waiting_updates (ps_updates s))"
    unfolding ParCancelled handle_parallel_step.simps
    by (rule lasts_then [OF thrifty_updates [OF assms(1)]], rule lasts_weaken [OF lasts_cancel_pending [OF assms(1)]])
      (auto simp: weight_def)
  note cancelled = this
  show ?thesis
  proof (cases "ps_pending s = []")
    case True
    then show ?thesis by (intro lasts_weaken [OF lasts_false]) (auto simp: ParCancelled step_paid_def)
  next
    case False
    then have "1 \<le> length (ps_pending s)" by (simp add: Suc_le_eq)
    then show ?thesis by (intro lasts_weaken [OF cancelled]) (auto simp: ParCancelled step_paid_def room_def weight_def)
  qed
next
  case (ParUpdates us)
  have settled: "lasts \<mu> (room \<mu> (k + 1 + weight s') n) (bindE (settle_siblings h i cf slots fuel (update_ids us) (ps_pending s') (s'\<lparr>ps_pending := []\<rparr>)) (\<lambda>s.
             retS (s\<lparr>ps_allowed := ps_allowed s \<union> f s\<rparr>))) (\<lambda>s'. room \<mu> (k + weight s' + 1) n)" for s' f
  proof (rule lasts_bindE)
    show "lasts \<mu> (room \<mu> (k + 1 + weight s') n) (settle_siblings h i cf slots fuel (update_ids us) (ps_pending s')
        (s'\<lparr>ps_pending := []\<rparr>)) (\<lambda>s'. room \<mu> (k + 1 + weight s') n)"
      by (rule lasts_weaken [OF lasts_siblings [OF assms, where k = "k + 1"]]) (auto simp: room_def weight_def)
  qed (auto simp: room_def weight_def intro!: lasts_retS)
  have "lasts \<mu> (room \<mu> (k + 1 + weight s) n) (handle_parallel_step h i cf slots fuel st s) (\<lambda>s'. room \<mu> (k + weight s' + 1) n)"
    unfolding ParUpdates handle_parallel_step.simps
  proof (rule lasts_then [OF thrifty_updates [OF assms(1)]], rule lasts_bindE)
    show "lasts \<mu> (room \<mu> (k + 1 + weight s) n) (ps_gather h i slots s) (\<lambda>s'. room \<mu> (k + 1 + weight s') n)"
      by (rule lasts_weaken [OF lasts_ps_gather [OF assms(1), where k = "k + 1" and n = n]]) auto
  qed (intro lasts_getS lasts_if settled lasts_retS, simp add: room_def)
  then show ?thesis by (rule lasts_weaken) (auto simp: ParUpdates step_paid_def room_def)
next
  case (ParCompleted slot call result us)
  have "lasts \<mu> (room \<mu> (k + 1 + weight s) n) (handle_parallel_step h i cf slots fuel st s) (\<lambda>s'. room \<mu> (k + weight s' + 1) n)"
    unfolding ParCompleted handle_parallel_step.simps
  proof (rule lasts_then [OF thrifty_updates [OF assms(1)]], rule lasts_then [OF thrifty_tools(2) [OF assms(1)]], clarify,
      rule lasts_bindE [where S = "\<lambda>s'. room \<mu> (k + 1 + weight s') n"], goal_cases)
    case (1 r t)
    show ?case
      by (rule lasts_weaken [OF lasts_ps_gather [OF assms(1), where k = "k + 1" and n = n]]) auto
  next
    case (2 r t s')
    have "lasts \<mu> (room \<mu> (k + 1 + weight s') n) (ps_flush h i slots fuel s') (\<lambda>s'. room \<mu> (k + 1 + weight s') n)"
      by (rule lasts_weaken [OF lasts_ps_flush [OF assms, where k = "k + 1"]]) auto
    then show ?case
      by (rule lasts_bindE) (rule lasts_then [OF thrifty_tools(5) [OF assms(1)]], rule lasts_retS, simp add: room_def)
  qed
  then show ?thesis by (rule lasts_weaken) (auto simp: ParCompleted step_paid_def room_def)
qed

lemma lasts_parallel_loop:
  assumes "finite_host \<mu> h"
  shows "n < polls \<Longrightarrow> n < fuel \<Longrightarrow>
    lasts \<mu> (room \<mu> (k + weight s) n) (parallel_loop h i cf slots polls fuel s) (\<lambda>_. room \<mu> k n)"
proof (induction fuel arbitrary: n s)
  case (Suc fuel)
  show ?case
  proof (cases "ps_pending s = []")
    case False
    have again: "lasts \<mu> (room \<mu> (Suc (k + weight s')) n) (parallel_loop h i cf slots polls fuel s') (\<lambda>_. room \<mu> k n)" for s'
    proof (rule lasts_room)
      show "lasts \<mu> (room \<mu> (k + weight s') m) (parallel_loop h i cf slots polls fuel s') (\<lambda>_. room \<mu> k n)" if "n = Suc m" for m
        by (rule lasts_weaken [OF Suc.IH [of m]]) (use Suc.prems that in \<open>auto simp: room_def\<close>)
    qed
    have "lasts \<mu> (step_paid \<mu> k n (Some st, s')) (bindE (handle_parallel_step h i cf slots polls st s')
        (parallel_loop h i cf slots polls fuel)) (\<lambda>_. room \<mu> k n)" for st s'
      by (rule lasts_bindE [OF lasts_handle [OF assms Suc.prems(1)]]) (simp add: again)
    with False show ?thesis
      by simp (rule lasts_bindE [OF lasts_next_parallel [OF assms Suc.prems(1) False]], auto)
  qed (auto intro!: lasts_retS simp: room_def)
qed simp

lemma returns_prepare_all: "returns (prepare_all h i cf slot calls fin) (\<lambda>(ex, fin'). length ex \<le> length calls)"
proof (induction calls arbitrary: slot fin)
  case (Cons call calls)
  have immediate: "returns (prepare_all h i cf slot calls fin) (\<lambda>(ex, fin'). length ex \<le> Suc (length calls))" for slot fin
    by (rule returns_weaken [OF Cons]) auto
  have execute: "returns (bindE (prepare_all h i cf (Suc slot) calls fin) (\<lambda>(ex, fin'). retS ((slot, call, td) # ex, fin')))
      (\<lambda>(ex, fin'). length ex \<le> Suc (length calls))" for td
    by (rule returns_bindE [OF Cons]) (auto intro: returns_retS)
  show ?case
    unfolding prepare_all.simps length_Cons Let_def
    by (rule returns_after, rule returns_after) (auto split: prepared_call.split intro: returns_after immediate execute)
qed (simp add: returns_retS)

lemma thrifty_prepare_all [thrift]:
  assumes "finite_host \<mu> h"
  shows "thrifty \<mu> (prepare_all h i cf slot calls fin)"
proof (induction calls arbitrary: slot fin)
  case (Cons call calls)
  note tools = thrifty_tools(1,4,5) [OF assms]
  show ?case
    unfolding prepare_all.simps Let_def
    by (intro spend.law_bindE tools) (auto split: prepared_call.split intro!: thrift tools Cons)
qed (auto intro: thrift)

lemma thrifty_record [thrift]:
  assumes "finite_host \<mu> h"
  shows "thrifty \<mu> (record_results h i slot calls fin all terminal)"
proof (induction calls arbitrary: slot all terminal)
  case (Cons call calls)
  note tools = thrifty_tools(3,7) [OF assms]
  show ?case
    unfolding record_results.simps Let_def by (intro thrift tools Cons)
qed (auto intro: thrift)

lemma lasts_start_all:
  assumes "finite_host \<mu> h"
  shows "lasts \<mu> (room \<mu> (k + waiting_updates p) n) (start_all h i slots ex p) (\<lambda>p'. room \<mu> (k + waiting_updates p') n)"
proof (induction ex arbitrary: slots p)
  case (Cons x ex)
  obtain slot call td where x: "x = (slot, call, td)" by (metis prod_cases3)
  show ?case
    unfolding x start_all.simps Let_def by (intro lasts_getS lasts_start [OF assms] Cons)
qed (simp add: lasts_retS)

lemma lasts_returns:
  assumes "lasts \<mu> P m Q" and "returns m V"
  shows "lasts \<mu> P m (\<lambda>x w. Q x w \<and> V x)"
  using assms unfolding lasts_def by (metis returnsD)

lemma lasts_parallel:
  assumes "finite_host \<mu> h" and "n < fuel"
  shows "lasts \<mu> (room \<mu> (k + length calls) n) (execute_parallel h i cf fuel calls) (\<lambda>_. room \<mu> k n)"
  unfolding execute_parallel_def
proof (rule lasts_bindE [OF lasts_returns [OF lasts_thrifty [OF thrifty_prepare_all [OF assms(1)]] returns_prepare_all]], clarify,
    goal_cases)
  case (1 ex fin)
  show ?case
  proof (cases "length ex \<le> length calls")
    case True
    let ?s = "\<lambda>p. \<lparr>ps_pending = map (\<lambda>(slot, call, td). (slot, call)) ex, ps_allowed = {}, ps_updates = p, ps_completions = fin\<rparr>"
    let ?slots = "map_of (map (\<lambda>(slot, call, td). (slot, call)) ex)"
    have started: "lasts \<mu> (room \<mu> (k + length calls) n) (start_all h i Map.empty ex updates_default) (\<lambda>p. room \<mu> (k + weight (?s p)) n)"
      by (rule lasts_weaken [OF lasts_start_all [OF assms(1), where k = "k + length calls"]])
        (use True in \<open>auto simp: room_def weight_def updates_default_def\<close>)
    have "lasts \<mu> (room \<mu> (k + weight (?s p)) n) (bindE (parallel_loop h i cf ?slots fuel fuel (?s p))
        (\<lambda>s. record_results h i 0 calls (ps_completions s) True None)) (\<lambda>_. room \<mu> k n)" for p
      by (rule lasts_bindE [OF lasts_parallel_loop [OF assms(1) assms(2) assms(2)]])
        (rule lasts_thrifty [OF thrifty_record [OF assms(1)]])
    from lasts_bindE [OF started this] show ?thesis by (rule lasts_weaken) auto
  qed (simp add: lasts_false)
qed

lemma lasts_tool_calls:
  assumes "finite_host \<mu> h" and "n < fuel"
  shows "lasts \<mu> (room \<mu> (k + length calls) n) (execute_tool_calls h i cf fuel calls) (\<lambda>_. room \<mu> k n)"
  unfolding execute_tool_calls_def
  by (intro lasts_if lasts_parallel [OF assms], rule lasts_weaken [OF lasts_sequential [OF assms, where k = k]])
    (auto simp: room_def)

section \<open>A response\<close>

lemma lasts_keep: "thrifty \<mu> m \<Longrightarrow> (\<And>w w'. P w \<Longrightarrow> cheaper \<mu> w w' \<Longrightarrow> P w') \<Longrightarrow> lasts \<mu> P m (\<lambda>_. P)"
  unfolding lasts_def by (fastforce dest: obeysD obeys_error)

text \<open>What a stream has paid for: the calls it collected, and its terminal event.\<close>

definition paid :: "stream_state \<Rightarrow> nat" where
  "paid st = length (ss_calls st) + (if ss_reason st = None then 0 else 1)"

lemma thrifty_event [thrift]:
  assumes "finite_host \<mu> h"
  shows "thrifty \<mu> (handle_stream_event h i item st)"
proof -
  have "thrifty \<mu> (text_delta h i delta st)" for delta
    unfolding text_delta_def assistant_slot_def by (intro thrift assms)
  then show ?thesis by (cases item) (auto intro: thrift)
qed

lemma returns_event: "ss_reason st = None \<Longrightarrow> returns (handle_stream_event h i item st) (\<lambda>st'. paid st' \<le> Suc (paid st))"
  by (cases item) (auto simp: text_delta_def Let_def paid_def intro!: returns_retS returns_after)

lemma lasts_stream:
  assumes "finite_host \<mu> h"
  shows "lasts \<mu> (\<lambda>w. room \<mu> (k + paid st) n w \<and> room \<mu> 1 fuel w) (stream_loop h i provider fuel st)
    (\<lambda>st' w. room \<mu> (k + paid st') n w)"
proof (induction fuel arbitrary: st)
  case (Suc fuel)
  have event: "lasts \<mu> P (await i (next_event h provider c)) (\<lambda>r w. room \<mu> (k + paid st + event_cost r) n w \<and> room \<mu> (1 + event_cost r) (Suc fuel) w)"
    if "P = (\<lambda>w. room \<mu> (k + paid st) n w \<and> room \<mu> 1 (Suc fuel) w)" for P c
  proof -
    have price: "spends \<mu> event_cost (next_event h provider c)" using assms by (simp add: finite_host_def)
    show ?thesis
      unfolding that lasts_def room_def by (auto simp: await_def split: prod.splits dest!: spendsD [OF price])
  qed
  show ?case
    unfolding stream_loop.simps
  proof (rule lasts_getS, rule lasts_bindE [OF event [OF refl]], goal_cases)
    case (1 c r)
    show ?case
    proof (cases "\<exists>item. r = Inr (Some item) \<and> ss_reason st = None")
      case True
      then obtain item where r: "r = Inr (Some item)" "ss_reason st = None" by blast
      have "lasts \<mu> (\<lambda>w. room \<mu> (k + paid st + 1) n w \<and> room \<mu> 1 fuel w) (bindE (handle_stream_event h i item st)
          (stream_loop h i provider fuel)) (\<lambda>st' w. room \<mu> (k + paid st') n w)"
      proof (rule lasts_bindE [OF lasts_returns [OF lasts_keep [OF thrifty_event [OF assms]] returns_event [OF r(2)]]])
        show "lasts \<mu> (\<lambda>w. (room \<mu> (k + paid st + 1) n w \<and> room \<mu> 1 fuel w) \<and> paid st' \<le> Suc (paid st))
            (stream_loop h i provider fuel st') (\<lambda>st' w. room \<mu> (k + paid st') n w)" for st'
          by (rule lasts_weaken [OF Suc]) (auto simp: room_def)
      qed (auto simp: room_def)
      note step = this
      show ?thesis using r(2) by (simp add: r(1), intro lasts_weaken [OF step]) (auto simp: room_def)
    next
      case False
      then show ?thesis
        by (auto split: sum.split option.split simp: run_step_raise_def room_def intro!: lasts_failS lasts_retS)
    qed
  qed
qed (auto simp: room_def lasts_def)

lemma lasts_response:
  assumes "finite_host \<mu> h" and "n < fuel"
  shows "lasts \<mu> (room \<mu> k n) (consume_assistant_stream h i provider fuel t md)
    (\<lambda>answer. room \<mu> (k + length (at_calls answer) + 1) n)"
  unfolding consume_assistant_stream_def
proof (rule lasts_bindE)
  show "lasts \<mu> (room \<mu> k n) (stream_loop h i provider fuel stream_start) (\<lambda>st w. room \<mu> (k + paid st) n w)"
    by (rule lasts_weaken [OF lasts_stream [OF assms(1)]]) (use assms(2) in \<open>auto simp: room_def paid_def stream_start_def\<close>)
  have committed: "thrifty \<mu> (commit_assistant h i st reason)" "thrifty \<mu> (record_usage h i t md u)" for st reason u
    unfolding commit_assistant_def record_usage_def by (intro thrift assms(1))+
  show "lasts \<mu> (room \<mu> (k + paid st) n) (case ss_reason st of
       None \<Rightarrow> run_step_raise (UnsupportedModelStream ''model stream ended without a terminal event'')
     | Some reason \<Rightarrow>
         thenE (commit_assistant h i st reason)
         (thenE (record_usage h i t md (ss_usage st))
           (retS \<lparr>at_reason = reason, at_calls = ss_calls st, at_error = ss_error st,
                  at_valid_input = valid_input reason (ss_usage st), at_overflow = ss_overflow st\<rparr>)))
      (\<lambda>answer. room \<mu> (k + length (at_calls answer) + 1) n)" for st
  proof (cases "ss_reason st")
    case (Some reason)
    show ?thesis
      unfolding Some option.case
      by (rule lasts_then [OF committed(1)], rule lasts_then [OF committed(2)], rule lasts_retS) (auto simp: room_def paid_def Some)
  qed (simp add: run_step_raise_def lasts_failS)
qed

section \<open>Turns and drives\<close>

lemma lasts_request:
  assumes "finite_host \<mu> h" and "n < fuel"
  shows "lasts \<mu> (room \<mu> k n) (request_turn h i hnd fuel ls) (\<lambda>(answer, count, ls'). room \<mu> (k + length (at_calls answer) + 1) n)"
  unfolding request_turn_def Let_def
proof (rule lasts_then, goal_cases)
  case 1
  show ?case by (intro thrift assms(1))
next
  case (2 x)
  obtain compacted est where x: "x = (compacted, est)" by fastforce
  have answered: "lasts \<mu> (room \<mu> k n) (bindE (consume_assistant_stream h i cap fuel t md) (\<lambda>answer. retS (answer, count, f answer)))
      (\<lambda>(answer, count, ls'). room \<mu> (Suc (k + length (at_calls answer))) n)" for cap t md count and f :: "assistant_turn \<Rightarrow> loop_state"
    by (rule lasts_bindE [OF lasts_response [OF assms]], rule lasts_retS) simp
  note estimates = thrifty_context [OF assms(1)]
  have sent: "lasts \<mu> (room \<mu> k n) (case provider of
              None \<Rightarrow> run_step_raise MissingModelProvider
            | Some cap \<Rightarrow>
                bindE (getS (is_cancelled i)) (\<lambda>c.
                bindE (await i (stream h cap rq c)) (\<lambda>r.
                case r of
                  Inl message \<Rightarrow> run_step_raise (ModelProviderError message)
                | Inr _ \<Rightarrow> bindE (consume_assistant_stream h i cap fuel t md) (\<lambda>answer. retS (answer, count, f answer)))))
      (\<lambda>(answer, count, ls'). room \<mu> (Suc (k + length (at_calls answer))) n)"
    for provider rq t md count and f :: "assistant_turn \<Rightarrow> loop_state"
  proof (cases provider)
    case (Some cap)
    show ?thesis
      unfolding Some option.case
      by (rule lasts_getS, rule lasts_then [OF finite_hooks(7) [OF assms(1)]])
        (auto split: sum.split simp: run_step_raise_def intro!: lasts_failS answered)
  qed (simp add: run_step_raise_def lasts_failS)
  have estimated: "thrifty \<mu> (if b then emit_context_estimate h i rq m else retS ())" for b rq m
    by (intro thrift assms(1))
  show ?case
    unfolding x prod.case Suc_eq_plus1 [symmetric]
    by (rule lasts_getS, rule lasts_then [OF thrifty_context(2) [OF assms(1)]], rule lasts_getS, rule lasts_getS,
        rule lasts_then [OF estimated], rule lasts_getS, rule sent)
qed

lemma thrifty_endings [thrift]:
  assumes "finite_host \<mu> h"
  shows "thrifty \<mu> (recover_overflow h i hnd count answer ls)"
    "thrifty \<mu> (fail_model_turn h i hnd t answer :: ('e, 'a) run_step)"
    "thrifty \<mu> (break_circuit h i hnd t message :: ('e, 'b) run_step)" "thrifty \<mu> (after_turn h i hnd answer all ls)"
    "thrifty \<mu> (fail_truncated_tool_calls h i calls)"
proof -
  show "thrifty \<mu> (recover_overflow h i hnd count answer ls)"
    unfolding recover_overflow_def by (intro thrift assms)
  show "thrifty \<mu> (fail_model_turn h i hnd t answer :: ('e, 'a) run_step)"
    unfolding fail_model_turn_def by (intro thrift assms)
  show "thrifty \<mu> (break_circuit h i hnd t message :: ('e, 'b) run_step)"
    unfolding break_circuit_def by (intro thrift assms)
  show "thrifty \<mu> (after_turn h i hnd answer all ls)"
    unfolding after_turn_def by (intro thrift assms)
  show "thrifty \<mu> (fail_truncated_tool_calls h i calls)"
    unfolding fail_truncated_tool_calls_def by (intro thrift assms)
qed

lemma lasts_any: "thrifty \<mu> m \<Longrightarrow> lasts \<mu> P m (\<lambda>_ _. True)"
  unfolding lasts_def by (fastforce dest: obeysD obeys_error)

lemma lasts_turn_tools:
  assumes "finite_host \<mu> h" and "n < fuel"
  shows "lasts \<mu> (room \<mu> (k + length (at_calls answer)) n) (turn_tools h i hnd fuel answer) (\<lambda>_. room \<mu> k n)"
proof -
  have none: "lasts \<mu> (room \<mu> (k + m) n) (retS x :: ('a, batch_outcome) run_step) (\<lambda>_. room \<mu> k n)" for m x
    by (rule lasts_retS) (auto simp: room_def)
  have truncated: "thrifty \<mu> (bindE (fail_truncated_tool_calls h i calls) (\<lambda>t. retS (t, None)) :: ('a, batch_outcome) run_step)" for calls
    by (intro thrift assms(1))
  show ?thesis
    unfolding turn_tools_def run_step_raise_def
    by (intro lasts_if none lasts_tool_calls [OF assms] lasts_failS lasts_weaken [OF lasts_thrifty [OF truncated]])
      (auto simp: room_def)
qed

lemma lasts_turn:
  assumes "finite_host \<mu> h" and "n < fuel"
  shows "lasts \<mu> (room \<mu> k n) (run_turn h i hnd fuel ls) (\<lambda>_. room \<mu> (k + 1) n)"
  unfolding run_turn_def
proof (rule lasts_bindE [OF lasts_request [OF assms]], clarify, goal_cases)
  case (1 answer count ls')
  let ?left = "\<lambda>m. room \<mu> (k + 1 + m) n"
  have tools: "lasts \<mu> (?left (length (at_calls answer))) (bindE (turn_tools h i hnd fuel answer) (\<lambda>(all_terminate, terminal).
             case terminal of
               Some message \<Rightarrow> break_circuit h i hnd (ls_turn ls') message
             | None \<Rightarrow> after_turn h i hnd answer all_terminate (ls'\<lparr>ls_completed := True\<rparr>))) (\<lambda>_. room \<mu> (k + 1) n)"
  proof (rule lasts_bindE [OF lasts_turn_tools [OF assms]], rule lasts_weaken [OF lasts_thrifty], goal_cases)
    case (1 x)
    show ?case by (intro thrift assms(1))
  qed auto
  have thrifty: "lasts \<mu> (?left (length (at_calls answer))) m (\<lambda>_. room \<mu> (k + 1) n)" if "thrifty \<mu> m" for m :: "('a, 'b) run_step"
    by (rule lasts_weaken [OF lasts_thrifty [OF that, where k = "k + 1" and n = n]]) (auto simp: room_def)
  have "lasts \<mu> (?left (length (at_calls answer))) (case retried of
       Some ls \<Rightarrow> retS (Some ls)
     | None \<Rightarrow>
         if at_reason answer \<in> {ErrorReason, Aborted} then fail_model_turn h i hnd (ls_turn ls') answer
         else bindE (getS (is_cancelled i)) (\<lambda>c.
           if at_reason answer = CancelledReason \<and> c
           then thenE (end_turn_and_run h i hnd (ls_turn ls') (at_reason answer))
             (thenE (liftS (finish i Cancelled CancelledReason None)) (run_step_raise CancelledError))
           else bindE (turn_tools h i hnd fuel answer) (\<lambda>(all_terminate, terminal).
             case terminal of
               Some message \<Rightarrow> break_circuit h i hnd (ls_turn ls') message
             | None \<Rightarrow> after_turn h i hnd answer all_terminate (ls'\<lparr>ls_completed := True\<rparr>))))
      (\<lambda>_. room \<mu> (k + 1) n)" for retried
  proof (cases retried)
    case None
    show ?thesis
      unfolding None option.case
      by (intro lasts_if lasts_getS tools thrifty thrift assms(1))
  qed (auto intro!: lasts_retS simp: room_def)
  moreover have "k + length (at_calls answer) + 1 = k + 1 + length (at_calls answer)" by simp
  ultimately show ?case by (simp only:) (rule lasts_then [OF thrifty_endings(1) [OF assms(1)]])
qed

lemma lasts_drive_loop:
  assumes "finite_host \<mu> h" and "n < fuel"
  shows "n < k + rounds \<Longrightarrow> lasts \<mu> (room \<mu> k n) (drive_loop h i hnd fuel rounds ls) (\<lambda>_ _. True)"
proof (induction rounds arbitrary: k ls)
  case 0
  then show ?case by (auto simp: lasts_def room_def)
next
  case (Suc rounds)
  show ?case
    unfolding drive_loop.simps
    by (rule lasts_bindE [OF lasts_turn [OF assms]]) (use Suc in \<open>auto intro!: lasts_retS split: option.split\<close>)
qed

lemma lasts_inner:
  assumes "finite_host \<mu> h" and "n < fuel" and "n < rounds"
  shows "lasts \<mu> (room \<mu> 0 n) (drive_inner h hnd fuel rounds) (\<lambda>_ _. True)"
proof -
  note loop = lasts_drive_loop [OF assms(1,2), where k = 0 and rounds = rounds, simplified, OF assms(3)]
  have initial: "thrifty \<mu> (forE ms (\<lambda>m. thenE (emit h i (MessageStart m)) (emit h i (MessageEnd m))))" for ms i
    by (intro thrift assms(1))
  have steered: "thrifty \<mu> (if skip then retS None else bindE current_context (\<lambda>cx. bindE drain_steering (\<lambda>queued.
      bindE (inject_queued_messages h i cx queued) (\<lambda>cx. retS (Some cx)))))" for skip i
    by (intro thrift assms(1))
  show ?thesis
    unfolding drive_inner_def drive_started_def
    by (rule lasts_then [OF thrifty_sections(4)], rule lasts_getS, rule lasts_if, simp add: run_step_raise_def lasts_failS,
        rule lasts_then [OF thrifty_emit [OF assms(1)]], rule lasts_then [OF thrifty_emit [OF assms(1)]],
        rule lasts_then [OF initial], rule lasts_then [OF steered], rule loop)
qed

lemma lasts_drive:
  assumes "finite_host \<mu> h" and "n < fuel" and "n < rounds"
  shows "lasts \<mu> (room \<mu> 0 n) (drive h hnd fuel rounds) (\<lambda>_ _. True)"
proof -
  have "lasts \<mu> (room \<mu> 0 n) (catch (drive_inner h hnd fuel rounds)) (\<lambda>_ _. True)"
    using lasts_inner [OF assms]
    by (fastforce simp: lasts_def catch_def split: prod.splits sum.splits failure_kind.splits)
  then show ?thesis
    unfolding drive_def
  proof (rule lasts_bindE, goal_cases)
    case (1 r)
    show ?case by (rule lasts_any, intro thrift assms(1))
  qed
qed

section \<open>More fuel\<close>

text \<open>A step with more fuel does the same, unless the first ran out.\<close>

definition extends :: "('e, 'a) run_step \<Rightarrow> ('e, 'a) run_step \<Rightarrow> bool" where
  "extends m m' \<longleftrightarrow> (\<forall>w. fst (m w) = Inl OutOfFuel \<or> m' w = m w)"

lemma extends_refl: "extends m m"
  by (simp add: extends_def)

lemma extends_out: "extends (failS OutOfFuel) m"
  by (simp add: extends_def failS_def)

lemma extends_bindE:
  assumes "extends m m'" and "\<And>x. extends (k x) (k' x)"
  shows "extends (bindE m k) (bindE m' k')"
  unfolding extends_def
proof
  fix w
  obtain r v where r: "m w = (r, v)" by fastforce
  show "fst (bindE m k w) = Inl OutOfFuel \<or> bindE m' k' w = bindE m k w"
  proof (cases "r = Inl OutOfFuel")
    case False
    then have "m' w = (r, v)" using assms(1) r by (metis extends_def fst_conv)
    then show ?thesis using r assms(2) by (auto simp: bindE_def bindS_def extends_def split: sum.split)
  qed (simp add: bindE_def bindS_def r)
qed

lemma extends_catch: "extends m m' \<Longrightarrow> extends (catch m) (catch m')"
proof (unfold extends_def, rule allI)
  fix w
  assume "\<forall>w. fst (m w) = Inl OutOfFuel \<or> m' w = m w"
  then consider "fst (m w) = Inl OutOfFuel" | "m' w = m w" by blast
  then show "fst (catch m w) = Inl OutOfFuel \<or> catch m' w = catch m w"
    by cases (auto simp: catch_def split: prod.splits)
qed

lemma extends_cases:
  "(c \<Longrightarrow> extends m m') \<Longrightarrow> (\<not> c \<Longrightarrow> extends k k') \<Longrightarrow> extends (if c then m else k) (if c then m' else k')"
  "(\<And>x. extends (f x) (f' x)) \<Longrightarrow> (\<And>y. extends (g y) (g' y)) \<Longrightarrow>
    extends (case r of Inl x \<Rightarrow> f x | Inr y \<Rightarrow> g y) (case r of Inl x \<Rightarrow> f' x | Inr y \<Rightarrow> g' y)"
  "extends l l' \<Longrightarrow> (\<And>x. extends (p x) (p' x)) \<Longrightarrow> extends (case q of None \<Rightarrow> l | Some x \<Rightarrow> p x) (case q of None \<Rightarrow> l' | Some x \<Rightarrow> p' x)"
  "(\<And>x y. extends (t x y) (t' x y)) \<Longrightarrow> extends (case u of (x, y) \<Rightarrow> t x y) (case u of (x, y) \<Rightarrow> t' x y)"
  "(\<And>r b. extends (a r b) (a' r b)) \<Longrightarrow> (\<And>td. extends (e td) (e' td)) \<Longrightarrow>
    extends (case pc of Immediate r b \<Rightarrow> a r b | Execute td \<Rightarrow> e td) (case pc of Immediate r b \<Rightarrow> a' r b | Execute td \<Rightarrow> e' td)"
  "(\<And>us. extends (d us) (d' us)) \<Longrightarrow> (\<And>r us. extends (o1 r us) (o2 r us)) \<Longrightarrow>
    extends (case ts of StepUpdates us \<Rightarrow> d us | StepCompleted r us \<Rightarrow> o1 r us) (case ts of StepUpdates us \<Rightarrow> d' us | StepCompleted r us \<Rightarrow> o2 r us)"
  by (simp_all split: sum.split option.split prod.split prepared_call.split tool_step.split)

lemmas extends_steps = extends_bindE extends_catch extends_cases

lemma more_fuel: "Suc f \<le> g \<Longrightarrow> \<exists>g'. g = Suc g' \<and> f \<le> g'"
  by (cases g) auto

lemma extends_flush: "f \<le> f' \<Longrightarrow> extends (flush_tool_updates h i slots f p) (flush_tool_updates h i slots f' p)"
proof (induction f arbitrary: f' p)
  case (Suc f)
  from more_fuel [OF Suc.prems] obtain g where g: "f' = Suc g" "f \<le> g" by blast
  show ?case
    unfolding g(1) flush_tool_updates.simps
    by (rule extends_refl extends_steps Suc.IH [OF g(2)])+
qed (simp add: extends_out)

lemma extends_tool_step:
  "f \<le> f' \<Longrightarrow> extends (next_tool_step h i slots slot call allow f p) (next_tool_step h i slots slot call allow f' p)"
proof (induction f arbitrary: f' p)
  case (Suc f)
  from more_fuel [OF Suc.prems] obtain g where g: "f' = Suc g" "f \<le> g" by blast
  show ?case
    unfolding g(1) next_tool_step.simps
    by (rule extends_refl extends_steps Suc.IH [OF g(2)])+
qed (simp add: extends_out)

lemma extends_tool_loop:
  assumes "q \<le> q'"
  shows "f \<le> f' \<Longrightarrow> extends (tool_loop h i slots slot call q f allow p) (tool_loop h i slots slot call q' f' allow p)"
proof (induction f arbitrary: f' p allow)
  case (Suc f)
  from more_fuel [OF Suc.prems] obtain g where g: "f' = Suc g" "f \<le> g" by blast
  show ?case
    unfolding g(1) tool_loop.simps
    by (rule extends_refl extends_steps extends_tool_step [OF assms] Suc.IH [OF g(2)])+
qed (simp add: extends_out)

lemma extends_one_call:
  "f \<le> f' \<Longrightarrow> extends (execute_one_tool_call h i cf f slot call) (execute_one_tool_call h i cf f' slot call)"
  unfolding execute_one_tool_call_def Let_def
  by (rule extends_refl extends_steps extends_tool_loop extends_flush | assumption)+

lemma extends_sequential:
  "f \<le> f' \<Longrightarrow> extends (execute_sequential h i cf f slot calls all) (execute_sequential h i cf f' slot calls all)"
proof (induction calls arbitrary: slot all)
  case (Cons call calls)
  show ?case
    unfolding execute_sequential.simps Let_def
    by (rule extends_refl extends_steps extends_one_call Cons)+
qed (simp add: extends_refl)

lemma extends_next_parallel:
  "f \<le> f' \<Longrightarrow> extends (next_parallel_step h i slots f s) (next_parallel_step h i slots f' s)"
proof (induction f arbitrary: f' s)
  case (Suc f)
  from more_fuel [OF Suc.prems] obtain g where g: "f' = Suc g" "f \<le> g" by blast
  show ?case
    unfolding g(1) next_parallel_step.simps
    by (rule extends_refl extends_steps Suc.IH [OF g(2)])+
qed (simp add: extends_out)

lemma extends_ps_flush: "f \<le> f' \<Longrightarrow> extends (ps_flush h i slots f s) (ps_flush h i slots f' s)"
  unfolding ps_flush_def by (rule extends_refl extends_steps extends_flush | assumption)+

lemma extends_siblings:
  "f \<le> f' \<Longrightarrow> extends (settle_siblings h i cf slots f ids rest s) (settle_siblings h i cf slots f' ids rest s)"
proof (induction rest arbitrary: s)
  case (Cons x rest)
  obtain slot call where x: "x = (slot, call)" by fastforce
  show ?case
    unfolding x settle_siblings.simps
    by (rule extends_refl extends_steps extends_ps_flush Cons)+
qed (simp add: extends_refl)

lemma extends_handle:
  "f \<le> f' \<Longrightarrow> extends (handle_parallel_step h i cf slots f st s) (handle_parallel_step h i cf slots f' st s)"
  by (cases st; simp; (rule extends_refl extends_steps extends_ps_flush extends_siblings | assumption)+)

lemma extends_parallel_loop:
  assumes "q \<le> q'"
  shows "f \<le> f' \<Longrightarrow> extends (parallel_loop h i cf slots q f s) (parallel_loop h i cf slots q' f' s)"
proof (induction f arbitrary: f' s)
  case (Suc f)
  from more_fuel [OF Suc.prems] obtain g where g: "f' = Suc g" "f \<le> g" by blast
  show ?case
    unfolding g(1) parallel_loop.simps
    by (rule extends_refl extends_steps extends_next_parallel [OF assms] extends_handle [OF assms] Suc.IH [OF g(2)])+
qed (simp add: extends_out)

lemma extends_tool_calls:
  "f \<le> f' \<Longrightarrow> extends (execute_tool_calls h i cf f calls) (execute_tool_calls h i cf f' calls)"
  unfolding execute_tool_calls_def execute_parallel_def
  by (rule extends_refl extends_steps extends_sequential extends_parallel_loop | assumption)+

lemma extends_stream: "f \<le> f' \<Longrightarrow> extends (stream_loop h i provider f st) (stream_loop h i provider f' st)"
proof (induction f arbitrary: f' st)
  case (Suc f)
  from more_fuel [OF Suc.prems] obtain g where g: "f' = Suc g" "f \<le> g" by blast
  show ?case
    unfolding g(1) stream_loop.simps
    by (rule extends_refl extends_steps Suc.IH [OF g(2)])+
qed (simp add: extends_out)

lemma extends_turn: "f \<le> f' \<Longrightarrow> extends (run_turn h i hnd f ls) (run_turn h i hnd f' ls)"
  unfolding run_turn_def request_turn_def turn_tools_def consume_assistant_stream_def Let_def
  by (rule extends_refl extends_steps extends_tool_calls extends_stream | assumption)+

lemma extends_drive_loop:
  assumes "f \<le> f'"
  shows "r \<le> r' \<Longrightarrow> extends (drive_loop h i hnd f r ls) (drive_loop h i hnd f' r' ls)"
proof (induction r arbitrary: r' ls)
  case (Suc r)
  from more_fuel [OF Suc.prems] obtain g where g: "r' = Suc g" "r \<le> g" by blast
  show ?case
    unfolding g(1) drive_loop.simps
    by (rule extends_refl extends_steps extends_turn [OF assms] Suc.IH [OF g(2)])+
qed (simp add: extends_out)

lemma extends_drive: "f \<le> f' \<Longrightarrow> r \<le> r' \<Longrightarrow> extends (drive h hnd f r) (drive h hnd f' r')"
  unfolding drive_def drive_inner_def drive_started_def
  by (rule extends_refl extends_steps extends_drive_loop | assumption)+

section \<open>Properties\<close>

text \<open>The fuel a finite host needs is the measure of its state and one more.\<close>

lemma drive_fuel:
  assumes "finite_host \<mu> h"
  shows "\<exists>r w'. r \<noteq> Inl OutOfFuel \<and> (\<forall>fuel rounds. \<mu> (w_env w) < fuel \<longrightarrow> \<mu> (w_env w) < rounds \<longrightarrow> drive h hnd fuel rounds w = (r, w'))"
proof -
  let ?n = "\<mu> (w_env w)"
  obtain r w' where run: "drive h hnd (Suc ?n) (Suc ?n) w = (r, w')" by fastforce
  have "lasts \<mu> (room \<mu> 0 ?n) (drive h hnd (Suc ?n) (Suc ?n)) (\<lambda>_ _. True)" by (rule lasts_drive [OF assms]) simp_all
  then have r: "r \<noteq> Inl OutOfFuel" using run by (auto simp: lasts_def room_def)
  have "drive h hnd fuel rounds w = (r, w')" if "?n < fuel" "?n < rounds" for fuel rounds
    using extends_drive [of "Suc ?n" fuel "Suc ?n" rounds h hnd] that r run unfolding extends_def by (metis Suc_leI fst_conv)
  then show ?thesis using r by blast
qed

text \<open>C2: with a finite host, whose responses, pending polls and tool updates a measure of its state bounds,
  every drive of a run that was just started returns: there is one result and one world that any fuel above the
  measure gives. The result is a value or an error of the core, and the run is settled accordingly: the agent
  is idle, and the last event reports the end of the run.\<close>

theorem drive_returns:
  assumes "finite_host \<mu> h" and "agent_step\<^sup>*\<^sup>* (agent_build b e) w0"
    and "start_prompt prompt w0 = (Inr hnd, w) \<or> start_continue w0 = (Inr hnd, w)"
  shows "\<exists>r w'. (\<forall>fuel rounds. \<mu> (w_env w) < fuel \<longrightarrow> \<mu> (w_env w) < rounds \<longrightarrow> drive h hnd fuel rounds w = (r, w')) \<and>
    (r = Inr () \<and> r_phase (run_of (h_run hnd) w') = Succeeded \<or>
     (\<exists>err. r = Inl (Raise err)) \<and> r_phase (run_of (h_run hnd) w') \<in> {Failed, Cancelled}) \<and>
    is_idle w' \<and> w_active w' = None \<and>
    (\<exists>evs ev ms. r_events (run_of (h_run hnd) w') = evs @ [ev] \<and> ev_kind ev = AgentEnd ms)"
proof -
  let ?i = "h_run hnd" and ?n = "\<mu> (w_env w)"
  obtain r w' where fuel: "r \<noteq> Inl OutOfFuel"
    and run: "\<And>fuel rounds. ?n < fuel \<Longrightarrow> ?n < rounds \<Longrightarrow> drive h hnd fuel rounds w = (r, w')"
    using drive_fuel [OF assms(1)] by metis
  have "owned w" "w_active w = Some ?i" "run_of ?i w = run_created ?i"
    using started_fresh [OF owned_history [OF assms(2) owned_build] assms(3)] by auto
  then have "drive_post ?i r w'"
    using drive_runs [OF _ _ _ run [of "Suc ?n" "Suc ?n"]] by (simp add: run_created_def)
  moreover have "is_idle w'" if "ended ?i phs w'" for phs using that owned_idle by (auto simp: ended_def)
  ultimately have "(r = Inr () \<and> r_phase (run_of ?i w') = Succeeded \<or>
     (\<exists>err. r = Inl (Raise err)) \<and> r_phase (run_of ?i w') \<in> {Failed, Cancelled}) \<and>
    is_idle w' \<and> w_active w' = None \<and> (\<exists>evs ev ms. r_events (run_of ?i w') = evs @ [ev] \<and> ev_kind ev = AgentEnd ms)"
    using fuel by (cases r) (auto simp: drive_post_def ended_def closed_def log_of_def split: failure_kind.splits)
  with run show ?thesis by blast
qed

text \<open>A host that plays responses from a list, one for each turn, and whose tools answer at once.\<close>

fun play :: "stream_event list list \<Rightarrow> (string + stream_event option) \<times> host_call list \<times> stream_event list list" where
  "play [] = (Inr None, [], [])"
| "play ([] # rest) = (Inr None, [], rest)"
| "play ((ev # evs) # rest) = (Inr (Some ev), [], evs # rest)"

definition scripted_host :: "stream_event list list host" where
  "scripted_host = \<lparr>display = (\<lambda>_. ''failed''), validate_arguments = (\<lambda>_ _. Inr ()),
     observe = (\<lambda>_ _ _ e. (Inr (), [], e)), before_tool = (\<lambda>_ _ _ _ e. (Inr Allow, [], e)),
     after_tool = (\<lambda>_ _ _ _ _ e. (Inl (''after'', ''unused''), [], e)),
     transform_context = (\<lambda>_ cx _ e. (Inr cx, [], e)), convert_to_llm = (\<lambda>_ _ _ e. (Inr [], [], e)),
     should_stop = (\<lambda>_ _ _ e. (Inr False, [], e)),
     prepare_next = (\<lambda>_ _ _ e. (Inr \<lparr>tu_context = None, tu_model = None, tu_thinking = None\<rparr>, [], e)),
     stream = (\<lambda>_ _ _ e. (Inr (), [], e)), next_event = (\<lambda>_ _. play),
     compact = (\<lambda>_ _ _ e. (Inl (CompactorFailed []), [], e)),
     compact_automatic = (\<lambda>_ _ _ _ e. (Inl (CompactorFailed []), [], e)),
     tool_start = (\<lambda>_ _ _ _ e. ([], [], e)),
     tool_poll = (\<lambda>_ call _ e. ((Some (Inl (ToolBlocked (tc_name call) ''not now'')), []), [], e)),
     tool_wait = (\<lambda>e. ([], [], e))\<rparr>"

abbreviation script_length :: "stream_event list list \<Rightarrow> nat" where
  "script_length rs \<equiv> sum_list (map length rs)"

lemma play_length: "spends script_length event_cost play"
  unfolding spends_def
proof
  show "case play e of (x, calls, e') \<Rightarrow> script_length e' + event_cost x \<le> script_length e" for e
    by (cases e rule: play.cases) simp_all
qed

lemma scripted_host_finite: "finite_host script_length scripted_host"
  using play_length by (auto simp: finite_host_def scripted_host_def spends_def poll_cost_def)

definition scripted_world :: "stream_event list list world" where
  "scripted_world = agent_build (sample_builder\<lparr>b_provider := Some 0\<rparr>)
     [[ToolCallEvent \<lparr>tc_id = ''a'', tc_name = ''read'', tc_arguments = []\<rparr>, StreamEnd ToolUse], [TextDelta ''hi'', StreamEnd Stop]]"

theorem drive_returns_witness:
  "\<exists>hnd w r w'. start_prompt ''go'' scripted_world = (Inr hnd, w) \<and> drive scripted_host hnd 5 5 w = (r, w') \<and>
     (r = Inr () \<or> (\<exists>err. r = Inl (Raise err))) \<and> is_idle w'"
proof -
  have "\<exists>hnd w. start_prompt ''go'' scripted_world = (Inr hnd, w) \<and> w_env w = w_env scripted_world"
    by (simp add: scripted_world_def agent_build_def start_prompt_def start_run_def fetch_run_id_def when_idle_def
        agent_state_default_def claim_def Let_def case_prod_beta world_upd)
  then obtain hnd w where start: "start_prompt ''go'' scripted_world = (Inr hnd, w)" "w_env w = w_env scripted_world" by blast
  then have small: "script_length (w_env w) = 4" by (simp add: scripted_world_def agent_build_def)
  have "agent_step\<^sup>*\<^sup>* scripted_world scripted_world" by simp
  from drive_returns [OF scripted_host_finite this [unfolded scripted_world_def] disjI1 [OF start(1) [unfolded scripted_world_def]]]
  obtain r w' where "\<forall>fuel rounds. script_length (w_env w) < fuel \<longrightarrow> script_length (w_env w) < rounds \<longrightarrow>
      drive scripted_host hnd fuel rounds w = (r, w')" and over: "r = Inr () \<or> (\<exists>err. r = Inl (Raise err))" "is_idle w'"
    by blast
  then have "drive scripted_host hnd 5 5 w = (r, w')" by (simp add: small)
  with start(1) over show ?thesis by blast
qed

end
