(* ===== verification/Std.thy ===== *)
theory Std
  imports Prelude "HOL-Library.List_Lexorder" "HOL-Library.Char_ord"
begin

text \<open>
  What several components use of Rust's standard library: B-tree maps keyed by strings, decimal text and joining lines.
  \<open>BTreeMap<String, V>\<close> as the list of its entries in key order: iteration is the list, \<open>get\<close> is \<open>map_of\<close>,
  and insertion keeps the order. Rust compares strings by their bytes, which is the lexicographic order
  of the character codes.
\<close>

type_synonym 'v btree = "(string \<times> 'v) list"

fun btree_insert :: "string \<Rightarrow> 'v \<Rightarrow> 'v btree \<Rightarrow> 'v btree" where
  "btree_insert k v [] = [(k, v)]"
| "btree_insert k v ((k', v') # es) =
     (if k < k' then (k, v) # (k', v') # es
      else if k = k' then (k, v) # es
      else (k', v') # btree_insert k v es)"

definition btree_ok :: "'v btree \<Rightarrow> bool" where
  "btree_ok es \<longleftrightarrow> sorted_wrt (<) (map fst es)"

abbreviation btree_get :: "'v btree \<Rightarrow> string \<Rightarrow> 'v option" where
  "btree_get \<equiv> map_of"

definition btree_collect :: "(string \<times> 'v) list \<Rightarrow> 'v btree" where
  "btree_collect kvs = fold (\<lambda>(k, v). btree_insert k v) kvs []"

lemma keys_insert: "set (map fst (btree_insert k v es)) = insert k (set (map fst es))"
  by (induction k v es rule: btree_insert.induct) auto

lemma btree_ok_insert: "btree_ok es \<Longrightarrow> btree_ok (btree_insert k v es)"
proof (induction k v es rule: btree_insert.induct)
  case (2 k v k' v' es)
  have "\<forall>x \<in> set (map fst (btree_insert k v es)). k' < x" if "k' < k"
    using 2(2) that unfolding keys_insert by (simp add: btree_ok_def)
  moreover have "k' < k" if "\<not> k < k'" "k \<noteq> k'" using that by simp
  ultimately show ?case using 2 by (auto simp: btree_ok_def dest: order.strict_trans)
qed (simp add: btree_ok_def)

lemma btree_get_insert: "btree_ok es \<Longrightarrow> btree_get (btree_insert k v es) = (btree_get es)(k \<mapsto> v)"
proof (induction k v es rule: btree_insert.induct)
  case (2 k v k' v' es)
  have "k \<notin> fst ` set es" if "k < k'" using 2(2) that by (fastforce simp: btree_ok_def)
  then show ?case using 2 by (auto simp: btree_ok_def fun_eq_iff dest: order.strict_trans)
qed simp

lemma btree_distinct: "btree_ok es \<Longrightarrow> distinct (map fst es)"
  unfolding btree_ok_def by (rule strict_sorted_iff [THEN iffD1, THEN conjunct2])

text \<open>Two maps in key order with the same contents are the same list.\<close>

lemma entries_of_map: "distinct (map fst es) \<Longrightarrow> map (\<lambda>k. (k, the (map_of es k))) (map fst es) = es"
  unfolding map_map by (rule map_idI) auto

lemma btree_ext:
  assumes "btree_ok es" and "btree_ok fs" and "btree_get es = btree_get fs"
  shows "es = fs"
proof -
  have "dom (map_of es) = dom (map_of fs)" using assms(3) by simp
  then have "set (map fst es) = set (map fst fs)" by (simp add: dom_map_of_conv_image_fst)
  then have "map fst es = map fst fs"
    using assms(1,2) unfolding btree_ok_def by (intro strict_sorted_equal)
  then show ?thesis
    using entries_of_map [OF btree_distinct [OF assms(1)]] entries_of_map [OF btree_distinct [OF assms(2)]] assms(3)
    by metis
qed

text \<open>\<open>to_string\<close> of an unsigned integer.\<close>

definition digit_char :: "nat \<Rightarrow> char" where
  "digit_char d = char_of (48 + d)"

fun decimal_text :: "nat \<Rightarrow> string" where
  "decimal_text n = (if n < 10 then [digit_char n] else decimal_text (n div 10) @ [digit_char (n mod 10)])"

declare decimal_text.simps [simp del]

text \<open>Lines joined by line breaks.\<close>

fun join_lines :: "string list \<Rightarrow> string" where
  "join_lines [] = []"
| "join_lines [l] = l"
| "join_lines (l # ls) = l @ CHR 0x0A # join_lines ls"

end
