(* ===== verification/Trace.thy ===== *)
theory Trace
  imports Std
begin

text \<open>
  \<open>tea-trace\<close>: the records of an episode (\<open>event.rs\<close>), the sinks that receive them (\<open>sink.rs\<close>,
  \<open>redaction.rs\<close>), and the two wire encodings, JSON Lines and a CBOR sequence (\<open>encoding/\<close>). The crate only
  writes; what a reader makes of its output is specified by a reader for each format.
\<close>

section \<open>Records\<close>

type_synonym turn_index = u32

record episode_header =
  eh_id :: string
  eh_metadata :: "string btree"
  eh_started :: "u64 option"

definition episode_header_new :: "string \<Rightarrow> episode_header" where
  "episode_header_new i = \<lparr>eh_id = i, eh_metadata = [], eh_started = None\<rparr>"

definition with_metadata :: "episode_header \<Rightarrow> string \<Rightarrow> string \<Rightarrow> episode_header" where
  "with_metadata e key v = e\<lparr>eh_metadata := btree_insert key v (eh_metadata e)\<rparr>"

definition with_started_at_ms :: "episode_header \<Rightarrow> u64 \<Rightarrow> episode_header" where
  "with_started_at_ms e t = e\<lparr>eh_started := Some t\<rparr>"

record trace_turn =
  tt_index :: turn_index
  tt_input :: string
  tt_output :: "string option"
  tt_stop_reason :: "string option"

definition trace_turn_new :: "turn_index \<Rightarrow> string \<Rightarrow> trace_turn" where
  "trace_turn_new i input = \<lparr>tt_index = i, tt_input = input, tt_output = None, tt_stop_reason = None\<rparr>"

definition turn_with_output :: "trace_turn \<Rightarrow> string \<Rightarrow> trace_turn" where
  "turn_with_output t output = t\<lparr>tt_output := Some output\<rparr>"

definition turn_with_stop_reason :: "trace_turn \<Rightarrow> string \<Rightarrow> trace_turn" where
  "turn_with_stop_reason t reason = t\<lparr>tt_stop_reason := Some reason\<rparr>"

record trace_tool =
  to_turn :: turn_index
  to_call :: string
  to_name :: string
  to_input :: string
  to_output :: "string option"
  to_error :: "string option"

definition trace_tool_new :: "turn_index \<Rightarrow> string \<Rightarrow> string \<Rightarrow> string \<Rightarrow> trace_tool" where
  "trace_tool_new i call name input =
     \<lparr>to_turn = i, to_call = call, to_name = name, to_input = input, to_output = None, to_error = None\<rparr>"

definition tool_with_output :: "trace_tool \<Rightarrow> string \<Rightarrow> trace_tool" where
  "tool_with_output t output = t\<lparr>to_output := Some output, to_error := None\<rparr>"

definition tool_with_error :: "trace_tool \<Rightarrow> string \<Rightarrow> trace_tool" where
  "tool_with_error t err = t\<lparr>to_error := Some err, to_output := None\<rparr>"

definition is_failure :: "trace_tool \<Rightarrow> bool" where
  "is_failure t \<longleftrightarrow> to_error t \<noteq> None"

datatype end_reason = EndCompleted | EndCancelled | EndFailed | EndAborted | EndOther string

record episode_end =
  ee_reason :: end_reason
  ee_error :: "string option"
  ee_finished :: "u64 option"

definition episode_end_completed :: episode_end where
  "episode_end_completed = \<lparr>ee_reason = EndCompleted, ee_error = None, ee_finished = None\<rparr>"

definition episode_end_cancelled :: episode_end where
  "episode_end_cancelled = episode_end_completed\<lparr>ee_reason := EndCancelled\<rparr>"

definition episode_end_failed :: "string \<Rightarrow> episode_end" where
  "episode_end_failed err = episode_end_completed\<lparr>ee_reason := EndFailed, ee_error := Some err\<rparr>"

definition end_with_finished :: "episode_end \<Rightarrow> u64 \<Rightarrow> episode_end" where
  "end_with_finished e t = e\<lparr>ee_finished := Some t\<rparr>"

datatype trace_event =
  HeaderEvent episode_header
| TurnEvent trace_turn
| ToolEvent trace_tool
| EndEvent episode_end

datatype trace_event_kind = HeaderKind | TurnKind | ToolKind | EndKind

fun trace_kind :: "trace_event \<Rightarrow> trace_event_kind" where
  "trace_kind (HeaderEvent e) = HeaderKind"
| "trace_kind (TurnEvent t) = TurnKind"
| "trace_kind (ToolEvent t) = ToolKind"
| "trace_kind (EndEvent e) = EndKind"

fun is_terminal_event :: "trace_event \<Rightarrow> bool" where
  "is_terminal_event (EndEvent e) \<longleftrightarrow> True"
| "is_terminal_event ev \<longleftrightarrow> False"

section \<open>Sinks\<close>

text \<open>An append of a sink: its result and the sink afterwards.\<close>

type_synonym ('s, 'err) sink = "trace_event \<Rightarrow> 's \<Rightarrow> ('err + unit) \<times> 's"

definition noop_append :: "(unit, 'err) sink" where
  "noop_append ev s = (Inr (), s)"

definition vec_append :: "(trace_event list, 'err) sink" where
  "vec_append ev s = (Inr (), s @ [ev])"

record 's isolated_sink =
  is_inner :: 's
  is_failed :: u64

definition isolated_new :: "'s \<Rightarrow> 's isolated_sink" where
  "isolated_new s = \<lparr>is_inner = s, is_failed = 0\<rparr>"

definition isolated_append :: "('s, 'err) sink \<Rightarrow> ('s isolated_sink, 'f) sink" where
  "isolated_append inner_append ev s =
     (case inner_append ev (is_inner s) of
        (Inl err, inner) \<Rightarrow> (Inr (), s\<lparr>is_inner := inner, is_failed := sat_add (is_failed s) 1\<rparr>)
      | (Inr _, inner) \<Rightarrow> (Inr (), s\<lparr>is_inner := inner\<rparr>))"

definition redacting_append :: "(trace_event \<Rightarrow> trace_event) \<Rightarrow> ('s, 'err) sink \<Rightarrow> ('s, 'err) sink" where
  "redacting_append redact inner_append ev s = inner_append (redact ev) s"

text \<open>Handing events to a sink one after the other; a failed append does not stop the next one.\<close>

fun append_all :: "('s, 'err) sink \<Rightarrow> trace_event list \<Rightarrow> 's \<Rightarrow> ('err + unit) list \<times> 's" where
  "append_all ap [] s = ([], s)"
| "append_all ap (ev # evs) s =
     (let (r, s) = ap ev s; (rs, s) = append_all ap evs s in (r # rs, s))"

definition failures :: "('err + unit) list \<Rightarrow> nat" where
  "failures rs = length (filter (\<lambda>r. r \<noteq> Inr ()) rs)"

text \<open>A count held in a \<open>u64\<close> that saturates.\<close>

definition count_word :: "nat \<Rightarrow> u64" where
  "count_word n = word_of_nat (min n (2 ^ 64 - 1))"

lemma count_word_Suc: "sat_add (sat_add c 1) (count_word n) = sat_add c (count_word (Suc n))"
  unfolding word_eq_unat unat_sat_add by (simp add: count_word_def unat_of_nat min_def)

lemma count_word_0: "sat_add c (count_word 0) = c"
proof -
  have "unat c < 2 ^ LENGTH(64)" by (rule unsigned_less)
  then show ?thesis by (simp add: count_word_def sat_add_def)
qed

lemma isolated_all:
  fixes ap :: "('s, 'err) sink"
  shows "append_all (isolated_append ap :: ('s isolated_sink, 'f) sink) evs s =
     (replicate (length evs) (Inr ()),
      \<lparr>is_inner = snd (append_all ap evs (is_inner s)),
       is_failed = sat_add (is_failed s) (count_word (failures (fst (append_all ap evs (is_inner s)))))\<rparr>)"
proof (induction evs arbitrary: s)
  case Nil
  show ?case by (cases s) (simp add: failures_def count_word_0)
next
  case (Cons ev evs)
  obtain r inner where ap: "ap ev (is_inner s) = (r, inner)" by fastforce
  obtain rs final where rest: "append_all ap evs inner = (rs, final)" by fastforce
  have "failures (Inl err # rs) = Suc (failures rs)" "failures (Inr () # rs) = failures rs" for err
    by (simp_all add: failures_def)
  moreover have "(isolated_append ap ev s :: ('f + unit) \<times> _) = (Inr (), case r of
      Inl err \<Rightarrow> s\<lparr>is_inner := inner, is_failed := sat_add (is_failed s) 1\<rparr> | Inr _ \<Rightarrow> s\<lparr>is_inner := inner\<rparr>)"
    by (simp add: isolated_append_def ap split: sum.split)
  ultimately show ?case
    by (cases r) (simp_all add: Cons.IH ap rest count_word_Suc)
qed

lemma redacting_all: "append_all (redacting_append redact ap) evs s = append_all ap (map redact evs) s"
  by (induction evs arbitrary: s) (simp_all add: redacting_append_def)

section \<open>Properties\<close>

text \<open>An isolated sink around a redacting one never fails. The wrapped sink is in the state it
  would have alone, having seen each record once, in order and redacted, and the failure count is the
  number of records it refused, saturating at the largest 64-bit value.\<close>

theorem isolated_sink_transparent:
  fixes ap :: "('s, 'err) sink"
  shows "append_all (isolated_append (redacting_append redact ap) :: ('s isolated_sink, 'f) sink) evs (isolated_new s) =
     (replicate (length evs) (Inr ()),
      \<lparr>is_inner = snd (append_all ap (map redact evs) s),
       is_failed = word_of_nat (min (failures (fst (append_all ap (map redact evs) s))) (2 ^ 64 - 1))\<rparr>)"
proof -
  have "sat_add 0 (count_word n) = count_word n" for n
    by (simp add: sat_add_def count_word_def unat_of_nat min_def)
  then show ?thesis unfolding isolated_all redacting_all by (simp add: isolated_new_def count_word_def)
qed

end
