(* ===== verification/Trace_Encoding.thy ===== *)
theory Trace_Encoding
  imports Trace
begin

text \<open>
  The two wire encodings of trace records (\<open>tea-trace/src/encoding/\<close>): JSON Lines and a sequence of CBOR
  maps. Output is the bytes appended. JSON escapes go by character; only ASCII characters are escaped,
  so escaping the bytes of the UTF-8 text one by one writes the same.
\<close>

unbundle bit_operations_syntax

section \<open>Names\<close>

definition trace_schema_version :: "16 word" where
  "trace_schema_version = 0"

fun event_type :: "trace_event \<Rightarrow> string" where
  "event_type (HeaderEvent e) = ''episode_header''"
| "event_type (TurnEvent t) = ''turn''"
| "event_type (ToolEvent t) = ''tool''"
| "event_type (EndEvent e) = ''episode_end''"

fun end_reason_name :: "end_reason \<Rightarrow> string" where
  "end_reason_name EndCompleted = ''completed''"
| "end_reason_name EndCancelled = ''cancelled''"
| "end_reason_name EndFailed = ''failed''"
| "end_reason_name EndAborted = ''aborted''"
| "end_reason_name (EndOther s) = s"

section \<open>JSON\<close>

text \<open>The digits of \<open>{:04x}\<close>.\<close>

definition hex_char :: "nat \<Rightarrow> char" where
  "hex_char d = (if d < 10 then char_of (48 + d) else char_of (87 + d))"

definition json_char :: "char \<Rightarrow> string" where
  "json_char c =
     (if c = CHR 0x22 then [CHR 0x5C, CHR 0x22]
      else if c = CHR 0x5C then [CHR 0x5C, CHR 0x5C]
      else if c = CHR 0x08 then [CHR 0x5C, CHR ''b'']
      else if c = CHR 0x0C then [CHR 0x5C, CHR ''f'']
      else if c = CHR 0x0A then [CHR 0x5C, CHR ''n'']
      else if c = CHR 0x0D then [CHR 0x5C, CHR ''r'']
      else if c = CHR 0x09 then [CHR 0x5C, CHR ''t'']
      else if of_char c \<le> (0x1F :: nat)
      then [CHR 0x5C, CHR ''u'', CHR ''0'', CHR ''0'', hex_char (of_char c div 16), hex_char (of_char c mod 16)]
      else [c])"

definition json_string :: "string \<Rightarrow> string" where
  "json_string s = [CHR 0x22] @ concat (map json_char s) @ [CHR 0x22]"

definition json_field_name :: "string \<Rightarrow> string" where
  "json_field_name name = json_string name @ '':''"

definition json_field_string :: "string \<Rightarrow> string \<Rightarrow> string" where
  "json_field_string name v = json_field_name name @ json_string v"

definition json_field_optional_string :: "string \<Rightarrow> string option \<Rightarrow> string" where
  "json_field_optional_string name v = json_field_name name @ (case v of Some s \<Rightarrow> json_string s | None \<Rightarrow> ''null'')"

definition json_field_optional_number :: "string \<Rightarrow> u64 option \<Rightarrow> string" where
  "json_field_optional_number name v =
     json_field_name name @ (case v of Some n \<Rightarrow> decimal_text (unat n) | None \<Rightarrow> ''null'')"

fun json_map_from :: "nat \<Rightarrow> string btree \<Rightarrow> string" where
  "json_map_from index [] = []"
| "json_map_from index ((k, v) # es) =
     (if 0 < index then '','' else []) @ json_field_string k v @ json_map_from (Suc index) es"

definition json_map :: "string btree \<Rightarrow> string" where
  "json_map es = ''{'' @ json_map_from 0 es @ ''}''"

definition write_json_header :: "episode_header \<Rightarrow> string" where
  "write_json_header e =
     '','' @ json_field_string ''episode_id'' (eh_id e) @
     '','' @ json_field_name ''metadata'' @ json_map (eh_metadata e) @
     '','' @ json_field_optional_number ''started_at_ms'' (eh_started e)"

definition write_json_turn :: "trace_turn \<Rightarrow> string" where
  "write_json_turn t =
     '','' @ json_field_name ''index'' @ decimal_text (unat (tt_index t)) @
     '','' @ json_field_string ''input'' (tt_input t) @
     '','' @ json_field_optional_string ''output'' (tt_output t) @
     '','' @ json_field_optional_string ''stop_reason'' (tt_stop_reason t)"

definition write_json_tool :: "trace_tool \<Rightarrow> string" where
  "write_json_tool t =
     '','' @ json_field_name ''turn_index'' @ decimal_text (unat (to_turn t)) @
     '','' @ json_field_string ''call_id'' (to_call t) @
     '','' @ json_field_string ''name'' (to_name t) @
     '','' @ json_field_string ''input'' (to_input t) @
     '','' @ json_field_optional_string ''output'' (to_output t) @
     '','' @ json_field_optional_string ''error'' (to_error t)"

definition write_json_end :: "episode_end \<Rightarrow> string" where
  "write_json_end e =
     '','' @ json_field_string ''reason'' (end_reason_name (ee_reason e)) @
     '','' @ json_field_optional_string ''error'' (ee_error e) @
     '','' @ json_field_optional_number ''finished_at_ms'' (ee_finished e)"

definition write_json_event :: "trace_event \<Rightarrow> string" where
  "write_json_event ev =
     ''{'' @ json_field_name ''schema_version'' @ decimal_text (unat trace_schema_version) @
     '','' @ json_field_name ''type'' @ json_string (event_type ev) @
     (case ev of
        HeaderEvent e \<Rightarrow> write_json_header e
      | TurnEvent t \<Rightarrow> write_json_turn t
      | ToolEvent t \<Rightarrow> write_json_tool t
      | EndEvent e \<Rightarrow> write_json_end e) @
     ''}''"

text \<open>\<open>JsonLinesSink\<close> on a writer that takes every byte.\<close>

definition json_lines_append :: "(string, 'err) sink" where
  "json_lines_append ev out = (Inr (), out @ write_json_event ev @ [CHR 0x0A])"

section \<open>CBOR\<close>

text \<open>\<open>to_be_bytes\<close>, for a word of \<open>k\<close> bytes.\<close>

definition be_bytes :: "nat \<Rightarrow> 'a::len word \<Rightarrow> u8 list" where
  "be_bytes k v = map (\<lambda>j. ucast (drop_bit (8 * j) v)) (rev [0..<k])"

definition cbor_major_length :: "u8 \<Rightarrow> u64 \<Rightarrow> u8 list" where
  "cbor_major_length major v =
     (if v \<le> 23 then [push_bit 5 major OR ucast v]
      else if v \<le> 255 then [push_bit 5 major OR 24, ucast v]
      else if v \<le> 65535 then [push_bit 5 major OR 25] @ be_bytes 2 (ucast v :: 16 word)
      else if v \<le> 4294967295 then [push_bit 5 major OR 26] @ be_bytes 4 (ucast v :: 32 word)
      else [push_bit 5 major OR 27] @ be_bytes 8 v)"

definition cbor_unsigned :: "u64 \<Rightarrow> u8 list" where
  "cbor_unsigned v = cbor_major_length 0 v"

definition cbor_text :: "string \<Rightarrow> u8 list" where
  "cbor_text s = cbor_major_length 3 (word_of_nat (length s)) @ map (\<lambda>c. word_of_nat (of_char c)) s"

definition cbor_map :: "nat \<Rightarrow> u8 list" where
  "cbor_map n = cbor_major_length 5 (word_of_nat n)"

definition cbor_optional_text :: "string option \<Rightarrow> u8 list" where
  "cbor_optional_text v = (case v of Some s \<Rightarrow> cbor_text s | None \<Rightarrow> [0xf6])"

definition cbor_optional_unsigned :: "u64 option \<Rightarrow> u8 list" where
  "cbor_optional_unsigned v = (case v of Some n \<Rightarrow> cbor_unsigned n | None \<Rightarrow> [0xf6])"

definition write_cbor_header :: "episode_header \<Rightarrow> u8 list" where
  "write_cbor_header e =
     cbor_text ''episode_id'' @ cbor_text (eh_id e) @
     cbor_text ''metadata'' @ cbor_map (length (eh_metadata e)) @
     concat (map (\<lambda>(k, v). cbor_text k @ cbor_text v) (eh_metadata e)) @
     cbor_text ''started_at_ms'' @ cbor_optional_unsigned (eh_started e)"

definition write_cbor_turn :: "trace_turn \<Rightarrow> u8 list" where
  "write_cbor_turn t =
     cbor_text ''index'' @ cbor_unsigned (ucast (tt_index t)) @
     cbor_text ''input'' @ cbor_text (tt_input t) @
     cbor_text ''output'' @ cbor_optional_text (tt_output t) @
     cbor_text ''stop_reason'' @ cbor_optional_text (tt_stop_reason t)"

definition write_cbor_tool :: "trace_tool \<Rightarrow> u8 list" where
  "write_cbor_tool t =
     cbor_text ''turn_index'' @ cbor_unsigned (ucast (to_turn t)) @
     cbor_text ''call_id'' @ cbor_text (to_call t) @
     cbor_text ''name'' @ cbor_text (to_name t) @
     cbor_text ''input'' @ cbor_text (to_input t) @
     cbor_text ''output'' @ cbor_optional_text (to_output t) @
     cbor_text ''error'' @ cbor_optional_text (to_error t)"

definition write_cbor_end :: "episode_end \<Rightarrow> u8 list" where
  "write_cbor_end e =
     cbor_text ''reason'' @ cbor_text (end_reason_name (ee_reason e)) @
     cbor_text ''error'' @ cbor_optional_text (ee_error e) @
     cbor_text ''finished_at_ms'' @ cbor_optional_unsigned (ee_finished e)"

fun cbor_field_count :: "trace_event \<Rightarrow> nat" where
  "cbor_field_count (HeaderEvent e) = 5"
| "cbor_field_count (TurnEvent t) = 6"
| "cbor_field_count (EndEvent e) = 5"
| "cbor_field_count (ToolEvent t) = 8"

definition write_cbor_event :: "trace_event \<Rightarrow> u8 list" where
  "write_cbor_event ev =
     cbor_map (cbor_field_count ev) @
     cbor_text ''schema_version'' @ cbor_unsigned (ucast trace_schema_version) @
     cbor_text ''type'' @ cbor_text (event_type ev) @
     (case ev of
        HeaderEvent e \<Rightarrow> write_cbor_header e
      | TurnEvent t \<Rightarrow> write_cbor_turn t
      | ToolEvent t \<Rightarrow> write_cbor_tool t
      | EndEvent e \<Rightarrow> write_cbor_end e)"

definition cbor_append :: "(u8 list, 'err) sink" where
  "cbor_append ev out = (Inr (), out @ write_cbor_event ev)"

section \<open>What the encodings mean\<close>

text \<open>
  A record is a map from field names to nulls, numbers, texts and, for the metadata, a map. Both
  formats are readings of the same map.
\<close>

datatype wire = WNull | WNumber nat | WText string | WMap "(string \<times> wire) list"

definition wire_text :: "string option \<Rightarrow> wire" where
  "wire_text v = (case v of Some s \<Rightarrow> WText s | None \<Rightarrow> WNull)"

definition wire_number :: "u64 option \<Rightarrow> wire" where
  "wire_number v = (case v of Some n \<Rightarrow> WNumber (unat n) | None \<Rightarrow> WNull)"

fun wire_payload :: "trace_event \<Rightarrow> (string \<times> wire) list" where
  "wire_payload (HeaderEvent e) =
     [(''episode_id'', WText (eh_id e)), (''metadata'', WMap (map (\<lambda>(k, v). (k, WText v)) (eh_metadata e))),
      (''started_at_ms'', wire_number (eh_started e))]"
| "wire_payload (TurnEvent t) =
     [(''index'', WNumber (unat (tt_index t))), (''input'', WText (tt_input t)), (''output'', wire_text (tt_output t)),
      (''stop_reason'', wire_text (tt_stop_reason t))]"
| "wire_payload (ToolEvent t) =
     [(''turn_index'', WNumber (unat (to_turn t))), (''call_id'', WText (to_call t)), (''name'', WText (to_name t)),
      (''input'', WText (to_input t)), (''output'', wire_text (to_output t)), (''error'', wire_text (to_error t))]"
| "wire_payload (EndEvent e) =
     [(''reason'', WText (end_reason_name (ee_reason e))), (''error'', wire_text (ee_error e)),
      (''finished_at_ms'', wire_number (ee_finished e))]"

definition wire_of :: "trace_event \<Rightarrow> wire" where
  "wire_of ev = WMap ([(''schema_version'', WNumber 0), (''type'', WText (event_type ev))] @ wire_payload ev)"

subsection \<open>Writers of the two formats\<close>

fun print_json :: "wire \<Rightarrow> string" and print_fields :: "bool \<Rightarrow> (string \<times> wire) list \<Rightarrow> string" where
  "print_json WNull = ''null''"
| "print_json (WNumber n) = decimal_text n"
| "print_json (WText s) = json_string s"
| "print_json (WMap fs) = ''{'' @ print_fields True fs @ ''}''"
| "print_fields first [] = []"
| "print_fields first ((k, v) # fs) =
     (if first then [] else '','') @ json_field_name k @ print_json v @ print_fields False fs"

fun print_cbor :: "wire \<Rightarrow> u8 list" and print_entries :: "(string \<times> wire) list \<Rightarrow> u8 list" where
  "print_cbor WNull = [0xf6]"
| "print_cbor (WNumber n) = cbor_unsigned (word_of_nat n)"
| "print_cbor (WText s) = cbor_text s"
| "print_cbor (WMap fs) = cbor_map (length fs) @ print_entries fs"
| "print_entries [] = []"
| "print_entries ((k, v) # fs) = cbor_text k @ print_cbor v @ print_entries fs"

lemma json_map_fields:
  "json_map_from n es = print_fields (n = 0) (map (\<lambda>(k, v). (k, WText v)) es)"
  by (induction n es rule: json_map_from.induct) (auto simp: json_field_string_def)

lemma print_wire_option:
  "print_json (wire_text v) = (case v of Some s \<Rightarrow> json_string s | None \<Rightarrow> ''null'')"
  "print_json (wire_number n) = (case n of Some m \<Rightarrow> decimal_text (unat m) | None \<Rightarrow> ''null'')"
  "print_cbor (wire_text v) = cbor_optional_text v" "print_cbor (wire_number n) = cbor_optional_unsigned n"
  by (simp_all add: wire_text_def wire_number_def cbor_optional_text_def cbor_optional_unsigned_def split: option.splits)

lemma write_json_wire: "write_json_event ev = print_json (wire_of ev)"
  by (cases ev) (simp_all add: write_json_event_def wire_of_def write_json_header_def write_json_turn_def
      write_json_tool_def write_json_end_def trace_schema_version_def json_field_string_def json_map_def json_map_fields
      json_field_optional_string_def json_field_optional_number_def print_wire_option)

lemma cbor_metadata: "concat (map (\<lambda>(k, v). cbor_text k @ cbor_text v) es) = print_entries (map (\<lambda>(k, v). (k, WText v)) es)"
  by (induction es) auto

lemma write_cbor_wire: "write_cbor_event ev = print_cbor (wire_of ev)"
  by (cases ev) (simp_all add: write_cbor_event_def wire_of_def write_cbor_header_def write_cbor_turn_def
      write_cbor_tool_def write_cbor_end_def trace_schema_version_def print_wire_option cbor_metadata
      numeral_eq_Suc)

subsection \<open>A reader of CBOR\<close>

definition be_value :: "u8 list \<Rightarrow> nat" where
  "be_value bs = foldl (\<lambda>n b. 256 * n + unat b) 0 bs"

text \<open>The head of an item: its major type, its value, and what follows (RFC 8949, section 3).\<close>

definition read_head :: "u8 list \<Rightarrow> (nat \<times> nat \<times> u8 list) option" where
  "read_head bs = (case bs of
       [] \<Rightarrow> None
     | b # bs \<Rightarrow>
         let major = unat b div 32; info = unat b mod 32
         in if info < 24 then Some (major, info, bs)
            else if info < 28
            then let k = 2 ^ (info - 24)
              in if k \<le> length bs then Some (major, be_value (take k bs), drop k bs) else None
            else None)"

definition read_text :: "u8 list \<Rightarrow> (string \<times> u8 list) option" where
  "read_text bs = (case read_head bs of
       Some (major, n, bs) \<Rightarrow>
         if major = 3 \<and> n \<le> length bs then Some (map (\<lambda>b. char_of (unat b)) (take n bs), drop n bs) else None
     | None \<Rightarrow> None)"

fun read_cbor :: "nat \<Rightarrow> u8 list \<Rightarrow> (wire \<times> u8 list) option"
  and read_entries :: "nat \<Rightarrow> nat \<Rightarrow> u8 list \<Rightarrow> ((string \<times> wire) list \<times> u8 list) option" where
  "read_cbor 0 bs = None"
| "read_cbor (Suc fuel) bs =
     (case read_head bs of
        None \<Rightarrow> None
      | Some (major, n, rest) \<Rightarrow>
          if major = 0 then Some (WNumber n, rest)
          else if major = 3 then map_option (\<lambda>(s, rest). (WText s, rest)) (read_text bs)
          else if major = 5 then map_option (\<lambda>(fs, rest). (WMap fs, rest)) (read_entries fuel n rest)
          else if major = 7 \<and> n = 22 then Some (WNull, rest) else None)"
| "read_entries fuel 0 bs = Some ([], bs)"
| "read_entries 0 (Suc n) bs = None"
| "read_entries (Suc fuel) (Suc n) bs =
     (case read_text bs of
        None \<Rightarrow> None
      | Some (k, bs) \<Rightarrow>
          (case read_cbor fuel bs of
             None \<Rightarrow> None
           | Some (v, bs) \<Rightarrow> map_option (\<lambda>(fs, bs). ((k, v) # fs, bs)) (read_entries fuel n bs)))"

fun wire_fuel :: "wire \<Rightarrow> nat" and fields_fuel :: "(string \<times> wire) list \<Rightarrow> nat" where
  "wire_fuel WNull = 1"
| "wire_fuel (WNumber n) = 1"
| "wire_fuel (WText s) = 1"
| "wire_fuel (WMap fs) = Suc (fields_fuel fs)"
| "fields_fuel [] = 1"
| "fields_fuel ((k, v) # fs) = Suc (max (wire_fuel v) (fields_fuel fs))"

text \<open>What fits the eight bytes of a length.\<close>

fun wire_fits :: "wire \<Rightarrow> bool" and fields_fit :: "(string \<times> wire) list \<Rightarrow> bool" where
  "wire_fits WNull = True"
| "wire_fits (WNumber n) = (n < 2 ^ 64)"
| "wire_fits (WText s) = (length s < 2 ^ 64)"
| "wire_fits (WMap fs) = (length fs < 2 ^ 64 \<and> fields_fit fs)"
| "fields_fit [] = True"
| "fields_fit ((k, v) # fs) = (length k < 2 ^ 64 \<and> wire_fits v \<and> fields_fit fs)"

lemma be_value_bytes_from:
  "foldl (\<lambda>n b. 256 * n + unat b) a (be_bytes k v) = a * 256 ^ k + unat v mod 256 ^ k" for v :: "'a::len word"
proof (induction k arbitrary: a)
  case 0
  then show ?case by (simp add: be_bytes_def)
next
  case (Suc k)
  have byte: "unat (ucast (drop_bit (8 * k) v) :: u8) = unat v div 256 ^ k mod 256"
  proof -
    have "unat (drop_bit (8 * k) v) = unat v div 256 ^ k"
      by (subst unat_drop_bit_eq) (simp add: drop_bit_eq_div power_mult)
    then show ?thesis by (simp add: unsigned_ucast_eq take_bit_eq_mod)
  qed
  have bytes: "be_bytes (Suc k) v = ucast (drop_bit (8 * k) v) # be_bytes k v" by (simp add: be_bytes_def)
  have "unat v mod 256 ^ Suc k = 256 ^ k * (unat v div 256 ^ k mod 256) + unat v mod 256 ^ k"
    by (metis mod_mult2_eq power_Suc2)
  moreover have "foldl (\<lambda>n b. 256 * n + unat b) a (be_bytes (Suc k) v) =
      (256 * a + unat v div 256 ^ k mod 256) * 256 ^ k + unat v mod 256 ^ k"
    unfolding bytes foldl.simps byte by (rule Suc.IH)
  ultimately show ?case by (simp add: algebra_simps)
qed

lemma be_value_bytes: "unat v < 256 ^ k \<Longrightarrow> be_value (be_bytes k v) = unat v"
  using be_value_bytes_from [of 0 k v] by (simp add: be_value_def)

lemma length_be_bytes [simp]: "length (be_bytes k v) = k"
  by (simp add: be_bytes_def)

lemma initial_byte:
  fixes major info :: u8
  assumes "major \<le> 7" and "info < 32"
  shows "unat (push_bit 5 major OR info) = 32 * unat major + unat info"
proof -
  have small: "unat major \<le> 7" "unat info < 32" using assms by (simp_all add: word_le_nat_alt word_less_nat_alt)
  have "info = take_bit 5 info"
    using small(2) by (simp add: take_bit_eq_mod word_eq_unat unat_mod)
  then have "\<not> bit (push_bit 5 major) n \<or> \<not> bit info n" for n
    by (metis bit_push_bit_iff bit_take_bit_iff leD)
  then have "push_bit 5 major OR info = push_bit 5 major + info" by (rule disjunctive_add [symmetric])
  also have "unat (push_bit 5 major + info) = 32 * unat major + unat info"
    using small by (simp add: push_bit_eq_mult unat_word_ariths)
  finally show ?thesis .
qed

lemma read_head_major:
  assumes "major \<le> 7"
  shows "read_head (cbor_major_length major v @ rest) = Some (unat major, unat v, rest)"
proof -
  have long: "read_head ((push_bit 5 major OR info) # be_bytes k x @ rest) = Some (unat major, unat x, rest)"
    if "info < 32" "24 \<le> unat info" "unat info < 28" "k = 2 ^ (unat info - 24)" "unat x < 256 ^ k"
    for info :: u8 and k and x :: "'a::len word"
    using that initial_byte [OF assms that(1)] be_value_bytes [OF that(5)] by (simp add: read_head_def)
  have small: "unat (ucast v :: 'b::len word) = unat v" if "unat v < 2 ^ LENGTH('b)"
    using that by (simp add: unsigned_ucast_eq take_bit_eq_mod)
  consider "v \<le> 23" | "23 < v" "v \<le> 255" | "255 < v" "v \<le> 65535" | "65535 < v" "v \<le> 4294967295" | "4294967295 < v"
    by fastforce
  then show ?thesis
  proof cases
    case 1
    then have v: "unat v \<le> 23" by (simp add: word_le_nat_alt)
    then have "unat (ucast v :: u8) = unat v" by (intro small) simp
    moreover from this have "(ucast v :: u8) < 32" using v by (simp add: word_less_nat_alt)
    ultimately show ?thesis
      using 1 v initial_byte [OF assms, of "ucast v"] by (simp add: cbor_major_length_def read_head_def)
  next
    case 2
    then have "unat (ucast v :: u8) = unat v" by (intro small) (simp add: word_le_nat_alt)
    then show ?thesis
      using 2 long [of 24 1 "ucast v :: u8"] by (auto simp: cbor_major_length_def be_bytes_def word_le_nat_alt word_less_nat_alt)
  next
    case 3
    then have v: "unat v < 65536" "\<not> v \<le> 23" "\<not> v \<le> 255" by (simp_all add: word_le_nat_alt word_less_nat_alt)
    then have "unat (ucast v :: 16 word) = unat v" by (intro small) simp
    then have "read_head ((push_bit 5 major OR 25) # be_bytes 2 (ucast v :: 16 word) @ rest) = Some (unat major, unat v, rest)"
      using v(1) long [of 25 2 "ucast v :: 16 word"] by simp
    then show ?thesis unfolding cbor_major_length_def using 3 v(2,3) by (simp only: if_False if_True append.simps)
  next
    case 4
    then have v: "unat v < 4294967296" "\<not> v \<le> 23" "\<not> v \<le> 255" "\<not> v \<le> 65535"
      by (simp_all add: word_le_nat_alt word_less_nat_alt)
    then have "unat (ucast v :: 32 word) = unat v" by (intro small) simp
    moreover have "read_head ((push_bit 5 major OR 26) # be_bytes 4 (ucast v :: 32 word) @ rest) =
        Some (unat major, unat (ucast v :: 32 word), rest)"
    proof (rule long)
      show "unat (ucast v :: 32 word) < 256 ^ 4" using calculation v(1) by simp
    qed simp_all
    ultimately have "read_head ((push_bit 5 major OR 26) # be_bytes 4 (ucast v :: 32 word) @ rest) = Some (unat major, unat v, rest)"
      by metis
    then show ?thesis unfolding cbor_major_length_def using 4 v(2-) by (simp only: if_False if_True append.simps)
  next
    case 5
    then have v: "\<not> v \<le> 23" "\<not> v \<le> 255" "\<not> v \<le> 65535" "\<not> v \<le> 4294967295"
      by (simp_all add: word_le_nat_alt word_less_nat_alt)
    have bound: "unat v < 2 ^ LENGTH(64)" by (rule unsigned_less)
    have "read_head ((push_bit 5 major OR 27) # be_bytes 8 v @ rest) = Some (unat major, unat v, rest)"
    proof (rule long)
      show "unat v < 256 ^ 8" using bound by simp
    qed simp_all
    then show ?thesis unfolding cbor_major_length_def using v by (simp only: if_False if_True append.simps)
  qed
qed

lemma read_head_count: "major \<le> 7 \<Longrightarrow> n < 2 ^ 64 \<Longrightarrow> read_head (cbor_major_length major (word_of_nat n) @ rest) = Some (unat major, n, rest)"
  by (simp add: read_head_major unat_of_nat)

lemma read_head_text: "length s < 2 ^ 64 \<Longrightarrow>
    read_head (cbor_text s @ rest) = Some (3, length s, map (\<lambda>c. word_of_nat (of_char c)) s @ rest)"
  by (simp add: cbor_text_def read_head_count)

lemma read_text_cbor: "length s < 2 ^ 64 \<Longrightarrow> read_text (cbor_text s @ rest) = Some (s, rest)"
  by (simp add: read_text_def read_head_text unat_of_nat comp_def)

lemma read_cbor_print:
  "wire_fits w \<Longrightarrow> wire_fuel w \<le> fuel \<Longrightarrow> read_cbor fuel (print_cbor w @ rest) = Some (w, rest)"
  "fields_fit fs \<Longrightarrow> fields_fuel fs \<le> fuel \<Longrightarrow> read_entries fuel (length fs) (print_entries fs @ rest) = Some (fs, rest)"
proof (induction w and fs arbitrary: fuel rest and fuel rest rule: print_cbor_print_entries.induct)
  case 1
  then show ?case by (cases fuel) (simp_all add: read_head_def)
next
  case (2 n)
  then show ?case by (cases fuel) (simp_all add: cbor_unsigned_def read_head_count)
next
  case (3 s)
  then show ?case by (cases fuel) (simp_all add: read_text_cbor read_head_text)
next
  case (4 fs)
  then show ?case by (cases fuel) (simp_all add: cbor_map_def read_head_count)
next
  case 5
  then show ?case by (cases fuel) simp_all
next
  case (6 k v fs)
  then show ?case by (cases fuel) (simp_all add: read_text_cbor)
qed

subsection \<open>A reader of JSON\<close>

text \<open>The escapes of a JSON string; \<open>\u\<close> is read below 256, which is all the writer uses.\<close>

definition hex_value :: "char \<Rightarrow> nat option" where
  "hex_value c = (let n = of_char c
     in if 48 \<le> n \<and> n < 58 then Some (n - 48) else if 97 \<le> n \<and> n < 103 then Some (n - 87) else None)"

fun read_escape :: "string \<Rightarrow> (char \<times> string) option" where
  "read_escape [] = None"
| "read_escape (c # cs) =
     (if c = CHR 0x22 \<or> c = CHR 0x5C then Some (c, cs)
      else if c = CHR ''b'' then Some (CHR 0x08, cs)
      else if c = CHR ''f'' then Some (CHR 0x0C, cs)
      else if c = CHR ''n'' then Some (CHR 0x0A, cs)
      else if c = CHR ''r'' then Some (CHR 0x0D, cs)
      else if c = CHR ''t'' then Some (CHR 0x09, cs)
      else if c = CHR ''u'' then
        (case cs of
           z1 # z2 # h1 # h2 # cs \<Rightarrow>
             (case (hex_value h1, hex_value h2) of
                (Some a, Some b) \<Rightarrow>
                  if z1 = CHR ''0'' \<and> z2 = CHR ''0'' then Some (char_of (16 * a + b), cs) else None
              | _ \<Rightarrow> None)
         | _ \<Rightarrow> None)
      else None)"

lemma read_escape_shorter: "read_escape cs = Some (c, ds) \<Longrightarrow> length ds < length cs"
  by (cases cs) (auto split: if_splits list.splits option.splits)

function read_chars :: "string \<Rightarrow> (string \<times> string) option" where
  "read_chars [] = None"
| "read_chars (c # cs) =
     (if c = CHR 0x22 then Some ([], cs)
      else if c = CHR 0x5C then
        (case read_escape cs of
           None \<Rightarrow> None
         | Some (e, ds) \<Rightarrow> map_option (\<lambda>(s, r). (e # s, r)) (read_chars ds))
      else if of_char c \<le> (0x1F :: nat) then None
      else map_option (\<lambda>(s, r). (c # s, r)) (read_chars cs))"
  by pat_completeness auto
termination by (relation "measure length") (auto dest: read_escape_shorter)

definition is_digit_char :: "char \<Rightarrow> bool" where
  "is_digit_char c \<longleftrightarrow> 48 \<le> (of_char c :: nat) \<and> (of_char c :: nat) < 58"

definition digits_value :: "string \<Rightarrow> nat" where
  "digits_value ds = foldl (\<lambda>n c. 10 * n + (of_char c - 48)) 0 ds"

fun read_json :: "nat \<Rightarrow> string \<Rightarrow> (wire \<times> string) option"
  and read_fields :: "nat \<Rightarrow> string \<Rightarrow> ((string \<times> wire) list \<times> string) option" where
  "read_json 0 s = None"
| "read_json (Suc fuel) s =
     (case s of
        [] \<Rightarrow> None
      | c # cs \<Rightarrow>
          if c = CHR 0x22 then map_option (\<lambda>(t, r). (WText t, r)) (read_chars cs)
          else if c = CHR ''{'' then
            (case cs of
               [] \<Rightarrow> None
             | d # ds \<Rightarrow>
                 if d = CHR ''}'' then Some (WMap [], ds)
                 else map_option (\<lambda>(fs, r). (WMap fs, r)) (read_fields fuel cs))
          else if take 4 s = ''null'' then Some (WNull, drop 4 s)
          else if is_digit_char c
          then Some (WNumber (digits_value (takeWhile is_digit_char s)), dropWhile is_digit_char s)
          else None)"
| "read_fields 0 s = None"
| "read_fields (Suc fuel) s =
     (case s of
        c # cs \<Rightarrow>
          if c \<noteq> CHR 0x22 then None
          else (case read_chars cs of
              Some (k, d # ds) \<Rightarrow>
                if d \<noteq> CHR '':'' then None
                else (case read_json fuel ds of
                    Some (v, e # es) \<Rightarrow>
                      if e = CHR '','' then map_option (\<lambda>(fs, r). ((k, v) # fs, r)) (read_fields fuel es)
                      else if e = CHR ''}'' then Some ([(k, v)], es)
                      else None
                  | _ \<Rightarrow> None)
            | _ \<Rightarrow> None)
      | [] \<Rightarrow> None)"

lemma hex_value_char: "d < 16 \<Longrightarrow> hex_value (hex_char d) = Some d"
  by (simp add: hex_value_def hex_char_def)

lemma read_json_char: "read_chars (json_char c @ r) = map_option (\<lambda>(s, q). (c # s, q)) (read_chars r)"
proof -
  consider (plain) "json_char c = [c]" "c \<noteq> CHR 0x22" "c \<noteq> CHR 0x5C" "\<not> of_char c \<le> (0x1F :: nat)"
    | (control) "of_char c \<le> (0x1F :: nat)"
        "json_char c = [CHR 0x5C, CHR ''u'', CHR ''0'', CHR ''0'', hex_char (of_char c div 16), hex_char (of_char c mod 16)]"
    | (short) e where "json_char c = [CHR 0x5C, e]" "e \<noteq> CHR ''u''" "\<And>r. read_escape (e # r) = Some (c, r)"
    unfolding json_char_def by (cases "c = CHR 0x22"; cases "c = CHR 0x5C"; cases "c = CHR 0x08"; cases "c = CHR 0x0C";
      cases "c = CHR 0x0A"; cases "c = CHR 0x0D"; cases "c = CHR 0x09"; cases "of_char c \<le> (0x1F :: nat)") auto
  then show ?thesis
  proof cases
    case control
    have "16 * (of_char c div 16) + of_char c mod 16 = (of_char c :: nat)" by simp
    moreover have "(of_char c :: nat) div 16 < 16" using control(1) by simp
    ultimately show ?thesis by (simp add: control(2) hex_value_char)
  qed simp_all
qed

lemma read_chars_string: "read_chars (concat (map json_char s) @ CHR 0x22 # rest) = Some (s, rest)"
  by (induction s) (simp_all add: read_json_char)

lemma digit_chars: "d < 10 \<Longrightarrow> is_digit_char (digit_char d)" "d < 10 \<Longrightarrow> of_char (digit_char d) = 48 + d"
  by (simp_all add: is_digit_char_def digit_char_def)

lemma decimal_text_digits: "decimal_text n \<noteq> [] \<and> (\<forall>c \<in> set (decimal_text n). is_digit_char c)"
proof (induction n rule: decimal_text.induct)
  case (1 n)
  then show ?case by (subst (1 2) decimal_text.simps) (auto simp: digit_chars)
qed

lemma digits_value_text: "digits_value (decimal_text n) = n"
proof (induction n rule: decimal_text.induct)
  case (1 n)
  show ?case
  proof (cases "n < 10")
    case True
    then show ?thesis by (subst decimal_text.simps) (simp add: digits_value_def digit_chars)
  next
    case False
    then have "digits_value (decimal_text n) = 10 * digits_value (decimal_text (n div 10)) + n mod 10"
      by (subst decimal_text.simps) (simp add: digits_value_def digit_chars)
    then show ?thesis using 1 False by simp
  qed
qed

text \<open>What may follow a number: anything but another digit.\<close>

definition stops :: "string \<Rightarrow> bool" where
  "stops s \<longleftrightarrow> (case s of [] \<Rightarrow> True | c # cs \<Rightarrow> \<not> is_digit_char c)"

lemma read_number: "stops rest \<Longrightarrow> read_json (Suc fuel) (decimal_text n @ rest) = Some (WNumber n, rest)"
proof -
  assume rest: "stops rest"
  obtain c cs where shape: "decimal_text n = c # cs" "is_digit_char c"
    using decimal_text_digits [of n] by (cases "decimal_text n") auto
  have "takeWhile is_digit_char (decimal_text n @ rest) = decimal_text n"
    "dropWhile is_digit_char (decimal_text n @ rest) = rest"
    using decimal_text_digits [of n] rest
    by (cases rest; simp add: stops_def takeWhile_append2 dropWhile_append2)+
  then show ?thesis
    using shape digits_value_text [of n] by (auto simp: is_digit_char_def)
qed

lemma print_fields_later: "print_fields False (f # fs) = CHR '','' # print_fields True (f # fs)"
  by (cases f) simp

lemma print_fields_quote: "\<exists>t. print_fields True (f # fs) = CHR 0x22 # t"
  by (cases f) (simp add: json_field_name_def json_string_def)

lemma read_json_print:
  "stops rest \<Longrightarrow> wire_fuel w \<le> fuel \<Longrightarrow> read_json fuel (print_json w @ rest) = Some (w, rest)"
  "fs \<noteq> [] \<Longrightarrow> fields_fuel fs \<le> fuel \<Longrightarrow> read_fields fuel (print_fields True fs @ CHR ''}'' # rest) = Some (fs, rest)"
proof (induction w and "first :: bool" fs arbitrary: fuel rest and fuel rest rule: print_json_print_fields.induct)
  case 1
  then show ?case by (cases fuel) (simp_all)
next
  case (2 n)
  then show ?case by (cases fuel) (simp_all add: read_number del: read_json.simps(2))
next
  case (3 s)
  then show ?case by (cases fuel) (simp_all add: json_string_def read_chars_string)
next
  case (4 fs)
  obtain n where n: "fuel = Suc n" using 4(3) by (cases fuel) simp_all
  show ?case
  proof (cases fs)
    case Nil
    then show ?thesis by (simp add: n)
  next
    case (Cons f fs')
    obtain t where t: "print_fields True fs = CHR 0x22 # t" using print_fields_quote Cons by metis
    have "read_fields n (print_fields True fs @ CHR ''}'' # rest) = Some (fs, rest)"
      using 4 Cons n by simp
    then show ?thesis by (simp add: n t)
  qed
next
  case 5
  then show ?case by simp
next
  case (6 first k v fs)
  obtain n where n: "fuel = Suc n" "wire_fuel v \<le> n" "fields_fuel fs \<le> n" using 6(4) by (cases fuel) simp_all
  have stop: "stops (CHR ''}'' # r)" "stops (CHR '','' # r)" for r by (simp_all add: stops_def is_digit_char_def)
  note key = json_field_name_def json_string_def read_chars_string
  show ?case
  proof (cases fs)
    case Nil
    then show ?thesis using 6(1) [OF stop(1) n(2)] by (simp add: n(1) key)
  next
    case (Cons f fs')
    have "read_json n (print_json v @ CHR '','' # print_fields True fs @ CHR ''}'' # rest) =
        Some (v, CHR '','' # print_fields True fs @ CHR ''}'' # rest)"
      by (rule 6(1) [OF stop(2) n(2)])
    moreover have "read_fields n (print_fields True fs @ CHR ''}'' # rest) = Some (fs, rest)"
      using 6(2) [OF _ n(3)] Cons by simp
    moreover have "print_fields True ((k, v) # fs) = CHR 0x22 # concat (map json_char k) @ CHR 0x22 # CHR '':'' #
        print_json v @ CHR '','' # print_fields True fs"
      using Cons by (simp add: key print_fields_later)
    ultimately show ?thesis by (simp add: n(1) key del: print_fields.simps)
  qed
qed

section \<open>Streams of records\<close>

text \<open>Reading records one after the other until the input is used up, at most \<open>n\<close> of them.\<close>

fun read_stream :: "('b list \<Rightarrow> (wire \<times> 'b list) option) \<Rightarrow> nat \<Rightarrow> 'b list \<Rightarrow> wire list option" where
  "read_stream rd 0 bs = (if bs = [] then Some [] else None)"
| "read_stream rd (Suc n) bs =
     (if bs = [] then Some []
      else case rd bs of
          None \<Rightarrow> None
        | Some (w, bs) \<Rightarrow> map_option ((#) w) (read_stream rd n bs))"

text \<open>
  What a format promises: each record it accepts is read back whatever follows it, and takes at least
  one unit of output. Then a stream of records is read back.
\<close>

locale record_format =
  fixes put :: "trace_event \<Rightarrow> 'b list"
    and rd :: "'b list \<Rightarrow> (wire \<times> 'b list) option"
    and accepts :: "trace_event \<Rightarrow> bool"
  assumes read_put: "accepts ev \<Longrightarrow> rd (put ev @ rest) = Some (wire_of ev, rest)"
    and put_nonempty: "put ev \<noteq> []"
begin

lemma read_all: "list_all accepts evs \<Longrightarrow> read_stream rd (length evs) (concat (map put evs)) = Some (map wire_of evs)"
  by (induction evs) (simp_all add: read_put put_nonempty)

lemma same_record: "accepts a \<Longrightarrow> accepts b \<Longrightarrow> put a @ r = put b @ q \<Longrightarrow> wire_of a = wire_of b \<and> r = q"
  by (metis option.inject prod.inject read_put)

end

text \<open>A line of JSON is a record and the newline after it.\<close>

definition read_line :: "nat \<Rightarrow> string \<Rightarrow> (wire \<times> string) option" where
  "read_line fuel s = (case read_json fuel s of
       Some (w, c # cs) \<Rightarrow> if c = CHR 0x0A then Some (w, cs) else None
     | _ \<Rightarrow> None)"

definition json_line :: "trace_event \<Rightarrow> string" where
  "json_line ev = write_json_event ev @ [CHR 0x0A]"

interpretation json: record_format json_line "read_line fuel" "\<lambda>ev. wire_fuel (wire_of ev) \<le> fuel" for fuel
proof unfold_locales
  show "read_line fuel (json_line ev @ rest) = Some (wire_of ev, rest)" if "wire_fuel (wire_of ev) \<le> fuel" for ev rest
    using read_json_print(1) [OF _ that, of "CHR 0x0A # rest"]
    by (simp add: read_line_def json_line_def write_json_wire stops_def is_digit_char_def)
qed (simp add: json_line_def)

interpretation cbor: record_format write_cbor_event "read_cbor fuel"
  "\<lambda>ev. wire_fuel (wire_of ev) \<le> fuel \<and> wire_fits (wire_of ev)" for fuel
proof unfold_locales
  show "read_cbor fuel (write_cbor_event ev @ rest) = Some (wire_of ev, rest)"
    if "wire_fuel (wire_of ev) \<le> fuel \<and> wire_fits (wire_of ev)" for ev rest
    using that read_cbor_print(1) by (simp add: write_cbor_wire)
  show "write_cbor_event ev \<noteq> []" for ev
    by (simp add: write_cbor_event_def cbor_map_def cbor_major_length_def)
qed

text \<open>No character of a record is a line break.\<close>

lemma hex_char_line: "d < 16 \<Longrightarrow> hex_char d \<noteq> CHR 0x0A"
  using hex_value_char [of d] by (auto simp: hex_value_def)

lemma json_char_line: "CHR 0x0A \<notin> set (json_char c)"
proof -
  have "hex_char (of_char c div 16) \<noteq> CHR 0x0A" by (rule hex_char_line) (simp add: div_less_iff_less_mult)
  moreover have "hex_char (of_char c mod 16) \<noteq> CHR 0x0A" by (rule hex_char_line) simp
  ultimately show ?thesis by (simp add: json_char_def)
qed

lemma json_string_line: "CHR 0x0A \<notin> set (json_string s)"
  using json_char_line by (auto simp: json_string_def)

lemma decimal_text_line: "CHR 0x0A \<notin> set (decimal_text n)"
  using decimal_text_digits [of n] by (auto simp: is_digit_char_def)

lemma print_json_line: "CHR 0x0A \<notin> set (print_json w)" "CHR 0x0A \<notin> set (print_fields first fs)"
  by (induction w and first fs rule: print_json_print_fields.induct)
    (auto simp: json_string_line decimal_text_line json_field_name_def)

text \<open>What a sink holds after a sequence of records.\<close>

lemma json_lines_all: "snd (append_all json_lines_append evs out) = out @ concat (map json_line evs)"
  by (induction evs arbitrary: out) (simp_all add: json_lines_append_def json_line_def case_prod_beta Let_def)

lemma cbor_all: "snd (append_all cbor_append evs out) = out @ concat (map write_cbor_event evs)"
  by (induction evs arbitrary: out) (simp_all add: cbor_append_def case_prod_beta Let_def)

section \<open>Properties\<close>

text \<open>C15: the lines written for a sequence of records are read back as those records, whatever enough fuel the
  reader is given, and no record has a line break inside\<close>

theorem trace_json_roundtrip:
  assumes "\<forall>ev \<in> set evs. wire_fuel (wire_of ev) \<le> fuel"
  shows "read_stream (read_line fuel) (length evs) (snd (append_all json_lines_append evs [])) = Some (map wire_of evs) \<and>
    (\<forall>ev \<in> set evs. CHR 0x0A \<notin> set (write_json_event ev))"
  using assms by (simp add: json_lines_all json.read_all list_all_iff write_json_wire print_json_line)

text \<open>C14: the CBOR sequence written for a sequence of records is read back as those records, with nothing
  left over\<close>

theorem trace_cbor_roundtrip:
  assumes "\<forall>ev \<in> set evs. wire_fuel (wire_of ev) \<le> fuel \<and> wire_fits (wire_of ev)"
  shows "read_stream (read_cbor fuel) (length evs) (snd (append_all cbor_append evs [])) = Some (map wire_of evs)"
  using assms by (simp add: cbor_all cbor.read_all list_all_iff)

definition sample_episode :: "trace_event list" where
  "sample_episode =
     [HeaderEvent (with_metadata (episode_header_new ''run'') ''seed'' ''7''),
      TurnEvent ((trace_turn_new 0 ''say \"hi\"'')\<lparr>tt_output := Some [CHR 0x0A]\<rparr>),
      ToolEvent (tool_with_error (trace_tool_new 300 ''c1'' ''read'' ''a'') ''missing''),
      EndEvent (episode_end_completed\<lparr>ee_finished := Some 70000\<rparr>)]"

lemma sample_fits: "\<forall>ev \<in> set sample_episode. wire_fuel (wire_of ev) \<le> 12 \<and> wire_fits (wire_of ev)"
  by (simp add: sample_episode_def with_metadata_def episode_header_new_def trace_turn_new_def tool_with_error_def
      trace_tool_new_def episode_end_completed_def wire_of_def wire_text_def wire_number_def)

lemma sample_length: "length sample_episode = 4"
  by (simp add: sample_episode_def)

theorem trace_json_roundtrip_witness:
  "read_stream (read_line 12) 4 (snd (append_all json_lines_append sample_episode [])) = Some (map wire_of sample_episode)"
  using trace_json_roundtrip [of sample_episode 12] sample_fits unfolding sample_length by blast

theorem trace_cbor_roundtrip_witness:
  "read_stream (read_cbor 12) 4 (snd (append_all cbor_append sample_episode [])) = Some (map wire_of sample_episode)"
  using trace_cbor_roundtrip [of sample_episode 12] sample_fits unfolding sample_length by blast

end
