(* ===== verification/Json.thy ===== *)
theory Json
  imports Std Projection
begin

text \<open>
  \<open>tea-protocol/src/json.rs\<close>: JSON values, their accessors, the conversion to and from the parser
  library's tree, and the indented printer. The library's parser and compact printer are parameters;
  its tree, which the code matches on, is a datatype. Objects are B-tree maps, so lists in key order.
  An \<open>f64\<close> is a sign, a mantissa and a binary exponent, an infinity or not a number.
\<close>

section \<open>Floating point\<close>

datatype f64 = NaN | Infinite bool | Finite bool nat int

definition f64_finite :: "f64 \<Rightarrow> bool" where
  "f64_finite x = (case x of Finite s m e \<Rightarrow> True | _ \<Rightarrow> False)"

text \<open>The integer that is the number scaled by \<open>2\<close> to the \<open>-b\<close>, for \<open>b\<close> at most its exponent.\<close>

definition f64_scaled :: "bool \<Rightarrow> nat \<Rightarrow> int \<Rightarrow> int \<Rightarrow> int" where
  "f64_scaled neg mant e b = (if neg then - 1 else 1) * int mant * 2 ^ nat (e - b)"

fun f64_le :: "f64 \<Rightarrow> f64 \<Rightarrow> bool" where
  "f64_le NaN y \<longleftrightarrow> False"
| "f64_le x NaN \<longleftrightarrow> False"
| "f64_le (Infinite neg) (Infinite neg') \<longleftrightarrow> neg \<or> \<not> neg'"
| "f64_le (Infinite neg) (Finite s m e) \<longleftrightarrow> neg"
| "f64_le (Finite s m e) (Infinite neg) \<longleftrightarrow> \<not> neg"
| "f64_le (Finite s m e) (Finite s' m' e') \<longleftrightarrow> f64_scaled s m e (min e e') \<le> f64_scaled s' m' e' (min e e')"

definition f64_eq :: "f64 \<Rightarrow> f64 \<Rightarrow> bool" where
  "f64_eq x y \<longleftrightarrow> f64_le x y \<and> f64_le y x"

definition f64_lt :: "f64 \<Rightarrow> f64 \<Rightarrow> bool" where
  "f64_lt x y \<longleftrightarrow> f64_le x y \<and> \<not> f64_le y x"

text \<open>\<open>as f64\<close> on an integer: exact up to 53 bits, else rounded to the nearest, ties to even.\<close>

fun bit_count :: "nat \<Rightarrow> nat" where
  "bit_count n = (if n = 0 then 0 else Suc (bit_count (n div 2)))"

declare bit_count.simps [simp del]

definition round_to_f64 :: "bool \<Rightarrow> nat \<Rightarrow> f64" where
  "round_to_f64 neg n =
     (if bit_count n \<le> 53 then Finite neg n 0
      else let k = bit_count n - 53;
               q = n div 2 ^ k;
               r = n mod 2 ^ k;
               half = 2 ^ (k - 1)
        in Finite neg (if half < r \<or> r = half \<and> odd q then q + 1 else q) (int k))"

definition f64_of_u64 :: "u64 \<Rightarrow> f64" where
  "f64_of_u64 n = round_to_f64 False (unat n)"

definition f64_of_i64 :: "64 word \<Rightarrow> f64" where
  "f64_of_i64 n = round_to_f64 (sint n < 0) (nat \<bar>sint n\<bar>)"

section \<open>Values\<close>

type_synonym i64 = "64 word"

datatype json_number = Signed i64 | Unsigned u64 | Float f64

datatype json =
  JNull
| JBool bool
| JNumber json_number
| JString string
| JArray "json list"
| JObject "(string \<times> json) list"

datatype json_kind = KNull | KBoolean | KNumber | KString | KArray | KObject

datatype json_error =
  TypeMismatch json_kind json_kind
| MissingField string
| InvalidNumber string
| Unsupported string
| JsonMessage string

definition invalid_number :: json_error where
  "invalid_number = InvalidNumber ''JSON numbers must be finite''"

fun json_number_new :: "json_number \<Rightarrow> json_error + json" where
  "json_number_new (Float x) = (if \<not> f64_finite x then Inl invalid_number else Inr (JNumber (Float x)))"
| "json_number_new n = Inr (JNumber n)"

fun kind_of :: "json \<Rightarrow> json_kind" where
  "kind_of JNull = KNull"
| "kind_of (JBool b) = KBoolean"
| "kind_of (JNumber n) = KNumber"
| "kind_of (JString s) = KString"
| "kind_of (JArray vs) = KArray"
| "kind_of (JObject es) = KObject"

fun as_str :: "json \<Rightarrow> string option" where
  "as_str (JString s) = Some s"
| "as_str _ = None"

fun as_bool :: "json \<Rightarrow> bool option" where
  "as_bool (JBool b) = Some b"
| "as_bool _ = None"

fun as_u64 :: "json \<Rightarrow> u64 option" where
  "as_u64 (JNumber (Unsigned n)) = Some n"
| "as_u64 _ = None"

fun as_f64 :: "json \<Rightarrow> f64 option" where
  "as_f64 (JNumber (Signed n)) = Some (f64_of_i64 n)"
| "as_f64 (JNumber (Unsigned n)) = Some (f64_of_u64 n)"
| "as_f64 (JNumber (Float x)) = Some x"
| "as_f64 _ = None"

fun as_array :: "json \<Rightarrow> json list option" where
  "as_array (JArray vs) = Some vs"
| "as_array _ = None"

fun as_object :: "json \<Rightarrow> json btree option" where
  "as_object (JObject es) = Some es"
| "as_object _ = None"

fun is_null :: "json \<Rightarrow> bool" where
  "is_null JNull = True"
| "is_null _ = False"

fun is_object :: "json \<Rightarrow> bool" where
  "is_object (JObject es) = True"
| "is_object _ = False"

fun json_get :: "json \<Rightarrow> string \<Rightarrow> json option" where
  "json_get (JObject es) key = btree_get es key"
| "json_get _ key = None"

definition json_object :: "(string \<times> json) list \<Rightarrow> json" where
  "json_object kvs = JObject (btree_collect kvs)"

text \<open>The derived \<open>PartialEq\<close>: forms of numbers are different values, and \<open>f64\<close> compares as such.\<close>

fun json_number_eq :: "json_number \<Rightarrow> json_number \<Rightarrow> bool" where
  "json_number_eq (Signed a) (Signed b) \<longleftrightarrow> a = b"
| "json_number_eq (Unsigned a) (Unsigned b) \<longleftrightarrow> a = b"
| "json_number_eq (Float x) (Float y) \<longleftrightarrow> f64_eq x y"
| "json_number_eq _ _ \<longleftrightarrow> False"

fun json_eq :: "json \<Rightarrow> json \<Rightarrow> bool"
  and values_eq :: "json list \<Rightarrow> json list \<Rightarrow> bool"
  and entries_eq :: "(string \<times> json) list \<Rightarrow> (string \<times> json) list \<Rightarrow> bool" where
  "json_eq JNull JNull \<longleftrightarrow> True"
| "json_eq (JBool a) (JBool b) \<longleftrightarrow> a = b"
| "json_eq (JNumber a) (JNumber b) \<longleftrightarrow> json_number_eq a b"
| "json_eq (JString s) (JString t) \<longleftrightarrow> s = t"
| "json_eq (JArray vs) (JArray ws) \<longleftrightarrow> values_eq vs ws"
| "json_eq (JObject es) (JObject fs) \<longleftrightarrow> entries_eq es fs"
| "json_eq _ _ \<longleftrightarrow> False"
| "values_eq [] [] \<longleftrightarrow> True"
| "values_eq (v # vs) (w # ws) \<longleftrightarrow> json_eq v w \<and> values_eq vs ws"
| "values_eq _ _ \<longleftrightarrow> False"
| "entries_eq [] [] \<longleftrightarrow> True"
| "entries_eq ((k, v) # es) ((l, w) # fs) \<longleftrightarrow> k = l \<and> json_eq v w \<and> entries_eq es fs"
| "entries_eq _ _ \<longleftrightarrow> False"

section \<open>The parser library's tree\<close>

datatype mini_number = I64 i64 | U64 u64 | F64 f64

datatype mini =
  MNull
| MBool bool
| MNumber mini_number
| MString string
| MArray "mini list"
| MObject "(string \<times> mini) list"

definition and_then :: "'e + 'a \<Rightarrow> ('a \<Rightarrow> 'e + 'b) \<Rightarrow> 'e + 'b" where
  "and_then r f = (case r of Inl e \<Rightarrow> Inl e | Inr x \<Rightarrow> f x)"

lemma and_then_simps [simp]: "and_then (Inl e) f = Inl e" "and_then (Inr x) f = f x"
  by (simp_all add: and_then_def)

lemma and_then_Inr: "and_then r f = Inr y \<longleftrightarrow> (\<exists>x. r = Inr x \<and> f x = Inr y)"
  by (cases r) simp_all

fun from_miniserde :: "mini \<Rightarrow> json_error + json"
  and from_minis :: "mini list \<Rightarrow> json_error + json list"
  and from_mini_entries :: "(string \<times> mini) list \<Rightarrow> json_error + (string \<times> json) list" where
  "from_miniserde MNull = Inr JNull"
| "from_miniserde (MBool b) = Inr (JBool b)"
| "from_miniserde (MNumber (I64 n)) = Inr (JNumber (Signed n))"
| "from_miniserde (MNumber (U64 n)) = Inr (JNumber (Unsigned n))"
| "from_miniserde (MNumber (F64 x)) = json_number_new (Float x)"
| "from_miniserde (MString s) = Inr (JString s)"
| "from_miniserde (MArray vs) = and_then (from_minis vs) (\<lambda>ws. Inr (JArray ws))"
| "from_miniserde (MObject es) = and_then (from_mini_entries es) (\<lambda>fs. Inr (JObject (btree_collect fs)))"
| "from_minis [] = Inr []"
| "from_minis (v # vs) = and_then (from_miniserde v) (\<lambda>w. and_then (from_minis vs) (\<lambda>ws. Inr (w # ws)))"
| "from_mini_entries [] = Inr []"
| "from_mini_entries ((k, v) # es) =
     and_then (from_miniserde v) (\<lambda>w. and_then (from_mini_entries es) (\<lambda>fs. Inr ((k, w) # fs)))"

fun to_miniserde :: "json \<Rightarrow> json_error + mini"
  and to_minis :: "json list \<Rightarrow> json_error + mini list"
  and to_mini_entries :: "(string \<times> json) list \<Rightarrow> json_error + (string \<times> mini) list" where
  "to_miniserde JNull = Inr MNull"
| "to_miniserde (JBool b) = Inr (MBool b)"
| "to_miniserde (JNumber (Signed n)) = Inr (MNumber (I64 n))"
| "to_miniserde (JNumber (Unsigned n)) = Inr (MNumber (U64 n))"
| "to_miniserde (JNumber (Float x)) = (if f64_finite x then Inr (MNumber (F64 x)) else Inl invalid_number)"
| "to_miniserde (JString s) = Inr (MString s)"
| "to_miniserde (JArray vs) = and_then (to_minis vs) (\<lambda>ws. Inr (MArray ws))"
| "to_miniserde (JObject es) = and_then (to_mini_entries es) (\<lambda>fs. Inr (MObject (btree_collect fs)))"
| "to_minis [] = Inr []"
| "to_minis (v # vs) = and_then (to_miniserde v) (\<lambda>w. and_then (to_minis vs) (\<lambda>ws. Inr (w # ws)))"
| "to_mini_entries [] = Inr []"
| "to_mini_entries ((k, v) # es) =
     and_then (to_miniserde v) (\<lambda>w. and_then (to_mini_entries es) (\<lambda>fs. Inr ((k, w) # fs)))"

text \<open>The library's parser and printer are parameters of the functions that use them.\<close>

definition json_parse :: "(string \<Rightarrow> mini option) \<Rightarrow> string \<Rightarrow> json_error + json" where
  "json_parse parser input = (case parser input of
       None \<Rightarrow> Inl (JsonMessage ''invalid JSON'')
     | Some v \<Rightarrow> from_miniserde v)"

definition to_json_string :: "(mini \<Rightarrow> string) \<Rightarrow> json \<Rightarrow> json_error + string" where
  "to_json_string printer v = and_then (to_miniserde v) (\<lambda>w. Inr (printer w))"

definition indent :: "nat \<Rightarrow> string" where
  "indent depth = concat (replicate depth ''  '')"

fun write_pretty :: "(mini \<Rightarrow> string) \<Rightarrow> json \<Rightarrow> nat \<Rightarrow> json_error + string"
  and pretty_items :: "(mini \<Rightarrow> string) \<Rightarrow> json list \<Rightarrow> nat \<Rightarrow> json_error + string"
  and pretty_entries :: "(mini \<Rightarrow> string) \<Rightarrow> (string \<times> json) list \<Rightarrow> nat \<Rightarrow> json_error + string" where
  "write_pretty printer JNull depth = Inr ''null''"
| "write_pretty printer (JBool b) depth = Inr (if b then ''true'' else ''false'')"
| "write_pretty printer (JNumber n) depth = to_json_string printer (JNumber n)"
| "write_pretty printer (JString s) depth = to_json_string printer (JString s)"
| "write_pretty printer (JArray vs) depth =
     (if vs = [] then Inr ''[]''
      else and_then (pretty_items printer vs depth) (\<lambda>t.
        Inr (''['' @ t @ [CHR 0x0A] @ indent depth @ '']'')))"
| "write_pretty printer (JObject es) depth =
     (if es = [] then Inr ''{}''
      else and_then (pretty_entries printer es depth) (\<lambda>t.
        Inr (''{'' @ t @ [CHR 0x0A] @ indent depth @ ''}'')))"
| "pretty_items printer [] depth = Inr []"
| "pretty_items printer (v # vs) depth =
     and_then (write_pretty printer v (depth + 1)) (\<lambda>s.
     and_then (pretty_items printer vs depth) (\<lambda>t.
       Inr ([CHR 0x0A] @ indent (depth + 1) @ s @ (if vs \<noteq> [] then '','' else []) @ t)))"
| "pretty_entries printer [] depth = Inr []"
| "pretty_entries printer ((k, v) # es) depth =
     and_then (to_json_string printer (JString k)) (\<lambda>key.
     and_then (write_pretty printer v (depth + 1)) (\<lambda>s.
     and_then (pretty_entries printer es depth) (\<lambda>t.
       Inr ([CHR 0x0A] @ indent (depth + 1) @ key @ '': '' @ s @ (if es \<noteq> [] then '','' else []) @ t))))"

definition to_json_string_pretty :: "(mini \<Rightarrow> string) \<Rightarrow> json \<Rightarrow> json_error + string" where
  "to_json_string_pretty printer v = write_pretty printer v 0"

section \<open>Well-formed values\<close>

text \<open>Every object is a map in key order.\<close>

fun json_ok :: "json \<Rightarrow> bool" where
  "json_ok (JArray vs) \<longleftrightarrow> (\<forall>v \<in> set vs. json_ok v)"
| "json_ok (JObject es) \<longleftrightarrow> btree_ok es \<and> (\<forall>(k, v) \<in> set es. json_ok v)"
| "json_ok _ \<longleftrightarrow> True"

fun mini_ok :: "mini \<Rightarrow> bool" where
  "mini_ok (MArray vs) \<longleftrightarrow> (\<forall>v \<in> set vs. mini_ok v)"
| "mini_ok (MObject es) \<longleftrightarrow> btree_ok es \<and> (\<forall>(k, v) \<in> set es. mini_ok v)"
| "mini_ok _ \<longleftrightarrow> True"

text \<open>A value whose numbers can be written.\<close>

fun json_finite :: "json \<Rightarrow> bool" where
  "json_finite (JNumber (Float x)) \<longleftrightarrow> f64_finite x"
| "json_finite (JArray vs) \<longleftrightarrow> (\<forall>v \<in> set vs. json_finite v)"
| "json_finite (JObject es) \<longleftrightarrow> (\<forall>(k, v) \<in> set es. json_finite v)"
| "json_finite _ \<longleftrightarrow> True"

lemma btree_collect_sorted: "btree_ok es \<Longrightarrow> btree_collect es = es"
proof -
  have append: "fold (\<lambda>(k, v). btree_insert k v) es fs = fs @ es" if "btree_ok (fs @ es)" for fs :: "'a btree"
    using that
  proof (induction es arbitrary: fs)
    case (Cons e es)
    obtain k v where e: "e = (k, v)" by fastforce
    have "btree_insert k v fs = fs @ [(k, v)]"
      using Cons.prems unfolding e
      by (induction fs) (auto simp: btree_ok_def sorted_wrt_append dest: order.asym)
    then show ?case using Cons e by simp
  qed simp
  show "btree_ok es \<Longrightarrow> btree_collect es = es" using append [of "[]"] by (simp add: btree_collect_def)
qed

lemma btree_ok_collect: "btree_ok (btree_collect kvs)"
proof -
  have "btree_ok (fold (\<lambda>(k, v). btree_insert k v) kvs es)" if "btree_ok es" for es :: "'a btree"
    using that by (induction kvs arbitrary: es) (auto simp: btree_ok_insert)
  then show ?thesis by (simp add: btree_collect_def btree_ok_def)
qed

lemma btree_insert_entries: "set (btree_insert k v es) \<subseteq> insert (k, v) (set es)"
  by (induction k v es rule: btree_insert.induct) auto

lemma btree_collect_entries: "set (btree_collect kvs) \<subseteq> set kvs"
proof -
  have "set (fold (\<lambda>(k, v). btree_insert k v) kvs es) \<subseteq> set kvs \<union> set es" for es :: "'a btree"
  proof (induction kvs arbitrary: es)
    case (Cons e kvs)
    then show ?case using btree_insert_entries by (cases e) fastforce
  qed simp
  from this [of "[]"] show ?thesis by (simp add: btree_collect_def)
qed

subsection \<open>Conversions\<close>

lemma to_miniserde_ok:
  "to_miniserde j = Inr v \<Longrightarrow> json_ok j \<Longrightarrow> mini_ok v \<and> from_miniserde v = Inr j"
  "to_minis js = Inr vs \<Longrightarrow> \<forall>j \<in> set js. json_ok j \<Longrightarrow> (\<forall>v \<in> set vs. mini_ok v) \<and> from_minis vs = Inr js"
  "to_mini_entries es = Inr fs \<Longrightarrow> \<forall>(k, j) \<in> set es. json_ok j \<Longrightarrow>
     (\<forall>(k, v) \<in> set fs. mini_ok v) \<and> from_mini_entries fs = Inr es \<and> map fst fs = map fst es"
proof (induction j and js and es arbitrary: v and vs and fs
    rule: to_miniserde_to_minis_to_mini_entries.induct)
  case (8 es)
  then show ?case by (auto simp: and_then_Inr btree_ok_def btree_collect_sorted)
qed (auto simp: and_then_Inr split: if_splits)

lemma from_miniserde_ok:
  "from_miniserde v = Inr j \<Longrightarrow> mini_ok v \<Longrightarrow> json_ok j \<and> to_miniserde j = Inr v"
  "from_minis vs = Inr js \<Longrightarrow> \<forall>v \<in> set vs. mini_ok v \<Longrightarrow> (\<forall>j \<in> set js. json_ok j) \<and> to_minis js = Inr vs"
  "from_mini_entries fs = Inr es \<Longrightarrow> \<forall>(k, v) \<in> set fs. mini_ok v \<Longrightarrow>
     (\<forall>(k, j) \<in> set es. json_ok j) \<and> to_mini_entries es = Inr fs \<and> map fst fs = map fst es"
proof (induction v and vs and fs arbitrary: j and js and es
    rule: from_miniserde_from_minis_from_mini_entries.induct)
  case (8 es)
  then show ?case by (auto simp: and_then_Inr btree_ok_def btree_collect_sorted)
qed (auto simp: and_then_Inr split: if_splits)

text \<open>What the parser gives is finite, whatever the tree is, and a finite value can be printed.\<close>

lemma from_miniserde_finite:
  "from_miniserde v = Inr j \<Longrightarrow> json_finite j"
  "from_minis vs = Inr js \<Longrightarrow> \<forall>j \<in> set js. json_finite j"
  "from_mini_entries fs = Inr es \<Longrightarrow> \<forall>(k, j) \<in> set es. json_finite j"
proof (induction v and vs and fs arbitrary: j and js and es
    rule: from_miniserde_from_minis_from_mini_entries.induct)
  case (8 es)
  then show ?case using btree_collect_entries by (fastforce simp: and_then_Inr)
qed (auto simp: and_then_Inr split: if_splits)

lemma to_miniserde_finite:
  "json_finite j \<Longrightarrow> \<exists>v. to_miniserde j = Inr v"
  "\<forall>j \<in> set js. json_finite j \<Longrightarrow> \<exists>vs. to_minis js = Inr vs"
  "\<forall>(k, j) \<in> set es. json_finite j \<Longrightarrow> \<exists>fs. to_mini_entries es = Inr fs"
  by (induction j and js and es rule: to_miniserde_to_minis_to_mini_entries.induct) fastforce+

lemma write_pretty_finite:
  "json_finite j \<Longrightarrow> \<exists>t. write_pretty printer j depth = Inr t"
  "\<forall>j \<in> set js. json_finite j \<Longrightarrow> \<exists>t. pretty_items printer js depth = Inr t"
  "\<forall>(k, j) \<in> set es. json_finite j \<Longrightarrow> \<exists>t. pretty_entries printer es depth = Inr t"
proof (induction printer j depth and printer js depth and printer es depth
    rule: write_pretty_pretty_items_pretty_entries.induct)
  case (3 printer n depth)
  then show ?case using to_miniserde_finite(1) [of "JNumber n"] by (auto simp: to_json_string_def)
qed (fastforce simp: to_json_string_def)+

section \<open>Properties\<close>

text \<open>C35: the two conversions between protocol values and the parser library's trees are inverse to each
  other: a value converts to a tree exactly when the tree converts to the value.\<close>

theorem miniserde_roundtrip:
  "(json_ok j \<and> to_miniserde j = Inr v) = (mini_ok v \<and> from_miniserde v = Inr j)"
  using to_miniserde_ok(1) from_miniserde_ok(1) by blast

end
