(* ===== verification/Schema.thy ===== *)
theory Schema
  imports Json Host
begin

text \<open>
  \<open>tea-core/src/schema_validation.rs\<close>: the vocabulary of JSON Schema the kernel accepts, the check of a
  schema and the validation of tool arguments against it. Validation of a value assumes a checked schema
  and panics on a schema that is not an object; a panic is \<open>None\<close>. Functions that recur on sub-schemas are
  written with the recursive call as an argument.
\<close>

text \<open>How the standard library and the JSON library write texts: parameters.\<close>

record texts =
  debug_str :: "string \<Rightarrow> string"
  display_f64 :: "f64 \<Rightarrow> string"
  mini_print :: "mini \<Rightarrow> string"
  mini_parse :: "string \<Rightarrow> mini option"

section \<open>Checking a schema\<close>

text \<open>A loop that stops at the first error.\<close>

fun each :: "('a \<Rightarrow> 'e + unit) \<Rightarrow> 'a list \<Rightarrow> 'e + unit" where
  "each f [] = Inr ()"
| "each f (x # xs) = and_then (f x) (\<lambda>_. each f xs)"

lemma each_Inr: "each f xs = Inr () \<longleftrightarrow> (\<forall>x \<in> set xs. f x = Inr ())"
  by (induction xs) (auto simp: and_then_Inr)

lemma each_cong [fundef_cong]: "xs = ys \<Longrightarrow> (\<And>x. x \<in> set ys \<Longrightarrow> f x = g x) \<Longrightarrow> each f xs = each g ys"
  by (induction ys arbitrary: xs) auto

definition supported_types :: "string list" where
  "supported_types = [''null'', ''boolean'', ''integer'', ''number'', ''string'', ''array'', ''object'']"

definition supported_type :: "string \<Rightarrow> bool" where
  "supported_type type_name \<longleftrightarrow> type_name \<in> set supported_types"

definition allowed_keywords :: "string list" where
  "allowed_keywords =
     [''$comment'', ''$id'', ''$schema'', ''additionalProperties'', ''allOf'', ''anyOf'', ''const'', ''default'',
      ''deprecated'', ''description'', ''enum'', ''examples'', ''exclusiveMaximum'', ''exclusiveMinimum'', ''items'',
      ''maxItems'', ''maxLength'', ''maximum'', ''minItems'', ''minLength'', ''minimum'', ''not'', ''oneOf'',
      ''properties'', ''required'', ''title'', ''type'', ''uniqueItems'']"

definition check_keywords :: "texts \<Rightarrow> json btree \<Rightarrow> string + unit" where
  "check_keywords tx obj = each (\<lambda>keyword.
     if keyword \<notin> set allowed_keywords then Inl (''unsupported keyword '' @ debug_str tx keyword) else Inr ()) (map fst obj)"

definition check_type :: "json btree \<Rightarrow> string + unit" where
  "check_type obj = (case btree_get obj ''type'' of
       None \<Rightarrow> Inr ()
     | Some t \<Rightarrow>
         if (case t of
               JString type_name \<Rightarrow> supported_type type_name
             | JArray ts \<Rightarrow> ts \<noteq> [] \<and> (\<forall>v \<in> set ts. case as_str v of Some n \<Rightarrow> supported_type n | None \<Rightarrow> False)
             | _ \<Rightarrow> False)
         then Inr () else Inl ''type must name one or more supported JSON types'')"

definition check_properties :: "texts \<Rightarrow> (json \<Rightarrow> string + unit) \<Rightarrow> json btree \<Rightarrow> string + unit" where
  "check_properties tx rec obj = (case btree_get obj ''properties'' of
       None \<Rightarrow> Inr ()
     | Some v \<Rightarrow> (case as_object v of
           None \<Rightarrow> Inl ''properties must be an object''
         | Some ps \<Rightarrow> each (\<lambda>(name, s). case rec s of
               Inl e \<Rightarrow> Inl (''property '' @ debug_str tx name @ '': '' @ e)
             | Inr _ \<Rightarrow> Inr ()) ps))"

fun check_names :: "texts \<Rightarrow> string set \<Rightarrow> json list \<Rightarrow> string + unit" where
  "check_names tx names [] = Inr ()"
| "check_names tx names (v # vs) = (case as_str v of
       None \<Rightarrow> Inl ''required must be an array of strings''
     | Some p \<Rightarrow>
         if p \<in> names then Inl (''required contains duplicate property '' @ debug_str tx p)
         else check_names tx (insert p names) vs)"

definition check_required :: "texts \<Rightarrow> json btree \<Rightarrow> string + unit" where
  "check_required tx obj = (case btree_get obj ''required'' of
       None \<Rightarrow> Inr ()
     | Some v \<Rightarrow> (case as_array v of
           None \<Rightarrow> Inl ''required must be an array of strings''
         | Some vs \<Rightarrow> check_names tx {} vs))"

definition check_additional :: "(json \<Rightarrow> string + unit) \<Rightarrow> json btree \<Rightarrow> string + unit" where
  "check_additional rec obj = (case btree_get obj ''additionalProperties'' of
       None \<Rightarrow> Inr ()
     | Some v \<Rightarrow> (case v of
           JBool b \<Rightarrow> Inr ()
         | JObject es \<Rightarrow> rec v
         | _ \<Rightarrow> Inl ''additionalProperties must be a boolean or schema''))"

definition check_items :: "(json \<Rightarrow> string + unit) \<Rightarrow> json btree \<Rightarrow> string + unit" where
  "check_items rec obj = (case btree_get obj ''items'' of
       None \<Rightarrow> Inr ()
     | Some v \<Rightarrow> if \<not> is_object v then Inl ''items must be a schema object'' else rec v)"

definition check_combinator :: "(json \<Rightarrow> string + unit) \<Rightarrow> json btree \<Rightarrow> string \<Rightarrow> string + unit" where
  "check_combinator rec obj keyword = (case btree_get obj keyword of
       None \<Rightarrow> Inr ()
     | Some v \<Rightarrow> (case as_array v of
           None \<Rightarrow> Inl (keyword @ '' must be an array of schemas'')
         | Some ss \<Rightarrow> each rec ss))"

definition check_combinators :: "(json \<Rightarrow> string + unit) \<Rightarrow> json btree \<Rightarrow> string + unit" where
  "check_combinators rec obj = each (check_combinator rec obj) [''allOf'', ''anyOf'', ''oneOf'']"

definition check_not :: "(json \<Rightarrow> string + unit) \<Rightarrow> json btree \<Rightarrow> string + unit" where
  "check_not rec obj = (case btree_get obj ''not'' of None \<Rightarrow> Inr () | Some v \<Rightarrow> rec v)"

definition check_shape :: "json btree \<Rightarrow> string \<Rightarrow> (json \<Rightarrow> bool) \<Rightarrow> string \<Rightarrow> string + unit" where
  "check_shape obj keyword ok message = (case btree_get obj keyword of
       None \<Rightarrow> Inr ()
     | Some v \<Rightarrow> if \<not> ok v then Inl (keyword @ message) else Inr ())"

definition check_scalars :: "json btree \<Rightarrow> string + unit" where
  "check_scalars obj =
     and_then (check_shape obj ''enum'' (\<lambda>v. as_array v \<noteq> None) '' must be an array'') (\<lambda>_.
     and_then (each (\<lambda>k. check_shape obj k (\<lambda>v. as_u64 v \<noteq> None) '' must be a nonnegative integer'')
       [''minItems'', ''maxItems'', ''minLength'', ''maxLength'']) (\<lambda>_.
     and_then (each (\<lambda>k. check_shape obj k (\<lambda>v. as_f64 v \<noteq> None) '' must be a number'')
       [''minimum'', ''maximum'', ''exclusiveMinimum'', ''exclusiveMaximum'']) (\<lambda>_.
       check_shape obj ''uniqueItems'' (\<lambda>v. as_bool v \<noteq> None) '' must be a boolean'')))"

text \<open>Every recursive call is on a smaller schema.\<close>

lemma entry_size: "(k, v) \<in> set es \<Longrightarrow> size v < size (JObject es)"
  by (induction es) auto

lemma member_size: "btree_get es k = Some v \<Longrightarrow> size v < size (JObject es)"
  by (rule entry_size [OF map_of_SomeD])

lemma element_size: "v \<in> set vs \<Longrightarrow> size v < size (JArray vs)"
  by (induction vs) auto

lemma as_object_Some: "as_object v = Some es \<longleftrightarrow> v = JObject es"
  by (cases v) auto

lemma as_array_Some: "as_array v = Some vs \<longleftrightarrow> v = JArray vs"
  by (cases v) auto

lemma as_str_Some: "as_str v = Some s \<longleftrightarrow> v = JString s"
  by (cases v) auto

lemma sub_entry_size:
  "btree_get obj k = Some v \<Longrightarrow> as_object v = Some ps \<Longrightarrow> (n, s) \<in> set ps \<Longrightarrow> size s < size (JObject obj)"
  using member_size [of obj k v] entry_size [of n s ps] by (auto simp: as_object_Some)

lemma sub_element_size:
  "btree_get obj k = Some v \<Longrightarrow> as_array v = Some ss \<Longrightarrow> s \<in> set ss \<Longrightarrow> size s < size (JObject obj)"
  using member_size [of obj k v] element_size [of s ss] by (auto simp: as_array_Some)

lemma check_properties_cong [fundef_cong]:
  "obj = obj' \<Longrightarrow> (\<And>s. size s < size (JObject obj') \<Longrightarrow> rec s = rec' s) \<Longrightarrow>
    check_properties tx rec obj = check_properties tx rec' obj'"
  unfolding check_properties_def
  by (auto intro!: each_cong dest: sub_entry_size split: option.splits)

lemma check_additional_cong [fundef_cong]:
  "obj = obj' \<Longrightarrow> (\<And>s. size s < size (JObject obj') \<Longrightarrow> rec s = rec' s) \<Longrightarrow>
    check_additional rec obj = check_additional rec' obj'"
  unfolding check_additional_def by (auto dest: member_size split: option.splits json.splits)

lemma check_items_cong [fundef_cong]:
  "obj = obj' \<Longrightarrow> (\<And>s. size s < size (JObject obj') \<Longrightarrow> rec s = rec' s) \<Longrightarrow>
    check_items rec obj = check_items rec' obj'"
  unfolding check_items_def by (auto dest: member_size split: option.splits)

lemma check_combinators_cong [fundef_cong]:
  "obj = obj' \<Longrightarrow> (\<And>s. size s < size (JObject obj') \<Longrightarrow> rec s = rec' s) \<Longrightarrow>
    check_combinators rec obj = check_combinators rec' obj'"
  unfolding check_combinators_def check_combinator_def
  by (rule each_cong [OF refl], simp split: option.split) (auto intro!: each_cong dest: sub_element_size)

lemma check_not_cong [fundef_cong]:
  "obj = obj' \<Longrightarrow> (\<And>s. size s < size (JObject obj') \<Longrightarrow> rec s = rec' s) \<Longrightarrow> check_not rec obj = check_not rec' obj'"
  unfolding check_not_def by (auto dest: member_size split: option.splits)

lemma and_then_cong [fundef_cong]: "r = r' \<Longrightarrow> (\<And>x. r' = Inr x \<Longrightarrow> f x = g x) \<Longrightarrow> and_then r f = and_then r' g"
  by (cases r') auto

function validate_schema :: "texts \<Rightarrow> json \<Rightarrow> string + unit" where
  "validate_schema tx schema = (case as_object schema of
       None \<Rightarrow> Inl ''schema must be a JSON object''
     | Some obj \<Rightarrow>
         and_then (check_keywords tx obj) (\<lambda>_.
         and_then (check_type obj) (\<lambda>_.
         and_then (check_properties tx (validate_schema tx) obj) (\<lambda>_.
         and_then (check_required tx obj) (\<lambda>_.
         and_then (check_additional (validate_schema tx) obj) (\<lambda>_.
         and_then (check_items (validate_schema tx) obj) (\<lambda>_.
         and_then (check_combinators (validate_schema tx) obj) (\<lambda>_.
         and_then (check_not (validate_schema tx) obj) (\<lambda>_.
           check_scalars obj)))))))))"
  by pat_completeness auto
termination by (relation "measure (\<lambda>(tx, s). size s)") (auto simp: as_object_Some)

declare validate_schema.simps [simp del]

section \<open>Validating a value\<close>

type_synonym failure = "string \<times> string"

text \<open>Failures pushed in order, \<open>None\<close> a panic.\<close>

type_synonym failures = "failure list option"

fun concat_failures :: "failures list \<Rightarrow> failures" where
  "concat_failures [] = Some []"
| "concat_failures (x # xs) = Option.bind x (\<lambda>a. map_option ((@) a) (concat_failures xs))"

definition fail_if :: "bool \<Rightarrow> string \<Rightarrow> string \<Rightarrow> failures" where
  "fail_if failed path message = Some (if failed then [(path, message)] else [])"

definition child_path :: "string \<Rightarrow> string \<Rightarrow> string" where
  "child_path path child = (if path = [] then child else path @ ''.'' @ child)"

definition display_path :: "string \<Rightarrow> string" where
  "display_path path = (if path = [] then ''root'' else path)"

fun type_matches :: "string \<Rightarrow> json \<Rightarrow> bool" where
  "type_matches type_name v =
     (if type_name = ''null'' then is_null v
      else if type_name = ''boolean'' then (case v of JBool b \<Rightarrow> True | _ \<Rightarrow> False)
      else if type_name = ''integer'' then
        (case v of JNumber (Signed n) \<Rightarrow> True | JNumber (Unsigned n) \<Rightarrow> True | _ \<Rightarrow> False)
      else if type_name = ''number'' then (case v of JNumber n \<Rightarrow> True | _ \<Rightarrow> False)
      else if type_name = ''string'' then (case v of JString t \<Rightarrow> True | _ \<Rightarrow> False)
      else if type_name = ''array'' then (case v of JArray vs \<Rightarrow> True | _ \<Rightarrow> False)
      else if type_name = ''object'' then is_object v
      else False)"

declare type_matches.simps [simp del]

fun type_accepts :: "json \<Rightarrow> json \<Rightarrow> bool" where
  "type_accepts (JString type_name) v = type_matches type_name v"
| "type_accepts (JArray ts) v = (\<exists>type_name \<in> set (List.map_filter as_str ts). type_matches type_name v)"
| "type_accepts _ v = False"

definition starts_min :: "string \<Rightarrow> bool" where
  "starts_min keyword \<longleftrightarrow> take 3 keyword = ''min''"

definition count_ok :: "string \<Rightarrow> nat \<Rightarrow> u64 \<Rightarrow> bool" where
  "count_ok keyword actual bound \<longleftrightarrow> (if starts_min keyword then unat bound \<le> actual else actual \<le> unat bound)"

definition check_count :: "json btree \<Rightarrow> string \<Rightarrow> nat \<Rightarrow> string \<Rightarrow> string \<Rightarrow> failures" where
  "check_count obj keyword actual path noun = (case Option.bind (btree_get obj keyword) as_u64 of
       None \<Rightarrow> Some []
     | Some bound \<Rightarrow> fail_if (\<not> count_ok keyword actual bound) (display_path path)
         (''must contain '' @ (if starts_min keyword then ''at least'' else ''at most'') @ '' '' @
           decimal_text (unat bound) @ '' '' @ noun))"

text \<open>\<open>chars().count()\<close>: the bytes that begin a character.\<close>

definition char_count :: "string \<Rightarrow> nat" where
  "char_count s = length (filter (\<lambda>c. \<not> is_continuation c) s)"

definition validate_string :: "json btree \<Rightarrow> string \<Rightarrow> string \<Rightarrow> failures" where
  "validate_string obj v path = concat_failures
     [check_count obj ''minLength'' (char_count v) path ''characters'',
      check_count obj ''maxLength'' (char_count v) path ''characters'']"

definition numeric_bounds :: "(string \<times> string) list" where
  "numeric_bounds =
     [(''minimum'', ''must be greater than or equal to''), (''maximum'', ''must be less than or equal to''),
      (''exclusiveMinimum'', ''must be greater than''), (''exclusiveMaximum'', ''must be less than'')]"

definition bound_ok :: "string \<Rightarrow> f64 \<Rightarrow> f64 \<Rightarrow> bool" where
  "bound_ok keyword v bound \<longleftrightarrow>
     (if keyword = ''minimum'' then f64_le bound v
      else if keyword = ''maximum'' then f64_le v bound
      else if keyword = ''exclusiveMinimum'' then f64_lt bound v
      else f64_lt v bound)"

definition validate_number :: "texts \<Rightarrow> json btree \<Rightarrow> f64 option \<Rightarrow> string \<Rightarrow> failures" where
  "validate_number tx obj v path = (case v of
       None \<Rightarrow> Some []
     | Some v \<Rightarrow> concat_failures (map (\<lambda>(keyword, message).
         case Option.bind (btree_get obj keyword) as_f64 of
           None \<Rightarrow> Some []
         | Some bound \<Rightarrow> fail_if (\<not> bound_ok keyword v bound) (display_path path)
             (message @ '' '' @ display_f64 tx bound)) numeric_bounds))"

text \<open>Whether some item equals an earlier one.\<close>

fun has_duplicates :: "json list \<Rightarrow> json list \<Rightarrow> bool" where
  "has_duplicates seen [] \<longleftrightarrow> False"
| "has_duplicates seen (v # vs) \<longleftrightarrow> (\<exists>w \<in> set seen. json_eq w v) \<or> has_duplicates (seen @ [v]) vs"

type_synonym validator = "json \<Rightarrow> json \<Rightarrow> string \<Rightarrow> failures"

definition validate_items :: "validator \<Rightarrow> json btree \<Rightarrow> json list \<Rightarrow> string \<Rightarrow> failures" where
  "validate_items rec obj vs path = (case btree_get obj ''items'' of
       None \<Rightarrow> Some []
     | Some s \<Rightarrow> concat_failures (map (\<lambda>(i, v). rec s v (child_path path (decimal_text i))) (List.enumerate 0 vs)))"

definition validate_array :: "validator \<Rightarrow> json btree \<Rightarrow> json list \<Rightarrow> string \<Rightarrow> failures" where
  "validate_array rec obj vs path = concat_failures
     [validate_items rec obj vs path,
      fail_if (Option.bind (btree_get obj ''uniqueItems'') as_bool = Some True \<and> has_duplicates [] vs)
        (display_path path) ''must contain unique items'',
      check_count obj ''minItems'' (length vs) path ''items'',
      check_count obj ''maxItems'' (length vs) path ''items'']"

definition validate_required :: "json btree \<Rightarrow> json btree \<Rightarrow> string \<Rightarrow> failures" where
  "validate_required obj es path = (case Option.bind (btree_get obj ''required'') as_array of
       None \<Rightarrow> Some []
     | Some ps \<Rightarrow> concat_failures (map (\<lambda>p. fail_if (btree_get es p = None) (child_path path p)
         (''must have required properties '' @ p)) (List.map_filter as_str ps)))"

definition validate_properties :: "validator \<Rightarrow> json btree \<Rightarrow> json btree \<Rightarrow> string \<Rightarrow> failures" where
  "validate_properties rec obj es path = (case Option.bind (btree_get obj ''properties'') as_object of
       None \<Rightarrow> Some []
     | Some ps \<Rightarrow> concat_failures (map (\<lambda>(p, s). case btree_get es p of
           None \<Rightarrow> Some []
         | Some v \<Rightarrow> rec s v (child_path path p)) ps))"

definition declared :: "json btree \<Rightarrow> string \<Rightarrow> bool" where
  "declared obj p = (case Option.bind (btree_get obj ''properties'') as_object of
       None \<Rightarrow> False | Some ps \<Rightarrow> btree_get ps p \<noteq> None)"

definition validate_additional :: "validator \<Rightarrow> json btree \<Rightarrow> json btree \<Rightarrow> string \<Rightarrow> failures" where
  "validate_additional rec obj es path = concat_failures (map (\<lambda>(p, v).
     if declared obj p then Some []
     else case btree_get obj ''additionalProperties'' of
         Some (JBool False) \<Rightarrow> fail_if True (child_path path p) ''must not have additional properties''
       | Some (JObject s) \<Rightarrow> rec (JObject s) v (child_path path p)
       | _ \<Rightarrow> Some []) es)"

definition validate_object :: "validator \<Rightarrow> json btree \<Rightarrow> json btree \<Rightarrow> string \<Rightarrow> failures" where
  "validate_object rec obj es path = concat_failures
     [validate_required obj es path, validate_properties rec obj es path, validate_additional rec obj es path]"

definition is_valid :: "validator \<Rightarrow> json \<Rightarrow> json \<Rightarrow> bool option" where
  "is_valid rec s v = map_option (\<lambda>errors. errors = []) (rec s v [])"

fun any_valid :: "validator \<Rightarrow> json \<Rightarrow> json list \<Rightarrow> bool option" where
  "any_valid rec v [] = Some False"
| "any_valid rec v (s # ss) =
     Option.bind (is_valid rec s v) (\<lambda>ok. if ok then Some True else any_valid rec v ss)"

fun count_valid :: "validator \<Rightarrow> json \<Rightarrow> json list \<Rightarrow> nat option" where
  "count_valid rec v [] = Some 0"
| "count_valid rec v (s # ss) =
     Option.bind (is_valid rec s v) (\<lambda>ok. map_option (\<lambda>n. if ok then Suc n else n) (count_valid rec v ss))"

definition validate_combinators :: "validator \<Rightarrow> json btree \<Rightarrow> json \<Rightarrow> string \<Rightarrow> failures" where
  "validate_combinators rec obj v path = concat_failures
     [case Option.bind (btree_get obj ''allOf'') as_array of
        None \<Rightarrow> Some []
      | Some ss \<Rightarrow> concat_failures (map (\<lambda>s. rec s v path) ss),
      case Option.bind (btree_get obj ''anyOf'') as_array of
        None \<Rightarrow> Some []
      | Some ss \<Rightarrow> Option.bind (any_valid rec v ss) (\<lambda>ok.
          fail_if (\<not> ok) (display_path path) ''must match at least one schema''),
      case Option.bind (btree_get obj ''oneOf'') as_array of
        None \<Rightarrow> Some []
      | Some ss \<Rightarrow> Option.bind (count_valid rec v ss) (\<lambda>n.
          fail_if (n \<noteq> 1) (display_path path) ''must match exactly one schema''),
      case btree_get obj ''not'' of
        None \<Rightarrow> Some []
      | Some s \<Rightarrow> Option.bind (is_valid rec s v) (\<lambda>ok.
          fail_if ok (display_path path) ''must not match the schema'')]"

definition validate_constants :: "json btree \<Rightarrow> json \<Rightarrow> string \<Rightarrow> failures" where
  "validate_constants obj v path = concat_failures
     [case Option.bind (btree_get obj ''enum'') as_array of
        None \<Rightarrow> Some []
      | Some cs \<Rightarrow> fail_if (\<not> (\<exists>c \<in> set cs. json_eq c v)) (display_path path) ''must be one of the enumerated values'',
      case btree_get obj ''const'' of
        None \<Rightarrow> Some []
      | Some c \<Rightarrow> fail_if (\<not> json_eq c v) (display_path path) ''must equal the schema constant'']"

definition type_failure :: "texts \<Rightarrow> json btree \<Rightarrow> json \<Rightarrow> string \<Rightarrow> failure option" where
  "type_failure tx obj v path = (case btree_get obj ''type'' of
       None \<Rightarrow> None
     | Some t \<Rightarrow>
         if type_accepts t v then None
         else Some (display_path path, ''must be of type '' @
           (case to_json_string (mini_print tx) t of Inr e \<Rightarrow> e | Inl _ \<Rightarrow> ''valid JSON types'')))"

definition validate_kind :: "texts \<Rightarrow> validator \<Rightarrow> json btree \<Rightarrow> json \<Rightarrow> string \<Rightarrow> failures" where
  "validate_kind tx rec obj v path = (case v of
       JObject es \<Rightarrow> validate_object rec obj es path
     | JArray vs \<Rightarrow> validate_array rec obj vs path
     | JString s \<Rightarrow> validate_string obj s path
     | JNumber n \<Rightarrow> validate_number tx obj (as_f64 (JNumber n)) path
     | _ \<Rightarrow> Some [])"

definition smaller :: "json btree \<Rightarrow> validator \<Rightarrow> validator \<Rightarrow> bool" where
  "smaller obj rec rec' \<longleftrightarrow> (\<forall>s v p. size s < size (JObject obj) \<longrightarrow> rec s v p = rec' s v p)"

lemma smaller_rec:
  assumes "smaller obj rec rec'"
  shows "btree_get obj k = Some s \<Longrightarrow> rec s v p = rec' s v p"
    "btree_get obj k = Some w \<Longrightarrow> as_object w = Some ps \<Longrightarrow> (n, s) \<in> set ps \<Longrightarrow> rec s v p = rec' s v p"
    "btree_get obj k = Some w \<Longrightarrow> as_array w = Some ss \<Longrightarrow> s \<in> set ss \<Longrightarrow> rec s v p = rec' s v p"
  using assms member_size sub_entry_size sub_element_size unfolding smaller_def by metis+

lemma concat_cong: "(\<And>x. x \<in> set xs \<Longrightarrow> f x = g x) \<Longrightarrow> concat_failures (map f xs) = concat_failures (map g xs)"
  by (metis map_cong)

lemma valid_cong:
  assumes "\<And>s. s \<in> set ss \<Longrightarrow> rec s v [] = rec' s v []"
  shows "any_valid rec v ss = any_valid rec' v ss" "count_valid rec v ss = count_valid rec' v ss"
  using assms by (induction ss) (simp_all add: is_valid_def cong: if_cong)

lemma validate_items_cong: "smaller obj rec rec' \<Longrightarrow> validate_items rec obj vs path = validate_items rec' obj vs path"
  unfolding validate_items_def by (auto dest: smaller_rec(1) intro!: concat_cong split: option.split)

lemma validate_properties_cong:
  "smaller obj rec rec' \<Longrightarrow> validate_properties rec obj es path = validate_properties rec' obj es path"
proof -
  assume small: "smaller obj rec rec'"
  show ?thesis
    unfolding validate_properties_def
    by (auto simp: bind_eq_Some_conv smaller_rec(2) [OF small] intro!: concat_cong split: option.split)
qed

lemma validate_additional_cong:
  "smaller obj rec rec' \<Longrightarrow> validate_additional rec obj es path = validate_additional rec' obj es path"
  unfolding validate_additional_def
  by (rule concat_cong) (auto dest: smaller_rec(1) split: option.split json.split bool.split)

lemma validate_combinators_cong:
  assumes "smaller obj rec rec'"
  shows "validate_combinators rec obj v path = validate_combinators rec' obj v path"
proof -
  have same: "rec s v p = rec' s v p"
    if "Option.bind (btree_get obj k) as_array = Some ss" "s \<in> set ss" for k ss s p
    using smaller_rec(3) [OF assms] that unfolding bind_eq_Some_conv by blast
  have "any_valid rec v ss = any_valid rec' v ss" "count_valid rec v ss = count_valid rec' v ss"
    "concat_failures (map (\<lambda>s. rec s v path) ss) = concat_failures (map (\<lambda>s. rec' s v path) ss)"
    if "Option.bind (btree_get obj k) as_array = Some ss" for k ss
    by (rule valid_cong concat_cong, erule same [OF that])+
  moreover have "is_valid rec s v = is_valid rec' s v" if "btree_get obj ''not'' = Some s" for s
    using smaller_rec(1) [OF assms that] by (simp add: is_valid_def)
  ultimately show ?thesis unfolding validate_combinators_def by (simp split: option.split)
qed

lemma validate_combinators_fundef [fundef_cong]:
  "obj = obj' \<Longrightarrow> (\<And>s v p. size s < size (JObject obj') \<Longrightarrow> rec s v p = rec' s v p) \<Longrightarrow> v = v' \<Longrightarrow> path = path' \<Longrightarrow>
    validate_combinators rec obj v path = validate_combinators rec' obj' v' path'"
  by (simp add: validate_combinators_cong smaller_def)

lemma validate_kind_fundef [fundef_cong]:
  "obj = obj' \<Longrightarrow> (\<And>s v p. size s < size (JObject obj') \<Longrightarrow> rec s v p = rec' s v p) \<Longrightarrow> v = v' \<Longrightarrow> path = path' \<Longrightarrow>
    validate_kind tx rec obj v path = validate_kind tx rec' obj' v' path'"
proof -
  assume same: "obj = obj'" "v = v'" "path = path'" and rec: "\<And>s v p. size s < size (JObject obj') \<Longrightarrow> rec s v p = rec' s v p"
  have "smaller obj' rec rec'" using rec by (simp add: smaller_def)
  then show ?thesis unfolding same
    by (cases v') (simp_all add: validate_kind_def validate_object_def validate_array_def validate_items_cong
        validate_properties_cong validate_additional_cong)
qed

function validate_value :: "texts \<Rightarrow> validator" where
  "validate_value tx schema v path = (case as_object schema of
       None \<Rightarrow> None
     | Some obj \<Rightarrow>
         (case type_failure tx obj v path of
            Some e \<Rightarrow> Some [e]
          | None \<Rightarrow> concat_failures
              [validate_constants obj v path,
               validate_combinators (validate_value tx) obj v path,
               validate_kind tx (validate_value tx) obj v path]))"
  by pat_completeness auto
termination by (relation "measure (\<lambda>(tx, s, v, p). size s)") (auto simp: as_object_Some)

declare validate_value.simps [simp del]

section \<open>Validating tool arguments\<close>

fun kind_name :: "json_kind \<Rightarrow> string" where
  "kind_name KNull = ''Null''"
| "kind_name KBoolean = ''Boolean''"
| "kind_name KNumber = ''Number''"
| "kind_name KString = ''String''"
| "kind_name KArray = ''Array''"
| "kind_name KObject = ''Object''"

fun display_json_error :: "texts \<Rightarrow> json_error \<Rightarrow> string" where
  "display_json_error tx (TypeMismatch expected actual) =
     ''expected JSON '' @ kind_name expected @ '', got '' @ kind_name actual"
| "display_json_error tx (MissingField field) = ''missing JSON field '' @ debug_str tx field"
| "display_json_error tx (InvalidNumber message) = ''invalid JSON number: '' @ message"
| "display_json_error tx (Unsupported message) = ''unsupported JSON operation: '' @ message"
| "display_json_error tx (JsonMessage message) = message"

definition rejection :: "texts \<Rightarrow> string \<Rightarrow> failure list \<Rightarrow> string \<Rightarrow> string" where
  "rejection tx name errors received =
     ''Validation failed for tool '' @ debug_str tx name @ '':'' @ [CHR 0x0A] @
     join_lines (map (\<lambda>(path, message). ''  - '' @ path @ '': '' @ message) errors) @
     [CHR 0x0A, CHR 0x0A] @ ''Received arguments:'' @ [CHR 0x0A] @ received"

definition validate_tool_arguments :: "texts \<Rightarrow> string \<Rightarrow> json \<Rightarrow> serialized_json \<Rightarrow> (tool_error + unit) option" where
  "validate_tool_arguments tx name schema arguments = (case validate_schema tx schema of
       Inl message \<Rightarrow> Some (Inl (ToolInvalidArguments name (''tool schema is invalid: '' @ message)))
     | Inr _ \<Rightarrow> (case json_parse (mini_parse tx) arguments of
           Inl _ \<Rightarrow> Some (Inl (ToolInvalidArguments name ''tool-call arguments are not valid JSON: invalid JSON''))
         | Inr v \<Rightarrow> (case validate_value tx schema v [] of
               None \<Rightarrow> None
             | Some errors \<Rightarrow>
                 if errors = [] then Some (Inr ())
                 else (case to_json_string_pretty (mini_print tx) v of
                     Inl e \<Rightarrow> Some (Inl (ToolInvalidArguments name
                       (''tool-call arguments cannot be rendered: '' @ display_json_error tx e)))
                   | Inr received \<Rightarrow> Some (Inl (ToolInvalidArguments name
                       (rejection tx name errors received)))))))"

section \<open>What a schema means\<close>

text \<open>
  The vocabulary without paths, messages or order: a value conforms to a schema when it satisfies every
  keyword the schema has.
\<close>

definition keyword_holds :: "json btree \<Rightarrow> string \<Rightarrow> (json \<Rightarrow> 'a option) \<Rightarrow> ('a \<Rightarrow> bool) \<Rightarrow> bool" where
  "keyword_holds obj k get holds \<longleftrightarrow> (\<forall>w a. btree_get obj k = Some w \<longrightarrow> get w = Some a \<longrightarrow> holds a)"

definition closed_to :: "json btree \<Rightarrow> bool" where
  "closed_to obj \<longleftrightarrow> btree_get obj ''additionalProperties'' = Some (JBool False)"

definition conforms_object :: "(json \<Rightarrow> json \<Rightarrow> bool) \<Rightarrow> json btree \<Rightarrow> json btree \<Rightarrow> bool" where
  "conforms_object rec obj es \<longleftrightarrow>
     keyword_holds obj ''required'' as_array (\<lambda>ns. \<forall>n. JString n \<in> set ns \<longrightarrow> n \<in> dom (btree_get es)) \<and>
     keyword_holds obj ''properties'' as_object (\<lambda>ps. \<forall>(p, s) \<in> set ps. \<forall>v. btree_get es p = Some v \<longrightarrow> rec s v) \<and>
     (\<forall>(p, v) \<in> set es. declared obj p \<or>
        \<not> closed_to obj \<and> keyword_holds obj ''additionalProperties'' as_object (\<lambda>s. rec (JObject s) v))"

definition conforms_array :: "(json \<Rightarrow> json \<Rightarrow> bool) \<Rightarrow> json btree \<Rightarrow> json list \<Rightarrow> bool" where
  "conforms_array rec obj vs \<longleftrightarrow>
     keyword_holds obj ''items'' Some (\<lambda>s. \<forall>v \<in> set vs. rec s v) \<and>
     keyword_holds obj ''uniqueItems'' as_bool (\<lambda>u. u \<longrightarrow> (\<forall>j < length vs. \<forall>i < j. \<not> json_eq (vs ! i) (vs ! j))) \<and>
     keyword_holds obj ''minItems'' as_u64 (\<lambda>n. unat n \<le> length vs) \<and>
     keyword_holds obj ''maxItems'' as_u64 (\<lambda>n. length vs \<le> unat n)"

definition conforms_string :: "json btree \<Rightarrow> string \<Rightarrow> bool" where
  "conforms_string obj s \<longleftrightarrow>
     keyword_holds obj ''minLength'' as_u64 (\<lambda>n. unat n \<le> char_count s) \<and>
     keyword_holds obj ''maxLength'' as_u64 (\<lambda>n. char_count s \<le> unat n)"

definition conforms_number :: "json btree \<Rightarrow> f64 \<Rightarrow> bool" where
  "conforms_number obj x \<longleftrightarrow>
     keyword_holds obj ''minimum'' as_f64 (\<lambda>b. f64_le b x) \<and> keyword_holds obj ''maximum'' as_f64 (\<lambda>b. f64_le x b) \<and>
     keyword_holds obj ''exclusiveMinimum'' as_f64 (\<lambda>b. f64_lt b x) \<and>
     keyword_holds obj ''exclusiveMaximum'' as_f64 (\<lambda>b. f64_lt x b)"

definition conforms_kind :: "(json \<Rightarrow> json \<Rightarrow> bool) \<Rightarrow> json btree \<Rightarrow> json \<Rightarrow> bool" where
  "conforms_kind rec obj v \<longleftrightarrow>
     (\<forall>es. v = JObject es \<longrightarrow> conforms_object rec obj es) \<and> (\<forall>vs. v = JArray vs \<longrightarrow> conforms_array rec obj vs) \<and>
     (\<forall>s. v = JString s \<longrightarrow> conforms_string obj s) \<and> (\<forall>x. as_f64 v = Some x \<longrightarrow> conforms_number obj x)"

definition conforms_general :: "(json \<Rightarrow> json \<Rightarrow> bool) \<Rightarrow> json btree \<Rightarrow> json \<Rightarrow> bool" where
  "conforms_general rec obj v \<longleftrightarrow>
     keyword_holds obj ''type'' Some (\<lambda>t. type_accepts t v) \<and>
     keyword_holds obj ''enum'' as_array (\<lambda>cs. \<exists>c \<in> set cs. json_eq c v) \<and>
     keyword_holds obj ''const'' Some (\<lambda>c. json_eq c v) \<and>
     keyword_holds obj ''allOf'' as_array (\<lambda>ss. \<forall>s \<in> set ss. rec s v) \<and>
     keyword_holds obj ''anyOf'' as_array (\<lambda>ss. \<exists>s \<in> set ss. rec s v) \<and>
     keyword_holds obj ''oneOf'' as_array (\<lambda>ss. length (filter (\<lambda>s. rec s v) ss) = 1) \<and>
     keyword_holds obj ''not'' Some (\<lambda>s. \<not> rec s v)"

lemma keyword_cong:
  assumes "\<And>w a. btree_get obj k = Some w \<Longrightarrow> get w = Some a \<Longrightarrow> f a = g a"
  shows "keyword_holds obj k get f = keyword_holds obj k get g"
  using assms by (auto simp: keyword_holds_def)

lemma conforms_general_cong [fundef_cong]:
  assumes "obj = obj'" "\<And>s v. size s < size (JObject obj') \<Longrightarrow> rec s v = rec' s v" "v = v'"
  shows "conforms_general rec obj v = conforms_general rec' obj' v'"
proof -
  have "rec s v' = rec' s v'" if "btree_get obj' k = Some w" "as_array w = Some ss" "s \<in> set ss" for k w ss s
    using assms(2) sub_element_size that by blast
  then have "keyword_holds obj' k as_array (\<lambda>ss. \<forall>s \<in> set ss. rec s v') = keyword_holds obj' k as_array (\<lambda>ss. \<forall>s \<in> set ss. rec' s v')"
    "keyword_holds obj' k as_array (\<lambda>ss. \<exists>s \<in> set ss. rec s v') = keyword_holds obj' k as_array (\<lambda>ss. \<exists>s \<in> set ss. rec' s v')"
    "keyword_holds obj' k as_array (\<lambda>ss. length (filter (\<lambda>s. rec s v') ss) = 1) =
     keyword_holds obj' k as_array (\<lambda>ss. length (filter (\<lambda>s. rec' s v') ss) = 1)" for k
    by (intro keyword_cong; simp cong: filter_cong)+
  moreover have "keyword_holds obj' k Some (\<lambda>s. \<not> rec s v') = keyword_holds obj' k Some (\<lambda>s. \<not> rec' s v')" for k
    using assms(2) member_size by (intro keyword_cong) auto
  ultimately show ?thesis using assms(1,3) by (simp add: conforms_general_def)
qed

lemma conforms_kind_cong [fundef_cong]:
  assumes "obj = obj'" "\<And>s v. size s < size (JObject obj') \<Longrightarrow> rec s v = rec' s v" "v = v'"
  shows "conforms_kind rec obj v = conforms_kind rec' obj' v'"
proof -
  have one: "rec s x = rec' s x" if "btree_get obj' k = Some s" for k s x
    using assms(2) member_size that by blast
  have entry: "rec s x = rec' s x" if "btree_get obj' k = Some w" "as_object w = Some ps" "(p, s) \<in> set ps" for k w ps p s x
    using assms(2) sub_entry_size that by blast
  have object: "rec (JObject a) x = rec' (JObject a) x" if "btree_get obj' k = Some w" "as_object w = Some a" for k w a x
    using one that by (metis as_object_Some)
  have "keyword_holds obj' ''additionalProperties'' as_object (\<lambda>s. rec (JObject s) x) =
      keyword_holds obj' ''additionalProperties'' as_object (\<lambda>s. rec' (JObject s) x)" for x
    by (intro keyword_cong object)
  moreover have "keyword_holds obj' ''properties'' as_object (\<lambda>ps. \<forall>(p, s) \<in> set ps. \<forall>v. btree_get es p = Some v \<longrightarrow> rec s v) =
      keyword_holds obj' ''properties'' as_object (\<lambda>ps. \<forall>(p, s) \<in> set ps. \<forall>v. btree_get es p = Some v \<longrightarrow> rec' s v)" for es
    by (intro keyword_cong ball_cong) (auto simp: entry)
  moreover have "keyword_holds obj' ''items'' Some (\<lambda>s. \<forall>v \<in> set vs. rec s v) =
      keyword_holds obj' ''items'' Some (\<lambda>s. \<forall>v \<in> set vs. rec' s v)" for vs
    by (intro keyword_cong ball_cong) (auto simp: one)
  ultimately show ?thesis
    using assms(1,3) by (simp add: conforms_kind_def conforms_object_def conforms_array_def)
qed

function conforms :: "json \<Rightarrow> json \<Rightarrow> bool" where
  "conforms schema v = (case as_object schema of
       None \<Rightarrow> False
     | Some obj \<Rightarrow> conforms_general conforms obj v \<and> conforms_kind conforms obj v)"
  by pat_completeness auto
termination by (relation "measure (\<lambda>(s, v). size s)") (auto simp: as_object_Some)

declare conforms.simps [simp del]

section \<open>Checked schemas\<close>

text \<open>What the check of a schema gives its parts.\<close>

lemma unit_result: "r = Inr () \<longleftrightarrow> (\<forall>e. r \<noteq> Inl e)"
  by (cases r) auto

lemma validate_schema_object:
  "validate_schema tx (JObject obj) = Inr () \<longleftrightarrow>
    check_keywords tx obj = Inr () \<and> check_type obj = Inr () \<and> check_properties tx (validate_schema tx) obj = Inr () \<and>
    check_required tx obj = Inr () \<and> check_additional (validate_schema tx) obj = Inr () \<and>
    check_items (validate_schema tx) obj = Inr () \<and> check_combinators (validate_schema tx) obj = Inr () \<and>
    check_not (validate_schema tx) obj = Inr () \<and> check_scalars obj = Inr ()"
  by (subst validate_schema.simps) (simp add: and_then_Inr)

lemma checked_not: "check_not rec obj = Inr () \<Longrightarrow> btree_get obj ''not'' = Some s \<Longrightarrow> rec s = Inr ()"
  by (simp add: check_not_def)

lemma checked_items: "check_items rec obj = Inr () \<Longrightarrow> btree_get obj ''items'' = Some s \<Longrightarrow> rec s = Inr ()"
  by (simp add: check_items_def split: if_splits)

lemma checked_additional:
  "check_additional rec obj = Inr () \<Longrightarrow> btree_get obj ''additionalProperties'' = Some (JObject es) \<Longrightarrow> rec (JObject es) = Inr ()"
  by (simp add: check_additional_def)

lemma checked_properties:
  "check_properties tx rec obj = Inr () \<Longrightarrow> btree_get obj ''properties'' = Some w \<Longrightarrow> as_object w = Some ps \<Longrightarrow>
    (p, s) \<in> set ps \<Longrightarrow> rec s = Inr ()"
  by (fastforce simp: check_properties_def each_Inr split: sum.splits)

lemma checked_combinator:
  "check_combinators rec obj = Inr () \<Longrightarrow> k \<in> {''allOf'', ''anyOf'', ''oneOf''} \<Longrightarrow> btree_get obj k = Some w \<Longrightarrow>
    as_array w = Some ss \<Longrightarrow> s \<in> set ss \<Longrightarrow> rec s = Inr ()"
proof -
  assume checked: "check_combinators rec obj = Inr ()" and k: "k \<in> {''allOf'', ''anyOf'', ''oneOf''}"
    and part: "btree_get obj k = Some w" "as_array w = Some ss" "s \<in> set ss"
  have "check_combinator rec obj k = Inr ()" using checked k by (auto simp: check_combinators_def each_Inr simp del: each.simps)
  then show ?thesis using part by (simp add: check_combinator_def each_Inr)
qed

lemma checked_object: "validate_schema tx s = Inr () \<Longrightarrow> \<exists>obj. s = JObject obj"
  by (subst (asm) validate_schema.simps) (simp split: option.splits add: as_object_Some)

subsection \<open>Validation and conformance\<close>

text \<open>A result that is no panic, and is empty exactly when the condition holds.\<close>

definition decides :: "failures \<Rightarrow> bool \<Rightarrow> bool" where
  "decides r c \<longleftrightarrow> (\<exists>errors. r = Some errors \<and> (errors = []) = c)"

lemma decides_fail_if: "decides (fail_if failed path message) c \<longleftrightarrow> failed = (\<not> c)"
  by (auto simp: decides_def fail_if_def)

lemma decides_nothing [simp]: "decides (Some []) c \<longleftrightarrow> c"
  by (simp add: decides_def)

lemma decides_Nil: "c \<Longrightarrow> decides (concat_failures []) c"
  by simp

lemma decides_Cons: "decides x c \<Longrightarrow> decides (concat_failures xs) d \<Longrightarrow> decides (concat_failures (x # xs)) (c \<and> d)"
  by (auto simp: decides_def)

lemma decides_map:
  "(\<And>x. x \<in> set xs \<Longrightarrow> decides (f x) (c x)) \<Longrightarrow> decides (concat_failures (map f xs)) (\<forall>x \<in> set xs. c x)"
proof (induction xs)
  case (Cons x xs)
  have "decides (concat_failures (f x # map f xs)) (c x \<and> (\<forall>x \<in> set xs. c x))"
    by (rule decides_Cons) (simp_all add: Cons)
  then show ?case by simp
qed simp

lemma decides_iff: "decides r c \<Longrightarrow> c = d \<Longrightarrow> decides r d"
  by simp

lemma decides_keyword:
  assumes "\<And>w a. btree_get obj k = Some w \<Longrightarrow> get w = Some a \<Longrightarrow> decides (f a) (c a)"
  shows "decides (case Option.bind (btree_get obj k) get of None \<Rightarrow> Some [] | Some a \<Rightarrow> f a) (keyword_holds obj k get c)"
  using assms by (cases "btree_get obj k") (auto simp: keyword_holds_def split: option.split)

lemma decides_keyword':
  assumes "\<And>w. btree_get obj k = Some w \<Longrightarrow> decides (f w) (c w)"
  shows "decides (case btree_get obj k of None \<Rightarrow> Some [] | Some a \<Rightarrow> f a) (keyword_holds obj k Some c)"
  using assms by (cases "btree_get obj k") (auto simp: keyword_holds_def)

lemma decides_count:
  "decides (check_count obj k actual path noun) (keyword_holds obj k as_u64 (count_ok k actual))"
  unfolding check_count_def by (rule decides_keyword) (simp add: decides_fail_if)

lemma decides_string: "decides (validate_string obj s path) (conforms_string obj s)"
proof -
  have "decides (validate_string obj s path)
      (keyword_holds obj ''minLength'' as_u64 (count_ok ''minLength'' (char_count s)) \<and>
       keyword_holds obj ''maxLength'' as_u64 (count_ok ''maxLength'' (char_count s)) \<and> True)"
    unfolding validate_string_def by (intro decides_Cons decides_Nil decides_count TrueI)
  then show ?thesis
    by (rule decides_iff) (simp add: conforms_string_def count_ok_def starts_min_def keyword_holds_def)
qed

lemma decides_number: "decides (validate_number tx obj (Some x) path) (conforms_number obj x)"
proof -
  let ?holds = "\<lambda>k. keyword_holds obj k as_f64 (bound_ok k x)"
  have "decides (validate_number tx obj (Some x) path) (\<forall>(k, message) \<in> set numeric_bounds. ?holds k)"
    unfolding validate_number_def option.case
    by (rule decides_map, clarsimp simp only: split: prod.split, rule decides_keyword, simp add: decides_fail_if)
  then show ?thesis
    by (rule decides_iff) (simp add: conforms_number_def numeric_bounds_def bound_ok_def keyword_holds_def)
qed

lemma duplicates_iff:
  "has_duplicates seen vs \<longleftrightarrow>
    (\<exists>j < length vs. (\<exists>w \<in> set seen. json_eq w (vs ! j)) \<or> (\<exists>i < j. json_eq (vs ! i) (vs ! j)))"
proof (induction vs arbitrary: seen)
  case (Cons v vs)
  show ?case unfolding has_duplicates.simps Cons.IH
    by (simp add: Ex_less_Suc2 bex_Un conj_disj_distribL ex_disj_distrib) blast
qed simp

definition agrees :: "texts \<Rightarrow> json btree \<Rightarrow> bool" where
  "agrees tx obj \<longleftrightarrow> (\<forall>s v path. size s < size (JObject obj) \<longrightarrow> validate_schema tx s = Inr () \<longrightarrow>
     decides (validate_value tx s v path) (conforms s v))"

lemma agreesD:
  "agrees tx obj \<Longrightarrow> size s < size (JObject obj) \<Longrightarrow> validate_schema tx s = Inr () \<Longrightarrow> decides (validate_value tx s v path) (conforms s v)"
  by (simp add: agrees_def)

lemma decides_array:
  assumes "agrees tx obj" "check_items (validate_schema tx) obj = Inr ()"
  shows "decides (validate_array (validate_value tx) obj vs path) (conforms_array conforms obj vs)"
proof -
  have "decides (validate_items (validate_value tx) obj vs path)
      (keyword_holds obj ''items'' Some (\<lambda>s. \<forall>(i, v) \<in> set (List.enumerate 0 vs). conforms s v))"
    unfolding validate_items_def
  proof (rule decides_keyword')
    fix s assume s: "btree_get obj ''items'' = Some s"
    show "decides (concat_failures (map (\<lambda>(i, v). validate_value tx s v (child_path path (decimal_text i))) (List.enumerate 0 vs)))
        (\<forall>(i, v) \<in> set (List.enumerate 0 vs). conforms s v)"
      by (rule decides_map, clarsimp simp only: split: prod.split)
        (rule agreesD [OF assms(1) member_size [OF s] checked_items [OF assms(2) s]])
  qed
  moreover have "(\<forall>(i, v) \<in> set (List.enumerate 0 vs). f v) = (\<forall>v \<in> set vs. f v)" for f :: "json \<Rightarrow> bool"
  proof -
    have "set vs = snd ` set (List.enumerate 0 vs)" by (simp only: set_map [symmetric] map_snd_enumerate)
    then show ?thesis by auto
  qed
  moreover have "decides (fail_if (Option.bind (btree_get obj ''uniqueItems'') as_bool = Some True \<and> has_duplicates [] vs)
      (display_path path) message)
      (keyword_holds obj ''uniqueItems'' as_bool (\<lambda>u. u \<longrightarrow> (\<forall>j < length vs. \<forall>i < j. \<not> json_eq (vs ! i) (vs ! j))))" for message
    unfolding decides_fail_if duplicates_iff keyword_holds_def bind_eq_Some_conv by auto
  ultimately have "decides (validate_array (validate_value tx) obj vs path)
      (keyword_holds obj ''items'' Some (\<lambda>s. \<forall>v \<in> set vs. conforms s v) \<and>
       keyword_holds obj ''uniqueItems'' as_bool (\<lambda>u. u \<longrightarrow> (\<forall>j < length vs. \<forall>i < j. \<not> json_eq (vs ! i) (vs ! j))) \<and>
       keyword_holds obj ''minItems'' as_u64 (count_ok ''minItems'' (length vs)) \<and>
       keyword_holds obj ''maxItems'' as_u64 (count_ok ''maxItems'' (length vs)) \<and> True)"
    unfolding validate_array_def by (intro decides_Cons decides_Nil decides_count TrueI) simp_all
  then show ?thesis
    by (rule decides_iff) (simp add: conforms_array_def count_ok_def starts_min_def keyword_holds_def)
qed

lemma decides_additional:
  assumes "agrees tx obj" "check_additional (validate_schema tx) obj = Inr ()"
  shows "decides (validate_additional (validate_value tx) obj es path)
    (\<forall>(p, v) \<in> set es. declared obj p \<or>
      \<not> closed_to obj \<and> keyword_holds obj ''additionalProperties'' as_object (\<lambda>s. conforms (JObject s) v))"
  unfolding validate_additional_def
proof (rule decides_map, clarsimp simp only: split: prod.split)
  fix p v
  have schema: "decides (validate_value tx (JObject s) v (child_path path p)) (conforms (JObject s) v)"
    if "btree_get obj ''additionalProperties'' = Some (JObject s)" for s
    by (rule agreesD [OF assms(1) member_size [OF that] checked_additional [OF assms(2) that]])
  show "decides (if declared obj p then Some [] else case btree_get obj ''additionalProperties'' of
          Some (JBool False) \<Rightarrow> fail_if True (child_path path p) ''must not have additional properties''
        | Some (JObject s) \<Rightarrow> validate_value tx (JObject s) v (child_path path p)
        | _ \<Rightarrow> Some [])
     (declared obj p \<or> \<not> closed_to obj \<and> keyword_holds obj ''additionalProperties'' as_object (\<lambda>s. conforms (JObject s) v))"
    using schema
    by (auto simp: closed_to_def keyword_holds_def decides_fail_if split: option.split json.split bool.split)
qed

lemma decides_required:
  "decides (validate_required obj es path)
    (keyword_holds obj ''required'' as_array (\<lambda>ns. \<forall>n. JString n \<in> set ns \<longrightarrow> n \<in> dom (btree_get es)))"
  unfolding validate_required_def
proof (rule decides_keyword)
  fix w ns assume "as_array w = Some ns"
  have "decides (concat_failures (map (\<lambda>p. fail_if (btree_get es p = None) (child_path path p)
      (''must have required properties '' @ p)) (List.map_filter as_str ns)))
      (\<forall>p \<in> set (List.map_filter as_str ns). btree_get es p \<noteq> None)"
    by (rule decides_map) (simp add: decides_fail_if)
  moreover have "n \<in> set (List.map_filter as_str ns) \<longleftrightarrow> JString n \<in> set ns" for n
    by (induction ns) (auto simp: map_filter_simps as_str_Some split: option.splits)
  ultimately show "decides (concat_failures (map (\<lambda>p. fail_if (btree_get es p = None) (child_path path p)
      (''must have required properties '' @ p)) (List.map_filter as_str ns)))
      (\<forall>n. JString n \<in> set ns \<longrightarrow> n \<in> dom (btree_get es))"
    by (auto elim!: decides_iff)
qed

lemma decides_object:
  assumes "agrees tx obj" "check_additional (validate_schema tx) obj = Inr ()"
    "check_properties tx (validate_schema tx) obj = Inr ()"
  shows "decides (validate_object (validate_value tx) obj es path) (conforms_object conforms obj es)"
proof -
  have "decides (validate_properties (validate_value tx) obj es path)
    (keyword_holds obj ''properties'' as_object (\<lambda>ps. \<forall>(p, s) \<in> set ps. \<forall>v. btree_get es p = Some v \<longrightarrow> conforms s v))"
    unfolding validate_properties_def
  proof (rule decides_keyword)
    fix w ps assume ps: "btree_get obj ''properties'' = Some w" "as_object w = Some ps"
    show "decides (concat_failures (map (\<lambda>(p, s). case btree_get es p of
           None \<Rightarrow> Some [] | Some v \<Rightarrow> validate_value tx s v (child_path path p)) ps))
        (\<forall>(p, s) \<in> set ps. \<forall>v. btree_get es p = Some v \<longrightarrow> conforms s v)"
    proof (rule decides_map, clarsimp simp only: split: prod.split)
      fix p s assume entry: "(p, s) \<in> set ps"
      show "decides (case btree_get es p of None \<Rightarrow> Some [] | Some v \<Rightarrow> validate_value tx s v (child_path path p))
          (\<forall>v. btree_get es p = Some v \<longrightarrow> conforms s v)"
        using agreesD [OF assms(1) sub_entry_size [OF ps entry] checked_properties [OF assms(3) ps entry]]
        by (simp split: option.split)
    qed
  qed
  then have "decides (validate_object (validate_value tx) obj es path)
    (keyword_holds obj ''required'' as_array (\<lambda>ns. \<forall>n. JString n \<in> set ns \<longrightarrow> n \<in> dom (btree_get es)) \<and>
     keyword_holds obj ''properties'' as_object (\<lambda>ps. \<forall>(p, s) \<in> set ps. \<forall>v. btree_get es p = Some v \<longrightarrow> conforms s v) \<and>
     (\<forall>(p, v) \<in> set es. declared obj p \<or>
        \<not> closed_to obj \<and> keyword_holds obj ''additionalProperties'' as_object (\<lambda>s. conforms (JObject s) v)) \<and> True)"
    unfolding validate_object_def
    by (intro decides_Cons decides_Nil decides_required decides_additional [OF assms(1,2)] TrueI)
  then show ?thesis by (simp add: conforms_object_def)
qed

lemma decides_valid: "decides (rec s v []) c \<Longrightarrow> is_valid rec s v = Some c"
  by (auto simp: decides_def is_valid_def)

lemma decides_any_valid:
  "(\<And>s. s \<in> set ss \<Longrightarrow> decides (rec s v []) (c s)) \<Longrightarrow> any_valid rec v ss = Some (\<exists>s \<in> set ss. c s)"
proof (induction ss)
  case (Cons s ss)
  have "is_valid rec s v = Some (c s)" by (rule decides_valid, rule Cons.prems) simp
  then show ?case using Cons by simp
qed simp

lemma decides_count_valid:
  "(\<And>s. s \<in> set ss \<Longrightarrow> decides (rec s v []) (c s)) \<Longrightarrow> count_valid rec v ss = Some (length (filter c ss))"
proof (induction ss)
  case (Cons s ss)
  have "is_valid rec s v = Some (c s)" by (rule decides_valid, rule Cons.prems) simp
  then show ?case using Cons by simp
qed simp

lemma decides_combinators:
  assumes "agrees tx obj" "check_combinators (validate_schema tx) obj = Inr ()" "check_not (validate_schema tx) obj = Inr ()"
  shows "decides (validate_combinators (validate_value tx) obj v path)
    (keyword_holds obj ''allOf'' as_array (\<lambda>ss. \<forall>s \<in> set ss. conforms s v) \<and>
     keyword_holds obj ''anyOf'' as_array (\<lambda>ss. \<exists>s \<in> set ss. conforms s v) \<and>
     keyword_holds obj ''oneOf'' as_array (\<lambda>ss. length (filter (\<lambda>s. conforms s v) ss) = 1) \<and>
     keyword_holds obj ''not'' Some (\<lambda>s. \<not> conforms s v) \<and> True)"
proof -
  have part: "decides (validate_value tx s v p) (conforms s v)"
    if "btree_get obj k = Some w" "as_array w = Some ss" "s \<in> set ss" "k \<in> {''allOf'', ''anyOf'', ''oneOf''}" for k w ss s p
    by (rule agreesD [OF assms(1) sub_element_size [OF that(1-3)] checked_combinator [OF assms(2) that(4,1-3)]])
  have valid: "any_valid (validate_value tx) v ss = Some (\<exists>s \<in> set ss. conforms s v)"
    "count_valid (validate_value tx) v ss = Some (length (filter (\<lambda>s. conforms s v) ss))"
    if "btree_get obj k = Some w" "as_array w = Some ss" "k \<in> {''allOf'', ''anyOf'', ''oneOf''}" for k w ss
    using part [OF that(1,2) _ that(3)] by (blast intro: decides_any_valid decides_count_valid)+
  show ?thesis
    unfolding validate_combinators_def
  proof (intro decides_Cons decides_Nil TrueI decides_keyword decides_keyword')
    show "decides (concat_failures (map (\<lambda>s. validate_value tx s v path) ss)) (\<forall>s \<in> set ss. conforms s v)"
      if "btree_get obj ''allOf'' = Some w" "as_array w = Some ss" for w ss
      by (rule decides_map, rule part [OF that]) simp_all
    show "decides (Option.bind (any_valid (validate_value tx) v ss) (\<lambda>ok. fail_if (\<not> ok) (display_path path) message))
        (\<exists>s \<in> set ss. conforms s v)"
      if "btree_get obj ''anyOf'' = Some w" "as_array w = Some ss" for w ss message
      using valid(1) [OF that] by (simp add: decides_fail_if)
    show "decides (Option.bind (count_valid (validate_value tx) v ss) (\<lambda>n. fail_if (n \<noteq> 1) (display_path path) message))
        (length (filter (\<lambda>s. conforms s v) ss) = 1)"
      if "btree_get obj ''oneOf'' = Some w" "as_array w = Some ss" for w ss message
      using valid(2) [OF that] by (simp add: decides_fail_if)
    show "decides (Option.bind (is_valid (validate_value tx) s v) (\<lambda>ok. fail_if ok (display_path path) message)) (\<not> conforms s v)"
      if s: "btree_get obj ''not'' = Some s" for s message
    proof -
      have "decides (validate_value tx s v []) (conforms s v)"
        by (rule agreesD [OF assms(1) member_size [OF s] checked_not [OF assms(3) s]])
      from decides_valid [where rec = "validate_value tx", OF this] show ?thesis by (simp add: decides_fail_if)
    qed
  qed
qed

lemma decides_constants:
  "decides (validate_constants obj v path)
    (keyword_holds obj ''enum'' as_array (\<lambda>cs. \<exists>c \<in> set cs. json_eq c v) \<and>
     keyword_holds obj ''const'' Some (\<lambda>c. json_eq c v) \<and> True)"
  unfolding validate_constants_def
  by (intro decides_Cons decides_Nil TrueI decides_keyword decides_keyword') (simp_all add: decides_fail_if)

lemma type_failure_iff: "type_failure tx obj v path = None \<longleftrightarrow> keyword_holds obj ''type'' Some (\<lambda>t. type_accepts t v)"
  by (simp add: type_failure_def keyword_holds_def split: option.split)

lemma decides_kind:
  assumes "agrees tx obj" "validate_schema tx (JObject obj) = Inr ()"
  shows "decides (validate_kind tx (validate_value tx) obj v path) (conforms_kind conforms obj v)"
proof -
  note parts = assms(2) [unfolded validate_schema_object]
  have "decides (validate_object (validate_value tx) obj es path) (conforms_object conforms obj es)"
    "decides (validate_array (validate_value tx) obj vs path) (conforms_array conforms obj vs)" for es vs
    using parts by (simp_all add: decides_object decides_array assms(1))
  moreover have "decides (validate_number tx obj (as_f64 (JNumber n)) path)
      (\<forall>x. as_f64 (JNumber n) = Some x \<longrightarrow> conforms_number obj x)" for n
    by (cases n) (simp_all add: decides_number)
  ultimately show ?thesis
    by (cases v) (simp_all add: validate_kind_def conforms_kind_def decides_string del: as_f64.simps(1-3))
qed

lemma validate_value_decides:
  "validate_schema tx schema = Inr () \<Longrightarrow> decides (validate_value tx schema v path) (conforms schema v)"
proof (induction schema arbitrary: v path rule: measure_induct_rule [of size])
  case (less schema)
  obtain obj where obj: "schema = JObject obj" using checked_object [OF less.prems] by blast
  have agrees: "agrees tx obj" using less.IH by (simp add: agrees_def obj)
  note parts = less.prems [unfolded obj validate_schema_object]
  have conf: "conforms schema v \<longleftrightarrow> conforms_general conforms obj v \<and> conforms_kind conforms obj v"
    by (subst conforms.simps) (simp add: obj)
  show ?case
  proof (cases "type_failure tx obj v path")
    case None
    have "decides (validate_value tx schema v path)
        ((keyword_holds obj ''enum'' as_array (\<lambda>cs. \<exists>c \<in> set cs. json_eq c v) \<and>
          keyword_holds obj ''const'' Some (\<lambda>c. json_eq c v) \<and> True) \<and>
         (keyword_holds obj ''allOf'' as_array (\<lambda>ss. \<forall>s \<in> set ss. conforms s v) \<and>
          keyword_holds obj ''anyOf'' as_array (\<lambda>ss. \<exists>s \<in> set ss. conforms s v) \<and>
          keyword_holds obj ''oneOf'' as_array (\<lambda>ss. length (filter (\<lambda>s. conforms s v) ss) = 1) \<and>
          keyword_holds obj ''not'' Some (\<lambda>s. \<not> conforms s v) \<and> True) \<and>
         conforms_kind conforms obj v \<and> True)"
      unfolding obj validate_value.simps [of tx "JObject obj"] as_object.simps option.case None
      using parts by (intro decides_Cons decides_Nil TrueI decides_constants decides_combinators [OF agrees]
          decides_kind [OF agrees]) (simp_all add: validate_schema_object)
    moreover have "keyword_holds obj ''type'' Some (\<lambda>t. type_accepts t v)" using None by (simp add: type_failure_iff)
    ultimately show ?thesis unfolding conf conforms_general_def by (elim decides_iff) blast
  next
    case (Some e)
    then have "\<not> keyword_holds obj ''type'' Some (\<lambda>t. type_accepts t v)"
      using type_failure_iff [of tx obj v path] by simp
    then have "\<not> conforms schema v" by (simp add: conf conforms_general_def)
    then show ?thesis by (subst validate_value.simps) (simp add: obj Some decides_def)
  qed
qed

section \<open>Properties\<close>

text \<open>C8: a checked schema never makes validation panic, at any value and path, and the value is accepted
  exactly when it conforms to the schema.\<close>

theorem checked_schema_sound:
  assumes "validate_schema tx schema = Inr ()"
  shows "validate_value tx schema v path \<noteq> None \<and>
    (validate_value tx schema v path = Some []) = conforms schema v"
  using validate_value_decides [OF assms, of v path] by (auto simp: decides_def)

text \<open>Parsed arguments are finite, so that the message of a rejection can always be rendered.\<close>

lemma received_rendered:
  assumes "json_parse parser arguments = Inr v"
  obtains t where "to_json_string_pretty printer v = Inr t"
proof -
  have "json_finite v" using assms from_miniserde_finite(1) by (simp add: json_parse_def split: option.splits)
  then show ?thesis using write_pretty_finite(1) that by (metis to_json_string_pretty_def)
qed

text \<open>C7: validating tool arguments always returns. It succeeds exactly when the schema is one the kernel
  supports and the arguments parse and conform to it. Every other result is an error that names the tool
  and says which of the three failed; that the arguments cannot be rendered never happens.\<close>

theorem validate_tool_arguments_correct:
  "validate_tool_arguments tx name schema arguments = Some
     (case validate_schema tx schema of
        Inl e \<Rightarrow> Inl (ToolInvalidArguments name (''tool schema is invalid: '' @ e))
      | Inr _ \<Rightarrow> (case json_parse (mini_parse tx) arguments of
            Inl _ \<Rightarrow> Inl (ToolInvalidArguments name ''tool-call arguments are not valid JSON: invalid JSON'')
          | Inr v \<Rightarrow>
              if conforms schema v then Inr ()
              else Inl (ToolInvalidArguments name (rejection tx name (the (validate_value tx schema v []))
                (projr (to_json_string_pretty (mini_print tx) v))))))"
proof (cases "validate_schema tx schema")
  case (Inr u)
  then have checked: "validate_schema tx schema = Inr ()" by simp
  show ?thesis
  proof (cases "json_parse (mini_parse tx) arguments")
    case (Inr v)
    obtain t where "to_json_string_pretty (mini_print tx) v = Inr t" by (rule received_rendered [OF Inr])
    then show ?thesis
      using validate_value_decides [OF checked, of v "[]"] checked Inr
      by (auto simp: validate_tool_arguments_def decides_def)
  qed (simp add: validate_tool_arguments_def checked)
qed (simp add: validate_tool_arguments_def)

definition sample_texts :: texts where
  "sample_texts = \<lparr>debug_str = (\<lambda>s. CHR 0x22 # s @ [CHR 0x22]), display_f64 = (\<lambda>_. ''0''),
     mini_print = (\<lambda>_. ''{}''), mini_parse = (\<lambda>_. None)\<rparr>"

definition sample_schema :: json where
  "sample_schema = JObject
     [(''not'', JObject [(''type'', JString ''null'')]),
      (''properties'', JObject [(''text'', JObject [(''type'', JString ''string'')])]),
      (''required'', JArray [JString ''text'']), (''type'', JString ''object'')]"

definition sample_arguments :: json where
  "sample_arguments = JObject [(''text'', JString ''hi'')]"

lemma sample_checked: "validate_schema sample_texts sample_schema = Inr ()"
  by code_simp

theorem checked_schema_sound_witness:
  "validate_value sample_texts sample_schema sample_arguments [] = Some [] \<and> conforms sample_schema sample_arguments \<and>
   validate_value sample_texts sample_schema (JObject []) [] =
     Some [(''text'', ''must have required properties text'')] \<and> \<not> conforms sample_schema (JObject [])"
proof -
  have "validate_value sample_texts sample_schema sample_arguments [] = Some []"
    "validate_value sample_texts sample_schema (JObject []) [] = Some [(''text'', ''must have required properties text'')]"
    by code_simp+
  then show ?thesis using checked_schema_sound [OF sample_checked] by (metis list.distinct(1) option.inject)
qed

text \<open>A nonnegative integer in the signed form is not taken for one.\<close>

lemma signed_count_rejected:
  "validate_schema tx (JObject [(''minLength'', JNumber (Signed 1))]) = Inl ''minLength must be a nonnegative integer''"
  by (subst validate_schema.simps) (simp add: check_keywords_def allowed_keywords_def check_type_def check_properties_def
      check_required_def check_additional_def check_items_def check_combinators_def check_combinator_def check_not_def
      check_scalars_def check_shape_def)

end
