(* ===== verification/Grid.thy ===== *)
theory Grid
  imports Prelude
begin

text \<open>
  \<open>tea-agent/src/grid.rs\<close>: the cells of one rendered frame and the difference of two frames. A Rust
  \<open>char\<close> is its scalar value. Indexing the cells out of range panics, which is \<open>None\<close>.
\<close>

type_synonym u16 = "16 word"

datatype color =
  Black | DarkGrey | Red | DarkRed | Green | DarkGreen | Yellow | DarkYellow
| Blue | DarkBlue | Magenta | DarkMagenta | Cyan | DarkCyan | White | Grey

record style =
  foreground :: "color option"
  background :: "color option"
  bold :: bool

record cell =
  symbol :: u32
  cell_style :: style

definition blank :: cell where
  "blank = \<lparr>symbol = 32, cell_style = \<lparr>foreground = None, background = None, bold = False\<rparr>\<rparr>"

record cell_change =
  cc_x :: u16
  cc_y :: u16
  cc_cell :: cell

record frame_diff =
  full_redraw :: bool
  changes :: "cell_change list"

record grid_error =
  ge_x :: u16
  ge_y :: u16
  ge_width :: u16
  ge_height :: u16

record grid =
  width :: u16
  height :: u16
  cells :: "cell list"

definition grid_new :: "u16 \<Rightarrow> u16 \<Rightarrow> grid" where
  "grid_new w h = \<lparr>width = w, height = h, cells = replicate (unat w * unat h) blank\<rparr>"

definition grid_resize :: "u16 \<Rightarrow> u16 \<Rightarrow> grid \<Rightarrow> grid" where
  "grid_resize w h g = g\<lparr>width := w, height := h, cells := replicate (unat w * unat h) blank\<rparr>"

definition grid_clear :: "grid \<Rightarrow> grid" where
  "grid_clear g = g\<lparr>cells := map (\<lambda>_. blank) (cells g)\<rparr>"

definition grid_index :: "grid \<Rightarrow> u16 \<Rightarrow> u16 \<Rightarrow> nat option" where
  "grid_index g x y =
     (if x < width g \<and> y < height g then Some (unat y * unat (width g) + unat x) else None)"

definition read_cell :: "grid \<Rightarrow> nat \<Rightarrow> cell option" where
  "read_cell g i = (if i < length (cells g) then Some (cells g ! i) else None)"

definition grid_get :: "grid \<Rightarrow> u16 \<Rightarrow> u16 \<Rightarrow> cell option option" where
  "grid_get g x y = (case grid_index g x y of
       None \<Rightarrow> Some None
     | Some i \<Rightarrow> map_option Some (read_cell g i))"

definition grid_set :: "u16 \<Rightarrow> u16 \<Rightarrow> cell \<Rightarrow> grid \<Rightarrow> ((grid_error + unit) \<times> grid) option" where
  "grid_set x y c g = (case grid_index g x y of
       None \<Rightarrow> Some (Inl \<lparr>ge_x = x, ge_y = y, ge_width = width g, ge_height = height g\<rparr>, g)
     | Some i \<Rightarrow> if i < length (cells g) then Some (Inr (), g\<lparr>cells := (cells g)[i := c]\<rparr>) else None)"

text \<open>\<open>0..n\<close> on \<open>u16\<close>, and the coordinates of a frame in the order the loops visit them.\<close>

definition range_to :: "u16 \<Rightarrow> u16 list" where
  "range_to n = map word_of_nat [0..<unat n]"

definition coordinates :: "grid \<Rightarrow> (u16 \<times> u16) list" where
  "coordinates g = concat (map (\<lambda>y. map (\<lambda>x. (x, y)) (range_to (width g))) (range_to (height g)))"

text \<open>One cell of the comparison: nothing or a change. \<open>expect\<close> panics on a coordinate outside.\<close>

definition diff_cell :: "grid \<Rightarrow> grid option \<Rightarrow> bool \<Rightarrow> u16 \<times> u16 \<Rightarrow> cell_change list option" where
  "diff_cell g previous dimensions_changed = (\<lambda>(x, y).
     case grid_get g x y of
       Some (Some c) \<Rightarrow>
         if dimensions_changed then Some [\<lparr>cc_x = x, cc_y = y, cc_cell = c\<rparr>]
         else (case (case previous of None \<Rightarrow> Some None | Some frame \<Rightarrow> grid_get frame x y) of
             None \<Rightarrow> None
           | Some old \<Rightarrow> Some (if old \<noteq> Some c then [\<lparr>cc_x = x, cc_y = y, cc_cell = c\<rparr>] else []))
     | _ \<Rightarrow> None)"

fun diff_cells :: "grid \<Rightarrow> grid option \<Rightarrow> bool \<Rightarrow> (u16 \<times> u16) list \<Rightarrow> cell_change list option" where
  "diff_cells g previous changed [] = Some []"
| "diff_cells g previous changed (p # ps) =
     Option.bind (diff_cell g previous changed p) (\<lambda>cs. map_option ((@) cs) (diff_cells g previous changed ps))"

definition grid_diff :: "grid option \<Rightarrow> grid \<Rightarrow> frame_diff option" where
  "grid_diff previous g =
     (let dimensions_changed = (case previous of
            None \<Rightarrow> True | Some frame \<Rightarrow> width frame \<noteq> width g \<or> height frame \<noteq> height g)
      in map_option (\<lambda>cs. \<lparr>full_redraw = dimensions_changed, changes = cs\<rparr>)
           (diff_cells g previous dimensions_changed (coordinates g)))"

section \<open>Frames\<close>

text \<open>The abstract frame: a cell at each coordinate of a rectangle.\<close>

type_synonym frame = "u16 \<times> u16 \<Rightarrow> cell option"

definition blank_frame :: "u16 \<Rightarrow> u16 \<Rightarrow> frame" where
  "blank_frame w h = (\<lambda>(x, y). if x < w \<and> y < h then Some blank else None)"

definition frame_of :: "grid \<Rightarrow> frame" where
  "frame_of g = (\<lambda>(x, y). Option.bind (grid_index g x y) (read_cell g))"

definition grid_ok :: "grid \<Rightarrow> bool" where
  "grid_ok g \<longleftrightarrow> length (cells g) = unat (width g) * unat (height g)"

lemma index_less: "grid_ok g \<Longrightarrow> grid_index g x y = Some i \<Longrightarrow> i < length (cells g)"
proof -
  assume ok: "grid_ok g" and i: "grid_index g x y = Some i"
  have less: "unat x < unat (width g)" "unat y < unat (height g)" "i = unat y * unat (width g) + unat x"
    using i by (auto simp: grid_index_def word_less_nat_alt split: if_splits)
  have "unat y * unat (width g) + unat x < Suc (unat y) * unat (width g)" using less by simp
  also have "\<dots> \<le> unat (height g) * unat (width g)" using less by (intro mult_right_mono) simp_all
  finally show ?thesis using ok less by (simp add: grid_ok_def mult.commute)
qed

lemma index_inject:
  assumes "grid_index g x y = Some i" "grid_index g x' y' = Some i"
  shows "x' = x \<and> y' = y"
proof -
  have less: "unat x < unat (width g)" "unat x' < unat (width g)"
    "i = unat y * unat (width g) + unat x" "i = unat y' * unat (width g) + unat x'"
    using assms by (auto simp: grid_index_def word_less_nat_alt split: if_splits)
  have "i mod unat (width g) = unat x" "i mod unat (width g) = unat x'"
    unfolding less(3) using less(1) apply simp
    using less by (metis mod_mult_self3 mod_less)
  moreover have "i div unat (width g) = unat y" "i div unat (width g) = unat y'"
    unfolding less(3) using less(1) apply simp
    using less by (metis div_mult_self3 div_less add.right_neutral gr_zeroI less_zeroE)
  ultimately show ?thesis by (simp add: word_eq_unat)
qed

lemma frame_dom: "grid_ok g \<Longrightarrow> dom (frame_of g) = {(x, y). x < width g \<and> y < height g}"
  using index_less by (fastforce simp: frame_of_def grid_index_def read_cell_def split: if_splits)

lemma grid_get_frame: "grid_ok g \<Longrightarrow> grid_get g x y = Some (frame_of g (x, y))"
  using index_less [of g x y] by (auto simp: grid_get_def frame_of_def read_cell_def split: option.split)

lemma frame_new: "frame_of (grid_new w h) = blank_frame w h" "grid_ok (grid_new w h)"
proof -
  show ok: "grid_ok (grid_new w h)" by (simp add: grid_ok_def grid_new_def)
  show "frame_of (grid_new w h) = blank_frame w h"
  proof
    fix p :: "u16 \<times> u16"
    obtain x y where p: "p = (x, y)" by fastforce
    show "frame_of (grid_new w h) p = blank_frame w h p"
      using index_less [OF ok, of x y]
      by (cases "grid_index (grid_new w h) x y")
        (auto simp: p frame_of_def blank_frame_def grid_index_def read_cell_def grid_new_def split: if_splits)
  qed
qed

lemma frame_resize: "grid_resize w h g = grid_new w h"
  by (cases g) (simp add: grid_resize_def grid_new_def)

lemma frame_clear:
  assumes "grid_ok g"
  shows "frame_of (grid_clear g) = blank_frame (width g) (height g)" "grid_ok (grid_clear g)"
proof -
  have "grid_clear g = grid_new (width g) (height g)"
    using assms by (cases g) (simp add: grid_clear_def grid_new_def grid_ok_def map_replicate_const)
  then show "frame_of (grid_clear g) = blank_frame (width g) (height g)" "grid_ok (grid_clear g)"
    by (simp_all add: frame_new)
qed

lemma grid_set_frame:
  assumes "grid_ok g"
  shows "grid_set x y c g =
     (if x < width g \<and> y < height g
      then Some (Inr (), g\<lparr>cells := (cells g)[unat y * unat (width g) + unat x := c]\<rparr>)
      else Some (Inl \<lparr>ge_x = x, ge_y = y, ge_width = width g, ge_height = height g\<rparr>, g))"
  using index_less [OF assms, of x y] by (auto simp: grid_set_def grid_index_def)

lemma view_set:
  assumes "grid_ok g" "(x, y) \<in> dom (frame_of g)"
  shows "\<exists>g'. grid_set x y c g = Some (Inr (), g') \<and> grid_ok g' \<and> (width g', height g') = (width g, height g) \<and>
    frame_of g' = (frame_of g)((x, y) \<mapsto> c)"
proof -
  have bounds: "x < width g" "y < height g" using assms by (simp_all add: frame_dom)
  then obtain i where i: "grid_index g x y = Some i" by (simp add: grid_index_def)
  define g' where "g' = g\<lparr>cells := (cells g)[i := c]\<rparr>"
  have "i < length (cells g)" using index_less [OF assms(1) i] .
  moreover have index: "grid_index g' = grid_index g" by (simp add: g'_def grid_index_def fun_eq_iff)
  ultimately have "frame_of g' (x', y') = ((frame_of g)((x, y) \<mapsto> c)) (x', y')" for x' y'
    using index_inject [OF i, of x' y'] i
    by (cases "grid_index g x' y'") (auto simp: frame_of_def read_cell_def index, auto simp: g'_def nth_list_update)
  then have "frame_of g' = (frame_of g)((x, y) \<mapsto> c)" by (intro ext) (metis surj_pair)
  moreover have "grid_ok g'" using assms(1) by (simp add: grid_ok_def g'_def)
  moreover have "grid_set x y c g = Some (Inr (), g')"
    using i index_less [OF assms(1) i] by (simp add: grid_set_def g'_def)
  ultimately show ?thesis by (intro exI [of _ g']) (simp add: g'_def)
qed

section \<open>Painting changes\<close>

text \<open>A screen is painted by setting the changed cells one after the other.\<close>

fun paint :: "(u16 \<Rightarrow> u16 \<Rightarrow> cell \<Rightarrow> 'g \<Rightarrow> ((grid_error + unit) \<times> 'g) option) \<Rightarrow> cell_change list \<Rightarrow> 'g \<Rightarrow> 'g option" where
  "paint put [] g = Some g"
| "paint put (c # cs) g = (case put (cc_x c) (cc_y c) (cc_cell c) g of
       Some (Inr _, g) \<Rightarrow> paint put cs g
     | _ \<Rightarrow> None)"

definition position :: "cell_change \<Rightarrow> u16 \<times> u16" where
  "position c = (cc_x c, cc_y c)"

locale frame_store =
  fixes ok :: "'g \<Rightarrow> bool"
    and view :: "'g \<Rightarrow> frame"
    and extent :: "'g \<Rightarrow> u16 \<times> u16"
    and put :: "u16 \<Rightarrow> u16 \<Rightarrow> cell \<Rightarrow> 'g \<Rightarrow> ((grid_error + unit) \<times> 'g) option"
  assumes view_dom: "ok g \<Longrightarrow> dom (view g) = {(x, y). x < fst (extent g) \<and> y < snd (extent g)}"
    and put_inside: "ok g \<Longrightarrow> (x, y) \<in> dom (view g) \<Longrightarrow>
      \<exists>g'. put x y c g = Some (Inr (), g') \<and> ok g' \<and> extent g' = extent g \<and> view g' = (view g)((x, y) \<mapsto> c)"
begin

lemma paint_view:
  "ok g \<Longrightarrow> position ` set cs \<subseteq> dom (view g) \<Longrightarrow>
    \<exists>g'. paint put cs g = Some g' \<and> ok g' \<and> extent g' = extent g \<and>
      view g' = fold (\<lambda>c m. m(position c \<mapsto> cc_cell c)) cs (view g)"
proof (induction cs arbitrary: g)
  case (Cons c cs)
  obtain g' where g': "put (cc_x c) (cc_y c) (cc_cell c) g = Some (Inr (), g')" "ok g'" "extent g' = extent g"
    "view g' = (view g)(position c \<mapsto> cc_cell c)"
    using put_inside [of g "cc_x c" "cc_y c" "cc_cell c"] Cons.prems by (auto simp: position_def)
  have "position ` set cs \<subseteq> dom (view g')" using Cons.prems(2) by (auto simp: g'(4))
  from Cons.IH [OF g'(2) this] show ?case by (simp add: g'(1,3,4))
qed simp

text \<open>Painting the cells where a target differs, or more, gives the target.\<close>

lemma paint_target:
  assumes "ok g" "dom target = dom (view g)" "\<And>c. c \<in> set cs \<Longrightarrow> target (position c) = Some (cc_cell c)"
    and "\<And>p. p \<in> dom target \<Longrightarrow> view g p = target p \<or> p \<in> position ` set cs"
  shows "\<exists>g'. paint put cs g = Some g' \<and> ok g' \<and> extent g' = extent g \<and> view g' = target"
proof -
  have folded: "fold (\<lambda>c m. m(position c \<mapsto> cc_cell c)) cs m p = (if p \<in> position ` set cs then target p else m p)" for m p
    using assms(3) by (induction cs arbitrary: m) auto
  have "view g p = target p" if "p \<notin> position ` set cs" for p
    using assms(2) assms(4) [of p] that by (cases "p \<in> dom target") (blast, metis domIff)
  then have "fold (\<lambda>c m. m(position c \<mapsto> cc_cell c)) cs (view g) = target" by (auto simp: folded)
  moreover have "position ` set cs \<subseteq> dom (view g)" unfolding assms(2) [symmetric] using assms(3) by auto
  ultimately show ?thesis using paint_view [OF assms(1), of cs] by simp
qed

end

interpretation grid: frame_store grid_ok frame_of "\<lambda>g. (width g, height g)" grid_set
  by unfold_locales (simp_all add: frame_dom view_set del: prod.inject)

section \<open>Differences\<close>

lemma set_range_to: "set (range_to n) = {x. x < n}"
proof -
  have "x \<in> word_of_nat ` {0..<unat n}" if "x < n" for x
    using that by (intro image_eqI [of _ _ "unat x"]) (simp_all add: word_less_nat_alt)
  moreover have "word_of_nat k < n" if "k < unat n" for k
    using that order.strict_trans [OF that unsigned_less [of n]] by (simp add: word_less_nat_alt unat_of_nat)
  ultimately show ?thesis by (auto simp: range_to_def)
qed

lemma set_coordinates: "set (coordinates g) = {(x, y). x < width g \<and> y < height g}"
  by (auto simp: coordinates_def set_range_to)

definition differs :: "grid option \<Rightarrow> grid \<Rightarrow> u16 \<times> u16 \<Rightarrow> bool" where
  "differs previous g p \<longleftrightarrow> (case previous of
       None \<Rightarrow> True
     | Some frame \<Rightarrow> (width frame, height frame) \<noteq> (width g, height g) \<or> frame_of frame p \<noteq> frame_of g p)"

definition change_at :: "grid \<Rightarrow> u16 \<times> u16 \<Rightarrow> cell_change" where
  "change_at g p = \<lparr>cc_x = fst p, cc_y = snd p, cc_cell = the (frame_of g p)\<rparr>"

lemma diff_cell_frame:
  assumes "grid_ok g" "\<forall>frame. previous = Some frame \<longrightarrow> grid_ok frame" "p \<in> set (coordinates g)"
    and "changed = (case previous of None \<Rightarrow> True | Some frame \<Rightarrow> width frame \<noteq> width g \<or> height frame \<noteq> height g)"
  shows "diff_cell g previous changed p = Some (if differs previous g p then [change_at g p] else [])"
proof -
  obtain x y where p: "p = (x, y)" by fastforce
  obtain c where c: "frame_of g (x, y) = Some c"
    using assms(3) frame_dom [OF assms(1)] unfolding p set_coordinates by blast
  then show ?thesis
    using assms(2) by (auto simp: diff_cell_def p grid_get_frame assms(1,4) differs_def change_at_def split: option.split)
qed

lemma diff_cells_frame:
  assumes "grid_ok g" "\<forall>frame. previous = Some frame \<longrightarrow> grid_ok frame" "set ps \<subseteq> set (coordinates g)"
    and "changed = (case previous of None \<Rightarrow> True | Some frame \<Rightarrow> width frame \<noteq> width g \<or> height frame \<noteq> height g)"
  shows "diff_cells g previous changed ps = Some (map (change_at g) (filter (differs previous g) ps))"
  using assms(3) by (induction ps) (simp_all add: diff_cell_frame assms(1,2,4))

section \<open>Properties\<close>

text \<open>C29: a grid implements a frame. With its cells as long as its dimensions say, which every operation
  keeps, no operation panics; reading is reading the frame, writing inside it updates one coordinate and
  writing outside is the error that names the request, with the grid unchanged.\<close>

theorem grid_refines_frame:
  assumes "grid_ok g"
  shows "frame_of (grid_new w h) = blank_frame w h \<and> grid_ok (grid_new w h) \<and>
    frame_of (grid_resize w h g) = blank_frame w h \<and> grid_ok (grid_resize w h g) \<and>
    frame_of (grid_clear g) = blank_frame (width g) (height g) \<and> grid_ok (grid_clear g) \<and>
    grid_get g x y = Some (frame_of g (x, y)) \<and>
    (if x < width g \<and> y < height g
     then \<exists>g'. grid_set x y c g = Some (Inr (), g') \<and> grid_ok g' \<and> frame_of g' = (frame_of g)((x, y) \<mapsto> c)
     else grid_set x y c g = Some (Inl \<lparr>ge_x = x, ge_y = y, ge_width = width g, ge_height = height g\<rparr>, g))"
proof -
  have "\<exists>g'. grid_set x y c g = Some (Inr (), g') \<and> grid_ok g' \<and> frame_of g' = (frame_of g)((x, y) \<mapsto> c)"
    if "x < width g" "y < height g"
    using view_set [OF assms, of x y c] frame_dom [OF assms] that by blast
  then show ?thesis using assms by (auto simp: frame_new frame_resize frame_clear grid_get_frame grid_set_frame)
qed

text \<open>C28: the difference of two frames never panics. Its changes are the differing coordinates in row-major
  order, or all of them when there is no previous frame of the same size. Painting them on a screen of the
  size of the frame gives the frame: on any screen when it is a full redraw, otherwise on one that shows
  the previous frame.\<close>

theorem diff_paints_frame:
  assumes "grid_ok g" and "\<forall>frame. previous = Some frame \<longrightarrow> grid_ok frame"
    and "grid_ok screen" and "width screen = width g" and "height screen = height g"
    and "\<forall>frame. previous = Some frame \<longrightarrow> width frame = width g \<longrightarrow> height frame = height g \<longrightarrow> frame_of screen = frame_of frame"
  shows "\<exists>d painted. grid_diff previous g = Some d \<and>
    full_redraw d = (\<forall>frame. previous = Some frame \<longrightarrow> width frame \<noteq> width g \<or> height frame \<noteq> height g) \<and>
    map position (changes d) = filter (differs previous g) (coordinates g) \<and>
    paint grid_set (changes d) screen = Some painted \<and> frame_of painted = frame_of g"
proof -
  let ?ps = "filter (differs previous g) (coordinates g)"
  define d where "d = \<lparr>full_redraw = (case previous of
      None \<Rightarrow> True | Some frame \<Rightarrow> width frame \<noteq> width g \<or> height frame \<noteq> height g), changes = map (change_at g) ?ps\<rparr>"
  have diff: "grid_diff previous g = Some d"
    unfolding grid_diff_def Let_def d_def
    by (subst diff_cells_frame [OF assms(1,2) order.refl refl]) simp
  have positions: "map position (changes d) = ?ps"
    by (simp add: d_def position_def change_at_def comp_def)
  have dom: "dom (frame_of g) = set (coordinates g)" by (simp add: frame_dom [OF assms(1)] set_coordinates)
  have "\<exists>painted. paint grid_set (changes d) screen = Some painted \<and> grid_ok painted \<and>
      (width painted, height painted) = (width screen, height screen) \<and> frame_of painted = frame_of g"
  proof (rule grid.paint_target [OF assms(3)])
    show "dom (frame_of g) = dom (frame_of screen)" by (simp add: frame_dom assms)
    show "frame_of g (position c) = Some (cc_cell c)" if "c \<in> set (changes d)" for c
    proof -
      have "c \<in> change_at g ` set ?ps" using that by (simp add: d_def)
      then obtain p where "p \<in> set ?ps" and p: "c = change_at g p" by (rule imageE)
      then have "p \<in> dom (frame_of g)" unfolding dom by simp
      with p show ?thesis by (auto simp: position_def change_at_def)
    qed
    show "frame_of screen p = frame_of g p \<or> p \<in> position ` set (changes d)" if "p \<in> dom (frame_of g)" for p
    proof (cases "differs previous g p")
      case True
      then show ?thesis using that unfolding set_map [symmetric] positions dom by simp
    next
      case False
      then show ?thesis using assms(6) by (auto simp: differs_def split: option.splits)
    qed
  qed
  then show ?thesis using diff positions by (auto simp: d_def split: option.split)
qed

definition sample_grid :: grid where
  "sample_grid = \<lparr>width = 2, height = 1, cells = [blank, blank\<lparr>symbol := 120\<rparr>]\<rparr>"

lemma sample_grid_ok: "grid_ok sample_grid"
  by (simp add: grid_ok_def sample_grid_def)

theorem grid_refines_frame_witness:
  "\<exists>g'. grid_set 1 0 blank sample_grid = Some (Inr (), g') \<and> grid_ok g' \<and> frame_of g' = (frame_of sample_grid)((1, 0) \<mapsto> blank)"
  using grid_refines_frame [OF sample_grid_ok, where x = 1 and y = 0 and c = blank and w = 0 and h = 0]
  by (simp add: sample_grid_def)

theorem diff_paints_frame_witness:
  "\<exists>d painted. grid_diff (Some (grid_new 2 1)) sample_grid = Some d \<and> \<not> full_redraw d \<and>
    paint grid_set (changes d) (grid_new 2 1) = Some painted \<and> frame_of painted = frame_of sample_grid"
  using diff_paints_frame [OF sample_grid_ok, of "Some (grid_new 2 1)" "grid_new 2 1"]
  by (auto simp: frame_new sample_grid_def grid_new_def grid_ok_def)

end
