(* ===== verification/Workspace.thy ===== *)
theory Workspace
  imports Prelude Json "HOL-Library.Sublist"
begin

text \<open>
  The path authority of the standard tools (\<open>tea-core/src/tools/workspace.rs\<close>). An absolute path is the list
  of its components from the root of the file system, and the workspace is such a path, canonical. What
  the operating system answers (\<open>canonicalize\<close>, \<open>exists\<close>, \<open>is_dir\<close>) is a parameter; below it is instantiated
  with a file system that has symbolic links.
\<close>

type_synonym path = "string list"

record os =
  canonicalize :: "path \<Rightarrow> string + path"
  exists :: "path \<Rightarrow> bool"
  is_dir :: "path \<Rightarrow> bool"

type_synonym operation_error = string

definition escapes :: operation_error where
  "escapes = ''path escapes the workspace root''"

definition map_error :: "('e \<Rightarrow> 'f) \<Rightarrow> 'e + 'a \<Rightarrow> 'f + 'a" where
  "map_error f r = (case r of Inl e \<Rightarrow> Inl (f e) | Inr x \<Rightarrow> Inr x)"

definition workspace_root_new :: "os \<Rightarrow> path \<Rightarrow> operation_error + path" where
  "workspace_root_new os p =
     and_then (map_error (\<lambda>e. ''workspace root is not accessible: '' @ e) (canonicalize os p)) (\<lambda>root.
       if \<not> is_dir os root then Inl ''workspace root is not a directory'' else Inr root)"

definition ensure_inside :: "path \<Rightarrow> path \<Rightarrow> operation_error + unit" where
  "ensure_inside root p = (if p = root \<or> prefix root p then Inr () else Inl escapes)"

text \<open>\<open>components()\<close> of a text: its parts between slashes, less empty ones and single dots.\<close>

fun split_slash :: "string \<Rightarrow> string list" where
  "split_slash [] = [[]]"
| "split_slash (c # cs) =
     (if c = CHR ''/'' then [] # split_slash cs
      else (case split_slash cs of [] \<Rightarrow> [[c]] | p # ps \<Rightarrow> (c # p) # ps))"

definition text_components :: "string \<Rightarrow> path" where
  "text_components s = filter (\<lambda>c. c \<noteq> [] \<and> c \<noteq> ''.'') (split_slash s)"

definition is_absolute :: "string \<Rightarrow> bool" where
  "is_absolute s \<longleftrightarrow> take 1 s = ''/''"

fun lexical :: "path \<Rightarrow> path \<Rightarrow> operation_error + path" where
  "lexical [] result = Inr result"
| "lexical (c # cs) result =
     (if c = ''..'' then (if result = [] then Inl escapes else lexical cs (butlast result))
      else lexical cs (result @ [c]))"

definition lexically_resolve :: "path \<Rightarrow> string \<Rightarrow> operation_error + path" where
  "lexically_resolve root input =
     (if input = [] then Inl ''path cannot be empty''
      else and_then (lexical (if is_absolute input then text_components input else root @ text_components input) [])
        (\<lambda>result. and_then (ensure_inside root result) (\<lambda>_. Inr result)))"

definition resolve_existing :: "os \<Rightarrow> path \<Rightarrow> string \<Rightarrow> operation_error + path" where
  "resolve_existing os root input =
     and_then (lexically_resolve root input) (\<lambda>candidate.
     and_then (map_error (\<lambda>e. ''path is not accessible: '' @ e) (canonicalize os candidate)) (\<lambda>resolved.
     and_then (ensure_inside root resolved) (\<lambda>_. Inr resolved)))"

text \<open>The loop over the path and its parents, on the components in reverse; \<open>missing\<close> is in path order.\<close>

fun climb :: "os \<Rightarrow> string list \<Rightarrow> path \<Rightarrow> operation_error + (path \<times> path)" where
  "climb os existing missing =
     (if exists os (rev existing) then Inr (rev existing, missing)
      else (case existing of
          [] \<Rightarrow> Inl ''write path has no existing workspace parent''
        | name # parent \<Rightarrow> climb os parent (name # missing)))"

declare climb.simps [simp del]

definition resolve_for_write :: "os \<Rightarrow> path \<Rightarrow> string \<Rightarrow> operation_error + path" where
  "resolve_for_write os root input =
     and_then (lexically_resolve root input) (\<lambda>candidate.
     and_then (climb os (rev candidate) []) (\<lambda>(existing, missing).
     and_then (map_error (\<lambda>e. ''write parent is not accessible: '' @ e) (canonicalize os existing)) (\<lambda>canonical.
     and_then (ensure_inside root canonical) (\<lambda>_.
     let resolved = canonical @ missing
     in and_then (ensure_inside root resolved) (\<lambda>_. Inr resolved)))))"

section \<open>A file system with symbolic links\<close>

text \<open>
  Nodes by absolute path; a link holds an absolute target. Following a path replaces each link met by
  its target, at most \<open>n\<close> of them, as the system does; opening a file to write also follows links and
  creates the last component when it is missing.
\<close>

datatype node = Directory | RegularFile | SymLink path

type_synonym tree = "path \<Rightarrow> node option"

function walk :: "tree \<Rightarrow> bool \<Rightarrow> nat \<Rightarrow> path \<Rightarrow> path \<Rightarrow> path option" where
  "walk t create n here [] = Some here"
| "walk t create n here (c # cs) =
     (case t (here @ [c]) of
        None \<Rightarrow> if create \<and> cs = [] then Some (here @ [c]) else None
      | Some Directory \<Rightarrow> walk t create n (here @ [c]) cs
      | Some RegularFile \<Rightarrow> if cs = [] then Some (here @ [c]) else None
      | Some (SymLink target) \<Rightarrow> (case n of 0 \<Rightarrow> None | Suc n \<Rightarrow> walk t create n [] (target @ cs)))"
  by pat_completeness auto
termination by (relation "inv_image (less_than <*lex*> less_than) (\<lambda>(t, create, n, here, cs). (n, length cs))") auto

definition posix :: "tree \<Rightarrow> nat \<Rightarrow> os" where
  "posix t n = \<lparr>canonicalize = (\<lambda>p. case walk t False n [] p of Some q \<Rightarrow> Inr q | None \<Rightarrow> Inl ''not found''),
     exists = (\<lambda>p. walk t False n [] p \<noteq> None),
     is_dir = (\<lambda>p. case walk t False n [] p of Some q \<Rightarrow> q = [] \<or> t q = Some Directory | None \<Rightarrow> False)\<rparr>"

text \<open>\<open>create_dir_all\<close>, and the file a write to a path reaches.\<close>

definition create_dirs :: "tree \<Rightarrow> path \<Rightarrow> tree" where
  "create_dirs t d = (\<lambda>q. if t q = None \<and> prefix q d then Some Directory else t q)"

definition written_file :: "tree \<Rightarrow> nat \<Rightarrow> path \<Rightarrow> path option" where
  "written_file t n p = walk t True n [] p"

text \<open>Every node lies in a directory.\<close>

definition tree_ok :: "tree \<Rightarrow> bool" where
  "tree_ok t \<longleftrightarrow> t [] = Some Directory \<and> (\<forall>d c. t (d @ [c]) \<noteq> None \<longrightarrow> t d = Some Directory)"

definition is_link :: "tree \<Rightarrow> path \<Rightarrow> bool" where
  "is_link t p \<longleftrightarrow> (\<exists>target. t p = Some (SymLink target))"

definition real :: "tree \<Rightarrow> path \<Rightarrow> bool" where
  "real t p \<longleftrightarrow> (\<forall>q. prefix q p \<longrightarrow> q \<noteq> [] \<longrightarrow> \<not> is_link t q)"

lemma real_append: "real t (p @ [c]) \<longleftrightarrow> real t p \<and> \<not> is_link t (p @ [c])"
  by (auto simp: real_def)

text \<open>Following a path without links stays on it, and the result of following a path has no links.\<close>

lemma walk_real: "real t (here @ cs) \<Longrightarrow> walk t create n here cs = Some q \<Longrightarrow> q = here @ cs"
proof (induction cs arbitrary: here)
  case (Cons c cs)
  have "\<not> is_link t (here @ [c])" using Cons.prems(1) by (simp add: real_def)
  then show ?case using Cons.IH [of "here @ [c]"] Cons.prems
    by (auto simp: is_link_def split: option.splits node.splits if_splits)
qed simp

lemma real_walk:
  "walk t create n here cs = Some q \<Longrightarrow> real t here \<Longrightarrow> real t q"
proof (induction t create n here cs rule: walk.induct)
  case (2 t create n here c cs)
  then show ?case
    by (cases "t (here @ [c])"; cases "the (t (here @ [c]))")
      (auto simp: real_append is_link_def real_def [of t "[]"] split: if_splits nat.splits)
qed simp

text \<open>When a path is found, so is a file or directory in what it names.\<close>

lemma walk_snoc:
  "tree_ok t \<Longrightarrow> walk t create n here cs = Some p \<Longrightarrow> \<not> create \<Longrightarrow> t (p @ [c]) = Some Directory \<or> t (p @ [c]) = Some RegularFile \<Longrightarrow>
    walk t create n here (cs @ [c]) \<noteq> None"
proof (induction t create n here cs rule: walk.induct)
  case (2 t create n here c' cs)
  have "t p = Some Directory" using 2(3,6) unfolding tree_ok_def by (metis option.distinct(1))
  then show ?case
    using 2 by (cases "t (here @ [c'])"; cases "the (t (here @ [c']))") (auto split: if_splits nat.splits)
qed auto

lemma tree_below:
  assumes "tree_ok t" "t d = None" "prefix d q"
  shows "t q = None"
proof -
  have "t (d @ cs) = None" for cs
  proof (induction cs rule: rev_induct)
    case (snoc c cs)
    then show ?case using assms(1) unfolding tree_ok_def append_assoc [symmetric] by (metis option.distinct(1))
  qed (simp add: assms(2))
  then show ?thesis using assms(3) by (auto simp: prefix_def)
qed

lemma create_dirs_links: "real (create_dirs t d) p \<longleftrightarrow> real t p"
  by (auto simp: real_def is_link_def create_dirs_def)

lemma climb_result:
  "climb os existing missing = Inr (d, rest) \<Longrightarrow> \<exists>cs. rev existing = d @ cs \<and> rest = cs @ missing \<and> exists os d \<and>
    (cs \<noteq> [] \<longrightarrow> \<not> exists os (d @ [hd cs]))"
proof (induction existing arbitrary: missing)
  case Nil
  then show ?case by (subst (asm) climb.simps) (auto split: if_splits)
next
  case (Cons c existing)
  show ?case
  proof (cases "exists os (rev (c # existing))")
    case True
    then show ?thesis using Cons.prems by (subst (asm) climb.simps) simp
  next
    case False
    then have "climb os existing (c # missing) = Inr (d, rest)"
      using Cons.prems by (subst (asm) climb.simps) simp
    from Cons.IH [OF this] obtain cs where cs: "rev existing = d @ cs" "rest = cs @ c # missing" "exists os d"
      "cs \<noteq> [] \<longrightarrow> \<not> exists os (d @ [hd cs])" by blast
    show ?thesis by (rule exI [of _ "cs @ [c]"]) (use cs False in \<open>cases cs; simp\<close>)
  qed
qed

text \<open>What the lexical pass gives: a path inside the workspace without parent references.\<close>

lemma lexical_parents: "lexical cs acc = Inr p \<Longrightarrow> ''..'' \<notin> set acc \<Longrightarrow> ''..'' \<notin> set p"
  by (induction cs acc rule: lexical.induct) (auto split: if_splits dest: in_set_butlastD)

lemma lexically_resolved:
  assumes "lexically_resolve root input = Inr p"
  shows "prefix root p" "''..'' \<notin> set p"
  using assms by (auto simp: lexically_resolve_def and_then_Inr ensure_inside_def dest: lexical_parents split: if_splits)

lemma map_error_Inr [simp]: "map_error f r = Inr x \<longleftrightarrow> r = Inr x"
  by (cases r) (simp_all add: map_error_def)

lemma map_error_simps [simp]: "map_error f (Inl e) = Inl (f e)" "map_error f (Inr x) = Inr x"
  by (simp_all add: map_error_def)

lemma ensure_inside_Inr: "ensure_inside root p = Inr u \<longleftrightarrow> prefix root p"
  by (auto simp: ensure_inside_def)

lemma resolve_existing_inside:
  "resolve_existing os root input = Inr p \<Longrightarrow> prefix root p \<and> (\<exists>q. prefix root q \<and> canonicalize os q = Inr p)"
  by (auto simp: resolve_existing_def and_then_Inr ensure_inside_Inr dest: lexically_resolved(1))

lemma resolve_for_write_inside:
  assumes "resolve_for_write os root input = Inr p"
  shows "prefix root p \<and>
      (\<exists>existing canonical missing. lexically_resolve root input = Inr (existing @ missing) \<and>
         p = canonical @ missing \<and> canonicalize os existing = Inr canonical \<and> prefix root canonical \<and>
         ''..'' \<notin> set missing \<and> exists os existing \<and> (missing \<noteq> [] \<longrightarrow> \<not> exists os (existing @ [hd missing])))"
proof -
  obtain candidate existing missing canonical where
    steps: "lexically_resolve root input = Inr candidate" "climb os (rev candidate) [] = Inr (existing, missing)"
      "canonicalize os existing = Inr canonical" "prefix root canonical" "p = canonical @ missing" "prefix root p"
    using assms by (auto simp: resolve_for_write_def and_then_Inr ensure_inside_Inr Let_def)
  from climb_result [OF steps(2)] have climb: "candidate = existing @ missing" "exists os existing"
    "missing \<noteq> [] \<longrightarrow> \<not> exists os (existing @ [hd missing])" by auto
  then show ?thesis
    using steps lexically_resolved(2) [OF steps(1)]
    by (intro conjI exI [of _ existing] exI [of _ canonical] exI [of _ missing]) auto
qed

section \<open>Properties\<close>

text \<open>C13: whatever the file system answers, every path the authority hands out lies in the workspace. A path
  for reading is an answer of canonicalize; a path for writing is such an answer extended by names of the
  request that the file system did not find, none of them a parent reference.\<close>

theorem resolved_inside:
  "(\<forall>p. resolve_existing os root input = Inr p \<longrightarrow> prefix root p \<and> (\<exists>q. prefix root q \<and> canonicalize os q = Inr p)) \<and>
   (\<forall>p. resolve_for_write os root input = Inr p \<longrightarrow> prefix root p \<and>
      (\<exists>existing canonical missing. lexically_resolve root input = Inr (existing @ missing) \<and>
         p = canonical @ missing \<and> canonicalize os existing = Inr canonical \<and> prefix root canonical \<and>
         ''..'' \<notin> set missing \<and> exists os existing \<and> (missing \<noteq> [] \<longrightarrow> \<not> exists os (existing @ [hd missing]))))"
  using resolve_existing_inside resolve_for_write_inside by blast

text \<open>C12: on a file system with symbolic links, a write to a resolved path, after its missing parents
  are created, reaches that path and no other, or nothing, unless the first missing name of the request is
  a link that the system does not follow to an existing file.\<close>

theorem write_reaches_resolved:
  assumes "tree_ok t" and "resolve_for_write (posix t n) root input = Inr p"
  shows "prefix root p \<and>
    ((\<forall>m q. written_file (create_dirs t (butlast p)) m p = Some q \<longrightarrow> q = p) \<or>
     (\<exists>existing canonical c. canonicalize (posix t n) existing = Inr canonical \<and> is_link t (canonical @ [c]) \<and>
        \<not> exists (posix t n) (existing @ [c]) \<and> prefix (canonical @ [c]) p))"
proof -
  have inside: "prefix root p"
    using resolve_for_write_inside [OF assms(2)] by blast
  obtain existing canonical missing where parts: "p = canonical @ missing"
      "canonicalize (posix t n) existing = Inr canonical" "missing \<noteq> [] \<longrightarrow> \<not> exists (posix t n) (existing @ [hd missing])"
    using resolve_for_write_inside [OF assms(2)] by blast
  have walked: "walk t False n [] existing = Some canonical"
    using parts(2) by (simp add: posix_def split: option.splits)
  have real: "real t canonical" by (rule real_walk [OF walked]) (simp add: real_def)
  have reached: "q = p" if "real t p" "written_file (create_dirs t (butlast p)) m p = Some q" for m q
    using walk_real [of _ "[]" p] that unfolding written_file_def by (metis append_Nil create_dirs_links)
  show ?thesis
  proof (cases missing)
    case Nil
    then show ?thesis using inside reached real by (simp add: parts(1))
  next
    case (Cons c cs)
    show ?thesis
    proof (cases "is_link t (canonical @ [c])")
      case True
      then show ?thesis using inside parts Cons by fastforce
    next
      case False
      have "walk t False n [] (existing @ [c]) = None" using parts(3) Cons by (simp add: posix_def)
      then have "t (canonical @ [c]) = None"
        using walk_snoc [OF assms(1) walked, of c] False
        by (cases "t (canonical @ [c])"; cases "the (t (canonical @ [c]))") (auto simp: is_link_def)
      then have below: "\<not> is_link t q" if "prefix (canonical @ [c]) q" for q
        using tree_below [OF assms(1) _ that] by (simp add: is_link_def)
      have "\<not> is_link t q" if "prefix q p" "q \<noteq> []" for q
      proof (cases "prefix q canonical")
        case True
        then show ?thesis using real that(2) by (simp add: real_def)
      next
        case False
        then have "prefix (canonical @ [c]) q" using that(1) unfolding parts(1) Cons
          by (auto simp: prefix_append prefix_Cons)
        then show ?thesis by (rule below)
      qed
      then have "real t p" by (simp add: real_def)
      then show ?thesis using inside reached by blast
    qed
  qed
qed

text \<open>A workspace with a link to a file that does not exist yet, outside the workspace.\<close>

definition dangling_tree :: tree where
  "dangling_tree = [[] \<mapsto> Directory, [''w''] \<mapsto> Directory, [''etc''] \<mapsto> Directory,
     [''w'', ''l''] \<mapsto> SymLink [''etc'', ''new''], [''w'', ''f''] \<mapsto> RegularFile]"

lemma dangling_tree_ok: "tree_ok dangling_tree"
proof -
  have "dangling_tree d = Some Directory" if "dangling_tree (d @ [c]) \<noteq> None" for d c
    using that by (auto simp: dangling_tree_def append_eq_Cons_conv split: if_splits)
  then show ?thesis by (simp add: tree_ok_def dangling_tree_def)
qed

text \<open>A link in the workspace whose target does not exist is taken for a missing name. The path handed
  out lies in the workspace, and writing to it creates the target of the link, outside.\<close>

theorem write_escapes_workspace:
  "resolve_for_write (posix dangling_tree 40) [''w''] ''l'' = Inr [''w'', ''l''] \<and>
   written_file (create_dirs dangling_tree [''w'']) 40 [''w'', ''l''] = Some [''etc'', ''new''] \<and>
   \<not> prefix [''w''] [''etc'', ''new'']"
  by (simp add: resolve_for_write_def lexically_resolve_def text_components_def is_absolute_def ensure_inside_def
      climb.simps posix_def dangling_tree_def map_error_def written_file_def create_dirs_def numeral_eq_Suc)

theorem write_reaches_resolved_witness:
  "resolve_for_write (posix dangling_tree 40) [''w''] ''d/../n'' = Inr [''w'', ''n''] \<and>
   written_file (create_dirs dangling_tree [''w'']) 5 [''w'', ''n''] = Some [''w'', ''n'']"
proof -
  have resolved: "resolve_for_write (posix dangling_tree 40) [''w''] ''d/../n'' = Inr [''w'', ''n'']"
    by (simp add: resolve_for_write_def lexically_resolve_def text_components_def is_absolute_def ensure_inside_def
        climb.simps posix_def dangling_tree_def map_error_def numeral_eq_Suc)
  obtain q where reached: "written_file (create_dirs dangling_tree [''w'']) 5 [''w'', ''n''] = Some q"
    by (simp add: written_file_def create_dirs_def dangling_tree_def)
  have "\<not> is_link dangling_tree q" if "prefix q [''w'', ''n'']" for q
    using that by (auto simp: prefix_Cons is_link_def dangling_tree_def)
  then have "q = [''w'', ''n'']" using write_reaches_resolved [OF dangling_tree_ok resolved] reached by auto
  then show ?thesis using resolved reached by simp
qed

theorem resolved_inside_witness:
  "resolve_existing (posix dangling_tree 40) [''w''] ''d/../f'' = Inr [''w'', ''f''] \<and>
   (\<exists>q. prefix [''w''] q \<and> canonicalize (posix dangling_tree 40) q = Inr [''w'', ''f''])"
proof -
  have "resolve_existing (posix dangling_tree 40) [''w''] ''d/../f'' = Inr [''w'', ''f'']"
    by (simp add: resolve_existing_def lexically_resolve_def text_components_def is_absolute_def ensure_inside_def
        posix_def dangling_tree_def map_error_def numeral_eq_Suc)
  then show ?thesis using resolved_inside [of "posix dangling_tree 40" "[''w'']" "''d/../f''"] by blast
qed

end
