(* ===== verification/Tool_Args.thy ===== *)
theory Tool_Args
  imports Workspace Json Host
begin

text \<open>
  \<open>tea-core/src/tools/arguments.rs\<close>: how the standard tools read their arguments and cut their output.
  Decoding bytes as text replaces each malformed part by the replacement character, as the standard
  library does.
\<close>

section \<open>Bytes as text\<close>

text \<open>The second byte of an encoded character, by its first.\<close>

definition second_ok :: "char \<Rightarrow> char \<Rightarrow> bool" where
  "second_ok a b \<longleftrightarrow> is_continuation b \<and>
     (octet a = 224 \<longrightarrow> 160 \<le> octet b) \<and> (octet a = 237 \<longrightarrow> octet b < 160) \<and>
     (octet a = 240 \<longrightarrow> 144 \<le> octet b) \<and> (octet a = 244 \<longrightarrow> octet b < 144)"

text \<open>The length of the character at the front, or of the malformed part there, and which it is.\<close>

fun utf8_front :: "string \<Rightarrow> nat \<times> bool" where
  "utf8_front [] = (0, True)"
| "utf8_front (a # s) =
     (if octet a < 128 then (1, True)
      else if in_range 194 223 a then
        (case s of b # _ \<Rightarrow> if is_continuation b then (2, True) else (1, False) | [] \<Rightarrow> (1, False))
      else if in_range 224 239 a then
        (case s of
           b # t \<Rightarrow> if \<not> second_ok a b then (1, False)
             else (case t of c # _ \<Rightarrow> if is_continuation c then (3, True) else (2, False) | [] \<Rightarrow> (2, False))
         | [] \<Rightarrow> (1, False))
      else if in_range 240 244 a then
        (case s of
           b # t \<Rightarrow> if \<not> second_ok a b then (1, False)
             else (case t of
                 c # u \<Rightarrow> if \<not> is_continuation c then (2, False)
                   else (case u of d # _ \<Rightarrow> if is_continuation d then (4, True) else (3, False) | [] \<Rightarrow> (3, False))
               | [] \<Rightarrow> (2, False))
         | [] \<Rightarrow> (1, False))
      else (1, False))"

lemma utf8_front_shorter: "s \<noteq> [] \<Longrightarrow> (n, valid) = utf8_front s \<Longrightarrow> length (drop n s) < length s"
  by (cases s) (auto split: list.splits if_splits)

definition replacement_char :: string where
  "replacement_char = [char_of (239 :: nat), char_of (191 :: nat), char_of (189 :: nat)]"

function from_utf8_lossy :: "string \<Rightarrow> string" where
  "from_utf8_lossy s =
     (if s = [] then []
      else let (n, valid) = utf8_front s
        in (if valid then take n s else replacement_char) @ from_utf8_lossy (drop n s))"
  by pat_completeness auto
termination
  by (relation "measure length") (simp, simp only: in_measure, erule utf8_front_shorter, simp)

function is_utf8 :: "string \<Rightarrow> bool" where
  "is_utf8 s = (if s = [] then True else let (n, valid) = utf8_front s in valid \<and> is_utf8 (drop n s))"
  by pat_completeness auto
termination
  by (relation "measure length") (simp, simp only: in_measure, erule utf8_front_shorter, simp)

declare from_utf8_lossy.simps [simp del] is_utf8.simps [simp del]

definition from_utf8 :: "string \<Rightarrow> string option" where
  "from_utf8 s = (if is_utf8 s then Some s else None)"

lemma utf8_front_char: "s \<noteq> [] \<Longrightarrow> utf8_front s = (n, True) \<Longrightarrow> utf8_char (take n s) \<and> n \<le> length s"
  by (cases s) (auto simp: in_range_def second_ok_def split: list.splits if_splits)

lemma utf8_char_front: "utf8_char c \<Longrightarrow> utf8_front (c @ s) = (length c, True)"
  by (cases c rule: utf8_char.cases) (auto simp: in_range_def second_ok_def)

lemma is_utf8_iff: "is_utf8 s \<longleftrightarrow> utf8 s"
proof
  show "is_utf8 s \<Longrightarrow> utf8 s"
  proof (induction s rule: is_utf8.induct)
    case (1 s)
    show ?case
    proof (cases "s = []")
      case False
      obtain n valid where front: "utf8_front s = (n, valid)" by fastforce
      then have "valid" "is_utf8 (drop n s)" using 1(2) False by (subst (asm) is_utf8.simps; simp)+
      then have "utf8 (drop n s)" "utf8_char (take n s)" using 1(1) front False utf8_front_char [OF False, of n] by auto
      then show ?thesis using utf8_Cons by fastforce
    qed (simp add: utf8_Nil)
  qed
  show "utf8 s \<Longrightarrow> is_utf8 s"
  proof (induction rule: utf8.induct)
    case (utf8_Cons c s)
    then show ?case by (subst is_utf8.simps) (simp add: utf8_char_front)
  qed (subst is_utf8.simps, simp)
qed

lemma lossy_utf8: "utf8 (from_utf8_lossy s)"
proof (induction s rule: from_utf8_lossy.induct)
  case (1 s)
  have replacement: "utf8_char replacement_char"
    by (simp add: replacement_char_def in_range_def is_continuation_def octet_def)
  show ?case
  proof (cases "s = []")
    case True
    then show ?thesis by (subst from_utf8_lossy.simps) (simp add: utf8_Nil)
  next
    case False
    obtain n valid where front: "utf8_front s = (n, valid)" by fastforce
    then have "utf8 (from_utf8_lossy (drop n s))" using 1 False by simp
    moreover have "utf8_char (if valid then take n s else replacement_char)"
      using replacement utf8_front_char [OF False, of n] front by auto
    ultimately show ?thesis using False by (subst from_utf8_lossy.simps) (simp only: front Let_def prod.case if_False utf8_Cons)
  qed
qed

lemma lossy_valid: "utf8 s \<Longrightarrow> from_utf8_lossy s = s"
proof (induction rule: utf8.induct)
  case (utf8_Cons c s)
  then have "c \<noteq> []" using utf8_char_shape by fastforce
  then show ?case using utf8_Cons by (subst from_utf8_lossy.simps) (simp add: utf8_char_front)
qed (subst from_utf8_lossy.simps, simp)

section \<open>Arguments\<close>

definition invalid_argument :: "string \<Rightarrow> string \<Rightarrow> tool_error" where
  "invalid_argument name message = ToolInvalidArguments name message"

definition operation_failure :: "string \<Rightarrow> operation_error \<Rightarrow> tool_error" where
  "operation_failure name e = (if e = ''cancelled'' then ToolCancelled name else ToolExecution name e)"

definition result_ok :: "tool_call \<Rightarrow> string \<Rightarrow> agent_tool_result" where
  "result_ok call t = \<lparr>tool_call_id = tc_id call, content = t, details = None, result_usage = None,
     added_tool_names = [], terminate = False, is_error = False, failure = None\<rparr>"

definition parse_object :: "(string \<Rightarrow> mini option) \<Rightarrow> string \<Rightarrow> tool_call \<Rightarrow> tool_error + json btree" where
  "parse_object parser name call = (case json_parse parser (tc_arguments call) of
       Inr v \<Rightarrow> (case as_object v of
           Some es \<Rightarrow> Inr es
         | None \<Rightarrow> Inl (invalid_argument name ''arguments must be a JSON object''))
     | Inl _ \<Rightarrow> Inl (invalid_argument name ''arguments must be valid JSON''))"

text \<open>\<open>{key:?}\<close> of the names of arguments, which are plain literals.\<close>

definition quoted :: "string \<Rightarrow> string" where
  "quoted key = CHR 0x22 # key @ [CHR 0x22]"

definition field :: "string \<Rightarrow> json btree \<Rightarrow> string \<Rightarrow> tool_error + json" where
  "field name es key = (case btree_get es key of
       Some v \<Rightarrow> Inr v
     | None \<Rightarrow> Inl (invalid_argument name (''missing required argument '' @ quoted key)))"

definition typed :: "string \<Rightarrow> string \<Rightarrow> string \<Rightarrow> (json \<Rightarrow> 'a option) \<Rightarrow> json \<Rightarrow> tool_error + 'a" where
  "typed name key kind get v = (case get v of
       Some x \<Rightarrow> Inr x
     | None \<Rightarrow> Inl (invalid_argument name (''argument '' @ quoted key @ '' must be a '' @ kind)))"

definition string_field :: "string \<Rightarrow> json btree \<Rightarrow> string \<Rightarrow> tool_error + string" where
  "string_field name es key = and_then (field name es key) (typed name key ''string'' as_str)"

definition optional :: "json btree \<Rightarrow> string \<Rightarrow> (json \<Rightarrow> tool_error + 'a) \<Rightarrow> tool_error + 'a option" where
  "optional es key read = (case btree_get es key of
       None \<Rightarrow> Inr None
     | Some v \<Rightarrow> and_then (read v) (\<lambda>x. Inr (Some x)))"

definition optional_string :: "string \<Rightarrow> json btree \<Rightarrow> string \<Rightarrow> tool_error + string option" where
  "optional_string name es key = optional es key (typed name key ''string'' as_str)"

definition optional_bool :: "string \<Rightarrow> json btree \<Rightarrow> string \<Rightarrow> tool_error + bool option" where
  "optional_bool name es key = optional es key (typed name key ''boolean'' as_bool)"

text \<open>\<open>fract() == 0.0\<close> and \<open>as u64\<close>, which saturates, on a positive finite number.\<close>

definition f64_integral :: "nat \<Rightarrow> int \<Rightarrow> bool" where
  "f64_integral mant e \<longleftrightarrow> 0 \<le> e \<or> mant mod 2 ^ nat (- e) = 0"

definition f64_to_u64 :: "nat \<Rightarrow> int \<Rightarrow> nat" where
  "f64_to_u64 mant e = min (if 0 \<le> e then mant * 2 ^ nat e else mant div 2 ^ nat (- e)) (2 ^ 64 - 1)"

definition number_to_usize :: "string \<Rightarrow> string \<Rightarrow> json \<Rightarrow> tool_error + nat" where
  "number_to_usize name key v =
     (let bad = Inl (invalid_argument name (''argument '' @ quoted key @ '' must be a positive integer'')) in
      case v of
        JNumber (Unsigned n) \<Rightarrow> if 0 < n then Inr (unat n) else bad
      | JNumber (Signed n) \<Rightarrow> if 0 < sint n then Inr (unat n) else bad
      | JNumber (Float x) \<Rightarrow> (case x of
            Finite neg mant e \<Rightarrow> if \<not> neg \<and> 0 < mant \<and> f64_integral mant e then Inr (f64_to_u64 mant e) else bad
          | _ \<Rightarrow> bad)
      | _ \<Rightarrow> Inl (invalid_argument name (''argument '' @ quoted key @ '' must be a number'')))"

definition optional_positive_usize :: "string \<Rightarrow> json btree \<Rightarrow> string \<Rightarrow> tool_error + nat option" where
  "optional_positive_usize name es key = optional es key (number_to_usize name key)"

text \<open>The \<open>f64\<close> nearest to 2147483.647.\<close>

definition timeout_limit :: f64 where
  "timeout_limit = Finite False 4611686016279904 (- 31)"

definition optional_timeout :: "string \<Rightarrow> json btree \<Rightarrow> tool_error + f64 option" where
  "optional_timeout name es = (case btree_get es ''timeout'' of
       None \<Rightarrow> Inr None
     | Some v \<Rightarrow> (case as_f64 v of
           None \<Rightarrow> Inl (invalid_argument name (''argument '' @ quoted ''timeout'' @ '' must be a number''))
         | Some x \<Rightarrow>
             if \<not> f64_finite x \<or> f64_le x (Finite False 0 0) \<or> f64_lt timeout_limit x
             then Inl (invalid_argument name ''timeout must be a finite positive number no greater than 2147483.647 seconds'')
             else Inr (Some x)))"

definition path_error :: "string \<Rightarrow> operation_error + path \<Rightarrow> tool_error + path" where
  "path_error name r = map_error (operation_failure name) r"

definition check_cancelled :: "string \<Rightarrow> bool \<Rightarrow> tool_error + unit" where
  "check_cancelled name stop = (if stop then Inl (ToolCancelled name) else Inr ())"

section \<open>Lines\<close>

text \<open>\<open>split('\n')\<close>, \<open>join("\n")\<close> and \<open>lines()\<close>, which drops a final empty part and a carriage return
  before a line break.\<close>

fun split_lines :: "string \<Rightarrow> string list" where
  "split_lines [] = [[]]"
| "split_lines (c # cs) =
     (if c = CHR 0x0A then [] # split_lines cs
      else (case split_lines cs of [] \<Rightarrow> [[c]] | l # ls \<Rightarrow> (c # l) # ls))"

definition strip_return :: "string \<Rightarrow> string" where
  "strip_return l = (if l \<noteq> [] \<and> last l = CHR 0x0D then butlast l else l)"

definition text_lines :: "string \<Rightarrow> string list" where
  "text_lines s =
     (let parts = split_lines s
      in map strip_return (butlast parts) @ (if last parts = [] then [] else [last parts]))"

section \<open>Output\<close>

definition max_output_bytes :: nat where
  "max_output_bytes = 50 * 1024"

definition max_output_lines :: nat where
  "max_output_lines = 2000"

definition truncate_output :: "string \<Rightarrow> string \<times> bool" where
  "truncate_output bytes =
     (let all_lines = text_lines (from_utf8_lossy bytes);
          many = max_output_lines < length all_lines;
          kept = (if many then drop (length all_lines - max_output_lines) all_lines else all_lines);
          output = join_lines kept
      in if max_output_bytes < length output
         then (drop (boundary_above output (length output - max_output_bytes)) output, True)
         else (output, many))"

fun take_lines :: "string \<Rightarrow> bool \<Rightarrow> string list \<Rightarrow> string" where
  "take_lines out start [] = out"
| "take_lines out start (l # ls) =
     (let separator = (if start then 0 else 1)
      in if max_output_bytes < length out + separator + length l then out
         else take_lines (out @ (if start then [] else [CHR 0x0A]) @ l) False ls)"

definition truncate_read_output :: "string \<Rightarrow> string \<times> bool" where
  "truncate_read_output bytes =
     (let t = from_utf8_lossy bytes;
          parts = split_lines t;
          parts = (if t \<noteq> [] \<and> last t = CHR 0x0A then butlast parts else parts)
      in if length parts \<le> max_output_lines \<and> length t \<le> max_output_bytes then (t, False)
         else (take_lines [] True (take max_output_lines parts), True))"

text \<open>Lines joined by breaks, a number of them kept.\<close>

definition breaks :: "string \<Rightarrow> nat" where
  "breaks s = length (filter (\<lambda>c. c = CHR 0x0A) s)"

lemma breaks_append [simp]: "breaks (a @ b) = breaks a + breaks b" "breaks [] = 0"
  "breaks (c # a) = (if c = CHR 0x0A then Suc (breaks a) else breaks a)"
  by (simp_all add: breaks_def)

lemma split_nonempty [simp]: "split_lines s \<noteq> []"
  by (cases s) (auto split: list.split)

lemma split_lines_breaks: "\<forall>l \<in> set (split_lines s). breaks l = 0"
  by (induction s) (auto split: list.splits)

lemma join_breaks: "\<forall>l \<in> set ls. breaks l = 0 \<Longrightarrow> breaks (join_lines ls) = length ls - 1"
  by (induction ls rule: join_lines.induct) auto

lemma text_lines_breaks: "\<forall>l \<in> set (text_lines s). breaks l = 0"
proof -
  have strip: "breaks (strip_return l) = 0" if "breaks l = 0" for l
    using that by (cases l rule: rev_cases) (simp_all add: strip_return_def)
  have parts: "breaks l = 0" if "l \<in> set (split_lines s)" for l using split_lines_breaks that by blast
  have "breaks (last (split_lines s)) = 0" by (rule parts) simp
  moreover have "breaks l = 0" if "l \<in> set (butlast (split_lines s))" for l
    by (rule parts, rule in_set_butlastD, rule that)
  ultimately show ?thesis unfolding text_lines_def Let_def by (simp add: strip ball_Un)
qed

lemma breaks_drop: "breaks (drop n s) \<le> breaks s"
  by (metis append_take_drop_id breaks_append(1) le_add2)

lemma breaks_take: "breaks (take n s) \<le> breaks s"
  by (metis append_take_drop_id breaks_append(1) le_add1)

lemma take_lines_bound: "length out \<le> max_output_bytes \<Longrightarrow> length (take_lines out start ls) \<le> max_output_bytes"
  by (induction ls arbitrary: out start) (auto simp: Let_def)

text \<open>The lines taken are a prefix of those offered.\<close>

lemma take_lines_prefix:
  "\<exists>k. take_lines out start ls =
     out @ (if take k ls = [] then [] else (if start then [] else [CHR 0x0A]) @ join_lines (take k ls))"
proof (induction ls arbitrary: out start)
  case (Cons l ls)
  show ?case
  proof (cases "max_output_bytes < length out + (if start then 0 else 1) + length l")
    case True
    then show ?thesis by (intro exI [of _ 0]) (simp add: Let_def)
  next
    case False
    obtain k where "take_lines (out @ (if start then [] else [CHR 0x0A]) @ l) False ls =
        (out @ (if start then [] else [CHR 0x0A]) @ l) @ (if take k ls = [] then [] else [CHR 0x0A] @ join_lines (take k ls))"
      using Cons.IH [of "out @ (if start then [] else [CHR 0x0A]) @ l" False] unfolding if_False by auto
    moreover have "join_lines (l # take k ls) = l @ (if take k ls = [] then [] else [CHR 0x0A] @ join_lines (take k ls))"
      by (cases "take k ls") (simp_all only: join_lines.simps if_True append_Nil2 list.distinct simp_thms if_False append.simps)
    ultimately show ?thesis using False by (intro exI [of _ "Suc k"]) (simp add: Let_def)
  qed
qed simp

lemma join_take_breaks: "\<forall>l \<in> set ls. breaks l = 0 \<Longrightarrow> breaks (join_lines (take k ls)) \<le> k - 1"
proof -
  assume "\<forall>l \<in> set ls. breaks l = 0"
  then have "breaks (join_lines (take k ls)) = length (take k ls) - 1"
    by (intro join_breaks) (auto dest: in_set_takeD)
  then show ?thesis by simp
qed

lemma boundary_above_ge: "i \<le> boundary_above s i"
proof (induction s i rule: boundary_above.induct)
  case (1 s i)
  then show ?case by (subst boundary_above.simps) (auto simp del: boundary_above.simps)
qed

lemma truncate_output_bounded:
  "length (fst (truncate_output bytes)) \<le> max_output_bytes" "breaks (fst (truncate_output bytes)) < max_output_lines"
proof -
  let ?lines = "text_lines (from_utf8_lossy bytes)"
  define kept where "kept = (if max_output_lines < length ?lines then drop (length ?lines - max_output_lines) ?lines else ?lines)"
  have "\<forall>l \<in> set kept. breaks l = 0" using text_lines_breaks by (auto simp: kept_def dest: in_set_dropD)
  moreover have "length kept \<le> max_output_lines" by (auto simp: kept_def)
  ultimately have breaks: "breaks (join_lines kept) < max_output_lines"
    using join_breaks [of kept] by (simp add: max_output_lines_def)
  show "breaks (fst (truncate_output bytes)) < max_output_lines"
    using breaks order.strict_trans1 [OF breaks_drop breaks]
    by (simp add: truncate_output_def Let_def kept_def [symmetric] split: if_split)
  show "length (fst (truncate_output bytes)) \<le> max_output_bytes"
    using boundary_above_ge [of "length (join_lines kept) - max_output_bytes" "join_lines kept"]
    by (auto simp: truncate_output_def Let_def kept_def [symmetric] simp del: boundary_above.simps)
qed

lemma truncate_read_bounded:
  "length (fst (truncate_read_output bytes)) \<le> max_output_bytes" "breaks (fst (truncate_read_output bytes)) \<le> max_output_lines"
  "\<not> snd (truncate_read_output bytes) \<Longrightarrow> fst (truncate_read_output bytes) = from_utf8_lossy bytes"
proof -
  let ?t = "from_utf8_lossy bytes"
  let ?all = "split_lines ?t"
  define parts where "parts = (if ?t \<noteq> [] \<and> last ?t = CHR 0x0A then butlast ?all else ?all)"
  have all: "breaks ?t = length ?all - 1" for s
  proof -
    have "join_lines (split_lines s) = s" for s
    proof (induction s)
      case (Cons c s)
      obtain l ls where split: "split_lines s = l # ls" by (cases "split_lines s") auto
      have "join_lines ((c # l) # ls) = c # join_lines (l # ls)" by (cases ls) simp_all
      moreover have "join_lines ([] # l # ls) = CHR 0x0A # join_lines (l # ls)" by simp
      ultimately show ?case using Cons by (simp add: split)
    qed simp
    then show ?thesis using join_breaks [OF split_lines_breaks, of ?t] by simp
  qed
  have lines: "\<forall>l \<in> set parts. breaks l = 0"
    using split_lines_breaks [of ?t] by (auto simp: parts_def dest: in_set_butlastD)
  obtain k where k: "take_lines [] True (take max_output_lines parts) = join_lines (take k (take max_output_lines parts))"
    using take_lines_prefix [of "[]" True "take max_output_lines parts"] by (metis append_Nil join_lines.simps(1))
  have taken: "breaks (join_lines (take k (take max_output_lines parts))) \<le> max_output_lines"
    using join_take_breaks [OF lines, of "min k max_output_lines"] by (simp add: take_take)
  have "breaks ?t \<le> max_output_lines" if "length parts \<le> max_output_lines"
    using all that by (auto simp: parts_def split: if_splits)
  then show "breaks (fst (truncate_read_output bytes)) \<le> max_output_lines"
    using taken by (simp add: truncate_read_output_def Let_def parts_def [symmetric] k)
  show "length (fst (truncate_read_output bytes)) \<le> max_output_bytes"
    using take_lines_bound [of "[]"] by (simp add: truncate_read_output_def Let_def parts_def [symmetric])
  show "\<not> snd (truncate_read_output bytes) \<Longrightarrow> fst (truncate_read_output bytes) = ?t"
    by (auto simp: truncate_read_output_def Let_def split: if_splits)
qed

end
