(* ===== verification/Edit_Tool.thy ===== *)
theory Edit_Tool
  imports Tool_Args "HOL-Library.Multiset"
begin

text \<open>
  The text transformation of the edit tool (\<open>tea-core/src/tools/edit.rs\<close>): every old text is located in the
  original, the regions are ordered and must not overlap, and they are replaced from the last to the first.
  Replacing a range panics, which is \<open>None\<close>, unless it lies in the text on character boundaries.
\<close>

record edit_spec =
  es_old :: string
  es_new :: string

text \<open>\<open>match_indices\<close>: the occurrences found from the left, each after the end of the one before.\<close>

function match_indices :: "string \<Rightarrow> string \<Rightarrow> nat \<Rightarrow> nat list" where
  "match_indices pat s base =
     (if pat = [] \<or> s = [] then []
      else if prefix pat s then base # match_indices pat (drop (length pat) s) (base + length pat)
      else match_indices pat (tl s) (base + 1))"
  by pat_completeness auto
termination by (relation "measure (\<lambda>(pat, s, base). length s)") auto

declare match_indices.simps [simp del]

type_synonym location = "nat \<times> nat \<times> edit_spec"

fun locate :: "string \<Rightarrow> edit_spec list \<Rightarrow> tool_error + location list" where
  "locate s [] = Inr []"
| "locate s (e # es) =
     (if es_old e = [] then Inl (ToolInvalidArguments ''edit'' ''oldText cannot be empty'')
      else let found = match_indices (es_old e) s 0
        in if length found \<noteq> 1
           then Inl (ToolExecution ''edit''
             (''oldText must match exactly once; found '' @ decimal_text (length found) @ '' matches''))
           else and_then (locate s es) (\<lambda>ls. Inr ((hd found, hd found + length (es_old e), e) # ls)))"

fun overlapping :: "location list \<Rightarrow> bool" where
  "overlapping (a # b # ls) \<longleftrightarrow> fst b < fst (snd a) \<or> overlapping (b # ls)"
| "overlapping _ \<longleftrightarrow> False"

definition replace_range :: "nat \<Rightarrow> nat \<Rightarrow> string \<Rightarrow> string \<Rightarrow> string option" where
  "replace_range start stop new s =
     (if start \<le> stop \<and> stop \<le> length s \<and> is_char_boundary s start \<and> is_char_boundary s stop
      then Some (take start s @ new @ drop stop s) else None)"

fun replace_all :: "location list \<Rightarrow> string \<Rightarrow> string option" where
  "replace_all [] s = Some s"
| "replace_all ((start, stop, e) # ls) s = Option.bind (replace_range start stop (es_new e) s) (replace_all ls)"

definition edit_text :: "string \<Rightarrow> edit_spec list \<Rightarrow> (tool_error + string) option" where
  "edit_text s es = (case locate s es of
       Inl e \<Rightarrow> Some (Inl e)
     | Inr ls \<Rightarrow>
         let ls = sort_key fst ls
         in if overlapping ls then Some (Inl (ToolExecution ''edit'' ''edits overlap in the original file''))
            else map_option Inr (replace_all (rev ls) s))"

fun parse_edits :: "string \<Rightarrow> json list \<Rightarrow> tool_error + edit_spec list" where
  "parse_edits name [] = Inr []"
| "parse_edits name (v # vs) = (case as_object v of
       None \<Rightarrow> Inl (invalid_argument name ''each edit must be an object'')
     | Some es \<Rightarrow>
         and_then (string_field name es ''oldText'') (\<lambda>old.
         and_then (string_field name es ''newText'') (\<lambda>new.
         and_then (parse_edits name vs) (\<lambda>specs.
           Inr (\<lparr>es_old = old, es_new = new\<rparr> # specs)))))"

definition parse_edit_args :: "(string \<Rightarrow> mini option) \<Rightarrow> string \<Rightarrow> tool_call \<Rightarrow> tool_error + (string \<times> edit_spec list)" where
  "parse_edit_args parser name call =
     and_then (parse_object parser name call) (\<lambda>es.
     and_then (string_field name es ''path'') (\<lambda>path.
     and_then (field name es ''edits'') (\<lambda>v. case as_array v of
         None \<Rightarrow> Inl (invalid_argument name ''argument \"edits\" must be an array'')
       | Some vs \<Rightarrow>
           if vs = [] then Inl (invalid_argument name ''argument \"edits\" cannot be empty'')
           else and_then (parse_edits name vs) (\<lambda>specs. Inr (path, specs)))))"

section \<open>Occurrences\<close>

definition occurs_at :: "string \<Rightarrow> string \<Rightarrow> nat \<Rightarrow> bool" where
  "occurs_at pat s i \<longleftrightarrow> i + length pat \<le> length s \<and> take (length pat) (drop i s) = pat"

lemma prefix_occurs: "prefix pat s \<longleftrightarrow> occurs_at pat s 0"
  by (auto simp: occurs_at_def prefix_def) (metis append_take_drop_id)

lemma match_indices_occurs:
  "i \<in> set (match_indices pat s base) \<Longrightarrow> base \<le> i \<and> occurs_at pat s (i - base)"
proof (induction pat s base rule: match_indices.induct)
  case (1 pat s base)
  show ?case
  proof (cases "pat = [] \<or> s = []")
    case True
    then show ?thesis using 1 by (subst (asm) match_indices.simps) simp
  next
    case False
    consider "i = base" "prefix pat s" | "prefix pat s" "i \<in> set (match_indices pat (drop (length pat) s) (base + length pat))"
      | "\<not> prefix pat s" "i \<in> set (match_indices pat (tl s) (base + 1))"
      using 1(3) False by (subst (asm) match_indices.simps) (auto split: if_splits)
    then show ?thesis
    proof cases
      case 1
      then show ?thesis by (simp add: prefix_occurs)
    next
      case 2
      then have "base + length pat \<le> i" "occurs_at pat (drop (length pat) s) (i - (base + length pat))"
        using "1.IH"(1) False by auto
      moreover have "length pat + (i - (base + length pat)) = i - base" using calculation(1) by simp
      ultimately show ?thesis by (auto simp: occurs_at_def)
    next
      case 3
      then have "base + 1 \<le> i" "occurs_at pat (tl s) (i - (base + 1))" using "1.IH"(2) False by auto
      moreover have "drop (i - (base + 1)) (tl s) = drop (i - base) s"
        using calculation(1) by (simp add: drop_Suc [symmetric] Suc_diff_Suc)
      ultimately show ?thesis using False by (cases s) (auto simp: occurs_at_def)
    qed
  qed
qed

text \<open>Text that does not occur is not found, and text that occurs is.\<close>

lemma match_indices_Nil:
  "pat \<noteq> [] \<Longrightarrow> match_indices pat s base = [] \<longleftrightarrow> (\<forall>i. \<not> occurs_at pat s i)"
proof (induction pat s base rule: match_indices.induct)
  case (1 pat s base)
  have shift: "occurs_at pat s (Suc i) \<longleftrightarrow> occurs_at pat (tl s) i" if "s \<noteq> []" for i
    using that by (cases s) (auto simp: occurs_at_def)
  show ?case
  proof (cases "s = []")
    case True
    then show ?thesis using 1(3) by (subst match_indices.simps) (simp add: occurs_at_def)
  next
    case False
    have "(\<forall>i. \<not> occurs_at pat s i) \<longleftrightarrow> \<not> occurs_at pat s 0 \<and> (\<forall>i. \<not> occurs_at pat (tl s) i)"
      using shift [OF False] by (metis not0_implies_Suc)
    then show ?thesis using 1 False by (subst match_indices.simps) (auto simp: prefix_occurs)
  qed
qed

subsection \<open>Decoding is unique\<close>

lemma utf8_cancel: "utf8 a \<Longrightarrow> utf8 (a @ b) \<Longrightarrow> utf8 b"
proof (induction rule: utf8.induct)
  case (utf8_Cons c a)
  have "c \<noteq> []" using utf8_Cons.hyps(1) utf8_char_shape by fastforce
  moreover have "utf8_front (c @ a @ b) = (length c, True)" by (rule utf8_char_front) (rule utf8_Cons.hyps(1))
  moreover have "is_utf8 (c @ a @ b)" using utf8_Cons.prems by (simp add: is_utf8_iff)
  ultimately have "is_utf8 (a @ b)" by (subst (asm) is_utf8.simps) simp
  then show ?case using utf8_Cons.IH by (simp add: is_utf8_iff)
qed simp

lemma occurs_boundary:
  assumes "utf8 s" "utf8 pat" "pat \<noteq> []" "occurs_at pat s i"
  shows "is_char_boundary s i" "is_char_boundary s (i + length pat)"
proof -
  have s: "i + length pat \<le> length s" "take (length pat) (drop i s) = pat" using assms(4) by (simp_all add: occurs_at_def)
  have "0 < length pat" using assms(3) by simp
  then have "s ! i = pat ! 0" using s by (metis add_leE add.right_neutral nth_drop nth_take)
  moreover have "i < length s" using s(1) \<open>0 < length pat\<close> by linarith
  ultimately show start: "is_char_boundary s i"
    using utf8_head [OF assms(2,3)] by (simp add: is_char_boundary_def)
  have "drop i s = pat @ drop (i + length pat) s"
    using append_take_drop_id [of "length pat" "drop i s"] s(2) by (simp add: add.commute)
  then have rest: "utf8 (drop (i + length pat) s)"
    using utf8_split [OF assms(1) start] utf8_cancel [OF assms(2)] by metis
  show "is_char_boundary s (i + length pat)"
  proof (cases "i + length pat = length s")
    case False
    then have "drop (i + length pat) s ! 0 = s ! (i + length pat)" "drop (i + length pat) s \<noteq> []" using s by auto
    then show ?thesis using utf8_head [OF rest] s(1) False by (simp add: is_char_boundary_def)
  qed (simp add: is_char_boundary_def)
qed

section \<open>Replacing regions\<close>

text \<open>Regions in order from a position on, and the text built from the gaps between them and the new texts.\<close>

fun in_order :: "string \<Rightarrow> nat \<Rightarrow> location list \<Rightarrow> bool" where
  "in_order s k [] \<longleftrightarrow> k \<le> length s"
| "in_order s k ((a, b, e) # ls) \<longleftrightarrow>
     k \<le> a \<and> b = a + length (es_old e) \<and> es_old e \<noteq> [] \<and> occurs_at (es_old e) s a \<and> in_order s b ls"

fun build :: "string \<Rightarrow> nat \<Rightarrow> location list \<Rightarrow> string" where
  "build s k [] = drop k s"
| "build s k ((a, b, e) # ls) = take (a - k) (drop k s) @ es_new e @ build s b ls"

lemma build_utf8:
  "utf8 s \<Longrightarrow> in_order s k ls \<Longrightarrow> is_char_boundary s k \<Longrightarrow> \<forall>(a, b, e) \<in> set ls. utf8 (es_old e) \<and> utf8 (es_new e) \<Longrightarrow>
    utf8 (build s k ls)"
proof (induction s k ls rule: build.induct)
  case (1 s k)
  then show ?case using utf8_split [of s k] by simp
next
  case (2 s k a b e ls)
  have bounds: "is_char_boundary s a" "is_char_boundary s b" and occ: "k \<le> a" "a \<le> length s"
    using occurs_boundary [of s "es_old e" a] 2 by (auto simp: occurs_at_def)
  have "is_char_boundary (drop k s) (a - k)"
    using bounds(1) occ by (auto simp: is_char_boundary_def)
  then have "utf8 (take (a - k) (drop k s))" using utf8_split [of s k] utf8_split 2(2,4) by blast
  then show ?case using 2 bounds by (auto intro!: utf8_append)
qed

lemma in_order_length: "in_order s k ls \<Longrightarrow> k \<le> length s"
  by (induction s k ls rule: in_order.induct) (auto simp: occurs_at_def)

lemma replace_all_append: "replace_all (ls @ ms) s = Option.bind (replace_all ls s) (replace_all ms)"
  by (induction ls s rule: replace_all.induct) (auto simp: Option.bind_assoc intro!: Option.bind_cong)

lemma replace_in_order:
  assumes "utf8 s" "\<forall>(a, b, e) \<in> set ls. utf8 (es_old e) \<and> utf8 (es_new e)"
  shows "in_order s k ls \<Longrightarrow> is_char_boundary s k \<Longrightarrow> replace_all (rev ls) s = Some (take k s @ build s k ls)"
  using assms(2)
proof (induction ls arbitrary: k)
  case (Cons l ls)
  obtain a b e where l: "l = (a, b, e)" by (cases l)
  have old: "utf8 (es_old e)" "es_old e \<noteq> []" "occurs_at (es_old e) s a" "b = a + length (es_old e)" "k \<le> a" "in_order s b ls"
    using Cons.prems by (auto simp: l)
  have bounds: "is_char_boundary s a" "is_char_boundary s b"
    using occurs_boundary [OF assms(1) old(1-3)] old(4) by auto
  have length: "b \<le> length s" using in_order_length [OF old(6)] .
  define t where "t = take b s @ build s b ls"
  have "replace_all (rev ls) s = Some t" using Cons.IH [OF old(6) bounds(2)] Cons.prems(3) by (simp add: t_def)
  moreover have "replace_range a b (es_new e) t = Some (take a s @ es_new e @ build s b ls)"
  proof -
    have "a < b" using old by simp
    then have at: "t ! a = s ! a" "a < length t" using length by (simp_all add: t_def nth_append)
    have "utf8 (build s b ls)" using build_utf8 [OF assms(1) old(6) bounds(2)] Cons.prems(3) by simp
    then have "is_char_boundary t b"
      using length utf8_head by (cases "build s b ls = []") (fastforce simp: t_def is_char_boundary_def nth_append)+
    moreover have "is_char_boundary t a"
      using bounds(1) at \<open>a < b\<close> length by (auto simp: is_char_boundary_def)
    ultimately show ?thesis using \<open>a < b\<close> length by (simp add: replace_range_def t_def)
  qed
  moreover have "take k s @ take (a - k) (drop k s) = take a s"
    using old(5) by (metis le_add_diff_inverse take_add)
  ultimately show ?case by (simp add: l replace_all_append)
qed simp

section \<open>Locating regions\<close>

definition located :: "string \<Rightarrow> location \<Rightarrow> bool" where
  "located s l \<longleftrightarrow> (case l of (a, b, e) \<Rightarrow>
     es_old e \<noteq> [] \<and> match_indices (es_old e) s 0 = [a] \<and> b = a + length (es_old e))"

lemma locate_Inr:
  "locate s es = Inr ls \<longleftrightarrow> map (\<lambda>(a, b, e). e) ls = es \<and> (\<forall>l \<in> set ls. located s l)"
proof (induction es arbitrary: ls)
  case (Cons e es)
  have one: "length found = 1 \<longleftrightarrow> found = [hd found]" for found :: "nat list"
    by (cases found) auto
  show ?case
  proof (cases "es_old e \<noteq> [] \<and> length (match_indices (es_old e) s 0) = 1")
    case True
    let ?a = "hd (match_indices (es_old e) s 0)"
    have found: "match_indices (es_old e) s 0 = [?a]" using True one by blast
    have "locate s (e # es) = Inr ls \<longleftrightarrow> (\<exists>ms. locate s es = Inr ms \<and> ls = (?a, ?a + length (es_old e), e) # ms)"
      using True by (auto simp: and_then_Inr Let_def)
    also have "\<dots> \<longleftrightarrow> map (\<lambda>(a, b, e). e) ls = e # es \<and> (\<forall>l \<in> set ls. located s l)"
      using True found unfolding Cons.IH by (cases ls) (auto simp: located_def)
    finally show ?thesis .
  next
    case False
    then have "locate s (e # es) \<noteq> Inr ls" by (auto simp: Let_def)
    moreover have "\<not> located s (a, b, e)" for a b using False by (auto simp: located_def)
    ultimately show ?thesis by (cases ls) auto
  qed
qed auto

lemma in_order_if:
  "\<forall>l \<in> set ls. located s l \<Longrightarrow> \<not> overlapping ls \<Longrightarrow> (ls \<noteq> [] \<longrightarrow> k \<le> fst (hd ls)) \<Longrightarrow> k \<le> length s \<Longrightarrow> in_order s k ls"
proof (induction ls arbitrary: k)
  case (Cons l ls)
  obtain a b e where l: "l = (a, b, e)" by (cases l)
  have "a \<in> set (match_indices (es_old e) s 0)" using Cons.prems(1) by (simp add: l located_def)
  from match_indices_occurs [OF this] have occ: "occurs_at (es_old e) s a" by simp
  have "b = a + length (es_old e)" "es_old e \<noteq> []" using Cons.prems(1) by (simp_all add: l located_def)
  moreover have "b \<le> length s" using occ calculation by (simp add: occurs_at_def)
  moreover have "\<not> overlapping ls \<and> (ls \<noteq> [] \<longrightarrow> b \<le> fst (hd ls))"
    using Cons.prems(2) by (cases ls) (auto simp: l not_less)
  ultimately show ?case using Cons.IH [of b] Cons.prems occ by (simp add: l)
qed simp

section \<open>Properties\<close>

text \<open>Gaps with texts between them.\<close>

fun weave :: "string list \<Rightarrow> string list \<Rightarrow> string" where
  "weave (g # gs) (p # ps) = g @ p @ weave gs ps"
| "weave gs ps = concat gs"

fun gaps :: "string \<Rightarrow> nat \<Rightarrow> location list \<Rightarrow> string list" where
  "gaps s k [] = [drop k s]"
| "gaps s k ((a, b, e) # ls) = take (a - k) (drop k s) # gaps s b ls"

lemma weave_gaps:
  "in_order s k ls \<Longrightarrow> weave (gaps s k ls) (map (\<lambda>l. es_old (snd (snd l))) ls) = drop k s"
proof (induction s k ls rule: gaps.induct)
  case (2 s k a b e ls)
  then have parts: "k \<le> a" "b = a + length (es_old e)" "take (length (es_old e)) (drop a s) = es_old e"
    by (auto simp: occurs_at_def)
  have "take (a - k) (drop k s) @ drop a s = drop k s"
    using parts(1) by (metis append_take_drop_id drop_drop le_add_diff_inverse2)
  moreover have "es_old e @ drop b s = drop a s"
    using append_take_drop_id [of "length (es_old e)" "drop a s"] parts by (simp add: add.commute)
  moreover have "weave (gaps s b ls) (map (\<lambda>l. es_old (snd (snd l))) ls) = drop b s"
    by (rule "2.IH") (use "2.prems" in auto)
  ultimately show ?case by (simp only: gaps.simps list.map weave.simps snd_conv)
qed simp

lemma build_weave: "build s k ls = weave (gaps s k ls) (map (\<lambda>l. es_new (snd (snd l))) ls)"
  by (induction s k ls rule: gaps.induct) simp_all

lemma length_gaps: "length (gaps s k ls) = Suc (length ls)"
  by (induction s k ls rule: gaps.induct) simp_all

text \<open>Edits whose old texts are non-empty, found once, and in regions that do not overlap.\<close>

definition editable :: "string \<Rightarrow> edit_spec list \<Rightarrow> bool" where
  "editable s es \<longleftrightarrow> (\<exists>ls. map (\<lambda>(a, b, e). e) ls = es \<and> (\<forall>l \<in> set ls. located s l) \<and> \<not> overlapping (sort_key fst ls))"


lemma ascii_utf8: "\<forall>c \<in> set s. octet c < 128 \<Longrightarrow> utf8 s"
proof (induction s)
  case (Cons c s)
  then show ?case using utf8_Cons [of "[c]" s] by (simp add: in_range_def)
qed (simp add: utf8_Nil)

definition sample_edits :: "edit_spec list" where
  "sample_edits = [\<lparr>es_old = ''c'', es_new = ''xyz''\<rparr>, \<lparr>es_old = ''ab'', es_new = []\<rparr>]"

lemma sample_editable: "editable ''abbc'' sample_edits"
proof -
  have "located ''abbc'' (3, 4, \<lparr>es_old = ''c'', es_new = ''xyz''\<rparr>)" "located ''abbc'' (0, 2, \<lparr>es_old = ''ab'', es_new = []\<rparr>)"
    by (simp_all add: located_def match_indices.simps numeral_eq_Suc)
  then show ?thesis unfolding editable_def sample_edits_def
    by (intro exI [of _ "[(3, 4, \<lparr>es_old = ''c'', es_new = ''xyz''\<rparr>), (0, 2, \<lparr>es_old = ''ab'', es_new = []\<rparr>)]"]) simp
qed


text \<open>An old text that occurs twice, overlapping itself, counts as found once.\<close>

lemma overlapping_occurrences_edited:
  "edit_text ''aaa'' [\<lparr>es_old = ''aa'', es_new = ''b''\<rparr>] = Some (Inr ''ba'') \<and>
   occurs_at ''aa'' ''aaa'' 0 \<and> occurs_at ''aa'' ''aaa'' 1"
  by (simp add: edit_text_def match_indices.simps replace_range_def is_char_boundary_def is_continuation_def octet_def occurs_at_def)

end
