(* ===== verification/Search.thy ===== *)
theory Search
  imports Prelude "HOL-Library.Sublist"
begin

text \<open>
  The matchers of the search tools (\<open>tea-core/src/tools/search.rs\<close>): globs and a small pattern language.
  Both work on bytes, so positions are positions in the byte list. Lower-casing follows the Unicode tables
  and is a parameter.
\<close>

section \<open>Globs\<close>

definition with_slashes :: "string \<Rightarrow> string" where
  "with_slashes s = map (\<lambda>c. if c = CHR 0x5C then CHR ''/'' else c) s"

definition glob_new :: "string \<Rightarrow> string + string" where
  "glob_new pattern =
     (if pattern = [] \<or> CHR 0x00 \<in> set pattern then Inl ''glob pattern cannot be empty or contain NUL''
      else Inr (with_slashes pattern))"

text \<open>The recursion of \<open>match_at\<close> on what is left of pattern and text, and its loop after a star.\<close>

function glob_at :: "string \<Rightarrow> string \<Rightarrow> bool"
  and glob_star :: "bool \<Rightarrow> string \<Rightarrow> string \<Rightarrow> bool" where
  "glob_at [] t \<longleftrightarrow> t = []"
| "glob_at (p # ps) t \<longleftrightarrow>
     (if p = CHR ''*'' then
        (let double = (ps \<noteq> [] \<and> hd ps = CHR ''*'');
             follow = (if double then tl ps else ps)
         in double \<and> follow \<noteq> [] \<and> hd follow = CHR ''/'' \<and> glob_at (tl follow) t \<or> glob_star double follow t)
      else (case t of
          c # cs \<Rightarrow> (p = CHR ''?'' \<or> p = c) \<and> glob_at ps cs
        | [] \<Rightarrow> False))"
| "glob_star double follow t \<longleftrightarrow>
     glob_at follow t \<or>
     (case t of
        [] \<Rightarrow> False
      | c # cs \<Rightarrow> if \<not> double \<and> c = CHR ''/'' then False else glob_star double follow cs)"
  by pat_completeness auto
termination
  by (relation "measures [\<lambda>x. case x of Inl (p, t) \<Rightarrow> length p + length t | Inr (d, p, t) \<Rightarrow> length p + length t,
      \<lambda>x. case x of Inl _ \<Rightarrow> 0 | Inr _ \<Rightarrow> 1]") auto

declare glob_at.simps [simp del] glob_star.simps [simp del]

definition glob_matches :: "string \<Rightarrow> string \<Rightarrow> bool" where
  "glob_matches pattern candidate = glob_at pattern (with_slashes candidate)"

subsection \<open>What a glob means\<close>

inductive glob :: "string \<Rightarrow> string \<Rightarrow> bool" where
  glob_end: "glob [] []"
| glob_char: "c \<noteq> CHR ''*'' \<Longrightarrow> glob ps t \<Longrightarrow> glob (c # ps) (c # t)"
| glob_any: "glob ps t \<Longrightarrow> glob (CHR ''?'' # ps) (c # t)"
| glob_one: "take 1 ps \<noteq> ''*'' \<Longrightarrow> CHR ''/'' \<notin> set s \<Longrightarrow> glob ps t \<Longrightarrow> glob (CHR ''*'' # ps) (s @ t)"
| glob_many: "glob ps t \<Longrightarrow> glob (CHR ''*'' # CHR ''*'' # ps) (s @ t)"
| glob_none: "glob ps t \<Longrightarrow> glob (CHR ''*'' # CHR ''*'' # CHR ''/'' # ps) t"

inductive_cases glob_NilE: "glob [] t"
inductive_cases glob_ConsE: "glob (c # ps) t"

lemma star_loop:
  "glob_star double follow t \<longleftrightarrow> (\<exists>s u. t = s @ u \<and> (double \<or> CHR ''/'' \<notin> set s) \<and> glob_at follow u)"
proof (induction t)
  case Nil
  show ?case by (subst glob_star.simps) simp
next
  case (Cons c cs)
  have split: "(\<exists>s u. c # cs = s @ u \<and> P s u) \<longleftrightarrow> P [] (c # cs) \<or> (\<exists>s u. cs = s @ u \<and> P (c # s) u)" for P
    by (auto simp: Cons_eq_append_conv)
  show ?case by (subst glob_star.simps) (auto simp: split Cons.IH)
qed

lemma glob_at_sound: "glob_at p t \<Longrightarrow> glob p t"
proof (induction "length p + length t" arbitrary: p t rule: less_induct)
  case less
  show ?case
  proof (cases p)
    case Nil
    then show ?thesis using less.prems by (simp add: glob_at.simps(1) glob_end)
  next
    case (Cons c ps)
    show ?thesis
    proof (cases "c = CHR ''*''")
      case False
      then obtain d cs where "t = d # cs" "c = CHR ''?'' \<or> c = d" "glob_at ps cs"
        using less.prems unfolding Cons by (subst (asm) glob_at.simps) (auto split: list.splits)
      then show ?thesis using less.hyps [of ps cs] False Cons by (auto intro: glob_char glob_any)
    next
      case star: True
      define double where "double = (ps \<noteq> [] \<and> hd ps = CHR ''*'')"
      define follow where "follow = (if double then tl ps else ps)"
      have "length follow \<le> length ps" by (simp add: follow_def)
      then have shorter: "glob follow u" if "glob_at follow u" "length u \<le> length t" for u
        using less.hyps [of follow u] that Cons by simp
      have shape: "p = CHR ''*'' # (if double then CHR ''*'' # follow else follow)" "double \<or> take 1 ps \<noteq> ''*''"
        using Cons star by (cases ps; auto simp: follow_def double_def)+
      have "double \<and> follow \<noteq> [] \<and> hd follow = CHR ''/'' \<and> glob_at (tl follow) t \<or> glob_star double follow t"
        using less.prems unfolding Cons star
        by (subst (asm) glob_at.simps) (simp add: double_def follow_def Let_def)
      then show ?thesis
      proof
        assume none: "double \<and> follow \<noteq> [] \<and> hd follow = CHR ''/'' \<and> glob_at (tl follow) t"
        moreover have "length (tl follow) < length p" using \<open>length follow \<le> length ps\<close> Cons by simp
        ultimately have "glob (tl follow) t" using less.hyps [of "tl follow" t] by simp
        moreover have "follow = CHR ''/'' # tl follow" using none by (cases follow) auto
        ultimately show ?thesis using shape(1) none glob_none by (metis (full_types))
      next
        assume "glob_star double follow t"
        then obtain s u where u: "t = s @ u" "double \<or> CHR ''/'' \<notin> set s" "glob_at follow u"
          by (auto simp: star_loop)
        then have "glob follow u" using shorter by simp
        then show ?thesis using u shape by (cases double) (auto simp: follow_def intro: glob_many glob_one)
      qed
    qed
  qed
qed

lemma glob_at_complete: "glob p t \<Longrightarrow> glob_at p t"
proof (induction rule: glob.induct)
  case glob_end
  then show ?case by (subst glob_at.simps) simp
next
  case (glob_char c ps t)
  then show ?case by (subst glob_at.simps) simp
next
  case (glob_any ps t c)
  then show ?case by (subst glob_at.simps) simp
next
  case (glob_one ps s t)
  then have "\<not> (ps \<noteq> [] \<and> hd ps = CHR ''*'')" by (cases ps) auto
  moreover have "glob_star False ps (s @ t)" using glob_one by (auto simp: star_loop)
  ultimately show ?case by (subst glob_at.simps) (auto simp: Let_def)
next
  case (glob_many ps t s)
  then have "glob_star True ps (s @ t)" by (auto simp: star_loop)
  then show ?case by (subst glob_at.simps) (simp add: Let_def)
next
  case (glob_none ps t)
  then show ?case by (subst glob_at.simps) (simp add: Let_def)
qed

section \<open>Patterns\<close>

record tiny_pattern =
  tp_pattern :: string
  tp_ignore_case :: bool

fun tiny_scan :: "bool \<Rightarrow> bool \<Rightarrow> string \<Rightarrow> string + (bool \<times> bool)" where
  "tiny_scan escaped inside [] = Inr (escaped, inside)"
| "tiny_scan escaped inside (b # bs) =
     (if escaped then tiny_scan False inside bs
      else if b = CHR 0x5C then tiny_scan True inside bs
      else if b = CHR ''['' then tiny_scan False True bs
      else if b = CHR '']'' then (if \<not> inside then Inl ''unmatched ] in pattern'' else tiny_scan False False bs)
      else tiny_scan False inside bs)"

definition tiny_new :: "string \<Rightarrow> bool \<Rightarrow> string + tiny_pattern" where
  "tiny_new pattern ignore =
     (if pattern = [] then Inl ''pattern cannot be empty''
      else (case tiny_scan False False pattern of
          Inl e \<Rightarrow> Inl e
        | Inr (escaped, inside) \<Rightarrow>
            if escaped \<or> inside then Inl ''unterminated regex escape or character class''
            else Inr \<lparr>tp_pattern = pattern, tp_ignore_case = ignore\<rparr>))"

definition pattern_literal_len :: "string \<Rightarrow> nat" where
  "pattern_literal_len p = length (filter (\<lambda>b. b \<noteq> CHR ''*'' \<and> b \<noteq> CHR 0x5C) p)"

text \<open>On what is left of the pattern, with the position in the text.\<close>

fun tiny_match :: "string \<Rightarrow> string \<Rightarrow> nat \<Rightarrow> bool \<Rightarrow> bool" where
  "tiny_match [] text_bytes ti anchored \<longleftrightarrow> \<not> anchored \<or> ti \<le> length text_bytes"
| "tiny_match (p # ps) text_bytes ti anchored \<longleftrightarrow>
     (if p = CHR ''*'' then list_ex (\<lambda>current. tiny_match ps text_bytes current anchored) [ti..<Suc (length text_bytes)]
      else if length text_bytes \<le> ti then False
      else if p = CHR ''.'' \<or> p = text_bytes ! ti then tiny_match ps text_bytes (ti + 1) anchored
      else False)"

definition tiny_matches :: "(string \<Rightarrow> string) \<Rightarrow> tiny_pattern \<Rightarrow> string \<Rightarrow> bool" where
  "tiny_matches lower tp s =
     (let pattern = (if tp_ignore_case tp then lower (tp_pattern tp) else tp_pattern tp);
          s = (if tp_ignore_case tp then lower s else s);
          anchored_start = (take 1 pattern = ''^'');
          anchored_end = (suffix ''$'' pattern \<and> \<not> suffix [CHR 0x5C, CHR ''$''] pattern);
          pattern = (if anchored_start then tl pattern else pattern);
          pattern = (if anchored_end then butlast pattern else pattern)
      in if anchored_start then tiny_match pattern s 0 True
         else if anchored_end
         then list_ex (\<lambda>start. tiny_match pattern s start False \<and> start + pattern_literal_len pattern = length s)
           [0..<Suc (length s)]
         else list_ex (\<lambda>start. tiny_match pattern s start False) [0..<Suc (length s)])"

definition plain :: "string \<Rightarrow> bool" where
  "plain p \<longleftrightarrow> set p \<inter> {CHR ''*'', CHR ''.'', CHR ''^'', CHR ''$'', CHR 0x5C, CHR ''['', CHR '']''} = {}"

lemma tiny_match_plain:
  "CHR ''*'' \<notin> set p \<Longrightarrow> CHR ''.'' \<notin> set p \<Longrightarrow> ti \<le> length s \<Longrightarrow> tiny_match p s ti anchored \<longleftrightarrow> prefix p (drop ti s)"
proof (induction p arbitrary: ti)
  case (Cons c p)
  show ?case
  proof (cases "ti < length s")
    case True
    then have "drop ti s = s ! ti # drop (ti + 1) s" by (simp add: Cons_nth_drop_Suc)
    then show ?thesis using Cons True by auto
  next
    case False
    then show ?thesis using Cons.prems by auto
  qed
qed simp

lemma occurs_sublist: "(\<exists>i \<le> length s. prefix p (drop i s)) \<longleftrightarrow> sublist p s"
proof
  assume "\<exists>i \<le> length s. prefix p (drop i s)"
  then obtain i u where "drop i s = p @ u" by (auto simp: prefix_def)
  then have "s = take i s @ p @ u" by (metis append_take_drop_id)
  then show "sublist p s" by (metis sublist_def)
next
  assume "sublist p s"
  then obtain a b where "s = a @ p @ b" by (auto simp: sublist_def)
  then show "\<exists>i \<le> length s. prefix p (drop i s)" by (intro exI [of _ "length a"]) simp
qed

lemma occurs_suffix: "(\<exists>i \<le> length s. prefix p (drop i s) \<and> i + length p = length s) \<longleftrightarrow> suffix p s"
proof
  assume "\<exists>i \<le> length s. prefix p (drop i s) \<and> i + length p = length s"
  then obtain i where "i \<le> length s" "prefix p (drop i s)" "i + length p = length s" by blast
  then have "prefix p (drop i s)" "length p = length (drop i s)" by simp_all
  then have "p = drop i s" by (metis append_Nil2 append_eq_append_conv prefix_def)
  then show "suffix p s" by (simp add: suffix_drop)
next
  assume "suffix p s"
  then obtain a where "s = a @ p" by (auto simp: suffix_def)
  then show "\<exists>i \<le> length s. prefix p (drop i s) \<and> i + length p = length s" by (intro exI [of _ "length a"]) simp
qed

section \<open>Properties\<close>


text \<open>A pattern of plain characters is found wherever it occurs; anchored at the start it is a prefix and
  at the end a suffix; anchored at both ends, the end is not checked and a prefix is enough.\<close>

theorem tiny_anchors:
  assumes "plain p"
  shows "tiny_matches lower \<lparr>tp_pattern = p, tp_ignore_case = False\<rparr> s = sublist p s \<and>
    tiny_matches lower \<lparr>tp_pattern = ''^'' @ p, tp_ignore_case = False\<rparr> s = prefix p s \<and>
    tiny_matches lower \<lparr>tp_pattern = p @ ''$'', tp_ignore_case = False\<rparr> s = suffix p s \<and>
    tiny_matches lower \<lparr>tp_pattern = ''^'' @ p @ ''$'', tp_ignore_case = False\<rparr> s = prefix p s"
proof -
  have free: "CHR ''*'' \<notin> set p" "CHR ''.'' \<notin> set p" "CHR 0x5C \<notin> set p" "CHR ''$'' \<notin> set p" "CHR ''^'' \<notin> set p"
    using assms by (auto simp: plain_def)
  note match = tiny_match_plain [OF free(1,2)]
  have start: "take 1 p \<noteq> ''^''" "take 1 (p @ ''$'') \<noteq> ''^''" using free by (cases p; auto)+
  have ends: "\<not> suffix ''$'' p" "\<not> suffix ''$'' (CHR ''^'' # p)" "\<not> suffix [CHR 0x5C, CHR ''$''] (p @ ''$'')"
    "\<not> suffix [CHR 0x5C, CHR ''$''] (CHR ''^'' # p @ ''$'')"
    using free by (cases p rule: rev_cases; auto simp: suffix_def append_eq_Cons_conv)+
  have literal: "pattern_literal_len p = length p"
    using free by (auto simp: pattern_literal_len_def intro!: arg_cong [of _ _ length] filter_True)
  have any: "list_ex (\<lambda>i. tiny_match p s i False \<and> P i) [0..<Suc (length s)] \<longleftrightarrow> (\<exists>i \<le> length s. prefix p (drop i s) \<and> P i)" for P
    by (auto simp: list_ex_iff match less_Suc_eq_le simp del: upt_Suc)
  have "tiny_matches lower \<lparr>tp_pattern = p, tp_ignore_case = False\<rparr> s = sublist p s"
    using any [of "\<lambda>_. True"] start ends by (simp add: tiny_matches_def Let_def occurs_sublist del: One_nat_def)
  moreover have "tiny_matches lower \<lparr>tp_pattern = p @ ''$'', tp_ignore_case = False\<rparr> s = suffix p s"
    using any [of "\<lambda>i. i + length p = length s"]
    using start ends by (simp add: tiny_matches_def Let_def literal occurs_suffix del: take_append One_nat_def)
  moreover have "tiny_matches lower \<lparr>tp_pattern = ''^'' @ p, tp_ignore_case = False\<rparr> s = prefix p s"
    "tiny_matches lower \<lparr>tp_pattern = ''^'' @ p @ ''$'', tp_ignore_case = False\<rparr> s = prefix p s"
    using ends by (simp_all add: tiny_matches_def Let_def match suffix_def)
  ultimately show ?thesis by blast
qed

theorem tiny_anchors_witness:
  "tiny_matches (\<lambda>s. s) \<lparr>tp_pattern = ''^foo$'', tp_ignore_case = False\<rparr> ''foobar''"
  using tiny_anchors [of "''foo''" "\<lambda>s. s" "''foobar''"] by (simp add: plain_def)

text \<open>A star before an end anchor: the length of what the star matched is not counted.\<close>

lemma star_before_end:
  "tiny_new ''a*b$'' False = Inr \<lparr>tp_pattern = ''a*b$'', tp_ignore_case = False\<rparr> \<and>
   tiny_matches lower \<lparr>tp_pattern = ''a*b'', tp_ignore_case = False\<rparr> ''axb'' \<and>
   \<not> tiny_matches lower \<lparr>tp_pattern = ''a*b$'', tp_ignore_case = False\<rparr> ''axb''"
  by (simp add: tiny_new_def tiny_matches_def pattern_literal_len_def suffix_def append_eq_Cons_conv upt_rec numeral_eq_Suc)

text \<open>A question mark is one byte: the two bytes of an accented letter are not matched by one.\<close>

lemma question_mark_is_a_byte: "\<not> glob_matches ''?'' [char_of (195 :: nat), char_of (169 :: nat)]"
  by (simp add: glob_matches_def with_slashes_def glob_at.simps)

end
