(* ===== verification/Coding_Tools.thy ===== *)
theory Coding_Tools
  imports Edit_Tool Search "HOL-Library.Product_Lexorder"
begin

text \<open>
  The seven standard tools (\<open>tea-core/src/tools/\<close>): how each reads its arguments, resolves its path, uses the
  host's operations (\<open>contract.rs\<close>) and renders the result. Operations are host code and parameters; each
  takes and returns the host's state. The cancellation flag is the value the token has when it is read.
\<close>

section \<open>Operations\<close>

record entry =
  en_name :: string
  en_directory :: bool

record command_output =
  co_exit :: "int option"
  co_stdout :: string
  co_stderr :: string

type_synonym environment = "(string \<times> string) list"

fun environment_with :: "string \<Rightarrow> string \<Rightarrow> environment \<Rightarrow> environment" where
  "environment_with name v [] = [(name, v)]"
| "environment_with name v ((k, w) # vars) =
     (if k = name then (k, v) # vars else (k, w) # environment_with name v vars)"

record grep_options =
  go_ignore_case :: bool
  go_literal :: bool
  go_context :: nat
  go_limit :: nat
  go_glob :: "string option"

record grep_match =
  gm_path :: string
  gm_line :: nat
  gm_text :: string

record 'w operations =
  read_file :: "path \<Rightarrow> ('w, operation_error, string) step"
  write_file :: "path \<Rightarrow> string \<Rightarrow> ('w, operation_error, unit) step"
  create_dir_all :: "path \<Rightarrow> ('w, operation_error, unit) step"
  metadata :: "path \<Rightarrow> ('w, operation_error, bool) step"
  read_dir :: "path \<Rightarrow> ('w, operation_error, entry list) step"
  find_files :: "path \<Rightarrow> string \<Rightarrow> nat \<Rightarrow> ('w, operation_error, string list) step"
  grep_files :: "path \<Rightarrow> string \<Rightarrow> grep_options \<Rightarrow> ('w, operation_error, grep_match list) step"
  execute_command :: "string \<Rightarrow> path \<Rightarrow> f64 option \<Rightarrow> environment \<Rightarrow> ('w, operation_error, command_output) step"

text \<open>A tool set: its workspace, operations and environment, and the library code it uses.\<close>

record 'w tool_set =
  ts_root :: path
  ts_operations :: "'w operations"
  ts_environment :: environment
  ts_os :: "'w \<Rightarrow> os"
  ts_parser :: "string \<Rightarrow> mini option"
  ts_lower :: "string \<Rightarrow> string"

definition done_with :: "'e + 'a \<Rightarrow> ('w, 'e, 'a) step" where
  "done_with r = (\<lambda>w. (r, w))"

text \<open>An operation whose failure is reported under the tool's name.\<close>

definition operate :: "string \<Rightarrow> ('w, operation_error, 'a) step \<Rightarrow> ('a \<Rightarrow> ('w, tool_error, 'b) step) \<Rightarrow> ('w, tool_error, 'b) step" where
  "operate name m k = bindS m k (operation_failure name)"

definition resolved :: "'w tool_set \<Rightarrow> string \<Rightarrow> string \<Rightarrow> (path \<Rightarrow> ('w, tool_error, 'b) step) \<Rightarrow> ('w, tool_error, 'b) step" where
  "resolved ts name p k = (\<lambda>w. case path_error name (resolve_existing (ts_os ts w) (ts_root ts) p) of
     Inl e \<Rightarrow> (Inl e, w) | Inr q \<Rightarrow> k q w)"

definition unless_cancelled :: "string \<Rightarrow> bool \<Rightarrow> ('w, tool_error, 'b) step \<Rightarrow> ('w, tool_error, 'b) step" where
  "unless_cancelled name stop m = bindE (done_with (check_cancelled name stop)) (\<lambda>_. m)"

definition default_to :: "'a \<Rightarrow> 'a option \<Rightarrow> 'a" where
  "default_to d x = (case x of Some v \<Rightarrow> v | None \<Rightarrow> d)"

section \<open>Read\<close>

definition read_arguments :: "'w tool_set \<Rightarrow> tool_call \<Rightarrow> tool_error + (string \<times> nat option \<times> nat option)" where
  "read_arguments ts call =
     and_then (parse_object (ts_parser ts) ''read'' call) (\<lambda>es.
     and_then (string_field ''read'' es ''path'') (\<lambda>p.
     and_then (optional_positive_usize ''read'' es ''offset'') (\<lambda>offset.
     and_then (optional_positive_usize ''read'' es ''limit'') (\<lambda>limit. Inr (p, offset, limit)))))"

definition truncated_notice :: string where
  "truncated_notice = CHR 0x0A # ''[truncated]''"

definition select_lines :: "nat \<Rightarrow> nat option \<Rightarrow> string list \<Rightarrow> string" where
  "select_lines start limit lines =
     (let first_line = min (start - 1) (length lines)
      in case limit of
           Some n \<Rightarrow> join_lines (take (min (usize_add first_line n) (length lines) - first_line) (drop first_line lines))
         | None \<Rightarrow> join_lines (drop first_line lines))"

definition read_content :: "nat option \<Rightarrow> nat option \<Rightarrow> string \<Rightarrow> tool_error + string" where
  "read_content offset limit bytes =
     (let lines = split_lines (from_utf8_lossy bytes);
          start = default_to 1 offset
      in if length lines < start \<and> lines \<noteq> []
         then Inl (ToolExecution ''read'' (''offset '' @ decimal_text start @ '' is beyond end of file''))
         else let (out, truncated) = truncate_read_output (select_lines start limit lines)
           in Inr (out @ (if truncated then truncated_notice else [])))"

definition execute_read :: "'w tool_set \<Rightarrow> tool_call \<Rightarrow> bool \<Rightarrow> ('w, tool_error, agent_tool_result) step" where
  "execute_read ts call stop =
     bindE (done_with (read_arguments ts call)) (\<lambda>(p, offset, limit).
     resolved ts ''read'' p (\<lambda>path.
     unless_cancelled ''read'' stop (
     operate ''read'' (read_file (ts_operations ts) path) (\<lambda>bytes.
     bindE (done_with (read_content offset limit bytes)) (\<lambda>t. retS (result_ok call t))))))"

section \<open>Write\<close>

definition write_arguments :: "'w tool_set \<Rightarrow> tool_call \<Rightarrow> tool_error + (string \<times> string)" where
  "write_arguments ts call =
     and_then (parse_object (ts_parser ts) ''write'' call) (\<lambda>es.
     and_then (string_field ''write'' es ''path'') (\<lambda>p.
     and_then (string_field ''write'' es ''content'') (\<lambda>t. Inr (p, t))))"

definition write_resolved :: "'w tool_set \<Rightarrow> tool_call \<Rightarrow> bool \<Rightarrow> string \<Rightarrow> string \<Rightarrow> path \<Rightarrow> ('w, tool_error, agent_tool_result) step" where
  "write_resolved ts call stop p t path =
     (let parent = (if path = [] then ts_root ts else butlast path)
      in unless_cancelled ''write'' stop (
         operate ''write'' (create_dir_all (ts_operations ts) parent) (\<lambda>_.
         operate ''write'' (write_file (ts_operations ts) path t) (\<lambda>_.
         retS (result_ok call (''Successfully wrote '' @ decimal_text (length t) @ '' bytes to '' @ p))))))"

definition execute_write :: "'w tool_set \<Rightarrow> tool_call \<Rightarrow> bool \<Rightarrow> ('w, tool_error, agent_tool_result) step" where
  "execute_write ts call stop =
     bindE (done_with (write_arguments ts call)) (\<lambda>(p, t). \<lambda>w.
     case path_error ''write'' (resolve_for_write (ts_os ts w) (ts_root ts) p) of
       Inl e \<Rightarrow> (Inl e, w)
     | Inr path \<Rightarrow> write_resolved ts call stop p t path w)"

section \<open>Edit\<close>

text \<open>A panic of the replacement, which does not happen (\<open>edit_text_correct\<close>), would end the task: no result.\<close>

definition execute_edit :: "'w tool_set \<Rightarrow> tool_call \<Rightarrow> bool \<Rightarrow> ('w, tool_error, agent_tool_result option) step" where
  "execute_edit ts call stop =
     bindE (done_with (parse_edit_args (ts_parser ts) ''edit'' call)) (\<lambda>(p, edits).
     resolved ts ''edit'' p (\<lambda>path.
     unless_cancelled ''edit'' stop (
     operate ''edit'' (read_file (ts_operations ts) path) (\<lambda>bytes.
     bindE (done_with (case from_utf8 bytes of
        Some s \<Rightarrow> Inr s | None \<Rightarrow> Inl (ToolExecution ''edit'' ''file is not valid UTF-8''))) (\<lambda>s.
     (case edit_text s edits of
        None \<Rightarrow> retS None
      | Some r \<Rightarrow>
          bindE (done_with r) (\<lambda>t.
          operate ''edit'' (write_file (ts_operations ts) path t) (\<lambda>_.
          retS (Some (result_ok call (''Successfully replaced '' @ decimal_text (length edits) @ '' block(s) in '' @ p @ ''.'')))))))))))"

section \<open>Bash\<close>

definition int_text :: "int \<Rightarrow> string" where
  "int_text i = (if i < 0 then ''-'' else []) @ decimal_text (nat \<bar>i\<bar>)"

definition bash_arguments :: "'w tool_set \<Rightarrow> tool_call \<Rightarrow> tool_error + (string \<times> f64 option)" where
  "bash_arguments ts call =
     and_then (parse_object (ts_parser ts) ''bash'' call) (\<lambda>es.
     and_then (string_field ''bash'' es ''command'') (\<lambda>command.
     and_then (optional_timeout ''bash'' es) (\<lambda>timeout. Inr (command, timeout))))"

definition bash_result :: "tool_call \<Rightarrow> command_output \<Rightarrow> agent_tool_result" where
  "bash_result call out =
     (let combined = co_stdout out @
            (if co_stderr out \<noteq> [] then (if co_stdout out \<noteq> [] then [CHR 0x0A] else []) @ co_stderr out else []);
          (t, truncated) = truncate_output combined
      in if default_to 1 (co_exit out) \<noteq> 0
         then (result_ok call (if t = [] then ''command exited with status '' @ int_text (default_to (- 1) (co_exit out)) else t))
           \<lparr>is_error := True, failure := Some tf_recoverable\<rparr>
         else let t = t @ (if truncated then truncated_notice else [])
           in result_ok call (if t = [] then ''(no output)'' else t))"

definition execute_bash :: "'w tool_set \<Rightarrow> tool_call \<Rightarrow> bool \<Rightarrow> ('w, tool_error, agent_tool_result) step" where
  "execute_bash ts call stop =
     bindE (done_with (bash_arguments ts call)) (\<lambda>(command, timeout).
     unless_cancelled ''bash'' stop (
     operate ''bash'' (execute_command (ts_operations ts) command (ts_root ts) timeout (ts_environment ts)) (\<lambda>out.
     retS (bash_result call out))))"

section \<open>List, find and search\<close>

definition ls_arguments :: "'w tool_set \<Rightarrow> tool_call \<Rightarrow> tool_error + (string option \<times> nat)" where
  "ls_arguments ts call =
     and_then (parse_object (ts_parser ts) ''ls'' call) (\<lambda>es.
     and_then (optional_string ''ls'' es ''path'') (\<lambda>p.
     and_then (optional_positive_usize ''ls'' es ''limit'') (\<lambda>limit. Inr (p, default_to 500 limit))))"

definition ls_content :: "(string \<Rightarrow> string) \<Rightarrow> nat \<Rightarrow> entry list \<Rightarrow> string" where
  "ls_content lower limit found =
     (let found = sort_key (\<lambda>e. (lower (en_name e), en_name e)) found
      in if found = [] then ''(empty directory)''
         else join_lines (map (\<lambda>e. en_name e @ (if en_directory e then ''/'' else [])) (take limit found)) @
           (if limit < length found
            then [CHR 0x0A, CHR 0x0A] @ ''['' @ decimal_text limit @ '' entries limit reached]'' else []))"

text \<open>The check both listing tools make first.\<close>

definition in_directory :: "'w tool_set \<Rightarrow> string \<Rightarrow> path \<Rightarrow> ('w, tool_error, 'b) step \<Rightarrow> ('w, tool_error, 'b) step" where
  "in_directory ts name path m =
     operate name (metadata (ts_operations ts) path) (\<lambda>is_directory.
       if \<not> is_directory then failS (ToolExecution name ''path is not a directory'') else m)"

definition execute_ls :: "'w tool_set \<Rightarrow> tool_call \<Rightarrow> bool \<Rightarrow> ('w, tool_error, agent_tool_result) step" where
  "execute_ls ts call stop =
     bindE (done_with (ls_arguments ts call)) (\<lambda>(p, limit).
     resolved ts ''ls'' (default_to ''.'' p) (\<lambda>path.
     unless_cancelled ''ls'' stop (
     in_directory ts ''ls'' path (
     operate ''ls'' (read_dir (ts_operations ts) path) (\<lambda>found.
     retS (result_ok call (ls_content (ts_lower ts) limit found)))))))"

definition find_arguments :: "'w tool_set \<Rightarrow> tool_call \<Rightarrow> tool_error + (string \<times> string option \<times> nat)" where
  "find_arguments ts call =
     and_then (parse_object (ts_parser ts) ''find'' call) (\<lambda>es.
     and_then (string_field ''find'' es ''pattern'') (\<lambda>pattern.
     and_then (optional_string ''find'' es ''path'') (\<lambda>p.
     and_then (optional_positive_usize ''find'' es ''limit'') (\<lambda>limit.
     (case glob_new pattern of
        Inl _ \<Rightarrow> Inl (invalid_argument ''find'' ''pattern is not a supported glob'')
      | Inr _ \<Rightarrow> Inr (pattern, p, default_to 1000 limit))))))"

definition find_content :: "nat \<Rightarrow> string list \<Rightarrow> string" where
  "find_content limit results =
     (if results = [] then ''No files found matching pattern''
      else join_lines results @
        (if limit \<le> length results
         then [CHR 0x0A, CHR 0x0A] @ ''['' @ decimal_text limit @ '' results limit reached]'' else []))"

definition execute_find :: "'w tool_set \<Rightarrow> tool_call \<Rightarrow> bool \<Rightarrow> ('w, tool_error, agent_tool_result) step" where
  "execute_find ts call stop =
     bindE (done_with (find_arguments ts call)) (\<lambda>(pattern, p, limit).
     resolved ts ''find'' (default_to ''.'' p) (\<lambda>path.
     unless_cancelled ''find'' stop (
     in_directory ts ''find'' path (
     operate ''find'' (find_files (ts_operations ts) path pattern limit) (\<lambda>results.
     retS (result_ok call (find_content limit results)))))))"

definition grep_arguments :: "'w tool_set \<Rightarrow> tool_call \<Rightarrow> tool_error + (string \<times> string option \<times> grep_options)" where
  "grep_arguments ts call =
     and_then (parse_object (ts_parser ts) ''grep'' call) (\<lambda>es.
     and_then (string_field ''grep'' es ''pattern'') (\<lambda>pattern.
     and_then (optional_string ''grep'' es ''path'') (\<lambda>p.
     and_then (optional_string ''grep'' es ''glob'') (\<lambda>g.
     and_then (optional_bool ''grep'' es ''ignoreCase'') (\<lambda>ignore.
     and_then (optional_bool ''grep'' es ''literal'') (\<lambda>literal.
     and_then (optional_positive_usize ''grep'' es ''context'') (\<lambda>around.
     and_then (optional_positive_usize ''grep'' es ''limit'') (\<lambda>limit.
       if \<not> default_to False literal \<and> (case tiny_new pattern (default_to False ignore) of Inl _ \<Rightarrow> True | Inr _ \<Rightarrow> False)
       then Inl (invalid_argument ''grep'' ''pattern is not a supported regular expression'')
       else Inr (pattern, p, \<lparr>go_ignore_case = default_to False ignore, go_literal = default_to False literal,
         go_context = default_to 0 around, go_limit = default_to 100 limit, go_glob = g\<rparr>)))))))))"

definition grep_content :: "grep_match list \<Rightarrow> string" where
  "grep_content ms =
     (if ms = [] then ''No matches found''
      else join_lines (map (\<lambda>m. gm_path m @ '':'' @ decimal_text (gm_line m) @ '': '' @ gm_text m) ms))"

definition execute_grep :: "'w tool_set \<Rightarrow> tool_call \<Rightarrow> bool \<Rightarrow> ('w, tool_error, agent_tool_result) step" where
  "execute_grep ts call stop =
     bindE (done_with (grep_arguments ts call)) (\<lambda>(pattern, p, options).
     resolved ts ''grep'' (default_to ''.'' p) (\<lambda>path.
     unless_cancelled ''grep'' stop (
     operate ''grep'' (grep_files (ts_operations ts) path pattern options) (\<lambda>ms.
     retS (result_ok call (grep_content ms))))))"

section \<open>The tool set\<close>

datatype standard_tool = ReadTool | BashTool | EditTool | WriteTool | GrepTool | FindTool | LsTool

fun standard_name :: "standard_tool \<Rightarrow> string" where
  "standard_name ReadTool = ''read''"
| "standard_name BashTool = ''bash''"
| "standard_name EditTool = ''edit''"
| "standard_name WriteTool = ''write''"
| "standard_name GrepTool = ''grep''"
| "standard_name FindTool = ''find''"
| "standard_name LsTool = ''ls''"

definition coding_tools :: "standard_tool list" where
  "coding_tools = [ReadTool, BashTool, EditTool, WriteTool]"

definition all_tools :: "standard_tool list" where
  "all_tools = [ReadTool, BashTool, EditTool, WriteTool, GrepTool, FindTool, LsTool]"

definition standard_registry :: "standard_tool registry" where
  "standard_registry = fold (\<lambda>t. registry_insert (standard_name t) t) coding_tools registry_default"

text \<open>Execution of any of them; \<open>None\<close> is a panic.\<close>

fun execute_tool :: "'w tool_set \<Rightarrow> standard_tool \<Rightarrow> tool_call \<Rightarrow> bool \<Rightarrow> ('w, tool_error, agent_tool_result option) step" where
  "execute_tool ts ReadTool call stop = bindE (execute_read ts call stop) (\<lambda>r. retS (Some r))"
| "execute_tool ts BashTool call stop = bindE (execute_bash ts call stop) (\<lambda>r. retS (Some r))"
| "execute_tool ts EditTool call stop = execute_edit ts call stop"
| "execute_tool ts WriteTool call stop = bindE (execute_write ts call stop) (\<lambda>r. retS (Some r))"
| "execute_tool ts GrepTool call stop = bindE (execute_grep ts call stop) (\<lambda>r. retS (Some r))"
| "execute_tool ts FindTool call stop = bindE (execute_find ts call stop) (\<lambda>r. retS (Some r))"
| "execute_tool ts LsTool call stop = bindE (execute_ls ts call stop) (\<lambda>r. retS (Some r))"

section \<open>Confinement\<close>

text \<open>
  Operations that are the same on every path of the workspace, and for creating directories also on the
  directory the workspace is in.
\<close>

definition same_inside :: "path \<Rightarrow> 'w operations \<Rightarrow> 'w operations \<Rightarrow> bool" where
  "same_inside base a b \<longleftrightarrow> create_dir_all a (butlast base) = create_dir_all b (butlast base) \<and>
     (\<forall>p. prefix base p \<longrightarrow> read_file a p = read_file b p \<and> write_file a p = write_file b p \<and>
        create_dir_all a p = create_dir_all b p \<and> metadata a p = metadata b p \<and> read_dir a p = read_dir b p \<and>
        find_files a p = find_files b p \<and> grep_files a p = grep_files b p \<and>
        (\<forall>command. execute_command a command p = execute_command b command p))"

lemma same_insideD:
  assumes "same_inside base a b" "prefix base p"
  shows "read_file a p = read_file b p" "write_file a p = write_file b p" "create_dir_all a p = create_dir_all b p"
    "metadata a p = metadata b p" "read_dir a p = read_dir b p" "find_files a p = find_files b p"
    "grep_files a p = grep_files b p" "execute_command a command p = execute_command b command p"
  using assms by (simp_all add: same_inside_def)

lemma arguments_update [simp]:
  "read_arguments (ts\<lparr>ts_operations := o'\<rparr>) = read_arguments ts"
  "write_arguments (ts\<lparr>ts_operations := o'\<rparr>) = write_arguments ts"
  "bash_arguments (ts\<lparr>ts_operations := o'\<rparr>) = bash_arguments ts"
  "ls_arguments (ts\<lparr>ts_operations := o'\<rparr>) = ls_arguments ts"
  "find_arguments (ts\<lparr>ts_operations := o'\<rparr>) = find_arguments ts"
  "grep_arguments (ts\<lparr>ts_operations := o'\<rparr>) = grep_arguments ts"
  by (simp_all add: fun_eq_iff read_arguments_def write_arguments_def bash_arguments_def ls_arguments_def
      find_arguments_def grep_arguments_def)

lemma parser_update: "ts_parser (ts\<lparr>ts_operations := o'\<rparr>) = ts_parser ts"
  by simp

lemma resolved_same:
  assumes "\<And>q. prefix (ts_root ts) q \<Longrightarrow> k q = k' q"
  shows "resolved ts name p k = resolved (ts\<lparr>ts_operations := o'\<rparr>) name p k'"
  using assms by (auto simp: resolved_def path_error_def fun_eq_iff dest: resolve_existing_inside split: sum.split)

lemma parent_inside: "prefix base p \<Longrightarrow> butlast p = butlast base \<or> prefix base (butlast p)"
  by (cases p rule: rev_cases) (auto simp: prefix_snoc)

lemma write_same:
  assumes "same_inside (ts_root ts) (ts_operations ts) ops"
  shows "execute_write ts call stop = execute_write (ts\<lparr>ts_operations := ops\<rparr>) call stop"
proof -
  have "write_resolved ts call stop p t path = write_resolved (ts\<lparr>ts_operations := ops\<rparr>) call stop p t path"
    if inside: "prefix (ts_root ts) path" for p t path
  proof -
    have "create_dir_all (ts_operations ts) (if path = [] then ts_root ts else butlast path) =
        create_dir_all ops (if path = [] then ts_root ts else butlast path)"
      using parent_inside [OF inside] assms by (auto simp: same_inside_def)
    then show ?thesis using same_insideD(2) [OF assms inside] by (simp add: write_resolved_def Let_def)
  qed
  then show ?thesis
    unfolding execute_write_def arguments_update
    by (intro arg_cong [of _ _ "bindE _"] ext) (auto simp: path_error_def dest!: resolve_for_write_inside split: sum.split)
qed

lemma edit_same:
  assumes "same_inside (ts_root ts) (ts_operations ts) ops"
  shows "execute_edit ts call stop = execute_edit (ts\<lparr>ts_operations := ops\<rparr>) call stop"
  unfolding execute_edit_def
  unfolding parser_update
  by (intro arg_cong [of _ _ "bindE _"] ext)
    (auto simp: same_insideD [OF assms] intro!: fun_cong [OF resolved_same] cong: option.case_cong)

lemma read_same:
  assumes "same_inside (ts_root ts) (ts_operations ts) ops"
  shows "execute_read ts call stop = execute_read (ts\<lparr>ts_operations := ops\<rparr>) call stop"
  unfolding execute_read_def arguments_update
  by (intro arg_cong [of _ _ "bindE _"] ext) (auto simp: same_insideD [OF assms] intro!: fun_cong [OF resolved_same])

lemma in_directory_same:
  assumes "same_inside (ts_root ts) (ts_operations ts) ops" "prefix (ts_root ts) path"
  shows "in_directory ts name path m = in_directory (ts\<lparr>ts_operations := ops\<rparr>) name path m"
  by (simp add: in_directory_def same_insideD [OF assms])

lemma ls_same:
  assumes "same_inside (ts_root ts) (ts_operations ts) ops"
  shows "execute_ls ts call stop = execute_ls (ts\<lparr>ts_operations := ops\<rparr>) call stop"
  unfolding execute_ls_def arguments_update
  by (intro arg_cong [of _ _ "bindE _"] ext)
    (auto simp: same_insideD [OF assms] in_directory_same [OF assms] intro!: fun_cong [OF resolved_same])

lemma find_same:
  assumes "same_inside (ts_root ts) (ts_operations ts) ops"
  shows "execute_find ts call stop = execute_find (ts\<lparr>ts_operations := ops\<rparr>) call stop"
  unfolding execute_find_def arguments_update
  by (intro arg_cong [of _ _ "bindE _"] ext)
    (auto simp: same_insideD [OF assms] in_directory_same [OF assms] intro!: fun_cong [OF resolved_same])

lemma grep_same:
  assumes "same_inside (ts_root ts) (ts_operations ts) ops"
  shows "execute_grep ts call stop = execute_grep (ts\<lparr>ts_operations := ops\<rparr>) call stop"
  unfolding execute_grep_def arguments_update
  by (intro arg_cong [of _ _ "bindE _"] ext) (auto simp: same_insideD [OF assms] intro!: fun_cong [OF resolved_same])

lemma bash_same:
  assumes "same_inside (ts_root ts) (ts_operations ts) ops"
  shows "execute_bash ts call stop = execute_bash (ts\<lparr>ts_operations := ops\<rparr>) call stop"
  unfolding execute_bash_def by (simp add: same_insideD(8) [OF assms])

section \<open>Bounds\<close>

lemma read_content_bounded:
  "read_content offset limit bytes = Inr t \<Longrightarrow> length t \<le> max_output_bytes + 12 \<and> breaks t \<le> max_output_lines + 1"
proof -
  assume read: "read_content offset limit bytes = Inr t"
  let ?s = "select_lines (default_to 1 offset) limit (split_lines (from_utf8_lossy bytes))"
  have t: "t = fst (truncate_read_output ?s) @ (if snd (truncate_read_output ?s) then truncated_notice else [])"
    using read unfolding read_content_def Let_def case_prod_beta by (simp only: sum.inject split: if_splits) simp_all
  have "length truncated_notice = 12" "breaks truncated_notice = 1" by (simp_all add: truncated_notice_def)
  then show ?thesis using truncate_read_bounded(1,2) [of ?s] by (auto simp: t)
qed

lemma bash_result_bounded:
  "(length (content (bash_result call out)) \<le> max_output_bytes + 12 \<and> breaks (content (bash_result call out)) \<le> max_output_lines + 1) \<or>
   content (bash_result call out) = ''command exited with status '' @ int_text (default_to (- 1) (co_exit out))"
proof -
  have notice: "length truncated_notice = 12" "breaks truncated_notice = 1" by (simp_all add: truncated_notice_def)
  have empty: "length ''(no output)'' \<le> max_output_bytes" "breaks ''(no output)'' = 0" by (simp_all add: max_output_bytes_def)
  show ?thesis
    using truncate_output_bounded [of "co_stdout out @ (if co_stderr out \<noteq> [] then (if co_stdout out \<noteq> [] then [CHR 0x0A] else []) @ co_stderr out else [])"]
    unfolding bash_result_def Let_def result_ok_def
    by (cases "truncate_output (co_stdout out @ (if co_stderr out \<noteq> [] then (if co_stdout out \<noteq> [] then [CHR 0x0A] else []) @ co_stderr out else []))")
      (use notice empty in \<open>auto split: if_splits\<close>)
qed

section \<open>Properties\<close>


text \<open>The model sees at most 50 KiB and 2,000 line breaks of a file or of a command's output, and a
  notice when something was cut, or the status of a failed command that printed nothing.\<close>

theorem output_bounded:
  "(case read_content offset limit bytes of Inl _ \<Rightarrow> True | Inr t \<Rightarrow> length t \<le> 51200 + 12 \<and> breaks t \<le> 2000 + 1) \<and>
   ((length (content (bash_result call out)) \<le> 51200 + 12 \<and> breaks (content (bash_result call out)) \<le> 2000 + 1) \<or>
    content (bash_result call out) = ''command exited with status '' @ int_text (default_to (- 1) (co_exit out)))"
  using read_content_bounded [of offset limit bytes] bash_result_bounded [of call out]
  by (auto simp: max_output_bytes_def max_output_lines_def split: sum.split)

text \<open>Two hosts that differ outside the workspace.\<close>

definition sample_operations :: "string \<Rightarrow> unit operations" where
  "sample_operations secret = \<lparr>read_file = (\<lambda>p. retS (if prefix [''w''] p then ''inside'' else secret)),
     write_file = (\<lambda>_ _. retS ()), create_dir_all = (\<lambda>_. retS ()), metadata = (\<lambda>_. retS True), read_dir = (\<lambda>_. retS []),
     find_files = (\<lambda>_ _ _. retS []), grep_files = (\<lambda>_ _ _. retS []), execute_command = (\<lambda>_ _ _ _. failS ''no shell'')\<rparr>"

definition sample_tool_set :: "unit tool_set" where
  "sample_tool_set = \<lparr>ts_root = [''w''], ts_operations = sample_operations ''a'', ts_environment = [],
     ts_os = (\<lambda>_. posix dangling_tree 40), ts_parser = (\<lambda>_. Some (MObject [(''path'', MString ''f'')])), ts_lower = (\<lambda>s. s)\<rparr>"


section \<open>Divergences from the documentation\<close>

text \<open>
  Writing to the workspace itself asks the host to create the directory the workspace is in, which the
  contract says no operation is asked; and a result of \<open>find\<close> has no limit in bytes.
\<close>

lemma write_leaves_workspace:
  "resolve_for_write (posix dangling_tree 40) [''w''] ''.'' = Inr [''w''] \<and>
   write_resolved ts call False p t [''w''] = operate ''write'' (create_dir_all (ts_operations ts) [])
     (\<lambda>_. operate ''write'' (write_file (ts_operations ts) [''w''] t) (\<lambda>_.
       retS (result_ok call (''Successfully wrote '' @ decimal_text (length t) @ '' bytes to '' @ p))))"
  by (simp add: resolve_for_write_def lexically_resolve_def text_components_def is_absolute_def ensure_inside_def
      climb.simps posix_def dangling_tree_def numeral_eq_Suc write_resolved_def unless_cancelled_def check_cancelled_def
      done_with_def bindE_def bindS_def Let_def fun_eq_iff)

lemma find_output_unbounded: "max_output_bytes < length (find_content 1000 [replicate 51201 c])"
  by (simp add: find_content_def max_output_bytes_def)

end
