(* ===== verification/Line_Stream.thy ===== *)
theory Line_Stream
  imports Tool_Args "HOL-Library.Sublist"
begin

text \<open>
  What the decoders of provider responses share: \<open>str::trim\<close> of the standard library, and the loop
  that cuts a buffer into lines as chunks of a body arrive (\<open>StreamingSseDecoder::push\<close> and
  \<open>LocalSseDecoder::push\<close> in \<open>tea-core/src/provider\<close>). The locale states what such a decoder gives;
  inside it the main law is proved once: how a body is cut into chunks does not matter.
\<close>

section \<open>Trimming\<close>

text \<open>The characters of the Unicode property \<open>White_Space\<close>, encoded in UTF-8.\<close>

definition bytes :: "nat list \<Rightarrow> string" where
  "bytes ns = map char_of ns"

definition white_space :: "string list" where
  "white_space = map bytes
     [[9], [10], [11], [12], [13], [32], [194, 133], [194, 160], [225, 154, 128],
      [226, 128, 128], [226, 128, 129], [226, 128, 130], [226, 128, 131], [226, 128, 132], [226, 128, 133],
      [226, 128, 134], [226, 128, 135], [226, 128, 136], [226, 128, 137], [226, 128, 138],
      [226, 128, 168], [226, 128, 169], [226, 128, 175], [226, 129, 159], [227, 128, 128]]"

lemma white_space_nonempty: "w \<in> set white_space \<Longrightarrow> w \<noteq> []"
  by (auto simp: white_space_def bytes_def)

function trim_left :: "string \<Rightarrow> string" where
  "trim_left s = (case find (\<lambda>w. prefix w s) white_space of
       Some w \<Rightarrow> trim_left (drop (length w) s)
     | None \<Rightarrow> s)"
  by pat_completeness auto
termination
proof (relation "measure length")
  fix s w assume found: "find (\<lambda>w. prefix w s) white_space = Some w"
  then have "w \<noteq> []" "prefix w s" using white_space_nonempty by (auto simp: find_Some_iff)
  then have "0 < length w" "length w \<le> length s" by (auto simp: prefix_length_le)
  then have "length s - length w < length s" by linarith
  then show "(drop (length w) s, s) \<in> measure length" by simp
qed simp

function trim_right :: "string \<Rightarrow> string" where
  "trim_right s = (case find (\<lambda>w. suffix w s) white_space of
       Some w \<Rightarrow> trim_right (take (length s - length w) s)
     | None \<Rightarrow> s)"
  by pat_completeness auto
termination
proof (relation "measure length")
  fix s w assume found: "find (\<lambda>w. suffix w s) white_space = Some w"
  then have "w \<noteq> []" "suffix w s" using white_space_nonempty by (auto simp: find_Some_iff)
  then have "0 < length w" "length w \<le> length s" by (auto simp: suffix_length_le)
  then have "length s - length w < length s" by linarith
  then show "(take (length s - length w) s, s) \<in> measure length" by simp
qed simp

declare trim_left.simps [simp del] trim_right.simps [simp del]

definition trim :: "string \<Rightarrow> string" where
  "trim s = trim_right (trim_left s)"

text \<open>Text that begins and ends with graphic ASCII characters is left alone.\<close>

definition graphic :: "char \<Rightarrow> bool" where
  "graphic c \<longleftrightarrow> 33 \<le> octet c \<and> octet c < 127"

lemma octet_char_of [simp]: "n < 256 \<Longrightarrow> octet (char_of n) = n"
  by (simp add: octet_def)

lemma white_space_ends: "w \<in> set white_space \<Longrightarrow> w \<noteq> [] \<and> \<not> graphic (hd w) \<and> \<not> graphic (last w)"
  by (auto simp: white_space_def bytes_def graphic_def)

lemma find_none: "(\<And>x. x \<in> set xs \<Longrightarrow> \<not> P x) \<Longrightarrow> find P xs = None"
  by (simp add: find_None_iff)

lemma trim_plain:
  assumes "s \<noteq> []" "graphic (hd s)" "graphic (last s)"
  shows "trim s = s"
proof -
  have "\<not> prefix w s" "\<not> suffix w s" if "w \<in> set white_space" for w
    using white_space_ends [OF that] assms by (auto simp: prefix_def suffix_def)
  then have "find (\<lambda>w. prefix w s) white_space = None" "find (\<lambda>w. suffix w s) white_space = None"
    by (simp_all add: find_none)
  then show ?thesis by (simp add: trim_def trim_left.simps [of s] trim_right.simps [of s])
qed

section \<open>Lines of a buffer\<close>

definition newline :: char where
  "newline = CHR 0x0A"

text \<open>\<open>buffered.iter().position(..)\<close> and \<open>buffered.drain(..=newline)\<close>, with the newline popped.\<close>

definition cut_line :: "string \<Rightarrow> (string \<times> string) option" where
  "cut_line s = (if newline \<in> set s
     then Some (takeWhile (\<lambda>c. c \<noteq> newline) s, tl (dropWhile (\<lambda>c. c \<noteq> newline) s)) else None)"

lemma cut_line_shorter: "cut_line s = Some (l, rest) \<Longrightarrow> length rest < length s"
proof -
  assume cut: "cut_line s = Some (l, rest)"
  then have "dropWhile (\<lambda>c. c \<noteq> newline) s \<noteq> []" by (auto simp: cut_line_def split: if_splits)
  moreover have "length (dropWhile (\<lambda>c. c \<noteq> newline) s) \<le> length s" by (rule length_dropWhile_le)
  ultimately show ?thesis using cut by (cases "dropWhile (\<lambda>c. c \<noteq> newline) s") (auto simp: cut_line_def split: if_splits)
qed

lemma cut_line_append: "cut_line a = Some (l, rest) \<Longrightarrow> cut_line (a @ b) = Some (l, rest @ b)"
  by (auto simp: cut_line_def takeWhile_append1 dropWhile_append1 split: if_splits)

text \<open>
  The loop of \<open>push\<close>. A line is given to the decoder, which answers with the events of the line or an
  error; an error ends the loop and drops the events of the lines before it in the same buffer.
\<close>

function drain_lines ::
    "('d \<Rightarrow> string \<Rightarrow> ('e + 'v list) \<times> 'd) \<Rightarrow> 'd \<Rightarrow> string \<Rightarrow> 'v list \<Rightarrow> ('e + 'v list) \<times> 'd \<times> string" where
  "drain_lines process d buffer events =
     (case cut_line buffer of
        None \<Rightarrow> (Inr events, d, buffer)
      | Some (l, rest) \<Rightarrow>
          (case process d l of
             (Inl e, d') \<Rightarrow> (Inl e, d', rest)
           | (Inr vs, d') \<Rightarrow> drain_lines process d' rest (events @ vs)))"
  by pat_completeness auto
termination
  by (relation "measure (\<lambda>(p, d, b, vs). length b)") (auto dest: cut_line_shorter)

declare drain_lines.simps [simp del]

lemma drain_lines_append:
  "drain_lines process d (a @ b) events =
     (case drain_lines process d a events of
        (Inl e, d', rest) \<Rightarrow> (Inl e, d', rest @ b)
      | (Inr vs, d', rest) \<Rightarrow> drain_lines process d' (rest @ b) vs)"
proof (induction process d a events rule: drain_lines.induct)
  case (1 process d a events)
  show ?case
  proof (cases "cut_line a")
    case None
    then show ?thesis by (subst (2) drain_lines.simps) simp
  next
    case (Some p)
    obtain l rest where p: "p = (l, rest)" by fastforce
    have cut: "cut_line (a @ b) = Some (l, rest @ b)" using Some p by (simp add: cut_line_append)
    show ?thesis
      by (subst drain_lines.simps, subst (3) drain_lines.simps)
        (use 1 [OF Some [unfolded p] refl] in \<open>auto simp: Some p cut split: prod.split sum.split\<close>)
  qed
qed

lemma drain_lines_events:
  "drain_lines process d b (us @ events) =
     (case drain_lines process d b events of (r, d', rest) \<Rightarrow> (map_sum (\<lambda>e. e) (\<lambda>vs. us @ vs) r, d', rest))"
proof (induction process d b events rule: drain_lines.induct)
  case (1 process d b events)
  show ?case
  proof (cases "cut_line b")
    case None
    then show ?thesis by (subst drain_lines.simps, subst (2) drain_lines.simps) simp
  next
    case (Some p)
    obtain l rest where p: "p = (l, rest)" by fastforce
    show ?thesis
      by (subst drain_lines.simps, subst (2) drain_lines.simps)
        (use 1 [OF Some [unfolded p] refl] in \<open>auto simp: Some p split: prod.split sum.split\<close>)
  qed
qed

lemma drain_lines_rest: "drain_lines process d b events = (Inr vs, d', rest) \<Longrightarrow> newline \<notin> set rest"
proof (induction process d b events rule: drain_lines.induct)
  case (1 process d b events)
  show ?case
  proof (cases "cut_line b")
    case None
    then show ?thesis using 1(2) by (subst (asm) drain_lines.simps) (auto simp: cut_line_def split: if_splits)
  next
    case (Some p)
    then show ?thesis using 1(2) 1(1) [of p "fst p" "snd p"]
      by (subst (asm) drain_lines.simps) (auto split: prod.splits sum.splits)
  qed
qed

lemma drain_lines_none: "newline \<notin> set b \<Longrightarrow> drain_lines process d b events = (Inr events, d, b)"
  by (subst drain_lines.simps) (simp add: cut_line_def)

section \<open>A decoder of lines\<close>

text \<open>
  The state of a decoder holds the bytes of the line not yet complete; handling a line neither looks at
  them nor changes them.
\<close>

locale line_decoder =
  fixes process :: "'d \<Rightarrow> string \<Rightarrow> ('e + 'v list) \<times> 'd"
    and buffer :: "'d \<Rightarrow> string"
    and refill :: "string \<Rightarrow> 'd \<Rightarrow> 'd"
  assumes buffer_refill: "buffer (refill b d) = b"
    and refill_refill: "refill b (refill c d) = refill b d"
    and refill_buffer: "refill (buffer d) d = d"
    and process_refill: "process (refill b d) l = apsnd (refill b) (process d l)"
begin

definition push :: "'d \<Rightarrow> string \<Rightarrow> ('e + 'v list) \<times> 'd" where
  "push d chunk = (case drain_lines process d (buffer d @ chunk) [] of (r, d', rest) \<Rightarrow> (r, refill rest d'))"

fun feed :: "'d \<Rightarrow> string list \<Rightarrow> ('e + 'v list) \<times> 'd" where
  "feed d [] = (Inr [], d)"
| "feed d (c # cs) = (case push d c of
       (Inl e, d') \<Rightarrow> (Inl e, d')
     | (Inr vs, d') \<Rightarrow> apfst (map_sum (\<lambda>e. e) (\<lambda>ws. vs @ ws)) (feed d' cs))"

lemma drain_refill:
  "drain_lines process (refill c d) b events =
     (case drain_lines process d b events of (r, d', rest) \<Rightarrow> (r, refill c d', rest))"
proof (induction b arbitrary: d events rule: length_induct)
  case (1 b)
  show ?case
  proof (cases "cut_line b")
    case None
    then show ?thesis by (subst drain_lines.simps, subst (2) drain_lines.simps) simp
  next
    case (Some p)
    obtain l rest where p: "p = (l, rest)" by fastforce
    then have "length rest < length b" using Some by (auto dest: cut_line_shorter)
    then have later: "drain_lines process (refill c d') rest vs =
        (case drain_lines process d' rest vs of (r, d'', rest') \<Rightarrow> (r, refill c d'', rest'))" for d' vs
      using 1 by blast
    show ?thesis
      by (subst drain_lines.simps, subst (2) drain_lines.simps)
        (auto simp: Some p process_refill later split: prod.split sum.split)
  qed
qed

lemma push_rest: "push d c = (Inr vs, d') \<Longrightarrow> newline \<notin> set (buffer d')"
  using drain_lines_rest [of process d "buffer d @ c" "[]"] by (auto simp: push_def buffer_refill split: prod.splits)

lemma push_nothing: "newline \<notin> set (buffer d) \<Longrightarrow> push d [] = (Inr [], d)"
  by (simp add: push_def drain_lines_none refill_buffer)

lemma push_append:
  "push d (a @ b) =
     (case push d a of
        (Inl e, d') \<Rightarrow> (Inl e, refill (buffer d' @ b) d')
      | (Inr vs, d') \<Rightarrow> apfst (map_sum (\<lambda>e. e) (\<lambda>ws. vs @ ws)) (push d' b))"
proof -
  obtain r d' rest where first: "drain_lines process d (buffer d @ a) [] = (r, d', rest)"
    by (cases "drain_lines process d (buffer d @ a) []") auto
  have whole: "drain_lines process d (buffer d @ a @ b) [] =
      (case drain_lines process d (buffer d @ a) [] of
         (Inl e, d', rest) \<Rightarrow> (Inl e, d', rest @ b)
       | (Inr vs, d', rest) \<Rightarrow> drain_lines process d' (rest @ b) vs)"
    using drain_lines_append [of process d "buffer d @ a" b "[]"] by simp
  show ?thesis
  proof (cases r)
    case (Inl e)
    then show ?thesis by (simp add: push_def whole first buffer_refill refill_refill)
  next
    case (Inr vs)
    have "drain_lines process d' (rest @ b) vs = drain_lines process d' (rest @ b) (vs @ [])" by simp
    then have "drain_lines process d' (rest @ b) vs =
        (case drain_lines process d' (rest @ b) [] of (r, d'', rest') \<Rightarrow> (map_sum (\<lambda>e. e) (\<lambda>us. vs @ us) r, d'', rest'))"
      by (metis drain_lines_events)
    then show ?thesis
      using Inr by (simp add: push_def whole first buffer_refill drain_refill refill_refill split: prod.split)
  qed
qed

text \<open>However a body is cut into chunks, the decoder gives the same events or the same error.\<close>

lemma feed_concat:
  assumes "newline \<notin> set (buffer d)"
  shows "(\<exists>e d'. feed d cs = (Inl e, d') \<and> fst (push d (concat cs)) = Inl e) \<or>
         (\<exists>vs d'. feed d cs = (Inr vs, d') \<and> push d (concat cs) = (Inr vs, d'))"
  using assms
proof (induction cs arbitrary: d)
  case Nil
  then show ?case by (simp add: push_nothing)
next
  case (Cons c cs)
  obtain r d' where first: "push d c = (r, d')" by (cases "push d c") auto
  show ?case
  proof (cases r)
    case (Inl e)
    then show ?thesis by (simp add: push_append first)
  next
    case (Inr vs)
    then have "newline \<notin> set (buffer d')" using first push_rest by blast
    from Cons.IH [OF this] show ?thesis using Inr by (auto simp: push_append first)
  qed
qed

end

text \<open>A decoder whose lines give events of one kind only, and what its chunks give then.\<close>

locale delta_decoder = line_decoder process buffer refill
  for process :: "'d \<Rightarrow> string \<Rightarrow> ('e + 'v list) \<times> 'd" and buffer refill +
  fixes delta :: "'v \<Rightarrow> bool"
  assumes process_delta: "process d l = (Inr vs, d') \<Longrightarrow> list_all delta vs"
begin

lemma drain_delta: "drain_lines process d b events = (Inr vs, d', rest) \<Longrightarrow> list_all delta events \<Longrightarrow> list_all delta vs"
proof (induction b arbitrary: d events rule: length_induct)
  case (1 b)
  show ?case
  proof (cases "cut_line b")
    case None
    then show ?thesis using "1.prems" by (subst (asm) drain_lines.simps) simp
  next
    case (Some p)
    obtain l rest' where p: "p = (l, rest')" by fastforce
    then have shorter: "length rest' < length b" using Some by (auto dest: cut_line_shorter)
    obtain ws d'' where here: "process d l = (Inr ws, d'')"
        and later: "drain_lines process d'' rest' (events @ ws) = (Inr vs, d', rest)"
      using "1.prems"(1) by (subst (asm) drain_lines.simps) (auto simp: Some p split: prod.splits sum.splits)
    from 1 shorter later process_delta [OF here] "1.prems"(2) show ?thesis by auto
  qed
qed

lemma push_delta: "push d c = (Inr vs, d') \<Longrightarrow> list_all delta vs"
  using drain_delta [of d "buffer d @ c" "[]"] by (auto simp: push_def split: prod.splits)

end

end
