(* ===== verification/Exact_Number.thy ===== *)
theory Exact_Number
  imports Line_Stream
begin

text \<open>
  The scanner that reads a billing decimal in its source spelling
  (\<open>exact_number_at_path\<close> and \<open>RawJsonCursor\<close> in \<open>tea-core/src/provider/openrouter/response.rs\<close>). The cursor
  is the input that is left. Skipping a value recurses once per byte at most, so the recursion carries
  fuel; the length of the input is enough, and the scanner uses one more.
\<close>

section \<open>The scanner\<close>

definition ascii_whitespace :: "char \<Rightarrow> bool" where
  "ascii_whitespace c \<longleftrightarrow> c \<in> {CHR 0x09, CHR 0x0A, CHR 0x0C, CHR 0x0D, CHR '' ''}"

definition ascii_digit :: "char \<Rightarrow> bool" where
  "ascii_digit c \<longleftrightarrow> CHR ''0'' \<le> c \<and> c \<le> CHR ''9''"

definition skip_space :: "string \<Rightarrow> string" where
  "skip_space = dropWhile ascii_whitespace"

text \<open>\<open>input.get(position) == Some(c)\<close>, and the input behind it.\<close>

definition eat :: "char \<Rightarrow> string \<Rightarrow> string option" where
  "eat c s = (case s of x # r \<Rightarrow> if x = c then Some r else None | [] \<Rightarrow> None)"

fun string_body :: "bool \<Rightarrow> string \<Rightarrow> string \<Rightarrow> (string \<times> string) option" where
  "string_body escaped acc [] = None"
| "string_body escaped acc (c # s) =
     (if escaped then string_body False (acc @ [c]) s
      else if c = CHR 0x5C then string_body True (acc @ [c]) s
      else if c = CHR ''\"'' then map_option (\<lambda>t. (t, s)) (from_utf8 acc)
      else string_body False (acc @ [c]) s)"

definition raw_string :: "string \<Rightarrow> (string \<times> string) option" where
  "raw_string s = Option.bind (eat (CHR ''\"'') s) (string_body False [])"

definition number_char :: "char \<Rightarrow> bool" where
  "number_char c \<longleftrightarrow> ascii_digit c \<or> c \<in> {CHR ''-'', CHR ''+'', CHR ''.'', CHR ''e'', CHR ''E''}"

definition raw_number :: "string \<Rightarrow> (string \<times> string) option" where
  "raw_number s = (let n = takeWhile number_char s in if n = [] then None else Some (n, dropWhile number_char s))"

definition skip_word :: "string \<Rightarrow> string \<Rightarrow> string option" where
  "skip_word w s = (if prefix w s then Some (drop (length w) s) else None)"

text \<open>The arms of \<open>skip_value\<close> that do not recurse.\<close>

definition skip_scalar :: "string \<Rightarrow> string option" where
  "skip_scalar s = (case s of
       [] \<Rightarrow> None
     | c # r \<Rightarrow>
         if c = CHR ''\"'' then map_option snd (raw_string s)
         else if c = CHR ''-'' \<or> ascii_digit c then map_option snd (raw_number s)
         else (case skip_word ''true'' s of Some r \<Rightarrow> Some r | None \<Rightarrow>
              (case skip_word ''false'' s of Some r \<Rightarrow> Some r | None \<Rightarrow> skip_word ''null'' s)))"

fun skip_value :: "nat \<Rightarrow> string \<Rightarrow> string option"
  and skip_members :: "nat \<Rightarrow> string \<Rightarrow> string option"
  and skip_items :: "nat \<Rightarrow> string \<Rightarrow> string option" where
  "skip_value 0 s = None"
| "skip_value (Suc n) s =
     (case skip_space s of
        [] \<Rightarrow> None
      | c # r \<Rightarrow>
          if c = CHR ''{'' then
            (case eat (CHR ''}'') (skip_space r) of Some r' \<Rightarrow> Some r' | None \<Rightarrow> skip_members n (skip_space r))
          else if c = CHR ''['' then
            (case eat (CHR '']'') (skip_space r) of Some r' \<Rightarrow> Some r' | None \<Rightarrow> skip_items n (skip_space r))
          else skip_scalar (c # r))"
| "skip_members 0 s = None"
| "skip_members (Suc n) s =
     (case raw_string (skip_space s) of
        None \<Rightarrow> None
      | Some (k, r) \<Rightarrow>
          (case eat (CHR '':'') (skip_space r) of
             None \<Rightarrow> None
           | Some r \<Rightarrow>
               (case skip_value n r of
                  None \<Rightarrow> None
                | Some r \<Rightarrow>
                    (case eat (CHR '','') (skip_space r) of
                       Some r' \<Rightarrow> skip_members n r'
                     | None \<Rightarrow> eat (CHR ''}'') (skip_space r)))))"
| "skip_items 0 s = None"
| "skip_items (Suc n) s =
     (case skip_value n s of
        None \<Rightarrow> None
      | Some r \<Rightarrow>
          (case eat (CHR '','') (skip_space r) of
             Some r' \<Rightarrow> skip_items n r'
           | None \<Rightarrow> eat (CHR '']'') (skip_space r)))"

lemma skip_space_le: "length (skip_space s) \<le> length s"
  by (simp add: skip_space_def length_dropWhile_le)

lemma eat_shorter: "eat c s = Some r \<Longrightarrow> length r < length s"
  by (auto simp: eat_def split: list.splits if_splits)

lemma string_body_shorter: "string_body escaped acc s = Some (t, r) \<Longrightarrow> length r < length s"
  by (induction escaped acc s rule: string_body.induct) (auto split: if_splits)

lemma raw_string_shorter: "raw_string s = Some (t, r) \<Longrightarrow> length r < length s"
  by (auto simp: raw_string_def bind_eq_Some_conv dest!: eat_shorter string_body_shorter)

lemma raw_number_shorter: "raw_number s = Some (t, r) \<Longrightarrow> length r < length s"
proof -
  assume "raw_number s = Some (t, r)"
  then have "t = takeWhile number_char s" "t \<noteq> []" "r = dropWhile number_char s"
    by (auto simp: raw_number_def Let_def split: if_splits)
  moreover have "length s = length (takeWhile number_char s) + length (dropWhile number_char s)"
    by (metis length_append takeWhile_dropWhile_id)
  ultimately show ?thesis by simp
qed

lemma skip_word_shorter: "w \<noteq> [] \<Longrightarrow> skip_word w s = Some r \<Longrightarrow> length r < length s"
  by (cases w; cases s) (auto simp: skip_word_def split: if_splits)

lemma skip_scalar_shorter: "skip_scalar s = Some r \<Longrightarrow> length r < length s"
  unfolding skip_scalar_def
  by (cases s) (auto simp del: length_Cons list.size split: if_splits option.splits
      dest: raw_string_shorter raw_number_shorter skip_word_shorter [rotated])

lemma skip_value_Some:
  assumes "skip_value (Suc n) s = Some r"
  obtains c t where "skip_space s = c # t" "length r < Suc (length t)"
  | c t where "skip_space s = c # t" "c = CHR ''{''" "eat (CHR ''}'') (skip_space t) = None" "skip_members n (skip_space t) = Some r"
  | c t where "skip_space s = c # t" "c \<noteq> CHR ''{''" "c = CHR ''[''" "eat (CHR '']'') (skip_space t) = None" "skip_items n (skip_space t) = Some r"
proof (cases "skip_space s")
  case (Cons c t)
  note sp = skip_space_le [of t]
  consider (obj) "c = CHR ''{''" | (arr) "c = CHR ''[''" | (other) "c \<noteq> CHR ''{''" "c \<noteq> CHR ''[''" by blast
  then show ?thesis
  proof cases
    case obj
    then show ?thesis using assms Cons that(1,2) sp
      by (cases "eat (CHR ''}'') (skip_space t)") (auto dest!: eat_shorter)
  next
    case arr
    then show ?thesis using assms Cons that(1,3) sp
      by (cases "eat (CHR '']'') (skip_space t)") (auto dest!: eat_shorter)
  next
    case other
    then have "length r < length (c # t)" using assms Cons skip_scalar_shorter [of "c # t" r] by simp
    then show ?thesis using Cons that(1) by simp
  qed
qed (use assms in simp)

lemma skip_members_Some:
  assumes "skip_members (Suc n) s = Some r"
  obtains k r1 r2 r3 where "raw_string (skip_space s) = Some (k, r1)" "eat (CHR '':'') (skip_space r1) = Some r2"
    "skip_value n r2 = Some r3"
    "(\<exists>r4. eat (CHR '','') (skip_space r3) = Some r4 \<and> skip_members n r4 = Some r) \<or> eat (CHR ''}'') (skip_space r3) = Some r"
  using assms by (auto split: option.splits)

lemma skip_items_Some:
  assumes "skip_items (Suc n) s = Some r"
  obtains r3 where "skip_value n s = Some r3"
    "(\<exists>r4. eat (CHR '','') (skip_space r3) = Some r4 \<and> skip_items n r4 = Some r) \<or> eat (CHR '']'') (skip_space r3) = Some r"
  using assms by (auto split: option.splits)

lemma skip_shorter:
  "skip_value n s = Some r \<Longrightarrow> length r < length s"
  "skip_members n s = Some r \<Longrightarrow> length r < length s"
  "skip_items n s = Some r \<Longrightarrow> length r < length s"
proof (induction n s and n s and n s arbitrary: r and r and r rule: skip_value_skip_members_skip_items.induct)
  case (2 n s)
  from "2.prems" show ?case
  proof (cases rule: skip_value_Some)
    case (1 c t)
    then show ?thesis using skip_space_le [of s] by simp
  next
    case (2 c t)
    then have "length r < length (skip_space t)" using "2.IH"(1) by blast
    then show ?thesis using skip_space_le [of s] skip_space_le [of t] 2(1) by simp
  next
    case (3 c t)
    then have "length r < length (skip_space t)" using "2.IH"(2) by blast
    then show ?thesis using skip_space_le [of s] skip_space_le [of t] 3(1) by simp
  qed
next
  case (4 n s)
  from "4.prems" show ?case
  proof (cases rule: skip_members_Some)
    case (1 k r1 r2 r3)
    have "length r1 < length s" using 1(1) raw_string_shorter skip_space_le order.strict_trans2 by blast
    moreover have "length r2 < length r1" using 1(2) eat_shorter skip_space_le order.strict_trans2 by blast
    moreover have "length r3 < length r2" using "4.IH"(1) [OF 1(1) refl 1(2) 1(3)] .
    moreover have "length r < length r3" using 1(4)
    proof
      assume "\<exists>r4. eat (CHR '','') (skip_space r3) = Some r4 \<and> skip_members n r4 = Some r"
      then obtain r4 where r4: "eat (CHR '','') (skip_space r3) = Some r4" "skip_members n r4 = Some r" by blast
      have "length r < length r4" using "4.IH"(2) [OF 1(1) refl 1(2) 1(3) r4] .
      also have "length r4 < length r3" using r4(1) eat_shorter skip_space_le order.strict_trans2 by blast
      finally show ?thesis .
    next
      assume "eat (CHR ''}'') (skip_space r3) = Some r"
      then show ?thesis using eat_shorter skip_space_le order.strict_trans2 by blast
    qed
    ultimately show ?thesis by simp
  qed
next
  case (6 n s)
  from "6.prems" show ?case
  proof (cases rule: skip_items_Some)
    case (1 r3)
    have "length r3 < length s" using "6.IH"(1) [OF 1(1)] .
    moreover have "length r < length r3" using 1(2)
    proof
      assume "\<exists>r4. eat (CHR '','') (skip_space r3) = Some r4 \<and> skip_items n r4 = Some r"
      then obtain r4 where r4: "eat (CHR '','') (skip_space r3) = Some r4" "skip_items n r4 = Some r" by blast
      have "length r < length r4" using "6.IH"(2) [OF 1(1) r4] .
      also have "length r4 < length r3" using r4(1) eat_shorter skip_space_le order.strict_trans2 by blast
      finally show ?thesis .
    next
      assume "eat (CHR '']'') (skip_space r3) = Some r"
      then show ?thesis using eat_shorter skip_space_le order.strict_trans2 by blast
    qed
    ultimately show ?thesis by simp
  qed
qed auto

text \<open>More fuel than bytes changes nothing: the recursion of the code always returns.\<close>

lemma skip_fuel:
  "(2 * length s < n \<longrightarrow> 2 * length s < m \<longrightarrow> skip_value n s = skip_value m s \<and> skip_members n s = skip_members m s) \<and>
   (2 * length s + 1 < n \<longrightarrow> 2 * length s + 1 < m \<longrightarrow> skip_items n s = skip_items m s)"
proof (induction n arbitrary: m s)
  case (Suc n)
  show ?case
  proof (cases m)
    case m: (Suc m')
    have same: "2 * length t < n \<Longrightarrow> 2 * length t < m' \<Longrightarrow> skip_value n t = skip_value m' t"
      "2 * length t < n \<Longrightarrow> 2 * length t < m' \<Longrightarrow> skip_members n t = skip_members m' t"
      "2 * length t + 1 < n \<Longrightarrow> 2 * length t + 1 < m' \<Longrightarrow> skip_items n t = skip_items m' t" for t
      using Suc.IH [of t m'] by auto
    have after: "length r4 < length r2" if "skip_value k r2 = Some r3" "eat c (skip_space r3) = Some r4" for k c r2 r3 r4
      using that skip_shorter(1) [OF that(1)] eat_shorter [OF that(2)] skip_space_le [of r3] by linarith
    have "skip_value (Suc n) s = skip_value (Suc m') s" if "2 * length s < Suc n" "2 * length s < Suc m'"
    proof (cases "skip_space s")
      case (Cons c t)
      then have "length (skip_space t) < length s" using skip_space_le [of s] skip_space_le [of t] by simp
      then show ?thesis using Cons same [of "skip_space t"] that by (simp split: option.split)
    qed simp
    moreover have "skip_members (Suc n) s = skip_members (Suc m') s" if "2 * length s < Suc n" "2 * length s < Suc m'"
    proof (cases "raw_string (skip_space s)")
      case (Some p)
      obtain k r1 where p: "p = (k, r1)" by fastforce
      show ?thesis
      proof (cases "eat (CHR '':'') (skip_space r1)")
        case colon: (Some r2)
        have "length r2 < length s"
          using Some p raw_string_shorter [of "skip_space s" k r1] eat_shorter [OF colon] skip_space_le [of s] skip_space_le [of r1] by simp
        then have skipped: "skip_value n r2 = skip_value m' r2" and rest: "length r4 < length r2 \<Longrightarrow> skip_members n r4 = skip_members m' r4" for r4
          using same that by auto
        show ?thesis using after [of m' r2] by (auto simp: Some p colon skipped rest split: option.split)
      qed (simp add: Some p)
    qed simp
    moreover have "skip_items (Suc n) s = skip_items (Suc m') s" if "2 * length s + 1 < Suc n" "2 * length s + 1 < Suc m'"
    proof -
      have skipped: "skip_value n s = skip_value m' s" and rest: "length r4 < length s \<Longrightarrow> skip_items n r4 = skip_items m' r4" for r4
        using same that by auto
      show ?thesis using after [of m' s] by (auto simp: skipped rest split: option.split)
    qed
    ultimately show ?thesis using m by simp
  qed simp
qed simp

text \<open>\<open>skip_value\<close> of the code.\<close>

definition skip_all :: "string \<Rightarrow> string option" where
  "skip_all s = skip_value (2 * length s + 1) s"

lemma skip_all_fuel: "2 * length s < n \<Longrightarrow> skip_value n s = skip_all s"
  using skip_fuel [of s n "2 * length s + 1"] by (simp add: skip_all_def)

lemma skip_all_shorter: "skip_all s = Some r \<Longrightarrow> length r < length s"
  unfolding skip_all_def by (rule skip_shorter(1))

text \<open>\<open>value_at_path\<close>; the second function is its loop over the members of an object.\<close>

function value_at_path :: "string list \<Rightarrow> string \<Rightarrow> string option"
  and member_at_path :: "string \<Rightarrow> string list \<Rightarrow> string \<Rightarrow> string option" where
  "value_at_path [] s = map_option fst (raw_number (skip_space s))"
| "value_at_path (k # ks) s =
     (case eat (CHR ''{'') (skip_space s) of
        None \<Rightarrow> None
      | Some r \<Rightarrow> if eat (CHR ''}'') (skip_space r) \<noteq> None then None else member_at_path k ks (skip_space r))"
| "member_at_path k ks s =
     (case raw_string (skip_space s) of
        None \<Rightarrow> None
      | Some (key, r) \<Rightarrow>
          (case eat (CHR '':'') (skip_space r) of
             None \<Rightarrow> None
           | Some r \<Rightarrow>
               if key = k then value_at_path ks (skip_space r)
               else (case skip_all (skip_space r) of
                   None \<Rightarrow> None
                 | Some r \<Rightarrow>
                     (case eat (CHR '','') (skip_space r) of
                        Some r' \<Rightarrow> member_at_path k ks r'
                      | None \<Rightarrow> None))))"
  by pat_completeness auto
termination
proof (relation "measure (\<lambda>x. case x of Inl (ks, s) \<Rightarrow> 2 * length s | Inr (k, ks, s) \<Rightarrow> 2 * length s + 1)", goal_cases)
  case (2 k ks s r)
  then show ?case using eat_shorter [of _ "skip_space s" r] skip_space_le [of s] skip_space_le [of r] by fastforce
next
  case (3 k ks s a key r ra)
  then show ?case
    using raw_string_shorter [of "skip_space s" key r] eat_shorter [of "CHR '':''" "skip_space r" ra]
      skip_space_le [of s] skip_space_le [of r] skip_space_le [of ra] by simp
next
  case (4 k ks s a key r ra rb rc)
  then show ?case
    using raw_string_shorter [of "skip_space s" key r] eat_shorter [of "CHR '':''" "skip_space r" ra]
      skip_all_shorter [of "skip_space ra" rb] eat_shorter [of "CHR '',''" "skip_space rb" rc]
      skip_space_le [of s] skip_space_le [of r] skip_space_le [of ra] skip_space_le [of rb] by simp
qed simp

declare value_at_path.simps [simp del] member_at_path.simps [simp del]

definition valid_nonnegative_json_number :: "string \<Rightarrow> bool" where
  "valid_nonnegative_json_number v =
     (case v of
        [] \<Rightarrow> False
      | c # s \<Rightarrow>
          if c = CHR ''-'' then False
          else if \<not> ascii_digit c then False
          else let
              s = (if c = CHR ''0'' then s else dropWhile ascii_digit s);
              fraction = eat (CHR ''.'') s;
              s1 = (case fraction of Some r \<Rightarrow> dropWhile ascii_digit r | None \<Rightarrow> s)
            in if (case fraction of Some r \<Rightarrow> takeWhile ascii_digit r = [] | None \<Rightarrow> False) then False
               else if s1 = [] \<or> hd s1 \<notin> {CHR ''e'', CHR ''E''} then s1 = []
               else let
                   r = tl s1;
                   r = (if r \<noteq> [] \<and> hd r \<in> {CHR ''+'', CHR ''-''} then tl r else r)
                 in takeWhile ascii_digit r \<noteq> [] \<and> dropWhile ascii_digit r = [])"

definition exact_number_at_path :: "string \<Rightarrow> string list \<Rightarrow> string option" where
  "exact_number_at_path input path = (case value_at_path path input of
       None \<Rightarrow> None
     | Some v \<Rightarrow> if \<not> valid_nonnegative_json_number v then None else Some v)"

section \<open>What the scanner reads\<close>

text \<open>The equations of the code, without fuel.\<close>

definition skip_all_members :: "string \<Rightarrow> string option" where
  "skip_all_members s = skip_members (2 * length s + 1) s"

definition skip_all_items :: "string \<Rightarrow> string option" where
  "skip_all_items s = skip_items (2 * length s + 2) s"

lemma skip_all_Cons:
  assumes "skip_space s = c # t"
  shows "skip_all s =
     (if c = CHR ''{'' then
        (case eat (CHR ''}'') (skip_space t) of Some r \<Rightarrow> Some r | None \<Rightarrow> skip_all_members (skip_space t))
      else if c = CHR ''['' then
        (case eat (CHR '']'') (skip_space t) of Some r \<Rightarrow> Some r | None \<Rightarrow> skip_all_items (skip_space t))
      else skip_scalar (c # t))"
proof -
  have "2 * length (skip_space t) + 1 < 2 * length s" using assms skip_space_le [of s] skip_space_le [of t] by simp
  then have "skip_members (2 * length s) (skip_space t) = skip_all_members (skip_space t)"
    "skip_items (2 * length s) (skip_space t) = skip_all_items (skip_space t)"
    unfolding skip_all_members_def skip_all_items_def
    using skip_fuel [of "skip_space t" "2 * length s" "2 * length (skip_space t) + 1"]
      skip_fuel [of "skip_space t" "2 * length s" "2 * length (skip_space t) + 2"] by auto
  then show ?thesis using assms by (simp add: skip_all_def split: option.split)
qed

lemma skip_all_members_step:
  assumes "raw_string (skip_space s) = Some (k, r1)" "eat (CHR '':'') (skip_space r1) = Some r2" "skip_all r2 = Some r3"
  shows "skip_all_members s = (case eat (CHR '','') (skip_space r3) of
      Some r4 \<Rightarrow> skip_all_members r4 | None \<Rightarrow> eat (CHR ''}'') (skip_space r3))"
proof -
  have len: "length r2 < length s"
    using raw_string_shorter [OF assms(1)] eat_shorter [OF assms(2)] skip_space_le [of s] skip_space_le [of r1] by simp
  have "skip_members (2 * length s) r4 = skip_all_members r4" if "eat (CHR '','') (skip_space r3) = Some r4" for r4
  proof -
    have "length r4 < length r2" using eat_shorter [OF that] skip_all_shorter [OF assms(3)] skip_space_le [of r3] by linarith
    then show ?thesis using len skip_fuel [of r4 "2 * length s" "2 * length r4 + 1"] by (simp add: skip_all_members_def)
  qed
  moreover have "skip_value (2 * length s) r2 = Some r3" using len assms(3) by (subst skip_all_fuel) simp_all
  ultimately show ?thesis using assms(1,2) by (simp add: skip_all_members_def split: option.split)
qed

lemma skip_all_items_step:
  assumes "skip_all s = Some r3"
  shows "skip_all_items s = (case eat (CHR '','') (skip_space r3) of
      Some r4 \<Rightarrow> skip_all_items r4 | None \<Rightarrow> eat (CHR '']'') (skip_space r3))"
proof -
  have "skip_items (Suc (2 * length s)) r4 = skip_all_items r4" if "eat (CHR '','') (skip_space r3) = Some r4" for r4
  proof -
    have "length r4 < length s" using eat_shorter [OF that] skip_all_shorter [OF assms] skip_space_le [of r3] by linarith
    then show ?thesis using skip_fuel [of r4 "Suc (2 * length s)" "2 * length r4 + 2"] by (simp add: skip_all_items_def)
  qed
  moreover have "skip_value (Suc (2 * length s)) s = Some r3" using assms by (simp add: skip_all_def del: skip_value.simps)
  ultimately show ?thesis by (simp add: skip_all_items_def numeral_2_eq_2 del: skip_value.simps split: option.split)
qed

text \<open>JSON texts, with the spelling of numbers and strings kept, and white space anywhere between tokens.\<close>

datatype raw =
  RNumber string
| RWord string
| RString string
| RArray "raw list"
| RObject "(string \<times> raw) list"

fun escapes_ok :: "string \<Rightarrow> bool" where
  "escapes_ok [] = True"
| "escapes_ok (c # s) =
     (if c = CHR 0x5C then (case s of [] \<Rightarrow> False | d # t \<Rightarrow> escapes_ok t) else c \<noteq> CHR ''\"'' \<and> escapes_ok s)"

definition string_spelling :: "string \<Rightarrow> bool" where
  "string_spelling t \<longleftrightarrow> utf8 t \<and> escapes_ok t"

definition number_spelling :: "string \<Rightarrow> bool" where
  "number_spelling n \<longleftrightarrow> n \<noteq> [] \<and> (hd n = CHR ''-'' \<or> ascii_digit (hd n)) \<and> list_all number_char n"

abbreviation space :: "string \<Rightarrow> bool" where
  "space w \<equiv> list_all ascii_whitespace w"

definition quote_text :: "string \<Rightarrow> string" where
  "quote_text t = CHR ''\"'' # t @ [CHR ''\"'']"

inductive spells :: "raw \<Rightarrow> string \<Rightarrow> bool"
  and spells_items :: "raw list \<Rightarrow> string \<Rightarrow> bool"
  and spells_members :: "(string \<times> raw) list \<Rightarrow> string \<Rightarrow> bool" where
  numeral: "number_spelling n \<Longrightarrow> spells (RNumber n) n"
| word: "w \<in> {''true'', ''false'', ''null''} \<Longrightarrow> spells (RWord w) w"
| string: "string_spelling t \<Longrightarrow> spells (RString t) (quote_text t)"
| no_items: "space w \<Longrightarrow> spells (RArray []) (CHR ''['' # w @ '']'')"
| items: "spells_items vs s \<Longrightarrow> spells (RArray vs) (CHR ''['' # s @ '']'')"
| no_members: "space w \<Longrightarrow> spells (RObject []) (CHR ''{'' # w @ ''}'')"
| members: "spells_members ms s \<Longrightarrow> spells (RObject ms) (CHR ''{'' # s @ ''}'')"
| last_item: "spells v s \<Longrightarrow> space w \<Longrightarrow> space u \<Longrightarrow> spells_items [v] (w @ s @ u)"
| more_items: "spells v s \<Longrightarrow> space w \<Longrightarrow> space u \<Longrightarrow> spells_items vs t \<Longrightarrow> spells_items (v # vs) (w @ s @ u @ CHR '','' # t)"
| last_member: "string_spelling k \<Longrightarrow> spells v s \<Longrightarrow> space w \<Longrightarrow> space x \<Longrightarrow> space y \<Longrightarrow> space u \<Longrightarrow>
     spells_members [(k, v)] (w @ quote_text k @ x @ CHR '':'' # y @ s @ u)"
| more_members: "string_spelling k \<Longrightarrow> spells v s \<Longrightarrow> space w \<Longrightarrow> space x \<Longrightarrow> space y \<Longrightarrow> space u \<Longrightarrow> spells_members ms t \<Longrightarrow>
     spells_members ((k, v) # ms) (w @ quote_text k @ x @ CHR '':'' # y @ s @ u @ CHR '','' # t)"

text \<open>The value at a path of keys, the first member of a name standing for it.\<close>

fun raw_at :: "raw \<Rightarrow> string list \<Rightarrow> raw option" where
  "raw_at v [] = Some v"
| "raw_at (RObject ms) (k # ks) = (case map_of ms k of Some v \<Rightarrow> raw_at v ks | None \<Rightarrow> None)"
| "raw_at v (k # ks) = None"

named_theorems spell_simps \<open>tokens of the scanner\<close>

lemma skip_space_append [spell_simps]: "space w \<Longrightarrow> skip_space (w @ s) = skip_space s"
  by (simp add: skip_space_def list_all_iff)

lemma skip_space_all [spell_simps]: "space w \<Longrightarrow> skip_space w = []"
  using skip_space_append [of w "[]"] by (simp add: skip_space_def)

lemma skip_space_token [spell_simps]: "\<not> ascii_whitespace c \<Longrightarrow> skip_space (c # s) = c # s"
  by (simp add: skip_space_def)

lemma skip_space_twice [simp]: "skip_space (skip_space s) = skip_space s"
  unfolding skip_space_def by (induction s) auto

lemma tokens [spell_simps]:
  "\<not> ascii_whitespace (CHR ''\"'')" "\<not> ascii_whitespace (CHR '','')" "\<not> ascii_whitespace (CHR '':'')"
  "\<not> ascii_whitespace (CHR ''['')" "\<not> ascii_whitespace (CHR '']'')" "\<not> ascii_whitespace (CHR ''{'')" "\<not> ascii_whitespace (CHR ''}'')"
  "\<not> number_char (CHR ''t'')" "\<not> number_char (CHR ''f'')" "\<not> number_char (CHR ''n'')"
  "\<not> number_char (CHR ''\"'')" "\<not> number_char (CHR ''['')" "\<not> number_char (CHR ''{'')"
  "\<not> number_char (CHR '','')" "\<not> number_char (CHR '']'')" "\<not> number_char (CHR ''}'')"
  by (auto simp: ascii_whitespace_def number_char_def ascii_digit_def)

lemma eat_simps [spell_simps]: "eat c (c # s) = Some s" "c \<noteq> d \<Longrightarrow> eat c (d # s) = None" "eat c [] = None"
  by (simp_all add: eat_def)

definition follows :: "string \<Rightarrow> bool" where
  "follows r \<longleftrightarrow> r = [] \<or> \<not> number_char (hd r)"

lemma follows_space [spell_simps]: "space u \<Longrightarrow> \<not> number_char c \<Longrightarrow> follows (u @ c # r)"
proof (cases u)
  case (Cons d v)
  moreover assume "space u"
  ultimately show ?thesis by (auto simp: follows_def ascii_whitespace_def number_char_def ascii_digit_def)
qed (simp add: follows_def)

lemma string_body_spelling:
  "escapes_ok t \<Longrightarrow> string_body False acc (t @ CHR ''\"'' # r) = map_option (\<lambda>t. (t, r)) (from_utf8 (acc @ t))"
proof (induction t arbitrary: acc rule: escapes_ok.induct)
  case (2 c s)
  show ?case
  proof (cases "c = CHR 0x5C")
    case True
    then obtain d t where "s = d # t" "escapes_ok t" using "2.prems" by (auto split: list.splits)
    then show ?thesis using "2.IH"(1) [OF True] True by simp
  next
    case False
    then show ?thesis using 2 by simp
  qed
qed simp

lemma raw_string_spelling [spell_simps]: "string_spelling t \<Longrightarrow> raw_string (quote_text t @ r) = Some (t, r)"
  by (simp add: raw_string_def quote_text_def eat_def string_body_spelling string_spelling_def from_utf8_def is_utf8_iff)

lemma skip_space_quote [spell_simps]: "skip_space (quote_text t @ r) = quote_text t @ r"
  by (simp add: quote_text_def spell_simps)

lemma raw_number_spelling [spell_simps]:
  assumes "number_spelling n" and "follows r"
  shows "raw_number (n @ r) = Some (n, r)"
proof -
  have "takeWhile number_char (n @ r) = n" "dropWhile number_char (n @ r) = r"
    using assms by (cases r; simp add: number_spelling_def follows_def list_all_iff)+
  then show ?thesis using assms by (simp add: raw_number_def number_spelling_def)
qed

lemma ascii_digit_token: "ascii_digit c \<Longrightarrow> \<not> ascii_whitespace c \<and> c \<noteq> CHR ''\"'' \<and> c \<noteq> CHR ''['' \<and> c \<noteq> CHR ''{''"
  by (auto simp: ascii_digit_def ascii_whitespace_def)

lemma number_spelling_hd:
  assumes "number_spelling n"
  obtains c t where "n = c # t" "c = CHR ''-'' \<or> ascii_digit c" "\<not> ascii_whitespace c"
    "c \<noteq> CHR ''\"'' \<and> c \<noteq> CHR ''['' \<and> c \<noteq> CHR ''{''"
proof (cases n)
  case (Cons c t)
  then have "c = CHR ''-'' \<or> ascii_digit c" using assms by (simp add: number_spelling_def)
  moreover from this have "\<not> ascii_whitespace c \<and> c \<noteq> CHR ''\"'' \<and> c \<noteq> CHR ''['' \<and> c \<noteq> CHR ''{''"
    using ascii_digit_token by (auto simp: ascii_whitespace_def)
  ultimately show ?thesis using Cons that by blast
qed (use assms in \<open>simp add: number_spelling_def\<close>)

lemma spells_hd:
  assumes "spells v s"
  shows "\<exists>c t. s = c # t \<and> \<not> ascii_whitespace c \<and> c \<notin> {CHR '']'', CHR ''}''}"
  using assms
proof (cases rule: spells.cases)
  case numeral
  then have "number_spelling s" by simp
  then obtain c t where "s = c # t" "c = CHR ''-'' \<or> ascii_digit c" "\<not> ascii_whitespace c" using number_spelling_hd [OF \<open>number_spelling s\<close>] by metis
  moreover have "\<not> ascii_digit (CHR '']'')" "\<not> ascii_digit (CHR ''}'')" by (simp_all add: ascii_digit_def)
  ultimately show ?thesis using numeral by auto
next
  case word
  then show ?thesis by (auto simp: ascii_whitespace_def)
qed (auto simp: quote_text_def ascii_whitespace_def)

lemma skip_all_Nil: "skip_space s = [] \<Longrightarrow> skip_all s = None"
  by (simp add: skip_all_def)

lemma skip_all_space: "skip_all (skip_space s) = skip_all s"
proof (cases "skip_space s")
  case Nil
  moreover have "skip_space [] = []" by (simp add: skip_space_def)
  ultimately show ?thesis by (simp only: skip_all_Nil)
next
  case (Cons c t)
  then have "skip_space (c # t) = c # t" by (metis skip_space_twice)
  then show ?thesis unfolding Cons by (simp only: skip_all_Cons [OF Cons] skip_all_Cons [of "c # t"])
qed

lemma skip_scalar_word:
  assumes "w \<in> {''true'', ''false'', ''null''}"
  shows "skip_scalar (w @ r) = Some r"
proof -
  have start: "skip_scalar (c # s) = (case skip_word ''true'' (c # s) of Some r \<Rightarrow> Some r | None \<Rightarrow>
      (case skip_word ''false'' (c # s) of Some r \<Rightarrow> Some r | None \<Rightarrow> skip_word ''null'' (c # s)))"
    if "c \<in> {CHR ''t'', CHR ''f'', CHR ''n''}" for c s
  proof -
    have "\<not> ascii_digit c" "c \<noteq> CHR ''\"''" "c \<noteq> CHR ''-''" using that by (auto simp: ascii_digit_def)
    then show ?thesis by (simp add: skip_scalar_def)
  qed
  have "w = ''true'' \<or> w = ''false'' \<or> w = ''null''" using assms by simp
  then show ?thesis
  proof (elim disjE)
    assume w: "w = ''true''"
    show ?thesis using start [of "CHR ''t''" "''rue'' @ r"] by (simp add: w skip_word_def)
  next
    assume w: "w = ''false''"
    show ?thesis using start [of "CHR ''f''" "''alse'' @ r"] by (simp add: w skip_word_def)
  next
    assume w: "w = ''null''"
    show ?thesis using start [of "CHR ''n''" "''ull'' @ r"] by (simp add: w skip_word_def)
  qed
qed

text \<open>Skipping passes over exactly the text of a value.\<close>

lemma skip_spelled:
  "spells v s \<Longrightarrow> follows r \<Longrightarrow> space w \<Longrightarrow> skip_all (w @ s @ r) = Some r"
  "spells_items vs s \<Longrightarrow> skip_all_items (skip_space (s @ CHR '']'' # r)) = Some r \<and> skip_all_items (s @ CHR '']'' # r) = Some r \<and>
     eat (CHR '']'') (skip_space (s @ CHR '']'' # r)) = None"
  "spells_members ms s \<Longrightarrow> skip_all_members (skip_space (s @ CHR ''}'' # r)) = Some r \<and> skip_all_members (s @ CHR ''}'' # r) = Some r \<and>
     eat (CHR ''}'') (skip_space (s @ CHR ''}'' # r)) = None"
proof (induction arbitrary: w r and r and r rule: spells_spells_items_spells_members.inducts)
  case (numeral n)
  obtain c t where n: "n = c # t" "c = CHR ''-'' \<or> ascii_digit c" "\<not> ascii_whitespace c"
    "c \<noteq> CHR ''\"'' \<and> c \<noteq> CHR ''['' \<and> c \<noteq> CHR ''{''" using number_spelling_hd [OF numeral(1)] .
  have "skip_space (w @ n @ r) = c # t @ r" using numeral n by (simp add: spell_simps)
  then show ?case using numeral n raw_number_spelling [OF numeral(1,2)] by (simp add: skip_all_Cons skip_scalar_def)
next
  case (word u)
  obtain c t where u: "u = c # t" "\<not> ascii_whitespace c" "c \<noteq> CHR ''[''" "c \<noteq> CHR ''{''"
    using word(1) by (auto simp: ascii_whitespace_def)
  then have "skip_space (w @ u @ r) = c # t @ r" using word by (simp add: spell_simps)
  then show ?case using u skip_scalar_word [OF word(1), of r] by (simp add: skip_all_Cons)
next
  case (string t)
  have "skip_space (w @ quote_text t @ r) = CHR ''\"'' # t @ CHR ''\"'' # r"
    using string by (simp add: spell_simps) (simp add: quote_text_def)
  then show ?case using raw_string_spelling [OF string(1)] by (simp add: skip_all_Cons skip_scalar_def quote_text_def)
next
  case (no_items u)
  then show ?case by (simp add: spell_simps skip_all_Cons)
next
  case (items vs s)
  then show ?case by (simp add: spell_simps skip_all_Cons)
next
  case (no_members u)
  then show ?case by (simp add: spell_simps skip_all_Cons)
next
  case (members ms s)
  then show ?case by (simp add: spell_simps skip_all_Cons)
next
  case (last_item v s w u)
  have skipped: "skip_all (w @ s @ u @ CHR '']'' # r) = Some (u @ CHR '']'' # r)"
    using last_item by (simp add: spell_simps)
  obtain c t where "s = c # t" "\<not> ascii_whitespace c" "c \<noteq> CHR '']''" using spells_hd [OF last_item(1)] by auto
  then have "eat (CHR '']'') (skip_space (w @ s @ u @ CHR '']'' # r)) = None" using last_item by (simp add: spell_simps)
  moreover have "skip_all_items z = Some r" if "skip_all z = Some (u @ CHR '']'' # r)" for z
    using last_item by (simp add: skip_all_items_step [OF that] spell_simps)
  ultimately show ?case using skipped skip_all_space by simp
next
  case (more_items v s w u vs t)
  have skipped: "skip_all (w @ s @ u @ CHR '','' # t @ CHR '']'' # r) = Some (u @ CHR '','' # t @ CHR '']'' # r)"
    using more_items by (simp add: spell_simps)
  obtain c t' where "s = c # t'" "\<not> ascii_whitespace c" "c \<noteq> CHR '']''" using spells_hd [OF more_items(1)] by auto
  then have "eat (CHR '']'') (skip_space (w @ s @ u @ CHR '','' # t @ CHR '']'' # r)) = None" using more_items by (simp add: spell_simps)
  moreover have "skip_all_items z = Some r" if "skip_all z = Some (u @ CHR '','' # t @ CHR '']'' # r)" for z
    using more_items by (simp add: skip_all_items_step [OF that] spell_simps)
  ultimately show ?case using skipped skip_all_space by simp
next
  case (last_member k v s w x y u)
  let ?val = "y @ s @ u @ CHR ''}'' # r"
  have skipped: "skip_all ?val = Some (u @ CHR ''}'' # r)" using last_member by (simp add: spell_simps)
  have key: "skip_space (w @ quote_text k @ x @ CHR '':'' # ?val) = quote_text k @ x @ CHR '':'' # ?val"
    using last_member by (simp add: spell_simps)
  have step: "skip_all_members z = Some r" if "skip_space z = quote_text k @ x @ CHR '':'' # ?val" for z
    using last_member that by (simp add: skip_all_members_step [where s = z, OF _ _ skipped] spell_simps)
  show ?case using key step [of "skip_space _"] step by (simp add: quote_text_def spell_simps)
next
  case (more_members k v s w x y u ms t)
  let ?val = "y @ s @ u @ CHR '','' # t @ CHR ''}'' # r"
  have skipped: "skip_all ?val = Some (u @ CHR '','' # t @ CHR ''}'' # r)" using more_members by (simp add: spell_simps)
  have key: "skip_space (w @ quote_text k @ x @ CHR '':'' # ?val) = quote_text k @ x @ CHR '':'' # ?val"
    using more_members by (simp add: spell_simps)
  have step: "skip_all_members z = Some r" if "skip_space z = quote_text k @ x @ CHR '':'' # ?val" for z
    using more_members that by (simp add: skip_all_members_step [where s = z, OF _ _ skipped] spell_simps)
  show ?case using key step [of "skip_space _"] step by (simp add: quote_text_def spell_simps)
qed

lemma member_at_space: "member_at_path k ks (skip_space s) = member_at_path k ks s"
  by (simp add: member_at_path.simps)

lemma value_at_space: "value_at_path ks (skip_space s) = value_at_path ks s"
  by (cases ks) (simp_all add: value_at_path.simps)

definition number_text :: "raw option \<Rightarrow> string option" where
  "number_text v = (case v of Some (RNumber n) \<Rightarrow> Some n | _ \<Rightarrow> None)"

lemma number_text_simps [simp]: "number_text (Some (RNumber n)) = Some n" "number_text None = None"
  "number_text (Some (RWord w)) = None" "number_text (Some (RString t)) = None"
  "number_text (Some (RArray vs)) = None" "number_text (Some (RObject ms)) = None"
  by (simp_all add: number_text_def)

text \<open>A value that is no object answers the empty path only.\<close>

lemma value_at_path_other:
  assumes "skip_space s = c # t" "c \<noteq> CHR ''{''" "\<not> number_char c"
  shows "value_at_path ks s = None"
  using assms by (cases ks) (simp_all add: value_at_path.simps raw_number_def eat_def)

lemma value_spelled:
  "spells v s \<Longrightarrow> follows r \<Longrightarrow> space w \<Longrightarrow> value_at_path ks (w @ s @ r) = number_text (raw_at v ks)"
  "spells_items vs s \<Longrightarrow> True"
  "spells_members ms s \<Longrightarrow> member_at_path k ks (s @ CHR ''}'' # r) =
     number_text (case map_of ms k of Some v \<Rightarrow> raw_at v ks | None \<Rightarrow> None)"
proof (induction arbitrary: w r ks and r and k ks r rule: spells_spells_items_spells_members.inducts)
  case (numeral n)
  obtain c t where n: "n = c # t" "\<not> ascii_whitespace c" "c \<noteq> CHR ''{''" using number_spelling_hd [OF numeral(1)] by metis
  have here: "skip_space (w @ n @ r) = n @ r" using numeral n by (simp add: spell_simps)
  show ?case
  proof (cases ks)
    case Nil
    then show ?thesis using raw_number_spelling [OF numeral(1,2)] here by (simp add: value_at_path.simps)
  next
    case (Cons k ks)
    have "eat (CHR ''{'') (n @ r) = None" using n by (simp add: eat_def)
    then show ?thesis using Cons here by (simp add: value_at_path.simps)
  qed
next
  case (word u)
  have "hd u \<in> {CHR ''t'', CHR ''f'', CHR ''n''} \<and> u \<noteq> []" using word(1) by auto
  then obtain c t where "u = c # t" "c \<in> {CHR ''t'', CHR ''f'', CHR ''n''}" by (cases u) auto
  then have u: "u = c # t" "\<not> ascii_whitespace c" "c \<noteq> CHR ''{''" "\<not> number_char c"
    using tokens by (auto simp: ascii_whitespace_def)
  then have "skip_space (w @ u @ r) = c # t @ r" using word by (simp add: spell_simps)
  then show ?case using value_at_path_other u by (cases ks) simp_all
next
  case (string t)
  have "skip_space (w @ quote_text t @ r) = CHR ''\"'' # t @ CHR ''\"'' # r"
    using string by (simp add: spell_simps) (simp add: quote_text_def)
  then show ?case using value_at_path_other by (cases ks) (simp_all add: spell_simps)
next
  case (no_items u)
  then have "skip_space (w @ (CHR ''['' # u @ '']'') @ r) = CHR ''['' # u @ '']'' @ r" by (simp add: spell_simps)
  then show ?case using value_at_path_other by (cases ks) (simp_all add: spell_simps)
next
  case (items vs s)
  then have "skip_space (w @ (CHR ''['' # s @ '']'') @ r) = CHR ''['' # s @ '']'' @ r" by (simp add: spell_simps)
  then show ?case using value_at_path_other by (cases ks) (simp_all add: spell_simps)
next
  case (no_members u)
  then have here: "skip_space (w @ (CHR ''{'' # u @ ''}'') @ r) = CHR ''{'' # u @ ''}'' @ r" by (simp add: spell_simps)
  show ?case
  proof (cases ks)
    case Nil
    then show ?thesis using here by (simp add: value_at_path.simps raw_number_def spell_simps)
  next
    case (Cons k ks)
    then show ?thesis using here no_members by (simp add: value_at_path.simps spell_simps)
  qed
next
  case (members ms s)
  then have here: "skip_space (w @ (CHR ''{'' # s @ ''}'') @ r) = CHR ''{'' # s @ CHR ''}'' # r" by (simp add: spell_simps)
  show ?case
  proof (cases ks)
    case Nil
    then show ?thesis using here by (simp add: value_at_path.simps raw_number_def spell_simps)
  next
    case (Cons k ks)
    have "value_at_path (k # ks) (w @ (CHR ''{'' # s @ ''}'') @ r) = member_at_path k ks (s @ CHR ''}'' # r)"
      using here skip_spelled(3) [OF members(1), of r] by (simp add: value_at_path.simps spell_simps member_at_space)
    then show ?thesis unfolding Cons by (simp only: members(2) raw_at.simps)
  qed
next
  case (last_item v s w u)
  show ?case by simp
next
  case (more_items v s w u vs t)
  show ?case by simp
next
  case (last_member k' v s w x y u)
  let ?val = "s @ u @ CHR ''}'' # r"
  have skipped: "skip_all ?val = Some (u @ CHR ''}'' # r)"
    using last_member(2,6) skip_spelled(1) [of v s _ "[]"] by (simp add: spell_simps)
  have found: "value_at_path ks ?val = number_text (raw_at v ks)" using last_member(6) last_member(7) [of _ "[]"] by (simp add: spell_simps)
  show ?case using last_member found
    by (subst member_at_path.simps) (simp add: spell_simps skip_all_space skipped value_at_space)
next
  case (more_members k' v s w x y u ms t)
  let ?val = "s @ u @ CHR '','' # t @ CHR ''}'' # r"
  have skipped: "skip_all ?val = Some (u @ CHR '','' # t @ CHR ''}'' # r)"
    using more_members(2,6) skip_spelled(1) [of v s _ "[]"] by (simp add: spell_simps)
  have found: "value_at_path ks ?val = number_text (raw_at v ks)" using more_members(6) more_members(8) [of _ "[]"] by (simp add: spell_simps)
  show ?case using more_members found
    by (subst member_at_path.simps) (simp add: spell_simps skip_all_space skipped value_at_space)
qed


end
