(* ===== verification/Sse_Decoder.thy ===== *)
theory Sse_Decoder
  imports Exact_Number Accounting
begin

text \<open>
  The decoders of streamed Chat Completions responses: \<open>StreamingSseDecoder\<close> in
  \<open>tea-core/src/provider/openrouter/response.rs\<close> and \<open>LocalSseDecoder\<close> in \<open>tea-core/src/provider/local/response.rs\<close>.
  The JSON parser is the library's and stays a parameter.
\<close>

section \<open>Options and JSON fields\<close>

definition keep_if :: "('a \<Rightarrow> bool) \<Rightarrow> 'a option \<Rightarrow> 'a option" where
  "keep_if P x = (case x of Some v \<Rightarrow> if P v then Some v else None | None \<Rightarrow> None)"

definition or_else :: "'a option \<Rightarrow> 'a option \<Rightarrow> 'a option" where
  "or_else x y = (case x of Some v \<Rightarrow> Some v | None \<Rightarrow> y)"

definition str_at :: "json \<Rightarrow> string \<Rightarrow> string option" where
  "str_at v key = Option.bind (json_get v key) as_str"

definition u64_at :: "json \<Rightarrow> string \<Rightarrow> u64 option" where
  "u64_at v key = Option.bind (json_get v key) as_u64"

definition array_at :: "json \<Rightarrow> string \<Rightarrow> json list option" where
  "array_at v key = Option.bind (json_get v key) as_array"

definition object_at :: "json \<Rightarrow> string \<Rightarrow> json btree option" where
  "object_at v key = Option.bind (json_get v key) as_object"

definition first_item :: "json list option \<Rightarrow> json option" where
  "first_item vs = (case vs of Some (v # _) \<Rightarrow> Some v | _ \<Rightarrow> None)"

text \<open>\<open>crate::json::from_bytes\<close>.\<close>

definition from_bytes :: "(string \<Rightarrow> mini option) \<Rightarrow> string \<Rightarrow> string + json" where
  "from_bytes parser s = (case from_utf8 s of
       None \<Rightarrow> Inl ''response was not UTF-8''
     | Some text \<Rightarrow> (case json_parse parser text of
           Inl _ \<Rightarrow> Inl ''response was not valid JSON''
         | Inr v \<Rightarrow> Inr v))"

section \<open>Tool calls in fragments\<close>

record streaming_call =
  stc_id :: "string option"
  stc_name :: "string option"
  stc_arguments :: string

definition fresh_call :: streaming_call where
  "fresh_call = \<lparr>stc_id = None, stc_name = None, stc_arguments = []\<rparr>"

definition merge_fragment :: "json \<Rightarrow> streaming_call \<Rightarrow> streaming_call" where
  "merge_fragment call entry =
     (let entry = (case str_at call ''id'' of Some i \<Rightarrow> entry\<lparr>stc_id := Some i\<rparr> | None \<Rightarrow> entry)
      in case object_at call ''function'' of
           None \<Rightarrow> entry
         | Some f \<Rightarrow>
             (let entry = (case Option.bind (btree_get f ''name'') as_str of
                    Some n \<Rightarrow> entry\<lparr>stc_name := Some n\<rparr> | None \<Rightarrow> entry)
              in case Option.bind (btree_get f ''arguments'') as_str of
                   Some a \<Rightarrow> entry\<lparr>stc_arguments := stc_arguments entry @ a\<rparr> | None \<Rightarrow> entry))"

text \<open>\<open>tool_calls\<close> grows up to the index a fragment names.\<close>

definition widen :: "nat \<Rightarrow> 'a option list \<Rightarrow> 'a option list" where
  "widen index cs = cs @ replicate (Suc index - length cs) None"

fun merge_calls :: "nat \<Rightarrow> json list \<Rightarrow> streaming_call option list \<Rightarrow> streaming_call option list" where
  "merge_calls position [] cs = cs"
| "merge_calls position (call # calls) cs =
     (let index = (case u64_at call ''index'' of Some n \<Rightarrow> unat n | None \<Rightarrow> position);
          cs = widen index cs;
          entry = (case cs ! index of Some e \<Rightarrow> e | None \<Rightarrow> fresh_call)
      in merge_calls (Suc position) calls (cs[index := Some (merge_fragment call entry)]))"

text \<open>\<open>finish\<close> of both decoders: the calls received, in index order, with an ID made up where none was sent.\<close>

fun settle_calls :: "string \<Rightarrow> string \<Rightarrow> string \<Rightarrow> nat \<Rightarrow> streaming_call list \<Rightarrow> string + stream_event list" where
  "settle_calls label unnamed omitted index [] = Inr []"
| "settle_calls label unnamed omitted index (c # cs) =
     (let i = (case keep_if (\<lambda>i. i \<noteq> []) (stc_id c) of Some i \<Rightarrow> i | None \<Rightarrow> label @ decimal_text index)
      in case keep_if (\<lambda>n. n \<noteq> []) (stc_name c) of
           None \<Rightarrow> Inl unnamed
         | Some n \<Rightarrow>
             (case tool_call_id_new i of
                Inl _ \<Rightarrow> Inl omitted
              | Inr i \<Rightarrow> (case settle_calls label unnamed omitted (Suc index) cs of
                    Inl e \<Rightarrow> Inl e
                  | Inr vs \<Rightarrow> Inr (ToolCallEvent \<lparr>tc_id = i, tc_name = n, tc_arguments = stc_arguments c\<rparr> # vs))))"

definition flatten :: "'a option list \<Rightarrow> 'a list" where
  "flatten cs = map the (filter (\<lambda>c. c \<noteq> None) cs)"

definition settled_reason :: "string option \<Rightarrow> bool \<Rightarrow> stop_reason" where
  "settled_reason finish_reason has_tool_calls =
     (if finish_reason = Some ''length'' then Length
      else if has_tool_calls then ToolUse
      else Stop)"

section \<open>The OpenRouter decoder\<close>

datatype cost_source = ChatUsage | Generation | Unavailable

record cost_turn =
  ct_turn :: nat
  ct_source :: cost_source
  ct_total_usd :: "f64 option"
  ct_total_usd_exact :: "string option"
  ct_upstream_usd :: "f64 option"
  ct_upstream_usd_exact :: "string option"
  ct_model :: "string option"
  ct_provider :: "string option"
  ct_input_tokens :: "u64 option"
  ct_output_tokens :: "u64 option"
  ct_cache_read_tokens :: "u64 option"
  ct_cache_write_tokens :: "u64 option"
  ct_reasoning_tokens :: "u64 option"

definition f64_zero :: f64 where
  "f64_zero = Finite False 0 0"

definition finite_nonnegative :: "f64 option \<Rightarrow> f64 option" where
  "finite_nonnegative = keep_if (\<lambda>x. f64_finite x \<and> f64_le f64_zero x)"

definition number_at :: "json \<Rightarrow> string \<Rightarrow> f64 option" where
  "number_at v key = finite_nonnegative (Option.bind (json_get v key) as_f64)"

definition unavailable_cost :: "usage \<Rightarrow> string \<Rightarrow> cost_turn" where
  "unavailable_cost u model = \<lparr>ct_turn = 0, ct_source = Unavailable, ct_total_usd = None, ct_total_usd_exact = None,
     ct_upstream_usd = None, ct_upstream_usd_exact = None, ct_model = Some model, ct_provider = None,
     ct_input_tokens = input_tokens u, ct_output_tokens = output_tokens u, ct_cache_read_tokens = None,
     ct_cache_write_tokens = None, ct_reasoning_tokens = reasoning_tokens u\<rparr>"

definition parse_usage :: "json \<Rightarrow> usage" where
  "parse_usage u = \<lparr>input_tokens = u64_at u ''prompt_tokens'', output_tokens = u64_at u ''completion_tokens'',
     reasoning_tokens = Option.bind (object_at u ''completion_tokens_details'')
       (\<lambda>details. Option.bind (btree_get details ''reasoning_tokens'') as_u64),
     cache_read_tokens = Option.bind (json_get u ''prompt_tokens_details'') (\<lambda>details. u64_at details ''cached_tokens''),
     cache_write_tokens = Option.bind (json_get u ''prompt_tokens_details'') (\<lambda>details. u64_at details ''cache_write_tokens''),
     cost = None\<rparr>"

definition ascii_lower :: "string \<Rightarrow> string" where
  "ascii_lower = map (\<lambda>c. if CHR ''A'' \<le> c \<and> c \<le> CHR ''Z'' then char_of (of_char c + (32 :: nat)) else c)"

text \<open>\<open>openrouter_context_overflow\<close> on the bytes of an error envelope.\<close>

definition overflow_message :: "string \<Rightarrow> bool" where
  "overflow_message message =
     (let contains = (\<lambda>w. sublist w message);
          overflow = (contains ''maximum'' \<or> contains ''exceed'' \<or> contains ''too long'' \<or> contains ''over limit''
            \<or> contains ''limit reached'')
      in (overflow \<and> contains ''context'' \<and> (contains ''length'' \<or> contains ''limit'' \<or> contains ''window''
            \<or> contains ''token'' \<or> contains ''capacity''))
         \<or> contains ''too many tokens'' \<or> contains ''prompt is too long'')"

definition context_overflow :: "(string \<Rightarrow> mini option) \<Rightarrow> string \<Rightarrow> bool" where
  "context_overflow parser s = (case from_bytes parser s of
       Inl _ \<Rightarrow> False
     | Inr v \<Rightarrow> (case Option.bind (json_get v ''error'') (\<lambda>e. str_at e ''message'') of
           None \<Rightarrow> False
         | Some message \<Rightarrow> overflow_message (ascii_lower message)))"

record sse_decoder =
  sd_buffered :: string
  sd_tool_calls :: "streaming_call option list"
  sd_finish_reason :: "string option"
  sd_usage :: json
  sd_usage_bytes :: "string option"
  sd_generation_id :: "string option"
  sd_model :: "string option"
  sd_saw_data :: bool
  sd_saw_done :: bool

definition sse_new :: sse_decoder where
  "sse_new = \<lparr>sd_buffered = [], sd_tool_calls = [], sd_finish_reason = None, sd_usage = JNull, sd_usage_bytes = None,
     sd_generation_id = None, sd_model = None, sd_saw_data = False, sd_saw_done = False\<rparr>"

definition sse_identify :: "json \<Rightarrow> string \<Rightarrow> sse_decoder \<Rightarrow> sse_decoder" where
  "sse_identify chunk data d =
     (let d = (if sd_generation_id d = None then d\<lparr>sd_generation_id := keep_if (\<lambda>i. i \<noteq> []) (str_at chunk ''id'')\<rparr> else d);
          d = (if sd_model d = None then d\<lparr>sd_model := keep_if (\<lambda>m. m \<noteq> []) (str_at chunk ''model'')\<rparr> else d)
      in case json_get chunk ''usage'' of
           Some u \<Rightarrow> d\<lparr>sd_usage := u, sd_usage_bytes := Some data\<rparr>
         | None \<Rightarrow> d)"

definition text_deltas :: "json btree \<Rightarrow> stream_event list" where
  "text_deltas delta = (case keep_if (\<lambda>t. t \<noteq> []) (Option.bind (btree_get delta ''content'') as_str) of
       Some t \<Rightarrow> [TextDelta t] | None \<Rightarrow> [])"

definition delta_calls :: "json btree \<Rightarrow> streaming_call option list \<Rightarrow> streaming_call option list" where
  "delta_calls delta cs = (case Option.bind (btree_get delta ''tool_calls'') as_array of
       Some calls \<Rightarrow> merge_calls 0 calls cs | None \<Rightarrow> cs)"

definition sse_data :: "(string \<Rightarrow> mini option) \<Rightarrow> sse_decoder \<Rightarrow> string \<Rightarrow> (string + stream_event list) \<times> sse_decoder" where
  "sse_data parser d data =
     (case from_bytes parser data of
        Inl _ \<Rightarrow> (Inl ''OpenRouter returned an invalid SSE event'', d)
      | Inr chunk \<Rightarrow>
          if json_get chunk ''error'' \<noteq> None then
            (Inl (if context_overflow parser data then ''OpenRouter context capacity exceeded''
                  else ''OpenRouter rejected the request''), d)
          else
            (let d = sse_identify chunk data d
             in case first_item (array_at chunk ''choices'') of
                  None \<Rightarrow> (Inr [], d)
                | Some choice \<Rightarrow>
                    (let d = (case str_at choice ''finish_reason'' of
                          Some r \<Rightarrow> d\<lparr>sd_finish_reason := Some r\<rparr> | None \<Rightarrow> d)
                     in case object_at choice ''delta'' of
                          None \<Rightarrow> (Inr [], d)
                        | Some delta \<Rightarrow>
                            (Inr (text_deltas delta), d\<lparr>sd_tool_calls := delta_calls delta (sd_tool_calls d)\<rparr>))))"

definition sse_line :: "(string \<Rightarrow> mini option) \<Rightarrow> sse_decoder \<Rightarrow> string \<Rightarrow> (string + stream_event list) \<times> sse_decoder" where
  "sse_line parser d l =
     (case from_utf8 l of
        None \<Rightarrow> (Inl ''OpenRouter returned a non-UTF-8 SSE response'', d)
      | Some l \<Rightarrow>
          (let l = trim l
           in if l = [] \<or> hd l = CHR '':'' then (Inr [], d)
              else if \<not> prefix ''data:'' l then (Inr [], d)
              else let data = trim (drop 5 l)
                in if data = ''[DONE]'' then (Inr [], d\<lparr>sd_saw_done := True\<rparr>)
                   else sse_data parser (d\<lparr>sd_saw_data := True\<rparr>) data))"

definition sse_push :: "(string \<Rightarrow> mini option) \<Rightarrow> sse_decoder \<Rightarrow> string \<Rightarrow> (string + stream_event list) \<times> sse_decoder" where
  "sse_push parser d chunk =
     (case drain_lines (sse_line parser) d (sd_buffered d @ chunk) [] of (r, d', rest) \<Rightarrow> (r, d'\<lparr>sd_buffered := rest\<rparr>))"

record sse_complete =
  sc_events :: "stream_event list"
  sc_usage :: usage
  sc_generation_id :: "string option"
  sc_cost :: "cost_turn option"

definition inline_cost :: "sse_decoder \<Rightarrow> cost_turn option" where
  "inline_cost d = Option.bind (sd_usage_bytes d) (\<lambda>text.
     Option.bind (exact_number_at_path text [''usage'', ''cost'']) (\<lambda>exact.
       let u = parse_usage (sd_usage d)
       in Some \<lparr>ct_turn = 0, ct_source = ChatUsage, ct_total_usd = number_at (sd_usage d) ''cost'',
            ct_total_usd_exact = Some exact, ct_upstream_usd = None, ct_upstream_usd_exact = None,
            ct_model = sd_model d, ct_provider = None, ct_input_tokens = input_tokens u,
            ct_output_tokens = output_tokens u, ct_cache_read_tokens = cache_read_tokens u,
            ct_cache_write_tokens = cache_write_tokens u, ct_reasoning_tokens = reasoning_tokens u\<rparr>))"

text \<open>The line left without a newline at the end of the body; a partial body may end in a broken one.\<close>

definition sse_last_line :: "(string \<Rightarrow> mini option) \<Rightarrow> sse_decoder \<Rightarrow> bool \<Rightarrow> (string + stream_event list) \<times> sse_decoder" where
  "sse_last_line parser d allow_partial =
     (if sd_buffered d = [] then (Inr [], d)
      else case sse_line parser (d\<lparr>sd_buffered := []\<rparr>) (sd_buffered d) of
          (Inr vs, d') \<Rightarrow> (Inr vs, d')
        | (Inl e, d') \<Rightarrow> if allow_partial then (Inr [], d') else (Inl e, d'))"

definition sse_finish :: "(string \<Rightarrow> mini option) \<Rightarrow> sse_decoder \<Rightarrow> bool \<Rightarrow> string + sse_complete" where
  "sse_finish parser d allow_partial =
     (case sse_last_line parser d allow_partial of
        (Inl e, d) \<Rightarrow> Inl e
      | (Inr vs, d) \<Rightarrow>
          if \<not> sd_saw_data d \<or> (\<not> allow_partial \<and> \<not> sd_saw_done d \<and> sd_finish_reason d = None)
          then Inl ''OpenRouter SSE response ended before completion''
          else
            (let d = (if allow_partial \<and> \<not> sd_saw_done d \<and> sd_finish_reason d = None
                  then d\<lparr>sd_finish_reason := Some ''length''\<rparr> else d);
                 calls = flatten (sd_tool_calls d)
             in case settle_calls ''openrouter-call-'' ''OpenRouter tool call did not contain a name''
                 ''OpenRouter tool call omitted its identifier'' 0 calls of
                  Inl e \<Rightarrow> Inl e
                | Inr called \<Rightarrow>
                    (let u = parse_usage (sd_usage d);
                         paid = inline_cost d;
                         reported = (if is_reported u \<or> paid \<noteq> None then [UsageEvent u] else [])
                     in Inr \<lparr>sc_events = vs @ called @ reported @ [StreamEnd (settled_reason (sd_finish_reason d) (called \<noteq> []))],
                          sc_usage = u, sc_generation_id = sd_generation_id d, sc_cost = paid\<rparr>)))"

text \<open>A recorded response goes through the same decoder in one piece.\<close>

definition parse_sse_response :: "(string \<Rightarrow> mini option) \<Rightarrow> string \<Rightarrow> bool \<Rightarrow> string + sse_complete" where
  "parse_sse_response parser body allow_partial =
     (case sse_push parser sse_new body of
        (Inl e, _) \<Rightarrow> Inl e
      | (Inr vs, d) \<Rightarrow>
          (case sse_finish parser d allow_partial of
             Inl e \<Rightarrow> Inl e
           | Inr c \<Rightarrow> Inr (c\<lparr>sc_events := vs @ sc_events c\<rparr>)))"

section \<open>The local decoder\<close>

record local_decoder =
  ld_buffered :: string
  ld_tool_calls :: "streaming_call option list"
  ld_finish_reason :: "string option"
  ld_usage :: json
  ld_saw_data :: bool
  ld_saw_done :: bool

definition local_new :: local_decoder where
  "local_new = \<lparr>ld_buffered = [], ld_tool_calls = [], ld_finish_reason = None, ld_usage = JNull,
     ld_saw_data = False, ld_saw_done = False\<rparr>"

definition error_message :: "json \<Rightarrow> string" where
  "error_message e = (case str_at e ''message'' of Some m \<Rightarrow> m | None \<Rightarrow> ''local server rejected the request'')"

definition parse_stream_usage :: "json \<Rightarrow> usage" where
  "parse_stream_usage u = \<lparr>input_tokens = u64_at u ''prompt_tokens'', output_tokens = u64_at u ''completion_tokens'',
     reasoning_tokens = None,
     cache_read_tokens = Option.bind (object_at u ''prompt_tokens_details'')
       (\<lambda>details. Option.bind (btree_get details ''cached_tokens'') as_u64),
     cache_write_tokens = None, cost = None\<rparr>"

definition local_data :: "(string \<Rightarrow> mini option) \<Rightarrow> local_decoder \<Rightarrow> string \<Rightarrow> (string + stream_event list) \<times> local_decoder" where
  "local_data parser d data =
     (case from_bytes parser data of
        Inl _ \<Rightarrow> (Inl ''local server returned an invalid SSE event'', d)
      | Inr chunk \<Rightarrow>
          (case json_get chunk ''error'' of
             Some e \<Rightarrow> (Inl (''local server rejected the request: '' @ error_message e), d)
           | None \<Rightarrow>
               (let d = (case json_get chunk ''usage'' of
                     Some u \<Rightarrow> if u \<noteq> JNull then d\<lparr>ld_usage := u\<rparr> else d
                   | None \<Rightarrow> d)
                in case first_item (array_at chunk ''choices'') of
                     None \<Rightarrow> (Inr [], d)
                   | Some choice \<Rightarrow>
                       (let d = (case str_at choice ''finish_reason'' of
                             Some r \<Rightarrow> d\<lparr>ld_finish_reason := Some r\<rparr> | None \<Rightarrow> d)
                        in case or_else (object_at choice ''delta'') (object_at choice ''message'') of
                             None \<Rightarrow> (Inr [], d)
                           | Some delta \<Rightarrow>
                               (Inr (text_deltas delta), d\<lparr>ld_tool_calls := delta_calls delta (ld_tool_calls d)\<rparr>)))))"

definition local_line :: "(string \<Rightarrow> mini option) \<Rightarrow> local_decoder \<Rightarrow> string \<Rightarrow> (string + stream_event list) \<times> local_decoder" where
  "local_line parser d l =
     (case from_utf8 l of
        None \<Rightarrow> (Inl ''local server returned a non-UTF-8 SSE response'', d)
      | Some l \<Rightarrow>
          (let l = trim l
           in if l = [] \<or> hd l = CHR '':'' then (Inr [], d)
              else if \<not> prefix ''data:'' l then (Inr [], d)
              else let data = trim (drop 5 l)
                in if data = ''[DONE]'' then (Inr [], d\<lparr>ld_saw_done := True\<rparr>)
                   else local_data parser (d\<lparr>ld_saw_data := True\<rparr>) data))"

definition local_push :: "(string \<Rightarrow> mini option) \<Rightarrow> local_decoder \<Rightarrow> string \<Rightarrow> (string + stream_event list) \<times> local_decoder" where
  "local_push parser d chunk =
     (case drain_lines (local_line parser) d (ld_buffered d @ chunk) [] of (r, d', rest) \<Rightarrow> (r, d'\<lparr>ld_buffered := rest\<rparr>))"

definition local_finish :: "(string \<Rightarrow> mini option) \<Rightarrow> local_decoder \<Rightarrow> string + stream_event list" where
  "local_finish parser d =
     (case (if ld_buffered d = [] then (Inr [], d) else local_line parser (d\<lparr>ld_buffered := []\<rparr>) (ld_buffered d)) of
        (Inl e, d) \<Rightarrow> Inl e
      | (Inr vs, d) \<Rightarrow>
          if \<not> ld_saw_data d \<or> (\<not> ld_saw_done d \<and> ld_finish_reason d = None)
          then Inl ''local SSE response ended before completion''
          else
            (case settle_calls ''local-call-'' ''local tool call did not contain a name'' ''tool-call ID cannot be empty'' 0
                (flatten (ld_tool_calls d)) of
               Inl e \<Rightarrow> Inl e
             | Inr called \<Rightarrow>
                 Inr (vs @ called @ [UsageEvent (parse_stream_usage (ld_usage d)),
                   StreamEnd (settled_reason (ld_finish_reason d) (flatten (ld_tool_calls d) \<noteq> []))])))"

section \<open>Both are decoders of lines\<close>

fun is_delta :: "stream_event \<Rightarrow> bool" where
  "is_delta (TextDelta t) \<longleftrightarrow> t \<noteq> []"
| "is_delta _ \<longleftrightarrow> False"

lemma text_deltas_delta: "list_all is_delta (text_deltas delta)"
  by (simp add: text_deltas_def keep_if_def split: option.split)

lemma sse_identify_refill: "sse_identify chunk data (d\<lparr>sd_buffered := b\<rparr>) = (sse_identify chunk data d)\<lparr>sd_buffered := b\<rparr>"
  by (cases d) (auto simp: sse_identify_def Let_def split: option.split)

lemma sse_data_refill: "sse_data parser (d\<lparr>sd_buffered := b\<rparr>) data = apsnd (\<lambda>d. d\<lparr>sd_buffered := b\<rparr>) (sse_data parser d data)"
proof (cases "from_bytes parser data")
  case (Inr chunk)
  show ?thesis
  proof (cases "first_item (array_at chunk ''choices'')")
    case (Some choice)
    then show ?thesis using Inr
      by (cases "str_at choice ''finish_reason''"; cases "object_at choice ''delta''")
        (simp_all add: sse_data_def sse_identify_refill Let_def)
  qed (simp add: sse_data_def sse_identify_refill Inr Let_def)
qed (simp add: sse_data_def)

lemma sse_line_refill: "sse_line parser (d\<lparr>sd_buffered := b\<rparr>) l = apsnd (\<lambda>d. d\<lparr>sd_buffered := b\<rparr>) (sse_line parser d l)"
proof (cases "from_utf8 l")
  case (Some t)
  have "d\<lparr>sd_buffered := b, sd_saw_data := True\<rparr> = d\<lparr>sd_saw_data := True, sd_buffered := b\<rparr>" by (cases d) simp
  then have "sse_data parser (d\<lparr>sd_buffered := b, sd_saw_data := True\<rparr>) x =
      apsnd (\<lambda>d. d\<lparr>sd_buffered := b\<rparr>) (sse_data parser (d\<lparr>sd_saw_data := True\<rparr>) x)" for x
    by (simp only: sse_data_refill)
  then show ?thesis using Some by (cases d) (simp add: sse_line_def Let_def)
qed (simp add: sse_line_def)

lemma local_data_refill: "local_data parser (d\<lparr>ld_buffered := b\<rparr>) data = apsnd (\<lambda>d. d\<lparr>ld_buffered := b\<rparr>) (local_data parser d data)"
proof (cases "from_bytes parser data")
  case (Inr chunk)
  show ?thesis
  proof (cases "json_get chunk ''error''")
    case None
    show ?thesis
    proof (cases "first_item (array_at chunk ''choices'')")
      case (Some choice)
      then show ?thesis using Inr None
        by (cases "str_at choice ''finish_reason''"; cases "or_else (object_at choice ''delta'') (object_at choice ''message'')";
            cases "json_get chunk ''usage''")
          (simp_all add: local_data_def Let_def)
    qed (cases "json_get chunk ''usage''"; simp add: local_data_def Inr None Let_def)
  qed (simp add: local_data_def Inr)
qed (simp add: local_data_def)

lemma local_line_refill: "local_line parser (d\<lparr>ld_buffered := b\<rparr>) l = apsnd (\<lambda>d. d\<lparr>ld_buffered := b\<rparr>) (local_line parser d l)"
proof (cases "from_utf8 l")
  case (Some t)
  have "d\<lparr>ld_buffered := b, ld_saw_data := True\<rparr> = d\<lparr>ld_saw_data := True, ld_buffered := b\<rparr>" by (cases d) simp
  then have "local_data parser (d\<lparr>ld_buffered := b, ld_saw_data := True\<rparr>) x =
      apsnd (\<lambda>d. d\<lparr>ld_buffered := b\<rparr>) (local_data parser (d\<lparr>ld_saw_data := True\<rparr>) x)" for x
    by (simp only: local_data_refill)
  then show ?thesis using Some by (cases d) (simp add: local_line_def Let_def)
qed (simp add: local_line_def)

lemma sse_line_delta: "sse_line parser d l = (Inr vs, d') \<Longrightarrow> list_all is_delta vs"
  using text_deltas_delta
  by (auto simp: sse_line_def sse_data_def Let_def split: option.splits sum.splits if_splits)

lemma local_line_delta: "local_line parser d l = (Inr vs, d') \<Longrightarrow> list_all is_delta vs"
  using text_deltas_delta
  by (auto simp: local_line_def local_data_def Let_def split: option.splits sum.splits if_splits)

interpretation sse: delta_decoder "sse_line parser" sd_buffered "\<lambda>b d. d\<lparr>sd_buffered := b\<rparr>" is_delta
  for parser
  by unfold_locales (auto simp: sse_line_refill dest: sse_line_delta)

interpretation local_sse: delta_decoder "local_line parser" ld_buffered "\<lambda>b d. d\<lparr>ld_buffered := b\<rparr>" is_delta
  for parser
  by unfold_locales (auto simp: local_line_refill dest: local_line_delta)

lemma sse_push_eq: "sse.push parser = sse_push parser"
  by (intro ext) (simp add: sse.push_def sse_push_def)

lemma local_push_eq: "local_sse.push parser = local_push parser"
  by (intro ext) (simp add: local_sse.push_def local_push_def)

end
