(* ===== verification/Event_Source.thy ===== *)
theory Event_Source
  imports Sse_Decoder
begin

text \<open>
  What the live provider streams share: the worker that reads an HTTP body
  (\<open>stream_worker\<close> in \<open>tea-core/src/provider/http.rs\<close>) and the polling loop over its events
  (\<open>poll_next_event\<close> of \<open>OpenRouterEventStream\<close> and \<open>LocalEventStream\<close>). The environment of the loop is a
  script: what the cancellation flag and the response answered in each of its rounds. The locale holds
  what such a loop promises to the run, however the environment behaves.
\<close>

section \<open>The HTTP worker\<close>

datatype http_event =
  HttpResponse nat
| HttpChunk string
| HttpEnd
| HttpFailure string "nat option"

datatype body_read = Received string | EndOfBody | TimedOut | BrokenBody string

definition http_cancelled :: string where
  "http_cancelled = ''HTTP request cancelled''"

text \<open>The loop of the worker: in each round the cancellation flag and what reading the body gave.\<close>

fun worker_body :: "nat \<Rightarrow> (bool \<times> body_read) list \<Rightarrow> http_event list" where
  "worker_body status [] = []"
| "worker_body status ((cancelled, r) # rounds) =
     (if cancelled then [HttpFailure http_cancelled (Some status)]
      else (case r of
          Received chunk \<Rightarrow> HttpChunk chunk # worker_body status rounds
        | EndOfBody \<Rightarrow> [HttpEnd]
        | TimedOut \<Rightarrow> [HttpFailure ''HTTP response body receive timed out'' (Some status)]
        | BrokenBody e \<Rightarrow> [HttpFailure (''HTTP response body read failed: '' @ e) (Some status)]))"

text \<open>The whole worker; opening the request gives a status or a failure without one.\<close>

definition stream_worker :: "bool \<Rightarrow> string + nat \<Rightarrow> (bool \<times> body_read) list \<Rightarrow> http_event list" where
  "stream_worker cancelled opened rounds =
     (if cancelled then [HttpFailure http_cancelled None]
      else (case opened of
          Inl e \<Rightarrow> [HttpFailure e None]
        | Inr status \<Rightarrow> HttpResponse status # worker_body status rounds))"

section \<open>The polling loop\<close>

record 'd live_source =
  src_live :: bool
  src_decoder :: "'d option"
  src_pending :: "stream_event list"
  src_status :: "nat option"
  src_error_body :: string

record round =
  rd_cancelled :: bool
  rd_arrival :: "http_event option"
  rd_cancelled_late :: bool

datatype polled = Pending | Ready "stream_event option"

definition bad_status :: "('d, 'z) live_source_scheme \<Rightarrow> bool" where
  "bad_status s \<longleftrightarrow> (case src_status s of Some n \<Rightarrow> \<not> (200 \<le> n \<and> n < 300) | None \<Rightarrow> False)"

text \<open>\<open>self.response = None; self.decoder = None\<close>.\<close>

definition release :: "('d, 'z) live_source_scheme \<Rightarrow> ('d, 'z) live_source_scheme" where
  "release s = s\<lparr>src_live := False, src_decoder := None\<rparr>"

definition emit_event :: "stream_event \<Rightarrow> ('d, 'z) live_source_scheme \<Rightarrow> ('d, 'z) live_source_scheme" where
  "emit_event v s = s\<lparr>src_pending := src_pending s @ [v]\<rparr>"

text \<open>
  \<open>on_event\<close> is the arm of the loop for an arrival, given the flag as read in the failure arm. The script
  ends where the observation ends; the loop is then taken to wait.
\<close>

fun poll_rounds ::
    "(('d, 'z) live_source_scheme \<Rightarrow> bool \<Rightarrow> http_event \<Rightarrow> ('d, 'z) live_source_scheme) \<Rightarrow>
     ('d, 'z) live_source_scheme \<Rightarrow> round list \<Rightarrow> polled \<times> ('d, 'z) live_source_scheme \<times> round list" where
  "poll_rounds on_event s rs =
     (case src_pending s of
        v # vs \<Rightarrow> (Ready (Some v), s\<lparr>src_pending := vs\<rparr>, rs)
      | [] \<Rightarrow>
          (case rs of
             [] \<Rightarrow> (Pending, s, [])
           | r # rs \<Rightarrow>
               if rd_cancelled r then (Ready (Some (StreamEnd CancelledReason)), release s, rs)
               else if \<not> src_live s then (Ready None, s, rs)
               else (case rd_arrival r of
                   None \<Rightarrow> (Pending, s, rs)
                 | Some e \<Rightarrow> poll_rounds on_event (on_event s (rd_cancelled_late r) e) rs)))"

declare poll_rounds.simps [simp del]

text \<open>Everything a consumer gets that polls for as long as the script lasts.\<close>

lemma poll_rounds_less:
  "poll_rounds on_event s rs = (p, s', rs') \<Longrightarrow> rs \<noteq> [] \<or> src_pending s \<noteq> [] \<Longrightarrow>
     length rs' < length rs \<or> (rs' = rs \<and> length (src_pending s') < length (src_pending s))"
proof (induction rs arbitrary: s)
  case Nil
  then show ?case by (subst (asm) poll_rounds.simps) (auto split: list.splits)
next
  case (Cons r rs)
  show ?case
  proof (cases "src_pending s")
    case Nil
    show ?thesis
    proof (cases "rd_cancelled r \<or> \<not> src_live s \<or> rd_arrival r = None")
      case True
      then show ?thesis using Cons.prems(1) Nil by (subst (asm) poll_rounds.simps) (auto split: if_splits)
    next
      case False
      then obtain e where e: "rd_arrival r = Some e" by blast
      let ?s = "on_event s (rd_cancelled_late r) e"
      have rest: "poll_rounds on_event ?s rs = (p, s', rs')"
        using Cons.prems(1) Nil False e by (subst (asm) poll_rounds.simps) simp
      show ?thesis
      proof (cases "rs = [] \<and> src_pending ?s = []")
        case True
        then show ?thesis using rest by (subst (asm) poll_rounds.simps) simp
      next
        case False
        then have "length rs' \<le> length rs" using Cons.IH [OF rest] by auto
        then show ?thesis by simp
      qed
    qed
  next
    case (Cons v vs)
    then show ?thesis using Cons.prems(1) by (subst (asm) poll_rounds.simps) auto
  qed
qed

function collected ::
    "(('d, 'z) live_source_scheme \<Rightarrow> bool \<Rightarrow> http_event \<Rightarrow> ('d, 'z) live_source_scheme) \<Rightarrow>
     ('d, 'z) live_source_scheme \<Rightarrow> round list \<Rightarrow> stream_event list" where
  "collected on_event s rs =
     (if rs = [] \<and> src_pending s = [] then []
      else (case poll_rounds on_event s rs of
          (Ready (Some v), s', rs') \<Rightarrow> v # collected on_event s' rs'
        | (_, s', rs') \<Rightarrow> collected on_event s' rs'))"
  by pat_completeness auto
termination
  by (relation "inv_image (less_than <*lex*> less_than) (\<lambda>(f, s, rs). (length rs, length (src_pending s)))")
    (auto dest!: poll_rounds_less [OF sym])

declare collected.simps [simp del]

text \<open>The same, one round at a time.\<close>

lemma collected_pending: "collected on_event s rs = src_pending s @ collected on_event (s\<lparr>src_pending := []\<rparr>) rs"
proof (induction "src_pending s" arbitrary: s)
  case Nil
  then have "s\<lparr>src_pending := []\<rparr> = s" by (cases s) simp
  then show ?case using Nil [symmetric] by (simp only: append_Nil)
next
  case (Cons v vs)
  have "collected on_event s rs = v # collected on_event (s\<lparr>src_pending := vs\<rparr>) rs"
    using Cons.hyps(2) [symmetric] by (subst collected.simps, subst poll_rounds.simps) simp
  then show ?case using Cons.hyps(1) [of "s\<lparr>src_pending := vs\<rparr>"] Cons.hyps(2) [symmetric] by simp
qed

lemma collected_Nil [simp]: "collected on_event s [] = src_pending s"
  using collected_pending [of on_event s "[]"] by (simp add: collected.simps [of on_event "s\<lparr>src_pending := []\<rparr>"])

lemma collected_Cons:
  assumes "src_pending s = []"
  shows "collected on_event s (r # rs) =
    (if rd_cancelled r then StreamEnd CancelledReason # collected on_event (release s) rs
     else if \<not> src_live s then collected on_event s rs
     else (case rd_arrival r of
         None \<Rightarrow> collected on_event s rs
       | Some e \<Rightarrow> collected on_event (on_event s (rd_cancelled_late r) e) rs))"
proof (cases "rd_cancelled r \<or> \<not> src_live s \<or> rd_arrival r = None")
  case True
  then show ?thesis using assms by (subst collected.simps, subst poll_rounds.simps) auto
next
  case False
  then obtain e where e: "rd_arrival r = Some e" by blast
  let ?s = "on_event s (rd_cancelled_late r) e"
  have step: "poll_rounds on_event s (r # rs) = poll_rounds on_event ?s rs"
    using False e assms by (subst poll_rounds.simps) simp
  have "collected on_event s (r # rs) = collected on_event ?s rs"
  proof (cases "rs = [] \<and> src_pending ?s = []")
    case True
    then have "poll_rounds on_event s [r] = (Pending, ?s, [])" using step by (subst (asm) (2) poll_rounds.simps) simp
    then show ?thesis using True by (subst collected.simps) simp
  next
    case False
    have "collected on_event ?s rs = (case poll_rounds on_event ?s rs of
        (Ready (Some v), s', rs') \<Rightarrow> v # collected on_event s' rs' | (_, s', rs') \<Rightarrow> collected on_event s' rs')"
      using False by (subst collected.simps) (simp only: if_False)
    then show ?thesis by (subst collected.simps) (simp add: step)
  qed
  then show ?thesis using False e by simp
qed

text \<open>The next arrival, after the rounds in which nothing came.\<close>

lemma collected_arrival:
  assumes "\<forall>r \<in> set rs. \<not> rd_cancelled r" "List.map_filter rd_arrival rs = e # es" "src_live s" "src_pending s = []"
  shows "\<exists>late rs'. collected on_event s rs = collected on_event (on_event s late e) rs' \<and>
     (\<forall>r \<in> set rs'. \<not> rd_cancelled r) \<and> List.map_filter rd_arrival rs' = es"
  using assms(1,2)
proof (induction rs)
  case (Cons r rs)
  show ?case
  proof (cases "rd_arrival r")
    case None
    then have "collected on_event s (r # rs) = collected on_event s rs" using Cons.prems assms by (simp add: collected_Cons)
    then show ?thesis using Cons None by (simp add: map_filter_simps)
  next
    case (Some e')
    then show ?thesis using Cons.prems assms
      by (intro exI [of _ "rd_cancelled_late r"] exI [of _ rs]) (simp add: collected_Cons map_filter_simps)
  qed
qed (simp add: map_filter_simps)

section \<open>What a stream promises to the run\<close>

fun is_settled :: "stream_event \<Rightarrow> bool" where
  "is_settled (StreamEnd r) = True"
| "is_settled (StreamError m) = True"
| "is_settled (ContextOverflow m) = True"
| "is_settled (StreamAborted m) = True"
| "is_settled _ = False"

abbreviation unsettled :: "stream_event list \<Rightarrow> bool" where
  "unsettled \<equiv> list_all (\<lambda>v. \<not> is_settled v)"

definition settles :: "stream_event list \<Rightarrow> bool" where
  "settles vs \<longleftrightarrow> (\<exists>us v. vs = us @ [v] \<and> unsettled us \<and> is_settled v)"

definition closing :: "http_event \<Rightarrow> bool" where
  "closing e \<longleftrightarrow> (case e of HttpEnd \<Rightarrow> True | HttpFailure _ _ \<Rightarrow> True | _ \<Rightarrow> False)"

text \<open>
  The contract: an arrival either keeps the stream live and adds no settling event, or closes it and
  leaves events of which exactly the last one settles; the end of the body and a failure close it.
\<close>

locale event_source =
  fixes on_event :: "('d, 'z) live_source_scheme \<Rightarrow> bool \<Rightarrow> http_event \<Rightarrow> ('d, 'z) live_source_scheme"
  assumes stays_live: "src_pending s = [] \<Longrightarrow> src_live s \<Longrightarrow> src_live (on_event s late e) \<Longrightarrow> unsettled (src_pending (on_event s late e))"
    and closes: "src_pending s = [] \<Longrightarrow> src_live s \<Longrightarrow> \<not> src_live (on_event s late e) \<Longrightarrow> settles (src_pending (on_event s late e))"
    and closing_closes: "src_live s \<Longrightarrow> closing e \<Longrightarrow> \<not> src_live (on_event s late e)"
begin

text \<open>After the settling event only a set flag gives events: one more cancelled end for each poll.\<close>

lemma after_end:
  "\<not> src_live s \<Longrightarrow> src_pending s = [] \<Longrightarrow>
     collected on_event s rs = replicate (length (filter rd_cancelled rs)) (StreamEnd CancelledReason)"
  by (induction rs arbitrary: s) (auto simp: collected_Cons release_def)

lemma before_end:
  assumes "src_live s" "src_pending s = []"
  shows "\<exists>us tail. collected on_event s rs = us @ tail \<and> unsettled us \<and>
     (tail = [] \<or> (\<exists>v n. tail = v # replicate n (StreamEnd CancelledReason) \<and> is_settled v \<and>
        n \<le> length (filter rd_cancelled rs))) \<and>
     ((\<exists>r \<in> set rs. rd_cancelled r \<or> (\<exists>e. rd_arrival r = Some e \<and> closing e)) \<longrightarrow> tail \<noteq> [])"
  using assms
proof (induction rs arbitrary: s)
  case Nil
  then show ?case by simp
next
  case (Cons r rs)
  consider (cancelled) "rd_cancelled r" | (wait) "\<not> rd_cancelled r" "rd_arrival r = None"
    | (arrived) e where "\<not> rd_cancelled r" "rd_arrival r = Some e" by (cases "rd_arrival r") auto
  then show ?case
  proof cases
    case cancelled
    have "collected on_event s (r # rs) = StreamEnd CancelledReason #
        replicate (length (filter rd_cancelled rs)) (StreamEnd CancelledReason)"
      using cancelled Cons.prems after_end [of "release s" rs] by (simp add: collected_Cons release_def)
    then show ?thesis using cancelled
      by (intro exI [of _ "[]"] exI [of _ "StreamEnd CancelledReason #
        replicate (length (filter rd_cancelled rs)) (StreamEnd CancelledReason)"]) auto
  next
    case wait
    then show ?thesis using Cons by (simp add: collected_Cons)
  next
    case arrived
    define s' where "s' = on_event s (rd_cancelled_late r) e"
    have here: "collected on_event s (r # rs) = src_pending s' @ collected on_event (s'\<lparr>src_pending := []\<rparr>) rs"
      using arrived Cons.prems by (simp add: collected_Cons s'_def) (metis collected_pending)
    show ?thesis
    proof (cases "src_live s'")
      case True
      then have "unsettled (src_pending s')" "\<not> closing e"
        using stays_live closing_closes Cons.prems by (auto simp: s'_def)
      moreover obtain us tail where "collected on_event (s'\<lparr>src_pending := []\<rparr>) rs = us @ tail" "unsettled us"
        "tail = [] \<or> (\<exists>v n. tail = v # replicate n (StreamEnd CancelledReason) \<and> is_settled v \<and>
          n \<le> length (filter rd_cancelled rs))"
        "(\<exists>r \<in> set rs. rd_cancelled r \<or> (\<exists>e. rd_arrival r = Some e \<and> closing e)) \<longrightarrow> tail \<noteq> []"
        using Cons.IH [of "s'\<lparr>src_pending := []\<rparr>"] True by auto
      ultimately show ?thesis using here arrived
        by (intro exI [of _ "src_pending s' @ us"] exI [of _ tail]) auto
    next
      case False
      then obtain us v where "src_pending s' = us @ [v]" "unsettled us" "is_settled v"
        using closes [of s "rd_cancelled_late r" e] Cons.prems by (auto simp: s'_def settles_def)
      moreover have "collected on_event (s'\<lparr>src_pending := []\<rparr>) rs =
          replicate (length (filter rd_cancelled rs)) (StreamEnd CancelledReason)"
        using after_end [of "s'\<lparr>src_pending := []\<rparr>" rs] False by simp
      ultimately show ?thesis using here arrived
        by (intro exI [of _ us] exI [of _ "v # replicate (length (filter rd_cancelled rs)) (StreamEnd CancelledReason)"]) auto
    qed
  qed
qed

end

end
