(* ===== verification/Recorded_Responses.thy ===== *)
theory Recorded_Responses
  imports Event_Source
begin

text \<open>
  The finite responses: reading a whole body (\<open>send\<close> in \<open>tea-core/src/provider/http.rs\<close>), the transport boundary and its
  classification of failures (\<open>openrouter/transport.rs\<close>), the parsers of unstreamed completions
  (\<open>parse_response_inner\<close>, \<open>parse_generation_cost\<close> in \<open>openrouter/response.rs\<close> and \<open>parse_local_response\<close> in
  \<open>local/response.rs\<close>, which also reads the body of a refused request), and the cost report.
\<close>

section \<open>Reading a whole body\<close>

datatype http_timeout = RecvResponse | RecvBody

record http_failure =
  hf_message :: string
  hf_status :: "nat option"
  hf_body :: string
  hf_timeout :: "http_timeout option"

text \<open>
  The loop of \<open>send\<close>: in each round the flag and what reading gave; \<open>late\<close> is the flag after the end of the body. The
  script may end before the body does.
\<close>

fun finite_body :: "nat \<Rightarrow> bool \<Rightarrow> string \<Rightarrow> (bool \<times> body_read) list \<Rightarrow> (http_failure + nat \<times> string) option" where
  "finite_body status late body [] = None"
| "finite_body status late body ((cancelled, r) # rounds) =
     (if cancelled then Some (Inl \<lparr>hf_message = http_cancelled, hf_status = Some status, hf_body = body, hf_timeout = None\<rparr>)
      else (case r of
          Received chunk \<Rightarrow> finite_body status late (body @ chunk) rounds
        | EndOfBody \<Rightarrow>
            if late then Some (Inl \<lparr>hf_message = http_cancelled, hf_status = Some status, hf_body = body, hf_timeout = None\<rparr>)
            else Some (Inr (status, body))
        | TimedOut \<Rightarrow> Some (Inl \<lparr>hf_message = ''HTTP response body receive timed out'', hf_status = Some status,
            hf_body = body, hf_timeout = Some RecvBody\<rparr>)
        | BrokenBody e \<Rightarrow> Some (Inl \<lparr>hf_message = ''HTTP response body read failed: '' @ e, hf_status = Some status,
            hf_body = body, hf_timeout = None\<rparr>)))"

definition send_request :: "bool \<Rightarrow> http_failure + nat \<Rightarrow> bool \<Rightarrow> (bool \<times> body_read) list \<Rightarrow> (http_failure + nat \<times> string) option" where
  "send_request cancelled opened late rounds =
     (if cancelled then Some (Inl \<lparr>hf_message = http_cancelled, hf_status = None, hf_body = [], hf_timeout = None\<rparr>)
      else (case opened of Inl f \<Rightarrow> Some (Inl f) | Inr status \<Rightarrow> finite_body status late [] rounds))"

text \<open>The worker of the live streams delivers the same body in chunks.\<close>

lemma worker_delivers:
  "finite_body status late body rounds = Some (Inr (n, whole)) \<Longrightarrow>
     \<exists>cs. worker_body status rounds = map HttpChunk cs @ [HttpEnd] \<and> whole = body @ concat cs \<and> n = status"
proof (induction status late body rounds rule: finite_body.induct)
  case (2 status late body cancelled r rounds)
  show ?case
  proof (cases r)
    case (Received chunk)
    then have "\<not> cancelled" "finite_body status late (body @ chunk) rounds = Some (Inr (n, whole))"
      using "2.prems" by (simp_all split: if_splits)
    with "2.IH" Received obtain cs where
      "worker_body status rounds = map HttpChunk cs @ [HttpEnd]" "whole = (body @ chunk) @ concat cs" "n = status" by blast
    then show ?thesis using Received \<open>\<not> cancelled\<close> by (intro exI [of _ "chunk # cs"]) simp
  qed (use "2.prems" in \<open>auto split: if_splits\<close>)
qed simp

section \<open>The transport boundary\<close>

definition is_stall :: "http_failure \<Rightarrow> bool" where
  "is_stall f \<longleftrightarrow> hf_timeout f \<noteq> None"

record transport_response =
  tr_body :: string
  tr_status :: "nat option"
  tr_partial :: bool

definition trim_ascii :: "string \<Rightarrow> string" where
  "trim_ascii l = rev (dropWhile ascii_whitespace (rev (dropWhile ascii_whitespace l)))"

definition response_bytes_meaningful :: "string \<Rightarrow> bool" where
  "response_bytes_meaningful body = list_ex (\<lambda>l. let l = trim_ascii l in l \<noteq> [] \<and> hd l \<noteq> CHR '':'') (split_lines body)"

definition run_http :: "bool \<Rightarrow> http_failure + nat \<times> string \<Rightarrow> string + transport_response" where
  "run_http cancelled outcome =
     (case outcome of
        Inr (status, body) \<Rightarrow> Inr \<lparr>tr_body = body, tr_status = Some status, tr_partial = False\<rparr>
      | Inl f \<Rightarrow>
          if hf_message f = http_cancelled \<or> cancelled then Inl ''OpenRouter HTTP transport cancelled''
          else if is_stall f then
            (if response_bytes_meaningful (hf_body f)
             then Inr \<lparr>tr_body = hf_body f, tr_status = hf_status f, tr_partial = True\<rparr>
             else Inl (''OpenRouter HTTP transport stalled after '' @ decimal_text (length (hf_body f)) @
               '' response bytes without meaningful progress''))
          else if response_bytes_meaningful (hf_body f) then
            (if hf_status f = None then Inr \<lparr>tr_body = hf_body f, tr_status = None, tr_partial = True\<rparr>
             else Inl (''OpenRouter HTTP transport failed after '' @ decimal_text (length (hf_body f)) @
               '' response bytes: '' @ hf_message f))
          else Inl (''OpenRouter HTTP transport failed before a provider response: '' @ hf_message f))"

text \<open>\<open>parse::<u16>\<close> and \<open>parse::<u64>\<close>, and \<open>split_once\<close> at a text.\<close>

definition parse_unsigned :: "nat \<Rightarrow> string \<Rightarrow> nat option" where
  "parse_unsigned bits s =
     (let ds = (case s of c # cs \<Rightarrow> if c = CHR ''+'' then cs else s | [] \<Rightarrow> s)
      in if ds \<noteq> [] \<and> list_all is_digit ds \<and> digits_nat ds < 2 ^ bits then Some (digits_nat ds) else None)"

fun before_text :: "string \<Rightarrow> string \<Rightarrow> string option" where
  "before_text pat s =
     (if prefix pat s then Some []
      else (case s of [] \<Rightarrow> None | c # t \<Rightarrow> map_option ((#) c) (before_text pat t)))"

declare before_text.simps [simp del]

definition retryable_transport_error :: "string \<Rightarrow> bool" where
  "retryable_transport_error msg =
     (if sublist ''before a provider response'' msg then True
      else let stalled = ''OpenRouter HTTP transport stalled after ''
        in prefix stalled msg \<and>
           Option.bind (before_text '' response bytes'' (drop (length stalled) msg)) (parse_unsigned 64) = Some 0)"

definition openrouter_status_retryable :: "nat option \<Rightarrow> bool" where
  "openrouter_status_retryable status = (case status of Some n \<Rightarrow> n = 429 \<or> (500 \<le> n \<and> n \<le> 599) | None \<Rightarrow> False)"

definition openrouter_response_retryable :: "(string \<Rightarrow> mini option) \<Rightarrow> string \<Rightarrow> bool" where
  "openrouter_response_retryable parser body =
     (case from_bytes parser body of
        Inl _ \<Rightarrow> False
      | Inr v \<Rightarrow> (case object_at v ''error'' of
            None \<Rightarrow> False
          | Some e \<Rightarrow> openrouter_status_retryable (map_option unat
              (or_else (Option.bind (btree_get e ''code'') as_u64) (Option.bind (btree_get e ''status'') as_u64)))))"

section \<open>Unstreamed OpenRouter completions\<close>

fun recorded_calls :: "nat \<Rightarrow> json list \<Rightarrow> string + stream_event list" where
  "recorded_calls index [] = Inr []"
| "recorded_calls index (call # calls) =
     (let i = (case keep_if (\<lambda>i. i \<noteq> []) (str_at call ''id'') of
          Some i \<Rightarrow> i | None \<Rightarrow> ''openrouter-call-'' @ decimal_text index)
      in case object_at call ''function'' of
           None \<Rightarrow> Inl ''OpenRouter tool call did not contain a function''
         | Some f \<Rightarrow>
             (case keep_if (\<lambda>n. n \<noteq> []) (Option.bind (btree_get f ''name'') as_str) of
                None \<Rightarrow> Inl ''OpenRouter tool call did not contain a name''
              | Some name \<Rightarrow>
                  (case Option.bind (btree_get f ''arguments'') as_str of
                     None \<Rightarrow> Inl ''OpenRouter tool call did not contain serialized arguments''
                   | Some arguments \<Rightarrow>
                       (case tool_call_id_new i of
                          Inl _ \<Rightarrow> Inl ''OpenRouter tool call omitted its identifier''
                        | Inr i \<Rightarrow> and_then (recorded_calls (Suc index) calls) (\<lambda>vs.
                            Inr (ToolCallEvent \<lparr>tc_id = i, tc_name = name, tc_arguments = arguments\<rparr> # vs))))))"

definition recorded_cost :: "string \<Rightarrow> json \<Rightarrow> cost_turn option" where
  "recorded_cost body response =
     (let used = (case json_get response ''usage'' of Some u \<Rightarrow> u | None \<Rightarrow> JNull); u = parse_usage used
      in map_option (\<lambda>exact. \<lparr>ct_turn = 0, ct_source = ChatUsage, ct_total_usd = number_at used ''cost'',
          ct_total_usd_exact = Some exact, ct_upstream_usd = None, ct_upstream_usd_exact = None,
          ct_model = str_at response ''model'', ct_provider = None, ct_input_tokens = input_tokens u,
          ct_output_tokens = output_tokens u, ct_cache_read_tokens = cache_read_tokens u,
          ct_cache_write_tokens = cache_write_tokens u, ct_reasoning_tokens = reasoning_tokens u\<rparr>)
        (exact_number_at_path body [''usage'', ''cost'']))"

definition parse_completion :: "(string \<Rightarrow> mini option) \<Rightarrow> string \<Rightarrow> string + sse_complete" where
  "parse_completion parser body =
     (case from_bytes parser body of
        Inl _ \<Rightarrow> Inl ''OpenRouter returned a non-JSON response''
      | Inr response \<Rightarrow>
          if json_get response ''error'' \<noteq> None then Inl ''OpenRouter rejected the request''
          else (case first_item (array_at response ''choices'') of
              None \<Rightarrow> Inl ''OpenRouter response did not contain a completion choice''
            | Some choice \<Rightarrow>
                (case object_at choice ''message'' of
                   None \<Rightarrow> Inl ''OpenRouter completion choice did not contain a message''
                 | Some msg \<Rightarrow>
                     and_then (recorded_calls 0 (case Option.bind (btree_get msg ''tool_calls'') as_array of Some cs \<Rightarrow> cs | None \<Rightarrow> []))
                       (\<lambda>called. Inr
                         \<lparr>sc_events = text_deltas msg @ called @ [StreamEnd (settled_reason (str_at choice ''finish_reason'') (called \<noteq> []))],
                          sc_usage = parse_usage (case json_get response ''usage'' of Some u \<Rightarrow> u | None \<Rightarrow> JNull),
                          sc_generation_id = keep_if (\<lambda>i. i \<noteq> []) (str_at response ''id''),
                          sc_cost = recorded_cost body response\<rparr>))))"

definition parse_response :: "(string \<Rightarrow> mini option) \<Rightarrow> string \<Rightarrow> bool \<Rightarrow> string + sse_complete" where
  "parse_response parser body allow_partial =
     (let trimmed = dropWhile ascii_whitespace body
      in if prefix ''data:'' trimmed \<or> prefix '':'' trimmed then parse_sse_response parser body allow_partial
         else parse_completion parser body)"

definition parse_generation_cost :: "(string \<Rightarrow> mini option) \<Rightarrow> string \<Rightarrow> usage \<Rightarrow> cost_turn option" where
  "parse_generation_cost parser body fallback =
     (case from_bytes parser body of
        Inl _ \<Rightarrow> None
      | Inr response \<Rightarrow>
          Option.bind (json_get response ''data'') (\<lambda>data.
          Option.bind (exact_number_at_path body [''data'', ''total_cost'']) (\<lambda>exact.
            Some \<lparr>ct_turn = 0, ct_source = Generation, ct_total_usd = number_at data ''total_cost'',
              ct_total_usd_exact = Some exact, ct_upstream_usd = number_at data ''upstream_inference_cost'',
              ct_upstream_usd_exact = exact_number_at_path body [''data'', ''upstream_inference_cost''],
              ct_model = str_at data ''model'', ct_provider = str_at data ''provider_name'',
              ct_input_tokens = or_else (u64_at data ''tokens_prompt'') (input_tokens fallback),
              ct_output_tokens = or_else (u64_at data ''tokens_completion'') (output_tokens fallback),
              ct_cache_read_tokens = u64_at data ''tokens_cached'', ct_cache_write_tokens = u64_at data ''tokens_cache_write'',
              ct_reasoning_tokens = or_else (u64_at data ''tokens_reasoning'') (reasoning_tokens fallback)\<rparr>)))"

section \<open>Unstreamed local completions\<close>

text \<open>Field names are debug_name as \<open>Debug\<close> quotes these literals.\<close>

definition debug_name :: "string \<Rightarrow> string" where
  "debug_name name = CHR 0x22 # name @ [CHR 0x22]"

definition local_object :: "json \<Rightarrow> string \<Rightarrow> string + json btree" where
  "local_object v description = (case v of JObject es \<Rightarrow> Inr es | _ \<Rightarrow> Inl (description @ '' was not a JSON object''))"

definition object_field :: "json \<Rightarrow> string \<Rightarrow> string + json btree" where
  "object_field v name =
     and_then (local_object v ''local JSON value'') (\<lambda>es. case btree_get es name of
         None \<Rightarrow> Inl (''local response omitted '' @ debug_name name)
       | Some w \<Rightarrow> local_object w name)"

definition array_field :: "json \<Rightarrow> string \<Rightarrow> string + json list" where
  "array_field v name =
     and_then (local_object v ''local JSON value'') (\<lambda>es. case btree_get es name of
         Some (JArray vs) \<Rightarrow> Inr vs
       | Some _ \<Rightarrow> Inl (''local response field '' @ debug_name name @ '' was not an array'')
       | None \<Rightarrow> Inl (''local response omitted '' @ debug_name name))"

definition optional_array :: "json option \<Rightarrow> string + json list option" where
  "optional_array v = (case v of
       None \<Rightarrow> Inr None | Some JNull \<Rightarrow> Inr None | Some (JArray vs) \<Rightarrow> Inr (Some vs)
     | Some _ \<Rightarrow> Inl ''local tool_calls was not an array'')"

definition local_string :: "json option \<Rightarrow> string + string option" where
  "local_string v = (case v of
       None \<Rightarrow> Inr None | Some JNull \<Rightarrow> Inr None | Some (JString s) \<Rightarrow> Inr (Some s)
     | Some _ \<Rightarrow> Inl ''local response field was not a string'')"

definition required_string :: "json option \<Rightarrow> string \<Rightarrow> string + string" where
  "required_string v description =
     and_then (local_string v) (\<lambda>s. case keep_if (\<lambda>t. t \<noteq> []) s of
         Some t \<Rightarrow> Inr t | None \<Rightarrow> Inl (description @ '' was missing or empty''))"

definition number_field :: "json \<Rightarrow> string \<Rightarrow> string + u64 option" where
  "number_field v name =
     and_then (local_object v ''local usage'') (\<lambda>es. case btree_get es name of
         None \<Rightarrow> Inr None
       | Some JNull \<Rightarrow> Inr None
       | Some (JNumber (Unsigned n)) \<Rightarrow> Inr (Some n)
       | Some (JNumber (Signed n)) \<Rightarrow>
           if 0 \<le> sint n then Inr (Some n)
           else Inl (''local usage field '' @ debug_name name @ '' was not a non-negative integer'')
       | Some _ \<Rightarrow> Inl (''local usage field '' @ debug_name name @ '' was not a non-negative integer''))"

definition local_usage :: "json option \<Rightarrow> string + usage" where
  "local_usage v = (case v of
       None \<Rightarrow> Inr usage_default
     | Some u \<Rightarrow>
         and_then (case json_get u ''prompt_tokens_details'' of
             None \<Rightarrow> Inr None | Some JNull \<Rightarrow> Inr None | Some dets \<Rightarrow> number_field dets ''cached_tokens'') (\<lambda>cached.
         and_then (number_field u ''prompt_tokens'') (\<lambda>input.
         and_then (number_field u ''completion_tokens'') (\<lambda>generated.
           Inr (usage_default\<lparr>input_tokens := input, output_tokens := generated, cache_read_tokens := cached\<rparr>)))))"

fun local_calls :: "nat \<Rightarrow> json list \<Rightarrow> string + stream_event list" where
  "local_calls index [] = Inr []"
| "local_calls index (call # calls) =
     and_then (local_object call ''local tool call'') (\<lambda>es.
     and_then (local_string (btree_get es ''id'')) (\<lambda>sent.
     let i = (case keep_if (\<lambda>i. i \<noteq> []) sent of Some i \<Rightarrow> i | None \<Rightarrow> ''local-call-'' @ decimal_text index)
     in and_then (object_field call ''function'') (\<lambda>f.
     and_then (required_string (btree_get f ''name'') ''local tool call name'') (\<lambda>name.
     and_then (required_string (btree_get f ''arguments'') ''local serialized tool arguments'') (\<lambda>arguments.
     (case tool_call_id_new i of
        Inl _ \<Rightarrow> Inl ''tool-call ID cannot be empty''
      | Inr i \<Rightarrow> and_then (local_calls (Suc index) calls) (\<lambda>vs.
          Inr (ToolCallEvent \<lparr>tc_id = i, tc_name = name, tc_arguments = arguments\<rparr> # vs))))))))"

definition local_completion :: "json \<Rightarrow> string + stream_event list \<times> usage" where
  "local_completion response =
     and_then (array_field response ''choices'') (\<lambda>choices. case choices of
       [] \<Rightarrow> Inl ''local response did not contain a completion choice''
     | choice # _ \<Rightarrow>
         and_then (object_field choice ''message'') (\<lambda>msg.
         and_then (local_string (btree_get msg ''content'')) (\<lambda>t.
         and_then (optional_array (btree_get msg ''tool_calls'')) (\<lambda>calls.
         and_then (local_calls 0 (case calls of Some cs \<Rightarrow> cs | None \<Rightarrow> [])) (\<lambda>called.
         and_then (local_object choice ''local choice'') (\<lambda>es.
         and_then (local_string (btree_get es ''finish_reason'')) (\<lambda>reason.
         and_then (local_usage (json_get response ''usage'')) (\<lambda>u.
           Inr ((case keep_if (\<lambda>t. t \<noteq> []) t of Some t \<Rightarrow> [TextDelta t] | None \<Rightarrow> []) @ called @
             [StreamEnd (settled_reason reason (called \<noteq> []))], u)))))))))"

definition parse_local_response :: "(string \<Rightarrow> mini option) \<Rightarrow> string \<Rightarrow> nat \<Rightarrow> string + stream_event list \<times> usage" where
  "parse_local_response parser body status =
     and_then (from_bytes parser body) (\<lambda>response. case json_get response ''error'' of
         Some e \<Rightarrow> Inl (''local server rejected the request with HTTP '' @ decimal_text status @ '': '' @ error_message e)
       | None \<Rightarrow>
           if \<not> (200 \<le> status \<and> status < 300)
           then Inl (''local server returned HTTP '' @ decimal_text status @ '' without a completion'')
           else local_completion response)"

section \<open>What a finite response gives\<close>

lemma recorded_calls_unsettled: "recorded_calls index calls = Inr vs \<Longrightarrow> unsettled vs"
  by (induction index calls arbitrary: vs rule: recorded_calls.induct)
    (auto simp: and_then_Inr Let_def split: option.splits sum.splits)

lemma parse_completion_settles: "parse_completion parser body = Inr c \<Longrightarrow> settles (sc_events c)"
proof -
  assume "parse_completion parser body = Inr c"
  then obtain msg called r where events: "sc_events c = (text_deltas msg @ called) @ [StreamEnd r]" and "unsettled called"
    using recorded_calls_unsettled
    by (fastforce simp: parse_completion_def and_then_Inr split: sum.splits option.splits if_splits)
  moreover have "unsettled (text_deltas msg)" by (simp add: text_deltas_def split: option.split)
  ultimately show ?thesis unfolding settles_def by (intro exI [of _ "text_deltas msg @ called"] exI [of _ "StreamEnd r"]) simp
qed

text \<open>A refused request is always reported as a failure, whatever its body holds.\<close>

lemma refused_fails: "\<not> (200 \<le> status \<and> status < 300) \<Longrightarrow> \<exists>msg. parse_local_response parser body status = Inl msg"
  by (cases "from_bytes parser body") (auto simp: parse_local_response_def split: option.split)

text \<open>A failure that came after meaningful bytes is never replayed.\<close>

end
