(* ===== verification/Live_Streams.thy ===== *)
theory Live_Streams
  imports Recorded_Responses Retry
begin

text \<open>
  The two live provider streams: \<open>OpenRouterEventStream\<close> with its accounting and error reports
  (\<open>tea-core/src/provider/openrouter/mod.rs\<close>) and \<open>LocalEventStream\<close>
  (\<open>tea-core/src/provider/local/mod.rs\<close>). The provider's mutex-guarded state is kept in the stream's record; the
  request payload is made elsewhere and enters as its result.
\<close>

section \<open>Reports\<close>

datatype error_source = TransportError | ResponseError | AdapterError

record error_report =
  er_source :: error_source
  er_message :: string
  er_status_code :: "nat option"
  er_retryable :: bool
  er_attempt :: nat
  er_response_bytes :: "nat option"
  er_request_bytes :: "nat option"
  er_response_prefix :: "string option"

text \<open>\<open>str::replace\<close> with a pattern that is not empty.\<close>

function replace_text :: "string \<Rightarrow> string \<Rightarrow> string \<Rightarrow> string" where
  "replace_text pat new s =
     (case s of
        [] \<Rightarrow> []
      | c # t \<Rightarrow>
          if pat \<noteq> [] \<and> prefix pat s then new @ replace_text pat new (drop (length pat) s)
          else c # replace_text pat new t)"
  by pat_completeness auto
termination
  by (relation "measure (\<lambda>(p, n, s). length s)") auto

declare replace_text.simps [simp del]

definition plain_control :: "char \<Rightarrow> bool" where
  "plain_control c \<longleftrightarrow> octet c < 32 \<or> octet c = 127"

text \<open>Every control character of UTF-8 text is replaced by a space; those above ASCII are two bytes long.\<close>

fun blank_controls :: "string \<Rightarrow> string" where
  "blank_controls [] = []"
| "blank_controls [c] = [if plain_control c then CHR '' '' else c]"
| "blank_controls (c # d # s) =
     (if octet c = 194 \<and> 128 \<le> octet d \<and> octet d < 160 then CHR '' '' # blank_controls s
      else (if plain_control c then CHR '' '' else c) # blank_controls (d # s))"

definition response_body_prefix :: "string \<Rightarrow> string \<Rightarrow> string" where
  "response_body_prefix body secret =
     (let v = from_utf8_lossy (take 512 body);
          v = (if secret \<noteq> [] then replace_text secret ''[redacted]'' v else v);
          v = trim (blank_controls v)
      in if v = [] then ''<empty>'' else v)"

section \<open>The OpenRouter stream\<close>

record openrouter_stream = "sse_decoder live_source" +
  or_payload_bytes :: nat
  or_last_error :: "error_report option"
  or_usage :: usage
  or_costs :: "cost_turn list"

record openrouter_config =
  oc_api_key :: string
  oc_model :: string
  oc_max_tokens :: "u64 option"
  oc_request_timeout :: duration
  oc_stall_timeout :: duration
  oc_retry :: retry_policy

definition adapter_failure :: "string \<Rightarrow> openrouter_stream \<Rightarrow> openrouter_stream" where
  "adapter_failure msg s = emit_event (StreamError msg) (s\<lparr>or_last_error := Some
     \<lparr>er_source = AdapterError, er_message = msg, er_status_code = None, er_retryable = False, er_attempt = 0,
      er_response_bytes = None, er_request_bytes = None, er_response_prefix = None\<rparr>\<rparr>)"

definition transport_failure :: "openrouter_config \<Rightarrow> string \<Rightarrow> nat option \<Rightarrow> openrouter_stream \<Rightarrow> openrouter_stream" where
  "transport_failure cfg msg status s =
     (let s = release s; body = src_error_body s
      in emit_event (StreamError msg) (s\<lparr>or_last_error := Some
          \<lparr>er_source = TransportError, er_message = msg, er_status_code = status, er_retryable = False, er_attempt = 1,
           er_response_bytes = (if body \<noteq> [] then Some (length body) else None),
           er_request_bytes = Some (or_payload_bytes s),
           er_response_prefix = (if body \<noteq> [] then Some (response_body_prefix body (oc_api_key cfg)) else None)\<rparr>\<rparr>))"

definition response_failure ::
    "(string \<Rightarrow> mini option) \<Rightarrow> openrouter_config \<Rightarrow> string \<Rightarrow> openrouter_stream \<Rightarrow> openrouter_stream" where
  "response_failure parser cfg msg s =
     (let s = release s; body = src_error_body s;
          overflow = context_overflow parser body \<or> msg = ''OpenRouter context capacity exceeded''
      in emit_event (if overflow then ContextOverflow msg else StreamError msg) (s\<lparr>or_last_error := Some
          \<lparr>er_source = ResponseError, er_message = msg, er_status_code = src_status s, er_retryable = False, er_attempt = 1,
           er_response_bytes = Some (length body), er_request_bytes = Some (or_payload_bytes s),
           er_response_prefix = Some (response_body_prefix body (oc_api_key cfg))\<rparr>\<rparr>))"

text \<open>\<open>OpenRouterProvider::record\<close>.\<close>

definition or_record :: "usage \<Rightarrow> cost_turn \<Rightarrow> openrouter_stream \<Rightarrow> openrouter_stream" where
  "or_record u paid s =
     (let g = or_usage s;
          g = g\<lparr>input_tokens := add_usage (input_tokens g) (input_tokens u)\<rparr>;
          g = g\<lparr>output_tokens := add_usage (output_tokens g) (output_tokens u)\<rparr>;
          g = g\<lparr>reasoning_tokens := add_usage (reasoning_tokens g) (reasoning_tokens u)\<rparr>;
          g = g\<lparr>cache_read_tokens := add_usage (cache_read_tokens g) (cache_read_tokens u)\<rparr>;
          g = g\<lparr>cache_write_tokens := add_usage (cache_write_tokens g) (cache_write_tokens u)\<rparr>;
          g = (case cost u of None \<Rightarrow> g
               | Some c \<Rightarrow> g\<lparr>cost := Some (case cost g of Some previous \<Rightarrow> decimal_add previous c | None \<Rightarrow> c)\<rparr>)
      in s\<lparr>or_usage := g, or_costs := or_costs s @ [paid\<lparr>ct_turn := length (or_costs s) + 1\<rparr>]\<rparr>)"

definition with_usage :: "usage \<Rightarrow> stream_event \<Rightarrow> stream_event" where
  "with_usage u v = (case v of UsageEvent _ \<Rightarrow> UsageEvent u | _ \<Rightarrow> v)"

text \<open>The accounting of a settled response, and its events with the accounting filled in.\<close>

definition settled_cost :: "openrouter_config \<Rightarrow> sse_complete \<Rightarrow> cost_turn" where
  "settled_cost cfg c = (case sc_cost c of Some paid \<Rightarrow> paid | None \<Rightarrow> unavailable_cost (sc_usage c) (oc_model cfg))"

definition settled_usage :: "openrouter_config \<Rightarrow> sse_complete \<Rightarrow> usage" where
  "settled_usage cfg c =
     (let u = sc_usage c; paid = settled_cost cfg c
      in u\<lparr>cache_read_tokens := or_else (cache_read_tokens u) (ct_cache_read_tokens paid),
           cache_write_tokens := or_else (cache_write_tokens u) (ct_cache_write_tokens paid),
           cost := ct_total_usd_exact paid\<rparr>)"

definition settled_events :: "openrouter_config \<Rightarrow> sse_complete \<Rightarrow> stream_event list" where
  "settled_events cfg c = map (with_usage (settled_usage cfg c)) (sc_events c)"

definition finish_sse :: "(string \<Rightarrow> mini option) \<Rightarrow> openrouter_config \<Rightarrow> openrouter_stream \<Rightarrow> openrouter_stream" where
  "finish_sse parser cfg s =
     (let s = s\<lparr>src_live := False\<rparr>
      in case src_decoder s of
           None \<Rightarrow> response_failure parser cfg ''OpenRouter response stream was not initialized'' s
         | Some d \<Rightarrow>
             (let s = s\<lparr>src_decoder := None\<rparr>
              in case sse_finish parser d False of
                   Inl msg \<Rightarrow> response_failure parser cfg msg s
                 | Inr c \<Rightarrow>
                     (let u = settled_usage cfg c;
                          s = (if is_reported u then or_record u (settled_cost cfg c) s else s)
                      in s\<lparr>src_pending := src_pending s @ settled_events cfg c\<rparr>)))"

definition failure_text :: "string \<Rightarrow> nat option \<Rightarrow> string \<Rightarrow> string" where
  "failure_text label status msg =
     label @ (case status of Some n \<Rightarrow> '' with status '' @ decimal_text n | None \<Rightarrow> []) @ '': '' @ msg"

definition cancelled_end :: "('d, 'z) live_source_scheme \<Rightarrow> ('d, 'z) live_source_scheme" where
  "cancelled_end s = emit_event (StreamEnd CancelledReason) (release s)"

fun or_on_event ::
    "(string \<Rightarrow> mini option) \<Rightarrow> openrouter_config \<Rightarrow> openrouter_stream \<Rightarrow> bool \<Rightarrow> http_event \<Rightarrow> openrouter_stream" where
  "or_on_event parser cfg s late (HttpResponse n) = s\<lparr>src_status := Some n\<rparr>"
| "or_on_event parser cfg s late (HttpChunk body) =
     (if bad_status s then s\<lparr>src_error_body := src_error_body s @ body\<rparr>
      else (case src_decoder s of
          None \<Rightarrow> response_failure parser cfg ''OpenRouter response stream was not initialized'' s
        | Some d \<Rightarrow> (case sse_push parser d body of
              (Inr vs, d') \<Rightarrow> s\<lparr>src_decoder := Some d', src_pending := src_pending s @ vs\<rparr>
            | (Inl msg, d') \<Rightarrow> response_failure parser cfg msg s)))"
| "or_on_event parser cfg s late HttpEnd =
     (if bad_status s then response_failure parser cfg ''OpenRouter rejected the request'' s else finish_sse parser cfg s)"
| "or_on_event parser cfg s late (HttpFailure msg status) =
     (if late \<or> msg = http_cancelled then cancelled_end s
      else transport_failure cfg (failure_text ''OpenRouter HTTP transport failed'' status msg) status s)"

text \<open>\<open>OpenRouterEventStream::start\<close>, given the provider's state, the outcome of the model check and the payload.\<close>

definition or_start ::
    "usage \<Rightarrow> cost_turn list \<Rightarrow> bool \<Rightarrow> string + unit \<Rightarrow> string + string \<Rightarrow> openrouter_stream" where
  "or_start used costs cancelled validated payload =
     (let s = \<lparr>src_live = False, src_decoder = None, src_pending = [], src_status = None, src_error_body = [],
            or_payload_bytes = 0, or_last_error = None, or_usage = used, or_costs = costs\<rparr>
      in if cancelled then emit_event (StreamEnd CancelledReason) s
         else (case validated of
             Inl msg \<Rightarrow> adapter_failure msg s
           | Inr _ \<Rightarrow> (case payload of
                 Inl msg \<Rightarrow> adapter_failure msg s
               | Inr p \<Rightarrow> s\<lparr>or_payload_bytes := length p, src_live := True, src_decoder := Some sse_new\<rparr>)))"

section \<open>The local stream\<close>

type_synonym local_stream = "local_decoder live_source"

definition local_failure :: "string \<Rightarrow> local_stream \<Rightarrow> local_stream" where
  "local_failure msg s = emit_event (StreamError msg) (release s)"

text \<open>The end of a body; that of a refused request is read for its error.\<close>

definition local_end ::
    "(string \<Rightarrow> mini option) \<Rightarrow> local_stream \<Rightarrow> local_stream" where
  "local_end parser s =
     (let s = s\<lparr>src_live := False\<rparr>
      in if bad_status s then
           (let n = the (src_status s)
            in local_failure (case parse_local_response parser (src_error_body s) n of
                Inl msg \<Rightarrow> msg
              | Inr _ \<Rightarrow> ''local server returned HTTP '' @ decimal_text n @ '' without a completion'') s)
         else (case src_decoder s of
             None \<Rightarrow> local_failure ''local response stream was not initialized'' s
           | Some d \<Rightarrow>
               (let s = s\<lparr>src_decoder := None\<rparr>
                in case local_finish parser d of
                     Inl msg \<Rightarrow> local_failure msg s
                   | Inr vs \<Rightarrow> s\<lparr>src_pending := src_pending s @ vs\<rparr>)))"

fun local_on_event ::
    "(string \<Rightarrow> mini option) \<Rightarrow> local_stream \<Rightarrow> bool \<Rightarrow> http_event \<Rightarrow> local_stream" where
  "local_on_event parser s late (HttpResponse n) = s\<lparr>src_status := Some n\<rparr>"
| "local_on_event parser s late (HttpChunk body) =
     (if bad_status s then s\<lparr>src_error_body := src_error_body s @ body\<rparr>
      else (case src_decoder s of
          None \<Rightarrow> local_failure ''local response stream was not initialized'' s
        | Some d \<Rightarrow> (case local_push parser d body of
              (Inr vs, d') \<Rightarrow> s\<lparr>src_decoder := Some d', src_pending := src_pending s @ vs\<rparr>
            | (Inl msg, d') \<Rightarrow> local_failure msg s)))"
| "local_on_event parser s late HttpEnd = local_end parser s"
| "local_on_event parser s late (HttpFailure msg status) =
     (if late \<or> msg = http_cancelled then cancelled_end s
      else local_failure (failure_text ''local HTTP transport failed'' status msg) s)"

definition local_start :: "bool \<Rightarrow> string + unit \<Rightarrow> string + string \<Rightarrow> local_stream" where
  "local_start cancelled validated payload =
     (let s = \<lparr>src_live = False, src_decoder = None, src_pending = [], src_status = None, src_error_body = []\<rparr>
      in if cancelled then emit_event (StreamEnd CancelledReason) s
         else (case validated of
             Inl msg \<Rightarrow> emit_event (StreamError msg) s
           | Inr _ \<Rightarrow> (case payload of
                 Inl msg \<Rightarrow> emit_event (StreamError msg) s
               | Inr p \<Rightarrow> s\<lparr>src_live := True, src_decoder := Some local_new\<rparr>)))"

section \<open>Both keep the contract\<close>

lemma deltas_unsettled: "list_all is_delta vs \<Longrightarrow> unsettled vs"
  by (induction vs) (auto elim: is_delta.elims)

lemma settle_calls_unsettled: "settle_calls label unnamed omitted i cs = Inr vs \<Longrightarrow> unsettled vs"
  by (induction label unnamed omitted i cs arbitrary: vs rule: settle_calls.induct)
    (auto simp: Let_def split: option.splits sum.splits)

lemma sse_last_line_delta: "sse_last_line parser d p = (Inr vs, d') \<Longrightarrow> list_all is_delta vs"
  by (auto simp: sse_last_line_def dest: sse_line_delta split: if_splits prod.splits sum.splits)

lemma sse_finish_settles:
  assumes "sse_finish parser d p = Inr c"
  shows "settles (sc_events c)"
proof -
  obtain vs d' where last: "sse_last_line parser d p = (Inr vs, d')"
    using assms by (auto simp: sse_finish_def split: prod.splits sum.splits)
  show ?thesis
    using assms last deltas_unsettled [OF sse_last_line_delta [OF last]]
    by (auto simp: sse_finish_def settles_def Let_def dest!: settle_calls_unsettled split: sum.splits if_splits)
qed

lemma local_finish_settles:
  assumes "local_finish parser d = Inr vs"
  shows "settles vs"
  using assms local_line_delta [THEN deltas_unsettled]
  by (fastforce simp: local_finish_def settles_def dest!: settle_calls_unsettled split: prod.splits sum.splits if_splits)

lemma with_usage_settled [simp]: "is_settled (with_usage u v) = is_settled v"
  by (cases v) (simp_all add: with_usage_def)

lemma settles_map: "settles vs \<Longrightarrow> settles (map (with_usage u) vs)"
proof -
  assume "settles vs"
  then obtain us v where "vs = us @ [v]" "unsettled us" "is_settled v" by (auto simp: settles_def)
  then have "map (with_usage u) vs = map (with_usage u) us @ [with_usage u v]"
    "unsettled (map (with_usage u) us)" "is_settled (with_usage u v)" by (auto simp: list.pred_map comp_def)
  then show ?thesis unfolding settles_def by blast
qed

lemma settles_one [simp]: "settles [v] = is_settled v"
  by (auto simp: settles_def)

lemma failure_shape [simp]:
  "src_pending (response_failure parser cfg msg s) = src_pending s @
     [if context_overflow parser (src_error_body s) \<or> msg = ''OpenRouter context capacity exceeded''
      then ContextOverflow msg else StreamError msg]"
  "\<not> src_live (response_failure parser cfg msg s)"
  "src_pending (transport_failure cfg msg n s) = src_pending s @ [StreamError msg]"
  "\<not> src_live (transport_failure cfg msg n s)"
  by (auto simp: response_failure_def transport_failure_def Let_def emit_event_def release_def)

lemma or_record_shape [simp]: "src_pending (or_record u paid s) = src_pending s" "src_live (or_record u paid s) = src_live s"
  by (simp_all add: or_record_def Let_def split: option.split)

lemma finish_sse_live [simp]: "\<not> src_live (finish_sse parser cfg s)"
  by (simp add: finish_sse_def Let_def split: option.split sum.split)

lemma finish_sse_settles: "src_pending s = [] \<Longrightarrow> settles (src_pending (finish_sse parser cfg s))"
  using sse_finish_settles [THEN settles_map]
  by (auto simp: finish_sse_def settled_events_def Let_def split: option.split sum.split)

lemma local_failure_shape [simp]:
  "src_pending (local_failure msg s) = src_pending s @ [StreamError msg]" "\<not> src_live (local_failure msg s)"
  "src_pending (cancelled_end t) = src_pending t @ [StreamEnd CancelledReason]" "\<not> src_live (cancelled_end t)"
  by (simp_all add: local_failure_def cancelled_end_def emit_event_def release_def)

lemma local_end_shape: "\<not> src_live (local_end parser s)"
  "src_pending s = [] \<Longrightarrow> settles (src_pending (local_end parser s))"
  using local_finish_settles by (auto simp: local_end_def Let_def split: option.split sum.split)

lemma sse_push_delta: "sse_push parser d c = (Inr vs, d') \<Longrightarrow> list_all is_delta vs"
  using sse.push_delta by (simp add: sse_push_eq)

lemma local_push_delta: "local_push parser d c = (Inr vs, d') \<Longrightarrow> list_all is_delta vs"
  using local_sse.push_delta by (simp add: local_push_eq)

interpretation openrouter_source: event_source "or_on_event parser cfg" for parser cfg
proof (unfold_locales, goal_cases)
  case (1 s late e)
  then show ?case by (cases e) (auto split: if_splits option.splits prod.splits sum.splits dest!: sse_push_delta deltas_unsettled)
next
  case (2 s late e)
  then show ?case using finish_sse_settles
    by (cases e) (auto split: if_splits option.splits prod.splits sum.splits)
next
  case (3 s e late)
  then show ?case by (cases e) (auto simp: closing_def)
qed

interpretation local_source: event_source "local_on_event parser" for parser
proof (unfold_locales, goal_cases)
  case (1 s late e)
  then show ?case by (cases e) (auto simp: local_end_shape split: if_splits option.splits prod.splits sum.splits dest!: local_push_delta deltas_unsettled)
next
  case (2 s late e)
  then show ?case using local_end_shape(2)
    by (cases e) (auto split: if_splits option.splits prod.splits sum.splits)
next
  case (3 s e late)
  then show ?case by (cases e) (auto simp: closing_def local_end_shape)
qed

section \<open>Every stream settles once\<close>

lemma started_shape:
  "(src_live (or_start used costs cancelled validated payload) \<and> src_pending (or_start used costs cancelled validated payload) = []) \<or>
   (\<not> src_live (or_start used costs cancelled validated payload) \<and>
      (\<exists>v. src_pending (or_start used costs cancelled validated payload) = [v] \<and> is_settled v))"
  by (auto simp: or_start_def emit_event_def adapter_failure_def Let_def split: sum.split)

lemma local_started_shape:
  "(src_live (local_start cancelled validated payload) \<and> src_pending (local_start cancelled validated payload) = []) \<or>
   (\<not> src_live (local_start cancelled validated payload) \<and>
      (\<exists>v. src_pending (local_start cancelled validated payload) = [v] \<and> is_settled v))"
  by (auto simp: local_start_def emit_event_def Let_def split: sum.split)

text \<open>
  A sequence of events as the run may see it: deltas, calls and usage, then at most one settling event,
  and after it nothing but one more cancelled end for each poll that finds the flag set.
\<close>

definition settled_once :: "bool \<Rightarrow> nat \<Rightarrow> stream_event list \<Rightarrow> bool" where
  "settled_once finished flags vs \<longleftrightarrow> (\<exists>us tail. vs = us @ tail \<and> unsettled us \<and>
     (tail = [] \<or> (\<exists>v n. tail = v # replicate n (StreamEnd CancelledReason) \<and> is_settled v \<and> n \<le> flags)) \<and>
     (finished \<longrightarrow> tail \<noteq> []))"

text \<open>The script ends the stream: the flag is seen, or the body ends or fails.\<close>

definition ends :: "round list \<Rightarrow> bool" where
  "ends rs \<longleftrightarrow> (\<exists>r \<in> set rs. rd_cancelled r \<or> (\<exists>e. rd_arrival r = Some e \<and> closing e))"

abbreviation flags :: "round list \<Rightarrow> nat" where
  "flags rs \<equiv> length (filter rd_cancelled rs)"

context event_source
begin

lemma settled_once:
  assumes "(src_live s \<and> src_pending s = []) \<or> (\<not> src_live s \<and> (\<exists>v. src_pending s = [v] \<and> is_settled v))"
  shows "settled_once (ends rs) (flags rs) (collected on_event s rs)"
  using assms
proof (elim disjE conjE exE)
  assume "src_live s" "src_pending s = []"
  from before_end [OF this, of rs] show ?thesis unfolding settled_once_def ends_def .
next
  fix v assume closed: "\<not> src_live s" "src_pending s = [v]" "is_settled v"
  have "collected on_event s rs = v # replicate (flags rs) (StreamEnd CancelledReason)"
    using collected_pending [of on_event s rs] after_end [of "s\<lparr>src_pending := []\<rparr>" rs] closed by simp
  then show ?thesis unfolding settled_once_def using closed(3)
    by (intro exI [of _ "[]"] exI [of _ "v # replicate (flags rs) (StreamEnd CancelledReason)"]) auto
qed

end

text \<open>C17: whatever the network and the cancellation flag do, a provider stream gives the run deltas, calls and
  usage, then exactly one settling event, and then nothing but cancelled ends.\<close>

theorem provider_streams_settle:
  "settled_once (ends rs) (flags rs) (collected (or_on_event parser cfg) (or_start used costs cancelled validated payload) rs) \<and>
   settled_once (ends rs) (flags rs) (collected (local_on_event parser) (local_start cancelled validated payload) rs)"
  using openrouter_source.settled_once [OF started_shape] local_source.settled_once [OF local_started_shape] by blast

section \<open>The live stream decodes the body\<close>

definition failed :: "(string \<Rightarrow> mini option) \<Rightarrow> string \<Rightarrow> stream_event" where
  "failed parser msg = (if context_overflow parser [] \<or> msg = ''OpenRouter context capacity exceeded''
     then ContextOverflow msg else StreamError msg)"

lemma collected_closed:
  assumes "\<not> src_live s" and "\<forall>r \<in> set rs. \<not> rd_cancelled r"
  shows "collected (or_on_event parser cfg) s rs = src_pending s"
proof -
  have "collected (or_on_event parser cfg) s rs = src_pending s @ collected (or_on_event parser cfg) (s\<lparr>src_pending := []\<rparr>) rs"
    by (rule collected_pending)
  moreover have "flags rs = 0" using assms(2) by (simp add: filter_empty_conv)
  ultimately show ?thesis using openrouter_source.after_end [of "s\<lparr>src_pending := []\<rparr>" parser cfg rs] assms(1) by simp
qed

lemma collected_chunks:
  assumes "\<forall>r \<in> set rs. \<not> rd_cancelled r" "List.map_filter rd_arrival rs = map HttpChunk cs @ [HttpEnd]"
    "src_live s" "src_pending s = []" "src_decoder s = Some d" "\<not> bad_status s" "src_error_body s = []"
  shows "case sse.feed parser d cs of
      (Inl msg, d') \<Rightarrow> \<exists>vs. list_all is_delta vs \<and> collected (or_on_event parser cfg) s rs = vs @ [failed parser msg]
    | (Inr vs, d') \<Rightarrow> collected (or_on_event parser cfg) s rs = vs @
        (case sse_finish parser d' False of Inl msg \<Rightarrow> [failed parser msg] | Inr c \<Rightarrow> settled_events cfg c)"
  using assms
proof (induction cs arbitrary: rs s d)
  case Nil
  then obtain rs' where here: "collected (or_on_event parser cfg) s rs = collected (or_on_event parser cfg) (finish_sse parser cfg s) rs'"
      and quiet: "\<forall>r \<in> set rs'. \<not> rd_cancelled r"
    using collected_arrival [of rs HttpEnd "[]" s "or_on_event parser cfg"] by auto
  have "src_pending (finish_sse parser cfg s) =
      (case sse_finish parser d False of Inl msg \<Rightarrow> [failed parser msg] | Inr c \<Rightarrow> settled_events cfg c)"
    using Nil by (auto simp: finish_sse_def failed_def Let_def split: sum.split)
  then show ?case using here collected_closed [OF _ quiet] by simp
next
  case (Cons c cs)
  then obtain late rs' where here: "collected (or_on_event parser cfg) s rs =
        collected (or_on_event parser cfg) (or_on_event parser cfg s late (HttpChunk c)) rs'"
      and quiet: "\<forall>r \<in> set rs'. \<not> rd_cancelled r" and later: "List.map_filter rd_arrival rs' = map HttpChunk cs @ [HttpEnd]"
    using collected_arrival [of rs "HttpChunk c" "map HttpChunk cs @ [HttpEnd]" s "or_on_event parser cfg"] by auto
  obtain u d' where pushed: "sse_push parser d c = (u, d')" by fastforce
  show ?case
  proof (cases u)
    case (Inl msg)
    then have "collected (or_on_event parser cfg) s rs = [failed parser msg]"
      using here collected_closed [OF _ quiet] Cons.prems pushed by (simp add: failed_def)
    then show ?thesis using Inl pushed by (simp add: sse_push_eq exI [of _ "[]"])
  next
    case (Inr vs)
    let ?s = "s\<lparr>src_decoder := Some d', src_pending := vs\<rparr>"
    have "collected (or_on_event parser cfg) s rs = vs @ collected (or_on_event parser cfg) (?s\<lparr>src_pending := []\<rparr>) rs'"
      using here Inr pushed Cons.prems by (simp add: collected_pending [of _ ?s])
    moreover have "case sse.feed parser d' cs of
        (Inl msg, d'') \<Rightarrow> \<exists>ws. list_all is_delta ws \<and> collected (or_on_event parser cfg) (?s\<lparr>src_pending := []\<rparr>) rs' = ws @ [failed parser msg]
      | (Inr ws, d'') \<Rightarrow> collected (or_on_event parser cfg) (?s\<lparr>src_pending := []\<rparr>) rs' = ws @
          (case sse_finish parser d'' False of Inl msg \<Rightarrow> [failed parser msg] | Inr c \<Rightarrow> settled_events cfg c)"
      using Cons.prems by (intro Cons.IH [OF quiet later]) (simp_all add: bad_status_def)
    moreover have "list_all is_delta vs" using pushed Inr sse_push_delta by blast
    ultimately show ?thesis using Inr pushed
      by (auto simp: sse_push_eq split: prod.splits sum.splits)
  qed
qed

lemma with_usage_delta: "list_all is_delta vs \<Longrightarrow> map (with_usage u) vs = vs"
  by (induction vs) (auto simp: with_usage_def elim: is_delta.elims)

text \<open>C16: however an accepted response body is cut into chunks and whenever they arrive, the run gets the
  events of decoding it in one piece, with the accounting filled in; when the body cannot be decoded the run
  gets text of it, then the failure.\<close>

theorem live_stream_decodes_body:
  assumes "parser [] = None" and "\<forall>r \<in> set rs. \<not> rd_cancelled r" and "200 \<le> n" and "n < 300"
    and "List.map_filter rd_arrival rs = HttpResponse n # map HttpChunk chunks @ [HttpEnd]"
  shows "case parse_sse_response parser (concat chunks) False of
      Inr c \<Rightarrow> collected (or_on_event parser cfg) (or_start used costs False (Inr ()) (Inr p)) rs = settled_events cfg c
    | Inl msg \<Rightarrow> \<exists>texts. list_all is_delta texts \<and>
        collected (or_on_event parser cfg) (or_start used costs False (Inr ()) (Inr p)) rs = texts @
          [if msg = ''OpenRouter context capacity exceeded'' then ContextOverflow msg else StreamError msg]"
proof -
  have plain: "failed parser msg = (if msg = ''OpenRouter context capacity exceeded'' then ContextOverflow msg else StreamError msg)" for msg
    by (simp add: failed_def context_overflow_def from_bytes_def json_parse_def assms(1) from_utf8_def is_utf8.simps)
  let ?s = "or_start used costs False (Inr ()) (Inr p)"
  obtain late rs' where here: "collected (or_on_event parser cfg) ?s rs =
        collected (or_on_event parser cfg) (or_on_event parser cfg ?s late (HttpResponse n)) rs'"
      and quiet: "\<forall>r \<in> set rs'. \<not> rd_cancelled r" and later: "List.map_filter rd_arrival rs' = map HttpChunk chunks @ [HttpEnd]"
    using collected_arrival [OF assms(2,5), of ?s "or_on_event parser cfg"] by (auto simp: or_start_def)
  let ?s' = "or_on_event parser cfg ?s late (HttpResponse n)"
  have decoded: "case sse.feed parser sse_new chunks of
      (Inl msg, d') \<Rightarrow> \<exists>vs. list_all is_delta vs \<and> collected (or_on_event parser cfg) ?s' rs' = vs @ [failed parser msg]
    | (Inr vs, d') \<Rightarrow> collected (or_on_event parser cfg) ?s' rs' = vs @
        (case sse_finish parser d' False of Inl msg \<Rightarrow> [failed parser msg] | Inr c \<Rightarrow> settled_events cfg c)"
    using assms(3,4) by (intro collected_chunks [OF quiet later]) (simp_all add: or_start_def bad_status_def)
  from sse.feed_concat [of sse_new parser chunks] have
    "(\<exists>msg d'. sse.feed parser sse_new chunks = (Inl msg, d') \<and> fst (sse_push parser sse_new (concat chunks)) = Inl msg) \<or>
     (\<exists>vs d'. sse.feed parser sse_new chunks = (Inr vs, d') \<and> sse_push parser sse_new (concat chunks) = (Inr vs, d'))"
    by (simp add: sse_push_eq sse_new_def)
  then show ?thesis
  proof (elim disjE exE conjE)
    fix msg d' assume "sse.feed parser sse_new chunks = (Inl msg, d')" "fst (sse_push parser sse_new (concat chunks)) = Inl msg"
    then show ?thesis using decoded here by (auto simp: parse_sse_response_def plain split: prod.splits)
  next
    fix vs d' assume fed: "sse.feed parser sse_new chunks = (Inr vs, d')" and whole: "sse_push parser sse_new (concat chunks) = (Inr vs, d')"
    have deltas: "list_all is_delta vs" using whole sse_push_delta by blast
    show ?thesis
    proof (cases "sse_finish parser d' False")
      case (Inl msg)
      then show ?thesis using decoded here fed whole deltas by (auto simp: parse_sse_response_def plain)
    next
      case (Inr c)
      have "settled_events cfg (c\<lparr>sc_events := vs @ sc_events c\<rparr>) = vs @ settled_events cfg c"
        using with_usage_delta [OF deltas] by (cases "sc_cost c") (simp_all add: settled_events_def settled_usage_def settled_cost_def Let_def)
      then show ?thesis using decoded here fed whole Inr by (simp add: parse_sse_response_def)
    qed
  qed
qed

end
