(* ===== verification/Payloads.thy ===== *)
theory Payloads
  imports Live_Streams Conversation
begin

text \<open>
  What the provider adapters send: the conversation as Chat Completions messages (\<open>OpenAiContextHook\<close> in
  \<open>tea-core/src/provider/openai.rs\<close>), the request bodies of the three adapters (\<open>payload.rs\<close> of each, and
  \<open>build_payload\<close> of Command Code), the conversion to Command Code's own message format, and the checks of the
  configurations (\<open>config.rs\<close> of each). The printer and parser of JSON text are the library's.
\<close>

section \<open>Objects\<close>

lemma btree_collect_get:
  assumes "distinct (map fst kvs)"
  shows "btree_get (btree_collect kvs) k = map_of kvs k"
proof -
  have "btree_ok es \<Longrightarrow> distinct (map fst kvs) \<Longrightarrow>
      btree_get (fold (\<lambda>(k, v). btree_insert k v) kvs es) k = (case map_of kvs k of Some v \<Rightarrow> Some v | None \<Rightarrow> btree_get es k)" for es
  proof (induction kvs arbitrary: es)
    case (Cons e kvs)
    obtain i v where e: "e = (i, v)" by fastforce
    have "i \<notin> dom (map_of kvs)" using Cons.prems(2) e by (simp add: dom_map_of_conv_image_fst)
    then show ?case using Cons e by (auto simp: btree_ok_insert btree_get_insert split: option.split)
  qed simp
  from this [of "[]"] show ?thesis using assms by (simp add: btree_collect_def btree_ok_def split: option.split)
qed

lemma json_get_object [simp]: "distinct (map fst kvs) \<Longrightarrow> json_get (json_object kvs) k = map_of kvs k"
  by (simp add: json_object_def btree_collect_get)

lemma object_fields: "json_object kvs = JObject (btree_collect kvs)"
  by (simp add: json_object_def)

section \<open>The conversation as Chat Completions messages\<close>

definition openai_call :: "agent_tool_call \<Rightarrow> json" where
  "openai_call call = json_object
     [(''id'', JString (tc_id call)), (''type'', JString ''function''),
      (''function'', json_object [(''name'', JString (tc_name call)), (''arguments'', JString (tc_arguments call))])]"

definition details_text :: "serialized_json \<Rightarrow> string" where
  "details_text d = newline # ''[tool details (serialized JSON): '' @ truncate_middle d (max_details_bytes projection_default) @ '']''"

fun openai_message :: "agent_message \<Rightarrow> json" where
  "openai_message (UserMessage i text) = json_object [(''role'', JString ''user''), (''content'', JString text)]"
| "openai_message (AssistantMessage i text calls reason err) = json_object
     [(''role'', JString ''assistant''), (''content'', if text = [] then JNull else JString text),
      (''tool_calls'', JArray (map openai_call calls))]"
| "openai_message (ToolResultMessage i name r) = json_object
     [(''role'', JString ''tool''), (''tool_call_id'', JString (tool_call_id r)),
      (''content'', JString (content r @ (case details r of Some d \<Rightarrow> details_text d | None \<Rightarrow> []))),
      (''is_error'', JBool (is_error r))]"

definition convert_to_llm :: "(mini \<Rightarrow> string) \<Rightarrow> agent_message list \<Rightarrow> json_error + string" where
  "convert_to_llm printer ms = to_json_string printer (JArray (map openai_message ms))"

section \<open>Requests\<close>

record payload_tool =
  pt_name :: string
  pt_description :: string
  pt_schema :: json

record payload_request =
  pr_prompt :: string
  pr_context :: string
  pr_tools :: "payload_tool list"
  pr_model :: "model_descriptor option"
  pr_thinking :: thinking_level

definition function_tool :: "payload_tool \<Rightarrow> json" where
  "function_tool t = json_object [(''type'', JString ''function''), (''function'', json_object
     [(''name'', JString (pt_name t)), (''description'', JString (pt_description t)), (''parameters'', pt_schema t)])]"

definition system_message :: "string \<Rightarrow> json" where
  "system_message prompt = json_object [(''role'', JString ''system''), (''content'', JString prompt)]"

definition put :: "string \<Rightarrow> json \<Rightarrow> json \<Rightarrow> json" where
  "put key v j = (case j of JObject es \<Rightarrow> JObject (btree_insert key v es) | _ \<Rightarrow> j)"

fun reasoning_effort :: "thinking_level \<Rightarrow> string" where
  "reasoning_effort Off = ''none''"
| "reasoning_effort Minimal = ''minimal''"
| "reasoning_effort Low = ''low''"
| "reasoning_effort Medium = ''medium''"
| "reasoning_effort High = ''high''"
| "reasoning_effort XHigh = ''xhigh''"
| "reasoning_effort MaxLevel = ''max''"

text \<open>The body of an OpenRouter request as a value, and printed.\<close>

definition openrouter_body :: "openrouter_config \<Rightarrow> payload_request \<Rightarrow> json list \<Rightarrow> json" where
  "openrouter_body cfg req messages =
     (let tools = map function_tool (pr_tools req);
          payload = json_object
            [(''model'', JString (oc_model cfg)), (''messages'', JArray (system_message (pr_prompt req) # messages)),
             (''temperature'', JNumber (Signed 0)), (''stream'', JBool True),
             (''stream_options'', json_object [(''include_usage'', JBool True)])];
          payload = (case oc_max_tokens cfg of Some n \<Rightarrow> put ''max_tokens'' (JNumber (Unsigned n)) payload | None \<Rightarrow> payload);
          payload = put ''reasoning'' (json_object [(''effort'', JString (reasoning_effort (pr_thinking req)))]) payload
      in if tools = [] then payload
         else put ''provider'' (json_object [(''require_parameters'', JBool True)]) (put ''tools'' (JArray tools) payload))"

definition openrouter_payload ::
    "(string \<Rightarrow> mini option) \<Rightarrow> (mini \<Rightarrow> string) \<Rightarrow> openrouter_config \<Rightarrow> payload_request \<Rightarrow> string + string" where
  "openrouter_payload parser printer cfg req =
     (case json_parse parser (pr_context req) of
        Inl _ \<Rightarrow> Inl ''OpenRouter received invalid converted context''
      | Inr v \<Rightarrow> (case as_array v of
            None \<Rightarrow> Inl ''OpenRouter converted context must be an array''
          | Some messages \<Rightarrow> (case to_json_string printer (openrouter_body cfg req messages) of
                Inl _ \<Rightarrow> Inl ''cannot serialize OpenRouter request''
              | Inr text \<Rightarrow> Inr text)))"

record local_config =
  lc_base_url :: string
  lc_model :: string
  lc_max_tokens :: u64
  lc_temperature :: f64
  lc_top_p :: f64
  lc_min_p :: f64
  lc_enable_thinking :: bool
  lc_request_timeout :: duration

text \<open>The local body. Writing a float that is not finite panics; a panic is \<open>None\<close>.\<close>

definition adapter_float :: "f64 \<Rightarrow> json option" where
  "adapter_float x = (case json_number_new (Float x) of Inr v \<Rightarrow> Some v | Inl _ \<Rightarrow> None)"

definition local_body :: "local_config \<Rightarrow> payload_request \<Rightarrow> json list \<Rightarrow> json option" where
  "local_body cfg req messages =
     (case (adapter_float (lc_temperature cfg), adapter_float (lc_top_p cfg), adapter_float (lc_min_p cfg)) of
        (Some temperature, Some top_p, Some min_p) \<Rightarrow> Some (json_object
          [(''model'', JString (lc_model cfg)), (''messages'', JArray (system_message (pr_prompt req) # messages)),
           (''temperature'', temperature), (''top_p'', top_p), (''min_p'', min_p),
           (''max_tokens'', JNumber (Unsigned (lc_max_tokens cfg))), (''stream'', JBool True),
           (''stream_options'', json_object [(''include_usage'', JBool True)]),
           (''chat_template_kwargs'', json_object
              [(''enable_thinking'', JBool (lc_enable_thinking cfg \<and> pr_thinking req \<noteq> Off))]),
           (''tools'', JArray (map function_tool (pr_tools req)))])
      | _ \<Rightarrow> None)"

definition local_payload ::
    "(json_error \<Rightarrow> string) \<Rightarrow> (string \<Rightarrow> mini option) \<Rightarrow> (mini \<Rightarrow> string) \<Rightarrow> local_config \<Rightarrow> payload_request \<Rightarrow>
     (string + string) option" where
  "local_payload shown parser printer cfg req =
     (case json_parse parser (trim (pr_context req)) of
        Inl _ \<Rightarrow> Some (Inl ''local context was not valid JSON'')
      | Inr v \<Rightarrow> (case as_array v of
            None \<Rightarrow> Some (Inl ''local context was not a JSON message array'')
          | Some messages \<Rightarrow> (case local_body cfg req messages of
                None \<Rightarrow> None
              | Some body \<Rightarrow> (case to_json_string printer body of
                    Inl e \<Rightarrow> Some (Inl (''could not serialize local request: '' @ shown e))
                  | Inr text \<Rightarrow> Some (Inr text)))))"

section \<open>Command Code messages\<close>

definition cmd_string_field :: "json btree \<Rightarrow> string \<Rightarrow> string \<Rightarrow> string + string" where
  "cmd_string_field obj key subject = (case keep_if (\<lambda>v. v \<noteq> []) (Option.bind (btree_get obj key) as_str) of
       Some v \<Rightarrow> Inr v | None \<Rightarrow> Inl (subject @ '' did not contain '' @ key))"

definition string_or_absent :: "json btree \<Rightarrow> string \<Rightarrow> string + string option" where
  "string_or_absent obj key = (case btree_get obj key of
       None \<Rightarrow> Inr None
     | Some JNull \<Rightarrow> Inr None
     | Some (JString v) \<Rightarrow> Inr (Some v)
     | Some _ \<Rightarrow> Inl (''Command Code context '' @ key @ '' must be a string or null''))"

definition string_or_null :: "json btree \<Rightarrow> string \<Rightarrow> string + string" where
  "string_or_null obj key = and_then (string_or_absent obj key) (\<lambda>v. Inr (case v of Some s \<Rightarrow> s | None \<Rightarrow> []))"

type_synonym tool_names = "string btree"

definition text_part :: "string \<Rightarrow> json" where
  "text_part t = json_object [(''type'', JString ''text''), (''text'', JString t)]"

definition call_part :: "string \<Rightarrow> string \<Rightarrow> json \<Rightarrow> json" where
  "call_part i name input = json_object [(''type'', JString ''tool-call''), (''toolCallId'', JString i),
     (''toolName'', JString name), (''input'', input)]"

definition result_part :: "string \<Rightarrow> string \<Rightarrow> string \<Rightarrow> bool \<Rightarrow> json" where
  "result_part i name text err = json_object [(''type'', JString ''tool-result''), (''toolCallId'', JString i),
     (''toolName'', JString name),
     (''output'', json_object [(''type'', JString ''text''), (''value'', JString text)]), (''isError'', JBool err)]"

definition role_message :: "string \<Rightarrow> json list \<Rightarrow> json" where
  "role_message role parts = json_object [(''role'', JString role), (''content'', JArray parts)]"

definition cmd_call :: "(string \<Rightarrow> mini option) \<Rightarrow> json \<Rightarrow> string + string \<times> string \<times> json" where
  "cmd_call parser call =
     (case as_object call of
        None \<Rightarrow> Inl ''Command Code assistant tool call must be an object''
      | Some obj \<Rightarrow>
          and_then (cmd_string_field obj ''id'' ''Command Code assistant tool call'') (\<lambda>i.
          (case Option.bind (btree_get obj ''function'') as_object of
             None \<Rightarrow> Inl ''Command Code assistant tool call did not contain a function''
           | Some f \<Rightarrow>
               and_then (cmd_string_field f ''name'' ''Command Code tool function'') (\<lambda>name.
               and_then (cmd_string_field f ''arguments'' ''Command Code tool function'') (\<lambda>arguments.
               (case json_parse parser arguments of
                  Inl _ \<Rightarrow> Inl ''Command Code tool call arguments must be serialized JSON''
                | Inr input \<Rightarrow>
                    if \<not> is_object input then Inl ''Command Code tool call arguments must be a JSON object''
                    else Inr (i, name, input)))))))"

fun cmd_calls :: "(string \<Rightarrow> mini option) \<Rightarrow> json list \<Rightarrow> tool_names \<Rightarrow> string + json list \<times> tool_names" where
  "cmd_calls parser [] names = Inr ([], names)"
| "cmd_calls parser (call # calls) names =
     and_then (cmd_call parser call) (\<lambda>(i, name, input).
     and_then (cmd_calls parser calls (btree_insert i name names)) (\<lambda>(parts, names).
       Inr (call_part i name input # parts, names)))"

definition cmd_assistant :: "(string \<Rightarrow> mini option) \<Rightarrow> json btree \<Rightarrow> tool_names \<Rightarrow> string + json \<times> tool_names" where
  "cmd_assistant parser obj names =
     and_then (string_or_absent obj ''content'') (\<lambda>text.
       let parts = (case keep_if (\<lambda>t. t \<noteq> []) text of Some t \<Rightarrow> [text_part t] | None \<Rightarrow> [])
       in case Option.bind (btree_get obj ''tool_calls'') as_array of
            None \<Rightarrow> Inr (role_message ''assistant'' parts, names)
          | Some calls \<Rightarrow> and_then (cmd_calls parser calls names) (\<lambda>(called, names).
              Inr (role_message ''assistant'' (parts @ called), names)))"

definition cmd_tool :: "json btree \<Rightarrow> tool_names \<Rightarrow> string + json" where
  "cmd_tool obj names =
     and_then (cmd_string_field obj ''tool_call_id'' ''Command Code tool result'') (\<lambda>i.
     (case btree_get names i of
        None \<Rightarrow> Inl ''Command Code tool result has no preceding assistant tool-call name''
      | Some name \<Rightarrow>
          and_then (string_or_null obj ''content'') (\<lambda>text.
          and_then (string_or_absent obj ''details'') (\<lambda>dets.
            Inr (role_message ''tool'' [result_part i name
              (text @ (case dets of Some d \<Rightarrow> details_text d | None \<Rightarrow> []))
              (case Option.bind (btree_get obj ''is_error'') as_bool of Some b \<Rightarrow> b | None \<Rightarrow> False)])))))"

definition commandcode_message :: "(string \<Rightarrow> mini option) \<Rightarrow> json \<Rightarrow> tool_names \<Rightarrow> string + json \<times> tool_names" where
  "commandcode_message parser msg names =
     (case as_object msg of
        None \<Rightarrow> Inl ''Command Code context message must be an object''
      | Some obj \<Rightarrow>
          and_then (cmd_string_field obj ''role'' ''Command Code context message'') (\<lambda>role.
            if role = ''user'' then
              and_then (string_or_null obj ''content'') (\<lambda>text. Inr (role_message ''user'' [text_part text], names))
            else if role = ''assistant'' then cmd_assistant parser obj names
            else if role = ''tool'' then and_then (cmd_tool obj names) (\<lambda>m. Inr (m, names))
            else Inl ''Command Code context role is unsupported''))"

fun cmd_messages :: "(string \<Rightarrow> mini option) \<Rightarrow> json list \<Rightarrow> tool_names \<Rightarrow> string + json list" where
  "cmd_messages parser [] names = Inr []"
| "cmd_messages parser (m # ms) names =
     and_then (commandcode_message parser m names) (\<lambda>(m, names).
     and_then (cmd_messages parser ms names) (\<lambda>ms. Inr (m # ms)))"

definition commandcode_messages :: "(string \<Rightarrow> mini option) \<Rightarrow> string \<Rightarrow> string + json list" where
  "commandcode_messages parser ctxt =
     (case json_parse parser ctxt of
        Inl _ \<Rightarrow> Inl ''Command Code received invalid converted context''
      | Inr v \<Rightarrow> (case as_array v of
            None \<Rightarrow> Inl ''Command Code converted context must be an array''
          | Some ms \<Rightarrow> cmd_messages parser ms []))"

section \<open>What Command Code receives\<close>

definition sendable :: "(string \<Rightarrow> mini option) \<Rightarrow> agent_tool_call \<Rightarrow> bool" where
  "sendable parser c \<longleftrightarrow> tc_id c \<noteq> [] \<and> tc_name c \<noteq> [] \<and> tc_arguments c \<noteq> [] \<and>
     (case json_parse parser (tc_arguments c) of Inr v \<Rightarrow> is_object v | Inl _ \<Rightarrow> False)"

definition sent_call :: "(string \<Rightarrow> mini option) \<Rightarrow> agent_tool_call \<Rightarrow> json" where
  "sent_call parser c = call_part (tc_id c) (tc_name c) (case json_parse parser (tc_arguments c) of Inr v \<Rightarrow> v | Inl _ \<Rightarrow> JNull)"

fun sent_message :: "(string \<Rightarrow> mini option) \<Rightarrow> agent_message \<Rightarrow> json" where
  "sent_message parser (UserMessage i text) = role_message ''user'' [text_part text]"
| "sent_message parser (AssistantMessage i text calls reason err) =
     role_message ''assistant'' ((if text = [] then [] else [text_part text]) @ map (sent_call parser) calls)"
| "sent_message parser (ToolResultMessage i name r) =
     role_message ''tool'' [result_part (tool_call_id r) name
       (content r @ (case details r of Some d \<Rightarrow> details_text d | None \<Rightarrow> [])) (is_error r)]"

fun message_calls :: "agent_message \<Rightarrow> agent_tool_call list" where
  "message_calls (AssistantMessage i text calls reason err) = calls"
| "message_calls m = []"

definition names_of :: "agent_tool_call list \<Rightarrow> tool_names \<Rightarrow> tool_names" where
  "names_of calls names = fold (\<lambda>c. btree_insert (tc_id c) (tc_name c)) calls names"


lemma as_object_object [simp]: "as_object (json_object kvs) = Some (btree_collect kvs)"
  by (simp add: json_object_def)

lemma field_get: "distinct (map fst kvs) \<Longrightarrow> btree_get (btree_collect kvs) k = map_of kvs k"
  by (rule btree_collect_get)

lemma cmd_string_field_get:
  "btree_get obj key = Some (JString s) \<Longrightarrow>
     cmd_string_field obj key subject = (if s = [] then Inl (subject @ '' did not contain '' @ key) else Inr s)"
  by (simp add: cmd_string_field_def keep_if_def)

lemma cmd_call_openai:
  "cmd_call parser (openai_call c) =
     (if tc_id c = [] then Inl ''Command Code assistant tool call did not contain id''
      else if tc_name c = [] then Inl ''Command Code tool function did not contain name''
      else if tc_arguments c = [] then Inl ''Command Code tool function did not contain arguments''
      else case json_parse parser (tc_arguments c) of
          Inl _ \<Rightarrow> Inl ''Command Code tool call arguments must be serialized JSON''
        | Inr v \<Rightarrow> if \<not> is_object v then Inl ''Command Code tool call arguments must be a JSON object''
            else Inr (tc_id c, tc_name c, v))"
proof -
  let ?f = "json_object [(''name'', JString (tc_name c)), (''arguments'', JString (tc_arguments c))]"
  let ?kvs = "[(''id'', JString (tc_id c)), (''type'', JString ''function''), (''function'', ?f)]"
  have call: "btree_get (btree_collect ?kvs) ''id'' = Some (JString (tc_id c))"
      "btree_get (btree_collect ?kvs) ''function'' = Some ?f"
    by (subst field_get; simp)+
  have f: "btree_get (btree_collect [(''name'', JString (tc_name c)), (''arguments'', JString (tc_arguments c))]) ''name'' = Some (JString (tc_name c))"
      "btree_get (btree_collect [(''name'', JString (tc_name c)), (''arguments'', JString (tc_arguments c))]) ''arguments'' = Some (JString (tc_arguments c))"
    by (subst field_get; simp)+
  show ?thesis
    by (simp add: cmd_call_def openai_call_def cmd_string_field_get call f split: sum.split)
qed

lemma cmd_call_sent:
  "sendable parser c \<Longrightarrow> \<exists>v. cmd_call parser (openai_call c) = Inr (tc_id c, tc_name c, v) \<and> call_part (tc_id c) (tc_name c) v = sent_call parser c"
  by (auto simp: cmd_call_openai sendable_def sent_call_def split: sum.splits)

lemma cmd_call_refused: "cmd_call parser (openai_call c) = Inr x \<Longrightarrow> sendable parser c"
  by (auto simp: cmd_call_openai sendable_def split: sum.splits if_splits)

lemma cmd_calls_sent:
  "\<forall>c \<in> set calls. sendable parser c \<Longrightarrow>
     cmd_calls parser (map openai_call calls) names = Inr (map (sent_call parser) calls, names_of calls names)"
proof (induction calls arbitrary: names)
  case (Cons c calls)
  then show ?case using cmd_call_sent [of parser c] by (auto simp: names_of_def)
qed (simp add: names_of_def)

lemma cmd_calls_refused:
  "cmd_calls parser (map openai_call calls) names = Inr x \<Longrightarrow> \<forall>c \<in> set calls. sendable parser c"
proof (induction calls arbitrary: names x)
  case (Cons c calls)
  from Cons.prems obtain y z where "cmd_call parser (openai_call c) = Inr y" "cmd_calls parser (map openai_call calls) (btree_insert (fst y) (fst (snd y)) names) = Inr z"
    by (auto simp: and_then_Inr split: prod.splits)
  then show ?case using cmd_call_refused Cons.IH by auto
qed simp

definition assistant_fields :: "string \<Rightarrow> agent_tool_call list \<Rightarrow> (string \<times> json) list" where
  "assistant_fields text calls = [(''role'', JString ''assistant''), (''content'', if text = [] then JNull else JString text),
      (''tool_calls'', JArray (map openai_call calls))]"

lemma assistant_get:
  "btree_get (btree_collect (assistant_fields text calls)) ''role'' = Some (JString ''assistant'')"
  "btree_get (btree_collect (assistant_fields text calls)) ''content'' = Some (if text = [] then JNull else JString text)"
  "btree_get (btree_collect (assistant_fields text calls)) ''tool_calls'' = Some (JArray (map openai_call calls))"
  unfolding assistant_fields_def by (subst field_get; simp)+

lemma commandcode_assistant:
  "commandcode_message parser (openai_message (AssistantMessage i text calls reason err)) names =
     and_then (cmd_calls parser (map openai_call calls) names) (\<lambda>(parts, names).
       Inr (role_message ''assistant'' ((if text = [] then [] else [text_part text]) @ parts), names))"
proof -
  have o: "openai_message (AssistantMessage i text calls reason err) = json_object (assistant_fields text calls)"
    by (simp add: assistant_fields_def)
  show ?thesis unfolding o
    by (simp add: commandcode_message_def cmd_string_field_get assistant_get cmd_assistant_def string_or_absent_def keep_if_def)
qed

lemma commandcode_user:
  "commandcode_message parser (openai_message (UserMessage i text)) names = Inr (role_message ''user'' [text_part text], names)"
proof -
  let ?kvs = "[(''role'', JString ''user''), (''content'', JString text)]"
  have g: "btree_get (btree_collect ?kvs) ''role'' = Some (JString ''user'')"
    "btree_get (btree_collect ?kvs) ''content'' = Some (JString text)"
    by (subst field_get; simp)+
  show ?thesis by (simp add: commandcode_message_def cmd_string_field_get g string_or_null_def string_or_absent_def)
qed

lemma commandcode_tool:
  assumes "tool_call_id r \<noteq> []" and "btree_get names (tool_call_id r) = Some name"
  shows "commandcode_message parser (openai_message (ToolResultMessage i name r)) names =
    Inr (sent_message parser (ToolResultMessage i name r), names)"
proof -
  let ?t = "content r @ (case details r of Some d \<Rightarrow> details_text d | None \<Rightarrow> [])"
  let ?kvs = "[(''role'', JString ''tool''), (''tool_call_id'', JString (tool_call_id r)), (''content'', JString ?t),
    (''is_error'', JBool (is_error r))]"
  have g: "btree_get (btree_collect ?kvs) ''role'' = Some (JString ''tool'')"
    "btree_get (btree_collect ?kvs) ''tool_call_id'' = Some (JString (tool_call_id r))"
    "btree_get (btree_collect ?kvs) ''content'' = Some (JString ?t)"
    "btree_get (btree_collect ?kvs) ''is_error'' = Some (JBool (is_error r))"
    "btree_get (btree_collect ?kvs) ''details'' = None"
    by (subst field_get; simp)+
  show ?thesis using assms
    by (simp add: commandcode_message_def cmd_string_field_get g cmd_tool_def string_or_null_def string_or_absent_def)
qed

lemma names_of_get:
  assumes "btree_ok names" and "distinct (map tc_id calls)"
  shows "btree_ok (names_of calls names) \<and> btree_get (names_of calls names) i =
    (case map_of (map (\<lambda>c. (tc_id c, tc_name c)) calls) i of Some n \<Rightarrow> Some n | None \<Rightarrow> btree_get names i)"
  using assms
proof (induction calls arbitrary: names)
  case (Cons c calls)
  have "tc_id c \<notin> dom (map_of (map (\<lambda>c. (tc_id c, tc_name c)) calls))"
    using Cons.prems(2) by (auto simp: dom_map_of_conv_image_fst)
  then show ?case using Cons.IH [of "btree_insert (tc_id c) (tc_name c) names"] Cons.prems
    by (auto simp: names_of_def btree_ok_insert btree_get_insert domIff split: option.split)
qed (simp add: names_of_def)

text \<open>The names kept are those of the calls seen.\<close>

definition knows :: "tool_names \<Rightarrow> agent_message list \<Rightarrow> bool" where
  "knows names seen \<longleftrightarrow> btree_ok names \<and> (\<forall>(i, n) \<in> set (all_calls seen). btree_get names i = Some n)"

lemma cmd_messages_sent:
  assumes "distinct (map fst (all_calls (seen @ ms)))" and "answers_earlier (seen @ ms)" and "knows names seen"
    and "\<forall>m \<in> set (seen @ ms). \<forall>c \<in> set (message_calls m). sendable parser c"
  shows "cmd_messages parser (map openai_message ms) names = Inr (map (sent_message parser) ms)"
  using assms
proof (induction ms arbitrary: seen names)
  case (Cons m ms)
  have IH: "cmd_messages parser (map openai_message ms) names' = Inr (map (sent_message parser) ms)"
    if "knows names' (seen @ [m])" for names'
    using Cons.IH [of "seen @ [m]" names'] Cons.prems that by simp
  show ?case
  proof (cases m)
    case (UserMessage i t)
    have "knows names (seen @ [m])" using Cons.prems(3) UserMessage by (simp add: knows_def)
    from IH [OF this] show ?thesis using commandcode_user [of parser i t names] UserMessage by simp
  next
    case (AssistantMessage i t calls reason err)
    have d: "distinct (map tc_id calls)" "\<forall>(i, n) \<in> set (all_calls seen). i \<notin> tc_id ` set calls"
      using Cons.prems(1) AssistantMessage by (force simp: comp_def)+
    have "knows (names_of calls names) (seen @ [m])"
      unfolding knows_def
    proof (intro conjI ballI)
      show "btree_ok (names_of calls names)" using Cons.prems(3) d(1) names_of_get by (simp add: knows_def)
      fix p assume p: "p \<in> set (all_calls (seen @ [m]))"
      obtain i n where i: "p = (i, n)" by fastforce
      have "btree_ok names" and "(i, n) \<in> set (all_calls seen) \<Longrightarrow> btree_get names i = Some n"
        using Cons.prems(3) unfolding knows_def by fastforce+
      moreover have "(i, n) \<in> set (all_calls seen) \<Longrightarrow> i \<notin> set (map tc_id calls)" using d(2) by fastforce
      moreover have "(i, n) \<in> set (map (\<lambda>c. (tc_id c, tc_name c)) calls) \<Longrightarrow>
          map_of (map (\<lambda>c. (tc_id c, tc_name c)) calls) i = Some n"
        using d(1) by (intro map_of_is_SomeI) (simp_all add: comp_def)
      moreover have "i \<notin> set (map tc_id calls) \<Longrightarrow> map_of (map (\<lambda>c. (tc_id c, tc_name c)) calls) i = None"
        by (auto simp: map_of_eq_None_iff)
      moreover have "(i, n) \<in> set (all_calls seen) \<or> (i, n) \<in> set (map (\<lambda>c. (tc_id c, tc_name c)) calls)"
        using p i AssistantMessage by simp
      moreover note names_of_get [of names calls i, OF _ d(1)]
      ultimately have "btree_get (names_of calls names) i = Some n" by (elim disjE) (simp_all only: option.case simp_thms)
      then show "case p of (i, n) \<Rightarrow> btree_get (names_of calls names) i = Some n" using i by simp
    qed
    from IH [OF this] show ?thesis
      using cmd_calls_sent [of calls parser names] Cons.prems(4) AssistantMessage
      by (simp add: commandcode_assistant del: openai_message.simps)
  next
    case (ToolResultMessage i name r)
    have known: "(tool_call_id r, name) \<in> set (all_calls seen)"
      using Cons.prems(2) ToolResultMessage by (fastforce simp: answers_earlier_def dest: spec [of _ "length seen"])
    then obtain s where s: "s \<in> set seen" "(tool_call_id r, name) \<in> set (calls_of s)" by auto
    have "\<forall>c \<in> set (message_calls s). tc_id c \<noteq> []" using Cons.prems(4) s(1) unfolding sendable_def by auto
    with s(2) have "tool_call_id r \<noteq> []" by (cases s) auto
    moreover have "btree_get names (tool_call_id r) = Some name" using known Cons.prems(3) unfolding knows_def by blast
    moreover have "knows names (seen @ [m])" using Cons.prems(3) ToolResultMessage by (simp add: knows_def)
    ultimately show ?thesis using IH commandcode_tool [of r names name parser i] ToolResultMessage
      by (simp del: openai_message.simps sent_message.simps)
  qed
qed simp

lemma cmd_messages_refused:
  "cmd_messages parser (map openai_message ms) names = Inr rs \<Longrightarrow> \<forall>m \<in> set ms. \<forall>c \<in> set (message_calls m). sendable parser c"
proof (induction ms arbitrary: names rs)
  case (Cons m ms)
  then obtain r names' rs' where here: "commandcode_message parser (openai_message m) names = Inr (r, names')"
      and rest: "cmd_messages parser (map openai_message ms) names' = Inr rs'"
    by (auto simp: and_then_Inr)
  have "\<forall>c \<in> set (message_calls m). sendable parser c"
    using here cmd_calls_refused by (cases m) (auto simp: commandcode_assistant and_then_Inr simp del: openai_message.simps)
  then show ?case using Cons.IH [OF rest] by simp
qed simp

lemma json_object_ok: "\<forall>(k, v) \<in> set kvs. json_ok v \<Longrightarrow> json_ok (json_object kvs)"
  using btree_collect_entries [of kvs] by (auto simp: json_object_def btree_ok_collect)

lemma openai_message_ok: "json_ok (openai_message m)"
  by (cases m) (auto intro!: json_object_ok simp: openai_call_def)

lemma json_object_finite: "\<forall>(k, v) \<in> set kvs. json_finite v \<Longrightarrow> json_finite (json_object kvs)"
  using btree_collect_entries [of kvs] by (auto simp: json_object_def)

lemma openai_message_finite: "json_finite (openai_message m)"
  by (cases m) (auto intro!: json_object_finite simp: openai_call_def)

lemma context_parsed:
  assumes "to_miniserde (JArray (map openai_message ms)) = Inr w" and "parser (printer w) = Some w"
  shows "convert_to_llm printer ms = Inr (printer w) \<and> json_parse parser (printer w) = Inr (JArray (map openai_message ms))"
  using to_miniserde_ok(1) [OF assms(1)] assms openai_message_ok
  by (auto simp: convert_to_llm_def to_json_string_def json_parse_def)

text \<open>C19: a valid conversation reaches Command Code message for message and under the names of its calls exactly
  when every call in it has a name and arguments that are a JSON object; one call without them and no
  request for the conversation can be built.\<close>

theorem commandcode_conversion:
  assumes "validate_messages ms = Inr ()"
    and "to_miniserde (JArray (map openai_message ms)) = Inr w" and "parser (printer w) = Some w"
  shows "convert_to_llm printer ms = Inr (printer w) \<and>
    (if \<forall>m \<in> set ms. \<forall>c \<in> set (message_calls m). sendable parser c
     then commandcode_messages parser (printer w) = Inr (map (sent_message parser) ms)
     else \<exists>e. commandcode_messages parser (printer w) = Inl e)"
proof -
  let ?sendable = "\<forall>m \<in> set ms. \<forall>c \<in> set (message_calls m). sendable parser c"
  note read = context_parsed [of ms w parser printer, OF assms(2,3)]
  have body: "commandcode_messages parser (printer w) = cmd_messages parser (map openai_message ms) []"
    using read by (simp add: commandcode_messages_def)
  have ok: "conversation_ok ms" using assms(1) by (simp add: validate_messages_iff)
  have "knows [] []" by (simp add: knows_def btree_ok_def)
  then have "?sendable \<Longrightarrow> commandcode_messages parser (printer w) = Inr (map (sent_message parser) ms)"
    using cmd_messages_sent [of "[]" ms "[]" parser] ok unfolding body by (simp add: conversation_ok_def)
  moreover have "\<not> ?sendable \<Longrightarrow> \<exists>e. commandcode_messages parser (printer w) = Inl e"
    using cmd_messages_refused [of parser ms "[]"] unfolding body
    by (cases "cmd_messages parser (map openai_message ms) []") auto
  ultimately show ?thesis using read by presburger
qed

text \<open>OpenRouter receives the same messages after the system message.\<close>

lemma put_get: "json_get (put key v (JObject es)) k = (if btree_ok es then if k = key then Some v else btree_get es k
    else json_get (put key v (JObject es)) k)"
  by (simp add: put_def btree_get_insert)

lemma put_object: "\<exists>es. put key v (JObject fs) = JObject es \<and> (btree_ok fs \<longrightarrow> btree_ok es)"
  by (simp add: put_def btree_ok_insert)

lemma put_keeps:
  assumes "btree_ok es" and "k \<noteq> key"
  shows "\<exists>fs. put key v (JObject es) = JObject fs \<and> btree_ok fs \<and> btree_get fs k = btree_get es k"
  using assms by (simp add: put_def btree_ok_insert btree_get_insert)

definition carries :: "json \<Rightarrow> json list \<Rightarrow> bool" where
  "carries j ms \<longleftrightarrow> (\<exists>es. j = JObject es \<and> btree_ok es \<and> btree_get es ''messages'' = Some (JArray ms))"

lemma carries_put: "carries j ms \<Longrightarrow> key \<noteq> ''messages'' \<Longrightarrow> carries (put key v j) ms"
  unfolding carries_def using put_keeps [of _ "''messages''" key] by metis

lemma openrouter_body_carries: "carries (openrouter_body cfg req ms) (system_message (pr_prompt req) # ms)"
proof -
  have "carries (json_object [(''model'', JString (oc_model cfg)), (''messages'', JArray (system_message (pr_prompt req) # ms)),
      (''temperature'', JNumber (Signed 0)), (''stream'', JBool True), (''stream_options'', json_object [(''include_usage'', JBool True)])])
      (system_message (pr_prompt req) # ms)"
    unfolding carries_def object_fields
    by (rule exI, rule conjI, rule refl, rule conjI, rule btree_ok_collect, subst field_get) simp_all
  then show ?thesis
    by (auto simp: openrouter_body_def Let_def intro!: carries_put split: option.split)
qed

lemma openrouter_sends_conversation:
  assumes "to_miniserde (JArray (map openai_message ms)) = Inr w" and "parser (printer w) = Some w"
    and "pr_context req = printer w" and "openrouter_payload parser printer cfg req = Inr text"
  shows "\<exists>body. to_json_string printer body = Inr text \<and> carries body (system_message (pr_prompt req) # map openai_message ms)"
  using context_parsed [of ms w parser printer, OF assms(1,2)] assms(3,4) openrouter_body_carries [of cfg req "map openai_message ms"]
  by (auto simp: openrouter_payload_def split: sum.splits)

section \<open>A sample conversation\<close>

definition listing_call :: agent_tool_call where
  "listing_call = \<lparr>tc_id = ''a'', tc_name = ''ls'', tc_arguments = ''{}''\<rparr>"

definition sample_conversation :: "agent_message list" where
  "sample_conversation = [UserMessage 1 ''go'', AssistantMessage 2 [] [listing_call] (Some ToolUse) None,
     ToolResultMessage 3 ''ls'' \<lparr>tool_call_id = ''a'', content = ''x'', details = None, result_usage = None,
       added_tool_names = [], terminate = False, is_error = False, failure = None\<rparr>]"

definition sample_tree :: mini where
  "sample_tree = (case to_miniserde (JArray (map openai_message sample_conversation)) of Inr w \<Rightarrow> w | Inl _ \<Rightarrow> MNull)"

definition sample_reader :: "string \<Rightarrow> mini option" where
  "sample_reader s = (if s = ''{}'' then Some (MObject []) else if s = ''c'' then Some sample_tree else None)"

theorem commandcode_conversion_witness:
  "commandcode_messages sample_reader ''c'' = Inr (map (sent_message sample_reader) sample_conversation)"
proof -
  have finite: "json_finite (JArray (map openai_message sample_conversation))"
    using openai_message_finite by simp
  then have tree: "to_miniserde (JArray (map openai_message sample_conversation)) = Inr sample_tree"
    using to_miniserde_finite(1) unfolding sample_tree_def by fastforce
  have valid: "validate_messages sample_conversation = Inr ()"
    by (simp add: validate_messages_def sample_conversation_def listing_call_def check_start_def)
  have "\<forall>m \<in> set sample_conversation. \<forall>c \<in> set (message_calls m). sendable sample_reader c"
    by (simp add: sample_conversation_def listing_call_def sendable_def json_parse_def sample_reader_def btree_collect_def)
  then show ?thesis
    using commandcode_conversion [OF valid tree, of sample_reader "\<lambda>w. ''c''"] by (simp add: sample_reader_def)
qed

end
