(* ===== verification/Provider_Config.thy ===== *)
theory Provider_Config
  imports Payloads
begin

text \<open>
  The explicit configurations of the three adapters and the checks that admit them: \<open>config.rs\<close> of
  \<open>openrouter\<close>, \<open>local\<close> and \<open>commandcode\<close> under \<open>tea-core/src/provider\<close>, with the texts of their errors, and the
  model check each adapter makes before it sends a request. A Rust \<open>String\<close> is its UTF-8 bytes.
\<close>

section \<open>OpenRouter\<close>

datatype openrouter_config_error =
  OrEmptyField string
| OrZeroMaxTokens
| OrZeroRequestTimeout
| OrZeroStallTimeout
| OrApiKeyContainsLineBreak

fun openrouter_error_text :: "openrouter_config_error \<Rightarrow> string" where
  "openrouter_error_text (OrEmptyField lbl) = ''OpenRouter '' @ lbl @ '' must not be empty''"
| "openrouter_error_text OrZeroMaxTokens = ''OpenRouter max tokens must be greater than zero''"
| "openrouter_error_text OrZeroRequestTimeout = ''OpenRouter request timeout must be greater than zero''"
| "openrouter_error_text OrZeroStallTimeout = ''OpenRouter stall timeout must be greater than zero''"
| "openrouter_error_text OrApiKeyContainsLineBreak = ''OpenRouter API key must not contain line breaks''"

definition seconds :: "nat \<Rightarrow> duration" where
  "seconds n = n * 1000000000"

definition openrouter_config_new :: "string \<Rightarrow> string \<Rightarrow> openrouter_config" where
  "openrouter_config_new api_key model = \<lparr>oc_api_key = api_key, oc_model = model, oc_max_tokens = None,
     oc_request_timeout = seconds 300, oc_stall_timeout = seconds 60, oc_retry = standard\<rparr>"

definition line_break :: "char \<Rightarrow> bool" where
  "line_break c \<longleftrightarrow> octet c = 10 \<or> octet c = 13"

definition openrouter_validate :: "openrouter_config \<Rightarrow> openrouter_config_error + unit" where
  "openrouter_validate cfg =
     (if trim (oc_api_key cfg) = [] then Inl (OrEmptyField ''API key'')
      else if trim (oc_model cfg) = [] then Inl (OrEmptyField ''model'')
      else if oc_max_tokens cfg = Some 0 then Inl OrZeroMaxTokens
      else if oc_request_timeout cfg = 0 then Inl OrZeroRequestTimeout
      else if oc_stall_timeout cfg = 0 then Inl OrZeroStallTimeout
      else if list_ex line_break (oc_api_key cfg) then Inl OrApiKeyContainsLineBreak
      else Inr ())"

definition openrouter_try_new :: "string \<Rightarrow> string \<Rightarrow> openrouter_config_error + openrouter_config" where
  "openrouter_try_new api_key model =
     (let cfg = openrouter_config_new api_key model in and_then (openrouter_validate cfg) (\<lambda>_. Inr cfg))"

definition openrouter_validate_model :: "openrouter_config \<Rightarrow> payload_request \<Rightarrow> string + unit" where
  "openrouter_validate_model cfg req =
     (case openrouter_validate cfg of
        Inl e \<Rightarrow> Inl (openrouter_error_text e)
      | Inr _ \<Rightarrow> (case pr_model req of
            None \<Rightarrow> Inl ''OpenRouter request omitted its exact model descriptor''
          | Some model \<Rightarrow>
              if md_provider model \<noteq> ''openrouter'' \<or> md_model model \<noteq> oc_model cfg
              then Inl (''OpenRouter configuration does not match requested model: expected openrouter/'' @ oc_model cfg @
                '', got '' @ md_provider model @ ''/'' @ md_model model)
              else Inr ()))"

section \<open>Local\<close>

datatype local_config_error =
  LcEmptyField string
| LcInvalidBaseUrl
| LcZeroMaxTokens
| LcInvalidSampling string
| LcZeroRequestTimeout

definition f64_one :: f64 where
  "f64_one = Finite False 1 0"

definition local_config_new :: "string \<Rightarrow> string \<Rightarrow> local_config" where
  "local_config_new base_url model = \<lparr>lc_base_url = base_url, lc_model = model, lc_max_tokens = 4096,
     lc_temperature = f64_one, lc_top_p = f64_one, lc_min_p = f64_zero, lc_enable_thinking = True,
     lc_request_timeout = seconds 300\<rparr>"

definition laguna_xs_2_1 :: "string \<Rightarrow> local_config" where
  "laguna_xs_2_1 base_url = local_config_new base_url ''Laguna-XS-2.1-5bit''"

fun check_sampling :: "(string \<times> f64) list \<Rightarrow> local_config_error + unit" where
  "check_sampling [] = Inr ()"
| "check_sampling ((lbl, x) # rest) =
     (if \<not> f64_finite x \<or> f64_lt x f64_zero then Inl (LcInvalidSampling lbl) else check_sampling rest)"

definition local_validate :: "local_config \<Rightarrow> local_config_error + unit" where
  "local_validate cfg =
     (if trim (lc_base_url cfg) = [] then Inl (LcEmptyField ''base URL'')
      else if \<not> (prefix ''http://'' (lc_base_url cfg) \<or> prefix ''https://'' (lc_base_url cfg)) then Inl LcInvalidBaseUrl
      else if trim (lc_model cfg) = [] then Inl (LcEmptyField ''model'')
      else if lc_max_tokens cfg = 0 then Inl LcZeroMaxTokens
      else and_then (check_sampling [(''temperature'', lc_temperature cfg), (''top_p'', lc_top_p cfg), (''min_p'', lc_min_p cfg)])
        (\<lambda>_. if lc_request_timeout cfg = 0 then Inl LcZeroRequestTimeout else Inr ()))"

definition local_try_new :: "string \<Rightarrow> string \<Rightarrow> local_config_error + local_config" where
  "local_try_new base_url model =
     (let cfg = local_config_new base_url model in and_then (local_validate cfg) (\<lambda>_. Inr cfg))"

definition local_validate_model :: "local_config \<Rightarrow> payload_request \<Rightarrow> string + unit" where
  "local_validate_model cfg req =
     (case pr_model req of
        None \<Rightarrow> Inl ''local request omitted its model descriptor''
      | Some model \<Rightarrow>
          if md_provider model \<noteq> ''local'' \<or> md_model model \<noteq> lc_model cfg
          then Inl (''local provider received model '' @ md_provider model @ ''/'' @ md_model model @
            '' but serves local/'' @ lc_model cfg)
          else Inr ())"

section \<open>Command Code\<close>

datatype cmd_config_error = CmdEmptyField string | CmdZeroMaxTokens | CmdNonFiniteTemperature | CmdInvalidThreadId

datatype permission_mode = Standard | AutoAccept | Plan

fun permission_text :: "permission_mode \<Rightarrow> string" where
  "permission_text Standard = ''standard''"
| "permission_text AutoAccept = ''auto-accept''"
| "permission_text Plan = ''plan''"

record cmd_config =
  cm_api_key :: string
  cm_model :: string
  cm_working_directory :: string
  cm_date :: string
  cm_environment :: string
  cm_max_tokens :: u64
  cm_permission_mode :: permission_mode
  cm_thread_id :: "string option"
  cm_mode :: string
  cm_temperature :: "f64 option"
  cm_zero_data_retention :: bool
  cm_project_slug :: "string option"
  cm_taste_learning :: bool
  cm_retry :: retry_policy

definition nonempty :: "string \<Rightarrow> string \<Rightarrow> cmd_config_error + string" where
  "nonempty v lbl = (if trim v = [] then Inl (CmdEmptyField lbl) else Inr v)"

definition hex_digit :: "char \<Rightarrow> bool" where
  "hex_digit c \<longleftrightarrow> (48 \<le> octet c \<and> octet c \<le> 57) \<or> (65 \<le> octet c \<and> octet c \<le> 70) \<or> (97 \<le> octet c \<and> octet c \<le> 102)"

definition is_canonical_uuid :: "string \<Rightarrow> bool" where
  "is_canonical_uuid v \<longleftrightarrow> length v = 36 \<and> v ! 8 = CHR ''-'' \<and> v ! 13 = CHR ''-'' \<and> v ! 18 = CHR ''-'' \<and> v ! 23 = CHR ''-'' \<and>
     list_all (\<lambda>(i, c). i \<in> {8, 13, 18, 23} \<or> hex_digit c) (List.enumerate 0 v)"

text \<open>The host context and \<open>CommandCodeConfig::new\<close>.\<close>

definition cmd_config_new :: "string \<Rightarrow> string \<Rightarrow> string \<times> string \<times> string \<Rightarrow> cmd_config_error + cmd_config" where
  "cmd_config_new api_key model host = (case host of (directory, date, environment) \<Rightarrow>
     and_then (nonempty api_key ''API key'') (\<lambda>api_key.
     and_then (nonempty model ''model'') (\<lambda>model.
       Inr \<lparr>cm_api_key = api_key, cm_model = model, cm_working_directory = directory, cm_date = date,
         cm_environment = environment, cm_max_tokens = 64000, cm_permission_mode = Standard, cm_thread_id = None,
         cm_mode = ''agent'', cm_temperature = None, cm_zero_data_retention = False, cm_project_slug = None,
         cm_taste_learning = True, cm_retry = standard\<rparr>)))"

definition cmd_host_context :: "string \<Rightarrow> string \<Rightarrow> string \<Rightarrow> cmd_config_error + string \<times> string \<times> string" where
  "cmd_host_context directory date environment =
     and_then (nonempty directory ''working directory'') (\<lambda>directory.
     and_then (nonempty date ''date'') (\<lambda>date.
     and_then (nonempty environment ''environment'') (\<lambda>environment. Inr (directory, date, environment))))"

definition with_max_tokens :: "u64 \<Rightarrow> cmd_config \<Rightarrow> cmd_config_error + cmd_config" where
  "with_max_tokens n cfg = (if n = 0 then Inl CmdZeroMaxTokens else Inr (cfg\<lparr>cm_max_tokens := n\<rparr>))"

definition with_thread_id :: "string \<Rightarrow> cmd_config \<Rightarrow> cmd_config_error + cmd_config" where
  "with_thread_id i cfg = and_then (nonempty i ''thread ID'') (\<lambda>i.
     if \<not> is_canonical_uuid i then Inl CmdInvalidThreadId else Inr (cfg\<lparr>cm_thread_id := Some i\<rparr>))"

definition with_mode :: "string \<Rightarrow> cmd_config \<Rightarrow> cmd_config_error + cmd_config" where
  "with_mode mode cfg = and_then (nonempty mode ''mode'') (\<lambda>mode. Inr (cfg\<lparr>cm_mode := mode\<rparr>))"

definition with_temperature :: "f64 \<Rightarrow> cmd_config \<Rightarrow> cmd_config_error + cmd_config" where
  "with_temperature x cfg = (if \<not> f64_finite x then Inl CmdNonFiniteTemperature else Inr (cfg\<lparr>cm_temperature := Some x\<rparr>))"

definition with_project_slug :: "string \<Rightarrow> cmd_config \<Rightarrow> cmd_config_error + cmd_config" where
  "with_project_slug slug cfg = and_then (nonempty slug ''project slug'') (\<lambda>slug. Inr (cfg\<lparr>cm_project_slug := Some slug\<rparr>))"

text \<open>The last component of the host's directory.\<close>

definition separator :: "char \<Rightarrow> bool" where
  "separator c \<longleftrightarrow> c = CHR ''/'' \<or> octet c = 92"

definition project_slug_from_working_directory :: "string \<Rightarrow> string" where
  "project_slug_from_working_directory directory =
     (let trimmed = rev (dropWhile separator (rev directory));
          component = rev (takeWhile (\<lambda>c. \<not> separator c) (rev trimmed))
      in if component = [] then ''project'' else component)"

section \<open>What the builders keep\<close>

definition cmd_config_ok :: "cmd_config \<Rightarrow> bool" where
  "cmd_config_ok cfg \<longleftrightarrow> trim (cm_api_key cfg) \<noteq> [] \<and> trim (cm_model cfg) \<noteq> [] \<and> trim (cm_mode cfg) \<noteq> [] \<and> cm_max_tokens cfg \<noteq> 0 \<and>
     (\<forall>x \<in> set_option (cm_temperature cfg). f64_finite x) \<and> (\<forall>i \<in> set_option (cm_thread_id cfg). is_canonical_uuid i) \<and>
     (\<forall>s \<in> set_option (cm_project_slug cfg). trim s \<noteq> [])"

lemma nonempty_Inr: "nonempty v lbl = Inr w \<longleftrightarrow> w = v \<and> trim v \<noteq> []"
  by (auto simp: nonempty_def)

lemma trim_agent: "trim ''agent'' = ''agent''"
  by (rule trim_plain) (simp_all add: graphic_def octet_def)

lemma cmd_config_new_ok: "cmd_config_new api_key model host = Inr cfg \<Longrightarrow> cmd_config_ok cfg"
  by (auto simp: cmd_config_new_def and_then_Inr nonempty_Inr cmd_config_ok_def trim_agent split: prod.splits)

lemma cmd_builders_ok:
  assumes "cmd_config_ok cfg"
  shows "with_max_tokens n cfg = Inr cfg' \<Longrightarrow> cmd_config_ok cfg'"
    and "with_thread_id i cfg = Inr cfg' \<Longrightarrow> cmd_config_ok cfg'"
    and "with_mode mode cfg = Inr cfg' \<Longrightarrow> cmd_config_ok cfg'"
    and "with_temperature x cfg = Inr cfg' \<Longrightarrow> cmd_config_ok cfg'"
    and "with_project_slug slug cfg = Inr cfg' \<Longrightarrow> cmd_config_ok cfg'"
  using assms
  by (auto simp: cmd_config_ok_def with_max_tokens_def with_thread_id_def with_mode_def with_temperature_def with_project_slug_def
    and_then_Inr nonempty_Inr split: if_splits)

lemma adapter_float_finite: "f64_finite x \<Longrightarrow> adapter_float x = Some (JNumber (Float x))"
  by (simp add: adapter_float_def json_number_new.simps)

lemma local_body_built: "local_validate cfg = Inr () \<Longrightarrow> local_body cfg req ms \<noteq> None"
  by (auto simp: local_validate_def local_body_def and_then_Inr adapter_float_finite split: if_splits)

end
