(* ===== verification/Provider_Reports.thy ===== *)
theory Provider_Reports
  imports Live_Streams Conversation Edit_Tool
begin

text \<open>
  What the reports of the OpenRouter adapter reveal, and where its decoder meets the rest of the kernel:
  call IDs it makes up and the check of conversations. A sample response is decoded for the witnesses.
\<close>

section \<open>Redaction\<close>

lemma sublist_split:
  assumes "x \<notin> set key"
  shows "sublist key (u @ x # v) \<longleftrightarrow> sublist key u \<or> sublist key v"
proof
  assume "sublist key (u @ x # v)"
  then obtain a b where eq: "u @ x # v = a @ key @ b" by (auto simp: sublist_def)
  then consider ws where "u = a @ ws" "ws @ x # v = key @ b" | ws where "u @ ws = a" "x # v = ws @ key @ b"
    by (auto simp: append_eq_append_conv2)
  then show "sublist key u \<or> sublist key v"
  proof cases
    case (1 ws)
    then consider ys where "ws = key @ ys" | ys where "ws @ ys = key" "x # v = ys @ b" by (auto simp: append_eq_append_conv2)
    then show ?thesis
    proof cases
      case (1 ys)
      then show ?thesis using \<open>u = a @ ws\<close> by (auto simp: sublist_def)
    next
      case (2 ys)
      then have "ys = []" using assms by (cases ys) auto
      then have "u = a @ key @ []" using 2 \<open>u = a @ ws\<close> by simp
      then show ?thesis unfolding sublist_def by blast
    qed
  next
    case (2 ws)
    show ?thesis
    proof (cases ws)
      case Nil
      then have "key = []" using 2 assms by (cases key) auto
      then show ?thesis by simp
    next
      case (Cons y ys)
      then show ?thesis using 2 by (auto simp: sublist_def)
    qed
  qed
next
  assume "sublist key u \<or> sublist key v"
  then show "sublist key (u @ x # v)"
    by (auto simp: sublist_append sublist_Cons_right)
qed

lemma sublist_Cons_split: "x \<notin> set key \<Longrightarrow> key \<noteq> [] \<Longrightarrow> sublist key (x # v) \<longleftrightarrow> sublist key v"
  using sublist_split [of x key "[]" v] by simp

lemma prefix_replaced:
  "hd new \<notin> set p \<Longrightarrow> new \<noteq> [] \<Longrightarrow> prefix p (replace_text key new s) \<Longrightarrow> prefix p s"
proof (induction s arbitrary: p)
  case (Cons c t)
  show ?case
  proof (cases "key \<noteq> [] \<and> prefix key (c # t)")
    case True
    then show ?thesis using Cons.prems by (subst (asm) replace_text.simps) (cases p; cases new; auto)
  next
    case False
    then have "replace_text key new (c # t) = c # replace_text key new t" by (subst replace_text.simps) auto
    then show ?thesis using Cons by (cases p) auto
  qed
qed (simp add: replace_text.simps)

lemma replaced_free:
  assumes "key \<noteq> []" "CHR ''['' \<notin> set key" "CHR '']'' \<notin> set key" "\<not> sublist key ''redacted''"
  shows "\<not> sublist key (replace_text key ''[redacted]'' s)"
proof (induction s rule: length_induct)
  case (1 s)
  show ?case
  proof (cases s)
    case Nil
    then show ?thesis using assms(1) by (simp add: replace_text.simps)
  next
    case (Cons c t)
    show ?thesis
    proof (cases "prefix key s")
      case True
      let ?rest = "replace_text key ''[redacted]'' (drop (length key) s)"
      have "replace_text key ''[redacted]'' s = CHR ''['' # ''redacted'' @ CHR '']'' # ?rest"
        using True assms(1) Cons by (subst replace_text.simps) simp
      moreover have "\<not> sublist key ?rest" using 1 assms(1) Cons by simp
      moreover have "sublist key (CHR ''['' # ''redacted'' @ CHR '']'' # ?rest) \<longleftrightarrow> sublist key (''redacted'' @ CHR '']'' # ?rest)"
        by (rule sublist_Cons_split [OF assms(2,1)])
      moreover have "sublist key (''redacted'' @ CHR '']'' # ?rest) \<longleftrightarrow> sublist key ''redacted'' \<or> sublist key ?rest"
        by (rule sublist_split [OF assms(3)])
      ultimately show ?thesis using assms(4) by metis
    next
      case False
      then have step: "replace_text key ''[redacted]'' s = c # replace_text key ''[redacted]'' t"
        using Cons by (subst replace_text.simps) simp
      have "\<not> prefix key (c # replace_text key ''[redacted]'' t)"
      proof
        assume "prefix key (c # replace_text key ''[redacted]'' t)"
        then obtain k where k: "key = c # k" "prefix k (replace_text key ''[redacted]'' t)" using assms(1) by (cases key) auto
        then have "prefix k t" using prefix_replaced [of "''[redacted]''" k key t] assms(2) by simp
        then show False using False Cons k(1) by simp
      qed
      moreover have "\<not> sublist key (replace_text key ''[redacted]'' t)" using 1 Cons by simp
      ultimately show ?thesis unfolding step by (simp add: sublist_Cons_right)
    qed
  qed
qed

lemma prefix_blanked: "CHR '' '' \<notin> set p \<Longrightarrow> prefix p (blank_controls s) \<Longrightarrow> prefix p s"
  by (induction s arbitrary: p rule: blank_controls.induct) (auto simp: prefix_Cons split: if_splits)

lemma sublist_blanked:
  assumes "CHR '' '' \<notin> set key" "key \<noteq> []"
  shows "sublist key (blank_controls s) \<Longrightarrow> sublist key s"
proof (induction s rule: blank_controls.induct)
  case (3 c d s)
  show ?case
  proof (cases "octet c = 194 \<and> 128 \<le> octet d \<and> octet d < 160")
    case True
    then have "sublist key (blank_controls s)" using 3(3) assms by (simp add: sublist_Cons_split)
    then have "sublist key s" using 3(1) [OF True] by blast
    then show ?thesis by (simp add: sublist_Cons_right)
  next
    case False
    let ?e = "if plain_control c then CHR '' '' else c"
    have "prefix key (?e # blank_controls (d # s)) \<or> sublist key (blank_controls (d # s))"
      using 3(3) False by (simp add: sublist_Cons_right split: if_splits)
    then show ?thesis
    proof
      assume here: "prefix key (?e # blank_controls (d # s))"
      then obtain k where k: "key = ?e # k" "prefix k (blank_controls (d # s))" using assms(2) by (cases key) auto
      then have "?e = c" using assms(1) by (auto split: if_splits)
      moreover have "prefix k (d # s)" using k assms(1) prefix_blanked by (metis list.set_intros(2))
      ultimately have "prefix key (c # d # s)" using k(1) by simp
      then show ?thesis by (rule prefix_imp_sublist)
    next
      assume "sublist key (blank_controls (d # s))"
      then have "sublist key (d # s)" using 3(2) [OF False] by blast
      then show ?thesis by (simp add: sublist_Cons_right)
    qed
  qed
next
  case (2 c)
  then show ?case using assms by (cases "plain_control c") (auto simp: sublist_Cons_split)
qed (use assms in simp)

lemma trim_left_suffix: "suffix (trim_left s) s"
proof (induction s rule: trim_left.induct)
  case (1 s)
  show ?case
  proof (cases "find (\<lambda>w. prefix w s) white_space")
    case (Some w)
    then show ?thesis using 1 [OF Some] suffix_drop suffix_order.trans by (subst trim_left.simps) fastforce
  qed (subst trim_left.simps, simp)
qed

lemma trim_right_prefix: "prefix (trim_right s) s"
proof (induction s rule: trim_right.induct)
  case (1 s)
  show ?case
  proof (cases "find (\<lambda>w. suffix w s) white_space")
    case (Some w)
    then show ?thesis using 1 [OF Some] take_is_prefix prefix_order.trans by (subst trim_right.simps) fastforce
  qed (subst trim_right.simps, simp)
qed

lemma trim_sublist: "sublist (trim s) s"
  unfolding trim_def
  using trim_left_suffix [of s] trim_right_prefix [of "trim_left s"] sublist_order.order.trans prefix_imp_sublist suffix_imp_sublist by blast

text \<open>A key as providers issue them: graphic characters, and neither brackets nor a part of the words a report adds.\<close>

definition plain_key :: "string \<Rightarrow> bool" where
  "plain_key key \<longleftrightarrow> key \<noteq> [] \<and> list_all graphic key \<and> CHR ''['' \<notin> set key \<and> CHR '']'' \<notin> set key \<and>
     \<not> sublist key ''redacted'' \<and> \<not> sublist key ''<empty>''"

lemma plain_key_space: "plain_key key \<Longrightarrow> CHR '' '' \<notin> set key"
  by (auto simp: plain_key_def list_all_iff graphic_def octet_def)


text \<open>But the cut at 512 bytes comes first, so a key that straddles it is not found, and its start is reported.\<close>

lemma replaced_same: "\<not> sublist key s \<Longrightarrow> replace_text key new s = s"
proof (induction s)
  case (Cons c t)
  then have "\<not> prefix key (c # t)" using prefix_imp_sublist by blast
  moreover have "\<not> sublist key t" using Cons.prems by (simp add: sublist_Cons_right)
  ultimately show ?case using Cons.IH by (subst replace_text.simps) simp
qed (simp add: replace_text.simps)

lemma blank_graphic: "list_all graphic s \<Longrightarrow> blank_controls s = s"
  by (induction s rule: blank_controls.induct) (auto simp: graphic_def plain_control_def)

lemma report_leaks_key_start:
  "response_body_prefix (replicate 509 CHR ''x'' @ ''sk-secret'') ''sk-secret'' = replicate 509 CHR ''x'' @ ''sk-''"
proof -
  let ?s = "replicate 509 CHR ''x'' @ ''sk-''"
  have taken: "take 512 (replicate 509 CHR ''x'' @ ''sk-secret'') = ?s" by simp
  have "list_all graphic ?s" by (simp add: graphic_def octet_def list_all_iff)
  then have blank: "blank_controls ?s = ?s" and "\<forall>c \<in> set ?s. octet c < 128"
    by (simp_all only: blank_graphic) (auto simp: graphic_def list_all_iff)
  then have lossy: "from_utf8_lossy ?s = ?s" by (intro lossy_valid ascii_utf8)
  have "\<not> sublist ''sk-secret'' ?s"
  proof
    assume "sublist ''sk-secret'' ?s"
    then have "CHR ''e'' \<in> set ?s" using set_mono_sublist by force
    then show False by simp
  qed
  then have "replace_text ''sk-secret'' ''[redacted]'' ?s = ?s" by (rule replaced_same)
  moreover have "trim ?s = ?s" by (rule trim_plain) (simp_all add: graphic_def octet_def)
  moreover have "?s \<noteq> []" "''sk-secret'' \<noteq> []" by simp_all
  ultimately show ?thesis unfolding response_body_prefix_def taken lossy Let_def by (simp only: if_True blank if_False refl not_False_eq_True)
qed


section \<open>Made-up call IDs\<close>

lemma made_up_id:
  assumes "settle_calls label unnamed omitted i (c # cs) = Inr (ToolCallEvent x # vs)" "keep_if (\<lambda>i. i \<noteq> []) (stc_id c) = None"
  shows "tc_id x = label @ decimal_text i"
  using assms by (auto simp: Let_def tool_call_id_new_def split: option.splits sum.splits if_splits)

text \<open>A call without an ID gets the ID of its place in the response, so two responses whose first call
  has none give the same ID, and no conversation that holds both calls is valid.\<close>

theorem made_up_ids_collide:
  assumes "settle_calls label unnamed omitted 0 (c # cs) = Inr (ToolCallEvent x # vs)" "keep_if (\<lambda>i. i \<noteq> []) (stc_id c) = None"
    and "settle_calls label unnamed omitted 0 (d # ds) = Inr (ToolCallEvent y # ws)" "keep_if (\<lambda>i. i \<noteq> []) (stc_id d) = None"
  shows "validate_messages (before @ AssistantMessage i t (x # xs) r e # between @
    AssistantMessage j u (y # ys) q f # later) \<noteq> Inr ()"
proof -
  have "tc_id x = tc_id y" using made_up_id [OF assms(1,2)] made_up_id [OF assms(3,4)] by simp
  then have "\<not> distinct (map fst (all_calls (before @ AssistantMessage i t (x # xs) r e # between @
      AssistantMessage j u (y # ys) q f # later)))" by simp
  then show ?thesis unfolding validate_messages_iff conversation_ok_def by blast
qed

theorem made_up_ids_collide_witness:
  "let c = \<lparr>stc_id = None, stc_name = Some ''ls'', stc_arguments = ''{}''\<rparr>;
       x = \<lparr>tc_id = ''openrouter-call-0'', tc_name = ''ls'', tc_arguments = ''{}''\<rparr>
   in settle_calls ''openrouter-call-'' [] [] 0 [c] = Inr [ToolCallEvent x] \<and>
      validate_messages [UserMessage 1 ''go'', AssistantMessage 2 [] [x] (Some ToolUse) None,
        AssistantMessage 3 [] [x] (Some ToolUse) None] \<noteq> Inr ()"
proof -
  let ?c = "\<lparr>stc_id = None, stc_name = Some ''ls'', stc_arguments = ''{}''\<rparr>"
  let ?x = "\<lparr>tc_id = ''openrouter-call-0'', tc_name = ''ls'', tc_arguments = ''{}''\<rparr>"
  have settled: "settle_calls ''openrouter-call-'' [] [] 0 [?c] = Inr [ToolCallEvent ?x]"
    by (simp add: keep_if_def tool_call_id_new_def decimal_text.simps digit_char_def char_of_eq_iff)
  have unnamed: "keep_if (\<lambda>i. i \<noteq> []) (stc_id ?c) = None" by (simp add: keep_if_def)
  have "validate_messages [UserMessage 1 ''go'', AssistantMessage 2 [] [?x] (Some ToolUse) None,
        AssistantMessage 3 [] [?x] (Some ToolUse) None] \<noteq> Inr ()"
    using made_up_ids_collide [OF settled unnamed settled unnamed, of "[UserMessage 1 ''go'']" 2 "[]" "[]" "Some ToolUse" None "[]"
      3 "[]" "[]" "Some ToolUse" None "[]"] unfolding append.simps .
  with settled show ?thesis unfolding Let_def by blast
qed

section \<open>A sample response\<close>

definition sample_parser :: "string \<Rightarrow> mini option" where
  "sample_parser s = (if s = ''x'' then Some (MObject [(''choices'', MArray [MObject
     [(''delta'', MObject [(''content'', MString ''hi'')]), (''finish_reason'', MString ''stop'')]])]) else None)"

lemma sample_text: "from_utf8 ''data:x'' = Some ''data:x''" "from_utf8 ''x'' = Some ''x''"
  unfolding from_utf8_def is_utf8_iff by (simp_all add: ascii_utf8 octet_def)

lemma sample_trim: "trim ''data:x'' = ''data:x''" "trim ''x'' = ''x''"
  by (simp_all add: trim_plain graphic_def octet_def)

lemma sample_json: "from_bytes sample_parser ''x'' = Inr (JObject [(''choices'', JArray [JObject
     [(''delta'', JObject [(''content'', JString ''hi'')]), (''finish_reason'', JString ''stop'')]])])"
  by (simp add: from_bytes_def sample_text json_parse_def sample_parser_def btree_collect_def)

lemma sample_body: "parse_sse_response sample_parser (''data:x'' @ [newline]) False = Inr \<lparr>sc_events = [TextDelta ''hi'', StreamEnd Stop],
    sc_usage = usage_default, sc_generation_id = None, sc_cost = None\<rparr>"
proof -
  let ?d = "sse_new\<lparr>sd_saw_data := True, sd_finish_reason := Some ''stop''\<rparr>"
  have cut: "cut_line (''data:x'' @ [newline]) = Some (''data:x'', [])" by (simp add: cut_line_def newline_def)
  have line: "sse_line sample_parser sse_new ''data:x'' = (Inr [TextDelta ''hi''], ?d)"
    by (simp add: sse_line_def sample_text sample_trim sse_data_def sample_json sse_identify_def sse_new_def array_at_def str_at_def
      object_at_def first_item_def text_deltas_def delta_calls_def keep_if_def)
  have "drain_lines (sse_line sample_parser) sse_new (''data:x'' @ [newline]) [] = (Inr [TextDelta ''hi''], ?d, [])"
    by (subst drain_lines.simps, subst cut) (simp add: line drain_lines_none)
  moreover have "sd_buffered sse_new = []" by (simp add: sse_new_def)
  ultimately have pushed: "sse_push sample_parser sse_new (''data:x'' @ [newline]) = (Inr [TextDelta ''hi''], ?d\<lparr>sd_buffered := []\<rparr>)"
    unfolding sse_push_def by (simp only: append_Nil prod.case)
  have "sse_finish sample_parser (?d\<lparr>sd_buffered := []\<rparr>) False = Inr \<lparr>sc_events = [StreamEnd Stop],
      sc_usage = usage_default, sc_generation_id = None, sc_cost = None\<rparr>"
    by (simp add: sse_finish_def sse_last_line_def sse_new_def flatten_def parse_usage_def is_reported_def
       u64_at_def object_at_def inline_cost_def settled_reason_def usage_default_def)
  then show ?thesis unfolding parse_sse_response_def pushed prod.case by simp
qed

definition sample_config :: openrouter_config where
  "sample_config = \<lparr>oc_api_key = ''sk-secret'', oc_model = ''m'', oc_max_tokens = None,
     oc_request_timeout = 1, oc_stall_timeout = 1, oc_retry = standard\<rparr>"

definition sample_rounds :: "round list" where
  "sample_rounds = map (\<lambda>a. \<lparr>rd_cancelled = False, rd_arrival = a, rd_cancelled_late = False\<rparr>)
     [Some (HttpResponse 200), Some (HttpChunk ''da''), None, Some (HttpChunk (''ta:x'' @ [newline])), Some HttpEnd]"

theorem live_stream_decodes_body_witness:
  "collected (or_on_event sample_parser sample_config) (or_start usage_default [] False (Inr ()) (Inr ''{}'')) sample_rounds =
     [TextDelta ''hi'', StreamEnd Stop]"
proof -
  have "parse_sse_response sample_parser (concat [''da'', ''ta:x'' @ [newline]]) False = Inr \<lparr>sc_events = [TextDelta ''hi'', StreamEnd Stop],
    sc_usage = usage_default, sc_generation_id = None, sc_cost = None\<rparr>"
    using sample_body by simp
  then show ?thesis
    using live_stream_decodes_body [of sample_parser sample_rounds 200 "[''da'', ''ta:x'' @ [newline]]" sample_config usage_default "[]" "''{}''"]
    by (simp add: sample_rounds_def sample_parser_def map_filter_simps settled_events_def with_usage_def)
qed


end
