(* ===== verification/Command_Code.thy ===== *)
theory Command_Code
  imports Provider_Config Provider_Reports Schema
begin

text \<open>
  The Command Code adapter: its request (\<open>build_payload\<close>, \<open>request_headers\<close>), the parser of the gateway's NDJSON
  events and of its error reports (\<open>tea-core/src/provider/commandcode/response.rs\<close>), and the two nested retry loops of
  \<open>complete\<close> and \<open>run_request\<close> (\<open>commandcode/mod.rs\<close>). Sending a request is an operation of the host.
\<close>

section \<open>The request\<close>

fun cmd_reasoning_effort :: "thinking_level \<Rightarrow> string option" where
  "cmd_reasoning_effort Off = None"
| "cmd_reasoning_effort Minimal = Some ''low''"
| "cmd_reasoning_effort Low = Some ''low''"
| "cmd_reasoning_effort Medium = Some ''medium''"
| "cmd_reasoning_effort High = Some ''high''"
| "cmd_reasoning_effort XHigh = Some ''xhigh''"
| "cmd_reasoning_effort MaxLevel = Some ''max''"

definition cmd_tool_json :: "payload_tool \<Rightarrow> json" where
  "cmd_tool_json t = json_object [(''name'', JString (pt_name t)), (''description'', JString (pt_description t)), (''input_schema'', pt_schema t)]"

text \<open>A temperature that is not finite would panic; a panic is \<open>None\<close>.\<close>

definition cmd_params :: "cmd_config \<Rightarrow> payload_request \<Rightarrow> json list \<Rightarrow> json option" where
  "cmd_params cfg req ms =
     (let params = json_object
        [(''model'', JString (cm_model cfg)), (''messages'', JArray ms), (''tools'', JArray (map cmd_tool_json (pr_tools req))),
         (''system'', JString (pr_prompt req)), (''max_tokens'', JNumber (Unsigned (cm_max_tokens cfg))), (''stream'', JBool True)];
          finish = (\<lambda>params. case cmd_reasoning_effort (pr_thinking req) of
            Some level \<Rightarrow> put ''reasoning_effort'' (JString level) params | None \<Rightarrow> params)
      in case cm_temperature cfg of
           None \<Rightarrow> Some (finish params)
         | Some x \<Rightarrow> (case adapter_float x of None \<Rightarrow> None | Some t \<Rightarrow> Some (finish (put ''temperature'' t params))))"

definition cmd_envelope :: "cmd_config \<Rightarrow> json \<Rightarrow> json" where
  "cmd_envelope cfg params =
     (let payload = json_object
        [(''config'', json_object
            [(''workingDir'', JString (cm_working_directory cfg)), (''date'', JString (cm_date cfg)),
             (''environment'', JString (cm_environment cfg)), (''structure'', JArray []), (''isGitRepo'', JBool False),
             (''currentBranch'', JString []), (''mainBranch'', JString []), (''gitStatus'', JString []),
             (''recentCommits'', JArray [])]),
         (''memory'', JNull), (''taste'', JNull), (''skills'', JNull),
         (''permissionMode'', JString (permission_text (cm_permission_mode cfg))),
         (''mode'', JString (cm_mode cfg)), (''params'', params)]
      in case cm_thread_id cfg of Some i \<Rightarrow> put ''threadId'' (JString i) payload | None \<Rightarrow> payload)"

definition cmd_build_payload ::
    "(string \<Rightarrow> mini option) \<Rightarrow> cmd_config \<Rightarrow> payload_request \<Rightarrow> (string + json) option" where
  "cmd_build_payload parser cfg req =
     (case commandcode_messages parser (pr_context req) of
        Inl e \<Rightarrow> Some (Inl e)
      | Inr ms \<Rightarrow> map_option (\<lambda>params. Inr (cmd_envelope cfg params)) (cmd_params cfg req ms))"

definition cmd_validate_model :: "cmd_config \<Rightarrow> payload_request \<Rightarrow> string + unit" where
  "cmd_validate_model cfg req =
     (case pr_model req of
        None \<Rightarrow> Inr ()
      | Some model \<Rightarrow>
          if md_provider model = ''command-code'' \<and> md_model model = cm_model cfg then Inr ()
          else Inl ''Command Code configuration does not match the requested model'')"

definition project_slug :: "cmd_config \<Rightarrow> string" where
  "project_slug cfg = (case cm_project_slug cfg of
     Some s \<Rightarrow> s | None \<Rightarrow> project_slug_from_working_directory (cm_working_directory cfg))"

definition request_headers :: "cmd_config \<Rightarrow> string list" where
  "request_headers cfg =
     [''Accept: application/x-ndjson'', ''Content-Type: application/json'', ''Authorization: Bearer '' @ cm_api_key cfg,
      ''X-CLI-Environment: production'', ''X-Command-Code-Version: 1.24.0'', ''User-Agent: cli'',
      ''X-Project-Slug: '' @ project_slug cfg,
      ''X-Taste-Learning: '' @ (if cm_taste_learning cfg then ''true'' else ''false''), ''X-Co-Flag: false'']
     @ (case cm_thread_id cfg of Some i \<Rightarrow> [''X-Session-Id: '' @ i] | None \<Rightarrow> [])
     @ (if cm_zero_data_retention cfg then [''X-Cmd-Zdr: 1''] else [])"

section \<open>Error reports\<close>

datatype cmd_error_source = GatewaySource | AdapterSource

record cmd_report =
  cr_source :: cmd_error_source
  cr_message :: string
  cr_status_code :: "nat option"
  cr_error_type :: "string option"
  cr_error_code :: "string option"
  cr_retryable :: "bool option"

text \<open>The first characters of UTF-8 text.\<close>

fun take_chars :: "nat \<Rightarrow> string \<Rightarrow> string" where
  "take_chars n [] = []"
| "take_chars n (c # s) =
     (if is_continuation c then c # take_chars n s
      else (case n of 0 \<Rightarrow> [] | Suc m \<Rightarrow> c # take_chars m s))"

definition truncated_mark :: string where
  "truncated_mark = bytes [226, 128, 166] @ '' [truncated]''"

definition redact_diagnostic_text :: "string \<Rightarrow> string \<Rightarrow> string" where
  "redact_diagnostic_text v api_key =
     (let v = (if api_key = [] then v else replace_text api_key ''[redacted]'' v)
      in if char_count v \<le> 4096 then v else take_chars 4096 v @ truncated_mark)"

definition diagnostic_text :: "json option \<Rightarrow> string \<Rightarrow> string option" where
  "diagnostic_text v api_key = map_option (\<lambda>s. redact_diagnostic_text s api_key) (keep_if (\<lambda>s. s \<noteq> []) (Option.bind v as_str))"

definition status_code :: "json option \<Rightarrow> nat option" where
  "status_code v = keep_if (\<lambda>n. n < 65536) (map_option unat (Option.bind v as_u64))"

definition has_terminal_marker :: "string \<Rightarrow> bool" where
  "has_terminal_marker msg = list_ex (\<lambda>marker. sublist marker (ascii_lower msg))
     [''premium_credits_exhausted'', ''model_not_in_plan'', ''insufficient credits'']"

definition is_retryable :: "nat option \<Rightarrow> bool option \<Rightarrow> string \<Rightarrow> bool" where
  "is_retryable status reported msg =
     (if reported = Some True then True
      else case status of
        Some n \<Rightarrow> n = 429 \<or> (500 \<le> n \<and> n \<le> 599)
      | None \<Rightarrow> reported \<noteq> Some False \<and> \<not> has_terminal_marker msg)"

record embedded_error =
  ee_message :: string
  ee_status_code :: "nat option"
  ee_error_type :: "string option"

definition parse_embedded_error :: "(string \<Rightarrow> mini option) \<Rightarrow> string \<Rightarrow> embedded_error option" where
  "parse_embedded_error parser msg =
     (let start = takeWhile (\<lambda>c. c \<noteq> CHR ''{'') msg; rest = drop (length start) msg
      in if rest = [] then None
         else case json_parse parser rest of
             Inl _ \<Rightarrow> None
           | Inr payload \<Rightarrow>
               Option.bind (object_at payload ''error'') (\<lambda>e.
               Option.bind (Option.bind (btree_get e ''message'') as_str) (\<lambda>m.
                 if trim m = [] then None
                 else Some \<lparr>ee_message = trim m, ee_status_code = parse_unsigned 16 (trim start),
                   ee_error_type = keep_if (\<lambda>s. s \<noteq> []) (Option.bind (btree_get e ''type'') as_str)\<rparr>)))"

record gateway_fields =
  gf_message :: string
  gf_status :: "nat option"
  gf_retryable :: "bool option"
  gf_error_type :: "string option"
  gf_error_code :: "string option"

definition gateway_fields_of :: "json btree \<Rightarrow> string \<Rightarrow> gateway_fields" where
  "gateway_fields_of event api_key =
     (case btree_get event ''error'' of
        Some (JString m) \<Rightarrow>
          if m \<noteq> [] then \<lparr>gf_message = m, gf_status = None, gf_retryable = None, gf_error_type = None, gf_error_code = None\<rparr>
          else \<lparr>gf_message = ''Command Code gateway emitted an error without diagnostic details'', gf_status = None,
            gf_retryable = None, gf_error_type = None, gf_error_code = None\<rparr>
      | Some (JObject e) \<Rightarrow>
          \<lparr>gf_message = (case keep_if (\<lambda>s. s \<noteq> []) (Option.bind (btree_get e ''message'') as_str) of
              Some m \<Rightarrow> m | None \<Rightarrow> ''Command Code gateway emitted an error without a message''),
           gf_status = or_else (status_code (btree_get e ''statusCode'')) (status_code (btree_get e ''status'')),
           gf_retryable = Option.bind (btree_get e ''isRetryable'') as_bool,
           gf_error_type = diagnostic_text (btree_get e ''type'') api_key,
           gf_error_code = diagnostic_text (btree_get e ''code'') api_key\<rparr>
      | _ \<Rightarrow> \<lparr>gf_message = ''Command Code gateway emitted an error without diagnostic details'', gf_status = None,
            gf_retryable = None, gf_error_type = None, gf_error_code = None\<rparr>)"

definition parse_gateway_error :: "(string \<Rightarrow> mini option) \<Rightarrow> json btree \<Rightarrow> string \<Rightarrow> cmd_report" where
  "parse_gateway_error parser event api_key =
     (let g = gateway_fields_of event api_key
      in case parse_embedded_error parser (gf_message g) of
           Some e \<Rightarrow>
             (let status = or_else (ee_status_code e) (gf_status g)
              in \<lparr>cr_source = GatewaySource, cr_message = redact_diagnostic_text (ee_message e) api_key, cr_status_code = status,
                  cr_error_type = map_option (\<lambda>s. redact_diagnostic_text s api_key) (or_else (ee_error_type e) (gf_error_type g)),
                  cr_error_code = gf_error_code g, cr_retryable = Some (is_retryable status (gf_retryable g) (ee_message e))\<rparr>)
         | None \<Rightarrow> \<lparr>cr_source = GatewaySource, cr_message = redact_diagnostic_text (gf_message g) api_key,
             cr_status_code = gf_status g, cr_error_type = gf_error_type g, cr_error_code = gf_error_code g,
             cr_retryable = Some (is_retryable (gf_status g) (gf_retryable g) (gf_message g))\<rparr>)"

section \<open>The events of a response\<close>

record cmd_response =
  cp_events :: "stream_event list"
  cp_usage :: usage
  cp_terminal :: bool
  cp_error :: "cmd_report option"

definition finish_reason :: "json option \<Rightarrow> stop_reason" where
  "finish_reason v =
     (if Option.bind v as_str = Some ''tool-calls'' then ToolUse
      else if Option.bind v as_str = Some ''length'' then Length
      else Stop)"

definition cmd_parse_usage :: "json option \<Rightarrow> usage" where
  "cmd_parse_usage v =
     (case Option.bind v as_object of
        None \<Rightarrow> usage_default
      | Some u \<Rightarrow> usage_default\<lparr>input_tokens := Option.bind (btree_get u ''inputTokens'') as_u64,
          output_tokens := Option.bind (btree_get u ''outputTokens'') as_u64,
          reasoning_tokens := or_else (Option.bind (btree_get u ''reasoningTokens'') as_u64)
            (Option.bind (btree_get u ''reasoning_tokens'') as_u64)\<rparr>)"

definition provider_error :: string where
  "provider_error = ''Command Code provider returned an error''"

definition gateway_failed :: "cmd_report \<Rightarrow> cmd_response \<Rightarrow> cmd_response" where
  "gateway_failed report p = p\<lparr>cp_error := Some report, cp_events := cp_events p @ [StreamError provider_error], cp_terminal := True\<rparr>"

definition settle_with :: "stream_event \<Rightarrow> cmd_response \<Rightarrow> cmd_response" where
  "settle_with v p = p\<lparr>cp_events := cp_events p @ [v], cp_terminal := True\<rparr>"

definition cmd_tool_call :: "(mini \<Rightarrow> string) \<Rightarrow> json btree \<Rightarrow> string + agent_tool_call" where
  "cmd_tool_call printer event =
     and_then (cmd_string_field event ''toolCallId'' ''Command Code tool call'') (\<lambda>i.
     and_then (cmd_string_field event ''toolName'' ''Command Code tool call'') (\<lambda>name.
     (case keep_if is_object (or_else (btree_get event ''input'') (btree_get event ''args'')) of
        None \<Rightarrow> Inl ''Command Code tool call did not contain object input''
      | Some input \<Rightarrow> (case to_json_string printer input of
            Inl _ \<Rightarrow> Inl ''Command Code tool call input cannot be serialized''
          | Inr arguments \<Rightarrow> (case tool_call_id_new i of
                Inl _ \<Rightarrow> Inl ''Command Code tool call omitted its identifier''
              | Inr i \<Rightarrow> Inr \<lparr>tc_id = i, tc_name = name, tc_arguments = arguments\<rparr>)))))"

definition cmd_typed_event ::
    "(string \<Rightarrow> mini option) \<Rightarrow> (mini \<Rightarrow> string) \<Rightarrow> string \<Rightarrow> json btree \<Rightarrow> string \<Rightarrow> cmd_response \<Rightarrow> string + cmd_response" where
  "cmd_typed_event parser printer api_key event kind p =
     (if kind = ''text-delta'' then
        and_then (cmd_string_field event ''text'' ''Command Code text delta'') (\<lambda>t.
          Inr (if t \<noteq> [] then p\<lparr>cp_events := cp_events p @ [TextDelta t]\<rparr> else p))
      else if kind = ''reasoning-start'' \<or> kind = ''reasoning-delta'' then Inr p
      else if kind = ''tool-call'' then
        and_then (cmd_tool_call printer event) (\<lambda>c. Inr (p\<lparr>cp_events := cp_events p @ [ToolCallEvent c]\<rparr>))
      else if kind = ''finish'' then
        Inr (settle_with (StreamEnd (finish_reason (btree_get event ''finishReason'')))
          (p\<lparr>cp_usage := cmd_parse_usage (btree_get event ''totalUsage'')\<rparr>))
      else if kind = ''error'' then Inr (gateway_failed (parse_gateway_error parser event api_key) p)
      else if kind = ''abort'' then Inr (settle_with (StreamAborted ''Command Code stream aborted'') p)
      else Inr p)"

definition cmd_line ::
    "(string \<Rightarrow> mini option) \<Rightarrow> (mini \<Rightarrow> string) \<Rightarrow> string \<Rightarrow> string \<Rightarrow> cmd_response \<Rightarrow> string + cmd_response" where
  "cmd_line parser printer api_key l p =
     (case json_parse parser l of
        Inl _ \<Rightarrow> Inl ''Command Code returned invalid NDJSON''
      | Inr v \<Rightarrow> (case as_object v of
            None \<Rightarrow> Inl ''Command Code NDJSON event must be an object''
          | Some event \<Rightarrow>
              (case Option.bind (btree_get event ''type'') as_str of
                 None \<Rightarrow> if btree_get event ''error'' \<noteq> None then Inr (gateway_failed (parse_gateway_error parser event api_key) p)
                   else Inl ''Command Code NDJSON event did not contain type''
               | Some kind \<Rightarrow>
                   if kind = [] then Inl ''Command Code NDJSON event did not contain type''
                   else if cp_terminal p then
                     (if kind = ''provider-metadata'' then Inr p
                      else Inl ''Command Code response contained events after its terminal event'')
                   else cmd_typed_event parser printer api_key event kind p)))"

fun cmd_lines ::
    "(string \<Rightarrow> mini option) \<Rightarrow> (mini \<Rightarrow> string) \<Rightarrow> string \<Rightarrow> string list \<Rightarrow> cmd_response \<Rightarrow> string + cmd_response" where
  "cmd_lines parser printer api_key [] p = Inr p"
| "cmd_lines parser printer api_key (l # ls) p =
     (if trim l = [] then cmd_lines parser printer api_key ls p
      else and_then (cmd_line parser printer api_key l p) (cmd_lines parser printer api_key ls))"

definition cmd_start :: cmd_response where
  "cmd_start = \<lparr>cp_events = [], cp_usage = usage_default, cp_terminal = False, cp_error = None\<rparr>"

definition parse_ndjson_response ::
    "(string \<Rightarrow> mini option) \<Rightarrow> (mini \<Rightarrow> string) \<Rightarrow> string \<Rightarrow> string \<Rightarrow> string + cmd_response" where
  "parse_ndjson_response parser printer api_key body =
     (case from_utf8 body of
        None \<Rightarrow> Inl ''Command Code returned a non-UTF-8 NDJSON response''
      | Some text \<Rightarrow>
          and_then (cmd_lines parser printer api_key (text_lines text) cmd_start) (\<lambda>p.
            if cp_terminal p then Inr p else Inl ''Command Code stream ended without a terminal event''))"

definition is_retryable_response_error :: "string \<Rightarrow> bool" where
  "is_retryable_response_error msg \<longleftrightarrow> msg \<in>
     {''Command Code returned a non-UTF-8 NDJSON'', ''Command Code returned invalid NDJSON'',
      ''Command Code NDJSON event did not contain type'', ''Command Code NDJSON event must be an object'',
      ''Command Code stream ended without a terminal event'',
      ''Command Code response contained events after its terminal event''}"

section \<open>Sending, with retries\<close>

text \<open>A host that sends the prepared request: the message of a transport failure, or the body of the response.\<close>

type_synonym 'w sender = "'w \<Rightarrow> (string + string) \<times> 'w"

definition cmd_attempt :: "'w retry_host \<Rightarrow> 'w sender \<Rightarrow> ('w, string) attempt" where
  "cmd_attempt h send w =
     (case send w of
        (Inr body, w') \<Rightarrow> (Inr body, w')
      | (Inl msg, w') \<Rightarrow> (Inl \<lparr>message = (if flag_set h w' then ''Command Code request cancelled''
            else ''Command Code HTTP transport failed before a provider response: '' @ msg),
          retryable = \<not> flag_set h w'\<rparr>, w'))"

definition run_request :: "retry_policy \<Rightarrow> 'w retry_host \<Rightarrow> 'w sender \<Rightarrow> 'w \<Rightarrow>
    ((string + string) \<times> (retryable_error + string) list \<times> 'w) option" where
  "run_request p h send w = retry_with_backoff p h (cmd_attempt h send) w"

definition cmd_request_cancelled :: string where
  "cmd_request_cancelled = ''Command Code request cancelled''"

text \<open>What the loop of \<open>complete\<close> makes of a response: replay it, or settle with it.\<close>

definition wants_replay :: "string + cmd_response \<Rightarrow> bool" where
  "wants_replay r = (case r of
       Inl msg \<Rightarrow> is_retryable_response_error msg
     | Inr p \<Rightarrow> (case cp_error p of Some report \<Rightarrow> cr_retryable report = Some True | None \<Rightarrow> False))"

text \<open>The loop, with the number of requests sent beside the result.\<close>

function complete_loop :: "(string \<Rightarrow> string + cmd_response) \<Rightarrow> retry_policy \<Rightarrow> 'w retry_host \<Rightarrow> 'w sender \<Rightarrow> nat \<Rightarrow> 'w \<Rightarrow>
    ((string + cmd_response) \<times> nat \<times> 'w) option" where
  "complete_loop parse p h send retry_index w =
     (case run_request p h send w of
        None \<Rightarrow> None
      | Some (Inl msg, sent, w') \<Rightarrow> Some (Inl msg, length sent, w')
      | Some (Inr body, sent, w') \<Rightarrow>
          if \<not> wants_replay (parse body) \<or> max_retries p \<le> retry_index then Some (parse body, length sent, w')
          else case wait_with_cancellation h (delay_before_retry p retry_index) w' of
            None \<Rightarrow> None
          | Some (False, w'') \<Rightarrow> Some (Inl cmd_request_cancelled, length sent, w'')
          | Some (True, w'') \<Rightarrow>
              (case complete_loop parse p h send (retry_index + 1) w'' of
                 None \<Rightarrow> None
               | Some (r, n, v) \<Rightarrow> Some (r, length sent + n, v)))"
  by pat_completeness auto
termination
  by (relation "measure (\<lambda>(parse, p, h, send, i, w). max_retries p - i)") auto

declare complete_loop.simps [simp del]

text \<open>
  \<open>complete\<close>: the request is checked and built before anything is sent. The outer option is a panic while the
  body is built, the inner one a wait that does not end. The sender is given the text it sends.
\<close>

definition cmd_complete ::
    "(string \<Rightarrow> mini option) \<Rightarrow> (mini \<Rightarrow> string) \<Rightarrow> cmd_config \<Rightarrow> payload_request \<Rightarrow> 'w retry_host \<Rightarrow> (string \<Rightarrow> 'w sender) \<Rightarrow> 'w \<Rightarrow>
     ((string + cmd_response) \<times> nat \<times> 'w) option option" where
  "cmd_complete parser printer cfg req h send w =
     (case cmd_validate_model cfg req of
        Inl e \<Rightarrow> Some (Some (Inl e, 0, w))
      | Inr _ \<Rightarrow> (case cmd_build_payload parser cfg req of
            None \<Rightarrow> None
          | Some (Inl e) \<Rightarrow> Some (Some (Inl e, 0, w))
          | Some (Inr body) \<Rightarrow> (case to_json_string printer body of
                Inl _ \<Rightarrow> Some (Some (Inl ''cannot serialize Command Code request'', 0, w))
              | Inr text \<Rightarrow> Some (complete_loop (parse_ndjson_response parser printer (cm_api_key cfg)) (cm_retry cfg) h (send text) 0 w))))"

record cmd_provider =
  cmp_usage :: usage
  cmp_last_error :: "cmd_report option"

definition cmd_record_usage :: "usage \<Rightarrow> cmd_provider \<Rightarrow> cmd_provider" where
  "cmd_record_usage u s =
     (let t = cmp_usage s
      in s\<lparr>cmp_usage := t\<lparr>input_tokens := add_usage (input_tokens t) (input_tokens u),
          output_tokens := add_usage (output_tokens t) (output_tokens u),
          reasoning_tokens := add_usage (reasoning_tokens t) (reasoning_tokens u),
          cache_read_tokens := add_usage (cache_read_tokens t) (cache_read_tokens u),
          cache_write_tokens := add_usage (cache_write_tokens t) (cache_write_tokens u)\<rparr>\<rparr>)"

definition usage_before_end :: "usage \<Rightarrow> stream_event list \<Rightarrow> stream_event list" where
  "usage_before_end u vs = (if is_reported u then butlast vs @ [UsageEvent u, last vs] else vs)"

text \<open>\<open>response_stream\<close> after \<open>complete\<close>; \<open>cancelled\<close> is the flag as read then.\<close>

definition cmd_settle :: "string + cmd_response \<Rightarrow> bool \<Rightarrow> cmd_provider \<Rightarrow> stream_event list \<times> cmd_provider" where
  "cmd_settle r cancelled s =
     (case r of
        Inr p \<Rightarrow>
          (let s = (case cp_error p of Some report \<Rightarrow> s\<lparr>cmp_last_error := Some report\<rparr> | None \<Rightarrow> s);
               s = cmd_record_usage (cp_usage p) s
           in (usage_before_end (cp_usage p) (cp_events p), s))
      | Inl msg \<Rightarrow>
          if cancelled then ([StreamEnd CancelledReason], s)
          else ([StreamError msg], s\<lparr>cmp_last_error := Some \<lparr>cr_source = AdapterSource, cr_message = msg, cr_status_code = None,
            cr_error_type = None, cr_error_code = None, cr_retryable = None\<rparr>\<rparr>))"

definition cmd_response_stream ::
    "(string \<Rightarrow> mini option) \<Rightarrow> (mini \<Rightarrow> string) \<Rightarrow> cmd_config \<Rightarrow> payload_request \<Rightarrow> 'w retry_host \<Rightarrow> (string \<Rightarrow> 'w sender) \<Rightarrow>
     cmd_provider \<Rightarrow> 'w \<Rightarrow> (stream_event list \<times> cmd_provider \<times> nat \<times> 'w) option option" where
  "cmd_response_stream parser printer cfg req h send s w =
     (if flag_set h w then Some (Some ([StreamEnd CancelledReason], s, 0, w))
      else map_option (map_option (\<lambda>(r, n, w'). case cmd_settle r (flag_set h w') s of (vs, s') \<Rightarrow> (vs, s', n, w')))
        (cmd_complete parser printer cfg req h send w))"

section \<open>What a response gives\<close>

text \<open>Deltas and calls, one settling event, and after it nothing but error envelopes the parser let through.\<close>

definition settled_shape :: "stream_event list \<Rightarrow> bool" where
  "settled_shape vs \<longleftrightarrow> (\<exists>us v k. vs = us @ v # replicate k (StreamError provider_error) \<and> unsettled us \<and> is_settled v)"

definition response_shape :: "cmd_response \<Rightarrow> bool" where
  "response_shape p \<longleftrightarrow> (if cp_terminal p then settled_shape (cp_events p) else unsettled (cp_events p) \<and> cp_usage p = usage_default)"

lemma settled_shape_error: "settled_shape vs \<Longrightarrow> settled_shape (vs @ [StreamError provider_error])"
  unfolding settled_shape_def by (metis append.assoc append_Cons replicate_append_same replicate_Suc)

lemma settled_shape_snoc: "unsettled us \<Longrightarrow> is_settled v \<Longrightarrow> settled_shape (us @ [v])"
  unfolding settled_shape_def by (intro exI [of _ us] exI [of _ v] exI [of _ 0]) simp

lemma gateway_failed_shape: "response_shape p \<Longrightarrow> response_shape (gateway_failed report p)"
  using settled_shape_error [of "cp_events p"] settled_shape_snoc [of "cp_events p" "StreamError provider_error"]
  by (simp add: response_shape_def gateway_failed_def split: if_splits)

lemma cmd_typed_event_shape:
  assumes "response_shape p" "\<not> cp_terminal p" "cmd_typed_event parser printer api_key event kind p = Inr q"
  shows "response_shape q"
  using assms gateway_failed_shape settled_shape_snoc
  by (auto simp: cmd_typed_event_def and_then_Inr response_shape_def settle_with_def gateway_failed_def split: if_splits)

lemma cmd_line_shape: "response_shape p \<Longrightarrow> cmd_line parser printer api_key l p = Inr q \<Longrightarrow> response_shape q"
  using gateway_failed_shape cmd_typed_event_shape
  by (auto simp: cmd_line_def split: sum.splits option.splits if_splits)

lemma cmd_lines_shape: "response_shape p \<Longrightarrow> cmd_lines parser printer api_key ls p = Inr q \<Longrightarrow> response_shape q"
proof (induction ls arbitrary: p)
  case (Cons l ls)
  show ?case
  proof (cases "trim l = []")
    case False
    then obtain x where "cmd_line parser printer api_key l p = Inr x" "cmd_lines parser printer api_key ls x = Inr q"
      using Cons.prems(2) by (auto simp: and_then_Inr)
    then show ?thesis using Cons.IH [of x] cmd_line_shape [OF Cons.prems(1)] by blast
  qed (use Cons in simp)
qed simp

lemma parsed_shape: "parse_ndjson_response parser printer api_key body = Inr p \<Longrightarrow> settled_shape (cp_events p)"
proof -
  assume "parse_ndjson_response parser printer api_key body = Inr p"
  then obtain t where lines: "cmd_lines parser printer api_key (text_lines t) cmd_start = Inr p" and terminal: "cp_terminal p"
    by (auto simp: parse_ndjson_response_def and_then_Inr split: option.splits if_splits)
  have "response_shape cmd_start" by (simp add: response_shape_def cmd_start_def)
  from cmd_lines_shape [OF this lines] terminal show ?thesis by (simp add: response_shape_def)
qed

text \<open>An error envelope after the settling event is taken as a second one: the check for it comes later.\<close>

lemma envelope_after_terminal:
  assumes "json_parse parser l = Inr (JObject event)" "btree_get event ''type'' = None" "btree_get event ''error'' \<noteq> None"
  shows "cmd_line parser printer api_key l p = Inr (gateway_failed (parse_gateway_error parser event api_key) p)"
  using assms by (simp add: cmd_line_def)

text \<open>The list of failures worth a replay names a message the parser never gives.\<close>

lemma non_utf8_not_replayed:
  assumes "from_utf8 body = None"
  shows "\<not> wants_replay (parse_ndjson_response parser printer api_key body)"
  using assms by (simp add: parse_ndjson_response_def wants_replay_def is_retryable_response_error_def)

section \<open>The loops end\<close>

lemma run_request_returns:
  assumes "sleeps h"
  shows "\<exists>r sent w'. run_request p h send w = Some (r, sent, w') \<and> length sent \<le> max_retries p + 1"
  using retry_loop_returns [OF assms, of 0 p "cmd_attempt h send" w] by (auto simp: run_request_def retry_with_backoff_def)

lemma complete_loop_returns:
  assumes "sleeps h"
  shows "retry_index \<le> max_retries p \<Longrightarrow> \<exists>r n w'. complete_loop parse p h send retry_index w = Some (r, n, w') \<and>
    n \<le> (max_retries p + 1 - retry_index) * (max_retries p + 1)"
proof (induction "max_retries p - retry_index" arbitrary: retry_index w rule: less_induct)
  case less
  let ?once = "max_retries p + 1"
  obtain r sent w' where run: "run_request p h send w = Some (r, sent, w')" and sent: "length sent \<le> ?once"
    using run_request_returns [OF assms] by metis
  have one: "?once \<le> (?once - retry_index) * ?once" using mult_le_mono1 [of 1 "?once - retry_index" ?once] less.prems by simp
  show ?case
  proof (cases "\<exists>body. r = Inr body \<and> wants_replay (parse body) \<and> retry_index < max_retries p")
    case False
    then have "\<exists>r' n. complete_loop parse p h send retry_index w = Some (r', n, w') \<and> n = length sent"
      using run by (subst complete_loop.simps) (auto split: sum.splits)
    then show ?thesis using sent one by fastforce
  next
    case True
    then obtain body where body: "r = Inr body" "wants_replay (parse body)" "retry_index < max_retries p" by blast
    let ?delay = "delay_before_retry p retry_index"
    obtain b w'' where wait: "wait_with_cancellation h ?delay w' = Some (b, w'')"
      unfolding wait_with_cancellation_def using wait_until_returns [OF assms, of "now h w'" ?delay w'] by blast
    show ?thesis
    proof (cases b)
      case False
      then have "complete_loop parse p h send retry_index w = Some (Inl cmd_request_cancelled, length sent, w'')"
        using run body wait by (subst complete_loop.simps) simp
      then show ?thesis using sent one by fastforce
    next
      case True
      obtain r' n v where rest: "complete_loop parse p h send (retry_index + 1) w'' = Some (r', n, v)"
          "n \<le> (?once - (retry_index + 1)) * ?once"
      proof -
        have "max_retries p - (retry_index + 1) < max_retries p - retry_index" "retry_index + 1 \<le> max_retries p" using body(3) by simp_all
        from less.hyps [OF this, of w''] that show thesis by blast
      qed
      have "complete_loop parse p h send retry_index w = Some (r', length sent + n, v)"
        using run body wait True rest(1) by (subst complete_loop.simps) simp
      moreover have "length sent + n \<le> (?once - retry_index) * ?once"
      proof -
        have "?once - retry_index = Suc (?once - (retry_index + 1))" using body(3) by simp
        then have "(?once - retry_index) * ?once = ?once + (?once - (retry_index + 1)) * ?once" by (metis mult_Suc)
        then show ?thesis using sent rest(2) by linarith
      qed
      ultimately show ?thesis by blast
    qed
  qed
qed

section \<open>The stream\<close>

lemma cmd_params_built: "cmd_config_ok cfg \<Longrightarrow> cmd_params cfg req ms \<noteq> None"
  by (auto simp: cmd_params_def cmd_config_ok_def Let_def adapter_float_finite split: option.split)

lemma cmd_build_payload_built: "cmd_config_ok cfg \<Longrightarrow> cmd_build_payload parser cfg req \<noteq> None"
  using cmd_params_built by (auto simp: cmd_build_payload_def split: sum.split)

lemma complete_loop_shape:
  assumes "\<forall>body p. parse body = Inr p \<longrightarrow> settled_shape (cp_events p)"
  shows "complete_loop parse p h send retry_index w = Some (Inr q, n, w') \<Longrightarrow> settled_shape (cp_events q)"
proof (induction "max_retries p - retry_index" arbitrary: retry_index w n rule: less_induct)
  case less
  obtain r sent v where run: "run_request p h send w = Some (r, sent, v)"
    using less.prems by (subst (asm) complete_loop.simps) (auto split: option.splits)
  show ?case
  proof (cases r)
    case (Inl m)
    then show ?thesis using less.prems run by (subst (asm) complete_loop.simps) simp
  next
    case (Inr body)
    show ?thesis
    proof (cases "wants_replay (parse body) \<and> retry_index < max_retries p")
      case False
      then have "parse body = Inr q" using less.prems run Inr by (subst (asm) complete_loop.simps) (auto split: if_splits)
      then show ?thesis using assms by blast
    next
      case True
      then obtain u m where "complete_loop parse p h send (retry_index + 1) u = Some (Inr q, m, w')"
        using less.prems run Inr
        by (subst (asm) complete_loop.simps) (auto split: option.splits prod.splits bool.splits)
      moreover have "max_retries p - (retry_index + 1) < max_retries p - retry_index" using True by linarith
      ultimately show ?thesis using less.hyps by blast
    qed
  qed
qed

definition settles_first :: "stream_event list \<Rightarrow> bool" where
  "settles_first vs \<longleftrightarrow> (\<exists>us v rest. vs = us @ v # rest \<and> unsettled us \<and> is_settled v \<and>
     (\<forall>x \<in> set rest. x = StreamError provider_error \<or> (\<exists>u. x = UsageEvent u)))"

lemma usage_before_end_settles:
  assumes "settled_shape vs"
  shows "settles_first (usage_before_end u vs)"
proof -
  obtain us v k where vs: "vs = us @ v # replicate k (StreamError provider_error)" "unsettled us" "is_settled v"
    using assms unfolding settled_shape_def by blast
  show ?thesis
  proof (cases "is_reported u")
    case True
    show ?thesis
    proof (cases k)
      case 0
      then have "usage_before_end u vs = (us @ [UsageEvent u]) @ v # []" using True vs by (simp add: usage_before_end_def)
      then show ?thesis unfolding settles_first_def using vs by (intro exI [of _ "us @ [UsageEvent u]"] exI [of _ v] exI [of _ "[]"]) simp
    next
      case (Suc n)
      have last: "vs = (us @ v # replicate n (StreamError provider_error)) @ [StreamError provider_error]"
        using vs Suc by (simp add: replicate_append_same)
      then have "usage_before_end u vs = us @ v # (replicate n (StreamError provider_error) @ [UsageEvent u, StreamError provider_error])"
        using True unfolding usage_before_end_def last butlast_snoc last_snoc by simp
      then show ?thesis unfolding settles_first_def using vs
        by (intro exI [of _ us] exI [of _ v] exI [of _ "replicate n (StreamError provider_error) @ [UsageEvent u, StreamError provider_error]"]) auto
    qed
  next
    case False
    then show ?thesis unfolding settles_first_def using vs
      by (intro exI [of _ us] exI [of _ v] exI [of _ "replicate k (StreamError provider_error)"]) (simp add: usage_before_end_def)
  qed
qed

text \<open>C18: with a configuration its builders made and a host whose sleep lasts as long as asked, a Command Code
  response always returns, after at most the square of the configured number of attempts, and what it
  gives the run are deltas, calls and usage up to a settling event.\<close>

theorem commandcode_stream_settles:
  assumes "cmd_config_ok cfg" and "sleeps h"
  shows "\<exists>vs s' n w'. cmd_response_stream parser printer cfg req h send s w = Some (Some (vs, s', n, w')) \<and>
    n \<le> (max_retries (cm_retry cfg) + 1) ^ 2 \<and> settles_first vs"
proof (cases "flag_set h w")
  case True
  then show ?thesis
    by (auto simp: cmd_response_stream_def settles_first_def intro!: exI [of _ "[]"])
next
  case False
  have single: "settles_first [v]" if "is_settled v" for v using that by (auto simp: settles_first_def intro!: exI [of _ "[]"])
  have "\<exists>r n w'. cmd_complete parser printer cfg req h send w = Some (Some (r, n, w')) \<and>
      n \<le> (max_retries (cm_retry cfg) + 1) ^ 2 \<and> (\<forall>q. r = Inr q \<longrightarrow> settled_shape (cp_events q))"
  proof (cases "cmd_validate_model cfg req")
    case valid: (Inr u)
    show ?thesis
    proof (cases "cmd_build_payload parser cfg req")
      case (Some built)
      show ?thesis
      proof (cases "\<exists>body text. built = Inr body \<and> to_json_string printer body = Inr text")
        case True
        then obtain body t where b: "built = Inr body" "to_json_string printer body = Inr t" by blast
        let ?parse = "parse_ndjson_response parser printer (cm_api_key cfg)"
        obtain r n w' where loop: "complete_loop ?parse (cm_retry cfg) h (send t) 0 w = Some (r, n, w')"
            "n \<le> (max_retries (cm_retry cfg) + 1 - 0) * (max_retries (cm_retry cfg) + 1)"
          using complete_loop_returns [OF assms(2), of 0 "cm_retry cfg" ?parse "send t" w] by auto
        have "\<forall>body p. ?parse body = Inr p \<longrightarrow> settled_shape (cp_events p)" using parsed_shape by blast
        then have "settled_shape (cp_events q)" if "r = Inr q" for q
          using complete_loop_shape [of ?parse "cm_retry cfg" h "send t" 0 w q n w'] loop(1) that by blast
        then have "\<forall>q. r = Inr q \<longrightarrow> settled_shape (cp_events q)" by blast
        then show ?thesis using valid Some b loop by (simp add: cmd_complete_def power2_eq_square)
      next
        case False
        then show ?thesis using valid Some by (auto simp: cmd_complete_def split: sum.split)
      qed
    qed (use cmd_build_payload_built [OF assms(1)] in simp)
  qed (simp add: cmd_complete_def)
  then obtain r n w' where r: "cmd_complete parser printer cfg req h send w = Some (Some (r, n, w'))"
    "n \<le> (max_retries (cm_retry cfg) + 1) ^ 2" "\<forall>q. r = Inr q \<longrightarrow> settled_shape (cp_events q)" by blast
  have "settles_first (fst (cmd_settle r (flag_set h w') s))"
    using r(3) single usage_before_end_settles by (cases r) (auto simp: cmd_settle_def Let_def)
  then show ?thesis using False r
    by (cases "cmd_settle r (flag_set h w') s") (simp add: cmd_response_stream_def)
qed

section \<open>Gateway reports and the key\<close>

lemma take_chars_prefix: "prefix (take_chars n s) s"
  by (induction n s rule: take_chars.induct) (auto split: nat.split)

lemma marked_free: "t = c # m \<Longrightarrow> c \<notin> set key \<Longrightarrow> \<not> sublist key m \<Longrightarrow> \<not> sublist key u \<Longrightarrow> \<not> sublist key (u @ t)"
  by (simp add: sublist_split)

lemma redacted_text_free:
  assumes "plain_key key" and "\<not> sublist key ''truncated''"
  shows "\<not> sublist key (redact_diagnostic_text v key)"
proof -
  let ?v = "replace_text key ''[redacted]'' v"
  have free: "\<not> sublist key ?v" using replaced_free assms(1) by (simp add: plain_key_def)
  have cut: "\<not> sublist key (take_chars 4096 ?v)"
    using free take_chars_prefix prefix_imp_sublist sublist_order.order.trans by blast
  have out: "c \<notin> set key" if "\<not> graphic c" for c using assms(1) that by (auto simp: plain_key_def list_all_iff)
  have "key \<noteq> []" "CHR ''['' \<notin> set key" "CHR '']'' \<notin> set key" using assms(1) by (simp_all add: plain_key_def)
  then have mark: "\<not> sublist key (char_of (128 :: nat) # char_of (166 :: nat) # CHR '' '' # CHR ''['' # ''truncated'' @ [CHR '']''])"
    using out assms(2) sublist_split [of "CHR '']''" key "''truncated''" "[]"]
    by (simp add: sublist_Cons_split graphic_def octet_def)
  have spelled: "truncated_mark = char_of (226 :: nat) # char_of (128 :: nat) # char_of (166 :: nat) # CHR '' '' # CHR ''['' # ''truncated'' @ [CHR '']'']"
    by (simp add: truncated_mark_def bytes_def)
  have first_byte: "char_of (226 :: nat) \<notin> set key" by (rule out) (simp add: graphic_def octet_def)
  have "\<not> sublist key (take_chars 4096 ?v @ truncated_mark)" by (rule marked_free [OF spelled first_byte mark cut])
  then show ?thesis using free \<open>key \<noteq> []\<close> by (simp add: redact_diagnostic_text_def Let_def)
qed


section \<open>Witnesses\<close>

definition sample_cmd_config :: cmd_config where
  "sample_cmd_config = \<lparr>cm_api_key = ''k'', cm_model = ''m'', cm_working_directory = ''/w'', cm_date = ''d'', cm_environment = ''e'',
     cm_max_tokens = 1, cm_permission_mode = Standard, cm_thread_id = None, cm_mode = ''agent'', cm_temperature = None,
     cm_zero_data_retention = False, cm_project_slug = None, cm_taste_learning = True, cm_retry = standard\<rparr>"

theorem commandcode_stream_settles_witness:
  "\<exists>vs s' n w'. cmd_response_stream (\<lambda>_. None) (\<lambda>_. []) sample_cmd_config
     \<lparr>pr_prompt = [], pr_context = ''c'', pr_tools = [], pr_model = None, pr_thinking = Off\<rparr>
     \<lparr>now = id, sleep = (+), flag_set = (\<lambda>_. False)\<rparr> (\<lambda>body w. (Inr [], w)) \<lparr>cmp_usage = usage_default, cmp_last_error = None\<rparr> 0 =
     Some (Some (vs, s', n, w')) \<and> n \<le> 16 \<and> settles_first vs"
proof -
  have one: "trim [c] = [c]" if "graphic c" for c by (rule trim_plain) (simp_all add: that)
  have "cmd_config_ok sample_cmd_config"
    by (simp add: cmd_config_ok_def sample_cmd_config_def trim_agent one graphic_def octet_def)
  moreover have "sleeps \<lparr>now = id, sleep = (+), flag_set = (\<lambda>_. False)\<rparr>" by (simp add: sleeps_def)
  ultimately show ?thesis
    using commandcode_stream_settles [of sample_cmd_config "\<lparr>now = id, sleep = (+), flag_set = (\<lambda>_. False)\<rparr>" "\<lambda>_. None" "\<lambda>_. []"]
    by (fastforce simp: sample_cmd_config_def standard_def)
qed


end
