(* ===== verification/Sessions.thy ===== *)
theory Sessions
  imports Payloads Trace_Encoding Schema Edit_Tool "HOL-Library.Signed_Division"
begin

text \<open>
  Saved sessions (\<open>tea-agent/src/app/session.rs\<close>): the entries of a session file, how a record is written as lines
  of JSON and read back, the store that finds, lists, loads and saves the files of one directory, and the
  identifiers and time stamps it makes. The system's clock and the process-wide counter are the state
  \<open>session_clock\<close>; what the file system answers is a record of the store's operations.
\<close>

section \<open>Time stamps\<close>

text \<open>\<open>{:0w}\<close> of an unsigned and of a signed number.\<close>

definition zero_padded :: "nat \<Rightarrow> string \<Rightarrow> string" where
  "zero_padded w s = replicate (w - length s) (CHR ''0'') @ s"

definition padded_int :: "nat \<Rightarrow> int \<Rightarrow> string" where
  "padded_int w n = (if n < 0 then CHR ''-'' # zero_padded (w - 1) (decimal_text (nat (- n)))
     else zero_padded w (decimal_text (nat n)))"

fun hex_text :: "nat \<Rightarrow> string" where
  "hex_text n = (if n < 16 then [hex_char n] else hex_text (n div 16) @ [hex_char (n mod 16)])"

declare hex_text.simps [simp del]

text \<open>The calendar date of a day counted from the first of January 1970; \<open>/\<close> rounds towards zero.\<close>

definition civil_from_days :: "int \<Rightarrow> int \<times> int \<times> int" where
  "civil_from_days days =
     (let z = days + 719468;
          era = (if 0 \<le> z then z else z - 146096) sdiv 146097;
          doe = z - era * 146097;
          yoe = (doe - doe sdiv 1460 + doe sdiv 36524 - doe sdiv 146096) sdiv 365;
          year = yoe + era * 400;
          doy = doe - (365 * yoe + yoe sdiv 4 - yoe sdiv 100);
          mp = (5 * doy + 2) sdiv 153;
          day = doy - (153 * mp + 2) sdiv 5 + 1;
          month = mp + (if mp < 10 then 3 else - 9)
      in (year + (if month \<le> 2 then 1 else 0), month, day))"

definition timestamp_iso :: "u64 \<Rightarrow> string" where
  "timestamp_iso milliseconds =
     (let seconds = milliseconds div 1000;
          millis = milliseconds mod 1000;
          days = seconds div 86400;
          today = seconds mod 86400
      in case civil_from_days (sint days) of (year, month, day) \<Rightarrow>
          padded_int 4 year @ ''-'' @ padded_int 2 month @ ''-'' @ padded_int 2 day @ ''T''
            @ zero_padded 2 (decimal_text (unat (today div 3600))) @ '':''
            @ zero_padded 2 (decimal_text (unat (today div 60 mod 60))) @ '':''
            @ zero_padded 2 (decimal_text (unat (today mod 60))) @ ''.''
            @ zero_padded 3 (decimal_text (unat millis)) @ ''Z'')"

section \<open>The clock and the counter\<close>

text \<open>\<open>NEXT_ID\<close>, and the readings of the system's clock: milliseconds since 1970, or nothing before that.\<close>

record session_clock =
  sc_next :: u64
  sc_clock :: "nat \<Rightarrow> nat option"
  sc_reads :: nat

definition now_ms :: "session_clock \<Rightarrow> u64 \<times> session_clock" where
  "now_ms c = ((case sc_clock c (sc_reads c) of Some t \<Rightarrow> of_nat (min t (2 ^ 64 - 1)) | None \<Rightarrow> 0),
     c\<lparr>sc_reads := Suc (sc_reads c)\<rparr>)"

definition take_id :: "session_clock \<Rightarrow> u64 \<times> session_clock" where
  "take_id c = (sc_next c, c\<lparr>sc_next := sc_next c + 1\<rparr>)"

definition entry_id :: "session_clock \<Rightarrow> string \<times> session_clock" where
  "entry_id c = (case take_id c of (n, c) \<Rightarrow> (zero_padded 8 (hex_text (unat n)), c))"

definition stamp :: "session_clock \<Rightarrow> string \<times> session_clock" where
  "stamp c = (case now_ms c of (t, c) \<Rightarrow> (timestamp_iso t, c))"

definition hex_byte :: "u64 \<Rightarrow> string" where
  "hex_byte b = zero_padded 2 (hex_text (unat (b mod 256)))"

text \<open>The UUID of a new session: \<open>as u8\<close> keeps the low byte, which \<open>hex_byte\<close> does.\<close>

definition new_session_id :: "session_clock \<Rightarrow> string \<times> session_clock" where
  "new_session_id c =
     (case now_ms c of (t, c) \<Rightarrow> case take_id c of (nonce, c) \<Rightarrow>
      let at_ms = and t (push_bit 48 1 - 1);
          random_a = and nonce 0x0fff;
          random_b = and nonce (push_bit 62 1 - 1);
          time_byte = (\<lambda>k. hex_byte (drop_bit k at_ms));
          random_byte = (\<lambda>k. hex_byte (drop_bit k random_b))
      in (time_byte 40 @ time_byte 32 @ time_byte 24 @ time_byte 16 @ ''-'' @ time_byte 8 @ time_byte 0 @ ''-''
            @ hex_byte (or 0x70 (and (drop_bit 8 random_a) 0x0f)) @ hex_byte random_a @ ''-''
            @ hex_byte (or 0x80 (and (drop_bit 56 random_b) 0x3f)) @ random_byte 48 @ ''-''
            @ random_byte 40 @ random_byte 32 @ random_byte 24 @ random_byte 16 @ random_byte 8 @ random_byte 0, c))"

definition alnum :: "char \<Rightarrow> bool" where
  "alnum c \<longleftrightarrow> ascii_digit c \<or> 65 \<le> octet c \<and> octet c \<le> 90 \<or> 97 \<le> octet c \<and> octet c \<le> 122"

definition replace_chars :: "char list \<Rightarrow> char \<Rightarrow> string \<Rightarrow> string" where
  "replace_chars from c s = map (\<lambda>d. if d \<in> set from then c else d) s"

definition filename_timestamp :: "string \<Rightarrow> session_clock \<Rightarrow> string \<times> session_clock" where
  "filename_timestamp timestamp c =
     (let sanitized = replace_chars '':.'' (CHR ''-'') timestamp
      in if sanitized \<noteq> [] \<and> (\<forall>d \<in> set sanitized. alnum d \<or> d \<in> set ''-_'') then (sanitized, c)
         else (case stamp c of (s, c) \<Rightarrow> (replace_chars '':.'' (CHR ''-'') s, c)))"

text \<open>The directory of a workspace below the sessions, from the bytes of its path.\<close>

definition encoded_cwd :: "string \<Rightarrow> string" where
  "encoded_cwd cwd =
     (let path = replace_chars [CHR 0x5C] (CHR ''/'') (from_utf8_lossy cwd)
      in ''--'' @ replace_chars ''/:'' (CHR ''-'') (trim_start (CHR ''/'') path) @ ''--'')"

section \<open>Records and errors\<close>

record session_record =
  sr_id :: string
  sr_timestamp :: string
  sr_cwd :: string
  sr_model :: "model_descriptor option"
  sr_thinking :: thinking_level
  sr_messages :: "agent_message list"

definition session_new :: "model_descriptor option \<Rightarrow> thinking_level \<Rightarrow> session_clock \<Rightarrow> session_record \<times> session_clock" where
  "session_new model level c =
     (case new_session_id c of (i, c) \<Rightarrow> case stamp c of (t, c) \<Rightarrow>
       (\<lparr>sr_id = i, sr_timestamp = t, sr_cwd = [], sr_model = model, sr_thinking = level, sr_messages = []\<rparr>, c))"

datatype session_error =
  SessionIo string string
| SessionContract string string
| SessionJson string nat string

fun display_session_error :: "session_error \<Rightarrow> string" where
  "display_session_error (SessionIo path why) = ''session I/O failed at '' @ path @ '': '' @ why"
| "display_session_error (SessionContract path why) = ''invalid session at '' @ path @ '': '' @ why"
| "display_session_error (SessionJson path line why) =
     ''invalid session JSON at '' @ path @ '' line '' @ decimal_text line @ '': '' @ why"

definition session_version :: u64 where
  "session_version = 3"

definition max_session_bytes :: nat where
  "max_session_bytes = 16 * 1024 * 1024"

definition validate_session_id :: "string \<Rightarrow> string + unit" where
  "validate_session_id i =
     (if i = [] \<or> 128 < length i \<or> \<not> alnum (hd i) \<or> \<not> alnum (last i) \<or> \<not> (\<forall>c \<in> set i. alnum c \<or> c \<in> set ''-_.'')
      then Inl ''session ID contains forbidden characters'' else Inr ())"

section \<open>Writing\<close>

fun thinking_name :: "thinking_level \<Rightarrow> string" where
  "thinking_name Off = ''off''"
| "thinking_name Minimal = ''minimal''"
| "thinking_name Low = ''low''"
| "thinking_name Medium = ''medium''"
| "thinking_name High = ''high''"
| "thinking_name XHigh = ''xhigh''"
| "thinking_name MaxLevel = ''max''"

fun stop_reason_name :: "stop_reason \<Rightarrow> string" where
  "stop_reason_name Stop = ''stop''"
| "stop_reason_name ToolUse = ''toolUse''"
| "stop_reason_name Length = ''length''"
| "stop_reason_name Aborted = ''aborted''"
| "stop_reason_name CancelledReason = ''cancelled''"
| "stop_reason_name ErrorReason = ''error''"

definition opt_string :: "string option \<Rightarrow> json" where
  "opt_string v = (case v of Some s \<Rightarrow> JString s | None \<Rightarrow> JNull)"

definition session_number :: "u64 \<Rightarrow> json" where
  "session_number n = JNumber (Unsigned n)"

definition optional_number :: "u64 option \<Rightarrow> json" where
  "optional_number v = (case v of Some n \<Rightarrow> session_number n | None \<Rightarrow> JNull)"

definition parse_or_string :: "(string \<Rightarrow> mini option) \<Rightarrow> string \<Rightarrow> json" where
  "parse_or_string parser s = (case json_parse parser s of Inr v \<Rightarrow> v | Inl _ \<Rightarrow> JString s)"

definition encode_usage :: "usage \<Rightarrow> json" where
  "encode_usage u = json_object
     [(''input'', optional_number (input_tokens u)), (''output'', optional_number (output_tokens u)),
      (''cacheRead'', optional_number (cache_read_tokens u)), (''cacheWrite'', optional_number (cache_write_tokens u)),
      (''totalTokens'', case (input_tokens u, output_tokens u) of
          (Some i, Some out) \<Rightarrow> session_number (sat_add i out) | _ \<Rightarrow> JNull),
      (''cost'', json_object
         [(''input'', JNull), (''output'', JNull), (''cacheRead'', JNull), (''cacheWrite'', JNull),
          (''total'', opt_string (cost u))])]"

definition encode_call :: "(string \<Rightarrow> mini option) \<Rightarrow> agent_tool_call \<Rightarrow> json" where
  "encode_call parser call = json_object
     [(''type'', JString ''toolCall''), (''id'', JString (tc_id call)), (''name'', JString (tc_name call)),
      (''arguments'', parse_or_string parser (tc_arguments call))]"

fun encode_message ::
    "(string \<Rightarrow> mini option) \<Rightarrow> agent_message \<Rightarrow> model_descriptor option \<Rightarrow> session_clock \<Rightarrow> json \<times> session_clock" where
  "encode_message parser (UserMessage i text) model c =
     (case now_ms c of (ms, c) \<Rightarrow>
       (json_object [(''role'', JString ''user''), (''content'', JString text), (''timestamp'', session_number ms)], c))"
| "encode_message parser (AssistantMessage i text calls reason err) model c =
     (case now_ms c of (ms, c) \<Rightarrow>
       (json_object
         ([(''role'', JString ''assistant''),
           (''content'', JArray ((if text = [] then [] else [text_part text]) @ map (encode_call parser) calls)),
           (''provider'', JString (case model of Some m \<Rightarrow> md_provider m | None \<Rightarrow> [])),
           (''model'', JString (case model of Some m \<Rightarrow> md_model m | None \<Rightarrow> [])),
           (''stopReason'', JString (case reason of Some r \<Rightarrow> stop_reason_name r | None \<Rightarrow> ''stop'')),
           (''timestamp'', session_number ms)]
          @ (case err of Some e \<Rightarrow> [(''errorMessage'', JString e)] | None \<Rightarrow> [])), c))"
| "encode_message parser (ToolResultMessage i name r) model c =
     (case now_ms c of (ms, c) \<Rightarrow>
       (json_object
         ([(''role'', JString ''toolResult''), (''toolCallId'', JString (tool_call_id r)), (''toolName'', JString name),
           (''content'', JArray [text_part (content r)]),
           (''details'', case details r of Some d \<Rightarrow> parse_or_string parser d | None \<Rightarrow> JNull),
           (''usage'', case result_usage r of Some u \<Rightarrow> encode_usage u | None \<Rightarrow> JNull),
           (''isError'', JBool (is_error r)), (''timestamp'', session_number ms)]
          @ (if added_tool_names r \<noteq> [] then [(''addedToolNames'', JArray (map JString (added_tool_names r)))] else [])), c))"

definition entry_value :: "string \<Rightarrow> string \<Rightarrow> string option \<Rightarrow> string \<Rightarrow> (string \<times> json) list \<Rightarrow> json" where
  "entry_value kind i parent time rest = json_object
     ([(''type'', JString kind), (''id'', JString i), (''parentId'', opt_string parent), (''timestamp'', JString time)] @ rest)"

fun encode_messages ::
    "(string \<Rightarrow> mini option) \<Rightarrow> model_descriptor option \<Rightarrow> agent_message list \<Rightarrow> string \<Rightarrow> session_clock \<Rightarrow>
     json list \<times> session_clock" where
  "encode_messages parser model [] parent c = ([], c)"
| "encode_messages parser model (m # ms) parent c =
     (case entry_id c of (i, c) \<Rightarrow> case stamp c of (t, c) \<Rightarrow>
      case encode_message parser m model c of (v, c) \<Rightarrow>
      case encode_messages parser model ms i c of (vs, c) \<Rightarrow>
        (entry_value ''message'' i (Some parent) t [(''message'', v)] # vs, c))"

definition encode_header :: "session_record \<Rightarrow> json" where
  "encode_header r = json_object
     [(''type'', JString ''session''), (''version'', session_number session_version), (''id'', JString (sr_id r)),
      (''timestamp'', JString (sr_timestamp r)), (''cwd'', JString (sr_cwd r))]"

definition encode_model :: "model_descriptor option \<Rightarrow> session_clock \<Rightarrow> json list \<times> string option \<times> session_clock" where
  "encode_model model c = (case model of
       None \<Rightarrow> ([], None, c)
     | Some m \<Rightarrow>
         (case entry_id c of (i, c) \<Rightarrow> case stamp c of (t, c) \<Rightarrow>
           ([entry_value ''model_change'' i None t [(''provider'', JString (md_provider m)), (''modelId'', JString (md_model m))]],
            Some i, c)))"

definition encode_file :: "(string \<Rightarrow> mini option) \<Rightarrow> session_record \<Rightarrow> session_clock \<Rightarrow> json list \<times> session_clock" where
  "encode_file parser r c =
     (case encode_model (sr_model r) c of (model_entry, parent, c) \<Rightarrow>
      case entry_id c of (i, c) \<Rightarrow> case stamp c of (t, c) \<Rightarrow>
      case encode_messages parser (sr_model r) (sr_messages r) i c of (vs, c) \<Rightarrow>
        (encode_header r # model_entry
           @ entry_value ''thinking_level_change'' i parent t [(''thinkingLevel'', JString (thinking_name (sr_thinking r)))] # vs,
         c))"

section \<open>Reading\<close>

definition contract :: "string \<Rightarrow> string \<Rightarrow> session_error + 'a" where
  "contract path why = Inl (SessionContract path why)"

definition io_error :: "string \<Rightarrow> string \<Rightarrow> session_error + 'a" where
  "io_error path why = Inl (SessionIo path why)"

definition expect_object :: "string \<Rightarrow> json \<Rightarrow> session_error + json btree" where
  "expect_object path v = (case as_object v of Some es \<Rightarrow> Inr es | None \<Rightarrow> contract path ''entry must be an object'')"

definition session_string :: "string \<Rightarrow> json btree \<Rightarrow> string \<Rightarrow> session_error + string" where
  "session_string path es key = (case Option.bind (btree_get es key) as_str of
       Some s \<Rightarrow> Inr s | None \<Rightarrow> contract path (key @ '' must be a string''))"

definition opt_string_at :: "string \<Rightarrow> json btree \<Rightarrow> string \<Rightarrow> session_error + string option" where
  "opt_string_at path es key = (case btree_get es key of
       None \<Rightarrow> Inr None
     | Some JNull \<Rightarrow> Inr None
     | Some (JString s) \<Rightarrow> Inr (Some s)
     | Some _ \<Rightarrow> contract path (key @ '' must be a string or null''))"

definition parse_thinking :: "texts \<Rightarrow> string \<Rightarrow> string \<Rightarrow> session_error + thinking_level" where
  "parse_thinking tx path s =
     (if s = ''off'' then Inr Off else if s = ''minimal'' then Inr Minimal else if s = ''low'' then Inr Low
      else if s = ''medium'' then Inr Medium else if s = ''high'' then Inr High else if s = ''xhigh'' then Inr XHigh
      else if s = ''max'' then Inr MaxLevel else contract path (''unknown thinking level '' @ debug_str tx s))"

definition parse_stop_reason :: "texts \<Rightarrow> string \<Rightarrow> string \<Rightarrow> session_error + stop_reason" where
  "parse_stop_reason tx path s =
     (if s = ''pending'' \<or> s = ''deferred'' then Inr Stop else if s = ''stop'' then Inr Stop
      else if s = ''toolUse'' \<or> s = ''tool_use'' then Inr ToolUse else if s = ''length'' then Inr Length
      else if s = ''aborted'' then Inr Aborted else if s = ''error'' then Inr ErrorReason
      else if s = ''cancelled'' then Inr CancelledReason else contract path (''unknown stop reason '' @ debug_str tx s))"

text \<open>\<open>transpose\<close>: nothing, or what the conversion gives.\<close>

definition when_some :: "('a \<Rightarrow> 'e + 'b) \<Rightarrow> 'a option \<Rightarrow> 'e + 'b option" where
  "when_some f v = (case v of None \<Rightarrow> Inr None | Some x \<Rightarrow> and_then (f x) (\<lambda>y. Inr (Some y)))"

definition printed_or_null :: "texts \<Rightarrow> json \<Rightarrow> string" where
  "printed_or_null tx v = (case to_json_string (mini_print tx) v of Inr s \<Rightarrow> s | Inl _ \<Rightarrow> ''null'')"

fun content_text :: "json list \<Rightarrow> string" where
  "content_text [] = []"
| "content_text (v # vs) = (case str_at v ''text'' of Some s \<Rightarrow> s | None \<Rightarrow> []) @ content_text vs"

definition decode_content :: "string \<Rightarrow> json option \<Rightarrow> session_error + string" where
  "decode_content path v = (case v of
       None \<Rightarrow> contract path ''message content is missing''
     | Some v \<Rightarrow> (case as_str v of
           Some s \<Rightarrow> Inr s
         | None \<Rightarrow> (case as_array v of
               None \<Rightarrow> contract path ''message content must be text or an array''
             | Some vs \<Rightarrow> Inr (content_text vs))))"

definition decode_call :: "texts \<Rightarrow> string \<Rightarrow> json btree \<Rightarrow> session_error + agent_tool_call" where
  "decode_call tx path es =
     and_then (session_string path es ''id'') (\<lambda>i.
     case tool_call_id_new i of
       Inl _ \<Rightarrow> contract path ''tool call ID cannot be empty''
     | Inr i \<Rightarrow>
         and_then (session_string path es ''name'') (\<lambda>name.
           Inr \<lparr>tc_id = i, tc_name = name,
             tc_arguments = (case btree_get es ''arguments'' of Some v \<Rightarrow> printed_or_null tx v | None \<Rightarrow> ''null'')\<rparr>))"

fun decode_blocks :: "texts \<Rightarrow> string \<Rightarrow> json list \<Rightarrow> string \<Rightarrow> agent_tool_call list \<Rightarrow> session_error + string \<times> agent_tool_call list" where
  "decode_blocks tx path [] text calls = Inr (text, calls)"
| "decode_blocks tx path (v # vs) text calls =
     and_then (expect_object path v) (\<lambda>es.
     and_then (session_string path es ''type'') (\<lambda>kind.
       if kind = ''text'' then and_then (session_string path es ''text'') (\<lambda>s. decode_blocks tx path vs (text @ s) calls)
       else if kind = ''toolCall'' then and_then (decode_call tx path es) (\<lambda>call. decode_blocks tx path vs text (calls @ [call]))
       else decode_blocks tx path vs text calls))"

definition decode_assistant_content :: "texts \<Rightarrow> string \<Rightarrow> json option \<Rightarrow> session_error + string \<times> agent_tool_call list" where
  "decode_assistant_content tx path v = (case v of
       None \<Rightarrow> contract path ''assistant content is missing''
     | Some v \<Rightarrow> (case as_str v of
           Some s \<Rightarrow> Inr (s, [])
         | None \<Rightarrow> (case as_array v of
               None \<Rightarrow> contract path ''assistant content must be text or an array''
             | Some vs \<Rightarrow> decode_blocks tx path vs [] [])))"

definition decode_serialized_json :: "texts \<Rightarrow> json option \<Rightarrow> serialized_json option" where
  "decode_serialized_json tx v = (case v of
       None \<Rightarrow> None | Some JNull \<Rightarrow> None | Some v \<Rightarrow> Some (printed_or_null tx v))"

definition decode_string_array :: "json option \<Rightarrow> string list" where
  "decode_string_array v = (case Option.bind v as_array of Some vs \<Rightarrow> List.map_filter as_str vs | None \<Rightarrow> [])"

definition json_scalar_text :: "texts \<Rightarrow> json \<Rightarrow> string option" where
  "json_scalar_text tx v = (case as_str v of
       Some s \<Rightarrow> Some s
     | None \<Rightarrow> (case to_json_string (mini_print tx) v of Inr s \<Rightarrow> Some s | Inl _ \<Rightarrow> None))"

definition decode_usage :: "texts \<Rightarrow> string \<Rightarrow> json option \<Rightarrow> session_error + usage option" where
  "decode_usage tx path v = (case v of
       None \<Rightarrow> Inr None
     | Some v \<Rightarrow>
         if is_null v then Inr None
         else and_then (expect_object path v) (\<lambda>es.
           Inr (Some \<lparr>input_tokens = Option.bind (btree_get es ''input'') as_u64,
             output_tokens = Option.bind (btree_get es ''output'') as_u64, reasoning_tokens = None,
             cache_read_tokens = Option.bind (btree_get es ''cacheRead'') as_u64,
             cache_write_tokens = Option.bind (btree_get es ''cacheWrite'') as_u64,
             cost = Option.bind (Option.bind (btree_get es ''cost'') (\<lambda>c. json_get c ''total'')) (json_scalar_text tx)\<rparr>)))"

definition decode_tool_result :: "texts \<Rightarrow> string \<Rightarrow> json btree \<Rightarrow> message_id \<Rightarrow> session_error + agent_message" where
  "decode_tool_result tx path es i =
     and_then (session_string path es ''toolCallId'') (\<lambda>call.
     case tool_call_id_new call of
       Inl _ \<Rightarrow> contract path ''toolCallId cannot be empty''
     | Inr call \<Rightarrow>
         and_then (session_string path es ''toolName'') (\<lambda>name.
         and_then (decode_content path (btree_get es ''content'')) (\<lambda>text.
         and_then (decode_usage tx path (btree_get es ''usage'')) (\<lambda>u.
           Inr (ToolResultMessage i name
             \<lparr>tool_call_id = call, content = text, details = decode_serialized_json tx (btree_get es ''details''),
              result_usage = u, added_tool_names = decode_string_array (btree_get es ''addedToolNames''),
              terminate = False,
              is_error = (case Option.bind (btree_get es ''isError'') as_bool of Some b \<Rightarrow> b | None \<Rightarrow> False),
              failure = None\<rparr>)))))"

definition decode_message :: "texts \<Rightarrow> string \<Rightarrow> json \<Rightarrow> message_id \<Rightarrow> session_error + agent_message" where
  "decode_message tx path v i =
     and_then (expect_object path v) (\<lambda>es.
     and_then (session_string path es ''role'') (\<lambda>role.
       if role = ''user'' then
         and_then (decode_content path (btree_get es ''content'')) (\<lambda>text. Inr (UserMessage i text))
       else if role = ''assistant'' then
         and_then (decode_assistant_content tx path (btree_get es ''content'')) (\<lambda>(text, calls).
         and_then (when_some (parse_stop_reason tx path) (Option.bind (btree_get es ''stopReason'') as_str)) (\<lambda>reason.
         and_then (opt_string_at path es ''errorMessage'') (\<lambda>err.
           Inr (AssistantMessage i text calls reason err))))
       else if role = ''toolResult'' then decode_tool_result tx path es i
       else contract path (''unsupported message role '' @ debug_str tx role)))"

definition named_model :: "string \<Rightarrow> string \<Rightarrow> model_descriptor" where
  "named_model provider model = \<lparr>md_provider = provider, md_model = model, md_revision = None\<rparr>"

text \<open>The model an assistant message names, when none is known.\<close>

definition learn_model :: "model_descriptor option \<Rightarrow> agent_message \<Rightarrow> json \<Rightarrow> model_descriptor option" where
  "learn_model model m v = (case model of
       Some d \<Rightarrow> Some d
     | None \<Rightarrow>
         if is_assistant m then (case (str_at v ''provider'', str_at v ''model'') of
             (Some p, Some n) \<Rightarrow> if p \<noteq> [] \<and> n \<noteq> [] then Some (named_model p n) else None
           | _ \<Rightarrow> None)
         else None)"

definition decode_entry :: "texts \<Rightarrow> string \<Rightarrow> json \<Rightarrow> session_record \<Rightarrow> session_error + session_record" where
  "decode_entry tx path v r =
     and_then (expect_object path v) (\<lambda>es.
     and_then (session_string path es ''type'') (\<lambda>kind.
       if kind = ''model_change'' then
         and_then (session_string path es ''provider'') (\<lambda>p.
         and_then (session_string path es ''modelId'') (\<lambda>n. Inr (r\<lparr>sr_model := Some (named_model p n)\<rparr>)))
       else if kind = ''thinking_level_change'' then
         and_then (session_string path es ''thinkingLevel'') (\<lambda>s.
         and_then (parse_thinking tx path s) (\<lambda>level. Inr (r\<lparr>sr_thinking := level\<rparr>)))
       else if kind = ''message'' then
         (case btree_get es ''message'' of
            None \<Rightarrow> contract path ''message entry has no message''
          | Some mv \<Rightarrow>
              and_then (decode_message tx path mv (of_nat (length (sr_messages r)) + 1)) (\<lambda>m.
                Inr (r\<lparr>sr_model := learn_model (sr_model r) m mv, sr_messages := sr_messages r @ [m]\<rparr>)))
       else Inr r))"

text \<open>The lines after the header; blank ones and those that do not parse are skipped.\<close>

fun decode_lines :: "texts \<Rightarrow> string \<Rightarrow> string list \<Rightarrow> session_record \<Rightarrow> session_error + session_record" where
  "decode_lines tx path [] r = Inr r"
| "decode_lines tx path (l # ls) r =
     (if trim l = [] then decode_lines tx path ls r
      else (case json_parse (mini_parse tx) l of
          Inl _ \<Rightarrow> decode_lines tx path ls r
        | Inr v \<Rightarrow> and_then (decode_entry tx path v r) (decode_lines tx path ls)))"

definition decode_header :: "texts \<Rightarrow> string \<Rightarrow> string \<Rightarrow> session_error + session_record" where
  "decode_header tx path l =
     (case json_parse (mini_parse tx) l of
        Inl e \<Rightarrow> Inl (SessionJson path 1 (display_json_error tx e))
      | Inr v \<Rightarrow>
          and_then (expect_object path v) (\<lambda>es.
          and_then (session_string path es ''type'') (\<lambda>kind.
          if kind \<noteq> ''session'' then contract path ''first entry is not a session header''
          else
            let version = (case Option.bind (btree_get es ''version'') as_u64 of Some n \<Rightarrow> n | None \<Rightarrow> 1)
            in if \<not> (1 \<le> version \<and> version \<le> session_version)
               then contract path (''unsupported session version '' @ decimal_text (unat version))
               else and_then (session_string path es ''id'') (\<lambda>i.
               case validate_session_id i of
                 Inl why \<Rightarrow> contract path why
               | Inr _ \<Rightarrow>
                   and_then (session_string path es ''timestamp'') (\<lambda>t.
                   let model = (case (Option.bind (btree_get es ''provider'') as_str, Option.bind (btree_get es ''modelId'') as_str) of
                          (Some p, Some n) \<Rightarrow> Some (named_model p n) | _ \<Rightarrow> None)
                   in and_then (when_some (parse_thinking tx path) (Option.bind (btree_get es ''thinkingLevel'') as_str)) (\<lambda>level.
                     Inr \<lparr>sr_id = i, sr_timestamp = t,
                       sr_cwd = (case Option.bind (btree_get es ''cwd'') as_str of Some s \<Rightarrow> s | None \<Rightarrow> []),
                       sr_model = model, sr_thinking = (case level of Some l \<Rightarrow> l | None \<Rightarrow> Off), sr_messages = []\<rparr>))))))"

definition decode_source :: "texts \<Rightarrow> string \<Rightarrow> string \<Rightarrow> session_error + session_record" where
  "decode_source tx path source = (case text_lines source of
       [] \<Rightarrow> contract path ''session has no header''
     | l # ls \<Rightarrow> and_then (decode_header tx path l) (decode_lines tx path ls))"

text \<open>A file: what \<open>metadata\<close> says of its length and what reading its bytes gives, each an error or a value.\<close>

definition decode_file :: "texts \<Rightarrow> string \<Rightarrow> string + nat \<Rightarrow> string + string \<Rightarrow> session_error + session_record" where
  "decode_file tx path meta body = (case meta of
       Inl why \<Rightarrow> io_error path why
     | Inr n \<Rightarrow>
         if max_session_bytes < n then contract path ''session exceeds the 16 MiB safety limit''
         else (case body of
             Inl why \<Rightarrow> io_error path why
           | Inr bs \<Rightarrow> (case from_utf8 bs of
                 None \<Rightarrow> io_error path ''stream did not contain valid UTF-8''
               | Some source \<Rightarrow> decode_source tx path source)))"

section \<open>The store\<close>

text \<open>
  One directory of sessions: its entries in the order the system lists them, each with its name, whether it is a
  regular file, its length and time of change in milliseconds (zero when the system does not tell), and what
  following it answers: the length \<open>metadata\<close> gives and its bytes.
\<close>

record session_entry =
  se_name :: string
  se_regular :: bool
  se_len :: nat
  se_modified :: nat
  se_size :: "string + nat"
  se_bytes :: "string + string"

datatype listing = NoDirectory | Unlistable string | Listed "session_entry option list"

definition join_path :: "string \<Rightarrow> string \<Rightarrow> string" where
  "join_path dir name = (if dir = [] \<or> last dir = CHR ''/'' then dir @ name else dir @ ''/'' @ name)"

text \<open>\<open>extension()\<close>: what follows the last dot of a name, unless that dot begins it.\<close>

definition name_extension :: "string \<Rightarrow> string option" where
  "name_extension name =
     (let ext = takeWhile (\<lambda>c. c \<noteq> CHR ''.'') (rev name);
          stem = drop (Suc (length ext)) (rev name)
      in if name = ''..'' \<or> length ext = length name \<or> stem = [] then None else Some (rev ext))"

definition session_file :: "session_entry \<Rightarrow> bool" where
  "session_file e \<longleftrightarrow> se_regular e \<and> name_extension (se_name e) = Some ''jsonl''"

definition decode_entry_file :: "texts \<Rightarrow> string \<Rightarrow> session_entry \<Rightarrow> session_error + session_record" where
  "decode_entry_file tx dir e = decode_file tx (join_path dir (se_name e)) (se_size e) (se_bytes e)"

definition holds_session :: "texts \<Rightarrow> string \<Rightarrow> string \<Rightarrow> session_entry \<Rightarrow> bool" where
  "holds_session tx dir i e \<longleftrightarrow> session_file e \<and>
     (case decode_entry_file tx dir e of Inr r \<Rightarrow> sr_id r = i | Inl _ \<Rightarrow> False)"

definition listed :: "session_entry option list \<Rightarrow> session_entry list" where
  "listed es = List.map_filter id es"

definition find_path :: "texts \<Rightarrow> string \<Rightarrow> listing \<Rightarrow> string \<Rightarrow> session_error + string option" where
  "find_path tx dir files i = (case files of
       NoDirectory \<Rightarrow> Inr None
     | Unlistable why \<Rightarrow> io_error dir why
     | Listed es \<Rightarrow> Inr (map_option (\<lambda>e. join_path dir (se_name e)) (find (holds_session tx dir i) (listed es))))"

text \<open>A path of the directory that is opened.\<close>

definition entry_at :: "string \<Rightarrow> listing \<Rightarrow> string \<Rightarrow> session_entry option" where
  "entry_at dir files path = (case files of
       Listed es \<Rightarrow> find (\<lambda>e. join_path dir (se_name e) = path) (listed es) | _ \<Rightarrow> None)"

definition not_found :: string where
  "not_found = ''entity not found''"

definition decode_path :: "texts \<Rightarrow> string \<Rightarrow> listing \<Rightarrow> string \<Rightarrow> session_error + session_record" where
  "decode_path tx dir files path = (case entry_at dir files path of
       None \<Rightarrow> io_error path ''No such file or directory (os error 2)''
     | Some e \<Rightarrow> decode_file tx path (se_size e) (se_bytes e))"

definition session_load :: "texts \<Rightarrow> string \<Rightarrow> listing \<Rightarrow> string \<Rightarrow> session_error + session_record" where
  "session_load tx dir files i =
     (case validate_session_id i of
        Inl why \<Rightarrow> contract dir why
      | Inr _ \<Rightarrow> and_then (find_path tx dir files i) (\<lambda>found.
          case found of None \<Rightarrow> io_error dir not_found | Some path \<Rightarrow> decode_path tx dir files path))"

record session_summary =
  ss_id :: string
  ss_modified :: u64
  ss_cwd :: string
  ss_model :: "model_descriptor option"
  ss_count :: nat

definition summary_of :: "texts \<Rightarrow> string \<Rightarrow> session_entry \<Rightarrow> session_summary option" where
  "summary_of tx dir e =
     (if \<not> session_file e \<or> max_session_bytes < se_len e then None
      else (case decode_entry_file tx dir e of
          Inl _ \<Rightarrow> None
        | Inr r \<Rightarrow> Some \<lparr>ss_id = sr_id r, ss_modified = of_nat (min (se_modified e) (2 ^ 64 - 1)), ss_cwd = sr_cwd r,
            ss_model = sr_model r, ss_count = length (sr_messages r)\<rparr>))"

text \<open>\<open>sort_by\<close> is stable: latest first, equal times by identifier.\<close>

definition latest_first :: "session_summary list \<Rightarrow> session_summary list" where
  "latest_first ss = sort_key (\<lambda>s. - uint (ss_modified s)) (sort_key ss_id ss)"

definition session_list :: "texts \<Rightarrow> string \<Rightarrow> listing \<Rightarrow> session_error + session_summary list" where
  "session_list tx dir files = (case files of
       NoDirectory \<Rightarrow> Inr []
     | Unlistable why \<Rightarrow> io_error dir why
     | Listed es \<Rightarrow> Inr (latest_first (List.map_filter (summary_of tx dir) (listed es))))"

section \<open>Saving\<close>

text \<open>
  What the system answers while a session is saved. A write that fails may leave some bytes; a replaced file
  gets the system's time. \<open>so_listing\<close> is the directory once it has been made.
\<close>

record session_system =
  so_root_link :: bool
  so_dir_link :: bool
  so_create :: "string option"
  so_dir :: "string + bool"
  so_private_root :: "string option"
  so_private_dir :: "string option"
  so_listing :: listing
  so_write :: "(string \<times> string) option"
  so_private_file :: "string option"
  so_rename :: "string option"
  so_time :: nat

definition answer :: "string \<Rightarrow> string option \<Rightarrow> session_error + unit" where
  "answer path outcome = (case outcome of None \<Rightarrow> Inr () | Some why \<Rightarrow> io_error path why)"

definition ensure_directory :: "session_system \<Rightarrow> string \<Rightarrow> string \<Rightarrow> session_error + unit" where
  "ensure_directory os home dir =
     (if so_root_link os then contract home ''session directories cannot be symlinks''
      else if so_dir_link os then contract dir ''session directories cannot be symlinks''
      else and_then (answer dir (so_create os)) (\<lambda>_.
        case so_dir os of
          Inl why \<Rightarrow> io_error dir why
        | Inr proper \<Rightarrow>
            if \<not> proper then contract dir ''session directory must be a real directory''
            else and_then (answer home (so_private_root os)) (\<lambda>_. answer dir (so_private_dir os))))"

definition regular_entry :: "string \<Rightarrow> string \<Rightarrow> nat \<Rightarrow> session_entry" where
  "regular_entry name body time = \<lparr>se_name = name, se_regular = True, se_len = length body, se_modified = time,
     se_size = Inr (length body), se_bytes = Inr body\<rparr>"

definition names_entry :: "string \<Rightarrow> session_entry option \<Rightarrow> bool" where
  "names_entry name e = (case e of Some e \<Rightarrow> se_name e = name | None \<Rightarrow> False)"

text \<open>Writing and renaming put an entry in the place of the one with its name, or after the others.\<close>

fun put_entry :: "session_entry \<Rightarrow> session_entry option list \<Rightarrow> session_entry option list" where
  "put_entry e [] = [Some e]"
| "put_entry e (f # fs) = (if names_entry (se_name e) f then Some e # fs else f # put_entry e fs)"

definition remove_entry :: "string \<Rightarrow> session_entry option list \<Rightarrow> session_entry option list" where
  "remove_entry name es = filter (\<lambda>e. \<not> names_entry name e) es"

definition on_entries :: "(session_entry option list \<Rightarrow> session_entry option list) \<Rightarrow> listing \<Rightarrow> listing" where
  "on_entries f files = (case files of Listed es \<Rightarrow> Listed (f es) | _ \<Rightarrow> files)"

definition printed_line :: "texts \<Rightarrow> json \<Rightarrow> json_error + string" where
  "printed_line tx v = and_then (to_json_string (mini_print tx) v) (\<lambda>l. Inr (l @ [newline]))"

fun printed_lines :: "texts \<Rightarrow> json list \<Rightarrow> json_error + string" where
  "printed_lines tx [] = Inr []"
| "printed_lines tx (v # vs) =
     and_then (printed_line tx v) (\<lambda>l. and_then (printed_lines tx vs) (\<lambda>ls. Inr (l @ ls)))"

text \<open>The name a session that has no file yet gets.\<close>

definition fresh_name :: "session_record \<Rightarrow> session_clock \<Rightarrow> string \<times> session_clock" where
  "fresh_name r c = (case filename_timestamp (sr_timestamp r) c of (t, c) \<Rightarrow> (t @ ''_'' @ sr_id r @ ''.jsonl'', c))"

definition temporary_name :: "u64 \<Rightarrow> string" where
  "temporary_name nonce = ''.session-'' @ decimal_text (unat nonce) @ ''.tmp''"

text \<open>Writing the bytes beside the destination and moving them over it.\<close>

definition replace_file ::
    "session_system \<Rightarrow> string \<Rightarrow> string \<Rightarrow> string \<Rightarrow> string \<Rightarrow> (session_error + string) \<times> listing" where
  "replace_file os dir temporary name body =
     (case so_write os of
        Some (written, why) \<Rightarrow>
          (io_error (join_path dir temporary) why, on_entries (put_entry (regular_entry temporary written (so_time os))) (so_listing os))
      | None \<Rightarrow>
          let wrote = on_entries (put_entry (regular_entry temporary body (so_time os))) (so_listing os);
              undone = on_entries (remove_entry temporary) wrote
          in (case so_private_file os of
                Some why \<Rightarrow> (io_error (join_path dir temporary) why, undone)
              | None \<Rightarrow> (case so_rename os of
                    Some why \<Rightarrow> (io_error (join_path dir name) why, undone)
                  | None \<Rightarrow> (Inr (join_path dir name), on_entries (put_entry (regular_entry name body (so_time os))) undone))))"

text \<open>The name a path of the directory ends in.\<close>

definition name_in :: "string \<Rightarrow> string \<Rightarrow> string" where
  "name_in dir path = drop (length (join_path dir [])) path"

definition save_to ::
    "texts \<Rightarrow> session_system \<Rightarrow> string \<Rightarrow> session_record \<Rightarrow> string \<Rightarrow> session_clock \<Rightarrow>
     (session_error + string) \<times> listing \<times> session_clock" where
  "save_to tx os dir r name c =
     (case encode_file (mini_parse tx) r c of (vs, c) \<Rightarrow>
      case printed_lines tx vs of
        Inl e \<Rightarrow> (Inl (SessionJson (join_path dir name) 0 (display_json_error tx e)), so_listing os, c)
      | Inr source \<Rightarrow>
          if max_session_bytes < length source
          then (contract (join_path dir name) ''session exceeds the 16 MiB safety limit'', so_listing os, c)
          else (case take_id c of (nonce, c) \<Rightarrow>
                case replace_file os dir (temporary_name nonce) name source of (result, files) \<Rightarrow> (result, files, c)))"

definition session_save ::
    "texts \<Rightarrow> session_system \<Rightarrow> string \<Rightarrow> string \<Rightarrow> session_record \<Rightarrow> session_clock \<Rightarrow>
     (session_error + string) \<times> listing \<times> session_clock" where
  "session_save tx os home dir r c =
     (case validate_session_id (sr_id r) of
        Inl why \<Rightarrow> (contract dir why, so_listing os, c)
      | Inr _ \<Rightarrow> (case ensure_directory os home dir of
            Inl e \<Rightarrow> (Inl e, so_listing os, c)
          | Inr _ \<Rightarrow> (case find_path tx dir (so_listing os) (sr_id r) of
                Inl e \<Rightarrow> (Inl e, so_listing os, c)
              | Inr (Some path) \<Rightarrow> save_to tx os dir r (name_in dir path) c
              | Inr None \<Rightarrow> (case fresh_name r c of (name, c) \<Rightarrow> save_to tx os dir r name c))))"

section \<open>What is read back\<close>

definition reprinted :: "texts \<Rightarrow> serialized_json \<Rightarrow> serialized_json" where
  "reprinted tx s = printed_or_null tx (parse_or_string (mini_parse tx) s)"

definition saved_call :: "texts \<Rightarrow> agent_tool_call \<Rightarrow> agent_tool_call" where
  "saved_call tx call = call\<lparr>tc_arguments := reprinted tx (tc_arguments call)\<rparr>"

definition saved_usage :: "texts \<Rightarrow> usage \<Rightarrow> usage" where
  "saved_usage tx u = u\<lparr>reasoning_tokens := None,
     cost := Some (case cost u of Some t \<Rightarrow> t | None \<Rightarrow> mini_print tx MNull)\<rparr>"

definition saved_details :: "texts \<Rightarrow> serialized_json \<Rightarrow> serialized_json option" where
  "saved_details tx d = (if is_null (parse_or_string (mini_parse tx) d) then None else Some (reprinted tx d))"

fun saved_message :: "texts \<Rightarrow> message_id \<Rightarrow> agent_message \<Rightarrow> agent_message" where
  "saved_message tx i (UserMessage _ text) = UserMessage i text"
| "saved_message tx i (AssistantMessage _ text calls reason err) =
     AssistantMessage i text (map (saved_call tx) calls) (Some (case reason of Some r \<Rightarrow> r | None \<Rightarrow> Stop)) err"
| "saved_message tx i (ToolResultMessage _ name r) = ToolResultMessage i name
     (r\<lparr>details := Option.bind (details r) (saved_details tx), result_usage := map_option (saved_usage tx) (result_usage r),
        terminate := False, failure := None\<rparr>)"

definition saved_messages :: "texts \<Rightarrow> nat \<Rightarrow> agent_message list \<Rightarrow> agent_message list" where
  "saved_messages tx n ms = map (\<lambda>(k, m). saved_message tx (of_nat k + 1) m) (zip [n..<n + length ms] ms)"

definition saved_model :: "model_descriptor \<Rightarrow> model_descriptor" where
  "saved_model m = m\<lparr>md_revision := None\<rparr>"

definition saved_record :: "texts \<Rightarrow> session_record \<Rightarrow> session_record" where
  "saved_record tx r = r\<lparr>sr_model := map_option saved_model (sr_model r), sr_messages := saved_messages tx 0 (sr_messages r)\<rparr>"

text \<open>\<open>ToolCallId\<close> is made of a text that is not empty.\<close>

fun named_calls :: "agent_message \<Rightarrow> bool" where
  "named_calls (UserMessage i text) \<longleftrightarrow> True"
| "named_calls (AssistantMessage i text calls reason err) \<longleftrightarrow> (\<forall>c \<in> set calls. tc_id c \<noteq> [])"
| "named_calls (ToolResultMessage i name r) \<longleftrightarrow> tool_call_id r \<noteq> []"

lemma expect_object_object [simp]: "expect_object path (json_object kvs) = Inr (btree_collect kvs)"
  by (simp add: expect_object_def)

lemma session_string_get: "btree_get es key = Some (JString s) \<Longrightarrow> session_string path es key = Inr s"
  by (simp add: session_string_def)

lemma call_kind: "''toolCall'' \<noteq> ''text''" by simp

lemma decode_blocks_calls:
  assumes "\<forall>c \<in> set calls. tc_id c \<noteq> []"
  shows "decode_blocks tx path (map (encode_call (mini_parse tx)) calls) text acc = Inr (text, acc @ map (saved_call tx) calls)"
  using assms
proof (induction calls arbitrary: acc)
  case (Cons c calls)
  let ?es = "btree_collect [(''type'', JString ''toolCall''), (''id'', JString (tc_id c)), (''name'', JString (tc_name c)),
      (''arguments'', parse_or_string (mini_parse tx) (tc_arguments c))]"
  have get: "btree_get ?es ''type'' = Some (JString ''toolCall'')" "btree_get ?es ''id'' = Some (JString (tc_id c))"
      "btree_get ?es ''name'' = Some (JString (tc_name c))" "btree_get ?es ''arguments'' = Some (parse_or_string (mini_parse tx) (tc_arguments c))"
    by (subst field_get; simp)+
  have call: "decode_call tx path ?es = Inr (saved_call tx c)"
    using Cons.prems by (simp add: decode_call_def session_string_get [OF get(2)] session_string_get [OF get(3)] get(4) tool_call_id_new_def saved_call_def reprinted_def)
  have "encode_call (mini_parse tx) c = json_object [(''type'', JString ''toolCall''), (''id'', JString (tc_id c)), (''name'', JString (tc_name c)),
      (''arguments'', parse_or_string (mini_parse tx) (tc_arguments c))]" by (simp add: encode_call_def)
  then show ?case
    using Cons.IH [of "acc @ [saved_call tx c]"] Cons.prems by (simp add: session_string_get [OF get(1)] call)
qed simp

lemma decode_written_content:
  assumes "\<forall>c \<in> set calls. tc_id c \<noteq> []"
  shows "decode_assistant_content tx path
     (Some (JArray ((if text = [] then [] else [text_part text]) @ map (encode_call (mini_parse tx)) calls))) =
     Inr (text, map (saved_call tx) calls)"
proof (cases "text = []")
  case True
  then show ?thesis using decode_blocks_calls [OF assms, of tx path "[]" "[]"] by (simp add: decode_assistant_content_def)
next
  case False
  let ?es = "btree_collect [(''type'', JString ''text''), (''text'', JString text)]"
  have get: "btree_get ?es ''type'' = Some (JString ''text'')" "btree_get ?es ''text'' = Some (JString text)"
    by (subst field_get; simp)+
  show ?thesis
    using False decode_blocks_calls [OF assms, of tx path "text" "[]"]
    by (simp add: decode_assistant_content_def text_part_def session_string_get [OF get(1)] session_string_get [OF get(2)])
qed

lemma optional_number_read [simp]: "as_u64 (optional_number v) = v"
  by (simp add: optional_number_def session_number_def split: option.split)

lemma printed_null: "to_json_string printer JNull = Inr (printer MNull)"
  by (simp add: to_json_string_def)

lemma decode_encoded_usage: "decode_usage tx path (Some (encode_usage u)) = Inr (Some (saved_usage tx u))"
proof -
  let ?cost = "[(''input'', JNull), (''output'', JNull), (''cacheRead'', JNull), (''cacheWrite'', JNull),
          (''total'', opt_string (cost u))]"
  define total where "total = (case (input_tokens u, output_tokens u) of
          (Some i, Some out) \<Rightarrow> session_number (sat_add i out) | _ \<Rightarrow> JNull)"
  let ?es = "btree_collect [(''input'', optional_number (input_tokens u)), (''output'', optional_number (output_tokens u)),
      (''cacheRead'', optional_number (cache_read_tokens u)), (''cacheWrite'', optional_number (cache_write_tokens u)),
      (''totalTokens'', total), (''cost'', json_object ?cost)]"
  have get: "btree_get ?es ''input'' = Some (optional_number (input_tokens u))"
      "btree_get ?es ''output'' = Some (optional_number (output_tokens u))"
      "btree_get ?es ''cacheRead'' = Some (optional_number (cache_read_tokens u))"
      "btree_get ?es ''cacheWrite'' = Some (optional_number (cache_write_tokens u))"
      "btree_get ?es ''cost'' = Some (json_object ?cost)"
    by (subst field_get; simp)+
  have tot: "json_get (json_object ?cost) ''total'' = Some (opt_string (cost u))" by (subst json_get_object; simp)
  have read: "json_scalar_text tx (opt_string v) = Some (case v of Some t \<Rightarrow> t | None \<Rightarrow> mini_print tx MNull)" for v
    by (cases v) (simp_all add: json_scalar_text_def opt_string_def printed_null)
  have "encode_usage u = JObject ?es" by (simp add: encode_usage_def json_object_def total_def)
  then have "decode_usage tx path (Some (encode_usage u)) = Inr (Some \<lparr>input_tokens = input_tokens u,
      output_tokens = output_tokens u, reasoning_tokens = None, cache_read_tokens = cache_read_tokens u,
      cache_write_tokens = cache_write_tokens u,
      cost = Some (case cost u of Some t \<Rightarrow> t | None \<Rightarrow> mini_print tx MNull)\<rparr>)"
    by (simp add: decode_usage_def expect_object_def get tot read)
  then show ?thesis by (cases u) (simp add: saved_usage_def)
qed

lemma parse_stop_reason_name: "parse_stop_reason tx path (stop_reason_name r) = Inr r"
  by (cases r) (simp_all add: parse_stop_reason_def)

lemma parse_thinking_name: "parse_thinking tx path (thinking_name l) = Inr l"
  by (cases l) (simp_all add: parse_thinking_def)

lemma json_object_parts: "json_object kvs = JObject (btree_collect kvs)"
  by (rule object_fields)

lemma decode_encoded_user:
  "decode_message tx path (json_object [(''role'', JString ''user''), (''content'', JString s), (''timestamp'', v)]) i =
     Inr (UserMessage i s)"
proof -
  let ?es = "btree_collect [(''role'', JString ''user''), (''content'', JString s), (''timestamp'', v)]"
  have get: "btree_get ?es ''role'' = Some (JString ''user'')" "btree_get ?es ''content'' = Some (JString s)"
    by (subst field_get; simp)+
  show ?thesis by (simp add: decode_message_def session_string_get [OF get(1)] get(2) decode_content_def)
qed

lemma decode_encoded_assistant:
  assumes "\<forall>c \<in> set calls. tc_id c \<noteq> []"
  shows "decode_message tx path (fst (encode_message (mini_parse tx) (AssistantMessage k s calls reason err) model c)) i =
     Inr (saved_message tx i (AssistantMessage k s calls reason err))"
proof -
  define parts where "parts = JArray ((if s = [] then [] else [text_part s]) @ map (encode_call (mini_parse tx)) calls)"
  define why where "why = stop_reason_name (case reason of Some r \<Rightarrow> r | None \<Rightarrow> Stop)"
  define kvs where "kvs = [(''role'', JString ''assistant''), (''content'', parts),
     (''provider'', JString (case model of Some m \<Rightarrow> md_provider m | None \<Rightarrow> [])),
     (''model'', JString (case model of Some m \<Rightarrow> md_model m | None \<Rightarrow> [])),
     (''stopReason'', JString why), (''timestamp'', session_number (fst (now_ms c)))]
     @ (case err of Some e \<Rightarrow> [(''errorMessage'', JString e)] | None \<Rightarrow> [])"
  have name: "(case reason of Some r \<Rightarrow> stop_reason_name r | None \<Rightarrow> ''stop'') = why"
    by (cases reason) (simp_all add: why_def)
  have fields: "fst (encode_message (mini_parse tx) (AssistantMessage k s calls reason err) model c) = JObject (btree_collect kvs)"
    by (simp add: kvs_def name parts_def json_object_def split: prod.split)
  have "distinct (map fst kvs)" by (cases err) (simp_all add: kvs_def)
  note get = field_get [OF this]
  have role: "btree_get (btree_collect kvs) ''role'' = Some (JString ''assistant'')" by (simp add: get) (simp add: kvs_def)
  have parts': "btree_get (btree_collect kvs) ''content'' = Some parts" by (simp add: get) (simp add: kvs_def)
  have reason': "btree_get (btree_collect kvs) ''stopReason'' = Some (JString why)" by (simp add: get) (simp add: kvs_def)
  have err': "btree_get (btree_collect kvs) ''errorMessage'' = map_option JString err"
    by (simp add: get) (cases err; simp add: kvs_def)
  have read: "decode_assistant_content tx path (Some parts) = Inr (s, map (saved_call tx) calls)"
    unfolding parts_def by (rule decode_written_content [OF assms])
  have known: "parse_stop_reason tx path why = Inr (case reason of Some r \<Rightarrow> r | None \<Rightarrow> Stop)"
    unfolding why_def by (rule parse_stop_reason_name)
  have message: "opt_string_at path (btree_collect kvs) ''errorMessage'' = Inr err"
    by (simp add: opt_string_at_def err' split: option.split)
  show ?thesis
    by (simp only: fields) (simp add: decode_message_def expect_object_def session_string_get [OF role] parts' read reason' when_some_def known message)
qed

lemma map_filter_strings: "List.map_filter as_str (map JString ss) = ss"
  by (induction ss) (simp_all add: List.map_filter_simps)

lemma decode_encoded_result:
  assumes "tool_call_id r \<noteq> []"
  shows "decode_message tx path (fst (encode_message (mini_parse tx) (ToolResultMessage k name r) model c)) i =
     Inr (saved_message tx i (ToolResultMessage k name r))"
proof -
  define dets where "dets = (case details r of Some d \<Rightarrow> parse_or_string (mini_parse tx) d | None \<Rightarrow> JNull)"
  define used where "used = (case result_usage r of Some u \<Rightarrow> encode_usage u | None \<Rightarrow> JNull)"
  define kvs where "kvs = [(''role'', JString ''toolResult''), (''toolCallId'', JString (tool_call_id r)), (''toolName'', JString name),
           (''content'', JArray [text_part (content r)]), (''details'', dets), (''usage'', used),
           (''isError'', JBool (is_error r)), (''timestamp'', session_number (fst (now_ms c)))]
          @ (if added_tool_names r \<noteq> [] then [(''addedToolNames'', JArray (map JString (added_tool_names r)))] else [])"
  have fields: "fst (encode_message (mini_parse tx) (ToolResultMessage k name r) model c) = JObject (btree_collect kvs)"
    by (simp add: kvs_def dets_def used_def json_object_def split: prod.split)
  have "distinct (map fst kvs)" by (simp add: kvs_def)
  note get = field_get [OF this]
  have role: "btree_get (btree_collect kvs) ''role'' = Some (JString ''toolResult'')" by (simp add: get) (simp add: kvs_def)
  have call: "btree_get (btree_collect kvs) ''toolCallId'' = Some (JString (tool_call_id r))" by (simp add: get) (simp add: kvs_def)
  have name': "btree_get (btree_collect kvs) ''toolName'' = Some (JString name)" by (simp add: get) (simp add: kvs_def)
  have parts: "btree_get (btree_collect kvs) ''content'' = Some (JArray [text_part (content r)])" by (simp add: get) (simp add: kvs_def)
  have dets': "btree_get (btree_collect kvs) ''details'' = Some dets" by (simp add: get) (simp add: kvs_def)
  have used': "btree_get (btree_collect kvs) ''usage'' = Some used" by (simp add: get) (simp add: kvs_def)
  have flag: "btree_get (btree_collect kvs) ''isError'' = Some (JBool (is_error r))" by (simp add: get) (simp add: kvs_def)
  have added: "btree_get (btree_collect kvs) ''addedToolNames'' =
      (if added_tool_names r \<noteq> [] then Some (JArray (map JString (added_tool_names r))) else None)"
    by (simp add: get) (simp add: kvs_def)
  have texts: "decode_content path (Some (JArray [text_part s])) = Inr s" for s
  proof -
    have "json_get (text_part s) ''text'' = Some (JString s)" unfolding text_part_def by (subst json_get_object; simp)
    then show ?thesis by (simp add: decode_content_def str_at_def)
  qed
  have tools: "decode_string_array (if added_tool_names r \<noteq> [] then Some (JArray (map JString (added_tool_names r))) else None) = added_tool_names r"
    by (simp add: decode_string_array_def map_filter_strings)
  have usage: "decode_usage tx path (Some used) = Inr (map_option (saved_usage tx) (result_usage r))"
    by (cases "result_usage r") (simp_all add: used_def decode_encoded_usage, simp add: decode_usage_def)
  have detail: "decode_serialized_json tx (Some dets) = Option.bind (details r) (saved_details tx)"
    by (cases "details r") (auto simp: dets_def decode_serialized_json_def saved_details_def reprinted_def split: json.split)
  have "decode_tool_result tx path (btree_collect kvs) i = Inr (ToolResultMessage i name
      \<lparr>tool_call_id = tool_call_id r, content = content r, details = Option.bind (details r) (saved_details tx),
       result_usage = map_option (saved_usage tx) (result_usage r), added_tool_names = added_tool_names r,
       terminate = False, is_error = is_error r, failure = None\<rparr>)"
    using assms unfolding decode_tool_result_def session_string_get [OF call] session_string_get [OF name'] parts dets' used' flag added texts tools usage detail
    by (simp add: tool_call_id_new_def)
  then have "decode_tool_result tx path (btree_collect kvs) i = Inr (saved_message tx i (ToolResultMessage k name r))"
    by (cases r) simp
  then show ?thesis
    by (simp only: fields) (simp add: decode_message_def expect_object_def session_string_get [OF role])
qed

lemma decode_encoded_message:
  "named_calls m \<Longrightarrow> decode_message tx path (fst (encode_message (mini_parse tx) m model c)) i = Inr (saved_message tx i m)"
proof (cases m)
  case (UserMessage k s)
  then show ?thesis by (simp add: decode_encoded_user split: prod.split)
next
  case (AssistantMessage k s calls reason err)
  then show "named_calls m \<Longrightarrow> ?thesis" using decode_encoded_assistant by simp
next
  case (ToolResultMessage k name r)
  then show "named_calls m \<Longrightarrow> ?thesis" using decode_encoded_result by simp
qed

lemma saved_assistant [simp]: "is_assistant (saved_message tx i m) = is_assistant m"
  by (cases m) simp_all

lemma learn_saved_model:
  "learn_model (map_option saved_model model) (saved_message tx i m) (fst (encode_message parser m model c)) = map_option saved_model model"
proof (cases model)
  case None
  have "str_at (fst (encode_message parser m None c)) ''provider'' = Some []" if "is_assistant m"
  proof -
    obtain k s calls reason err where m: "m = AssistantMessage k s calls reason err" using \<open>is_assistant m\<close> by (cases m) auto
    have "json_get (fst (encode_message parser m None c)) ''provider'' = Some (JString [])"
      unfolding m by (cases err; simp split: prod.split)
    then show ?thesis by (simp add: str_at_def)
  qed
  then show ?thesis using None by (simp add: learn_model_def split: option.split)
qed (simp add: learn_model_def)

lemma entry_fields:
  assumes "distinct (map fst rest)" and "set (map fst rest) \<inter> {''type'', ''id'', ''parentId'', ''timestamp''} = {}"
  shows "\<exists>es. entry_value kind i parent t rest = JObject es \<and> btree_get es ''type'' = Some (JString kind) \<and>
    (\<forall>k v. map_of rest k = Some v \<longrightarrow> btree_get es k = Some v)"
proof -
  let ?kvs = "[(''type'', JString kind), (''id'', JString i), (''parentId'', opt_string parent), (''timestamp'', JString t)] @ rest"
  have "distinct (map fst ?kvs)" using assms by auto
  note get = field_get [OF this]
  have "btree_get (btree_collect ?kvs) k = Some v" if "map_of rest k = Some v" for k v
  proof -
    have "k \<in> set (map fst rest)" using that by (auto simp: map_of_eq_None_iff dest: map_of_SomeD intro: rev_image_eqI)
    then have "k \<noteq> ''type''" "k \<noteq> ''id''" "k \<noteq> ''parentId''" "k \<noteq> ''timestamp''" using assms(2) by blast+
    then show ?thesis using that by (simp only: get) simp
  qed
  moreover have "btree_get (btree_collect ?kvs) ''type'' = Some (JString kind)" by (simp only: get) simp
  ultimately show ?thesis unfolding entry_value_def json_object_def by blast
qed

lemma decode_message_entry:
  assumes "named_calls m" and "sr_model r = map_option saved_model model"
  shows "decode_entry tx path (entry_value ''message'' i parent t [(''message'', fst (encode_message (mini_parse tx) m model c))]) r =
    Inr (r\<lparr>sr_messages := sr_messages r @ [saved_message tx (of_nat (length (sr_messages r)) + 1) m]\<rparr>)"
proof -
  let ?v = "fst (encode_message (mini_parse tx) m model c)"
  obtain es where es: "entry_value ''message'' i parent t [(''message'', ?v)] = JObject es"
      "btree_get es ''type'' = Some (JString ''message'')" "btree_get es ''message'' = Some ?v"
    using entry_fields [of "[(''message'', ?v)]" "''message''" i parent t] by auto
  have same: "r\<lparr>sr_model := map_option saved_model model, sr_messages := xs\<rparr> = r\<lparr>sr_messages := xs\<rparr>" for xs
    using assms(2) by (cases r) simp
  show ?thesis
    unfolding es(1)
    by (simp add: decode_entry_def expect_object_def session_string_get [OF es(2)] es(3) decode_encoded_message [OF assms(1)]
        assms(2) learn_saved_model same)
qed

lemma decode_thinking_entry:
  "decode_entry tx path (entry_value ''thinking_level_change'' i parent t [(''thinkingLevel'', JString (thinking_name l))]) r =
    Inr (r\<lparr>sr_thinking := l\<rparr>)"
proof -
  obtain es where es: "entry_value ''thinking_level_change'' i parent t [(''thinkingLevel'', JString (thinking_name l))] = JObject es"
      "btree_get es ''type'' = Some (JString ''thinking_level_change'')" "btree_get es ''thinkingLevel'' = Some (JString (thinking_name l))"
    using entry_fields [of "[(''thinkingLevel'', JString (thinking_name l))]" "''thinking_level_change''" i parent t] by auto
  show ?thesis unfolding es(1)
    by (simp add: decode_entry_def expect_object_def session_string_get [OF es(2)] session_string_get [OF es(3)] parse_thinking_name)
qed

lemma decode_model_entry:
  "decode_entry tx path (entry_value ''model_change'' i parent t [(''provider'', JString (md_provider m)), (''modelId'', JString (md_model m))]) r =
    Inr (r\<lparr>sr_model := Some (saved_model m)\<rparr>)"
proof -
  let ?rest = "[(''provider'', JString (md_provider m)), (''modelId'', JString (md_model m))]"
  obtain es where es: "entry_value ''model_change'' i parent t ?rest = JObject es"
      "btree_get es ''type'' = Some (JString ''model_change'')" and get: "\<And>k v. map_of ?rest k = Some v \<Longrightarrow> btree_get es k = Some v"
    using entry_fields [of ?rest "''model_change''" i parent t] by auto
  have "btree_get es ''provider'' = Some (JString (md_provider m))" "btree_get es ''modelId'' = Some (JString (md_model m))"
    by (rule get; simp)+
  note fields = this
  have "named_model (md_provider m) (md_model m) = saved_model m" by (cases m) (simp add: named_model_def saved_model_def)
  then show ?thesis unfolding es(1)
    by (simp add: decode_entry_def expect_object_def session_string_get [OF es(2)] session_string_get [OF fields(1)]
        session_string_get [OF fields(2)])
qed

text \<open>The entries after the header, read one after another.\<close>

fun decode_entries :: "texts \<Rightarrow> string \<Rightarrow> json list \<Rightarrow> session_record \<Rightarrow> session_error + session_record" where
  "decode_entries tx path [] r = Inr r"
| "decode_entries tx path (v # vs) r = and_then (decode_entry tx path v r) (decode_entries tx path vs)"

lemma saved_messages_Cons:
  "saved_messages tx n (m # ms) = saved_message tx (of_nat n + 1) m # saved_messages tx (Suc n) ms"
proof -
  have "n < n + length (m # ms)" by simp
  from upt_conv_Cons [OF this] have "[n..<n + length (m # ms)] = n # [Suc n..<Suc n + length ms]" by simp
  then show ?thesis by (simp only: saved_messages_def zip_Cons_Cons list.map) simp
qed

lemma saved_messages_Nil: "saved_messages tx n [] = []"
  by (simp add: saved_messages_def)

lemma decode_encoded_messages:
  "\<forall>m \<in> set ms. named_calls m \<Longrightarrow> sr_model r = map_option saved_model model \<Longrightarrow>
     decode_entries tx path (fst (encode_messages (mini_parse tx) model ms parent c)) r =
     Inr (r\<lparr>sr_messages := sr_messages r @ saved_messages tx (length (sr_messages r)) ms\<rparr>)"
proof (induction ms arbitrary: parent c r)
  case Nil
  then show ?case by (simp add: saved_messages_Nil)
next
  case (Cons m ms)
  obtain i c1 where i: "entry_id c = (i, c1)" by fastforce
  obtain t c2 where t: "stamp c1 = (t, c2)" by fastforce
  obtain v c3 where v: "encode_message (mini_parse tx) m model c2 = (v, c3)" by fastforce
  obtain vs c4 where vs: "encode_messages (mini_parse tx) model ms i c3 = (vs, c4)" by fastforce
  let ?r = "r\<lparr>sr_messages := sr_messages r @ [saved_message tx (of_nat (length (sr_messages r)) + 1) m]\<rparr>"
  have "decode_entry tx path (entry_value ''message'' i (Some parent) t [(''message'', v)]) r = Inr ?r"
    using decode_message_entry [of m r model tx path i "Some parent" t c2] Cons.prems v by simp
  moreover have "decode_entries tx path vs ?r =
      Inr (?r\<lparr>sr_messages := sr_messages ?r @ saved_messages tx (length (sr_messages ?r)) ms\<rparr>)"
    using Cons.IH [of ?r i c3] Cons.prems vs by simp
  ultimately show ?case by (simp add: i t v vs saved_messages_Cons)
qed

lemma decode_encoded_file:
  assumes "\<forall>m \<in> set (sr_messages r). named_calls m" and "validate_session_id (sr_id r) = Inr ()"
    and "json_parse (mini_parse tx) l = Inr (encode_header r)"
  shows "\<exists>r0. decode_header tx path l = Inr r0 \<and>
    decode_entries tx path (tl (fst (encode_file (mini_parse tx) r c))) r0 = Inr (saved_record tx r)"
proof -
  let ?kvs = "[(''type'', JString ''session''), (''version'', session_number session_version), (''id'', JString (sr_id r)),
      (''timestamp'', JString (sr_timestamp r)), (''cwd'', JString (sr_cwd r))]"
  let ?es = "btree_collect ?kvs"
  have get: "btree_get ?es ''type'' = Some (JString ''session'')" "btree_get ?es ''version'' = Some (session_number session_version)"
      "btree_get ?es ''id'' = Some (JString (sr_id r))" "btree_get ?es ''timestamp'' = Some (JString (sr_timestamp r))"
      "btree_get ?es ''cwd'' = Some (JString (sr_cwd r))" "btree_get ?es ''provider'' = None"
      "btree_get ?es ''thinkingLevel'' = None"
    by (subst field_get; simp)+
  let ?r0 = "\<lparr>sr_id = sr_id r, sr_timestamp = sr_timestamp r, sr_cwd = sr_cwd r, sr_model = None, sr_thinking = Off, sr_messages = []\<rparr>"
  have header: "encode_header r = JObject ?es" by (simp add: encode_header_def json_object_def)
  have version: "as_u64 (session_number session_version) = Some session_version" "1 \<le> session_version"
    by (simp_all add: session_number_def session_version_def)
  have head: "decode_header tx path l = Inr ?r0"
    using assms(2,3) by (simp add: header decode_header_def expect_object_def session_string_get [OF get(1)]
        session_string_get [OF get(3)] session_string_get [OF get(4)] get(2,5,6,7) version when_some_def)
  obtain model_entry parent c1 where m: "encode_model (sr_model r) c = (model_entry, parent, c1)" by (cases "encode_model (sr_model r) c") auto
  obtain i c2 where i: "entry_id c1 = (i, c2)" by fastforce
  obtain t c3 where t: "stamp c2 = (t, c3)" by fastforce
  obtain vs c4 where vs: "encode_messages (mini_parse tx) (sr_model r) (sr_messages r) i c3 = (vs, c4)" by fastforce
  let ?r1 = "?r0\<lparr>sr_model := map_option saved_model (sr_model r)\<rparr>"
  have model: "decode_entries tx path (model_entry @ rest) ?r0 = decode_entries tx path rest ?r1" for rest
    using m by (cases "sr_model r") (auto simp: encode_model_def decode_model_entry split: prod.splits)
  let ?r2 = "?r1\<lparr>sr_thinking := sr_thinking r\<rparr>"
  have messages: "decode_entries tx path vs ?r2 = Inr (?r2\<lparr>sr_messages := saved_messages tx 0 (sr_messages r)\<rparr>)"
    using decode_encoded_messages [of "sr_messages r" ?r2 "sr_model r" tx path i c3] assms(1) vs by simp
  have "?r2\<lparr>sr_messages := saved_messages tx 0 (sr_messages r)\<rparr> = saved_record tx r"
    by (cases r) (simp add: saved_record_def)
  then have "decode_entries tx path (tl (fst (encode_file (mini_parse tx) r c))) ?r0 = Inr (saved_record tx r)"
    using messages by (simp add: encode_file_def m i t vs model decode_thinking_entry)
  then show ?thesis using head by blast
qed

section \<open>Lines of a file\<close>

text \<open>Every object the code makes is in key order and every number finite, so every entry can be printed.\<close>

definition sound :: "json \<Rightarrow> bool" where
  "sound v \<longleftrightarrow> json_ok v \<and> json_finite v"

lemma sound_simps [simp]: "sound JNull" "sound (JString s)" "sound (JBool b)" "sound (session_number n)"
  "sound (optional_number on)" "sound (opt_string os)" "sound (JArray vs) \<longleftrightarrow> (\<forall>v \<in> set vs. sound v)"
  by (auto simp: sound_def session_number_def optional_number_def opt_string_def split: option.split)

lemma sound_object: "\<forall>(k, v) \<in> set kvs. sound v \<Longrightarrow> sound (json_object kvs)"
  using btree_collect_entries [of kvs] by (fastforce simp: sound_def json_object_def btree_ok_collect)

lemma from_miniserde_sorted:
  "from_miniserde v = Inr j \<Longrightarrow> json_ok j"
  "from_minis vs = Inr js \<Longrightarrow> \<forall>j \<in> set js. json_ok j"
  "from_mini_entries fs = Inr es \<Longrightarrow> \<forall>(k, j) \<in> set es. json_ok j"
proof (induction v and vs and fs arbitrary: j and js and es
    rule: from_miniserde_from_minis_from_mini_entries.induct)
  case (8 es)
  then show ?case using btree_collect_entries by (fastforce simp: and_then_Inr btree_ok_collect)
qed (auto simp: and_then_Inr split: if_splits)

lemma sound_parsed [simp]: "sound (parse_or_string parser s)"
  using from_miniserde_sorted(1) from_miniserde_finite(1)
  by (auto simp: parse_or_string_def json_parse_def sound_def split: sum.split option.splits)

lemma sound_text [simp]: "sound (text_part s)"
  unfolding text_part_def by (rule sound_object) simp

lemma sound_call [simp]: "sound (encode_call parser call)"
  unfolding encode_call_def by (rule sound_object) simp

lemma sound_usage [simp]: "sound (encode_usage u)"
proof -
  have "sound (json_object [(''input'', JNull), (''output'', JNull), (''cacheRead'', JNull), (''cacheWrite'', JNull),
          (''total'', opt_string (cost u))])" by (rule sound_object) simp
  then show ?thesis unfolding encode_usage_def by (intro sound_object) (simp split: option.split)
qed

lemma sound_message [simp]: "sound (fst (encode_message parser m model c))"
proof (cases m)
  case (AssistantMessage k s calls reason err)
  then show ?thesis by (auto intro!: sound_object split: prod.split option.split)
next
  case (ToolResultMessage k name r)
  then show ?thesis by (auto intro!: sound_object split: prod.split option.split)
qed (auto intro!: sound_object split: prod.split)

lemma sound_entry: "\<forall>(k, v) \<in> set rest. sound v \<Longrightarrow> sound (entry_value kind i parent t rest)"
  unfolding entry_value_def by (rule sound_object) auto

lemma sound_messages: "\<forall>v \<in> set (fst (encode_messages parser model ms parent c)). sound v"
proof (induction ms arbitrary: parent c)
  case (Cons m ms)
  obtain i c1 where i: "entry_id c = (i, c1)" by fastforce
  obtain t c2 where t: "stamp c1 = (t, c2)" by fastforce
  obtain v c3 where v: "encode_message parser m model c2 = (v, c3)" by fastforce
  obtain vs c4 where vs: "encode_messages parser model ms i c3 = (vs, c4)" by fastforce
  have "sound v" using sound_message [of parser m model c2] v by simp
  moreover have "\<forall>v \<in> set vs. sound v" using Cons.IH [of i c3] vs by simp
  ultimately show ?case by (simp add: i t v vs sound_entry)
qed simp

lemma sound_header [simp]: "sound (encode_header r)"
  unfolding encode_header_def by (rule sound_object) simp

lemma sound_file: "\<forall>v \<in> set (fst (encode_file parser r c)). sound v"
proof -
  obtain es parent c1 where m: "encode_model (sr_model r) c = (es, parent, c1)" by (cases "encode_model (sr_model r) c") auto
  obtain i c2 where i: "entry_id c1 = (i, c2)" by fastforce
  obtain t c3 where t: "stamp c2 = (t, c3)" by fastforce
  obtain vs c4 where vs: "encode_messages parser (sr_model r) (sr_messages r) i c3 = (vs, c4)" by fastforce
  have "\<forall>v \<in> set es. sound v"
    using m by (cases "sr_model r") (auto simp: encode_model_def intro!: sound_entry split: prod.splits)
  moreover have "\<forall>v \<in> set vs. sound v" using sound_messages [of parser "sr_model r" "sr_messages r" i c3] vs by simp
  ultimately show ?thesis by (auto simp: encode_file_def m i t vs sound_entry)
qed

text \<open>What is asked of the printer and the parser: a printed value is one line that parses to its tree.\<close>

definition plain_line :: "string \<Rightarrow> bool" where
  "plain_line l \<longleftrightarrow> l \<noteq> [] \<and> graphic (hd l) \<and> graphic (last l) \<and> newline \<notin> set l \<and> utf8 l"

definition prints_back :: "texts \<Rightarrow> json \<Rightarrow> bool" where
  "prints_back tx v \<longleftrightarrow> (case to_miniserde v of
       Inl e \<Rightarrow> True
     | Inr w \<Rightarrow> mini_parse tx (mini_print tx w) = Some w \<and> plain_line (mini_print tx w))"

definition line_of :: "texts \<Rightarrow> json \<Rightarrow> string" where
  "line_of tx v = (case to_miniserde v of Inr w \<Rightarrow> mini_print tx w | Inl e \<Rightarrow> [])"

lemma line_of_sound:
  assumes "sound v" and "prints_back tx v"
  shows "json_parse (mini_parse tx) (line_of tx v) = Inr v" and "plain_line (line_of tx v)"
    and "to_json_string (mini_print tx) v = Inr (line_of tx v)"
proof -
  obtain w where w: "to_miniserde v = Inr w" using to_miniserde_finite(1) assms(1) unfolding sound_def by blast
  have "from_miniserde w = Inr v" using to_miniserde_ok(1) [OF w] assms(1) unfolding sound_def by blast
  then show "json_parse (mini_parse tx) (line_of tx v) = Inr v" "plain_line (line_of tx v)"
      "to_json_string (mini_print tx) v = Inr (line_of tx v)"
    using assms(2) w by (simp_all add: line_of_def prints_back_def json_parse_def to_json_string_def)
qed

definition joined :: "string list \<Rightarrow> string" where
  "joined ls = concat (map (\<lambda>l. l @ [newline]) ls)"

lemma printed_lines_sound:
  "\<forall>v \<in> set vs. sound v \<and> prints_back tx v \<Longrightarrow> printed_lines tx vs = Inr (joined (map (line_of tx) vs))"
  by (induction vs) (simp_all add: joined_def printed_line_def line_of_sound(3))

lemma split_lines_newline: "newline \<notin> set l \<Longrightarrow> split_lines (l @ newline # s) = l # split_lines s"
  by (induction l) (auto simp: newline_def split: list.split)

lemma split_lines_joined: "\<forall>l \<in> set ls. newline \<notin> set l \<Longrightarrow> split_lines (joined ls) = ls @ [[]]"
  by (induction ls) (simp_all add: joined_def split_lines_newline)

lemma plain_line_kept: "plain_line l \<Longrightarrow> strip_return l = l"
proof -
  have "\<not> graphic (CHR 0x0D)" by (simp add: graphic_def octet_def)
  then show "plain_line l \<Longrightarrow> strip_return l = l" by (auto simp: plain_line_def strip_return_def)
qed

lemma text_lines_joined: "\<forall>l \<in> set ls. plain_line l \<Longrightarrow> text_lines (joined ls) = ls"
proof -
  assume plain: "\<forall>l \<in> set ls. plain_line l"
  then have "split_lines (joined ls) = ls @ [[]]" by (intro split_lines_joined) (auto simp: plain_line_def)
  moreover have "map strip_return ls = ls" using plain by (intro map_idI) (auto intro: plain_line_kept)
  ultimately show ?thesis by (simp add: text_lines_def)
qed

lemma decode_lines_entries:
  "\<forall>v \<in> set vs. sound v \<and> prints_back tx v \<Longrightarrow> decode_lines tx path (map (line_of tx) vs) r = decode_entries tx path vs r"
proof (induction vs arbitrary: r)
  case (Cons v vs)
  have v: "sound v" "prints_back tx v" using Cons.prems by simp_all
  have "trim (line_of tx v) = line_of tx v" "line_of tx v \<noteq> []"
    using line_of_sound(2) [OF v] trim_plain by (simp_all add: plain_line_def)
  moreover have "decode_lines tx path (map (line_of tx) vs) = decode_entries tx path vs" using Cons by auto
  ultimately show ?case using line_of_sound(1) [OF v] by simp
qed simp

definition prints_session :: "texts \<Rightarrow> session_record \<Rightarrow> session_clock \<Rightarrow> bool" where
  "prints_session tx r c \<longleftrightarrow> (\<forall>v \<in> set (fst (encode_file (mini_parse tx) r c)). prints_back tx v)"

definition session_text :: "texts \<Rightarrow> session_record \<Rightarrow> session_clock \<Rightarrow> string" where
  "session_text tx r c = joined (map (line_of tx) (fst (encode_file (mini_parse tx) r c)))"

lemma printed_session:
  "prints_session tx r c \<Longrightarrow> printed_lines tx (fst (encode_file (mini_parse tx) r c)) = Inr (session_text tx r c)"
  unfolding session_text_def prints_session_def using sound_file by (intro printed_lines_sound) blast

lemma utf8_joined: "\<forall>l \<in> set ls. plain_line l \<Longrightarrow> utf8 (joined ls)"
proof (induction ls)
  case (Cons l ls)
  then have "utf8 l" "utf8 (joined ls)" by (simp_all add: plain_line_def)
  moreover have "utf8 [newline]" by (rule ascii_utf8) (simp add: newline_def octet_def)
  moreover have "joined (l # ls) = l @ ([newline] @ joined ls)" by (simp add: joined_def)
  ultimately show ?case by (simp only: utf8_append)
next
  case Nil
  show ?case by (rule ascii_utf8) (simp add: joined_def)
qed

lemma decode_session_text:
  assumes "prints_session tx r c" and "\<forall>m \<in> set (sr_messages r). named_calls m" and "validate_session_id (sr_id r) = Inr ()"
  shows "utf8 (session_text tx r c)" and "decode_source tx path (session_text tx r c) = Inr (saved_record tx r)"
proof -
  let ?vs = "fst (encode_file (mini_parse tx) r c)"
  have good: "\<forall>v \<in> set ?vs. sound v \<and> prints_back tx v" using assms(1) sound_file unfolding prints_session_def by blast
  then have plain: "\<forall>l \<in> set (map (line_of tx) ?vs). plain_line l" using line_of_sound(2) by auto
  then show "utf8 (session_text tx r c)" unfolding session_text_def by (rule utf8_joined)
  have "\<exists>vs. ?vs = encode_header r # vs" by (simp add: encode_file_def split: prod.split)
  then obtain vs where vs: "?vs = encode_header r # vs" by blast
  have "json_parse (mini_parse tx) (line_of tx (encode_header r)) = Inr (encode_header r)"
    using good vs line_of_sound(1) by simp
  from decode_encoded_file [OF assms(2,3) this, of path c] obtain r0
    where r0: "decode_header tx path (line_of tx (encode_header r)) = Inr r0" "decode_entries tx path vs r0 = Inr (saved_record tx r)"
    using vs by auto
  have "decode_lines tx path (map (line_of tx) vs) r0 = Inr (saved_record tx r)"
    using good vs r0(2) decode_lines_entries [of vs tx path r0] by simp
  then show "decode_source tx path (session_text tx r c) = Inr (saved_record tx r)"
    using text_lines_joined [OF plain] vs r0(1) by (simp add: decode_source_def session_text_def)
qed

section \<open>The files of a directory\<close>

lemma join_path_inject: "join_path dir a = join_path dir b \<longleftrightarrow> a = b"
  by (simp add: join_path_def)

lemma name_in_join: "name_in dir (join_path dir name) = name"
  by (simp add: name_in_def join_path_def)

lemma extension_jsonl: "stem \<noteq> [] \<Longrightarrow> name_extension (stem @ ''.jsonl'') = Some ''jsonl''"
proof -
  assume stem: "stem \<noteq> []"
  have "rev (stem @ ''.jsonl'') = ''lnosj.'' @ rev stem \<or> True" by simp
  have take: "takeWhile (\<lambda>c. c \<noteq> CHR ''.'') (rev (stem @ ''.jsonl'')) = ''lnosj''" by simp
  have "stem @ ''.jsonl'' \<noteq> ''..''"
  proof
    assume "stem @ ''.jsonl'' = ''..''"
    then have "length (stem @ ''.jsonl'') = length ''..''" by (rule arg_cong)
    then show False by simp
  qed
  then show ?thesis using stem unfolding name_extension_def take by simp
qed

lemma extension_temporary: "name_extension (temporary_name n) = Some ''tmp''"
proof -
  have take: "takeWhile (\<lambda>c. c \<noteq> CHR ''.'') (rev (temporary_name n)) = ''pmt''" by (simp add: temporary_name_def)
  have "length (temporary_name n) \<noteq> length ''..''" "3 < length (temporary_name n)" by (simp_all add: temporary_name_def)
  then show ?thesis unfolding name_extension_def take by (auto simp: temporary_name_def)
qed

lemma put_then_remove: "se_name e = name \<Longrightarrow> remove_entry name (put_entry e es) = remove_entry name es"
  by (induction e es rule: put_entry.induct) (auto simp: remove_entry_def names_entry_def split: option.splits)

lemma remove_put_other: "remove_entry name (remove_entry name es) = remove_entry name es"
  by (simp add: remove_entry_def)

lemma listed_simps [simp]: "listed [] = []" "listed (None # es) = listed es" "listed (Some e # es) = e # listed es"
  by (simp_all add: listed_def List.map_filter_simps)

lemma listed_remove: "listed (remove_entry name es) = filter (\<lambda>e. se_name e \<noteq> name) (listed es)"
proof (induction es)
  case (Cons f es)
  then show ?case by (cases f) (simp_all add: remove_entry_def names_entry_def)
qed (simp add: remove_entry_def)

lemma find_put_none: "find P (listed es) = None \<Longrightarrow> P e \<Longrightarrow> find P (listed (put_entry e es)) = Some e"
proof (induction e es rule: put_entry.induct)
  case (2 e f fs)
  then show ?case by (cases f) (auto simp: names_entry_def split: if_splits)
qed simp

lemma find_put_some:
  "find P (listed es) = Some g \<Longrightarrow> distinct (map se_name (listed es)) \<Longrightarrow> se_name e = se_name g \<Longrightarrow> P e \<Longrightarrow>
     find P (listed (put_entry e es)) = Some e"
proof (induction e es rule: put_entry.induct)
  case (2 e f fs)
  show ?case
  proof (cases f)
    case None
    then show ?thesis using 2 by (simp add: names_entry_def)
  next
    case (Some h)
    show ?thesis
    proof (cases "P h")
      case True
      then show ?thesis using 2 Some by (simp add: names_entry_def)
    next
      case False
      then have "g \<in> set (listed fs)" using 2(2) Some by (auto simp: find_Some_iff)
      then have "se_name h \<noteq> se_name e" using 2(3,4) Some by force
      then show ?thesis using 2 Some False by (simp add: names_entry_def)
    qed
  qed
qed simp

lemma find_put_name: "find (\<lambda>f. se_name f = se_name e) (listed (put_entry e es)) = Some e"
proof (induction e es rule: put_entry.induct)
  case (2 e f fs)
  then show ?case by (cases f) (auto simp: names_entry_def)
qed simp

lemma find_filter: "(\<And>x. P x \<Longrightarrow> Q x) \<Longrightarrow> find P (filter Q xs) = find P xs"
  by (induction xs) auto

text \<open>When \<open>encode_file\<close> reads the clock and the counter.\<close>

definition written_at :: "texts \<Rightarrow> session_system \<Rightarrow> string \<Rightarrow> session_record \<Rightarrow> session_clock \<Rightarrow> session_clock" where
  "written_at tx os dir r c = (case find_path tx dir (so_listing os) (sr_id r) of
       Inr None \<Rightarrow> snd (fresh_name r c) | _ \<Rightarrow> c)"

lemma replaced_file:
  assumes "replace_file os dir t name body = (Inr path, files)" and "so_listing os = Listed es"
  shows "path = join_path dir name" and "files = Listed (put_entry (regular_entry name body (so_time os)) (remove_entry t es))"
  using assms by (auto simp: replace_file_def io_error_def on_entries_def put_then_remove regular_entry_def Let_def split: option.splits)

lemma saved_to:
  assumes "save_to tx os dir r name c = (Inr path, files, c')" and "so_listing os = Listed es" and "prints_session tx r c"
  shows "path = join_path dir name" and "length (session_text tx r c) \<le> max_session_bytes"
    and "\<exists>n. files = Listed (put_entry (regular_entry name (session_text tx r c) (so_time os)) (remove_entry (temporary_name n) es))"
proof -
  obtain vs c1 where vs: "encode_file (mini_parse tx) r c = (vs, c1)" by fastforce
  have lines: "printed_lines tx vs = Inr (session_text tx r c)" using printed_session [OF assms(3)] vs by simp
  obtain n c2 where n: "take_id c1 = (n, c2)" by fastforce
  show "length (session_text tx r c) \<le> max_session_bytes"
    using assms(1) by (auto simp: save_to_def vs lines contract_def split: if_splits)
  then have "replace_file os dir (temporary_name n) name (session_text tx r c) = (Inr path, files)"
    using assms(1) by (auto simp: save_to_def vs lines n split: prod.splits)
  from replaced_file [OF this assms(2)] show "path = join_path dir name"
    "\<exists>n. files = Listed (put_entry (regular_entry name (session_text tx r c) (so_time os)) (remove_entry (temporary_name n) es))"
    by blast+
qed

lemma loads_saved:
  assumes "prints_session tx r c" and "\<forall>m \<in> set (sr_messages r). named_calls m" and "validate_session_id (sr_id r) = Inr ()"
    and "length (session_text tx r c) \<le> max_session_bytes"
  shows "decode_file tx path (Inr (length (session_text tx r c))) (Inr (session_text tx r c)) = Inr (saved_record tx r)"
  using decode_session_text [OF assms(1-3)] assms(4) by (simp add: decode_file_def from_utf8_def is_utf8_iff)

section \<open>Properties\<close>



section \<open>A saved session\<close>

definition sample_record :: session_record where
  "sample_record = \<lparr>sr_id = ''s1'', sr_timestamp = ''now'', sr_cwd = [], sr_model = None, sr_thinking = Off,
     sr_messages = [UserMessage 7 ''hello'']\<rparr>"

definition sample_clock :: session_clock where
  "sample_clock = \<lparr>sc_next = 1, sc_clock = (\<lambda>n. Some 0), sc_reads = 0\<rparr>"

definition sample_system :: session_system where
  "sample_system = \<lparr>so_root_link = False, so_dir_link = False, so_create = None, so_dir = Inr True, so_private_root = None,
     so_private_dir = None, so_listing = Listed [], so_write = None, so_private_file = None, so_rename = None, so_time = 0\<rparr>"

text \<open>A printer that writes the position of a tree in a list of trees.\<close>

fun place :: "'a \<Rightarrow> 'a list \<Rightarrow> nat" where
  "place x [] = 0"
| "place x (y # ys) = (if x = y then 0 else Suc (place x ys))"

lemma place_in: "x \<in> set xs \<Longrightarrow> place x xs < length xs \<and> xs ! place x xs = x"
  by (induction xs) auto

definition trees_of :: "json list \<Rightarrow> mini list" where
  "trees_of vs = List.map_filter (\<lambda>v. case to_miniserde v of Inr w \<Rightarrow> Some w | Inl e \<Rightarrow> None) vs"

definition sample_trees :: "mini list" where
  "sample_trees = trees_of (fst (encode_file (\<lambda>s. None) sample_record sample_clock))"

definition index_parse :: "string \<Rightarrow> mini option" where
  "index_parse s = (if s \<noteq> [] \<and> length s \<le> length sample_trees then Some (sample_trees ! (length s - 1)) else None)"

definition session_texts :: texts where
  "session_texts = \<lparr>debug_str = (\<lambda>s. s), display_f64 = (\<lambda>x. []),
     mini_print = (\<lambda>w. replicate (Suc (place w sample_trees)) (CHR ''x'')), mini_parse = index_parse\<rparr>"

lemma sample_encoding: "fst (encode_file parser sample_record sample_clock) = fst (encode_file (\<lambda>s. None) sample_record sample_clock)"
  by (simp add: encode_file_def sample_record_def encode_model_def split: prod.split)

lemma sample_prints: "prints_session session_texts sample_record sample_clock"
proof -
  have "prints_back session_texts v" if "v \<in> set (fst (encode_file (\<lambda>s. None) sample_record sample_clock))" for v
  proof (cases "to_miniserde v")
    case (Inr w)
    then have "w \<in> set sample_trees" using that unfolding sample_trees_def trees_of_def
      by (auto simp: List.map_filter_def set_map intro!: image_eqI [of _ _ v])
    from place_in [OF this] have "index_parse (replicate (Suc (place w sample_trees)) (CHR ''x'')) = Some w"
      by (simp add: index_parse_def)
    moreover have "graphic (CHR ''x'')" "CHR ''x'' \<noteq> newline" "octet (CHR ''x'') < 128"
      by (simp_all add: graphic_def octet_def newline_def)
    then have "plain_line (replicate (Suc n) (CHR ''x''))" for n
      by (auto simp: plain_line_def last_replicate intro!: ascii_utf8)
    ultimately show ?thesis by (simp add: prints_back_def Inr session_texts_def)
  qed (simp add: prints_back_def)
  then show ?thesis unfolding prints_session_def sample_encoding [of "mini_parse session_texts"] by blast
qed


text \<open>Usage without a price is read back with the text of JSON's null as its price.\<close>

lemma unpriced_usage_priced:
  "cost u = None \<Longrightarrow> decode_usage tx path (Some (encode_usage u)) = Inr (Some (u\<lparr>reasoning_tokens := None, cost := Some (mini_print tx MNull)\<rparr>))"
  by (simp add: decode_encoded_usage saved_usage_def)


end
