(* ===== verification/Composer.thy ===== *)
theory Composer
  imports "HOL-Library.Word" "HOL-Library.Sublist"
begin

text \<open>
  The prompt buffer (\<open>tea-agent/src/composer.rs\<close>) and the measuring of its visible rows
  (\<open>tea-agent/src/ui/visual_layout.rs\<close>). A Rust string is the list of its Unicode scalars here and every offset
  counts UTF-8 bytes, as in the code: taking a slice at an offset that is not between two scalars panics, which is
  \<open>None\<close>. The abstract buffer is the text before and the text after the cursor.
\<close>

section \<open>Text and byte offsets\<close>

type_synonym scalar = nat
type_synonym scalars = "scalar list"

definition len_utf8 :: "scalar \<Rightarrow> nat" where
  "len_utf8 c = (if c < 0x80 then 1 else if c < 0x800 then 2 else if c < 0x10000 then 3 else 4)"

definition byte_len :: "scalars \<Rightarrow> nat" where
  "byte_len cs = sum_list (map len_utf8 cs)"

text \<open>\<open>&text[..n]\<close> and \<open>&text[n..]\<close>, and \<open>&text[a..b]\<close>.\<close>

fun split_at :: "nat \<Rightarrow> scalars \<Rightarrow> (scalars \<times> scalars) option" where
  "split_at n [] = (if n = 0 then Some ([], []) else None)"
| "split_at n (c # cs) =
     (if n = 0 then Some ([], c # cs)
      else if len_utf8 c \<le> n then map_option (\<lambda>(b, a). (c # b, a)) (split_at (n - len_utf8 c) cs)
      else None)"

definition text_slice :: "nat \<Rightarrow> nat \<Rightarrow> scalars \<Rightarrow> scalars option" where
  "text_slice m n cs = Option.bind (split_at n cs) (\<lambda>(b, _). map_option snd (split_at m b))"

definition line_feed :: scalar where
  "line_feed = 10"

definition breaks_line :: "scalar \<Rightarrow> bool" where
  "breaks_line c \<longleftrightarrow> c = 10 \<or> c = 13"

text \<open>\<open>char::is_whitespace\<close>.\<close>

definition white :: "scalar \<Rightarrow> bool" where
  "white c \<longleftrightarrow> 9 \<le> c \<and> c \<le> 13 \<or> c = 0x20 \<or> c = 0x85 \<or> c = 0xA0 \<or> c = 0x1680 \<or> 0x2000 \<le> c \<and> c \<le> 0x200A \<or>
     c = 0x2028 \<or> c = 0x2029 \<or> c = 0x202F \<or> c = 0x205F \<or> c = 0x3000"

definition is_zero_width :: "scalar \<Rightarrow> bool" where
  "is_zero_width c \<longleftrightarrow> c = 0x200d \<or> c = 0xfe0e \<or> c = 0xfe0f \<or> 0x300 \<le> c \<and> c \<le> 0x36f \<or> 0x1ab0 \<le> c \<and> c \<le> 0x1aff \<or>
     0x20d0 \<le> c \<and> c \<le> 0x20ff \<or> 0xfe20 \<le> c \<and> c \<le> 0xfe2f"

definition display_width :: "scalar \<Rightarrow> nat" where
  "display_width c =
     (if is_zero_width c then 0
      else if 0x1100 \<le> c \<and> c \<le> 0x115f \<or> 0x2329 \<le> c \<and> c \<le> 0x232a \<or> 0x2e80 \<le> c \<and> c \<le> 0xa4cf \<or>
        0xac00 \<le> c \<and> c \<le> 0xd7a3 \<or> 0xf900 \<le> c \<and> c \<le> 0xfaff \<or> 0xfe10 \<le> c \<and> c \<le> 0xfe19 \<or>
        0xfe30 \<le> c \<and> c \<le> 0xfe6f \<or> 0xff00 \<le> c \<and> c \<le> 0xff60 \<or> 0xffe0 \<le> c \<and> c \<le> 0xffe6 \<or>
        0x1f300 \<le> c \<and> c \<le> 0x1faff then 2 else 1)"

definition width_of :: "scalars \<Rightarrow> nat" where
  "width_of cs = sum_list (map display_width cs)"

section \<open>The visible rows\<close>

record visual_row =
  vr_text :: scalars
  vr_start :: nat
  vr_end :: nat

record visual_layout =
  vl_rows :: "visual_row list"
  vl_cursor_row :: nat
  vl_cursor_column :: nat
  vl_cursor_byte :: nat

definition prompt_prefix :: scalars where
  "prompt_prefix = [0x276F, 0x20]"

text \<open>The variables of the loop of \<open>measure\<close>.\<close>

record measuring =
  ms_rows :: "visual_row list"
  ms_start :: nat
  ms_used :: nat
  ms_text :: scalars
  ms_row :: nat
  ms_column :: nat
  ms_offset :: nat

definition measure_new :: measuring where
  "measure_new = \<lparr>ms_rows = [], ms_start = 0, ms_used = 0, ms_text = [], ms_row = 0, ms_column = 2, ms_offset = 0\<rparr>"

definition push_row :: "measuring \<Rightarrow> measuring" where
  "push_row s = s\<lparr>ms_rows := ms_rows s @ [\<lparr>vr_text = prompt_prefix @ ms_text s, vr_start = ms_start s, vr_end = ms_offset s\<rparr>],
     ms_text := [], ms_used := 0\<rparr>"

definition note_cursor :: "nat \<Rightarrow> measuring \<Rightarrow> measuring" where
  "note_cursor cursor s = (if cursor = ms_offset s
     then s\<lparr>ms_row := length (ms_rows s), ms_column := 2 + ms_used s\<rparr> else s)"

definition measure_symbol :: "nat \<Rightarrow> nat \<Rightarrow> scalar \<Rightarrow> measuring \<Rightarrow> measuring" where
  "measure_symbol content_width cursor c s =
     (let next = ms_offset s + len_utf8 c
      in if c = line_feed then (push_row (note_cursor cursor s))\<lparr>ms_start := next, ms_offset := next\<rparr>
         else
           let s = (if ms_used s \<noteq> 0 \<and> content_width < ms_used s + display_width c
                    then (push_row s)\<lparr>ms_start := ms_offset s\<rparr> else s);
               s = note_cursor cursor s
           in s\<lparr>ms_text := ms_text s @ [c], ms_used := ms_used s + display_width c, ms_offset := next\<rparr>)"

definition content_width :: "16 word \<Rightarrow> nat" where
  "content_width width = max (max (unat width) 1 - 2) 1"

definition measure_text :: "scalars \<Rightarrow> nat \<Rightarrow> 16 word \<Rightarrow> visual_layout" where
  "measure_text cs cursor width =
     (let cursor = min cursor (byte_len cs);
          s = push_row (note_cursor cursor (fold (measure_symbol (content_width width) cursor) cs measure_new))
      in \<lparr>vl_rows = ms_rows s, vl_cursor_row = ms_row s,
          vl_cursor_column = min (ms_column s) (max (unat width) 1 - 1), vl_cursor_byte = cursor\<rparr>)"

section \<open>The buffer\<close>

record composer =
  cp_text :: scalars
  cp_cursor :: nat

datatype composer_error = NewlineError

definition composer_new :: composer where
  "composer_new = \<lparr>cp_text = [], cp_cursor = 0\<rparr>"

definition is_multiline :: "composer \<Rightarrow> bool" where
  "is_multiline c \<longleftrightarrow> list_ex breaks_line (cp_text c)"

text \<open>\<open>String::insert_str\<close> at the cursor.\<close>

definition put_text :: "scalars \<Rightarrow> composer \<Rightarrow> composer option" where
  "put_text s c = map_option (\<lambda>(b, a). \<lparr>cp_text = b @ s @ a, cp_cursor = cp_cursor c + byte_len s\<rparr>)
     (split_at (cp_cursor c) (cp_text c))"

definition composer_insert :: "scalar \<Rightarrow> composer \<Rightarrow> (composer_error + composer) option" where
  "composer_insert x c = (if breaks_line x then Some (Inl NewlineError) else map_option Inr (put_text [x] c))"

definition insert_newline :: "composer \<Rightarrow> composer option" where
  "insert_newline c = put_text [line_feed] c"

definition insert_str :: "scalars \<Rightarrow> composer \<Rightarrow> (composer_error + composer) option" where
  "insert_str s c = (if list_ex breaks_line s then Some (Inl NewlineError) else map_option Inr (put_text s c))"

definition insert_str_multiline :: "scalars \<Rightarrow> composer \<Rightarrow> composer option" where
  "insert_str_multiline s c = put_text s c"

definition replace_from_editor :: "scalars \<Rightarrow> composer \<Rightarrow> composer" where
  "replace_from_editor s c = \<lparr>cp_text = s, cp_cursor = byte_len s\<rparr>"

definition composer_replace :: "scalars \<Rightarrow> composer \<Rightarrow> composer_error + composer" where
  "composer_replace s c = (if list_ex breaks_line s then Inl NewlineError else Inr (replace_from_editor s c))"

definition composer_clear :: "composer \<Rightarrow> composer" where
  "composer_clear c = composer_new"

definition composer_take :: "composer \<Rightarrow> scalars \<times> composer" where
  "composer_take c = (cp_text c, composer_new)"

definition composer_submit :: "composer \<Rightarrow> scalars \<times> composer" where
  "composer_submit c = (cp_text c, composer_new)"

text \<open>On the scalars before the cursor, the last one first.\<close>

fun cluster_start :: "scalars \<Rightarrow> nat" where
  "cluster_start [] = 0"
| "cluster_start (c # cs) = (if is_zero_width c then cluster_start cs else byte_len (rev cs))"

definition previous_cluster_start :: "scalars \<Rightarrow> nat \<Rightarrow> nat option" where
  "previous_cluster_start cs cursor = map_option (\<lambda>(b, _). cluster_start (rev b)) (split_at cursor cs)"

definition move_left :: "composer \<Rightarrow> composer option" where
  "move_left c = map_option (\<lambda>n. c\<lparr>cp_cursor := n\<rparr>) (previous_cluster_start (cp_text c) (cp_cursor c))"

definition move_right :: "composer \<Rightarrow> composer option" where
  "move_right c = map_option (\<lambda>(_, a). case a of
       [] \<Rightarrow> c
     | x # a \<Rightarrow> c\<lparr>cp_cursor := cp_cursor c + len_utf8 x + byte_len (takeWhile is_zero_width a)\<rparr>)
     (split_at (cp_cursor c) (cp_text c))"

text \<open>The loops of the word motions, on the scalars before and after the cursor.\<close>

fun step_back :: "(scalar \<Rightarrow> bool) \<Rightarrow> scalars \<Rightarrow> nat \<Rightarrow> nat" where
  "step_back p [] n = n"
| "step_back p (c # cs) n = (if p c then step_back p cs (n - len_utf8 c) else n)"

fun step_forward :: "(scalar \<Rightarrow> bool) \<Rightarrow> scalars \<Rightarrow> nat \<Rightarrow> nat" where
  "step_forward p [] n = n"
| "step_forward p (c # cs) n = (if p c then step_forward p cs (n + len_utf8 c) else n)"

definition back_while :: "(scalar \<Rightarrow> bool) \<Rightarrow> composer \<Rightarrow> composer option" where
  "back_while p c = map_option (\<lambda>(b, _). c\<lparr>cp_cursor := step_back p (rev b) (cp_cursor c)\<rparr>)
     (split_at (cp_cursor c) (cp_text c))"

definition forward_while :: "(scalar \<Rightarrow> bool) \<Rightarrow> composer \<Rightarrow> composer option" where
  "forward_while p c = map_option (\<lambda>(_, a). c\<lparr>cp_cursor := step_forward p a (cp_cursor c)\<rparr>)
     (split_at (cp_cursor c) (cp_text c))"

definition move_word_left :: "composer \<Rightarrow> composer option" where
  "move_word_left c = Option.bind (back_while white c) (back_while (\<lambda>x. \<not> white x))"

definition move_word_right :: "composer \<Rightarrow> composer option" where
  "move_word_right c = Option.bind (forward_while white c) (forward_while (\<lambda>x. \<not> white x))"

text \<open>The start of the line that ends at an offset, and the end of the line that starts at one.\<close>

definition line_start :: "scalars \<Rightarrow> nat \<Rightarrow> nat option" where
  "line_start cs n = map_option (\<lambda>(b, _). byte_len (rev (dropWhile (\<lambda>x. x \<noteq> line_feed) (rev b)))) (split_at n cs)"

definition line_end :: "scalars \<Rightarrow> nat \<Rightarrow> nat option" where
  "line_end cs n = map_option (\<lambda>(_, a). n + byte_len (takeWhile (\<lambda>x. x \<noteq> line_feed) a)) (split_at n cs)"

definition char_offset :: "scalars \<Rightarrow> nat \<Rightarrow> nat" where
  "char_offset cs target = byte_len (take target cs)"

definition move_line_up :: "composer \<Rightarrow> composer option" where
  "move_line_up c =
     Option.bind (line_start (cp_text c) (cp_cursor c)) (\<lambda>start.
       if start = 0 then Some c
       else Option.bind (text_slice start (cp_cursor c) (cp_text c)) (\<lambda>here.
            Option.bind (line_start (cp_text c) (start - 1)) (\<lambda>previous.
            map_option (\<lambda>row. c\<lparr>cp_cursor := char_offset row (length here) + previous\<rparr>)
              (text_slice previous (start - 1) (cp_text c)))))"

definition move_line_down :: "composer \<Rightarrow> composer option" where
  "move_line_down c =
     Option.bind (line_start (cp_text c) (cp_cursor c)) (\<lambda>start.
     Option.bind (line_end (cp_text c) (cp_cursor c)) (\<lambda>stop.
       if stop = byte_len (cp_text c) then Some c
       else Option.bind (text_slice start (cp_cursor c) (cp_text c)) (\<lambda>here.
            Option.bind (line_end (cp_text c) (stop + 1)) (\<lambda>next_end.
            map_option (\<lambda>row. c\<lparr>cp_cursor := char_offset row (length here) + (stop + 1)\<rparr>)
              (text_slice (stop + 1) next_end (cp_text c))))))"

definition home :: "composer \<Rightarrow> composer option" where
  "home c = map_option (\<lambda>n. c\<lparr>cp_cursor := n\<rparr>) (line_start (cp_text c) (cp_cursor c))"

definition line_last :: "composer \<Rightarrow> composer option" where
  "line_last c = map_option (\<lambda>n. c\<lparr>cp_cursor := n\<rparr>) (line_end (cp_text c) (cp_cursor c))"

text \<open>\<open>String::drain\<close> of a range.\<close>

definition drain :: "nat \<Rightarrow> nat \<Rightarrow> scalars \<Rightarrow> scalars option" where
  "drain m n cs = Option.bind (split_at n cs) (\<lambda>(b, a). map_option (\<lambda>(b, _). b @ a) (split_at m b))"

definition backspace :: "composer \<Rightarrow> composer option" where
  "backspace c =
     (if cp_cursor c = 0 then Some c
      else Option.bind (previous_cluster_start (cp_text c) (cp_cursor c)) (\<lambda>start.
        map_option (\<lambda>t. \<lparr>cp_text = t, cp_cursor = start\<rparr>) (drain start (cp_cursor c) (cp_text c))))"

definition composer_delete :: "composer \<Rightarrow> composer option" where
  "composer_delete c =
     Option.bind (split_at (cp_cursor c) (cp_text c)) (\<lambda>(_, a). case a of
         [] \<Rightarrow> Some c
       | x # a \<Rightarrow>
           map_option (\<lambda>t. c\<lparr>cp_text := t\<rparr>)
             (drain (cp_cursor c) (cp_cursor c + len_utf8 x + byte_len (takeWhile is_zero_width a)) (cp_text c)))"

text \<open>The scalars of a row that fit before a display column.\<close>

fun reach :: "nat \<Rightarrow> nat \<Rightarrow> scalars \<Rightarrow> nat \<Rightarrow> nat" where
  "reach desired column [] cursor = cursor"
| "reach desired column (x # xs) cursor =
     (if desired < column + display_width x then cursor
      else reach desired (column + display_width x) xs (cursor + len_utf8 x))"

definition move_visual_line :: "16 word \<Rightarrow> int \<Rightarrow> composer \<Rightarrow> (bool \<times> composer) option" where
  "move_visual_line width direction c =
     (let l = measure_text (cp_text c) (cp_cursor c) width;
          target = int (vl_cursor_row l) + direction
      in if target < 0 \<or> int (length (vl_rows l)) \<le> target then Some (False, c)
         else if length (vl_rows l) \<le> vl_cursor_row l then None
         else
           let here = vl_rows l ! vl_cursor_row l;
               there = vl_rows l ! nat target
           in Option.bind (text_slice (vr_start here) (cp_cursor c) (cp_text c)) (\<lambda>passed.
              map_option (\<lambda>row. (True, c\<lparr>cp_cursor := reach (width_of passed) 0 row (vr_start there)\<rparr>))
                (text_slice (vr_start there) (vr_end there) (cp_text c))))"

definition move_visual_line_up :: "16 word \<Rightarrow> composer \<Rightarrow> (bool \<times> composer) option" where
  "move_visual_line_up width = move_visual_line width (- 1)"

definition move_visual_line_down :: "16 word \<Rightarrow> composer \<Rightarrow> (bool \<times> composer) option" where
  "move_visual_line_down width = move_visual_line width 1"

section \<open>Offsets between scalars\<close>

lemma len_utf8_pos [simp]: "0 < len_utf8 c" "len_utf8 c \<noteq> 0"
  by (simp_all add: len_utf8_def)

lemma byte_len_simps [simp]: "byte_len [] = 0" "byte_len (c # cs) = len_utf8 c + byte_len cs"
  "byte_len (b @ a) = byte_len b + byte_len a" "byte_len (rev b) = byte_len b" "byte_len b = 0 \<longleftrightarrow> b = []"
  by (auto simp: byte_len_def rev_map [symmetric] dest: sum_list_eq_0_iff [THEN iffD1])

lemma split_at_zero [simp]: "split_at 0 cs = Some ([], cs)"
  by (cases cs) simp_all

lemma split_at_append [simp]: "split_at (byte_len b) (b @ a) = Some (b, a)"
  by (induction b) simp_all

lemma split_at_all [simp]: "split_at (byte_len b) b = Some (b, [])"
  using split_at_append [of b "[]"] by simp

lemma split_at_Some: "split_at n cs = Some (b, a) \<longleftrightarrow> cs = b @ a \<and> n = byte_len b"
proof
  show "split_at n cs = Some (b, a) \<Longrightarrow> cs = b @ a \<and> n = byte_len b"
    by (induction n cs arbitrary: b a rule: split_at.induct) (auto split: if_splits)
qed auto

lemma text_slice_append: "text_slice (byte_len p) (byte_len p + byte_len q) (p @ q @ a) = Some q"
  using split_at_append [of "p @ q" a] by (simp add: text_slice_def)

lemma drain_append: "drain (byte_len p) (byte_len p + byte_len q) (p @ q @ a) = Some (p @ a)"
  using split_at_append [of "p @ q" a] by (simp add: drain_def)

text \<open>The text before and after the cursor.\<close>

type_synonym zipper = "scalars \<times> scalars"

definition around :: "composer \<Rightarrow> zipper option" where
  "around c = split_at (cp_cursor c) (cp_text c)"

lemma around_iff: "around c = Some (b, a) \<longleftrightarrow> c = \<lparr>cp_text = b @ a, cp_cursor = byte_len b\<rparr>"
  by (cases c) (auto simp: around_def split_at_Some)

section \<open>The abstract buffer\<close>

datatype edit =
  Insert scalar | Newline | InsertText scalars | Paste scalars | FromEditor scalars | Replace scalars | Clear
| GoLeft | GoRight | WordLeft | WordRight | LineUp | LineDown | LineHome | LineEnd | Backspace | Delete

text \<open>An operation of the buffer; an error leaves it as it was, and a panic is \<open>None\<close>.\<close>

definition unless_refused :: "composer \<Rightarrow> composer_error + composer \<Rightarrow> composer" where
  "unless_refused c r = (case r of Inl e \<Rightarrow> c | Inr c \<Rightarrow> c)"

fun perform :: "edit \<Rightarrow> composer \<Rightarrow> composer option" where
  "perform (Insert x) c = map_option (unless_refused c) (composer_insert x c)"
| "perform Newline c = insert_newline c"
| "perform (InsertText s) c = map_option (unless_refused c) (insert_str s c)"
| "perform (Paste s) c = insert_str_multiline s c"
| "perform (FromEditor s) c = Some (replace_from_editor s c)"
| "perform (Replace s) c = Some (unless_refused c (composer_replace s c))"
| "perform Clear c = Some (composer_clear c)"
| "perform GoLeft c = move_left c"
| "perform GoRight c = move_right c"
| "perform WordLeft c = move_word_left c"
| "perform WordRight c = move_word_right c"
| "perform LineUp c = move_line_up c"
| "perform LineDown c = move_line_down c"
| "perform LineHome c = home c"
| "perform LineEnd c = line_last c"
| "perform Backspace c = backspace c"
| "perform Delete c = composer_delete c"

definition back_over :: "(scalar \<Rightarrow> bool) \<Rightarrow> zipper \<Rightarrow> zipper" where
  "back_over p z = (rev (dropWhile p (rev (fst z))), rev (takeWhile p (rev (fst z))) @ snd z)"

definition forth_over :: "(scalar \<Rightarrow> bool) \<Rightarrow> zipper \<Rightarrow> zipper" where
  "forth_over p z = (fst z @ takeWhile p (snd z), dropWhile p (snd z))"

text \<open>One scalar and the marks of no width that go with it.\<close>

definition cluster_back :: "zipper \<Rightarrow> zipper" where
  "cluster_back z = (case back_over is_zero_width z of (b, a) \<Rightarrow> if b = [] then (b, a) else (butlast b, last b # a))"

definition cluster_forth :: "zipper \<Rightarrow> zipper" where
  "cluster_forth z = (case snd z of [] \<Rightarrow> z | x # a \<Rightarrow> forth_over is_zero_width (fst z @ [x], a))"

definition off_line :: "scalar \<Rightarrow> bool" where
  "off_line x \<longleftrightarrow> x \<noteq> line_feed"

definition up_line :: "zipper \<Rightarrow> zipper" where
  "up_line z =
     (let (start, here) = back_over off_line z;
          column = length (fst z) - length start
      in if start = [] then z
         else (case back_over off_line (butlast start, line_feed # here) of (before, rest) \<Rightarrow>
           let row = takeWhile off_line rest
           in (before @ take column row, drop column row @ dropWhile off_line rest)))"

definition down_line :: "zipper \<Rightarrow> zipper" where
  "down_line z =
     (let column = length (fst z) - length (fst (back_over off_line z));
          (before, rest) = forth_over off_line z
      in if rest = [] then z
         else (before @ [line_feed] @ take column (takeWhile off_line (tl rest)),
               drop column (takeWhile off_line (tl rest)) @ dropWhile off_line (tl rest)))"

fun edited :: "edit \<Rightarrow> zipper \<Rightarrow> zipper" where
  "edited (Insert x) z = (if breaks_line x then z else (fst z @ [x], snd z))"
| "edited Newline z = (fst z @ [line_feed], snd z)"
| "edited (InsertText s) z = (if list_ex breaks_line s then z else (fst z @ s, snd z))"
| "edited (Paste s) z = (fst z @ s, snd z)"
| "edited (FromEditor s) z = (s, [])"
| "edited (Replace s) z = (if list_ex breaks_line s then z else (s, []))"
| "edited Clear z = ([], [])"
| "edited GoLeft z = cluster_back z"
| "edited GoRight z = cluster_forth z"
| "edited WordLeft z = back_over (\<lambda>x. \<not> white x) (back_over white z)"
| "edited WordRight z = forth_over (\<lambda>x. \<not> white x) (forth_over white z)"
| "edited LineUp z = up_line z"
| "edited LineDown z = down_line z"
| "edited LineHome z = back_over off_line z"
| "edited LineEnd z = forth_over off_line z"
| "edited Backspace z = (fst (cluster_back z), snd z)"
| "edited Delete z = (fst z, snd (cluster_forth z))"

section \<open>The buffer implements it\<close>

definition composer_at :: "zipper \<Rightarrow> composer" where
  "composer_at z = \<lparr>cp_text = fst z @ snd z, cp_cursor = byte_len (fst z)\<rparr>"

lemma around_at: "around c = Some z \<longleftrightarrow> c = composer_at z"
  by (cases z) (simp add: around_iff composer_at_def)

lemma at_fields [simp]: "cp_text (composer_at (b, a)) = b @ a" "cp_cursor (composer_at (b, a)) = byte_len b"
  by (simp_all add: composer_at_def)

lemma move_cursor: "b @ a = b' @ a' \<Longrightarrow> composer_at (b, a)\<lparr>cp_cursor := byte_len b'\<rparr> = composer_at (b', a')"
  by (simp add: composer_at_def)

lemma put_text_at [simp]: "put_text s (composer_at (b, a)) = Some (composer_at (b @ s, a))"
  by (simp add: put_text_def composer_at_def)

lemma whole_back: "b @ a = fst (back_over p (b, a)) @ snd (back_over p (b, a))"
proof -
  have "rev (takeWhile p (rev b) @ dropWhile p (rev b)) = b" by simp
  then have "rev (dropWhile p (rev b)) @ rev (takeWhile p (rev b)) = b" by (simp only: rev_append)
  then show ?thesis by (simp add: back_over_def)
qed

lemma whole_forth: "b @ a = fst (forth_over p (b, a)) @ snd (forth_over p (b, a))"
  by (simp add: forth_over_def)

lemma step_back_bytes: "step_back p cs (byte_len cs) = byte_len (dropWhile p cs)"
  by (induction cs) simp_all

lemma step_forward_bytes: "step_forward p cs n = n + byte_len (takeWhile p cs)"
  by (induction cs arbitrary: n) simp_all

lemma back_while_at: "back_while p (composer_at z) = Some (composer_at (back_over p z))"
proof (cases z)
  case (Pair b a)
  have "step_back p (rev b) (byte_len b) = byte_len (fst (back_over p (b, a)))"
    using step_back_bytes [of p "rev b"] by (simp add: back_over_def)
  then show ?thesis using move_cursor [OF whole_back [of b a p]] by (simp add: Pair back_while_def)
qed

lemma forward_while_at: "forward_while p (composer_at z) = Some (composer_at (forth_over p z))"
proof (cases z)
  case (Pair b a)
  have "step_forward p a (byte_len b) = byte_len (fst (forth_over p (b, a)))" by (simp add: step_forward_bytes forth_over_def)
  then show ?thesis using move_cursor [OF whole_forth [of b a p]] by (simp add: Pair forward_while_def)
qed

lemma cluster_start_bytes: "cluster_start (rev b) = byte_len (fst (cluster_back (b, a)))"
proof (induction b arbitrary: a rule: rev_induct)
  case (snoc x b)
  show ?case
  proof (cases "is_zero_width x")
    case True
    then have "back_over is_zero_width (b @ [x], a) = back_over is_zero_width (b, x # a)" by (simp add: back_over_def)
    then have "cluster_back (b @ [x], a) = cluster_back (b, x # a)" by (simp add: cluster_back_def)
    then show ?thesis using snoc [of "x # a"] True by simp
  qed (simp add: cluster_back_def back_over_def)
qed (simp add: cluster_back_def back_over_def)

lemma whole_cluster_back: "b @ a = fst (cluster_back (b, a)) @ snd (cluster_back (b, a))"
  using whole_back [of b a is_zero_width] by (auto simp: cluster_back_def split: prod.split)

lemma previous_cluster_at: "previous_cluster_start (b @ a) (byte_len b) = Some (byte_len (fst (cluster_back (b, a))))"
  by (simp add: previous_cluster_start_def cluster_start_bytes [of b a])

lemma cluster_back_prefix: "\<exists>q. b = fst (cluster_back (b, a)) @ q"
proof -
  have "fst (back_over is_zero_width (b, a)) @ rev (takeWhile is_zero_width (rev b)) = b"
    unfolding back_over_def by (simp add: rev_append [symmetric] del: rev_append)
  then show ?thesis
    by (auto simp: cluster_back_def split: prod.split) (metis append.assoc append_butlast_last_id fst_conv)+
qed

lemma cluster_forth_bytes:
  "cluster_forth (b, x # a) = (b @ x # takeWhile is_zero_width a, dropWhile is_zero_width a)"
  by (simp add: cluster_forth_def forth_over_def)

lemma line_start_at: "line_start (b @ a) (byte_len b) = Some (byte_len (fst (back_over off_line (b, a))))"
  by (simp add: line_start_def back_over_def off_line_def [abs_def])

lemma line_end_at: "line_end (b @ a) (byte_len b) = Some (byte_len (fst (forth_over off_line (b, a))))"
  by (simp add: line_end_def forth_over_def off_line_def [abs_def])

lemma move_left_at: "move_left (composer_at z) = Some (composer_at (cluster_back z))"
proof (cases z)
  case (Pair b a)
  then show ?thesis
    using move_cursor [OF whole_cluster_back [of b a]] by (simp add: move_left_def previous_cluster_at)
qed

lemma move_right_at: "move_right (composer_at z) = Some (composer_at (cluster_forth z))"
proof (cases z)
  case (Pair b a)
  show ?thesis
  proof (cases a)
    case Nil
    then show ?thesis by (simp add: Pair move_right_def cluster_forth_def)
  next
    case (Cons x r)
    let ?w = "takeWhile is_zero_width r"
    have "b @ a = (b @ x # ?w) @ dropWhile is_zero_width r" by (simp add: Cons)
    from move_cursor [OF this] show ?thesis
      by (simp add: Pair Cons move_right_def cluster_forth_bytes add.assoc)
  qed
qed

lemma backspace_at: "backspace (composer_at z) = Some (composer_at (fst (cluster_back z), snd z))"
proof (cases z)
  case (Pair b a)
  show ?thesis
  proof (cases "b = []")
    case True
    then show ?thesis by (simp add: Pair backspace_def cluster_back_def back_over_def)
  next
    case False
    obtain q where q: "b = fst (cluster_back (b, a)) @ q" using cluster_back_prefix by blast
    let ?p = "fst (cluster_back (b, a))"
    have "drain (byte_len ?p) (byte_len b) (b @ a) = Some (?p @ a)"
      using drain_append [of ?p q a] q by (metis append.assoc byte_len_simps(3))
    then show ?thesis using False by (simp add: Pair backspace_def previous_cluster_at composer_at_def)
  qed
qed

lemma delete_at: "composer_delete (composer_at z) = Some (composer_at (fst z, snd (cluster_forth z)))"
proof (cases z)
  case (Pair b a)
  show ?thesis
  proof (cases a)
    case Nil
    then show ?thesis by (simp add: Pair composer_delete_def cluster_forth_def)
  next
    case (Cons x r)
    let ?q = "x # takeWhile is_zero_width r"
    have "drain (byte_len b) (byte_len b + byte_len ?q) (b @ ?q @ dropWhile is_zero_width r) = Some (b @ dropWhile is_zero_width r)"
      by (rule drain_append)
    then have "drain (byte_len b) (byte_len b + len_utf8 x + byte_len (takeWhile is_zero_width r)) (b @ a) = Some (b @ dropWhile is_zero_width r)"
      by (simp add: Cons add.assoc)
    then show ?thesis by (simp add: Pair Cons composer_delete_def cluster_forth_bytes composer_at_def)
  qed
qed

lemma home_at: "home (composer_at z) = Some (composer_at (back_over off_line z))"
proof (cases z)
  case (Pair b a)
  then show ?thesis using move_cursor [OF whole_back [of b a off_line]] by (simp add: home_def line_start_at)
qed

lemma line_last_at: "line_last (composer_at z) = Some (composer_at (forth_over off_line z))"
proof (cases z)
  case (Pair b a)
  then show ?thesis using move_cursor [OF whole_forth [of b a off_line]] by (simp add: line_last_def line_end_at)
qed

text \<open>The line before the cursor: what precedes it ends in a line break, unless nothing does.\<close>

lemma back_line:
  assumes "back_over off_line (b, a) = (start, here)"
  shows "\<exists>q. b = start @ q \<and> here = q @ a \<and> length b - length start = length q" and "start \<noteq> [] \<Longrightarrow> start = butlast start @ [line_feed]"
proof -
  have start: "start = rev (dropWhile off_line (rev b))" and here: "here = rev (takeWhile off_line (rev b)) @ a"
    using assms by (simp_all add: back_over_def)
  have "rev (takeWhile off_line (rev b) @ dropWhile off_line (rev b)) = b" by simp
  then have "b = start @ rev (takeWhile off_line (rev b))" unfolding start by (simp only: rev_append)
  then show "\<exists>q. b = start @ q \<and> here = q @ a \<and> length b - length start = length q"
    using here by (metis add_diff_cancel_left' length_append)
  assume "start \<noteq> []"
  then have "dropWhile off_line (rev b) \<noteq> []" by (simp add: start)
  from hd_dropWhile [OF this] have "last start = line_feed" using \<open>start \<noteq> []\<close>
    by (simp add: start last_rev off_line_def)
  then show "start = butlast start @ [line_feed]" using \<open>start \<noteq> []\<close> by (metis append_butlast_last_id)
qed

lemma char_offset_row: "char_offset row n + byte_len p = byte_len (p @ take n row)"
  by (simp add: char_offset_def)

lemma line_feed_byte [simp]: "len_utf8 line_feed = 1"
  by (simp add: line_feed_def len_utf8_def)

lemma up_at: "move_line_up (composer_at z) = Some (composer_at (up_line z))"
proof (cases z)
  case (Pair b a)
  obtain start here where prior: "back_over off_line (b, a) = (start, here)" by fastforce
  from back_line(1) [OF prior] obtain q where q: "b = start @ q" "here = q @ a" "length b - length start = length q" by blast
  have first: "line_start (b @ a) (byte_len b) = Some (byte_len start)" by (simp add: line_start_at prior)
  show ?thesis
  proof (cases "start = []")
    case True
    then show ?thesis by (simp add: Pair move_line_up_def first up_line_def prior)
  next
    case False
    define p where "p = butlast start"
    have p: "start = p @ [line_feed]" using back_line(2) [OF prior False] by (simp add: p_def)
    obtain before rest where prev: "back_over off_line (p, line_feed # here) = (before, rest)" by fastforce
    from back_line(1) [OF prev] obtain row where row: "p = before @ row" "rest = row @ line_feed # here" by blast
    have off: "takeWhile off_line rest = row"
    proof -
      have "row = rev (takeWhile off_line (rev p))" using prev row by (simp add: back_over_def)
      then have "\<forall>x \<in> set row. off_line x" by (auto dest: set_takeWhileD)
      moreover have "\<not> off_line line_feed" by (simp add: off_line_def)
      ultimately show ?thesis by (simp add: row(2) takeWhile_append2)
    qed
    then have rest: "dropWhile off_line rest = line_feed # here"
      using takeWhile_dropWhile_id [of off_line rest] row(2) by simp
    have here_slice: "text_slice (byte_len start) (byte_len b) (b @ a) = Some q"
      using text_slice_append [of start q a] q by simp
    have less: "byte_len start - Suc 0 = byte_len p" using p by simp
    have whole: "b @ a = p @ line_feed # here" using p q by simp
    have second: "line_start (b @ a) (byte_len p) = Some (byte_len before)"
      unfolding whole by (simp add: line_start_at prev)
    have row_slice: "text_slice (byte_len before) (byte_len p) (b @ a) = Some row"
      using text_slice_append [of before row "line_feed # here"] row whole by simp
    have "b @ a = (before @ take (length q) row) @ (drop (length q) row @ line_feed # here)"
      using whole row by simp
    note moved = move_cursor [OF this]
    have "up_line (b, a) = (before @ take (length q) row, drop (length q) row @ line_feed # here)"
      using False q(3) by (simp add: up_line_def Let_def prior p_def [symmetric] prev off rest)
    then show ?thesis
      using False moved unfolding Pair
      by (simp add: move_line_up_def first here_slice less second row_slice char_offset_row)
  qed
qed

lemma down_at: "move_line_down (composer_at z) = Some (composer_at (down_line z))"
proof (cases z)
  case (Pair b a)
  obtain start here where prior: "back_over off_line (b, a) = (start, here)" by fastforce
  from back_line(1) [OF prior] obtain q where q: "b = start @ q" "here = q @ a" "length b - length start = length q" by blast
  obtain before rest where beyond: "forth_over off_line (b, a) = (before, rest)" by fastforce
  have before: "before = b @ takeWhile off_line a" "rest = dropWhile off_line a" using beyond by (simp_all add: forth_over_def)
  have whole: "b @ a = before @ rest" by (simp add: before)
  have first: "line_start (b @ a) (byte_len b) = Some (byte_len start)" "line_end (b @ a) (byte_len b) = Some (byte_len before)"
    by (simp_all add: line_start_at line_end_at prior beyond)
  have here_slice: "text_slice (byte_len start) (byte_len b) (b @ a) = Some q"
    using text_slice_append [of start q a] q by simp
  show ?thesis
  proof (cases rest)
    case Nil
    then have "byte_len before = byte_len (b @ a)" unfolding whole by simp
    then show ?thesis using Nil by (simp add: Pair move_line_down_def first down_line_def prior beyond)
  next
    case (Cons x s)
    have "dropWhile off_line a \<noteq> []" using Cons before(2) by simp
    from hd_dropWhile [OF this] have "\<not> off_line x" using Cons before(2) by simp
    then have "x = line_feed" by (simp add: off_line_def)
    then have rest: "rest = line_feed # s" using Cons by simp
    let ?row = "takeWhile off_line s"
    have whole': "b @ a = (before @ [line_feed]) @ s" using whole rest by simp
    define stop where "stop = byte_len (before @ [line_feed] @ ?row)"
    have next_end: "line_end (b @ a) (Suc (byte_len before)) = Some stop"
      using line_end_at [of "before @ [line_feed]" s] unfolding whole' by (simp add: forth_over_def stop_def)
    have row_slice: "text_slice (Suc (byte_len before)) stop (b @ a) = Some ?row"
      using text_slice_append [of "before @ [line_feed]" ?row "dropWhile off_line s"] unfolding whole' by (simp add: add.assoc stop_def)
    have more: "byte_len before \<noteq> byte_len (b @ a)" unfolding whole rest by simp
    have "b @ a = (before @ [line_feed] @ take (length q) ?row) @ (drop (length q) ?row @ dropWhile off_line s)"
      using whole' append_assoc [of "take (length q) ?row" "drop (length q) ?row" "dropWhile off_line s"] by simp
    note moved = move_cursor [OF this]
    have offset: "char_offset ?row (length q) + (byte_len before + 1) = byte_len (before @ [line_feed] @ take (length q) ?row)"
      by (simp add: char_offset_def)
    have down: "down_line (b, a) = (before @ [line_feed] @ take (length q) ?row, drop (length q) ?row @ dropWhile off_line s)"
      using q(3) by (simp add: down_line_def Let_def prior beyond rest)
    have "move_line_down (composer_at (b, a)) = Some (composer_at (b, a)\<lparr>cp_cursor := char_offset ?row (length q) + (byte_len before + 1)\<rparr>)"
      using more by (simp add: move_line_down_def first here_slice next_end row_slice del: byte_len_simps(3))
    then show ?thesis unfolding Pair down offset moved .
  qed
qed

lemma replaced_at: "replace_from_editor s c = composer_at (s, [])"
  by (simp add: composer_at_def replace_from_editor_def)

lemma cleared_at: "composer_new = composer_at ([], [])"
  by (simp add: composer_at_def composer_new_def)

lemma perform_at: "perform op (composer_at (b, a)) = Some (composer_at (edited op (b, a)))"
  by (cases op) (simp_all add: composer_insert_def insert_str_def composer_replace_def insert_newline_def insert_str_multiline_def
      unless_refused_def replaced_at composer_clear_def cleared_at move_left_at move_right_at move_word_left_def
      move_word_right_def back_while_at forward_while_at up_at down_at home_at line_last_at backspace_at delete_at)

section \<open>Properties\<close>

text \<open>C24: the prompt buffer is a text with a cursor between two characters: from a cursor on a character boundary every
  operation returns (no text_slice panics) and does to the text before and after the cursor what the abstract operation does;
  the cursor is again on a boundary. Insertions with a line break that are refused leave the buffer as it was.\<close>

theorem composer_refines_zipper:
  assumes "around c = Some z"
  shows "\<exists>c'. perform op c = Some c' \<and> around c' = Some (edited op z)"
  using assms perform_at [of op "fst z" "snd z"] by (simp add: around_at)

theorem composer_refines_zipper_witness:
  "around \<lparr>cp_text = [0x61, 0x301, 0x1F600], cp_cursor = 3\<rparr> = Some ([0x61, 0x301], [0x1F600]) \<and>
   (\<exists>c'. perform Backspace \<lparr>cp_text = [0x61, 0x301, 0x1F600], cp_cursor = 3\<rparr> = Some c' \<and>
      around c' = Some (edited Backspace ([0x61, 0x301], [0x1F600])))"
proof -
  have "around \<lparr>cp_text = [0x61, 0x301, 0x1F600], cp_cursor = 3\<rparr> = Some ([0x61, 0x301], [0x1F600])"
    by (simp add: around_iff len_utf8_def)
  with composer_refines_zipper [OF this, of Backspace] show ?thesis by blast
qed

section \<open>The visible rows\<close>

lemma width_of_simps [simp]: "width_of [] = 0" "width_of (c # cs) = display_width c + width_of cs"
  "width_of (b @ a) = width_of b + width_of a"
  by (simp_all add: width_of_def)

lemma display_width_two: "display_width c \<le> 2"
  by (simp add: display_width_def)

lemma text_slice_of: "cs = p @ q @ a \<Longrightarrow> m = byte_len p \<Longrightarrow> n = byte_len p + byte_len q \<Longrightarrow> text_slice m n cs = Some q"
  by (simp add: text_slice_append)

definition row_ok :: "nat \<Rightarrow> scalars \<Rightarrow> visual_row \<Rightarrow> bool" where
  "row_ok w cs r \<longleftrightarrow> (\<exists>t. text_slice (vr_start r) (vr_end r) cs = Some t \<and> vr_text r = prompt_prefix @ t \<and>
     line_feed \<notin> set t \<and> width_of t \<le> max w 2)"

text \<open>A row begins at an offset from which the cursor is a column's width away.\<close>

definition reaches :: "scalars \<Rightarrow> nat \<Rightarrow> nat \<Rightarrow> nat \<Rightarrow> bool" where
  "reaches cs start cursor column \<longleftrightarrow> (\<exists>t. text_slice start cursor cs = Some t \<and> column = 2 + width_of t)"

definition measured :: "nat \<Rightarrow> nat \<Rightarrow> scalars \<Rightarrow> scalars \<Rightarrow> measuring \<Rightarrow> bool" where
  "measured w cursor cs pre s \<longleftrightarrow>
     ms_offset s = byte_len pre \<and> (\<exists>p. pre = p @ ms_text s \<and> ms_start s = byte_len p) \<and>
     ms_used s = width_of (ms_text s) \<and> line_feed \<notin> set (ms_text s) \<and> width_of (ms_text s) \<le> max w 2 \<and>
     (\<forall>r \<in> set (ms_rows s). row_ok w cs r) \<and>
     filter off_line pre = concat (map (\<lambda>r. drop 2 (vr_text r)) (ms_rows s)) @ ms_text s \<and>
     ms_row s \<le> length (ms_rows s) \<and>
     (cursor < byte_len pre \<longrightarrow>
        reaches cs (if ms_row s < length (ms_rows s) then vr_start (ms_rows s ! ms_row s) else ms_start s) cursor (ms_column s))"

text \<open>The same once the symbol at the cursor has been looked at.\<close>

definition seen :: "nat \<Rightarrow> nat \<Rightarrow> scalars \<Rightarrow> scalars \<Rightarrow> measuring \<Rightarrow> bool" where
  "seen w cursor cs pre s \<longleftrightarrow> measured w cursor cs pre s \<and>
     (cursor \<le> byte_len pre \<longrightarrow>
        reaches cs (if ms_row s < length (ms_rows s) then vr_start (ms_rows s ! ms_row s) else ms_start s) cursor (ms_column s))"

lemma measured_new: "measured w cursor cs [] measure_new"
  by (simp add: measured_def measure_new_def)

lemma note_cursor_seen:
  assumes "measured w cursor cs pre s" and "cs = pre @ rest"
  shows "seen w cursor cs pre (note_cursor cursor s)"
proof (cases "cursor = byte_len pre")
  case True
  obtain p where p: "pre = p @ ms_text s" "ms_start s = byte_len p" using assms(1) by (auto simp: measured_def)
  have "reaches cs (ms_start s) cursor (2 + ms_used s)"
    unfolding reaches_def using assms p True
    by (intro exI [of _ "ms_text s"]) (auto simp: measured_def intro!: text_slice_of)
  then show ?thesis using assms(1) True by (auto simp: seen_def measured_def note_cursor_def)
next
  case False
  then show ?thesis using assms(1) by (auto simp: seen_def measured_def note_cursor_def)
qed

lemma prompt_length: "drop 2 prompt_prefix = []" "length prompt_prefix = 2"
  by (simp_all add: prompt_prefix_def)

lemma pushed_row_ok:
  assumes "measured w cursor cs pre s" and "cs = pre @ rest"
  shows "row_ok w cs \<lparr>vr_text = prompt_prefix @ ms_text s, vr_start = ms_start s, vr_end = ms_offset s\<rparr>"
proof -
  obtain p where p: "pre = p @ ms_text s" "ms_start s = byte_len p" using assms(1) by (auto simp: measured_def)
  then have "text_slice (ms_start s) (ms_offset s) cs = Some (ms_text s)"
    using assms by (auto simp: measured_def intro!: text_slice_of)
  then show ?thesis using assms(1) by (auto simp: row_ok_def measured_def)
qed

text \<open>A row is ended at the place reached, or at the line break after it.\<close>

lemma push_row_at:
  assumes "seen w cursor cs pre s" and "cs = pre @ rest"
  shows "measured w cursor cs pre ((push_row s)\<lparr>ms_start := byte_len pre\<rparr>)"
    and "rest = line_feed # later \<Longrightarrow>
      measured w cursor cs (pre @ [line_feed]) ((push_row s)\<lparr>ms_start := Suc (byte_len pre), ms_offset := Suc (byte_len pre)\<rparr>)"
    and "ms_row (push_row s) < length (ms_rows (push_row s))"
    and "cursor \<le> byte_len pre \<Longrightarrow> reaches cs (vr_start (ms_rows (push_row s) ! ms_row s)) cursor (ms_column s)"
proof -
  have s: "measured w cursor cs pre s" using assms(1) by (simp add: seen_def)
  note row = pushed_row_ok [OF s assms(2)]
  have kept: "cursor \<le> byte_len pre \<Longrightarrow> reaches cs (vr_start (ms_rows (push_row s) ! ms_row s)) cursor (ms_column s)"
    using assms(1) by (auto simp: seen_def measured_def push_row_def nth_append split: if_splits)
  then show "cursor \<le> byte_len pre \<Longrightarrow> reaches cs (vr_start (ms_rows (push_row s) ! ms_row s)) cursor (ms_column s)" .
  show "ms_row (push_row s) < length (ms_rows (push_row s))" using s by (simp add: measured_def push_row_def)
  show "measured w cursor cs pre ((push_row s)\<lparr>ms_start := byte_len pre\<rparr>)"
    using s row kept by (auto simp: measured_def push_row_def prompt_length)
  assume "rest = line_feed # later"
  have off: "\<not> off_line line_feed" by (simp add: off_line_def)
  show "measured w cursor cs (pre @ [line_feed]) ((push_row s)\<lparr>ms_start := Suc (byte_len pre), ms_offset := Suc (byte_len pre)\<rparr>)"
    using s row kept by (auto simp: measured_def push_row_def prompt_length off)
qed

lemma boundary_before:
  assumes "b @ a = pre @ c # rest" and "byte_len b < byte_len (pre @ [c])"
  shows "byte_len b \<le> byte_len pre"
proof (cases "length b \<le> length pre")
  case True
  then have "prefix b pre" using prefixI [of "pre @ c # rest" b a] assms(1) prefix_length_prefix [of b "pre @ c # rest" pre] by (simp add: prefix_def)
  then show ?thesis by (auto simp: prefix_def)
next
  case False
  have "prefix (pre @ [c]) (b @ a)" using assms(1) by (simp add: prefix_def)
  then have "prefix (pre @ [c]) b" using False prefix_length_prefix [of "pre @ [c]" "b @ a" b] by (simp add: prefix_def)
  then have "byte_len (pre @ [c]) \<le> byte_len b" by (auto simp: prefix_def)
  then show ?thesis using assms(2) by simp
qed

lemma measure_symbol_step:
  assumes "measured w cursor cs pre s" and "cs = pre @ c # rest" and "split_at cursor cs = Some (b, a)"
  shows "measured w cursor cs (pre @ [c]) (measure_symbol w cursor c s)"
proof (cases "c = line_feed")
  case True
  have offset: "ms_offset s = byte_len pre" using assms(1) by (simp add: measured_def)
  note seen = note_cursor_seen [OF assms(1,2)]
  have "measured w cursor cs (pre @ [line_feed])
      ((push_row (note_cursor cursor s))\<lparr>ms_start := Suc (byte_len pre), ms_offset := Suc (byte_len pre)\<rparr>)"
    by (rule push_row_at(2) [OF seen assms(2)]) (simp add: True)
  then show ?thesis using True offset by (simp add: measure_symbol_def)
next
  case False
  define t where "t = (if ms_used s \<noteq> 0 \<and> w < ms_used s + display_width c then (push_row s)\<lparr>ms_start := ms_offset s\<rparr> else s)"
  have offset: "ms_offset s = byte_len pre" using assms(1) by (simp add: measured_def)
  have t: "measured w cursor cs pre t" "width_of (ms_text t @ [c]) \<le> max w 2"
  proof -
    have late: "seen w cursor cs pre s" if "cursor \<noteq> byte_len pre" using assms(1) that by (auto simp: seen_def measured_def)
    have "measured w cursor cs pre ((push_row s)\<lparr>ms_start := byte_len pre\<rparr>)"
    proof (cases "cursor = byte_len pre")
      case True
      then show ?thesis using assms(1) pushed_row_ok [OF assms(1,2)] by (auto simp: measured_def push_row_def prompt_length)
    next
      case False
      from push_row_at(1) [OF late [OF False] assms(2)] show ?thesis .
    qed
    then show "measured w cursor cs pre t" using assms(1) offset by (simp add: t_def)
    show "width_of (ms_text t @ [c]) \<le> max w 2"
      using assms(1) display_width_two [of c] by (auto simp: t_def measured_def push_row_def)
  qed
  define u where "u = note_cursor cursor t"
  have u: "seen w cursor cs pre u" unfolding u_def by (rule note_cursor_seen [OF t(1) assms(2)])
  have width: "width_of (ms_text u @ [c]) \<le> max w 2" using t(2) by (simp add: u_def note_cursor_def)
  have step: "measure_symbol w cursor c s =
      u\<lparr>ms_text := ms_text u @ [c], ms_used := ms_used u + display_width c, ms_offset := byte_len pre + len_utf8 c\<rparr>"
    using False offset by (simp add: measure_symbol_def Let_def t_def u_def)
  have "off_line c" using False by (simp add: off_line_def)
  moreover have "cursor \<le> byte_len pre" if "cursor < byte_len pre + len_utf8 c"
    using boundary_before [of b a pre c rest] assms(2,3) that by (simp add: split_at_Some)
  ultimately show ?thesis using u width False unfolding step by (auto simp: seen_def measured_def)
qed

lemma measured_fold: "split_at cursor cs = Some (b, a) \<Longrightarrow> cs = pre @ rest \<Longrightarrow> measured w cursor cs pre s \<Longrightarrow> measured w cursor cs cs (fold (measure_symbol w cursor) rest s)"
proof (induction rest arbitrary: pre s)
  case (Cons c rest)
  then show ?case using measure_symbol_step [of w cursor cs pre s c rest b a] Cons.IH [of "pre @ [c]"] by simp
qed simp

lemma measured_layout:
  assumes "split_at cursor cs = Some (b, a)"
  shows "\<forall>r \<in> set (vl_rows (measure_text cs cursor width)). row_ok (content_width width) cs r"
    and "filter off_line cs = concat (map (\<lambda>r. drop 2 (vr_text r)) (vl_rows (measure_text cs cursor width)))"
    and "vl_cursor_row (measure_text cs cursor width) < length (vl_rows (measure_text cs cursor width))"
    and "\<exists>t. text_slice (vr_start (vl_rows (measure_text cs cursor width) ! vl_cursor_row (measure_text cs cursor width))) cursor cs = Some t \<and>
      vl_cursor_column (measure_text cs cursor width) = min (2 + width_of t) (max (unat width) 1 - 1)"
proof -
  let ?w = "content_width width"
  have cs: "cs = b @ a" "cursor = byte_len b" using assms by (simp_all add: split_at_Some)
  then have cursor: "min cursor (byte_len cs) = cursor" "cursor \<le> byte_len cs" by simp_all
  define s where "s = fold (measure_symbol ?w cursor) cs measure_new"
  have "measured ?w cursor cs cs s"
    unfolding s_def using measured_fold [OF assms, of "[]" cs ?w measure_new] measured_new by simp
  from note_cursor_seen [OF this] have seen: "seen ?w cursor cs cs (note_cursor cursor s)" by simp
  define u where "u = push_row (note_cursor cursor s)"
  have l: "measure_text cs cursor width = \<lparr>vl_rows = ms_rows u, vl_cursor_row = ms_row u,
      vl_cursor_column = min (ms_column u) (max (unat width) 1 - 1), vl_cursor_byte = cursor\<rparr>"
    by (simp add: measure_text_def Let_def cursor u_def s_def)
  note pushed = push_row_at(1,3,4) [OF seen, of "[]", folded u_def]
  have same: "ms_row u = ms_row (note_cursor cursor s)" "ms_column u = ms_column (note_cursor cursor s)" "ms_text u = []"
    by (simp_all add: u_def push_row_def)
  have m: "measured ?w cursor cs cs (u\<lparr>ms_start := byte_len cs\<rparr>)" using pushed(1) by simp
  show "\<forall>r \<in> set (vl_rows (measure_text cs cursor width)). row_ok ?w cs r" using m by (simp add: l measured_def)
  show "filter off_line cs = concat (map (\<lambda>r. drop 2 (vr_text r)) (vl_rows (measure_text cs cursor width)))"
    using m by (simp add: l measured_def same)
  show "vl_cursor_row (measure_text cs cursor width) < length (vl_rows (measure_text cs cursor width))"
    using pushed(2) by (simp add: l)
  have "reaches cs (vr_start (ms_rows u ! ms_row u)) cursor (ms_column u)" using pushed(3) cursor(2) by (simp add: same)
  then show "\<exists>t. text_slice (vr_start (vl_rows (measure_text cs cursor width) ! vl_cursor_row (measure_text cs cursor width))) cursor cs = Some t \<and>
      vl_cursor_column (measure_text cs cursor width) = min (2 + width_of t) (max (unat width) 1 - 1)"
    by (auto simp: l reaches_def)
qed

lemma reach_inside: "\<exists>p q. xs = p @ q \<and> reach desired column xs cursor = cursor + byte_len p"
proof (induction desired column xs cursor rule: reach.induct)
  case (2 desired column x xs cursor)
  show ?case
  proof (cases "desired < column + display_width x")
    case True
    then have "x # xs = [] @ (x # xs) \<and> reach desired column (x # xs) cursor = cursor + byte_len []" by simp
    then show ?thesis by blast
  next
    case False
    then obtain p q where "xs = p @ q" "reach desired (column + display_width x) xs (cursor + len_utf8 x) = cursor + len_utf8 x + byte_len p"
      using 2 by blast
    then have "x # xs = (x # p) @ q \<and> reach desired column (x # xs) cursor = cursor + byte_len (x # p)" using False by simp
    then show ?thesis by blast
  qed
qed simp

lemma text_slice_Some: "text_slice m n cs = Some t \<Longrightarrow> \<exists>p a. cs = p @ t @ a \<and> m = byte_len p"
  by (auto simp: text_slice_def split_at_Some split: option.splits bind_splits) blast

text \<open>C26: the rows shown for a prompt are the prompt: cut at its line breaks and where a row is full, they hold its text in
  order and nothing else, each the slice of the buffer its offsets name and, on a terminal of at least four columns, no wider
  than the terminal; and the cursor is in the row and column where the text before it ends.\<close>

theorem visual_rows_show_text:
  assumes "split_at cursor cs = Some (b, a)" and "4 \<le> unat width"
  shows "case measure_text cs cursor width of l \<Rightarrow>
    filter off_line cs = concat (map (\<lambda>r. drop 2 (vr_text r)) (vl_rows l)) \<and>
    list_all (\<lambda>r. \<exists>t. text_slice (vr_start r) (vr_end r) cs = Some t \<and> vr_text r = prompt_prefix @ t \<and> 2 + width_of t \<le> unat width) (vl_rows l) \<and>
    vl_cursor_row l < length (vl_rows l) \<and>
    (\<exists>t. text_slice (vr_start (vl_rows l ! vl_cursor_row l)) cursor cs = Some t \<and>
       vl_cursor_column l = min (2 + width_of t) (unat width - 1))"
proof -
  note m = measured_layout [OF assms(1), of width]
  have "max (content_width width) 2 = unat width - 2" using assms(2) by (simp add: content_width_def)
  then have "\<exists>t. text_slice (vr_start r) (vr_end r) cs = Some t \<and> vr_text r = prompt_prefix @ t \<and> 2 + width_of t \<le> unat width"
    if "row_ok (content_width width) cs r" for r
    using that assms(2) by (auto simp: row_ok_def)
  then show ?thesis using m assms(2) by (auto simp: list_all_iff)
qed

theorem visual_rows_show_text_witness:
  "case measure_text [0x61, 0x62, 0x63] 3 4 of l \<Rightarrow>
    filter off_line [0x61, 0x62, 0x63] = concat (map (\<lambda>r. drop 2 (vr_text r)) (vl_rows l)) \<and>
    list_all (\<lambda>r. \<exists>t. text_slice (vr_start r) (vr_end r) [0x61, 0x62, 0x63] = Some t \<and> vr_text r = prompt_prefix @ t \<and> 2 + width_of t \<le> unat (4 :: 16 word)) (vl_rows l) \<and>
    vl_cursor_row l < length (vl_rows l) \<and>
    (\<exists>t. text_slice (vr_start (vl_rows l ! vl_cursor_row l)) 3 [0x61, 0x62, 0x63] = Some t \<and>
       vl_cursor_column l = min (2 + width_of t) (unat (4 :: 16 word) - 1))"
  by (rule visual_rows_show_text [of 3 "[0x61, 0x62, 0x63]" "[0x61, 0x62, 0x63]" "[]" 4]) (simp_all add: split_at_Some len_utf8_def)

text \<open>Moving the cursor by a visible row never panics and keeps the text and a cursor on a character boundary; it tells that it
  moved exactly when there is a row in that direction, and the cursor stays where it was otherwise.\<close>

theorem visual_motion_safe:
  assumes "around c = Some (b, a)"
  shows "\<exists>moved c' b' a'. move_visual_line width direction c = Some (moved, c') \<and> around c' = Some (b', a') \<and> b' @ a' = b @ a \<and>
    moved = (let l = measure_text (b @ a) (byte_len b) width; target = int (vl_cursor_row l) + direction
       in 0 \<le> target \<and> target < int (length (vl_rows l))) \<and> (moved \<or> c' = c)"
proof -
  have c: "c = composer_at (b, a)" using assms by (simp add: around_at)
  define l where "l = measure_text (b @ a) (byte_len b) width"
  define target where "target = int (vl_cursor_row l) + direction"
  note m = measured_layout [OF split_at_append, of b a width, folded l_def]
  show ?thesis
  proof (cases "0 \<le> target \<and> target < int (length (vl_rows l))")
    case False
    then have "move_visual_line width direction c = Some (False, c)"
      by (auto simp: c move_visual_line_def Let_def l_def [symmetric] target_def [symmetric])
    then show ?thesis using assms False by (auto simp: Let_def l_def [symmetric] target_def [symmetric])
  next
    case True
    define there where "there = vl_rows l ! nat target"
    have "there \<in> set (vl_rows l)" using True unfolding there_def by (intro nth_mem) auto
    then obtain row where row: "text_slice (vr_start there) (vr_end there) (b @ a) = Some row" using m(1) by (auto simp: row_ok_def)
    obtain passed where passed: "text_slice (vr_start (vl_rows l ! vl_cursor_row l)) (byte_len b) (b @ a) = Some passed"
      using m(4) by blast
    have moved: "move_visual_line width direction c =
        Some (True, c\<lparr>cp_cursor := reach (width_of passed) 0 row (vr_start there)\<rparr>)"
      using True m(3) by (simp add: c move_visual_line_def Let_def l_def [symmetric] target_def [symmetric] there_def [symmetric] passed row)
    obtain p r where p: "b @ a = p @ row @ r" "vr_start there = byte_len p" using text_slice_Some [OF row] by blast
    obtain x y where x: "row = x @ y" "reach (width_of passed) 0 row (vr_start there) = vr_start there + byte_len x"
      using reach_inside by blast
    have "b @ a = (p @ x) @ (y @ r)" using p x by simp
    from move_cursor [OF this] have "c\<lparr>cp_cursor := reach (width_of passed) 0 row (vr_start there)\<rparr> = composer_at (p @ x, y @ r)"
      using p x by (simp add: c)
    then have "move_visual_line width direction c = Some (True, composer_at (p @ x, y @ r))" using moved by simp
    moreover have "around (composer_at (p @ x, y @ r)) = Some (p @ x, y @ r)" by (simp add: around_at)
    moreover have "(p @ x) @ (y @ r) = b @ a" using p x by simp
    moreover have "True = (let l = measure_text (b @ a) (byte_len b) width; target = int (vl_cursor_row l) + direction
       in 0 \<le> target \<and> target < int (length (vl_rows l)))"
      using True unfolding Let_def l_def [symmetric] target_def [symmetric] by simp
    ultimately show ?thesis by blast
  qed
qed

theorem visual_motion_safe_witness:
  "\<exists>moved c' b' a'. move_visual_line 3 1 \<lparr>cp_text = [0x61, 0x62], cp_cursor = 0\<rparr> = Some (moved, c') \<and> around c' = Some (b', a') \<and>
    b' @ a' = [0x61, 0x62]"
proof -
  have "around \<lparr>cp_text = [0x61, 0x62], cp_cursor = 0\<rparr> = Some ([], [0x61, 0x62])" by (simp add: around_iff)
  from visual_motion_safe [OF this, of 3 1] show ?thesis by auto
qed

end
