(* ===== verification/Protocol.thy ===== *)
theory Protocol
  imports Schema
begin

text \<open>
  The shared protocol values (\<open>tea-protocol/src/types.rs\<close>, \<open>events.rs\<close>, \<open>error.rs\<close>) and the validator of model
  response streams (\<open>tea-protocol/src/model_stream.rs\<close>): a response starts once, has deltas and tool calls whose pieces
  are balanced, and settles once. Identifiers are the texts they wrap.
\<close>

section \<open>Identifiers and messages\<close>

datatype identifier_error = EmptyIdentifier string

definition identifier_new :: "string \<Rightarrow> string \<Rightarrow> identifier_error + string" where
  "identifier_new kind v = (if v = [] then Inl (EmptyIdentifier kind) else Inr v)"

fun display_identifier_error :: "identifier_error \<Rightarrow> string" where
  "display_identifier_error (EmptyIdentifier kind) = kind @ '' cannot be empty''"

datatype message_role = SystemRole | UserRole | AssistantRole | ToolRole

datatype content_part =
  TextPart string
| ReasoningPart string
| ToolCallPart string string json
| ToolResultPart string json bool

record protocol_message =
  pm_id :: "string option"
  pm_role :: message_role
  pm_content :: "content_part list"
  pm_metadata :: "string btree"

definition protocol_message_new :: "message_role \<Rightarrow> content_part list \<Rightarrow> protocol_message" where
  "protocol_message_new role parts = \<lparr>pm_id = None, pm_role = role, pm_content = parts, pm_metadata = []\<rparr>"

definition protocol_text :: "message_role \<Rightarrow> string \<Rightarrow> protocol_message" where
  "protocol_text role t = protocol_message_new role [TextPart t]"

record token_usage =
  tu_input :: u64
  tu_output :: u64
  tu_cached :: "u64 option"

definition total_tokens :: "token_usage \<Rightarrow> u64" where
  "total_tokens u = sat_add (tu_input u) (tu_output u)"

section \<open>Model streams\<close>

datatype finish_kind = FinishStop | FinishLength | FinishToolCall | FinishCancelled | FinishError | FinishOther string

datatype stream_item =
  StreamStarted string string
| StreamText string
| StreamReasoning string
| CallStarted string string
| CallArguments string string
| CallFinished string
| StreamFinished finish_kind "token_usage option"
| StreamError string

fun item_kind :: "stream_item \<Rightarrow> string" where
  "item_kind (StreamStarted r m) = ''started''"
| "item_kind (StreamText t) = ''text_delta''"
| "item_kind (StreamReasoning t) = ''reasoning_delta''"
| "item_kind (CallStarted i n) = ''tool_call_started''"
| "item_kind (CallArguments i d) = ''tool_call_arguments_delta''"
| "item_kind (CallFinished i) = ''tool_call_finished''"
| "item_kind (StreamFinished why u) = ''finished''"
| "item_kind (StreamError why) = ''error''"

fun settles_stream :: "stream_item \<Rightarrow> bool" where
  "settles_stream (StreamFinished why u) \<longleftrightarrow> True"
| "settles_stream (StreamError why) \<longleftrightarrow> True"
| "settles_stream _ \<longleftrightarrow> False"

datatype stream_phase = StreamIdle | StreamActive | StreamDone | StreamFailed

record model_stream =
  st_phase :: stream_phase
  st_response :: "string option"
  st_model :: "string option"
  st_open :: "string set"

definition model_stream_new :: model_stream where
  "model_stream_new = \<lparr>st_phase = StreamIdle, st_response = None, st_model = None, st_open = {}\<rparr>"

datatype stream_error =
  ExpectedStart string
| DuplicateStart
| AfterTerminal stream_phase string
| EmptyToolName
| DuplicateToolCall string
| UnknownToolCall string
| OpenToolCallsAtFinish nat

type_synonym accepted = "(stream_error + unit) \<times> model_stream"

fun accept_idle :: "stream_item \<Rightarrow> model_stream \<Rightarrow> accepted" where
  "accept_idle (StreamStarted r m) s = (Inr (), s\<lparr>st_response := Some r, st_model := Some m, st_phase := StreamActive\<rparr>)"
| "accept_idle (StreamError why) s = (Inr (), s\<lparr>st_phase := StreamFailed\<rparr>)"
| "accept_idle it s = (Inl (ExpectedStart (item_kind it)), s)"

fun accept_active :: "stream_item \<Rightarrow> model_stream \<Rightarrow> accepted" where
  "accept_active (StreamStarted r m) s = (Inl DuplicateStart, s)"
| "accept_active (StreamText t) s = (Inr (), s)"
| "accept_active (StreamReasoning t) s = (Inr (), s)"
| "accept_active (CallStarted i n) s =
     (if n = [] then (Inl EmptyToolName, s)
      else if i \<in> st_open s then (Inl (DuplicateToolCall i), s)
      else (Inr (), s\<lparr>st_open := insert i (st_open s)\<rparr>))"
| "accept_active (CallArguments i d) s = (if i \<in> st_open s then (Inr (), s) else (Inl (UnknownToolCall i), s))"
| "accept_active (CallFinished i) s =
     (if i \<in> st_open s then (Inr (), s\<lparr>st_open := st_open s - {i}\<rparr>) else (Inl (UnknownToolCall i), s))"
| "accept_active (StreamFinished why u) s =
     (if st_open s \<noteq> {} then (Inl (OpenToolCallsAtFinish (card (st_open s))), s)
      else (Inr (), s\<lparr>st_phase := StreamDone\<rparr>))"
| "accept_active (StreamError why) s = (Inr (), s\<lparr>st_open := {}, st_phase := StreamFailed\<rparr>)"

definition accept_item :: "stream_item \<Rightarrow> model_stream \<Rightarrow> accepted" where
  "accept_item it s = (case st_phase s of
       StreamIdle \<Rightarrow> accept_idle it s
     | StreamActive \<Rightarrow> accept_active it s
     | phase \<Rightarrow> (Inl (AfterTerminal phase (item_kind it)), s))"

fun stream_phase_name :: "stream_phase \<Rightarrow> string" where
  "stream_phase_name StreamIdle = ''Idle''"
| "stream_phase_name StreamActive = ''Active''"
| "stream_phase_name StreamDone = ''Finished''"
| "stream_phase_name StreamFailed = ''Failed''"

fun display_stream_error :: "stream_error \<Rightarrow> string" where
  "display_stream_error (ExpectedStart it) = ''expected stream start, got '' @ it"
| "display_stream_error DuplicateStart = ''model stream started more than once''"
| "display_stream_error (AfterTerminal phase it) = ''got '' @ it @ '' after terminal stream phase '' @ stream_phase_name phase"
| "display_stream_error EmptyToolName = ''model stream tool name cannot be empty''"
| "display_stream_error (DuplicateToolCall i) = ''duplicate tool call '' @ i"
| "display_stream_error (UnknownToolCall i) = ''unknown tool call '' @ i"
| "display_stream_error (OpenToolCallsAtFinish n) = ''cannot finish with '' @ decimal_text n @ '' open tool call(s)''"

section \<open>Errors and events\<close>

datatype error_category = InvalidInputCategory | InvalidTransitionCategory | CancelledCategory | UnsupportedCategory | InternalCategory

datatype protocol_error =
  InvalidInput string string
| InvalidTransition string string
| CancelledError "string option"
| UnsupportedFeature string
| InternalError string

fun category_of :: "protocol_error \<Rightarrow> error_category" where
  "category_of (InvalidInput f m) = InvalidInputCategory"
| "category_of (InvalidTransition s e) = InvalidTransitionCategory"
| "category_of (CancelledError r) = CancelledCategory"
| "category_of (UnsupportedFeature f) = UnsupportedCategory"
| "category_of (InternalError m) = InternalCategory"

fun display_protocol_error :: "protocol_error \<Rightarrow> string" where
  "display_protocol_error (InvalidInput f m) = ''invalid input for '' @ f @ '': '' @ m"
| "display_protocol_error (InvalidTransition s e) = ''invalid transition: event '' @ e @ '' in state '' @ s"
| "display_protocol_error (CancelledError (Some r)) = ''cancelled: '' @ r"
| "display_protocol_error (CancelledError None) = ''cancelled''"
| "display_protocol_error (UnsupportedFeature f) = ''unsupported protocol feature: '' @ f"
| "display_protocol_error (InternalError m) = ''internal protocol error: '' @ m"

definition from_cancelled :: "string option \<Rightarrow> protocol_error" where
  "from_cancelled r = CancelledError r"

definition from_json_error :: "texts \<Rightarrow> json_error \<Rightarrow> protocol_error" where
  "from_json_error tx e = InvalidInput ''json'' (display_json_error tx e)"

definition from_stream_error :: "stream_error \<Rightarrow> protocol_error" where
  "from_stream_error e = InvalidTransition ''model_stream'' (display_stream_error e)"

definition from_identifier_error :: "identifier_error \<Rightarrow> protocol_error" where
  "from_identifier_error e = InvalidInput ''identifier'' (display_identifier_error e)"

datatype run_outcome = RunCompleted | RunFailed | RunCancelled

datatype protocol_event =
  RunStarted
| ModelStreamEvent string stream_item
| MessageEvent protocol_message
| ToolStarted string string
| ToolDelta string string
| ToolFinished string "protocol_message option"
| RunFinished run_outcome "token_usage option"
| ErrorEvent protocol_error

datatype protocol_event_kind = RunStartedKind | ModelStreamKind | MessageKind | ToolKind | RunFinishedKind | ErrorKind

fun protocol_kind :: "protocol_event \<Rightarrow> protocol_event_kind" where
  "protocol_kind RunStarted = RunStartedKind"
| "protocol_kind (ModelStreamEvent r it) = ModelStreamKind"
| "protocol_kind (MessageEvent m) = MessageKind"
| "protocol_kind (ToolStarted i n) = ToolKind"
| "protocol_kind (ToolDelta i d) = ToolKind"
| "protocol_kind (ToolFinished i m) = ToolKind"
| "protocol_kind (RunFinished out u) = RunFinishedKind"
| "protocol_kind (ErrorEvent e) = ErrorKind"

definition settles_run :: "protocol_event \<Rightarrow> bool" where
  "settles_run e = (case e of RunFinished out u \<Rightarrow> True | _ \<Rightarrow> False)"

record event_envelope =
  en_run :: string
  en_sequence :: u64
  en_timestamp :: "u64 option"
  en_event :: protocol_event

definition envelope_new :: "string \<Rightarrow> u64 \<Rightarrow> protocol_event \<Rightarrow> event_envelope" where
  "envelope_new run n e = \<lparr>en_run = run, en_sequence = n, en_timestamp = None, en_event = e\<rparr>"

definition with_timestamp :: "u64 \<Rightarrow> event_envelope \<Rightarrow> event_envelope" where
  "with_timestamp t e = e\<lparr>en_timestamp := Some t\<rparr>"

section \<open>What a valid stream is\<close>

text \<open>The items given one after another, up to the first that is refused.\<close>

fun accept_all :: "stream_item list \<Rightarrow> model_stream \<Rightarrow> stream_error + model_stream" where
  "accept_all [] s = Inr s"
| "accept_all (it # its) s = (case accept_item it s of
      (Inl e, s) \<Rightarrow> Inl e | (Inr _, s) \<Rightarrow> accept_all its s)"

lemma refused_unchanged: "accept_item it s = (Inl e, s') \<Longrightarrow> s' = s"
  by (cases it) (auto simp: accept_item_def split: stream_phase.splits if_splits)

text \<open>Inside a response there is no start and no end, and every call is named.\<close>

fun inner_item :: "stream_item \<Rightarrow> bool" where
  "inner_item (StreamText t) \<longleftrightarrow> True"
| "inner_item (StreamReasoning t) \<longleftrightarrow> True"
| "inner_item (CallStarted i n) \<longleftrightarrow> n \<noteq> []"
| "inner_item (CallArguments i d) \<longleftrightarrow> True"
| "inner_item (CallFinished i) \<longleftrightarrow> True"
| "inner_item _ \<longleftrightarrow> False"

datatype call_piece = Opens | Adds | Closes

fun piece_of :: "string \<Rightarrow> stream_item \<Rightarrow> call_piece option" where
  "piece_of i (CallStarted j n) = (if i = j then Some Opens else None)"
| "piece_of i (CallArguments j d) = (if i = j then Some Adds else None)"
| "piece_of i (CallFinished j) = (if i = j then Some Closes else None)"
| "piece_of i _ = None"

definition pieces :: "string \<Rightarrow> stream_item list \<Rightarrow> call_piece list" where
  "pieces i its = List.map_filter (piece_of i) its"

text \<open>The pieces of one call: opened, added to any number of times, closed, any number of times over.\<close>

fun balanced :: "bool \<Rightarrow> call_piece list \<Rightarrow> bool" where
  "balanced opened [] \<longleftrightarrow> \<not> opened"
| "balanced opened (Opens # ps) \<longleftrightarrow> \<not> opened \<and> balanced True ps"
| "balanced opened (Adds # ps) \<longleftrightarrow> opened \<and> balanced True ps"
| "balanced opened (Closes # ps) \<longleftrightarrow> opened \<and> balanced False ps"

lemma pieces_simps [simp]: "pieces i [] = []"
  "pieces i (it # its) = (case piece_of i it of Some p \<Rightarrow> p # pieces i its | None \<Rightarrow> pieces i its)"
  by (simp_all add: pieces_def List.map_filter_simps split: option.split)

definition finishes :: "string set \<Rightarrow> stream_item list \<Rightarrow> bool" where
  "finishes opened its \<longleftrightarrow> (\<exists>ds why u. its = ds @ [StreamFinished why u] \<and> list_all inner_item ds \<and> (\<forall>i. balanced (i \<in> opened) (pieces i ds)))"

lemma finishes_Nil: "\<not> finishes opened []"
  by (simp add: finishes_def)

lemma finishes_end: "finishes opened (StreamFinished why u # its) \<longleftrightarrow> its = [] \<and> opened = {}"
proof
  assume "finishes opened (StreamFinished why u # its)"
  then obtain ds why' u' where ds: "StreamFinished why u # its = ds @ [StreamFinished why' u']" "list_all inner_item ds"
      "\<forall>i. balanced (i \<in> opened) (pieces i ds)" unfolding finishes_def by blast
  have "ds = []" using ds(1,2) by (cases ds) auto
  then show "its = [] \<and> opened = {}" using ds by auto
next
  assume "its = [] \<and> opened = {}"
  then have "StreamFinished why u # its = [] @ [StreamFinished why u] \<and> list_all inner_item [] \<and> (\<forall>i. balanced (i \<in> opened) (pieces i []))" by simp
  then show "finishes opened (StreamFinished why u # its)" unfolding finishes_def by blast
qed

lemma finishes_step:
  assumes "\<not> settles_stream it"
  shows "finishes opened (it # its) \<longleftrightarrow> inner_item it \<and>
    (\<exists>ds why u. its = ds @ [StreamFinished why u] \<and> list_all inner_item ds \<and> (\<forall>i. balanced (i \<in> opened) (pieces i (it # ds))))"
    (is "?l \<longleftrightarrow> ?r")
proof
  assume ?l
  then obtain ds why u where ds: "it # its = ds @ [StreamFinished why u]" "list_all inner_item ds"
      "\<forall>i. balanced (i \<in> opened) (pieces i ds)" unfolding finishes_def by blast
  then obtain ds' where "ds = it # ds'" using assms by (cases ds) auto
  then show ?r using ds by auto
next
  assume ?r
  then obtain ds why u where "its = ds @ [StreamFinished why u]" "list_all inner_item (it # ds)"
      "\<forall>i. balanced (i \<in> opened) (pieces i (it # ds))" by auto
  then have "it # its = (it # ds) @ [StreamFinished why u] \<and> list_all inner_item (it # ds) \<and> (\<forall>i. balanced (i \<in> opened) (pieces i (it # ds)))" by simp
  then show ?l unfolding finishes_def by blast
qed

lemma finishes_error: "\<not> finishes opened (StreamError why # its)"
proof
  assume "finishes opened (StreamError why # its)"
  then obtain ds why' u where "StreamError why # its = ds @ [StreamFinished why' u]" "list_all inner_item ds" unfolding finishes_def by blast
  then show False by (cases ds) auto
qed

lemma finishes_call:
  "finishes opened (CallStarted j n # its) \<longleftrightarrow> n \<noteq> [] \<and> j \<notin> opened \<and> finishes (insert j opened) its"
  "finishes opened (CallArguments j d # its) \<longleftrightarrow> j \<in> opened \<and> finishes opened its"
  "finishes opened (CallFinished j # its) \<longleftrightarrow> j \<in> opened \<and> finishes (opened - {j}) its"
proof -
  have one: "(\<forall>i. P i) \<longleftrightarrow> q \<and> (\<forall>i. R i)" if "\<And>i. P i \<longleftrightarrow> (i = j \<longrightarrow> q) \<and> R i" for P R and q :: bool
    using that by metis
  have opens: "(\<forall>i. balanced (i \<in> opened) (pieces i (CallStarted j n # ds))) \<longleftrightarrow>
      j \<notin> opened \<and> (\<forall>i. balanced (i \<in> insert j opened) (pieces i ds))" for ds
    by (rule one) auto
  have adds: "(\<forall>i. balanced (i \<in> opened) (pieces i (CallArguments j d # ds))) \<longleftrightarrow>
      j \<in> opened \<and> (\<forall>i. balanced (i \<in> opened) (pieces i ds))" for ds
    by (rule one) auto
  have closes: "(\<forall>i. balanced (i \<in> opened) (pieces i (CallFinished j # ds))) \<longleftrightarrow>
      j \<in> opened \<and> (\<forall>i. balanced (i \<in> opened - {j}) (pieces i ds))" for ds
    by (rule one) auto
  show "finishes opened (CallStarted j n # its) \<longleftrightarrow> n \<noteq> [] \<and> j \<notin> opened \<and> finishes (insert j opened) its"
    by (subst finishes_step) (simp, simp only: opens, auto simp: finishes_def)
  show "finishes opened (CallArguments j d # its) \<longleftrightarrow> j \<in> opened \<and> finishes opened its"
    by (subst finishes_step) (simp, simp only: adds, auto simp: finishes_def)
  show "finishes opened (CallFinished j # its) \<longleftrightarrow> j \<in> opened \<and> finishes (opened - {j}) its"
    by (subst finishes_step) (simp, simp only: closes, auto simp: finishes_def)
qed

lemma finishes_delta:
  "finishes opened (StreamText t # its) \<longleftrightarrow> finishes opened its"
  "finishes opened (StreamReasoning t # its) \<longleftrightarrow> finishes opened its"
  "\<not> finishes opened (StreamStarted r m # its)"
  by (subst finishes_step; auto simp: finishes_def)+

lemma settled_refuses: "st_phase s = StreamDone \<or> st_phase s = StreamFailed \<Longrightarrow>
    accept_all its s = Inr s' \<longleftrightarrow> its = [] \<and> s' = s"
  by (cases its) (auto simp: accept_item_def)

lemma active_finishes:
  "st_phase s = StreamActive \<Longrightarrow> (\<exists>s'. accept_all its s = Inr s' \<and> st_phase s' = StreamDone) \<longleftrightarrow> finishes (st_open s) its"
proof (induction its arbitrary: s)
  case Nil
  then show ?case by (simp add: finishes_Nil)
next
  case (Cons it its)
  then show ?case
    by (cases it) (auto simp: accept_item_def finishes_call finishes_delta finishes_end finishes_error settled_refuses)
qed


end
