(* ===== verification/App_State.thy ===== *)
theory App_State
  imports Run Tool_Args Composer Sessions
begin

text \<open>
  What the terminal application shows (\<open>tea-agent/src/app/state.rs\<close>, the commands of \<open>app/commands.rs\<close>, and
  \<open>format_usage\<close> of \<open>app/support.rs\<close>): the transcript projected from the agent's events or from a restored
  conversation, the queues, history, completion menu and scrolling. Indexing past the transcript panics, which is \<open>None\<close>.
  A size is a natural number that saturates at the machine's largest.
\<close>

section \<open>The state\<close>

datatype tool_state = ToolStarted | ToolProgress | ToolCompleted | ToolFailed

record tool_projection =
  tp_call :: tool_call_id
  tp_sequence :: "u64 option"
  tp_index :: nat
  tp_name :: string
  tp_arguments :: string
  tp_progress :: "string option"
  tp_result :: "string option"
  tp_state :: tool_state

datatype notice_severity = InfoNotice | WarningNotice

datatype transcript_entry =
  WelcomeEntry string
| UserEntry string
| AssistantEntry string bool
| ToolEntry tool_projection
| NoticeEntry string notice_severity
| ErrorEntry string

datatype ui_surface = NoSurface | HelpSurface | ModelPickerSurface | CustomModelSurface | SessionPickerSurface | CostSurface | ToolDetailSurface

datatype ui_status = IdleStatus | ActiveStatus | NoticeStatus string

datatype picker =
  ModelPicker string nat
| CustomModelPicker string string
| SessionPicker string nat "session_summary list"

record slash_completion =
  sl_prefix :: string
  sl_selected :: nat
  sl_matches :: "string list"

record context_shown =
  cx_tokens :: "u64 option"
  cx_messages :: nat

datatype queue_delivery = SteeringDelivery | FollowUpDelivery

record queued_prompt =
  qp_sequence :: u64
  qp_content :: string
  qp_delivery :: queue_delivery
  qp_mode :: queue_mode

record app_state =
  ap_transcript :: "transcript_entry list"
  ap_sequences :: "u64 option list"
  ap_composer :: composer
  ap_status :: ui_status
  ap_viewport :: nat
  ap_follow :: bool
  ap_visible :: nat
  ap_rows :: nat
  ap_snapshot :: "agent_state option"
  ap_model :: "model_descriptor option"
  ap_compacts :: bool
  ap_window :: "u64 option"
  ap_picker :: "picker option"
  ap_streaming :: "nat option"
  ap_tools :: "nat btree"
  ap_context :: "context_shown option"
  ap_queued :: "queued_prompt list"
  ap_history :: "string list"
  ap_history_index :: "nat option"
  ap_history_draft :: "string option"
  ap_surface :: ui_surface
  ap_lines :: "string list"
  ap_offset :: nat
  ap_slash :: "slash_completion option"
  ap_usage :: usage

definition app_new :: app_state where
  "app_new = \<lparr>ap_transcript = [], ap_sequences = [], ap_composer = composer_new, ap_status = IdleStatus, ap_viewport = 0,
     ap_follow = True, ap_visible = 0, ap_rows = 0, ap_snapshot = None, ap_model = None, ap_compacts = False, ap_window = None,
     ap_picker = None, ap_streaming = None, ap_tools = [], ap_context = None, ap_queued = [], ap_history = [],
     ap_history_index = None, ap_history_draft = None, ap_surface = NoSurface, ap_lines = [], ap_offset = 0, ap_slash = None,
     ap_usage = usage_default\<rparr>"

section \<open>Entries of the transcript\<close>

definition push_entry :: "u64 option \<Rightarrow> transcript_entry \<Rightarrow> app_state \<Rightarrow> app_state" where
  "push_entry n e s = s\<lparr>ap_transcript := ap_transcript s @ [e], ap_sequences := ap_sequences s @ [n]\<rparr>"

definition notice :: "string \<Rightarrow> app_state \<Rightarrow> app_state" where
  "notice t s = s\<lparr>ap_status := NoticeStatus t\<rparr>"

text \<open>\<open>get_mut(index)\<close> with the entry replaced, and the sequence at the same place, which must be there.\<close>

definition set_sequence :: "nat \<Rightarrow> u64 option \<Rightarrow> app_state \<Rightarrow> app_state option" where
  "set_sequence i n s = (if i < length (ap_sequences s) then Some (s\<lparr>ap_sequences := (ap_sequences s)[i := n]\<rparr>) else None)"

definition entry_of :: "app_state \<Rightarrow> nat \<Rightarrow> transcript_entry option" where
  "entry_of s i = (if i < length (ap_transcript s) then Some (ap_transcript s ! i) else None)"

definition set_entry :: "nat \<Rightarrow> transcript_entry \<Rightarrow> app_state \<Rightarrow> app_state" where
  "set_entry i e s = s\<lparr>ap_transcript := (ap_transcript s)[i := e]\<rparr>"

definition new_tool ::
    "tool_call_id \<Rightarrow> u64 option \<Rightarrow> string \<Rightarrow> string \<Rightarrow> tool_state \<Rightarrow> string option \<Rightarrow> string option \<Rightarrow> app_state \<Rightarrow> app_state" where
  "new_tool i n name arguments st progress result s =
     (let k = length (ap_transcript s);
          row = \<lparr>tp_call = i, tp_sequence = n, tp_index = k, tp_name = name, tp_arguments = arguments,
            tp_progress = progress, tp_result = result, tp_state = st\<rparr>;
          s = push_entry n (ToolEntry row) s
      in s\<lparr>ap_tools := btree_insert i k (ap_tools s)\<rparr>)"

definition updated_row :: "u64 option \<Rightarrow> string \<Rightarrow> tool_state \<Rightarrow> string option \<Rightarrow> string option \<Rightarrow> tool_projection \<Rightarrow> tool_projection" where
  "updated_row n name st progress result p = p\<lparr>tp_sequence := n, tp_name := name, tp_state := st,
     tp_progress := (if progress \<noteq> None then progress else tp_progress p),
     tp_result := (if result \<noteq> None then result else tp_result p)\<rparr>"

definition update_tool_line ::
    "tool_call_id \<Rightarrow> u64 option \<Rightarrow> string \<Rightarrow> tool_state \<Rightarrow> string option \<Rightarrow> string option \<Rightarrow> app_state \<Rightarrow> app_state option" where
  "update_tool_line i n name st progress result s =
     (case Option.bind (btree_get (ap_tools s) i) (\<lambda>k. map_option (Pair k) (entry_of s k)) of
        Some (k, ToolEntry p) \<Rightarrow> set_sequence k n (set_entry k (ToolEntry (updated_row n name st progress result p)) s)
      | _ \<Rightarrow> Some (new_tool i n name [] st progress result s))"

definition btree_remove :: "string \<Rightarrow> 'v btree \<Rightarrow> 'v btree" where
  "btree_remove k es = filter (\<lambda>(j, v). j \<noteq> k) es"

text \<open>The end of an assistant message: the streamed row becomes the answer or the error, or one is added.\<close>

definition end_assistant :: "u64 option \<Rightarrow> string \<Rightarrow> string option \<Rightarrow> app_state \<Rightarrow> app_state option" where
  "end_assistant n text err s =
     map_option (\<lambda>s. s\<lparr>ap_streaming := None\<rparr>)
       (case ap_streaming s of
          Some i \<Rightarrow> (case err of
              Some e \<Rightarrow> (if entry_of s i = None then Some s else set_sequence i n (set_entry i (ErrorEntry e) s))
            | None \<Rightarrow> (case entry_of s i of
                Some (AssistantEntry t b) \<Rightarrow> set_sequence i n (set_entry i (AssistantEntry text False) s)
              | _ \<Rightarrow> Some s))
        | None \<Rightarrow> (case err of
              Some e \<Rightarrow> Some (push_entry n (ErrorEntry e) s)
            | None \<Rightarrow> Some (push_entry n (AssistantEntry text False) s)))"

definition stream_delta :: "u64 option \<Rightarrow> string \<Rightarrow> app_state \<Rightarrow> app_state" where
  "stream_delta n delta s = (case ap_streaming s of
       Some i \<Rightarrow> (case entry_of s i of
           Some (AssistantEntry t b) \<Rightarrow> set_entry i (AssistantEntry (t @ delta) b) s
         | _ \<Rightarrow> s)
     | None \<Rightarrow> (let s = push_entry n (AssistantEntry delta True) s
         in s\<lparr>ap_streaming := Some (length (ap_transcript s) - 1)\<rparr>))"

fun disposition_debug :: "tool_failure_disposition \<Rightarrow> string" where
  "disposition_debug CancelledFailure = ''Cancelled''"
| "disposition_debug InvalidArguments = ''InvalidArguments''"
| "disposition_debug Recoverable = ''Recoverable''"
| "disposition_debug Retryable = ''Retryable''"
| "disposition_debug Fatal = ''Fatal''"

fun manual_notice :: "compaction_outcome \<Rightarrow> string" where
  "manual_notice (CompactionSucceeded n) = ''compaction complete: '' @ decimal_text n @ '' messages''"
| "manual_notice (CompactionFailed m) = ''compaction failed: '' @ m"
| "manual_notice CompactionCancelled = ''compaction cancelled''"

fun automatic_notice :: "automatic_outcome \<Rightarrow> string" where
  "automatic_notice (AutoSucceeded n) = ''automatic compaction complete''"
| "automatic_notice (AutoFailed m) = ''automatic compaction failed: '' @ m"
| "automatic_notice AutoCancelled = ''automatic compaction cancelled''"
| "automatic_notice LimitReached = ''automatic compaction limit reached''"
| "automatic_notice StillAboveThreshold = ''automatic compaction complete; retained context remains above threshold''"
| "automatic_notice automatic_outcome.Unavailable = ''automatic compaction unavailable''"

fun skip_notice :: "skip_reason \<Rightarrow> string" where
  "skip_notice SkippedForCompaction = ''provider request deferred for automatic compaction''"
| "skip_notice SkippedByCircuitBreaker = ''provider request skipped after terminal tool failure''"

fun turn_notice :: "stop_reason \<Rightarrow> app_state \<Rightarrow> app_state" where
  "turn_notice ErrorReason s = notice ''turn failed; prompt remains available to retry'' s"
| "turn_notice Aborted s = notice ''turn aborted'' s"
| "turn_notice CancelledReason s = notice ''turn cancelled'' s"
| "turn_notice r s = s"

section \<open>Events\<close>

fun start_message :: "u64 option \<Rightarrow> agent_message \<Rightarrow> app_state \<Rightarrow> app_state" where
  "start_message n (UserMessage i t) s = push_entry n (UserEntry t) s"
| "start_message n m s = s"

fun end_message :: "u64 option \<Rightarrow> agent_message \<Rightarrow> app_state \<Rightarrow> app_state option" where
  "end_message n (AssistantMessage i t calls r err) s = end_assistant n t err s"
| "end_message n m s = Some s"

definition end_tool :: "u64 option \<Rightarrow> tool_call_id \<Rightarrow> string \<Rightarrow> agent_tool_result \<Rightarrow> app_state \<Rightarrow> app_state option" where
  "end_tool n i name r s =
     map_option (\<lambda>s. s\<lparr>ap_tools := btree_remove i (ap_tools s)\<rparr>)
       (update_tool_line i n name (if is_error r then ToolFailed else ToolCompleted) None (Some (content r)) s)"

fun apply_kind :: "u64 option \<Rightarrow> event_kind \<Rightarrow> app_state \<Rightarrow> app_state option" where
  "apply_kind n AgentStart s = Some (s\<lparr>ap_status := ActiveStatus\<rparr>)"
| "apply_kind n (MessageStart m) s = Some (start_message n m s)"
| "apply_kind n (MessageUpdate m delta) s = Some (if is_assistant m then stream_delta n delta s else s)"
| "apply_kind n (MessageEnd m) s = end_message n m s"
| "apply_kind n (ToolExecutionStart i name arguments) s = Some (new_tool i n name arguments ToolStarted None None s)"
| "apply_kind n (ToolExecutionUpdate i name u) s = update_tool_line i n name ToolProgress (Some (update_content u)) None s"
| "apply_kind n (ToolExecutionEnd i name r) s = end_tool n i name r s"
| "apply_kind n (ModelTurnUsage a) s = Some (s\<lparr>ap_usage := usage_merge (ap_usage s) (acc_usage a)\<rparr>)"
| "apply_kind n (CompactionStart k) s = Some (s\<lparr>ap_status := ActiveStatus\<rparr>)"
| "apply_kind n (CompactionResult k u) s = Some (notice (''compaction retained '' @ decimal_text k @ '' messages'') s)"
| "apply_kind n (CompactionEnd out) s = Some (notice (manual_notice out) s)"
| "apply_kind n (AutomaticCompactionStart why a b c d) s = Some (s\<lparr>ap_status := ActiveStatus\<rparr>)"
| "apply_kind n (AutomaticCompactionEnd why b out) s = Some (notice (automatic_notice out) s)"
| "apply_kind n (ContextEstimate tokens a k c d) s = Some (s\<lparr>ap_context := Some \<lparr>cx_tokens = Some (of_nat tokens), cx_messages = k\<rparr>\<rparr>)"
| "apply_kind n (ProviderRequestSkipped why) s = Some (notice (skip_notice why) s)"
| "apply_kind n (ToolFailureObserved i d sig k terminal m) s =
     Some (notice (''tool failure '' @ disposition_debug d @ '' (consecutive '' @ decimal_text (unat k) @ '')''
       @ (if terminal then ''; ending run'' else [])) s)"
| "apply_kind n (TurnEnd t r) s = Some (turn_notice r s)"
| "apply_kind n (AgentEnd ms) s = Some (if ap_status s = ActiveStatus then s\<lparr>ap_status := IdleStatus\<rparr> else s)"
| "apply_kind n (TurnStart t) s = Some s"

definition apply_event :: "agent_event \<Rightarrow> app_state \<Rightarrow> app_state option" where
  "apply_event e s = apply_kind (Some (ev_sequence e)) (ev_kind e) s"

fun apply_events :: "agent_event list \<Rightarrow> app_state \<Rightarrow> app_state option" where
  "apply_events [] s = Some s"
| "apply_events (e # es) s = Option.bind (apply_event e s) (apply_events es)"

definition set_snapshot :: "agent_state \<Rightarrow> app_state \<Rightarrow> app_state" where
  "set_snapshot a s = s\<lparr>ap_model := a_model a, ap_snapshot := Some a\<rparr>"

definition clear_transcript :: "app_state \<Rightarrow> app_state" where
  "clear_transcript s = s\<lparr>ap_transcript := [], ap_sequences := [], ap_streaming := None, ap_tools := [],
     ap_usage := usage_default, ap_viewport := 0, ap_follow := True\<rparr>"

fun restored_entry :: "agent_message \<Rightarrow> nat \<Rightarrow> transcript_entry" where
  "restored_entry (UserMessage i t) k = UserEntry t"
| "restored_entry (AssistantMessage i t calls r err) k = (case err of Some e \<Rightarrow> ErrorEntry e | None \<Rightarrow> AssistantEntry t False)"
| "restored_entry (ToolResultMessage i name r) k = ToolEntry \<lparr>tp_call = tool_call_id r, tp_sequence = None, tp_index = k,
     tp_name = name, tp_arguments = [], tp_progress = None, tp_result = Some (content r),
     tp_state = (if is_error r then ToolFailed else ToolCompleted)\<rparr>"

definition restore_message :: "agent_message \<Rightarrow> app_state \<Rightarrow> app_state" where
  "restore_message m s = push_entry None (restored_entry m (length (ap_transcript s))) s"

definition restore_conversation :: "agent_message list \<Rightarrow> app_state \<Rightarrow> app_state" where
  "restore_conversation ms s = fold restore_message ms (clear_transcript s)"

section \<open>Queues, surfaces and completion\<close>

definition queued_prompts :: "queue_delivery \<Rightarrow> queue_mode \<Rightarrow> message_queue \<Rightarrow> queued_prompt list" where
  "queued_prompts delivery mode q = map (\<lambda>m. \<lparr>qp_sequence = sequence m, qp_content = queued_content m,
     qp_delivery = delivery, qp_mode = mode\<rparr>) (mq_snapshot q)"

definition set_queue_snapshot :: "agent_queues \<Rightarrow> queue_mode \<Rightarrow> queue_mode \<Rightarrow> app_state \<Rightarrow> app_state" where
  "set_queue_snapshot qs steering_mode follow_up_mode s = s\<lparr>ap_queued :=
     queued_prompts SteeringDelivery steering_mode (steering qs) @ queued_prompts FollowUpDelivery follow_up_mode (follow_up qs)\<rparr>"

definition queued_line :: "queued_prompt \<Rightarrow> string" where
  "queued_line p =
     (let (delivery, boundary) = (case qp_delivery p of
            SteeringDelivery \<Rightarrow> (''steering'', ''next active turn'')
          | FollowUpDelivery \<Rightarrow> (''follow-up'', ''next idle boundary''));
          mode = (case qp_mode p of OneAtATime \<Rightarrow> ''one at a time'' | AllMessages \<Rightarrow> ''all queued prompts'')
      in ''queued '' @ delivery @ '' #'' @ decimal_text (unat (qp_sequence p)) @ '' ('' @ boundary @ ''; '' @ mode @ ''): '' @ qp_content p)"

definition queued_lines :: "app_state \<Rightarrow> string list" where
  "queued_lines s = map queued_line (ap_queued s)"

definition set_surface :: "ui_surface \<Rightarrow> app_state \<Rightarrow> app_state" where
  "set_surface f s = s\<lparr>ap_surface := f, ap_lines := [], ap_offset := 0\<rparr>"

definition set_surface_lines :: "ui_surface \<Rightarrow> string list \<Rightarrow> app_state \<Rightarrow> app_state" where
  "set_surface_lines f ls s = s\<lparr>ap_surface := f, ap_lines := ls, ap_offset := 0, ap_picker := None, ap_slash := None\<rparr>"

definition close_surface :: "app_state \<Rightarrow> app_state" where
  "close_surface s = s\<lparr>ap_surface := NoSurface, ap_lines := [], ap_offset := 0, ap_picker := None, ap_slash := None\<rparr>"

definition surface_lines :: "app_state \<Rightarrow> string list option" where
  "surface_lines s = (if ap_lines s \<noteq> [] then Some (ap_lines s) else None)"

fun tool_state_name :: "tool_state \<Rightarrow> string" where
  "tool_state_name ToolStarted = ''Started''"
| "tool_state_name ToolProgress = ''Progress''"
| "tool_state_name ToolCompleted = ''Completed''"
| "tool_state_name ToolFailed = ''Failed''"

fun severity_name :: "notice_severity \<Rightarrow> string" where
  "severity_name InfoNotice = ''Info''"
| "severity_name WarningNotice = ''Warning''"

fun detail_lines :: "transcript_entry \<Rightarrow> string list" where
  "detail_lines (WelcomeEntry t) = ''Welcome'' # text_lines t"
| "detail_lines (UserEntry t) = ''User'' # text_lines t"
| "detail_lines (AssistantEntry t streaming) = (if streaming then ''Assistant (streaming)'' else ''Assistant'') # text_lines t"
| "detail_lines (ToolEntry p) = [''Tool: '' @ tp_name p @ '' ('' @ tool_state_name (tp_state p) @ '')'']
     @ (if tp_arguments p \<noteq> [] then ''Arguments'' # text_lines (tp_arguments p) else [])
     @ (case tp_progress p of Some t \<Rightarrow> ''Progress'' # text_lines t | None \<Rightarrow> [])
     @ (case tp_result p of Some t \<Rightarrow> ''Result'' # text_lines t | None \<Rightarrow> [])"
| "detail_lines (NoticeEntry t severity) = (''Notice ('' @ severity_name severity @ '')'') # text_lines t"
| "detail_lines (ErrorEntry t) = ''Error'' # text_lines t"

fun spaced :: "string list list \<Rightarrow> string list" where
  "spaced [] = []"
| "spaced [ls] = ls"
| "spaced (ls # lss) = ls @ [[]] @ spaced lss"

definition full_transcript_detail_lines :: "transcript_entry list \<Rightarrow> string list" where
  "full_transcript_detail_lines es =
     (if es = [] then [''Full detail'', [], ''No transcript yet.'']
      else [''Full detail'', []] @ spaced (map detail_lines es))"

definition toggle_tool_detail :: "app_state \<Rightarrow> app_state" where
  "toggle_tool_detail s = (if ap_surface s = ToolDetailSurface then close_surface s
     else set_surface_lines ToolDetailSurface (full_transcript_detail_lines (ap_transcript s)) s)"

text \<open>A scalar as UTF-8.\<close>

definition utf8_scalar :: "scalar \<Rightarrow> string" where
  "utf8_scalar c =
     (if c < 0x80 then [char_of c]
      else if c < 0x800 then [char_of (0xC0 + c div 64), char_of (0x80 + c mod 64)]
      else if c < 0x10000 then [char_of (0xE0 + c div 4096), char_of (0x80 + c div 64 mod 64), char_of (0x80 + c mod 64)]
      else [char_of (0xF0 + c div 262144), char_of (0x80 + c div 4096 mod 64), char_of (0x80 + c div 64 mod 64), char_of (0x80 + c mod 64)])"

definition composed :: "app_state \<Rightarrow> string" where
  "composed s = concat (map utf8_scalar (cp_text (ap_composer s)))"

definition update_slash_completion :: "string list \<Rightarrow> app_state \<Rightarrow> app_state" where
  "update_slash_completion found s =
     (if found = [] then s\<lparr>ap_slash := None\<rparr>
      else s\<lparr>ap_slash := Some \<lparr>sl_prefix = composed s,
        sl_selected = (case ap_slash s of Some menu \<Rightarrow> min (sl_selected menu) (length found - 1) | None \<Rightarrow> 0),
        sl_matches = found\<rparr>\<rparr>)"

definition move_slash_completion :: "int \<Rightarrow> app_state \<Rightarrow> app_state" where
  "move_slash_completion delta s = (case ap_slash s of
       None \<Rightarrow> s
     | Some menu \<Rightarrow>
         if sl_matches menu = [] then s
         else s\<lparr>ap_slash := Some (menu\<lparr>sl_selected := nat ((int (sl_selected menu) + delta) mod int (length (sl_matches menu)))\<rparr>)\<rparr>)"

definition selected_slash_completion :: "app_state \<Rightarrow> string option" where
  "selected_slash_completion s = Option.bind (ap_slash s) (\<lambda>menu.
     if sl_selected menu < length (sl_matches menu) then Some (sl_matches menu ! sl_selected menu) else None)"

record command_spec =
  cs_name :: string
  cs_help :: string
  cs_active :: bool

definition command :: "string \<Rightarrow> string \<Rightarrow> bool \<Rightarrow> command_spec" where
  "command name help active = \<lparr>cs_name = name, cs_help = help, cs_active = active\<rparr>"

definition commands :: "command_spec list" where
  "commands =
     [command ''/help'' ''show keybindings and commands'' True,
      command ''/model'' ''select a provider/model'' False,
      command ''/cost'' ''show provider-reported usage and cost'' True,
      command ''/compact'' ''compact the retained conversation'' False,
      command ''/reload-extensions'' ''reload idle Tea extensions'' False,
      command ''/session'' ''pick a saved linear session'' False,
      command ''/resume'' ''resume a saved linear session'' False,
      command ''/new'' ''start a fresh linear session'' False,
      command ''/clear'' ''clear the idle conversation'' False,
      command ''/steer'' ''queue a prompt for the active turn'' True,
      command ''/followup'' ''queue a prompt for the next idle boundary'' True,
      command ''/quit'' ''exit after cancellation and settlement'' True]"

definition find_command :: "string \<Rightarrow> command_spec option" where
  "find_command name = find (\<lambda>c. cs_name c = name) commands"

definition matching_commands :: "string \<Rightarrow> command_spec list" where
  "matching_commands start = filter (\<lambda>c. prefix start (cs_name c)) commands"

definition slash_start :: "nat \<Rightarrow> slash_completion \<Rightarrow> nat" where
  "slash_start visible menu = min (sl_selected menu - (visible - 1)) (length (sl_matches menu) - visible)"

definition slash_completion_rows :: "nat \<Rightarrow> app_state \<Rightarrow> (string \<times> string \<times> bool) list" where
  "slash_completion_rows max_rows s = (case ap_slash s of
       None \<Rightarrow> []
     | Some menu \<Rightarrow>
         let visible = min max_rows (length (sl_matches menu))
         in if visible = 0 then []
            else map (\<lambda>(k, name). (name, (case find_command name of Some c \<Rightarrow> cs_help c | None \<Rightarrow> []), k = sl_selected menu))
              (take visible (drop (slash_start visible menu) (enumerate 0 (sl_matches menu)))))"

definition slash_completion_count :: "app_state \<Rightarrow> nat" where
  "slash_completion_count s = (case ap_slash s of Some menu \<Rightarrow> length (sl_matches menu) | None \<Rightarrow> 0)"

section \<open>History and scrolling\<close>

definition record_history :: "string \<Rightarrow> app_state \<Rightarrow> app_state" where
  "record_history p s =
     (if trim p = [] then s
      else s\<lparr>ap_history := (if ap_history s = [] \<or> last (ap_history s) \<noteq> p then ap_history s @ [p] else ap_history s),
        ap_history_index := None, ap_history_draft := None\<rparr>)"

definition begin_history_navigation :: "app_state \<Rightarrow> app_state" where
  "begin_history_navigation s = (if ap_history_index s = None then s\<lparr>ap_history_draft := Some (composed s)\<rparr> else s)"

definition nth_option :: "'a list \<Rightarrow> nat \<Rightarrow> 'a option" where
  "nth_option xs i = (if i < length xs then Some (xs ! i) else None)"

definition history_previous :: "app_state \<Rightarrow> string option \<times> app_state" where
  "history_previous s =
     (if ap_history s = [] then (None, s)
      else
        let i = (case ap_history_index s of Some k \<Rightarrow> k | None \<Rightarrow> length (ap_history s)) - 1
        in (nth_option (ap_history s) i, s\<lparr>ap_history_index := Some i\<rparr>))"

definition history_next :: "app_state \<Rightarrow> string option \<times> app_state" where
  "history_next s = (case ap_history_index s of
       None \<Rightarrow> (None, s)
     | Some i \<Rightarrow>
         if length (ap_history s) \<le> i + 1
         then (Some (case ap_history_draft s of Some d \<Rightarrow> d | None \<Rightarrow> []), s\<lparr>ap_history_index := None, ap_history_draft := None\<rparr>)
         else (nth_option (ap_history s) (i + 1), s\<lparr>ap_history_index := Some (i + 1)\<rparr>))"

definition clear_history :: "app_state \<Rightarrow> app_state" where
  "clear_history s = s\<lparr>ap_history := [], ap_history_index := None, ap_history_draft := None\<rparr>"

definition max_usize :: nat where
  "max_usize = 2 ^ 64 - 1"

definition page_up :: "nat \<Rightarrow> app_state \<Rightarrow> app_state" where
  "page_up lines s = s\<lparr>ap_follow := False,
     ap_viewport := (if ap_follow s then ap_visible s - ap_rows s else ap_viewport s) - lines\<rparr>"

definition page_down :: "nat \<Rightarrow> app_state \<Rightarrow> app_state" where
  "page_down lines s =
     (let s = s\<lparr>ap_viewport := min (ap_viewport s + lines) max_usize\<rparr>
      in if ap_visible s - ap_rows s \<le> ap_viewport s then s\<lparr>ap_follow := True\<rparr> else s)"

definition page_surface_up :: "nat \<Rightarrow> app_state \<Rightarrow> app_state" where
  "page_surface_up lines s = s\<lparr>ap_offset := ap_offset s - lines\<rparr>"

definition page_surface_down :: "nat \<Rightarrow> app_state \<Rightarrow> app_state" where
  "page_surface_down lines s = s\<lparr>ap_offset := min (min (ap_offset s + lines) max_usize) (length (ap_lines s) - 1)\<rparr>"

definition follow_end :: "app_state \<Rightarrow> app_state" where
  "follow_end s = s\<lparr>ap_follow := True, ap_viewport := length (ap_transcript s)\<rparr>"

definition set_viewport_metrics :: "nat \<Rightarrow> nat \<Rightarrow> app_state \<Rightarrow> app_state" where
  "set_viewport_metrics visible rows s = s\<lparr>ap_visible := visible, ap_rows := rows\<rparr>"

definition welcome_line :: "string \<Rightarrow> app_state \<Rightarrow> app_state" where
  "welcome_line version s = push_entry None
     (WelcomeEntry (utf8_scalar 0x1D495 @ ''ea v'' @ version @ '' '' @ utf8_scalar 0xB7 @ '' Run /help for commands'')) s"

text \<open>Usage as the application writes it: what was not reported is left out.\<close>

definition usage_part :: "string \<Rightarrow> u64 option \<Rightarrow> string list" where
  "usage_part label v = (case v of Some n \<Rightarrow> [label @ '' '' @ decimal_text (unat n)] | None \<Rightarrow> [])"

fun comma_joined :: "string list \<Rightarrow> string" where
  "comma_joined [] = []"
| "comma_joined [s] = s"
| "comma_joined (s # ss) = s @ '', '' @ comma_joined ss"

definition format_usage :: "usage \<Rightarrow> string" where
  "format_usage u =
     (let parts = usage_part ''in'' (input_tokens u) @ usage_part ''out'' (output_tokens u)
        @ usage_part ''reasoning'' (reasoning_tokens u) @ usage_part ''cache-read'' (cache_read_tokens u)
        @ usage_part ''cache-write'' (cache_write_tokens u)
        @ (case cost u of Some c \<Rightarrow> [''cost '' @ c] | None \<Rightarrow> [])
      in if parts = [] then ''provider reported no accounting'' else comma_joined parts)"

definition known_or :: "u64 option \<Rightarrow> string" where
  "known_or v = (case v of Some n \<Rightarrow> decimal_text (unat n) | None \<Rightarrow> ''unknown'')"

definition format_footer_usage :: "usage \<Rightarrow> string" where
  "format_footer_usage u = ''in '' @ known_or (input_tokens u) @ '' out '' @ known_or (output_tokens u)
     @ '' reasoning '' @ known_or (reasoning_tokens u) @ '' cache-read '' @ known_or (cache_read_tokens u)
     @ '' cache-write '' @ known_or (cache_write_tokens u) @ '' cost '' @ (case cost u of Some c \<Rightarrow> c | None \<Rightarrow> ''unknown'')"

definition format_context_percent :: "u64 option \<Rightarrow> u64 option \<Rightarrow> string" where
  "format_context_percent tokens capacity = (case (tokens, keep_if (\<lambda>c. c \<noteq> 0) capacity) of
       (Some t, Some c) \<Rightarrow> decimal_text (unat t * 100 div unat c)
     | _ \<Rightarrow> ''unknown'')"

section \<open>The invariant\<close>

text \<open>
  Every row has its sequence; a tool's row knows its place; the streamed row is an answer that is being written; every call that is
  running has its own row; the history, the menu and the surface are looked at inside their bounds.
\<close>

definition rows_ok :: "app_state \<Rightarrow> bool" where
  "rows_ok s \<longleftrightarrow> length (ap_sequences s) = length (ap_transcript s) \<and>
     (\<forall>k p. k < length (ap_transcript s) \<longrightarrow> ap_transcript s ! k = ToolEntry p \<longrightarrow> tp_index p = k) \<and>
     (\<forall>k. ap_streaming s = Some k \<longrightarrow> k < length (ap_transcript s) \<and> (\<exists>t. ap_transcript s ! k = AssistantEntry t True)) \<and>
     btree_ok (ap_tools s) \<and>
     (\<forall>i k. btree_get (ap_tools s) i = Some k \<longrightarrow> k < length (ap_transcript s) \<and>
        (\<exists>p. ap_transcript s ! k = ToolEntry p \<and> tp_call p = i))"

definition views_ok :: "app_state \<Rightarrow> bool" where
  "views_ok s \<longleftrightarrow> (\<forall>k. ap_history_index s = Some k \<longrightarrow> k < length (ap_history s)) \<and>
     (\<forall>menu. ap_slash s = Some menu \<longrightarrow> sl_selected menu < length (sl_matches menu)) \<and>
     ap_offset s \<le> length (ap_lines s) - 1"

definition app_ok :: "app_state \<Rightarrow> bool" where
  "app_ok s \<longleftrightarrow> rows_ok s \<and> views_ok s"

lemma app_ok_new: "app_ok app_new"
  by (simp add: app_ok_def rows_ok_def views_ok_def app_new_def btree_ok_def)

lemma btree_ok_remove: "btree_ok es \<Longrightarrow> btree_ok (btree_remove k es)"
  by (simp add: btree_ok_def btree_remove_def sorted_wrt_map sorted_wrt_filter)

lemma btree_get_remove: "btree_get (btree_remove k es) j = (if j = k then None else btree_get es j)"
  by (induction es) (auto simp: btree_remove_def)

lemma rows_okD:
  assumes "rows_ok s"
  shows "length (ap_sequences s) = length (ap_transcript s)"
    and "k < length (ap_transcript s) \<Longrightarrow> ap_transcript s ! k = ToolEntry p \<Longrightarrow> tp_index p = k"
    and "ap_streaming s = Some k \<Longrightarrow> k < length (ap_transcript s) \<and> (\<exists>t. ap_transcript s ! k = AssistantEntry t True)"
    and "btree_ok (ap_tools s)"
    and "btree_get (ap_tools s) i = Some k \<Longrightarrow> k < length (ap_transcript s) \<and> (\<exists>p. ap_transcript s ! k = ToolEntry p \<and> tp_call p = i)"
  using assms unfolding rows_ok_def by blast+

lemma rows_okI:
  assumes "length (ap_sequences s) = length (ap_transcript s)"
    and "\<And>k p. k < length (ap_transcript s) \<Longrightarrow> ap_transcript s ! k = ToolEntry p \<Longrightarrow> tp_index p = k"
    and "\<And>k. ap_streaming s = Some k \<Longrightarrow> k < length (ap_transcript s) \<and> (\<exists>t. ap_transcript s ! k = AssistantEntry t True)"
    and "btree_ok (ap_tools s)"
    and "\<And>i k. btree_get (ap_tools s) i = Some k \<Longrightarrow> k < length (ap_transcript s) \<and> (\<exists>p. ap_transcript s ! k = ToolEntry p \<and> tp_call p = i)"
  shows "rows_ok s"
  using assms unfolding rows_ok_def by blast

lemma rows_push:
  assumes ok: "rows_ok s" and e: "\<And>p. e = ToolEntry p \<Longrightarrow> tp_index p = length (ap_transcript s)"
  shows "rows_ok (push_entry n e s)"
proof (rule rows_okI, goal_cases)
  case 1
  then show ?case using rows_okD(1) [OF ok] by (simp add: push_entry_def)
next
  case (2 j r)
  then show ?case using rows_okD(2) [OF ok, of j r] e [of r]
    by (cases "j < length (ap_transcript s)") (simp_all add: push_entry_def nth_append)
next
  case (3 j)
  then show ?case using rows_okD(3) [OF ok, of j] by (simp add: push_entry_def nth_append)
next
  case 4
  then show ?case using rows_okD(4) [OF ok] by (simp add: push_entry_def)
next
  case (5 i j)
  then show ?case using rows_okD(5) [OF ok, of i j] by (simp add: push_entry_def nth_append)
qed

lemma rows_new_tool: "rows_ok s \<Longrightarrow> rows_ok (new_tool i n name arguments st progress result s)"
proof -
  assume ok: "rows_ok s"
  define row where "row = \<lparr>tp_call = i, tp_sequence = n, tp_index = length (ap_transcript s), tp_name = name, tp_arguments = arguments,
            tp_progress = progress, tp_result = result, tp_state = st\<rparr>"
  define t where "t = push_entry n (ToolEntry row) s"
  have t: "rows_ok t" unfolding t_def by (rule rows_push [OF ok]) (simp add: row_def)
  have last: "length (ap_transcript s) < length (ap_transcript t)" "ap_transcript t ! length (ap_transcript s) = ToolEntry row"
    by (simp_all add: t_def push_entry_def)
  have "rows_ok (t\<lparr>ap_tools := btree_insert i (length (ap_transcript s)) (ap_tools t)\<rparr>)"
  proof (rule rows_okI, goal_cases)
    case 1
    then show ?case using rows_okD(1) [OF t] by simp
  next
    case (2 j r)
    then show ?case using rows_okD(2) [OF t, of j r] by simp
  next
    case (3 j)
    then show ?case using rows_okD(3) [OF t, of j] by simp
  next
    case 4
    then show ?case using rows_okD(4) [OF t] by (simp add: btree_ok_insert)
  next
    case (5 c j)
    then show ?case using rows_okD(5) [OF t, of c j] rows_okD(4) [OF t] last
      by (cases "c = i") (auto simp: btree_get_insert row_def)
  qed
  moreover have "ap_tools t = ap_tools s" by (simp add: t_def push_entry_def)
  ultimately show ?thesis by (simp add: new_tool_def Let_def t_def row_def)
qed

text \<open>Replacing a tool's row by one of the same call and place, or an answer by another row that is no tool's.\<close>

lemma rows_set_tool:
  assumes ok: "rows_ok s" and k: "k < length (ap_transcript s)" and p: "ap_transcript s ! k = ToolEntry p"
    and q: "tp_call q = tp_call p" "tp_index q = tp_index p"
  shows "rows_ok (s\<lparr>ap_transcript := (ap_transcript s)[k := ToolEntry q], ap_sequences := (ap_sequences s)[k := n]\<rparr>)"
proof (rule rows_okI, goal_cases)
  case 1
  then show ?case using rows_okD(1) [OF ok] by simp
next
  case (2 j r)
  then show ?case using rows_okD(2) [OF ok k p] rows_okD(2) [OF ok, of j r] q k by (cases "j = k") simp_all
next
  case (3 j)
  then have "j < length (ap_transcript s)" "\<exists>t. ap_transcript s ! j = AssistantEntry t True" using rows_okD(3) [OF ok, of j] by simp_all
  moreover from this have "j \<noteq> k" using p by auto
  ultimately show ?case by simp
next
  case 4
  then show ?case using rows_okD(4) [OF ok] by simp
next
  case (5 i j)
  then have "j < length (ap_transcript s)" "\<exists>r. ap_transcript s ! j = ToolEntry r \<and> tp_call r = i" using rows_okD(5) [OF ok, of i j] by simp_all
  then show ?case using p q k by (cases "j = k") auto
qed

lemma rows_set_answer:
  assumes ok: "rows_ok s" and k: "k < length (ap_transcript s)" and t: "ap_transcript s ! k = AssistantEntry t b"
    and e: "\<And>p. e \<noteq> ToolEntry p" and m: "m = None \<or> m = ap_streaming s \<and> (\<exists>u. e = AssistantEntry u True)"
  shows "rows_ok (s\<lparr>ap_transcript := (ap_transcript s)[k := e], ap_sequences := (ap_sequences s)[k := n], ap_streaming := m\<rparr>)"
proof (rule rows_okI, goal_cases)
  case 1
  then show ?case using rows_okD(1) [OF ok] by simp
next
  case (2 j r)
  then show ?case using rows_okD(2) [OF ok, of j r] e [of r] k by (cases "j = k") simp_all
next
  case (3 j)
  then show ?case using rows_okD(3) [OF ok, of j] m k by (cases "j = k") auto
next
  case 4
  then show ?case using rows_okD(4) [OF ok] by simp
next
  case (5 i j)
  then have "j < length (ap_transcript s)" "\<exists>r. ap_transcript s ! j = ToolEntry r \<and> tp_call r = i" using rows_okD(5) [OF ok, of i j] by simp_all
  moreover from this have "j \<noteq> k" using t by auto
  ultimately show ?case by simp
qed

lemma set_sequence_some:
  assumes "rows_ok s" and "entry_of s k = Some e"
  shows "set_sequence k n (set_entry k e' s) = Some (s\<lparr>ap_transcript := (ap_transcript s)[k := e'], ap_sequences := (ap_sequences s)[k := n]\<rparr>)"
  using assms by (auto simp: rows_ok_def entry_of_def set_sequence_def set_entry_def split: if_splits)

lemma rows_update:
  assumes "rows_ok s"
  shows "\<exists>s'. update_tool_line i n name st progress result s = Some s' \<and> rows_ok s'"
proof (cases "Option.bind (btree_get (ap_tools s) i) (\<lambda>k. map_option (Pair k) (entry_of s k))")
  case None
  then show ?thesis using rows_new_tool [OF assms] by (simp add: update_tool_line_def)
next
  case (Some ke)
  obtain k e where ke: "ke = (k, e)" by fastforce
  from Some ke have k: "btree_get (ap_tools s) i = Some k" "entry_of s k = Some e" by (auto split: bind_splits)
  obtain p where p: "k < length (ap_transcript s)" "ap_transcript s ! k = ToolEntry p" "tp_call p = i"
    using assms k(1) unfolding rows_ok_def by blast
  then have e: "e = ToolEntry p" using k(2) by (simp add: entry_of_def)
  have "update_tool_line i n name st progress result s = Some (s\<lparr>
      ap_transcript := (ap_transcript s)[k := ToolEntry (updated_row n name st progress result p)], ap_sequences := (ap_sequences s)[k := n]\<rparr>)"
    using Some set_sequence_some [OF assms k(2)] by (simp add: update_tool_line_def ke e)
  moreover have "tp_call (updated_row n name st progress result p) = tp_call p" "tp_index (updated_row n name st progress result p) = tp_index p"
    by (simp_all add: updated_row_def)
  from rows_set_tool [OF assms p(1,2) this] have "rows_ok (s\<lparr>
      ap_transcript := (ap_transcript s)[k := ToolEntry (updated_row n name st progress result p)], ap_sequences := (ap_sequences s)[k := n]\<rparr>)" .
  ultimately show ?thesis by blast
qed

lemma rows_end_tool: "rows_ok s \<Longrightarrow> \<exists>s'. end_tool n i name r s = Some s' \<and> rows_ok s'"
proof -
  assume "rows_ok s"
  from rows_update [OF this] obtain s' where s': "update_tool_line i n name (if is_error r then ToolFailed else ToolCompleted) None (Some (content r)) s = Some s'"
      "rows_ok s'" by blast
  have "rows_ok (s'\<lparr>ap_tools := btree_remove i (ap_tools s')\<rparr>)"
    using s'(2) by (auto simp: rows_ok_def btree_ok_remove btree_get_remove)
  then show ?thesis using s'(1) by (simp add: end_tool_def)
qed

lemma rows_stream: "rows_ok s \<Longrightarrow> rows_ok (stream_delta n delta s)"
proof (cases "ap_streaming s")
  case None
  assume ok: "rows_ok s"
  have "rows_ok (push_entry n (AssistantEntry delta True) s)" by (rule rows_push [OF ok]) simp
  then show ?thesis using None by (auto simp: stream_delta_def rows_ok_def push_entry_def Let_def)
next
  case (Some k)
  assume ok: "rows_ok s"
  obtain t where t: "k < length (ap_transcript s)" "ap_transcript s ! k = AssistantEntry t True" using rows_okD(3) [OF ok Some] by blast
  have "rows_ok (s\<lparr>ap_transcript := (ap_transcript s)[k := AssistantEntry (t @ delta) True],
      ap_sequences := (ap_sequences s)[k := ap_sequences s ! k], ap_streaming := ap_streaming s\<rparr>)"
    by (rule rows_set_answer [OF ok t]) simp_all
  moreover have "s\<lparr>ap_transcript := x, ap_streaming := Some k\<rparr> = s\<lparr>ap_transcript := x\<rparr>" for x
    using Some by (cases s) simp
  ultimately show ?thesis using t by (simp add: stream_delta_def Some entry_of_def set_entry_def)
qed

lemma rows_end_assistant: "rows_ok s \<Longrightarrow> \<exists>s'. end_assistant n text err s = Some s' \<and> rows_ok s'"
proof (cases "ap_streaming s")
  case None
  assume ok: "rows_ok s"
  have "rows_ok (push_entry n e s)" if "\<And>p. e \<noteq> ToolEntry p" for e by (rule rows_push [OF ok]) (simp add: that)
  then have "rows_ok (push_entry n (ErrorEntry m) s)" "rows_ok (push_entry n (AssistantEntry text False) s)" for m by simp_all
  then show ?thesis using None by (cases err) (auto simp: end_assistant_def rows_ok_def push_entry_def)
next
  case (Some k)
  assume ok: "rows_ok s"
  obtain t where t: "k < length (ap_transcript s)" "ap_transcript s ! k = AssistantEntry t True" using ok Some unfolding rows_ok_def by blast
  have entry: "entry_of s k = Some (AssistantEntry t True)" using t by (simp add: entry_of_def)
  have "rows_ok (s\<lparr>ap_transcript := (ap_transcript s)[k := e], ap_sequences := (ap_sequences s)[k := n], ap_streaming := None\<rparr>)"
    if "\<And>p. e \<noteq> ToolEntry p" for e
    by (rule rows_set_answer [OF ok t that]) simp
  then show ?thesis using Some set_sequence_some [OF ok entry] entry
    by (cases err) (simp_all add: end_assistant_def)
qed

lemma rows_same:
  "ap_transcript t = ap_transcript s \<Longrightarrow> ap_sequences t = ap_sequences s \<Longrightarrow> ap_streaming t = ap_streaming s \<Longrightarrow> ap_tools t = ap_tools s \<Longrightarrow>
     rows_ok t = rows_ok s"
  by (simp add: rows_ok_def)

lemma rows_fields: "rows_ok (s\<lparr>ap_status := x\<rparr>) = rows_ok s" "rows_ok (s\<lparr>ap_usage := u\<rparr>) = rows_ok s"
  "rows_ok (s\<lparr>ap_context := c\<rparr>) = rows_ok s"
  by (simp_all add: rows_ok_def)

lemma rows_turn: "rows_ok (turn_notice r s) = rows_ok s"
  by (cases r) (simp_all add: notice_def rows_fields)

lemma rows_apply: "rows_ok s \<Longrightarrow> \<exists>s'. apply_kind n e s = Some s' \<and> rows_ok s'"
proof (cases e)
  case (MessageStart m)
  assume ok: "rows_ok s"
  have "rows_ok (push_entry n (UserEntry t) s)" for t by (rule rows_push [OF ok]) simp
  then show ?thesis using ok by (cases m) (simp_all add: MessageStart)
next
  case (MessageEnd m)
  assume ok: "rows_ok s"
  then show ?thesis using rows_end_assistant [OF ok] by (cases m) (simp_all add: MessageEnd)
qed (simp_all add: rows_stream rows_new_tool rows_update rows_end_tool rows_turn notice_def rows_fields)

text \<open>What an event does not touch.\<close>

lemma views_same:
  "ap_history t = ap_history s \<Longrightarrow> ap_history_index t = ap_history_index s \<Longrightarrow> ap_slash t = ap_slash s \<Longrightarrow> ap_lines t = ap_lines s \<Longrightarrow>
     ap_offset t = ap_offset s \<Longrightarrow> views_ok t = views_ok s"
  by (simp add: views_ok_def)

definition same_views :: "app_state \<Rightarrow> app_state \<Rightarrow> bool" where
  "same_views t s \<longleftrightarrow> ap_history t = ap_history s \<and> ap_history_index t = ap_history_index s \<and> ap_slash t = ap_slash s \<and>
     ap_lines t = ap_lines s \<and> ap_offset t = ap_offset s"

lemma same_views_ok: "same_views t s \<Longrightarrow> views_ok t = views_ok s"
  by (simp add: same_views_def views_ok_def)

lemma views_push: "same_views (push_entry n e s) s"
  by (simp add: same_views_def push_entry_def)

lemma views_tool: "same_views (new_tool i n name arguments st progress result s) s"
  by (simp add: same_views_def new_tool_def push_entry_def Let_def)

lemma views_update: "update_tool_line i n name st progress result s = Some s' \<Longrightarrow> same_views s' s"
  by (auto simp: update_tool_line_def set_sequence_def set_entry_def views_tool same_views_def
      split: option.splits transcript_entry.splits if_splits prod.splits)
    (auto simp: new_tool_def push_entry_def Let_def)

lemma views_apply: "apply_kind n e s = Some s' \<Longrightarrow> same_views s' s"
proof (cases e)
  case (MessageStart m)
  then show "apply_kind n e s = Some s' \<Longrightarrow> ?thesis" by (cases m) (auto simp: views_push, simp_all add: same_views_def)
next
  case (MessageUpdate m delta)
  then show "apply_kind n e s = Some s' \<Longrightarrow> ?thesis"
    by (auto simp: stream_delta_def set_entry_def push_entry_def Let_def same_views_def
        split: if_splits option.splits transcript_entry.splits)
next
  case (MessageEnd m)
  then show "apply_kind n e s = Some s' \<Longrightarrow> ?thesis"
    by (cases m) (auto simp: end_assistant_def set_sequence_def set_entry_def push_entry_def same_views_def
        split: if_splits option.splits transcript_entry.splits)
next
  case (ToolExecutionStart i name arguments)
  then show "apply_kind n e s = Some s' \<Longrightarrow> ?thesis" by (auto simp: views_tool)
next
  case (ToolExecutionUpdate i name u)
  then show "apply_kind n e s = Some s' \<Longrightarrow> ?thesis" by (auto intro: views_update)
next
  case (ToolExecutionEnd i name r)
  then show "apply_kind n e s = Some s' \<Longrightarrow> ?thesis"
    using views_update by (fastforce simp: end_tool_def same_views_def)
next
  case (TurnEnd t r)
  then show "apply_kind n e s = Some s' \<Longrightarrow> ?thesis" by (cases r) (auto simp: notice_def same_views_def)
qed (auto simp: notice_def same_views_def split: if_splits)

section \<open>Everything the application does to its state\<close>

datatype app_action =
  TakeEvent agent_event
| Restore "agent_message list"
| ClearTranscript
| Welcome string
| Snapshot agent_state
| ShowQueues agent_queues queue_mode queue_mode
| Compose composer
| ShowSurface ui_surface
| ShowLines ui_surface "string list"
| CloseSurface
| ToggleDetail
| Complete "string list"
| MoveCompletion int
| RecordPrompt string
| LeaveDraft
| PreviousPrompt
| NextPrompt
| ClearHistory
| PageUp nat
| PageDown nat
| SurfaceUp nat
| SurfaceDown nat
| FollowEnd
| Metrics nat nat

fun act :: "app_action \<Rightarrow> app_state \<Rightarrow> app_state option" where
  "act (TakeEvent e) s = apply_event e s"
| "act (Restore ms) s = Some (restore_conversation ms s)"
| "act ClearTranscript s = Some (clear_transcript s)"
| "act (Welcome version) s = Some (welcome_line version s)"
| "act (Snapshot a) s = Some (set_snapshot a s)"
| "act (ShowQueues qs a b) s = Some (set_queue_snapshot qs a b s)"
| "act (Compose c) s = Some (s\<lparr>ap_composer := c\<rparr>)"
| "act (ShowSurface f) s = Some (set_surface f s)"
| "act (ShowLines f ls) s = Some (set_surface_lines f ls s)"
| "act CloseSurface s = Some (close_surface s)"
| "act ToggleDetail s = Some (toggle_tool_detail s)"
| "act (Complete found) s = Some (update_slash_completion found s)"
| "act (MoveCompletion delta) s = Some (move_slash_completion delta s)"
| "act (RecordPrompt p) s = Some (record_history p s)"
| "act LeaveDraft s = Some (begin_history_navigation s)"
| "act PreviousPrompt s = Some (snd (history_previous s))"
| "act NextPrompt s = Some (snd (history_next s))"
| "act ClearHistory s = Some (clear_history s)"
| "act (PageUp k) s = Some (page_up k s)"
| "act (PageDown k) s = Some (page_down k s)"
| "act (SurfaceUp k) s = Some (page_surface_up k s)"
| "act (SurfaceDown k) s = Some (page_surface_down k s)"
| "act FollowEnd s = Some (follow_end s)"
| "act (Metrics a b) s = Some (set_viewport_metrics a b s)"

fun act_all :: "app_action list \<Rightarrow> app_state \<Rightarrow> app_state option" where
  "act_all [] s = Some s"
| "act_all (a # as) s = Option.bind (act a s) (act_all as)"

lemma app_ok_event: "app_ok s \<Longrightarrow> \<exists>s'. apply_event e s = Some s' \<and> app_ok s'"
  using rows_apply [of s "Some (ev_sequence e)" "ev_kind e"] views_apply [of "Some (ev_sequence e)" "ev_kind e" s] same_views_ok
  unfolding app_ok_def apply_event_def by blast

lemma rows_restore: "rows_ok s \<Longrightarrow> rows_ok (restore_message m s)"
proof -
  have index: "tp_index p = k" if "restored_entry m k = ToolEntry p" for p k using that by (cases m) (auto split: option.splits)
  show "rows_ok s \<Longrightarrow> rows_ok (restore_message m s)" unfolding restore_message_def by (rule rows_push) (auto dest: index)
qed

lemma app_ok_restored: "app_ok s \<Longrightarrow> app_ok (fold restore_message ms s)"
proof (induction ms arbitrary: s)
  case (Cons m ms)
  have "same_views (restore_message m s) s" unfolding restore_message_def by (rule views_push)
  then have "app_ok (restore_message m s)" using Cons.prems rows_restore same_views_ok by (simp add: app_ok_def)
  then show ?case using Cons.IH by simp
qed simp

lemma app_ok_clear: "app_ok s \<Longrightarrow> app_ok (clear_transcript s)"
  by (simp add: app_ok_def rows_ok_def views_ok_def clear_transcript_def btree_ok_def)

text \<open>An action that leaves the rows as they are is right when the views are.\<close>

lemma app_ok_views:
  "app_ok s \<Longrightarrow> ap_transcript t = ap_transcript s \<Longrightarrow> ap_sequences t = ap_sequences s \<Longrightarrow> ap_streaming t = ap_streaming s \<Longrightarrow>
     ap_tools t = ap_tools s \<Longrightarrow> views_ok t \<Longrightarrow> app_ok t"
  using rows_same [of t s] by (simp add: app_ok_def)

lemma views_complete: "views_ok s \<Longrightarrow> views_ok (update_slash_completion found s)"
  by (cases "ap_slash s"; cases found) (auto simp: views_ok_def update_slash_completion_def)

lemma views_move: "views_ok s \<Longrightarrow> views_ok (move_slash_completion delta s)"
  by (auto simp: views_ok_def move_slash_completion_def nat_less_iff split: option.splits)

lemma app_ok_act: "app_ok s \<Longrightarrow> \<exists>s'. act a s = Some s' \<and> app_ok s'"
proof (cases a)
  case (TakeEvent e)
  then show "app_ok s \<Longrightarrow> ?thesis" using app_ok_event by simp
next
  case (Restore ms)
  then show "app_ok s \<Longrightarrow> ?thesis" using app_ok_restored app_ok_clear by (simp add: restore_conversation_def)
next
  case ClearTranscript
  then show "app_ok s \<Longrightarrow> ?thesis" using app_ok_clear by simp
next
  case (Welcome version)
  have "rows_ok s \<Longrightarrow> rows_ok (welcome_line version s)" unfolding welcome_line_def by (rule rows_push) simp_all
  moreover have "same_views (welcome_line version s) s" unfolding welcome_line_def by (rule views_push)
  ultimately show "app_ok s \<Longrightarrow> ?thesis" using same_views_ok by (simp add: Welcome app_ok_def)
next
  case (Complete found)
  assume ok: "app_ok s"
  have "app_ok (update_slash_completion found s)"
    by (rule app_ok_views [OF ok]) (use ok views_complete in \<open>simp_all add: update_slash_completion_def app_ok_def\<close>)
  then show ?thesis by (simp add: Complete)
next
  case (MoveCompletion delta)
  assume ok: "app_ok s"
  have "app_ok (move_slash_completion delta s)"
    by (rule app_ok_views [OF ok]) (use ok views_move in \<open>simp_all add: move_slash_completion_def app_ok_def split: option.split\<close>)
  then show ?thesis by (simp add: MoveCompletion)
next
  case ToggleDetail
  assume ok: "app_ok s"
  have "app_ok (toggle_tool_detail s)"
    by (rule app_ok_views [OF ok]) (use ok in \<open>simp_all add: toggle_tool_detail_def close_surface_def set_surface_lines_def views_ok_def app_ok_def\<close>)
  then show ?thesis by (simp add: ToggleDetail)
next
  case (RecordPrompt p)
  assume ok: "app_ok s"
  have "app_ok (record_history p s)"
    by (rule app_ok_views [OF ok]) (use ok in \<open>simp_all add: record_history_def views_ok_def app_ok_def\<close>)
  then show ?thesis by (simp add: RecordPrompt)
next
  case PreviousPrompt
  assume ok: "app_ok s"
  have "app_ok (snd (history_previous s))"
    by (rule app_ok_views [OF ok])
      (use ok in \<open>auto simp: history_previous_def views_ok_def app_ok_def Let_def split: option.split\<close>)
  then show ?thesis by (simp add: PreviousPrompt)
next
  case NextPrompt
  assume ok: "app_ok s"
  have "app_ok (snd (history_next s))"
    by (rule app_ok_views [OF ok])
      (use ok in \<open>auto simp: history_next_def views_ok_def app_ok_def split: option.split\<close>)
  then show ?thesis by (simp add: NextPrompt)
next
  case (SurfaceUp k)
  assume ok: "app_ok s"
  have "app_ok (page_surface_up k s)"
    by (rule app_ok_views [OF ok]) (use ok in \<open>auto simp: page_surface_up_def views_ok_def app_ok_def\<close>)
  then show ?thesis by (simp add: SurfaceUp)
next
  case (PageDown k)
  assume ok: "app_ok s"
  have "app_ok (page_down k s)"
    by (rule app_ok_views [OF ok]) (use ok in \<open>simp_all add: page_down_def Let_def views_ok_def app_ok_def\<close>)
  then show ?thesis by (simp add: PageDown)
qed (auto simp: app_ok_def rows_ok_def views_ok_def set_snapshot_def set_queue_snapshot_def set_surface_def set_surface_lines_def
    close_surface_def begin_history_navigation_def clear_history_def page_up_def page_surface_down_def follow_end_def set_viewport_metrics_def)

section \<open>Properties\<close>

text \<open>C22: whatever events arrive and whatever the user does, in any order, the application's state never leaves its invariant and no
  index into the transcript is out of range: each row has its event, a running call has its own row, the streamed row is the answer
  being written, and the history, the menu and the open surface are looked at inside their bounds.\<close>

theorem app_state_invariant:
  "\<exists>s. act_all actions app_new = Some s \<and> app_ok s"
proof -
  have "app_ok s \<Longrightarrow> \<exists>s'. act_all actions s = Some s' \<and> app_ok s'" for s
  proof (induction actions arbitrary: s)
    case (Cons a actions)
    from app_ok_act [OF Cons.prems, of a] obtain t where "act a s = Some t" "app_ok t" by blast
    then show ?case using Cons.IH [of t] by simp
  qed simp
  then show ?thesis using app_ok_new by blast
qed

section \<open>What is shown live and what is shown after loading\<close>

text \<open>A row without what only the events tell: its event, the arguments and the last progress of a call.\<close>

fun lasting :: "transcript_entry \<Rightarrow> transcript_entry" where
  "lasting (ToolEntry p) = ToolEntry (p\<lparr>tp_sequence := None, tp_arguments := [], tp_progress := None\<rparr>)"
| "lasting e = e"

fun restored_rows :: "nat \<Rightarrow> agent_message list \<Rightarrow> transcript_entry list" where
  "restored_rows k [] = []"
| "restored_rows k (m # ms) = restored_entry m k # restored_rows (Suc k) ms"

lemma restored_rows_append: "restored_rows k (ms @ ns) = restored_rows k ms @ restored_rows (k + length ms) ns"
  by (induction ms arbitrary: k) simp_all

lemma restored_transcript: "ap_transcript (restore_conversation ms s) = restored_rows 0 ms"
proof -
  have "ap_transcript (fold restore_message ms t) = ap_transcript t @ restored_rows (length (ap_transcript t)) ms" for t
    by (induction ms arbitrary: t) (simp_all add: restore_message_def push_entry_def)
  then show ?thesis by (simp add: restore_conversation_def clear_transcript_def)
qed

text \<open>Events that add no row and change none.\<close>

fun quiet_event :: "event_kind \<Rightarrow> bool" where
  "quiet_event (MessageStart m) \<longleftrightarrow> \<not> is_user m"
| "quiet_event (MessageUpdate m d) \<longleftrightarrow> \<not> is_assistant m"
| "quiet_event (MessageEnd m) \<longleftrightarrow> \<not> is_assistant m"
| "quiet_event (ToolExecutionStart i n a) \<longleftrightarrow> False"
| "quiet_event (ToolExecutionUpdate i n u) \<longleftrightarrow> False"
| "quiet_event (ToolExecutionEnd i n r) \<longleftrightarrow> False"
| "quiet_event _ \<longleftrightarrow> True"

type_synonym batch_call = "message_id \<times> string \<times> agent_tool_result"

definition call_id :: "batch_call \<Rightarrow> tool_call_id" where
  "call_id c = tool_call_id (snd (snd c))"

definition call_message :: "batch_call \<Rightarrow> agent_message" where
  "call_message c = (case c of (i, name, r) \<Rightarrow> ToolResultMessage i name r)"

text \<open>
  The events of a batch of calls: they start in order, each is updated while it runs and ends once with its result, in any
  order and any interleaving.
\<close>

fun batch_events :: "batch_call list \<Rightarrow> batch_call list \<Rightarrow> event_kind list \<Rightarrow> bool" where
  "batch_events todo running [] \<longleftrightarrow> todo = [] \<and> running = []"
| "batch_events todo running (ToolExecutionStart i n a # es) \<longleftrightarrow>
     (case todo of [] \<Rightarrow> False
      | c # todo \<Rightarrow> i = call_id c \<and> n = fst (snd c) \<and> batch_events todo (c # running) es)"
| "batch_events todo running (ToolExecutionUpdate i n u # es) \<longleftrightarrow>
     (\<exists>c \<in> set running. call_id c = i \<and> fst (snd c) = n) \<and> batch_events todo running es"
| "batch_events todo running (ToolExecutionEnd i n r # es) \<longleftrightarrow>
     (\<exists>c \<in> set running. call_id c = i \<and> snd c = (n, r) \<and> batch_events todo (removeAll c running) es)"
| "batch_events todo running (e # es) \<longleftrightarrow> quiet_event e \<and> batch_events todo running es"

inductive tells :: "agent_message list \<Rightarrow> event_kind list \<Rightarrow> bool" where
  nothing: "tells [] []"
| quietly: "tells ms es \<Longrightarrow> quiet_event e \<Longrightarrow> tells ms (es @ [e])"
| prompt: "tells ms es \<Longrightarrow> tells (ms @ [UserMessage i t]) (es @ [MessageStart (UserMessage i t)])"
| answer: "tells ms es \<Longrightarrow> \<forall>(m, d) \<in> set updates. is_assistant m \<Longrightarrow>
    tells (ms @ [AssistantMessage i t calls r err])
      (es @ map (\<lambda>(m, d). MessageUpdate m d) updates @ [MessageEnd (AssistantMessage i t calls r err)])"
| batch: "tells ms es \<Longrightarrow> distinct (map call_id cs) \<Longrightarrow> batch_events cs [] evs \<Longrightarrow> tells (ms @ map call_message cs) (es @ evs)"

definition row_view :: "app_state \<Rightarrow> transcript_entry list \<times> u64 option list \<times> nat option \<times> nat btree" where
  "row_view s = (ap_transcript s, ap_sequences s, ap_streaming s, ap_tools s)"

lemma quiet_rows: "quiet_event e \<Longrightarrow> \<exists>s'. apply_kind n e s = Some s' \<and> row_view s' = row_view s"
proof (cases e)
  case (MessageStart m)
  then show "quiet_event e \<Longrightarrow> ?thesis" by (cases m) simp_all
next
  case (MessageEnd m)
  then show "quiet_event e \<Longrightarrow> ?thesis" by (cases m) simp_all
next
  case (TurnEnd t r)
  then show "quiet_event e \<Longrightarrow> ?thesis" by (cases r) (simp_all add: notice_def row_view_def)
qed (simp_all add: notice_def row_view_def)

text \<open>The state between two messages, and the one while a batch runs.\<close>

definition settled :: "agent_message list \<Rightarrow> app_state \<Rightarrow> bool" where
  "settled ms s \<longleftrightarrow> map lasting (ap_transcript s) = restored_rows 0 ms \<and> length (ap_transcript s) = length ms \<and>
     length (ap_sequences s) = length (ap_transcript s) \<and> ap_streaming s = None \<and> ap_tools s = []"

definition call_row :: "nat \<Rightarrow> batch_call \<Rightarrow> bool \<Rightarrow> transcript_entry \<Rightarrow> bool" where
  "call_row k c running e \<longleftrightarrow> (\<exists>p. e = ToolEntry p \<and> tp_call p = call_id c \<and> tp_index p = k \<and> tp_name p = fst (snd c) \<and>
     (running \<or> tp_result p = Some (content (snd (snd c))) \<and> tp_state p = (if is_error (snd (snd c)) then ToolFailed else ToolCompleted)))"

definition batching :: "transcript_entry list \<Rightarrow> batch_call list \<Rightarrow> nat \<Rightarrow> batch_call list \<Rightarrow> app_state \<Rightarrow> bool" where
  "batching rows cs k running s \<longleftrightarrow> ap_streaming s = None \<and> k \<le> length cs \<and> set running \<subseteq> set (take k cs) \<and>
     (\<exists>shown. ap_transcript s = rows @ shown \<and> length shown = k \<and> (\<forall>j < k. call_row (length rows + j) (cs ! j) (cs ! j \<in> set running) (shown ! j))) \<and>
     length (ap_sequences s) = length (ap_transcript s) \<and> btree_ok (ap_tools s) \<and>
     (\<forall>i q. btree_get (ap_tools s) i = Some q \<longleftrightarrow> (\<exists>j < k. cs ! j \<in> set running \<and> call_id (cs ! j) = i \<and> q = length rows + j))"

lemma batching_view: "row_view t = row_view s \<Longrightarrow> batching rows cs k running t = batching rows cs k running s"
  by (simp add: batching_def row_view_def)

lemma settled_view: "row_view t = row_view s \<Longrightarrow> settled ms t = settled ms s"
  by (simp add: settled_def row_view_def)

lemma batch_start:
  assumes s: "batching rows cs k running s" and k: "k < length cs" and d: "distinct (map call_id cs)"
  shows "batching rows cs (Suc k) (cs ! k # running) (new_tool (call_id (cs ! k)) n (fst (snd (cs ! k))) arguments ToolStarted None None s)"
proof -
  define c where "c = cs ! k"
  obtain shown where shown: "ap_transcript s = rows @ shown" "length shown = k"
      "\<forall>j < k. call_row (length rows + j) (cs ! j) (cs ! j \<in> set running) (shown ! j)" using s unfolding batching_def by blast
  define row where "row = \<lparr>tp_call = call_id c, tp_sequence = n, tp_index = length rows + k, tp_name = fst (snd c), tp_arguments = arguments,
      tp_progress = None, tp_result = None, tp_state = ToolStarted\<rparr>"
  define t where "t = new_tool (call_id c) n (fst (snd c)) arguments ToolStarted None None s"
  have t: "ap_transcript t = rows @ (shown @ [ToolEntry row])" "ap_sequences t = ap_sequences s @ [n]" "ap_streaming t = ap_streaming s"
      "ap_tools t = btree_insert (call_id c) (length rows + k) (ap_tools s)"
    using shown(1,2) by (simp_all add: t_def new_tool_def push_entry_def Let_def row_def)
  have other: "cs ! j \<noteq> c" "call_id (cs ! j) \<noteq> call_id c" if "j < k" for j
  proof -
    have "map call_id cs ! j \<noteq> map call_id cs ! k" using that k d by (simp add: nth_eq_iff_index_eq del: nth_map)
    then show "call_id (cs ! j) \<noteq> call_id c" using that k by (simp add: c_def)
    then show "cs ! j \<noteq> c" by auto
  qed
  have "call_row (length rows + j) (cs ! j) (cs ! j \<in> set (c # running)) ((shown @ [ToolEntry row]) ! j)" if "j < Suc k" for j
  proof (cases "j = k")
    case True
    then show ?thesis using shown(2) by (simp add: call_row_def c_def [symmetric] row_def nth_append)
  next
    case False
    then have "j < k" using that by simp
    then show ?thesis using shown(2,3) other(1) by (simp add: nth_append)
  qed
  moreover have "btree_get (ap_tools t) i = Some q \<longleftrightarrow>
      (\<exists>j < Suc k. cs ! j \<in> set (c # running) \<and> call_id (cs ! j) = i \<and> q = length rows + j)" for i q
  proof -
    have "btree_get (ap_tools t) i = (if i = call_id c then Some (length rows + k) else btree_get (ap_tools s) i)"
      using s by (simp add: t(4) btree_get_insert batching_def)
    moreover have "(\<exists>j < Suc k. cs ! j \<in> set (c # running) \<and> call_id (cs ! j) = i \<and> q = length rows + j) \<longleftrightarrow>
        i = call_id c \<and> q = length rows + k \<or> (\<exists>j < k. cs ! j \<in> set running \<and> call_id (cs ! j) = i \<and> q = length rows + j)"
      using other(1) by (auto simp: less_Suc_eq c_def [symmetric])
    moreover have "btree_get (ap_tools s) i = Some q \<longleftrightarrow> (\<exists>j < k. cs ! j \<in> set running \<and> call_id (cs ! j) = i \<and> q = length rows + j)"
      using s unfolding batching_def by blast
    ultimately show ?thesis using other(2) by auto
  qed
  moreover have "set (c # running) \<subseteq> set (take (Suc k) cs)" using s k by (auto simp: batching_def take_Suc_conv_app_nth c_def)
  moreover have "length (ap_sequences t) = length (ap_transcript t)" "btree_ok (ap_tools t)"
    using s t shown by (simp_all add: batching_def btree_ok_insert)
  ultimately have "batching rows cs (Suc k) (c # running) t"
    unfolding batching_def using s t k shown(2) by (auto simp: batching_def intro!: exI [of _ "shown @ [ToolEntry row]"])
  then show ?thesis by (simp add: t_def c_def)
qed

text \<open>A running call's row is found and replaced.\<close>

lemma batch_row:
  assumes s: "batching rows cs k running s" and c: "c \<in> set running"
  obtains j p shown where "j < k" "cs ! j = c" "ap_transcript s = rows @ shown" "length shown = k" "shown ! j = ToolEntry p"
    "\<And>n name st progress result. update_tool_line (call_id c) n name st progress result s =
       Some (s\<lparr>ap_transcript := rows @ shown[j := ToolEntry (updated_row n name st progress result p)],
         ap_sequences := (ap_sequences s)[length rows + j := n]\<rparr>)"
    "\<forall>j < k. call_row (length rows + j) (cs ! j) (cs ! j \<in> set running) (shown ! j)"
proof -
  obtain shown where shown: "ap_transcript s = rows @ shown" "length shown = k"
      "\<forall>j < k. call_row (length rows + j) (cs ! j) (cs ! j \<in> set running) (shown ! j)" using s unfolding batching_def by blast
  have "c \<in> set (take k cs)" "k \<le> length cs" using s c by (auto simp: batching_def)
  then obtain j where j: "j < k" "cs ! j = c" by (auto simp: in_set_conv_nth)
  have get: "btree_get (ap_tools s) (call_id c) = Some (length rows + j)" using s j c unfolding batching_def by blast
  obtain p where p: "shown ! j = ToolEntry p" using shown(3) j unfolding call_row_def by blast
  have entry: "entry_of s (length rows + j) = Some (ToolEntry p)" using shown j p by (simp add: entry_of_def nth_append)
  have seqs: "length rows + j < length (ap_sequences s)" using s shown j by (simp add: batching_def)
  have "update_tool_line (call_id c) n name st progress result s =
       Some (s\<lparr>ap_transcript := rows @ shown[j := ToolEntry (updated_row n name st progress result p)],
         ap_sequences := (ap_sequences s)[length rows + j := n]\<rparr>)" for n name st progress result
    using get entry seqs shown(1) by (simp add: update_tool_line_def set_sequence_def set_entry_def list_update_append)
  then show thesis using that j shown p by blast
qed

lemma batch_update:
  assumes s: "batching rows cs k running s" and c: "c \<in> set running" and d: "distinct (map call_id cs)"
  shows "\<exists>t. update_tool_line (call_id c) n (fst (snd c)) st progress result s = Some t \<and> batching rows cs k running t"
proof -
  obtain j p shown where j: "j < k" "cs ! j = c" and shown: "ap_transcript s = rows @ shown" "length shown = k" "shown ! j = ToolEntry p"
    and upd: "\<And>n name st progress result. update_tool_line (call_id c) n name st progress result s =
       Some (s\<lparr>ap_transcript := rows @ shown[j := ToolEntry (updated_row n name st progress result p)],
         ap_sequences := (ap_sequences s)[length rows + j := n]\<rparr>)"
    and rows: "\<forall>j < k. call_row (length rows + j) (cs ! j) (cs ! j \<in> set running) (shown ! j)"
    by (rule batch_row [OF s c]) blast
  define e where "e = ToolEntry (updated_row n (fst (snd c)) st progress result p)"
  have "call_row (length rows + j) c True e" using rows j c shown(3) unfolding e_def call_row_def updated_row_def by auto
  then have "\<forall>i < k. call_row (length rows + i) (cs ! i) (cs ! i \<in> set running) (shown[j := e] ! i)"
    using rows j c shown(2) by (auto simp: nth_list_update)
  then have "batching rows cs k running (s\<lparr>ap_transcript := rows @ shown[j := e], ap_sequences := (ap_sequences s)[length rows + j := n]\<rparr>)"
    using s shown unfolding batching_def by auto
  then show ?thesis using upd unfolding e_def by blast
qed

lemma batch_end:
  assumes s: "batching rows cs k running s" and c: "c \<in> set running" and d: "distinct (map call_id cs)"
  shows "\<exists>t. end_tool n (call_id c) (fst (snd c)) (snd (snd c)) s = Some t \<and> batching rows cs k (removeAll c running) t"
proof -
  obtain j p shown where j: "j < k" "cs ! j = c" and shown: "ap_transcript s = rows @ shown" "length shown = k" "shown ! j = ToolEntry p"
    and upd: "\<And>n name st progress result. update_tool_line (call_id c) n name st progress result s =
       Some (s\<lparr>ap_transcript := rows @ shown[j := ToolEntry (updated_row n name st progress result p)],
         ap_sequences := (ap_sequences s)[length rows + j := n]\<rparr>)"
    and rows: "\<forall>j < k. call_row (length rows + j) (cs ! j) (cs ! j \<in> set running) (shown ! j)"
    by (rule batch_row [OF s c]) blast
  define st where "st = (if is_error (snd (snd c)) then ToolFailed else ToolCompleted)"
  define e where "e = ToolEntry (updated_row n (fst (snd c)) st None (Some (content (snd (snd c)))) p)"
  define t where "t = s\<lparr>ap_transcript := rows @ shown[j := e], ap_sequences := (ap_sequences s)[length rows + j := n],
      ap_tools := btree_remove (call_id c) (ap_tools s)\<rparr>"
  have ids: "call_id (cs ! i) = call_id c \<longleftrightarrow> i = j" if "i < k" for i
  proof -
    have "i < length cs" "j < length cs" using s j that by (auto simp: batching_def)
    then have "map call_id cs ! i = map call_id cs ! j \<longleftrightarrow> i = j" using d by (simp add: nth_eq_iff_index_eq del: nth_map)
    then show ?thesis using \<open>i < length cs\<close> \<open>j < length cs\<close> j by simp
  qed
  have "call_row (length rows + j) c False e" using rows j c shown(3) unfolding e_def call_row_def updated_row_def st_def by auto
  then have "call_row (length rows + i) (cs ! i) (cs ! i \<in> set (removeAll c running)) (shown[j := e] ! i)" if "i < k" for i
  proof (cases "i = j")
    case False
    then have "cs ! i \<noteq> c" using ids [OF that] by auto
    then show ?thesis using rows that False by simp
  qed (use j shown(2) in simp)
  moreover have "btree_get (ap_tools t) i = Some q \<longleftrightarrow>
      (\<exists>m < k. cs ! m \<in> set (removeAll c running) \<and> call_id (cs ! m) = i \<and> q = length rows + m)" for i q
  proof -
    have "btree_get (ap_tools s) i = Some q \<longleftrightarrow> (\<exists>m < k. cs ! m \<in> set running \<and> call_id (cs ! m) = i \<and> q = length rows + m)"
      using s unfolding batching_def by blast
    moreover have "cs ! m \<in> set (removeAll c running) \<and> call_id (cs ! m) = i \<longleftrightarrow>
        i \<noteq> call_id c \<and> cs ! m \<in> set running \<and> call_id (cs ! m) = i" if "m < k" for m
      using ids [OF that] j by auto
    then have "(\<exists>m < k. cs ! m \<in> set (removeAll c running) \<and> call_id (cs ! m) = i \<and> q = length rows + m) \<longleftrightarrow>
        i \<noteq> call_id c \<and> (\<exists>m < k. cs ! m \<in> set running \<and> call_id (cs ! m) = i \<and> q = length rows + m)" by blast
    ultimately show ?thesis by (simp add: t_def btree_get_remove)
  qed
  moreover have "btree_ok (ap_tools t)" using s by (simp add: t_def batching_def btree_ok_remove)
  ultimately have "batching rows cs k (removeAll c running) t"
    using s shown unfolding batching_def by (auto simp: t_def)
  moreover have "end_tool n (call_id c) (fst (snd c)) (snd (snd c)) s = Some t"
    by (simp add: end_tool_def upd t_def e_def st_def)
  ultimately show ?thesis by blast
qed

fun apply_kinds :: "(u64 option \<times> event_kind) list \<Rightarrow> app_state \<Rightarrow> app_state option" where
  "apply_kinds [] s = Some s"
| "apply_kinds ((n, e) # es) s = Option.bind (apply_kind n e s) (apply_kinds es)"

lemma apply_kinds_append: "apply_kinds (as @ bs) s = Option.bind (apply_kinds as s) (apply_kinds bs)"
proof (induction as arbitrary: s)
  case (Cons a as)
  then show ?case by (cases a) (simp split: bind_split)
qed simp

lemma batch_runs:
  assumes "distinct (map call_id cs)"
  shows "batch_events todo running (map snd es) \<Longrightarrow> batching rows cs k running s \<Longrightarrow> todo = drop k cs \<Longrightarrow>
    \<exists>t. apply_kinds es s = Some t \<and> batching rows cs (length cs) [] t"
proof (induction es arbitrary: todo running k s)
  case Nil
  then show ?case by (auto simp: batching_def)
next
  case (Cons ne es)
  obtain n e where ne: "ne = (n, e)" by fastforce
  show ?case
  proof (cases "\<exists>i m a. e = ToolExecutionStart i m a")
    case True
    then obtain i m a where e: "e = ToolExecutionStart i m a" by blast
    then obtain c todo' where c: "todo = c # todo'" "i = call_id c" "m = fst (snd c)" "batch_events todo' (c # running) (map snd es)"
      using Cons.prems(1) by (auto simp: ne split: list.splits)
    have k: "k < length cs" "c = cs ! k" "todo' = drop (Suc k) cs"
      using Cons.prems(3) c(1) by (metis drop_all linorder_not_less list.discI, metis nth_via_drop, metis drop_Suc list.sel(3) tl_drop)
    from batch_start [OF Cons.prems(2) k(1) assms] have "batching rows cs (Suc k) (c # running)
        (new_tool i n m a ToolStarted None None s)" by (simp add: c(2,3) k(2))
    from Cons.IH [OF c(4) this k(3)] show ?thesis by (simp add: ne e)
  next
    case start: False
    show ?thesis
    proof (cases "\<exists>i m u. e = ToolExecutionUpdate i m u")
      case True
      then obtain i m u where e: "e = ToolExecutionUpdate i m u" by blast
      then obtain c where c: "c \<in> set running" "call_id c = i" "fst (snd c) = m" "batch_events todo running (map snd es)"
        using Cons.prems(1) by (auto simp: ne)
      from batch_update [OF Cons.prems(2) c(1) assms] obtain t where
        t: "update_tool_line i n m ToolProgress (Some (update_content u)) None s = Some t" "batching rows cs k running t" unfolding c(2,3) by blast
      from Cons.IH [OF c(4) t(2) Cons.prems(3)] show ?thesis by (simp add: ne e t(1))
    next
      case update: False
      show ?thesis
      proof (cases "\<exists>i m r. e = ToolExecutionEnd i m r")
        case True
        then obtain i m r where e: "e = ToolExecutionEnd i m r" by blast
        then obtain c where c: "c \<in> set running" "call_id c = i" "snd c = (m, r)" "batch_events todo (removeAll c running) (map snd es)"
          using Cons.prems(1) by (auto simp: ne)
        from batch_end [OF Cons.prems(2) c(1) assms, of n] obtain t where
          t: "end_tool n i m r s = Some t" "batching rows cs k (removeAll c running) t" by (auto simp: c(2,3))
        from Cons.IH [OF c(4) t(2) Cons.prems(3)] show ?thesis by (simp add: ne e t(1))
      next
        case False
        then have q: "quiet_event e" "batch_events todo running (map snd es)" using Cons.prems(1) start update by (cases e; auto simp: ne)+
        from quiet_rows [OF q(1)] obtain t where t: "apply_kind n e s = Some t" "row_view t = row_view s" by blast
        have "batching rows cs k running t" using batching_view [OF t(2)] Cons.prems(2) by simp
        from Cons.IH [OF q(2) this Cons.prems(3)] show ?thesis by (simp add: ne t(1))
      qed
    qed
  qed
qed

lemma settled_batching: "settled ms s \<Longrightarrow> batching (ap_transcript s) cs 0 [] s"
  by (simp add: settled_def batching_def btree_ok_def)

lemma map_of_empty: "(\<And>i q. map_of es i \<noteq> Some q) \<Longrightarrow> es = []"
proof (cases es)
  case (Cons e es')
  moreover assume "\<And>i q. map_of es i \<noteq> Some q"
  then have "map_of es (fst e) \<noteq> Some (snd e)" .
  ultimately show ?thesis by simp
qed simp

lemma restored_rows_nth: "j < length ms \<Longrightarrow> restored_rows k ms ! j = restored_entry (ms ! j) (k + j)"
proof (induction ms arbitrary: j k)
  case (Cons m ms)
  then show ?case by (cases j) simp_all
qed simp

lemma restored_rows_length [simp]: "length (restored_rows k ms) = length ms"
  by (induction ms arbitrary: k) simp_all

lemma call_row_lasting: "call_row k c False e \<Longrightarrow> lasting e = restored_entry (call_message c) k"
  by (cases c) (auto simp: call_row_def call_message_def call_id_def)

lemma batching_settled:
  assumes "settled ms s" and "batching (ap_transcript s) cs (length cs) [] t"
  shows "settled (ms @ map call_message cs) t"
proof -
  obtain shown where shown: "ap_transcript t = ap_transcript s @ shown" "length shown = length cs"
      "\<forall>j < length cs. call_row (length (ap_transcript s) + j) (cs ! j) False (shown ! j)"
    using assms(2) unfolding batching_def by auto
  have "map lasting shown = restored_rows (length ms) (map call_message cs)"
  proof (rule nth_equalityI)
    show "length (map lasting shown) = length (restored_rows (length ms) (map call_message cs))" using shown(2) by simp
    show "map lasting shown ! j = restored_rows (length ms) (map call_message cs) ! j" if "j < length (map lasting shown)" for j
      using that shown call_row_lasting [of "length ms + j" "cs ! j" "shown ! j"] assms(1)
      by (simp add: settled_def restored_rows_nth)
  qed
  moreover have "ap_tools t = []" using assms(2) by (intro map_of_empty) (auto simp: batching_def)
  ultimately show ?thesis using assms shown(1,2)
    by (auto simp: settled_def batching_def restored_rows_append)
qed

text \<open>A streamed answer: one row that grows until its end.\<close>

definition streaming_row :: "transcript_entry list \<Rightarrow> app_state \<Rightarrow> bool" where
  "streaming_row rows s \<longleftrightarrow> (\<exists>t. ap_transcript s = rows @ [AssistantEntry t True]) \<and> ap_streaming s = Some (length rows) \<and>
     length (ap_sequences s) = length (ap_transcript s) \<and> ap_tools s = []"

definition unstarted :: "transcript_entry list \<Rightarrow> app_state \<Rightarrow> bool" where
  "unstarted rows s \<longleftrightarrow> ap_transcript s = rows \<and> ap_streaming s = None \<and> length (ap_sequences s) = length (ap_transcript s) \<and> ap_tools s = []"

lemma stream_step: "streaming_row rows s \<or> unstarted rows s \<Longrightarrow> streaming_row rows (stream_delta n d s)"
  by (auto simp: streaming_row_def unstarted_def stream_delta_def entry_of_def set_entry_def push_entry_def list_update_append)

lemma stream_steps:
  "\<forall>(n, e) \<in> set es. \<exists>m d. e = MessageUpdate m d \<and> is_assistant m \<Longrightarrow> streaming_row rows s \<or> unstarted rows s \<Longrightarrow>
     \<exists>t. apply_kinds es s = Some t \<and> (streaming_row rows t \<or> unstarted rows t)"
proof (induction es arbitrary: s)
  case (Cons a es)
  obtain n m d where a: "a = (n, MessageUpdate m d)" "is_assistant m" using Cons.prems(1) by (cases a) auto
  have "streaming_row rows (stream_delta n d s)" using stream_step [OF Cons.prems(2)] .
  then show ?case using Cons.IH [of "stream_delta n d s"] Cons.prems(1) a by simp
qed auto

lemma stream_ends:
  assumes "streaming_row rows s \<or> unstarted rows s"
  shows "\<exists>t. end_assistant n text err s = Some t \<and> ap_streaming t = None \<and> ap_tools t = [] \<and> length (ap_sequences t) = length (ap_transcript t) \<and>
    ap_transcript t = rows @ [case err of Some e \<Rightarrow> ErrorEntry e | None \<Rightarrow> AssistantEntry text False]"
  using assms by (cases err)
    (auto simp: streaming_row_def unstarted_def end_assistant_def entry_of_def set_entry_def set_sequence_def push_entry_def list_update_append)

lemma map_split: "map f xs = ys @ zs \<Longrightarrow> \<exists>as bs. xs = as @ bs \<and> map f as = ys \<and> map f bs = zs"
  by (auto simp: map_eq_append_conv)

lemma tells_settles:
  "tells ms es \<Longrightarrow> map snd kinds = es \<Longrightarrow> settled [] s \<Longrightarrow> \<exists>t. apply_kinds kinds s = Some t \<and> settled ms t"
proof (induction ms es arbitrary: kinds rule: tells.induct)
  case nothing
  then show ?case by simp
next
  case (quietly ms es e)
  then obtain as n where k: "kinds = as @ [(n, e)]" "map snd as = es" by (auto simp: map_eq_append_conv)
  from quietly.IH [OF k(2) quietly.prems(2)] obtain t where t: "apply_kinds as s = Some t" "settled ms t" by blast
  from quiet_rows [OF quietly.hyps(2)] obtain u where u: "apply_kind n e t = Some u" "row_view u = row_view t" by blast
  then show ?case using t settled_view [OF u(2)] by (simp add: k(1) apply_kinds_append)
next
  case (prompt ms es i t)
  then obtain as n where k: "kinds = as @ [(n, MessageStart (UserMessage i t))]" "map snd as = es" by (auto simp: map_eq_append_conv)
  from prompt.IH [OF k(2) prompt.prems(2)] obtain u where u: "apply_kinds as s = Some u" "settled ms u" by blast
  then show ?case by (auto simp: k(1) apply_kinds_append settled_def push_entry_def restored_rows_append)
next
  case (answer ms es updates i t calls r err)
  from map_split [OF answer.prems(1)] obtain as vs where as: "kinds = as @ vs" "map snd as = es"
      "map snd vs = map (\<lambda>(m, d). MessageUpdate m d) updates @ [MessageEnd (AssistantMessage i t calls r err)]" by (elim exE conjE) (rule that; assumption)
  from map_split [OF as(3)] obtain bs ws where bs: "vs = bs @ ws" "map snd bs = map (\<lambda>(m, d). MessageUpdate m d) updates"
      "map snd ws = [MessageEnd (AssistantMessage i t calls r err)]" by (elim exE conjE) (rule that; assumption)
  from bs(3) obtain n where "ws = [(n, MessageEnd (AssistantMessage i t calls r err))]" by auto
  with as bs have k: "kinds = as @ bs @ [(n, MessageEnd (AssistantMessage i t calls r err))]" "map snd as = es"
      "map snd bs = map (\<lambda>(m, d). MessageUpdate m d) updates" by simp_all
  from answer.IH [OF k(2) answer.prems(2)] obtain u where u: "apply_kinds as s = Some u" "settled ms u" by blast
  have updates: "\<forall>(n, e) \<in> set bs. \<exists>m d. e = MessageUpdate m d \<and> is_assistant m"
  proof -
    have "set (map snd bs) = set (map (\<lambda>(m, d). MessageUpdate m d) updates)" by (simp only: k(3))
    then have same: "snd ` set bs = (\<lambda>(m, d). MessageUpdate m d) ` set updates" by simp
    show ?thesis
    proof (rule ballI, clarify)
      fix n e assume "(n, e) \<in> set bs"
      then have "e \<in> snd ` set bs" by (rule image_eqI [rotated]) simp
      then obtain m d where "(m, d) \<in> set updates" "e = MessageUpdate m d" unfolding same by auto
      then show "\<exists>m d. e = MessageUpdate m d \<and> is_assistant m" using answer.hyps(2) by auto
    qed
  qed
  have "unstarted (ap_transcript u) u" using u(2) by (simp add: settled_def unstarted_def)
  with stream_steps [OF updates] obtain v where v: "apply_kinds bs u = Some v"
      "streaming_row (ap_transcript u) v \<or> unstarted (ap_transcript u) v" by blast
  from stream_ends [OF v(2), of n t err] obtain w where w: "end_assistant n t err v = Some w" "ap_streaming w = None" "ap_tools w = []"
      "length (ap_sequences w) = length (ap_transcript w)"
      "ap_transcript w = ap_transcript u @ [case err of Some e \<Rightarrow> ErrorEntry e | None \<Rightarrow> AssistantEntry t False]" by blast
  have "settled (ms @ [AssistantMessage i t calls r err]) w"
    using u(2) w by (cases err) (simp_all add: settled_def restored_rows_append)
  then show ?case using u(1) v(1) w(1) by (simp add: k(1) apply_kinds_append)
next
  case (batch ms es cs evs)
  from map_split [OF batch.prems(1)] obtain as bs where k: "kinds = as @ bs" "map snd as = es" "map snd bs = evs" by blast
  from batch.IH [OF k(2) batch.prems(2)] obtain u where u: "apply_kinds as s = Some u" "settled ms u" by (elim exE conjE) (rule that; assumption)
  have "batch_events cs [] (map snd bs)" using batch.hyps(3) k(3) by simp
  from batch_runs [OF batch.hyps(2) this settled_batching [OF u(2)]] obtain v where
    v: "apply_kinds bs u = Some v" "batching (ap_transcript u) cs (length cs) [] v" by auto
  then show ?case using u(1) batching_settled [OF u(2) v(2)] by (simp add: k(1) apply_kinds_append)
qed

lemma apply_events_kinds: "apply_events es s = apply_kinds (map (\<lambda>e. (Some (ev_sequence e), ev_kind e)) es) s"
  by (induction es arbitrary: s) (auto simp: apply_event_def split: bind_split)

text \<open>C21: what a conversation looks like does not depend on how it got on the screen: the rows made from the events of its messages,
  answers streamed in any pieces and calls of a batch running in any interleaving, are those made when the conversation is loaded, up to
  the events' numbers and the arguments and last progress of calls, which a loaded conversation does not show.\<close>

theorem live_rows_are_restored_rows:
  assumes "tells ms (map ev_kind es)"
  shows "\<exists>s. apply_events es app_new = Some s \<and> map lasting (ap_transcript s) = ap_transcript (restore_conversation ms app_new)"
proof -
  have "settled [] app_new" by (simp add: settled_def app_new_def)
  moreover have "map snd (map (\<lambda>e. (Some (ev_sequence e), ev_kind e)) es) = map ev_kind es" by simp
  ultimately show ?thesis
    using tells_settles [OF assms, of "map (\<lambda>e. (Some (ev_sequence e), ev_kind e)) es" app_new]
    by (auto simp: apply_events_kinds restored_transcript settled_def)
qed

definition sample_event :: "event_kind \<Rightarrow> agent_event" where
  "sample_event k = \<lparr>ev_run = 1, ev_sequence = 1, ev_kind = k\<rparr>"

definition listing_result :: agent_tool_result where
  "listing_result = \<lparr>tool_call_id = ''a'', content = ''x'', details = None, result_usage = None, added_tool_names = [],
     terminate = False, is_error = False, failure = None\<rparr>"

definition sample_kinds :: "event_kind list" where
  "sample_kinds = [AgentStart, MessageStart (UserMessage 1 ''go''), ToolExecutionStart ''a'' ''ls'' ''{}'',
     ToolExecutionUpdate ''a'' ''ls'' \<lparr>update_content = ''..'', update_details = None\<rparr>, ToolExecutionEnd ''a'' ''ls'' listing_result]"

theorem live_rows_are_restored_rows_witness:
  "tells [UserMessage 1 ''go'', ToolResultMessage 2 ''ls'' listing_result] sample_kinds \<and>
   (\<exists>s. apply_events (map sample_event sample_kinds) app_new = Some s \<and> map lasting (ap_transcript s) =
      ap_transcript (restore_conversation [UserMessage 1 ''go'', ToolResultMessage 2 ''ls'' listing_result] app_new))"
proof -
  let ?c = "(2, ''ls'', listing_result)"
  have "tells [UserMessage 1 ''go''] [AgentStart, MessageStart (UserMessage 1 ''go'')]"
    using tells.prompt [OF tells.quietly [OF tells.nothing, of AgentStart]] by simp
  moreover have "distinct (map call_id [?c])" by simp
  moreover have "batch_events [?c] [] (drop 2 sample_kinds)"
    by (simp add: sample_kinds_def call_id_def listing_result_def)
  ultimately have "tells ([UserMessage 1 ''go''] @ map call_message [?c])
      ([AgentStart, MessageStart (UserMessage 1 ''go'')] @ drop 2 sample_kinds)" by (rule tells.batch)
  then have t: "tells [UserMessage 1 ''go'', ToolResultMessage 2 ''ls'' listing_result] sample_kinds"
    by (simp add: call_message_def sample_kinds_def)
  moreover have "map ev_kind (map sample_event sample_kinds) = sample_kinds" by (simp add: sample_event_def comp_def)
  ultimately show ?thesis
    using live_rows_are_restored_rows [of _ "map sample_event sample_kinds"] by simp
qed

end
